(* ===== verification/Prelude.thy ===== *)
theory Prelude
  imports Main "HOL-Library.Word"
begin

text \<open>
  Shared vocabulary of the development: the names of the machine types, Rust's
  \<^verbatim>\<open>Result\<close> with its \<^verbatim>\<open>?\<close> operator, \<^verbatim>\<open>Vec\<close> operations, and little-endian
  byte strings with the arithmetic facts the components share.  Everything here is
  language and standard library; no definition of this theory models repository code.
\<close>

unbundle bit_operations_syntax

subsection \<open>Machine types\<close>

type_synonym u8 = "8 word"
type_synonym u16 = "16 word"
type_synonym u32 = "32 word"
type_synonym u64 = "64 word"
type_synonym bytes = "u8 list"

named_theorems codec_simps \<open>equations that unfold encoders and decoders\<close>
named_theorems word_ext \<open>conversions between machine words and natural numbers\<close>

definition U64_MAX :: nat where
  "U64_MAX = 2 ^ 64 - 1"

definition U32_MAX :: nat where
  "U32_MAX = 2 ^ 32 - 1"

subsection \<open>Result and the question-mark operator\<close>

text \<open>\<open>Inl\<close> is Rust's \<^verbatim>\<open>Err\<close>, \<open>Inr\<close> its \<^verbatim>\<open>Ok\<close>; \<^verbatim>\<open>and_then\<close> is what \<^verbatim>\<open>?\<close> does.\<close>

fun and_then :: "'e + 'a \<Rightarrow> ('a \<Rightarrow> 'e + 'b) \<Rightarrow> 'e + 'b" where
  "and_then (Inl e) f = Inl e"
| "and_then (Inr x) f = f x"

lemma and_then_cong [fundef_cong]:
  "m = m' \<Longrightarrow> (\<And>x. m' = Inr x \<Longrightarrow> f x = f' x) \<Longrightarrow> and_then m f = and_then m' f'"
  by (cases m') auto

lemma and_then_eq_Inr: "and_then m f = Inr y \<longleftrightarrow> (\<exists>x. m = Inr x \<and> f x = Inr y)"
  by (cases m) auto

lemma and_then_eq_Inl:
  "and_then m f = Inl e \<longleftrightarrow> m = Inl e \<or> (\<exists>x. m = Inr x \<and> f x = Inl e)"
  by (cases m) auto

lemma and_then_assoc: "and_then (and_then m f) g = and_then m (\<lambda>x. and_then (f x) g)"
  by (cases m) auto

lemma and_then_InrE:
  assumes "and_then m f = Inr y"
  obtains x where "m = Inr x" "f x = Inr y"
  using assms by (auto simp: and_then_eq_Inr)

text \<open>\<open>ok_or\<close> is \<^verbatim>\<open>Option::ok_or\<close>; \<open>guard_ok\<close> is an early return of an error.\<close>

fun ok_or :: "'e \<Rightarrow> 'a option \<Rightarrow> 'e + 'a" where
  "ok_or e None = Inl e"
| "ok_or e (Some x) = Inr x"

lemma ok_or_eq_Inr [simp]: "ok_or e m = Inr x \<longleftrightarrow> m = Some x"
  by (cases m) auto

lemma ok_or_eq_Inl [simp]: "ok_or e m = Inl e' \<longleftrightarrow> m = None \<and> e' = e"
  by (cases m) auto

definition guard_ok :: "bool \<Rightarrow> 'e \<Rightarrow> 'e + unit" where
  "guard_ok b e = (if b then Inr () else Inl e)"

lemma guard_ok_eq_Inr [simp]: "guard_ok b e = Inr u \<longleftrightarrow> b"
  by (simp add: guard_ok_def)

lemma guard_ok_simps [simp]: "guard_ok True e = Inr ()" "guard_ok False e = Inl e"
  by (simp_all add: guard_ok_def)

text \<open>\<^verbatim>\<open>map_err\<close>\<close>

definition map_err :: "('e \<Rightarrow> 'f) \<Rightarrow> 'e + 'a \<Rightarrow> 'f + 'a" where
  "map_err f m = map_sum f id m"

lemma map_err_simps [simp]: "map_err f (Inl e) = Inl (f e)" "map_err f (Inr x) = Inr x"
  by (simp_all add: map_err_def)

lemma map_err_eq_Inr [simp]: "map_err f m = Inr x \<longleftrightarrow> m = Inr x"
  by (cases m) auto

text \<open>\<open>fold_res\<close> is a \<^verbatim>\<open>for\<close> loop whose body may return early with an error.\<close>

fun fold_res :: "('s \<Rightarrow> 'a \<Rightarrow> 'e + 's) \<Rightarrow> 's \<Rightarrow> 'a list \<Rightarrow> 'e + 's" where
  "fold_res f s [] = Inr s"
| "fold_res f s (x # xs) = and_then (f s x) (\<lambda>s'. fold_res f s' xs)"

lemma fold_res_append:
  "fold_res f s (xs @ ys) = and_then (fold_res f s xs) (\<lambda>s'. fold_res f s' ys)"
  by (induction xs arbitrary: s) (simp_all add: and_then_assoc)

lemma fold_res_invariant:
  assumes "fold_res f s xs = Inr s'" and "P s"
    and "\<And>s x s'. x \<in> set xs \<Longrightarrow> P s \<Longrightarrow> f s x = Inr s' \<Longrightarrow> P s'"
  shows "P s'"
  using assms
proof (induction xs arbitrary: s)
  case (Cons x xs)
  from Cons.prems(1) obtain t where t: "f s x = Inr t" "fold_res f t xs = Inr s'"
    by (auto simp: and_then_eq_Inr)
  have "P t" using Cons.prems(2,3) t(1) by (meson list.set_intros(1))
  with Cons.IH [OF t(2)] Cons.prems(3) show ?case by (meson list.set_intros(2))
qed simp

subsection \<open>Vec\<close>

text \<open>
  A \<^verbatim>\<open>Vec\<close> is a list in the same order: the top of a stack is the last element.
  \<open>vec_pop\<close>, \<open>vec_remove\<close>, \<open>vec_insert\<close> and \<open>vec_swap\<close> are the standard library's methods
  on an index in range.
\<close>

definition vec_pop :: "'a list \<Rightarrow> ('a \<times> 'a list) option" where
  "vec_pop xs = (if xs = [] then None else Some (last xs, butlast xs))"

definition vec_remove :: "'a list \<Rightarrow> nat \<Rightarrow> 'a \<times> 'a list" where
  "vec_remove xs i = (xs ! i, take i xs @ drop (Suc i) xs)"

definition vec_insert :: "'a list \<Rightarrow> nat \<Rightarrow> 'a \<Rightarrow> 'a list" where
  "vec_insert xs i x = take i xs @ x # drop i xs"

definition vec_swap :: "'a list \<Rightarrow> nat \<Rightarrow> nat \<Rightarrow> 'a list" where
  "vec_swap xs i j = xs[i := xs ! j, j := xs ! i]"

lemma vec_pop_Nil [simp]: "vec_pop [] = None"
  by (simp add: vec_pop_def)

lemma vec_pop_snoc [simp]: "vec_pop (xs @ [x]) = Some (x, xs)"
  by (simp add: vec_pop_def)

lemma vec_pop_SomeD: "vec_pop xs = Some (x, ys) \<Longrightarrow> xs = ys @ [x]"
  by (auto simp: vec_pop_def split: if_splits)

lemma length_vec_swap [simp]: "length (vec_swap xs i j) = length xs"
  by (simp add: vec_swap_def)

lemma length_vec_insert [simp]: "length (vec_insert xs i x) = Suc (length xs)"
  by (simp add: vec_insert_def)

lemma length_vec_remove [simp]: "i < length xs \<Longrightarrow> length (snd (vec_remove xs i)) = length xs - 1"
  by (simp add: vec_remove_def)

subsection \<open>Little-endian byte strings\<close>

text \<open>\<open>le_bytes n v\<close> are the \<open>n\<close> low bytes of \<open>v\<close>, least significant first.\<close>

primrec le_bytes :: "nat \<Rightarrow> nat \<Rightarrow> bytes" where
  "le_bytes 0 v = []"
| "le_bytes (Suc n) v = word_of_nat v # le_bytes n (v div 256)"

primrec le_nat :: "bytes \<Rightarrow> nat" where
  "le_nat [] = 0"
| "le_nat (b # bs) = unat b + 256 * le_nat bs"

lemma length_le_bytes [simp]: "length (le_bytes n v) = n"
  by (induction n arbitrary: v) auto

lemma unat_byte_lt [simp]: "unat (b :: u8) < 256"
  using unsigned_less [of b, where ?'a = nat] by simp

lemma unat_word_of_nat_byte [word_ext]: "unat (word_of_nat v :: u8) = v mod 256"
  by (simp add: unsigned_of_nat take_bit_eq_mod)

lemma unat_word_of_nat_u16 [word_ext]: "unat (word_of_nat v :: u16) = v mod 2 ^ 16"
  by (simp add: unsigned_of_nat take_bit_eq_mod)

lemma unat_word_of_nat_u32 [word_ext]: "unat (word_of_nat v :: u32) = v mod 2 ^ 32"
  by (simp add: unsigned_of_nat take_bit_eq_mod)

lemma unat_word_of_nat_u64 [word_ext]: "unat (word_of_nat v :: u64) = v mod 2 ^ 64"
  by (simp add: unsigned_of_nat take_bit_eq_mod)

lemma le_nat_lt: "le_nat bs < 256 ^ length bs"
proof (induction bs)
  case (Cons b bs)
  have "unat b < 256" by (rule unat_byte_lt)
  moreover have "Suc (le_nat bs) * 256 \<le> 256 ^ length bs * 256"
    using Cons by (intro mult_right_mono) auto
  ultimately show ?case by (simp del: unat_byte_lt)
qed simp

lemma le_nat_le_bytes: "le_nat (le_bytes n v) = v mod 256 ^ n"
proof (induction n arbitrary: v)
  case (Suc n)
  have "v mod 256 + 256 * (v div 256 mod 256 ^ n) = v mod (256 * 256 ^ n)"
    by (metis add.commute mod_mult2_eq)
  with Suc show ?case by (simp add: unat_word_of_nat_byte)
qed simp

lemma le_nat_le_bytes_id [simp]: "v < 256 ^ n \<Longrightarrow> le_nat (le_bytes n v) = v"
  by (simp add: le_nat_le_bytes)

lemma le_bytes_le_nat [simp]: "le_bytes (length bs) (le_nat bs) = bs"
proof (induction bs)
  case (Cons b bs)
  have b: "word_of_nat (unat b + 256 * le_nat bs) = b"
    by (rule word_unat_eq_iff [THEN iffD2]) (simp add: unat_word_of_nat_byte del: of_nat_add)
  have "(unat b + 256 * le_nat bs) div 256 = le_nat bs"
    by simp
  with Cons b show ?case by (simp del: of_nat_add)
qed simp

lemma le_nat_inject: "length bs = length cs \<Longrightarrow> le_nat bs = le_nat cs \<longleftrightarrow> bs = cs"
  by (metis le_bytes_le_nat)

lemma le_nat_append: "le_nat (bs @ cs) = le_nat bs + 256 ^ length bs * le_nat cs"
  by (induction bs) (auto simp: algebra_simps)

lemma le_nat_replicate_0 [simp]: "le_nat (replicate n 0) = 0"
  by (induction n) auto

lemma le_bytes_0 [simp]: "le_bytes n 0 = replicate n 0"
  by (induction n) auto

lemma le_nat_eq_0_iff: "le_nat bs = 0 \<longleftrightarrow> (\<forall>b \<in> set bs. b = 0)"
  by (induction bs) (auto simp: unsigned_eq_0_iff)

text \<open>\<open>to_le n w\<close> is \<^verbatim>\<open>w.to_le_bytes()\<close> of an \<open>n\<close>-byte integer, \<open>of_le\<close> is \<^verbatim>\<open>from_le_bytes\<close>.\<close>

definition to_le :: "nat \<Rightarrow> 'a::len word \<Rightarrow> bytes" where
  "to_le n w = le_bytes n (unat w)"

definition of_le :: "bytes \<Rightarrow> 'a::len word" where
  "of_le bs = word_of_nat (le_nat bs)"

lemma length_to_le [simp]: "length (to_le n w) = n"
  by (simp add: to_le_def)

lemma pow256: "(256 :: nat) ^ n = 2 ^ (8 * n)"
  by (simp add: power_mult)

lemma of_le_to_le [simp]:
  fixes w :: "'a::len word"
  assumes "LENGTH('a) \<le> 8 * n"
  shows "of_le (to_le n w) = w"
proof -
  have "unat w < 2 ^ LENGTH('a)" by (rule unsigned_less)
  also have "(2::nat) ^ LENGTH('a) \<le> 256 ^ n"
    by (simp only: pow256) (rule power_increasing [OF assms], simp)
  finally show ?thesis by (simp add: of_le_def to_le_def)
qed

lemma unat_of_le:
  assumes "8 * length bs \<le> LENGTH('a::len)"
  shows "unat (of_le bs :: 'a word) = le_nat bs"
proof -
  have "le_nat bs < 2 ^ (8 * length bs)"
    using le_nat_lt [of bs] by (simp only: pow256)
  also have "(2::nat) ^ (8 * length bs) \<le> 2 ^ LENGTH('a)"
    by (rule power_increasing [OF assms]) simp
  finally show ?thesis
    by (simp add: of_le_def unsigned_of_nat take_bit_nat_eq_self_iff)
qed

lemma to_le_of_le [simp]:
  assumes "8 * length bs \<le> LENGTH('a::len)"
  shows "to_le (length bs) (of_le bs :: 'a word) = bs"
  by (simp add: to_le_def unat_of_le [OF assms])

lemma to_le_of_le_n:
  assumes "length bs = n" "8 * n \<le> LENGTH('a::len)"
  shows "to_le n (of_le bs :: 'a word) = bs"
  using to_le_of_le [of bs, where ?'a = 'a] assms by simp

lemma to_le4_inject [simp]: "to_le 4 (a :: u32) = to_le 4 b \<longleftrightarrow> a = b"
proof
  have "of_le (to_le 4 w) = w" for w :: u32 by (rule of_le_to_le) simp
  then show "a = b" if "to_le 4 a = to_le 4 b" using that by metis
qed simp

subsection \<open>Slices\<close>

lemma take_drop_split: "n \<le> length xs \<Longrightarrow> xs = take n xs @ drop n xs"
  by simp

lemma drop_eq_append_imp:
  assumes "drop n xs = ys @ zs" "n \<le> length xs"
  shows "take (length ys) (drop n xs) = ys" "drop (n + length ys) xs = zs"
    "n + length ys \<le> length xs"
proof -
  show "take (length ys) (drop n xs) = ys" by (simp add: assms)
  show "drop (n + length ys) xs = zs"
    by (metis add.commute append_eq_conv_conj assms(1) drop_drop)
  have "length (drop n xs) = length ys + length zs" by (simp add: assms)
  with assms(2) show "n + length ys \<le> length xs" by simp
qed

end
