(* ===== verification/Wire.thy ===== *)
theory Wire
  imports Prelude
begin

text \<open>
  The Bitcoin wire format of \<^verbatim>\<open>crates/common/wire\<close>: the cursor-based \<open>Decoder\<close>, the
  \<open>Encoder\<close>, CompactSize integers, and the primitive \<^verbatim>\<open>BitcoinEncode\<close>/\<^verbatim>\<open>BitcoinDecode\<close>
  instances.  The locales \<open>reader\<close>, \<open>codec\<close> and \<open>strict_codec\<close> state what such a pair of
  instances promises; every later wire type is an interpretation of one of them.
\<close>

subsection \<open>Errors, constants\<close>

datatype decode_error =
    BufferTooShort string nat nat
  | TruncatedVarint string
  | NonCanonicalVarint string u64 nat
  | AllocationTooLarge string u64 nat
  | InvalidUtf8 string
  | TrailingBytes string nat
  | InvalidValue string u64
  | Custom string

text \<open>\<open>DecodeError::with_field\<close>: every variant that carries a field name takes the new one.\<close>

fun with_field :: "decode_error \<Rightarrow> string \<Rightarrow> decode_error" where
  "with_field (BufferTooShort _ needed available) field = BufferTooShort field needed available"
| "with_field (TruncatedVarint _) field = TruncatedVarint field"
| "with_field (NonCanonicalVarint _ v encoded_len) field = NonCanonicalVarint field v encoded_len"
| "with_field (AllocationTooLarge _ len limit) field = AllocationTooLarge field len limit"
| "with_field (InvalidUtf8 _) field = InvalidUtf8 field"
| "with_field (InvalidValue _ v) field = InvalidValue field v"
| "with_field other field = other"

definition MAX_MESSAGE_SIZE :: nat where
  "MAX_MESSAGE_SIZE = 4 * 1024 * 1024"

definition MAX_WIRE_ALLOCATION :: nat where
  "MAX_WIRE_ALLOCATION = MAX_MESSAGE_SIZE"

type_synonym 'a decode_result = "decode_error + 'a"

text \<open>Signed integers are their two's complement words: \<^const>\<open>sint\<close> reads one.\<close>

type_synonym i32 = "32 word"
type_synonym i64 = "64 word"

subsection \<open>Decoder\<close>

record decoder =
  dec_data :: bytes
  dec_pos :: nat

definition decoder_new :: "bytes \<Rightarrow> decoder" where
  "decoder_new d = \<lparr>dec_data = d, dec_pos = 0\<rparr>"

definition remaining :: "decoder \<Rightarrow> nat" where
  "remaining d = length (dec_data d) - dec_pos d"

definition require :: "decoder \<Rightarrow> nat \<Rightarrow> string \<Rightarrow> unit decode_result" where
  "require d n field =
     (if remaining d < n
      then Inl (BufferTooShort field (dec_pos d + n) (length (dec_data d)))
      else Inr ())"

definition is_done :: "decoder \<Rightarrow> bool" where
  "is_done d \<longleftrightarrow> dec_pos d = length (dec_data d)"

definition finish :: "decoder \<Rightarrow> string \<Rightarrow> unit decode_result" where
  "finish d ctxt =
     (if is_done d then Inr ()
      else Inl (TrailingBytes ctxt (length (dec_data d) - dec_pos d)))"

definition peek_u8 :: "decoder \<Rightarrow> string \<Rightarrow> u8 decode_result" where
  "peek_u8 d field = and_then (require d 1 field) (\<lambda>_. Inr (dec_data d ! dec_pos d))"

definition decode_optional_field ::
  "(decoder \<Rightarrow> ('a \<times> decoder) decode_result) \<Rightarrow> decoder \<Rightarrow> ('a option \<times> decoder) decode_result"
  where
  "decode_optional_field dec d =
     (if is_done d then Inr (None, d)
      else and_then (dec d) (\<lambda>(v, d'). Inr (Some v, d')))"

text \<open>The slice \<^verbatim>\<open>data[pos..pos + n]\<close> and the cursor moved past it.\<close>

definition slice :: "decoder \<Rightarrow> nat \<Rightarrow> bytes" where
  "slice d n = take n (drop (dec_pos d) (dec_data d))"

definition advance :: "decoder \<Rightarrow> nat \<Rightarrow> decoder" where
  "advance d n = d\<lparr>dec_pos := dec_pos d + n\<rparr>"

definition read_u8 :: "decoder \<Rightarrow> string \<Rightarrow> (u8 \<times> decoder) decode_result" where
  "read_u8 d field =
     and_then (require d 1 field) (\<lambda>_. Inr (dec_data d ! dec_pos d, advance d 1))"

definition read_u16_le :: "decoder \<Rightarrow> string \<Rightarrow> (u16 \<times> decoder) decode_result" where
  "read_u16_le d field = and_then (require d 2 field) (\<lambda>_. Inr (of_le (slice d 2), advance d 2))"

definition read_u32_le :: "decoder \<Rightarrow> string \<Rightarrow> (u32 \<times> decoder) decode_result" where
  "read_u32_le d field = and_then (require d 4 field) (\<lambda>_. Inr (of_le (slice d 4), advance d 4))"

definition read_u64_le :: "decoder \<Rightarrow> string \<Rightarrow> (u64 \<times> decoder) decode_result" where
  "read_u64_le d field = and_then (require d 8 field) (\<lambda>_. Inr (of_le (slice d 8), advance d 8))"

definition read_i32_le :: "decoder \<Rightarrow> string \<Rightarrow> (i32 \<times> decoder) decode_result" where
  "read_i32_le d field = and_then (require d 4 field) (\<lambda>_. Inr (of_le (slice d 4), advance d 4))"

definition read_i64_le :: "decoder \<Rightarrow> string \<Rightarrow> (i64 \<times> decoder) decode_result" where
  "read_i64_le d field = and_then (require d 8 field) (\<lambda>_. Inr (of_le (slice d 8), advance d 8))"

definition read_u16_be :: "decoder \<Rightarrow> string \<Rightarrow> (u16 \<times> decoder) decode_result" where
  "read_u16_be d field =
     and_then (require d 2 field) (\<lambda>_. Inr (of_le (rev (slice d 2)), advance d 2))"

definition read_bool :: "decoder \<Rightarrow> string \<Rightarrow> (bool \<times> decoder) decode_result" where
  "read_bool d field =
     and_then (require d 1 field) (\<lambda>_. Inr (dec_data d ! dec_pos d \<noteq> 0, advance d 1))"

definition read_array :: "nat \<Rightarrow> decoder \<Rightarrow> string \<Rightarrow> (bytes \<times> decoder) decode_result" where
  "read_array n d field = and_then (require d n field) (\<lambda>_. Inr (slice d n, advance d n))"

definition read_bytes :: "decoder \<Rightarrow> nat \<Rightarrow> string \<Rightarrow> (bytes \<times> decoder) decode_result" where
  "read_bytes d n field = and_then (require d n field) (\<lambda>_. Inr (slice d n, advance d n))"

text \<open>\<open>read_varint_raw\<close>: the value and how many bytes it took.\<close>

definition read_varint_raw :: "bytes \<Rightarrow> string \<Rightarrow> (u64 \<times> nat) decode_result" where
  "read_varint_raw buf field =
     (case buf of
        [] \<Rightarrow> Inl (TruncatedVarint field)
      | n # _ \<Rightarrow>
          if n \<le> 0xFC then Inr (ucast n, 1)
          else if n = 0xFD then
            (if length buf < 3 then Inl (TruncatedVarint field)
             else let v = of_le (take 2 (drop 1 buf)) :: u64
                  in if v < 0xFD then Inl (NonCanonicalVarint field v 3) else Inr (v, 3))
          else if n = 0xFE then
            (if length buf < 5 then Inl (TruncatedVarint field)
             else let v = of_le (take 4 (drop 1 buf)) :: u64
                  in if v < 0x10000 then Inl (NonCanonicalVarint field v 5) else Inr (v, 5))
          else
            (if length buf < 9 then Inl (TruncatedVarint field)
             else let v = of_le (take 8 (drop 1 buf)) :: u64
                  in if v < 0x100000000 then Inl (NonCanonicalVarint field v 9) else Inr (v, 9)))"

definition ensure_allocation_len :: "string \<Rightarrow> u64 \<Rightarrow> unit decode_result" where
  "ensure_allocation_len field len =
     (if unat len > MAX_WIRE_ALLOCATION \<or> unat len > U64_MAX
      then Inl (AllocationTooLarge field len MAX_WIRE_ALLOCATION) else Inr ())"

definition read_varint :: "decoder \<Rightarrow> string \<Rightarrow> (u64 \<times> decoder) decode_result" where
  "read_varint d field =
     and_then (read_varint_raw (drop (dec_pos d) (dec_data d)) field)
       (\<lambda>(v, consumed). Inr (v, advance d consumed))"

definition read_varbytes :: "decoder \<Rightarrow> string \<Rightarrow> (bytes \<times> decoder) decode_result" where
  "read_varbytes d label =
     and_then (read_varint d label) (\<lambda>(len, d).
     and_then (ensure_allocation_len label len) (\<lambda>_.
     read_bytes d (unat len) label))"

text \<open>The \<^verbatim>\<open>for _ in 0..count\<close> loop of \<open>read_var_list\<close>.\<close>

primrec read_items ::
  "(decoder \<Rightarrow> ('a \<times> decoder) decode_result) \<Rightarrow> nat \<Rightarrow> decoder \<Rightarrow> ('a list \<times> decoder) decode_result"
  where
  "read_items dec 0 d = Inr ([], d)"
| "read_items dec (Suc n) d =
     and_then (dec d) (\<lambda>(item, d').
     and_then (read_items dec n d') (\<lambda>(items, d''). Inr (item # items, d'')))"

definition read_var_list ::
  "(decoder \<Rightarrow> ('a \<times> decoder) decode_result) \<Rightarrow> string \<Rightarrow> decoder \<Rightarrow> ('a list \<times> decoder) decode_result"
  where
  "read_var_list dec label d =
     and_then (read_varint d label) (\<lambda>(count, d).
     and_then (ensure_allocation_len label count) (\<lambda>_.
     if unat count > remaining d then Inl (AllocationTooLarge label count (remaining d))
     else read_items dec (unat count) d))"

text \<open>\<open>std::str::from_utf8\<close>: the well-formed byte sequences of the Unicode standard.\<close>

definition utf8_cont :: "u8 \<Rightarrow> bool" where
  "utf8_cont b \<longleftrightarrow> 0x80 \<le> b \<and> b \<le> 0xBF"

fun valid_utf8 :: "bytes \<Rightarrow> bool" where
  "valid_utf8 [] = True"
| "valid_utf8 (a # bs) =
     (if a \<le> 0x7F then valid_utf8 bs
      else case bs of
        [] \<Rightarrow> False
      | b # cs \<Rightarrow>
          if 0xC2 \<le> a \<and> a \<le> 0xDF then utf8_cont b \<and> valid_utf8 cs
          else (case cs of
             [] \<Rightarrow> False
           | c # ds \<Rightarrow>
               if a = 0xE0 then 0xA0 \<le> b \<and> b \<le> 0xBF \<and> utf8_cont c \<and> valid_utf8 ds
               else if a = 0xED then 0x80 \<le> b \<and> b \<le> 0x9F \<and> utf8_cont c \<and> valid_utf8 ds
               else if 0xE1 \<le> a \<and> a \<le> 0xEF then utf8_cont b \<and> utf8_cont c \<and> valid_utf8 ds
               else (case ds of
                  [] \<Rightarrow> False
                | d # es \<Rightarrow>
                    (if a = 0xF0 then 0x90 \<le> b \<and> b \<le> 0xBF
                     else if 0xF1 \<le> a \<and> a \<le> 0xF3 then utf8_cont b
                     else a = 0xF4 \<and> 0x80 \<le> b \<and> b \<le> 0x8F)
                    \<and> utf8_cont c \<and> utf8_cont d \<and> valid_utf8 es)))"

text \<open>A \<^verbatim>\<open>String\<close> is its UTF-8 bytes.\<close>

definition read_var_str :: "decoder \<Rightarrow> string \<Rightarrow> (bytes \<times> decoder) decode_result" where
  "read_var_str d field =
     and_then (read_varint_raw (drop (dec_pos d) (dec_data d)) field) (\<lambda>(len, consumed).
     let d = advance d consumed in
     and_then (ensure_allocation_len field len) (\<lambda>_.
     and_then (require d (unat len) field) (\<lambda>_.
     if valid_utf8 (slice d (unat len)) then Inr (slice d (unat len), advance d (unat len))
     else Inl (InvalidUtf8 field))))"

definition decode_u8 :: "decoder \<Rightarrow> (u8 \<times> decoder) decode_result" where
  "decode_u8 d = read_u8 d ''u8''"

definition decode_u16be :: "decoder \<Rightarrow> (u16 \<times> decoder) decode_result" where
  "decode_u16be d = read_u16_be d ''U16BE''"

definition decode_u32 :: "decoder \<Rightarrow> (u32 \<times> decoder) decode_result" where
  "decode_u32 d = read_u32_le d ''u32''"

definition decode_u64 :: "decoder \<Rightarrow> (u64 \<times> decoder) decode_result" where
  "decode_u64 d = read_u64_le d ''u64''"

definition decode_i32 :: "decoder \<Rightarrow> (i32 \<times> decoder) decode_result" where
  "decode_i32 d = read_i32_le d ''i32''"

definition decode_i64 :: "decoder \<Rightarrow> (i64 \<times> decoder) decode_result" where
  "decode_i64 d = read_i64_le d ''i64''"

definition decode_bool :: "decoder \<Rightarrow> (bool \<times> decoder) decode_result" where
  "decode_bool d = read_bool d ''bool''"

definition decode_vec_u8 :: "decoder \<Rightarrow> (bytes \<times> decoder) decode_result" where
  "decode_vec_u8 d = read_varbytes d ''Vec<u8>''"

definition decode_varint :: "decoder \<Rightarrow> (u64 \<times> decoder) decode_result" where
  "decode_varint d = read_varint d ''VarInt''"

definition decode_array :: "nat \<Rightarrow> decoder \<Rightarrow> (bytes \<times> decoder) decode_result" where
  "decode_array n d = read_array n d ''array''"

definition decode_exact ::
  "(decoder \<Rightarrow> ('a \<times> decoder) decode_result) \<Rightarrow> bytes \<Rightarrow> string \<Rightarrow> 'a decode_result" where
  "decode_exact dec payload ctxt =
     and_then (dec (decoder_new payload)) (\<lambda>(v, d).
     and_then (finish d ctxt) (\<lambda>_. Inr v))"

subsection \<open>Encoder\<close>

text \<open>An \<open>Encoder\<close> is its only field, the buffer; \<^verbatim>\<open>encode\<close> appends to it.\<close>

type_synonym encoder = bytes

definition push_u8 :: "u8 \<Rightarrow> encoder \<Rightarrow> encoder" where
  "push_u8 v enc = enc @ [v]"

definition push_bytes :: "bytes \<Rightarrow> encoder \<Rightarrow> encoder" where
  "push_bytes v enc = enc @ v"

definition encode_u8 :: "u8 \<Rightarrow> encoder \<Rightarrow> encoder" where
  "encode_u8 v enc = push_u8 v enc"

definition encode_u32 :: "u32 \<Rightarrow> encoder \<Rightarrow> encoder" where
  "encode_u32 v enc = push_bytes (to_le 4 v) enc"

definition encode_u64 :: "u64 \<Rightarrow> encoder \<Rightarrow> encoder" where
  "encode_u64 v enc = push_bytes (to_le 8 v) enc"

definition encode_i32 :: "i32 \<Rightarrow> encoder \<Rightarrow> encoder" where
  "encode_i32 v enc = push_bytes (to_le 4 v) enc"

definition encode_i64 :: "i64 \<Rightarrow> encoder \<Rightarrow> encoder" where
  "encode_i64 v enc = push_bytes (to_le 8 v) enc"

definition encode_bool :: "bool \<Rightarrow> encoder \<Rightarrow> encoder" where
  "encode_bool v enc = push_u8 (if v then 1 else 0) enc"

definition encode_array :: "bytes \<Rightarrow> encoder \<Rightarrow> encoder" where
  "encode_array v enc = push_bytes v enc"

definition varint_serialized_size :: "u64 \<Rightarrow> nat" where
  "varint_serialized_size v =
     (if v \<le> 0xFC then 1 else if v \<le> 0xFFFF then 3 else if v \<le> 0xFFFFFFFF then 5 else 9)"

definition encode_varint :: "u64 \<Rightarrow> encoder \<Rightarrow> encoder" where
  "encode_varint n enc =
     (if n \<le> 0xFC then push_u8 (ucast n) enc
      else if n \<le> 0xFFFF then push_bytes (to_le 2 (ucast n :: u16)) (push_u8 0xFD enc)
      else if n \<le> 0xFFFFFFFF then push_bytes (to_le 4 (ucast n :: u32)) (push_u8 0xFE enc)
      else push_bytes (to_le 8 n) (push_u8 0xFF enc))"

definition encode_varstr :: "bytes \<Rightarrow> encoder \<Rightarrow> encoder" where
  "encode_varstr b enc = push_bytes b (encode_varint (word_of_nat (length b)) enc)"

definition encode_varbytes :: "bytes \<Rightarrow> encoder \<Rightarrow> encoder" where
  "encode_varbytes b enc = push_bytes b (encode_varint (word_of_nat (length b)) enc)"

definition encode_vec_u8 :: "bytes \<Rightarrow> encoder \<Rightarrow> encoder" where
  "encode_vec_u8 b enc = encode_varbytes b enc"

definition encode_u16be :: "u16 \<Rightarrow> encoder \<Rightarrow> encoder" where
  "encode_u16be v enc = push_bytes (rev (to_le 2 v)) enc"

definition encode_varlist :: "('a \<Rightarrow> encoder \<Rightarrow> encoder) \<Rightarrow> 'a list \<Rightarrow> encoder \<Rightarrow> encoder" where
  "encode_varlist enc_item items enc =
     fold enc_item items (encode_varint (word_of_nat (length items)) enc)"

definition serialize :: "('a \<Rightarrow> encoder \<Rightarrow> encoder) \<Rightarrow> 'a \<Rightarrow> bytes" where
  "serialize enc v = enc v []"


subsection \<open>CompactSize integers\<close>

lemmas encoder_defs =
  push_u8_def push_bytes_def encode_u8_def encode_u32_def encode_u64_def encode_i32_def
  encode_i64_def encode_bool_def encode_array_def encode_u16be_def

lemma encode_varint_append: "encode_varint v enc = enc @ encode_varint v []"
  by (simp add: encode_varint_def encoder_defs)

lemma length_encode_varint: "length (encode_varint v []) = varint_serialized_size v"
  by (simp add: encode_varint_def varint_serialized_size_def encoder_defs)

lemma encode_varint_nonempty [simp]: "encode_varint v [] \<noteq> []"
  by (simp add: encode_varint_def encoder_defs)

lemma unat_ucast_u8_u64 [simp]: "unat (ucast (n :: u8) :: u64) = unat n"
proof -
  have "unat n < 2 ^ 64" using unat_byte_lt [of n] by (rule less_trans) simp
  then show ?thesis by (simp add: unsigned_ucast_eq take_bit_nat_eq_self_iff)
qed

lemma ucast_u64_bytes:
  fixes v :: u64
  shows "v \<le> 0xFC \<Longrightarrow> unat (ucast v :: u8) = unat v"
    and "v \<le> 0xFFFF \<Longrightarrow> unat (ucast v :: u16) = unat v"
    and "v \<le> 0xFFFFFFFF \<Longrightarrow> unat (ucast v :: u32) = unat v"
  by (simp_all add: word_le_nat_alt unsigned_ucast_eq take_bit_eq_mod)

lemma read_varint_raw_encode:
  "read_varint_raw (encode_varint v [] @ r) field = Inr (v, length (encode_varint v []))"
proof -
  consider (a) "v \<le> 0xFC" | (b) "\<not> v \<le> 0xFC" "v \<le> 0xFFFF"
    | (c) "\<not> v \<le> 0xFFFF" "v \<le> 0xFFFFFFFF" | (d) "\<not> v \<le> 0xFFFFFFFF"
    by blast
  then show ?thesis
  proof cases
    case a
    then have "ucast (ucast v :: u8) = v" and "(ucast v :: u8) \<le> 0xFC"
      using ucast_u64_bytes(1) [OF a]
      by (simp_all add: word_unat_eq_iff unat_ucast_u8_u64 word_le_nat_alt)
    with a show ?thesis
      by (simp add: encode_varint_def read_varint_raw_def encoder_defs)
  next
    case b
    have "of_le (to_le 2 (ucast v :: u16)) = v"
      using ucast_u64_bytes(2) [OF b(2)]
      by (simp add: word_unat_eq_iff unat_of_le to_le_def word_le_nat_alt b)
        (use b(2) in \<open>simp add: word_le_nat_alt\<close>)
    with b show ?thesis
      by (auto simp: encode_varint_def read_varint_raw_def encoder_defs Let_def not_le
          word_less_nat_alt word_le_nat_alt)
  next
    case c
    then have nb: "\<not> v \<le> 0xFC" by (simp add: word_le_nat_alt)
    have "of_le (to_le 4 (ucast v :: u32)) = v"
      using ucast_u64_bytes(3) [OF c(2)]
      by (simp add: word_unat_eq_iff unat_of_le to_le_def)
        (use c(2) in \<open>simp add: word_le_nat_alt\<close>)
    with c nb show ?thesis
      by (auto simp: encode_varint_def read_varint_raw_def encoder_defs Let_def not_le
          word_less_nat_alt word_le_nat_alt)
  next
    case d
    then have "\<not> v \<le> 0xFC" "\<not> v \<le> 0xFFFF" by (simp_all add: word_le_nat_alt)
    with d show ?thesis
      by (auto simp: encode_varint_def read_varint_raw_def encoder_defs Let_def not_le
          word_less_nat_alt word_le_nat_alt)
  qed
qed

lemma of_le_u64_bound:
  assumes "length bs = n" "n \<le> 8"
  shows "unat (of_le bs :: u64) = le_nat bs" "le_nat bs < 256 ^ n"
  using assms le_nat_lt [of bs] by (auto simp: unat_of_le)

lemma ucast_of_le:
  assumes "8 * length bs = LENGTH('a::len)" "length bs \<le> 8"
  shows "ucast (of_le bs :: u64) = (of_le bs :: 'a word)"
proof (rule word_unat_eq_iff [THEN iffD2])
  have "unat (of_le bs :: u64) < 2 ^ LENGTH('a)"
    using assms of_le_u64_bound [OF refl assms(2)] by (simp add: pow256)
  then show "unat (ucast (of_le bs :: u64) :: 'a word) = unat (of_le bs :: 'a word)"
    using assms by (simp add: unsigned_ucast_eq take_bit_nat_eq_self_iff unat_of_le)
qed

lemma encode_varint_of_le:
  "length bs = 2 \<Longrightarrow> \<not> (of_le bs :: u64) < 0xFD \<Longrightarrow> encode_varint (of_le bs) [] = 0xFD # bs"
  "length bs = 4 \<Longrightarrow> \<not> (of_le bs :: u64) < 0x10000 \<Longrightarrow> encode_varint (of_le bs) [] = 0xFE # bs"
  "length bs = 8 \<Longrightarrow> \<not> (of_le bs :: u64) < 0x100000000 \<Longrightarrow> encode_varint (of_le bs) [] = 0xFF # bs"
proof -
  assume a: "length bs = 2" "\<not> (of_le bs :: u64) < 0xFD"
  have "unat (of_le bs :: u64) < 65536"
    using of_le_u64_bound [OF a(1)] by simp
  then have "\<not> (of_le bs :: u64) \<le> 0xFC" "(of_le bs :: u64) \<le> 0xFFFF"
    using a(2) by (simp_all add: word_le_nat_alt word_less_nat_alt)
  then show "encode_varint (of_le bs) [] = 0xFD # bs"
    using a ucast_of_le [of bs, where ?'a = 16]
    by (simp add: encode_varint_def encoder_defs to_le_of_le_n)
next
  assume a: "length bs = 4" "\<not> (of_le bs :: u64) < 0x10000"
  have "unat (of_le bs :: u64) < 4294967296"
    using of_le_u64_bound [OF a(1)] by simp
  then have "\<not> (of_le bs :: u64) \<le> 0xFC" "\<not> (of_le bs :: u64) \<le> 0xFFFF" "(of_le bs :: u64) \<le> 0xFFFFFFFF"
    using a(2) by (simp_all add: word_le_nat_alt word_less_nat_alt)
  then show "encode_varint (of_le bs) [] = 0xFE # bs"
    using a ucast_of_le [of bs, where ?'a = 32]
    by (simp add: encode_varint_def encoder_defs to_le_of_le_n)
next
  assume a: "length bs = 8" "\<not> (of_le bs :: u64) < 0x100000000"
  then have "\<not> (of_le bs :: u64) \<le> 0xFC" "\<not> (of_le bs :: u64) \<le> 0xFFFF" "\<not> (of_le bs :: u64) \<le> 0xFFFFFFFF"
    by (simp_all add: word_le_nat_alt word_less_nat_alt)
  then show "encode_varint (of_le bs) [] = 0xFF # bs"
    using a by (simp add: encode_varint_def encoder_defs to_le_of_le_n)
qed

lemma byte_above_FC: "\<not> (n :: u8) \<le> 0xFC \<Longrightarrow> n = 0xFD \<or> n = 0xFE \<or> n = 0xFF"
  using unat_byte_lt [of n] by (auto simp: word_le_nat_alt word_unat_eq_iff simp del: unat_byte_lt)

lemma ucast_u64_u8_id [simp]: "ucast (ucast (n :: u8) :: u64) = n"
proof (rule word_unat_eq_iff [THEN iffD2])
  have "unat (ucast (ucast n :: u64) :: u8) = take_bit 8 (unat (ucast n :: u64))"
    using unsigned_ucast_eq [where ?'c = 8 and ?'a = nat, of "ucast n :: u64"] by simp
  then show "unat (ucast (ucast n :: u64) :: u8) = unat n"
    by (simp only: unat_ucast_u8_u64) (simp add: take_bit_nat_eq_self_iff)
qed

lemma encode_varint_small: "(n :: u8) \<le> 0xFC \<Longrightarrow> encode_varint (ucast n) [] = [n]"
  by (simp add: encode_varint_def encoder_defs word_le_nat_alt)

lemma read_varint_raw_sound:
  assumes "read_varint_raw buf field = Inr (v, k)"
  shows "k \<le> length buf \<and> take k buf = encode_varint v []"
proof (cases buf)
  case Nil
  with assms show ?thesis by (simp add: read_varint_raw_def)
next
  case (Cons n bs)
  show ?thesis
  proof (cases "n \<le> 0xFC")
    case True
    with assms Cons show ?thesis by (auto simp: read_varint_raw_def encode_varint_small)
  next
    case False
    have len: "length (take m bs) = m" if "Suc m \<le> length buf" for m
      using that Cons by simp
    show ?thesis
      using assms byte_above_FC [OF False] Cons False len [of 2] len [of 4] len [of 8]
        encode_varint_of_le [of "take 2 bs"] encode_varint_of_le [of "take 4 bs"]
        encode_varint_of_le [of "take 8 bs"]
      by (auto simp: read_varint_raw_def Let_def split: if_splits)
  qed
qed

subsection \<open>Codec interfaces\<close>

definition dec_valid :: "decoder \<Rightarrow> bool" where
  "dec_valid d \<longleftrightarrow> dec_pos d \<le> length (dec_data d)"

definition rest :: "decoder \<Rightarrow> bytes" where
  "rest d = drop (dec_pos d) (dec_data d)"

text \<open>A \<open>reader\<close> never leaves its buffer and never moves backwards.\<close>

locale reader =
  fixes dec :: "decoder \<Rightarrow> ('a \<times> decoder) decode_result"
  assumes dec_safe: "dec_valid d \<Longrightarrow> dec d = Inr (x, d') \<Longrightarrow>
    dec_data d' = dec_data d \<and> dec_pos d \<le> dec_pos d' \<and> dec_valid d'"

text \<open>A \<open>codec\<close> reads back what it wrote, in any context; encoders only append.\<close>

locale codec = reader dec
  for dec :: "decoder \<Rightarrow> ('a \<times> decoder) decode_result" +
  fixes enc :: "'a \<Rightarrow> encoder \<Rightarrow> encoder" and wf :: "'a \<Rightarrow> bool"
  assumes enc_append: "enc x e = e @ enc x []"
    and enc_nonempty: "wf x \<Longrightarrow> enc x [] \<noteq> []"
    and dec_enc: "dec_valid d \<Longrightarrow> wf x \<Longrightarrow> rest d = enc x [] @ r \<Longrightarrow>
      dec d = Inr (x, advance d (length (enc x [])))"

text \<open>A \<open>strict_codec\<close> accepts nothing but encodings: what it read, it would write again.\<close>

locale strict_codec = codec +
  assumes dec_canonical: "dec_valid d \<Longrightarrow> dec d = Inr (x, d') \<Longrightarrow> wf x \<and> rest d = enc x [] @ rest d'"

lemma rest_advance [simp]: "rest (advance d n) = drop n (rest d)"
  by (simp add: rest_def advance_def add.commute)

lemma length_rest: "length (rest d) = remaining d"
  by (simp add: rest_def remaining_def)

lemma advance_sel [simp]:
  "dec_data (advance d n) = dec_data d" "dec_pos (advance d n) = dec_pos d + n"
  by (simp_all add: advance_def)

lemma advance_advance [simp]: "advance (advance d m) n = advance d (m + n)"
  by (simp add: advance_def add.assoc)

lemma advance_0 [simp]: "advance d 0 = d"
  by (simp add: advance_def)

lemma dec_valid_advance:
  "dec_valid d \<Longrightarrow> n \<le> length (rest d) \<Longrightarrow> dec_valid (advance d n)"
  by (auto simp: dec_valid_def advance_def rest_def)

lemma dec_valid_advance_append:
  "dec_valid d \<Longrightarrow> rest d = bs @ r \<Longrightarrow> dec_valid (advance d (length bs))"
  by (simp add: dec_valid_advance)

lemma decoder_new_simps [simp]:
  "dec_valid (decoder_new bs)" "rest (decoder_new bs) = bs" "dec_pos (decoder_new bs) = 0"
  "dec_data (decoder_new bs) = bs"
  by (simp_all add: decoder_new_def dec_valid_def rest_def)

lemma slice_rest: "slice d n = take n (rest d)"
  by (simp add: slice_def rest_def)

lemma require_Inr [simp]: "require d n field = Inr u \<longleftrightarrow> n \<le> length (rest d)"
  by (auto simp: require_def length_rest)

lemma nth_rest: "dec_valid d \<Longrightarrow> rest d = b # bs \<Longrightarrow> dec_data d ! dec_pos d = b"
  by (metis hd_drop_conv_nth length_rest list.sel(1) not_less rest_def remaining_def
      length_drop drop_all list.distinct(1))

lemma nth_rest_hd: "rest d \<noteq> [] \<Longrightarrow> dec_data d ! dec_pos d = hd (rest d)"
  by (metis drop_all hd_drop_conv_nth not_less rest_def)

lemma rest_Nil_iff: "dec_valid d \<Longrightarrow> is_done d \<longleftrightarrow> rest d = []"
  by (auto simp: is_done_def rest_def dec_valid_def)

lemma same_rest_advance:
  assumes "dec_valid d" "dec_valid d'" "dec_data d' = dec_data d" "dec_pos d \<le> dec_pos d'"
    "rest d = bs @ rest d'"
  shows "d' = advance d (length bs)"
proof -
  have "length (rest d) = length bs + length (rest d')" by (simp add: assms(5))
  then have "dec_pos d' = dec_pos d + length bs"
    using assms by (simp add: rest_def dec_valid_def)
  then show ?thesis using assms(3) by (simp add: advance_def)
qed

lemma fold_append_law:
  assumes "\<And>x e. f x e = e @ f x []"
  shows "fold f xs e = e @ fold f xs []"
proof (induction xs arbitrary: e)
  case (Cons x xs)
  have "fold f xs (f x e) = f x e @ fold f xs []" by (rule Cons.IH)
  also have "\<dots> = e @ (f x [] @ fold f xs [])" by (subst assms) simp
  also have "f x [] @ fold f xs [] = fold f xs (f x [])" using Cons.IH [of "f x []"] by simp
  finally show ?case by simp
qed simp

context codec
begin

lemma decode_exact_serialize:
  assumes "wf x"
  shows "decode_exact dec (serialize enc x) ctxt = Inr x"
  using dec_enc [of "decoder_new (serialize enc x)" x "[]"] assms
  by (simp add: decode_exact_def serialize_def finish_def is_done_def)

lemma serialize_inj: "wf x \<Longrightarrow> wf y \<Longrightarrow> serialize enc x = serialize enc y \<Longrightarrow> x = y"
  using decode_exact_serialize by (metis sum.inject(2))

lemma prefix_free:
  assumes "wf x" "wf y" "enc x [] @ r = enc y [] @ r'"
  shows "x = y \<and> r = r'"
proof -
  have "dec (decoder_new (enc x [] @ r)) = Inr (x, advance (decoder_new (enc x [] @ r)) (length (enc x [])))"
    using assms(1) by (intro dec_enc) auto
  moreover have "dec (decoder_new (enc x [] @ r)) = Inr (y, advance (decoder_new (enc x [] @ r)) (length (enc y [])))"
    using assms(2,3) by (intro dec_enc) auto
  ultimately have "x = y" by simp
  with assms(3) show ?thesis by simp
qed

lemma fold_enc_append: "fold enc xs e = e @ fold enc xs []"
  by (rule fold_append_law) (rule enc_append)

lemma dec_step:
  assumes "dec_valid d" "wf x" "rest d = enc x [] @ r"
  obtains d' where "dec d = Inr (x, d')" "dec_valid d'" "rest d' = r"
    "d' = advance d (length (enc x []))"
  using dec_enc [OF assms] dec_valid_advance_append [OF assms(1,3)] assms(3) by simp

lemma fold_enc_Cons: "fold enc (x # xs) [] = enc x [] @ fold enc xs []"
  using fold_enc_append [of xs "enc x []"] by simp

lemma length_fold_enc: "list_all wf xs \<Longrightarrow> length xs \<le> length (fold enc xs [])"
proof (induction xs)
  case (Cons x xs)
  have "enc x [] \<noteq> []" using Cons.prems by (simp add: enc_nonempty)
  then have "1 \<le> length (enc x [])" by (cases "enc x []") auto
  with Cons show ?case by (simp add: fold_enc_Cons del: fold.simps)
qed simp

lemma read_items_fold:
  assumes "dec_valid d" "list_all wf xs" "rest d = fold enc xs [] @ r"
  shows "read_items dec (length xs) d = Inr (xs, advance d (length (fold enc xs [])))"
  using assms
proof (induction xs arbitrary: d)
  case (Cons x xs)
  let ?d = "advance d (length (enc x []))"
  have eq: "rest d = enc x [] @ (fold enc xs [] @ r)"
    using Cons.prems(3) by (simp only: fold_enc_Cons append_assoc)
  have 1: "dec d = Inr (x, ?d)"
    using Cons.prems(1,2) eq by (intro dec_enc) auto
  have "dec_valid ?d" using Cons.prems(1) eq by (rule dec_valid_advance_append)
  then have "read_items dec (length xs) ?d = Inr (xs, advance ?d (length (fold enc xs [])))"
    using Cons.prems(2) eq by (intro Cons.IH) auto
  with 1 show ?case by (simp add: fold_enc_Cons del: fold.simps)
qed simp

end

lemma read_varint_encode:
  assumes "dec_valid d" "rest d = encode_varint v [] @ r"
  shows "read_varint d field = Inr (v, advance d (length (encode_varint v [])))"
  using assms(2) by (simp add: read_varint_def rest_def [symmetric] read_varint_raw_encode)

lemma read_varint_sound:
  assumes "dec_valid d" "read_varint d field = Inr (v, d')"
  shows "d' = advance d (length (encode_varint v [])) \<and> dec_valid d' \<and> rest d = encode_varint v [] @ rest d'"
proof -
  obtain k where k: "read_varint_raw (rest d) field = Inr (v, k)" "d' = advance d k"
    using assms(2) by (auto simp: read_varint_def rest_def and_then_eq_Inr)
  from read_varint_raw_sound [OF k(1)] have s: "k \<le> length (rest d)" "take k (rest d) = encode_varint v []"
    by auto
  then have "length (encode_varint v []) = k" by (metis length_take min.absorb2)
  moreover have "rest d = take k (rest d) @ drop k (rest d)" by simp
  ultimately show ?thesis
    using s k assms(1) dec_valid_advance by (metis rest_advance)
qed

lemma ensure_allocation_len_Inr [simp]:
  "ensure_allocation_len f len = Inr u \<longleftrightarrow> unat len \<le> MAX_WIRE_ALLOCATION"
  by (auto simp: ensure_allocation_len_def MAX_WIRE_ALLOCATION_def MAX_MESSAGE_SIZE_def U64_MAX_def)

definition wf_list :: "('a \<Rightarrow> bool) \<Rightarrow> 'a list \<Rightarrow> bool" where
  "wf_list P xs \<longleftrightarrow> list_all P xs \<and> length xs \<le> MAX_WIRE_ALLOCATION"

lemma unat_word_of_nat_alloc: "n \<le> MAX_WIRE_ALLOCATION \<Longrightarrow> unat (word_of_nat n :: u64) = n"
  by (simp add: unat_word_of_nat_u64 MAX_WIRE_ALLOCATION_def MAX_MESSAGE_SIZE_def)

context reader
begin

lemma read_items_safe:
  "dec_valid d \<Longrightarrow> read_items dec n d = Inr (xs, d') \<Longrightarrow>
    dec_data d' = dec_data d \<and> dec_pos d \<le> dec_pos d' \<and> dec_valid d'"
proof (induction n arbitrary: d xs)
  case (Suc n)
  from Suc.prems(2) obtain x d1 ys where 1: "dec d = Inr (x, d1)" "read_items dec n d1 = Inr (ys, d')"
    by (auto simp: and_then_eq_Inr)
  from dec_safe [OF Suc.prems(1) 1(1)] Suc.IH [of d1 ys] 1(2) show ?case by auto
qed simp

lemma var_list_reader: "reader (read_var_list dec label)"
proof
  fix d x d'
  assume v: "dec_valid d" and r: "read_var_list dec label d = Inr (x, d')"
  from r obtain c d1 where 1: "read_varint d label = Inr (c, d1)" "read_items dec (unat c) d1 = Inr (x, d')"
    by (auto simp: read_var_list_def and_then_eq_Inr split: if_splits)
  from read_varint_sound [OF v 1(1)] read_items_safe [OF _ 1(2)]
  show "dec_data d' = dec_data d \<and> dec_pos d \<le> dec_pos d' \<and> dec_valid d'" by auto
qed

end

context codec
begin

lemma encode_varlist_append: "encode_varlist enc xs e = e @ encode_varlist enc xs []"
  unfolding encode_varlist_def
  by (subst fold_enc_append, subst encode_varint_append, subst (2) fold_enc_append) simp

lemma encode_varlist_Nil:
  "encode_varlist enc xs [] = encode_varint (word_of_nat (length xs)) [] @ fold enc xs []"
  unfolding encode_varlist_def by (rule fold_enc_append)

lemma encode_varlist_flat:
  "encode_varlist enc xs e = e @ encode_varint (word_of_nat (length xs)) [] @ fold enc xs []"
  by (subst encode_varlist_append) (simp add: encode_varlist_Nil)

lemma var_list_codec: "codec (read_var_list dec label) (encode_varlist enc) (wf_list wf)"
proof (intro codec.intro codec_axioms.intro)
  show "reader (read_var_list dec label)" by (rule var_list_reader)
  show "encode_varlist enc xs e = e @ encode_varlist enc xs []" for xs e
    by (rule encode_varlist_append)
  show "encode_varlist enc xs [] \<noteq> []" for xs
    by (simp add: encode_varlist_Nil)
  fix d r :: _ and xs :: "'a list"
  assume d: "dec_valid d" and w: "wf_list wf xs" and eq: "rest d = encode_varlist enc xs [] @ r"
  let ?n = "encode_varint (word_of_nat (length xs)) []"
  let ?d = "advance d (length ?n)"
  have eq': "rest d = ?n @ (fold enc xs [] @ r)" using eq by (simp add: encode_varlist_Nil)
  have u: "unat (word_of_nat (length xs) :: u64) = length xs"
    using w by (simp add: wf_list_def unat_word_of_nat_alloc)
  have 1: "read_varint d label = Inr (word_of_nat (length xs), ?d)"
    using d eq' by (rule read_varint_encode)
  have v: "dec_valid ?d" using d eq' by (rule dec_valid_advance_append)
  have "rest ?d = fold enc xs [] @ r" using eq' by simp
  then have 2: "read_items dec (length xs) ?d = Inr (xs, advance ?d (length (fold enc xs [])))"
    using v w by (intro read_items_fold) (auto simp: wf_list_def)
  have "length xs \<le> remaining ?d"
    using length_fold_enc [of xs] w eq' by (simp add: length_rest [symmetric] wf_list_def)
  then show "read_var_list dec label d = Inr (xs, advance d (length (encode_varlist enc xs [])))"
    using 1 2 w u by (simp add: read_var_list_def encode_varlist_Nil wf_list_def ensure_allocation_len_def
        MAX_WIRE_ALLOCATION_def MAX_MESSAGE_SIZE_def U64_MAX_def)
qed

end

context strict_codec
begin

lemma decode_exact_canonical:
  assumes "decode_exact dec payload ctxt = Inr x"
  shows "wf x \<and> serialize enc x = payload"
proof -
  from assms obtain d where d: "dec (decoder_new payload) = Inr (x, d)" "is_done d"
    by (auto simp: decode_exact_def and_then_eq_Inr finish_def split: if_splits)
  have "dec_valid d" using dec_safe [OF _ d(1)] by simp
  with d(2) have "rest d = []" by (simp add: rest_Nil_iff)
  with dec_canonical [OF _ d(1)] show ?thesis by (simp add: serialize_def)
qed

lemma read_items_canonical:
  "dec_valid d \<Longrightarrow> read_items dec n d = Inr (xs, d') \<Longrightarrow>
    list_all wf xs \<and> length xs = n \<and> rest d = fold enc xs [] @ rest d'"
proof (induction n arbitrary: d xs)
  case (Suc n)
  from Suc.prems(2) obtain x d1 ys
    where 1: "dec d = Inr (x, d1)" "read_items dec n d1 = Inr (ys, d')" "xs = x # ys"
    by (auto simp: and_then_eq_Inr)
  have "dec_valid d1" using dec_safe [OF Suc.prems(1) 1(1)] by simp
  from Suc.IH [OF this 1(2)] dec_canonical [OF Suc.prems(1) 1(1)] 1(3)
  show ?case by (simp add: fold_enc_Cons del: fold.simps)
qed simp

lemma var_list_strict: "strict_codec (read_var_list dec label) (encode_varlist enc) (wf_list wf)"
proof (intro strict_codec.intro strict_codec_axioms.intro)
  show "codec (read_var_list dec label) (encode_varlist enc) (wf_list wf)" by (rule var_list_codec)
  fix d x d'
  assume v: "dec_valid d" and r: "read_var_list dec label d = Inr (x, d')"
  from r obtain c d1 where 1: "read_varint d label = Inr (c, d1)" "read_items dec (unat c) d1 = Inr (x, d')"
      "unat c \<le> MAX_WIRE_ALLOCATION"
    by (auto simp: read_var_list_def and_then_eq_Inr split: if_splits)
  from read_varint_sound [OF v 1(1)] have s: "dec_valid d1" "rest d = encode_varint c [] @ rest d1" by blast+
  from read_items_canonical [OF s(1) 1(2)]
  have t: "list_all wf x" "length x = unat c" "rest d1 = fold enc x [] @ rest d'" by auto
  then show "wf_list wf x \<and> rest d = encode_varlist enc x [] @ rest d'"
    using s(2) 1(3) by (simp add: wf_list_def encode_varlist_Nil)
qed

end


subsection \<open>Composing codecs\<close>

text \<open>
  A struct is written field by field.  Two combinators cover that: the pair of two codecs
  and a codec carried along a bijection.  The wire instances of the structs are shown equal
  to such a composition, and inherit its laws.
\<close>

definition pair_dec ::
  "(decoder \<Rightarrow> ('a \<times> decoder) decode_result) \<Rightarrow> (decoder \<Rightarrow> ('b \<times> decoder) decode_result) \<Rightarrow>
   decoder \<Rightarrow> (('a \<times> 'b) \<times> decoder) decode_result" where
  "pair_dec dec1 dec2 d =
     and_then (dec1 d) (\<lambda>(x, d1). and_then (dec2 d1) (\<lambda>(y, d2). Inr ((x, y), d2)))"

definition pair_enc ::
  "('a \<Rightarrow> encoder \<Rightarrow> encoder) \<Rightarrow> ('b \<Rightarrow> encoder \<Rightarrow> encoder) \<Rightarrow> 'a \<times> 'b \<Rightarrow> encoder \<Rightarrow> encoder" where
  "pair_enc enc1 enc2 p e = enc2 (snd p) (enc1 (fst p) e)"

definition pair_wf :: "('a \<Rightarrow> bool) \<Rightarrow> ('b \<Rightarrow> bool) \<Rightarrow> 'a \<times> 'b \<Rightarrow> bool" where
  "pair_wf w1 w2 p \<longleftrightarrow> w1 (fst p) \<and> w2 (snd p)"

definition iso_dec ::
  "('a \<Rightarrow> 'b) \<Rightarrow> (decoder \<Rightarrow> ('a \<times> decoder) decode_result) \<Rightarrow> decoder \<Rightarrow> ('b \<times> decoder) decode_result"
  where
  "iso_dec f dec d = and_then (dec d) (\<lambda>(x, d'). Inr (f x, d'))"

lemmas compose_defs = pair_dec_def pair_enc_def pair_wf_def iso_dec_def

lemma reader_return: "reader (\<lambda>d. Inr (x, d))"
  by unfold_locales auto

lemma reader_fail: "reader (\<lambda>d. Inl e)"
  by unfold_locales auto

lemma reader_bind:
  assumes "reader dec" "\<And>x. reader (k x)"
  shows "reader (\<lambda>d. and_then (dec d) (\<lambda>(x, d'). k x d'))"
proof
  fix d y d'
  assume d: "dec_valid d" and r: "and_then (dec d) (\<lambda>(x, d'). k x d') = Inr (y, d')"
  from r obtain x d1 where 1: "dec d = Inr (x, d1)" "k x d1 = Inr (y, d')"
    by (auto simp: and_then_eq_Inr)
  from reader.dec_safe [OF assms(1) d 1(1)] reader.dec_safe [OF assms(2) _ 1(2)]
  show "dec_data d' = dec_data d \<and> dec_pos d \<le> dec_pos d' \<and> dec_valid d'" by auto
qed

lemma reader_peek:
  assumes "\<And>b. reader (k b)"
  shows "reader (\<lambda>d. and_then (peek_u8 d label) (\<lambda>b. k b d))"
proof
  fix d y d'
  assume d: "dec_valid d" and r: "and_then (peek_u8 d label) (\<lambda>b. k b d) = Inr (y, d')"
  from r obtain b where "k b d = Inr (y, d')" by (auto simp: and_then_eq_Inr)
  from reader.dec_safe [OF assms d this]
  show "dec_data d' = dec_data d \<and> dec_pos d \<le> dec_pos d' \<and> dec_valid d'" .
qed

lemma reader_if: "reader a \<Longrightarrow> reader b \<Longrightarrow> reader (\<lambda>d. if c then a d else b d)"
  by (cases c) auto

lemmas reader_intros = reader_return reader_fail reader_bind reader_peek reader_if

lemma reader_pair: "reader dec1 \<Longrightarrow> reader dec2 \<Longrightarrow> reader (pair_dec dec1 dec2)"
  unfolding pair_dec_def [abs_def] by (intro reader_intros)

lemma reader_iso: "reader dec \<Longrightarrow> reader (iso_dec f dec)"
  unfolding iso_dec_def [abs_def] by (intro reader_intros)

lemma codec_pair:
  assumes "codec dec1 enc1 w1" "codec dec2 enc2 w2"
  shows "codec (pair_dec dec1 dec2) (pair_enc enc1 enc2) (pair_wf w1 w2)"
proof (intro codec.intro codec_axioms.intro)
  show "reader (pair_dec dec1 dec2)"
    using assms by (intro reader_pair) (auto simp: codec_def)
  have app: "pair_enc enc1 enc2 p [] = enc1 (fst p) [] @ enc2 (snd p) []" for p
    unfolding pair_enc_def by (rule codec.enc_append [OF assms(2)])
  show "pair_enc enc1 enc2 p e = e @ pair_enc enc1 enc2 p []" for p e
    by (metis app append_assoc codec.enc_append [OF assms(1)] codec.enc_append [OF assms(2)] pair_enc_def)
  show "pair_enc enc1 enc2 p [] \<noteq> []" if "pair_wf w1 w2 p" for p
    using that codec.enc_nonempty [OF assms(1)] by (simp add: app pair_wf_def)
  fix d p r
  assume d: "dec_valid d" and w: "pair_wf w1 w2 p" and eq: "rest d = pair_enc enc1 enc2 p [] @ r"
  let ?d = "advance d (length (enc1 (fst p) []))"
  have eq1: "rest d = enc1 (fst p) [] @ (enc2 (snd p) [] @ r)" using eq by (simp add: app)
  have 1: "dec1 d = Inr (fst p, ?d)"
    using w d eq1 by (intro codec.dec_enc [OF assms(1)]) (auto simp: pair_wf_def)
  have "dec_valid ?d" using d eq1 by (rule dec_valid_advance_append)
  then have 2: "dec2 ?d = Inr (snd p, advance ?d (length (enc2 (snd p) [])))"
    using w eq1 by (intro codec.dec_enc [OF assms(2)]) (auto simp: pair_wf_def)
  show "pair_dec dec1 dec2 d = Inr (p, advance d (length (pair_enc enc1 enc2 p [])))"
    using 1 2 by (simp add: pair_dec_def app)
qed

lemma codec_iso:
  assumes "codec dec enc w" "\<And>y. w' y \<Longrightarrow> w (g y) \<and> f (g y) = y"
  shows "codec (iso_dec f dec) (\<lambda>y. enc (g y)) w'"
proof (intro codec.intro codec_axioms.intro)
  show "reader (iso_dec f dec)" using assms by (intro reader_iso) (simp add: codec_def)
  show "enc (g y) e = e @ enc (g y) []" for y e by (rule codec.enc_append [OF assms(1)])
  show "w' y \<Longrightarrow> enc (g y) [] \<noteq> []" for y using codec.enc_nonempty [OF assms(1)] assms(2) by blast
  show "iso_dec f dec d = Inr (y, advance d (length (enc (g y) [])))"
    if "dec_valid d" "w' y" "rest d = enc (g y) [] @ r" for d y r
    using codec.dec_enc [OF assms(1) that(1) _ that(3)] assms(2) [OF that(2)] by (simp add: iso_dec_def)
qed

lemma strict_codec_pair:
  assumes "strict_codec dec1 enc1 w1" "strict_codec dec2 enc2 w2"
  shows "strict_codec (pair_dec dec1 dec2) (pair_enc enc1 enc2) (pair_wf w1 w2)"
proof (intro strict_codec.intro strict_codec_axioms.intro)
  have c: "codec dec1 enc1 w1" "codec dec2 enc2 w2" using assms by (auto simp: strict_codec_def)
  then show "codec (pair_dec dec1 dec2) (pair_enc enc1 enc2) (pair_wf w1 w2)" by (rule codec_pair)
  fix d p d'
  assume d: "dec_valid d" and r: "pair_dec dec1 dec2 d = Inr (p, d')"
  from r obtain x d1 y where 1: "dec1 d = Inr (x, d1)" "dec2 d1 = Inr (y, d')" "p = (x, y)"
    by (auto simp: pair_dec_def and_then_eq_Inr)
  have "dec_valid d1"
    using reader.dec_safe [OF codec.axioms(1) [OF c(1)] d 1(1)] by simp
  from strict_codec.dec_canonical [OF assms(1) d 1(1)] strict_codec.dec_canonical [OF assms(2) this 1(2)]
  show "pair_wf w1 w2 p \<and> rest d = pair_enc enc1 enc2 p [] @ rest d'"
    using 1(3) codec.enc_append [OF c(2), of y "enc1 x []"] by (simp add: pair_wf_def pair_enc_def)
qed

lemma strict_codec_iso:
  assumes "strict_codec dec enc w" "\<And>y. w' y \<Longrightarrow> w (g y) \<and> f (g y) = y"
    "\<And>x. w x \<Longrightarrow> w' (f x) \<and> g (f x) = x"
  shows "strict_codec (iso_dec f dec) (\<lambda>y. enc (g y)) w'"
proof (intro strict_codec.intro strict_codec_axioms.intro)
  show "codec (iso_dec f dec) (\<lambda>y. enc (g y)) w'"
    by (rule codec_iso [OF strict_codec.axioms(1) [OF assms(1)] assms(2)])
  fix d y d'
  assume d: "dec_valid d" and r: "iso_dec f dec d = Inr (y, d')"
  from r obtain x where "dec d = Inr (x, d')" "y = f x" by (auto simp: iso_dec_def and_then_eq_Inr)
  with strict_codec.dec_canonical [OF assms(1) d] assms(3)
  show "w' y \<and> rest d = enc (g y) [] @ rest d'" by auto
qed

text \<open>Every fixed-width field: \<open>n\<close> bytes read by \<open>f\<close> and written by \<open>g\<close>.\<close>

lemma strict_codec_fixed:
  assumes dec: "\<And>d. dec d = and_then (require d n label) (\<lambda>_. Inr (f (take n (rest d)), advance d n))"
    and enc: "\<And>x e. enc x e = e @ g x"
    and n: "0 < n" and g: "\<And>x. w x \<Longrightarrow> length (g x) = n \<and> f (g x) = x"
    and f: "\<And>bs. length bs = n \<Longrightarrow> w (f bs) \<and> g (f bs) = bs"
  shows "strict_codec dec enc w"
proof (intro strict_codec.intro strict_codec_axioms.intro codec.intro codec_axioms.intro reader.intro)
  fix d x d'
  assume d: "dec_valid d" and r: "dec d = Inr (x, d')"
  from r have 1: "n \<le> length (rest d)" "x = f (take n (rest d))" "d' = advance d n"
    by (auto simp: dec and_then_eq_Inr)
  then have v: "dec_valid d'" using d dec_valid_advance by simp
  with 1 show "dec_data d' = dec_data d \<and> dec_pos d \<le> dec_pos d' \<and> dec_valid d'" by simp
  from 1 f [of "take n (rest d)"] show "w x \<and> rest d = enc x [] @ rest d'"
    by (simp add: enc)
next
  show "enc x e = e @ enc x []" for x e by (simp add: enc)
  show "w x \<Longrightarrow> enc x [] \<noteq> []" for x using g [of x] n by (auto simp: enc)
  show "dec d = Inr (x, advance d (length (enc x [])))"
    if "dec_valid d" "w x" "rest d = enc x [] @ r" for d x r
    using that g [of x] by (simp add: enc dec require_def length_rest [symmetric])
qed

subsection \<open>The primitive instances\<close>

lemma take_1_rest: "1 \<le> length (rest d) \<Longrightarrow> hd (take 1 (rest d)) = dec_data d ! dec_pos d"
  by (subst nth_rest_hd) auto

interpretation u8: strict_codec decode_u8 encode_u8 "\<lambda>_. True"
proof (rule strict_codec_fixed [where n = 1 and f = hd and g = "\<lambda>x. [x]"])
  show "decode_u8 d = and_then (require d 1 ''u8'') (\<lambda>_. Inr (hd (take 1 (rest d)), advance d 1))" for d
    by (auto simp: decode_u8_def read_u8_def require_def length_rest [symmetric] nth_rest_hd hd_take)
qed (auto simp: encoder_defs length_Suc_conv)

interpretation u16be: strict_codec decode_u16be encode_u16be "\<lambda>_. True"
  by (rule strict_codec_fixed [where n = 2 and f = "\<lambda>bs. of_le (rev bs)" and g = "\<lambda>x. rev (to_le 2 x)"])
    (auto simp: decode_u16be_def read_u16_be_def slice_rest encoder_defs to_le_of_le_n)

interpretation u32: strict_codec decode_u32 encode_u32 "\<lambda>_. True"
  by (rule strict_codec_fixed [where n = 4 and f = of_le and g = "to_le 4"])
    (auto simp: decode_u32_def read_u32_le_def slice_rest encoder_defs to_le_of_le_n)

interpretation u64: strict_codec decode_u64 encode_u64 "\<lambda>_. True"
  by (rule strict_codec_fixed [where n = 8 and f = of_le and g = "to_le 8"])
    (auto simp: decode_u64_def read_u64_le_def slice_rest encoder_defs to_le_of_le_n)

interpretation i32: strict_codec decode_i32 encode_i32 "\<lambda>_. True"
  by (rule strict_codec_fixed [where n = 4 and f = of_le and g = "to_le 4"])
    (auto simp: decode_i32_def read_i32_le_def slice_rest encoder_defs to_le_of_le_n)

interpretation i64: strict_codec decode_i64 encode_i64 "\<lambda>_. True"
  by (rule strict_codec_fixed [where n = 8 and f = of_le and g = "to_le 8"])
    (auto simp: decode_i64_def read_i64_le_def slice_rest encoder_defs to_le_of_le_n)

lemma array_strict: "0 < n \<Longrightarrow> strict_codec (decode_array n) encode_array (\<lambda>bs. length bs = n)"
  by (rule strict_codec_fixed [where n = n and f = "\<lambda>bs. bs" and g = "\<lambda>bs. bs" and label = "''array''"])
    (auto simp: decode_array_def read_array_def slice_rest encoder_defs)

interpretation varint: strict_codec decode_varint encode_varint "\<lambda>_. True"
proof unfold_locales
  show "decode_varint d = Inr (x, advance d (length (encode_varint x [])))"
    if "dec_valid d" "rest d = encode_varint x [] @ r" for d x r
    using that by (simp add: decode_varint_def read_varint_encode)
  fix d x d'
  assume "dec_valid d" "decode_varint d = Inr (x, d')"
  then have s: "d' = advance d (length (encode_varint x []))" "dec_valid d'" "rest d = encode_varint x [] @ rest d'"
    using read_varint_sound by (auto simp only: decode_varint_def)
  show "dec_data d' = dec_data d \<and> dec_pos d \<le> dec_pos d' \<and> dec_valid d'"
    using s(2) by (simp add: s(1))
  show "True \<and> rest d = encode_varint x [] @ rest d'" using s(3) by blast
qed (simp_all add: encode_varint_append [symmetric])

text \<open>A length-prefixed byte string, whatever label the reader reports.\<close>

definition wf_varbytes :: "bytes \<Rightarrow> bool" where
  "wf_varbytes b \<longleftrightarrow> length b \<le> MAX_WIRE_ALLOCATION"

lemma encode_varbytes_Nil:
  "encode_varbytes b [] = encode_varint (word_of_nat (length b)) [] @ b"
  by (simp add: encode_varbytes_def push_bytes_def)

lemma varbytes_strict: "strict_codec (\<lambda>d. read_varbytes d label) encode_varbytes wf_varbytes"
proof (intro strict_codec.intro strict_codec_axioms.intro codec.intro codec_axioms.intro reader.intro)
  show "encode_varbytes x e = e @ encode_varbytes x []" for x e
    by (simp add: encode_varbytes_def push_bytes_def) (rule encode_varint_append)
  show "encode_varbytes x [] \<noteq> []" for x by (simp add: encode_varbytes_Nil)
  show "read_varbytes d label = Inr (x, advance d (length (encode_varbytes x [])))"
    if v: "dec_valid d" and w: "wf_varbytes x" and r: "rest d = encode_varbytes x [] @ r" for d x r
  proof -
    have eq: "rest d = encode_varint (word_of_nat (length x)) [] @ (x @ r)"
      using r by (simp add: encode_varbytes_Nil)
    have u: "unat (word_of_nat (length x) :: u64) = length x"
      using w by (simp add: wf_varbytes_def unat_word_of_nat_alloc)
    show ?thesis
      using read_varint_encode [OF v eq, of label] w u eq
      by (simp add: read_varbytes_def read_bytes_def ensure_allocation_len_def wf_varbytes_def
          MAX_WIRE_ALLOCATION_def MAX_MESSAGE_SIZE_def U64_MAX_def require_def length_rest [symmetric]
          slice_rest encode_varbytes_Nil)
  qed
  fix d x d'
  assume v: "dec_valid d" and r: "read_varbytes d label = Inr (x, d')"
  from r obtain n d1 where 1: "read_varint d label = Inr (n, d1)" "unat n \<le> MAX_WIRE_ALLOCATION"
      "unat n \<le> length (rest d1)" "x = take (unat n) (rest d1)" "d' = advance d1 (unat n)"
    by (auto simp: read_varbytes_def read_bytes_def slice_rest and_then_eq_Inr)
  from read_varint_sound [OF v 1(1)]
  have s: "d1 = advance d (length (encode_varint n []))" "dec_valid d1" "rest d = encode_varint n [] @ rest d1"
    by blast+
  have x: "length x = unat n" using 1 by simp
  show "dec_data d' = dec_data d \<and> dec_pos d \<le> dec_pos d' \<and> dec_valid d'"
    using 1(3) s(2) by (simp add: 1(5) dec_valid_advance) (simp add: s(1))
  have "rest d1 = x @ rest d'" using 1 by simp
  then show "wf_varbytes x \<and> rest d = encode_varbytes x [] @ rest d'"
    using 1(2) x s(3) by (simp add: wf_varbytes_def encode_varbytes_Nil del: rest_advance)
qed

interpretation vec_u8: strict_codec decode_vec_u8 encode_vec_u8 wf_varbytes
  using varbytes_strict [of "''Vec<u8>''"] by (simp add: decode_vec_u8_def [abs_def] encode_vec_u8_def [abs_def])

text \<open>\<^verbatim>\<open>bool\<close> reads any non-zero byte as true, so it is a codec but not a strict one.\<close>

interpretation bool: codec decode_bool encode_bool "\<lambda>_. True"
proof unfold_locales
  fix d x d'
  assume "dec_valid d" "decode_bool d = Inr (x, d')"
  then show "dec_data d' = dec_data d \<and> dec_pos d \<le> dec_pos d' \<and> dec_valid d'"
    by (auto simp: decode_bool_def read_bool_def and_then_eq_Inr dec_valid_advance)
next
  fix d r and x :: bool
  assume "dec_valid d" "rest d = encode_bool x [] @ r"
  then show "decode_bool d = Inr (x, advance d (length (encode_bool x [])))"
    by (simp add: decode_bool_def read_bool_def encoder_defs require_def length_rest [symmetric] nth_rest_hd)
qed (simp_all add: encoder_defs)

text \<open>\<open>read_var_str\<close> reads back the strings \<open>VarStr\<close> writes, and only well-formed UTF-8.\<close>

interpretation varstr: codec "\<lambda>d. read_var_str d label" encode_varstr "\<lambda>b. wf_varbytes b \<and> valid_utf8 b"
  for label
proof (intro codec.intro codec_axioms.intro reader.intro)
  have app: "encode_varstr b e = e @ encode_varint (word_of_nat (length b)) [] @ b" for b e
    by (simp add: encode_varstr_def push_bytes_def) (rule encode_varint_append)
  show "encode_varstr b e = e @ encode_varstr b []" for b e by (simp add: app)
  show "encode_varstr b [] \<noteq> []" for b by (simp add: app)
  show "read_var_str d label = Inr (b, advance d (length (encode_varstr b [])))"
    if v: "dec_valid d" and w: "wf_varbytes b \<and> valid_utf8 b" and r: "rest d = encode_varstr b [] @ r" for d b r
  proof -
    have eq: "rest d = encode_varint (word_of_nat (length b)) [] @ (b @ r)" using r by (simp add: app)
    have u: "unat (word_of_nat (length b) :: u64) = length b"
      using w by (simp add: wf_varbytes_def unat_word_of_nat_alloc)
    show ?thesis
      using read_varint_raw_encode [of "word_of_nat (length b)" "b @ r" label] w u eq
      by (simp add: read_var_str_def rest_def [symmetric] ensure_allocation_len_def wf_varbytes_def Let_def
          MAX_WIRE_ALLOCATION_def MAX_MESSAGE_SIZE_def U64_MAX_def require_def length_rest [symmetric]
          slice_rest app)
  qed
  fix d x d'
  assume v: "dec_valid d" and r: "read_var_str d label = Inr (x, d')"
  from r obtain n k where 1: "read_varint_raw (rest d) label = Inr (n, k)"
      "unat n \<le> length (rest (advance d k))" "d' = advance d (k + unat n)"
    by (auto simp: read_var_str_def rest_def [symmetric] and_then_eq_Inr Let_def split: if_splits)
  from read_varint_raw_sound [OF 1(1)] have "k + unat n \<le> length (rest d)" using 1(2) by auto
  with v 1(3) show "dec_data d' = dec_data d \<and> dec_pos d \<le> dec_pos d' \<and> dec_valid d'"
    by (simp add: dec_valid_advance)
qed

end
