(* ===== verification/Hashes.thy ===== *)
theory Hashes
  imports Wire
begin

text \<open>
  \<^verbatim>\<open>crates/common/types/hash.rs\<close>: the hash functions and the 256-bit hash type with its
  numeric order.  The compression functions themselves live in third-party crates
  (\<^verbatim>\<open>sha2\<close>, \<^verbatim>\<open>ripemd\<close>, \<^verbatim>\<open>sha1\<close>); the record \<open>digests\<close> is their parameter and
  \<open>digest_sizes\<close> the only fact about them the development uses: how long a digest is.
\<close>

record digests =
  Sha256_digest :: "bytes \<Rightarrow> bytes"
  Ripemd160_digest :: "bytes \<Rightarrow> bytes"
  Sha1_digest :: "bytes \<Rightarrow> bytes"

definition digest_sizes :: "digests \<Rightarrow> bool" where
  "digest_sizes H \<longleftrightarrow>
     (\<forall>d. length (Sha256_digest H d) = 32) \<and> (\<forall>d. length (Ripemd160_digest H d) = 20) \<and>
     (\<forall>d. length (Sha1_digest H d) = 20)"

definition hash256 :: "digests \<Rightarrow> bytes \<Rightarrow> bytes" where
  "hash256 H d = Sha256_digest H (Sha256_digest H d)"

definition hash160 :: "digests \<Rightarrow> bytes \<Rightarrow> bytes" where
  "hash160 H d = Ripemd160_digest H (Sha256_digest H d)"

definition sha256 :: "digests \<Rightarrow> bytes \<Rightarrow> bytes" where
  "sha256 H d = Sha256_digest H d"

definition ripemd160 :: "digests \<Rightarrow> bytes \<Rightarrow> bytes" where
  "ripemd160 H d = Ripemd160_digest H d"

definition sha1 :: "digests \<Rightarrow> bytes \<Rightarrow> bytes" where
  "sha1 H d = Sha1_digest H d"

text \<open>
  \<^verbatim>\<open>Hash256\<close>, \<^verbatim>\<open>BlockHash\<close> and \<^verbatim>\<open>Txid\<close> are one 32-byte array each; \<open>wf_hash\<close> is the
  length that the array type carries.
\<close>

type_synonym hash = bytes

definition wf_hash :: "hash \<Rightarrow> bool" where
  "wf_hash h \<longleftrightarrow> length h = 32"

definition hash_ZERO :: hash where
  "hash_ZERO = replicate 32 0"

definition is_zero :: "hash \<Rightarrow> bool" where
  "is_zero h \<longleftrightarrow> list_all (\<lambda>b. b = 0) h"

datatype ordering = Less | Equal | Greater

definition u8_cmp :: "u8 \<Rightarrow> u8 \<Rightarrow> ordering" where
  "u8_cmp a b = (if a < b then Less else if a = b then Equal else Greater)"

text \<open>The loop \<^verbatim>\<open>for i in (0..32).rev()\<close> of \<^verbatim>\<open>Hash256::cmp\<close>, from index \<open>i - 1\<close> down.\<close>

primrec hash_cmp_from :: "nat \<Rightarrow> hash \<Rightarrow> hash \<Rightarrow> ordering" where
  "hash_cmp_from 0 a b = Equal"
| "hash_cmp_from (Suc i) a b =
     (case u8_cmp (a ! i) (b ! i) of Equal \<Rightarrow> hash_cmp_from i a b | non_equal \<Rightarrow> non_equal)"

definition hash_cmp :: "hash \<Rightarrow> hash \<Rightarrow> ordering" where
  "hash_cmp a b = hash_cmp_from 32 a b"

definition hash_le :: "hash \<Rightarrow> hash \<Rightarrow> bool" where
  "hash_le a b \<longleftrightarrow> hash_cmp a b \<noteq> Greater"

definition hash_gt :: "hash \<Rightarrow> hash \<Rightarrow> bool" where
  "hash_gt a b \<longleftrightarrow> hash_cmp a b = Greater"

definition encode_hash256 :: "hash \<Rightarrow> encoder \<Rightarrow> encoder" where
  "encode_hash256 h enc = push_bytes h enc"

definition decode_hash256 :: "decoder \<Rightarrow> (hash \<times> decoder) decode_result" where
  "decode_hash256 d = and_then (decode_array 32 d) (\<lambda>(bs, d). Inr (bs, d))"

subsection \<open>The order is the numeric order\<close>

lemma wf_hash_simps [simp]:
  "digest_sizes H \<Longrightarrow> wf_hash (hash256 H d)" "digest_sizes H \<Longrightarrow> wf_hash (sha256 H d)"
  "wf_hash hash_ZERO"
  by (simp_all add: wf_hash_def digest_sizes_def hash256_def sha256_def hash_ZERO_def)

lemma digest_lengths:
  assumes "digest_sizes H"
  shows "length (hash256 H d) = 32" "length (sha256 H d) = 32" "length (hash160 H d) = 20"
    "length (ripemd160 H d) = 20" "length (sha1 H d) = 20"
  using assms
  by (simp_all add: digest_sizes_def hash256_def sha256_def hash160_def ripemd160_def sha1_def)

lemma le_nat_take_Suc:
  "i < length a \<Longrightarrow> le_nat (take (Suc i) a) = le_nat (take i a) + 256 ^ i * unat (a ! i)"
  by (simp add: take_Suc_conv_app_nth le_nat_append)

lemma le_nat_take_less:
  assumes "i < length a" "i < length b" "a ! i < b ! i"
  shows "le_nat (take (Suc i) a) < le_nat (take (Suc i) b)"
proof -
  have "le_nat (take i a) < 256 ^ i" using le_nat_lt [of "take i a"] assms(1) by simp
  moreover have "256 ^ i * (unat (a ! i) + 1) \<le> 256 ^ i * unat (b ! i)"
    using assms(3) by (intro mult_left_mono) (auto simp: word_less_nat_alt)
  ultimately show ?thesis by (simp add: le_nat_take_Suc assms(1,2))
qed

definition nat_cmp :: "nat \<Rightarrow> nat \<Rightarrow> ordering" where
  "nat_cmp a b = (if a < b then Less else if a = b then Equal else Greater)"

lemma hash_cmp_from_numeric:
  "n \<le> length a \<Longrightarrow> n \<le> length b \<Longrightarrow>
    hash_cmp_from n a b = nat_cmp (le_nat (take n a)) (le_nat (take n b))"
proof (induction n)
  case 0
  show ?case by (simp add: nat_cmp_def)
next
  case (Suc n)
  consider "a ! n < b ! n" | "a ! n = b ! n" | "b ! n < a ! n" by fastforce
  then show ?case
  proof cases
    case 1
    with le_nat_take_less [of n a b] Suc.prems show ?thesis by (simp add: u8_cmp_def nat_cmp_def)
  next
    case 2
    with Suc show ?thesis by (simp add: u8_cmp_def nat_cmp_def le_nat_take_Suc)
  next
    case 3
    with le_nat_take_less [of n b a] Suc.prems show ?thesis
      by (auto simp: u8_cmp_def nat_cmp_def)
  qed
qed

lemma hash_cmp_numeric: "wf_hash a \<Longrightarrow> wf_hash b \<Longrightarrow> hash_cmp a b = nat_cmp (le_nat a) (le_nat b)"
  by (simp add: hash_cmp_def hash_cmp_from_numeric wf_hash_def)

lemma hash_le_numeric: "wf_hash a \<Longrightarrow> wf_hash b \<Longrightarrow> hash_le a b \<longleftrightarrow> le_nat a \<le> le_nat b"
  by (auto simp: hash_le_def hash_cmp_numeric nat_cmp_def)

lemma hash_gt_numeric: "wf_hash a \<Longrightarrow> wf_hash b \<Longrightarrow> hash_gt a b \<longleftrightarrow> le_nat b < le_nat a"
  by (auto simp: hash_gt_def hash_cmp_numeric nat_cmp_def)

lemma is_zero_numeric: "is_zero h \<longleftrightarrow> le_nat h = 0"
  by (simp add: is_zero_def le_nat_eq_0_iff list_all_iff)

interpretation hash256_wire: strict_codec decode_hash256 encode_hash256 wf_hash
proof -
  have "decode_hash256 = decode_array 32"
    by (auto simp: decode_hash256_def fun_eq_iff split: prod.splits)
      (metis (no_types, lifting) and_then.elims case_prod_eta cond_case_prod_eta)
  moreover have "encode_hash256 = encode_array"
    by (simp add: fun_eq_iff encode_hash256_def encode_array_def)
  moreover have "wf_hash = (\<lambda>bs. length bs = 32)"
    by (simp add: fun_eq_iff wf_hash_def)
  ultimately show "strict_codec decode_hash256 encode_hash256 wf_hash"
    using array_strict [of 32] by simp
qed

end
