(* ===== verification/ScriptBase.thy ===== *)
theory ScriptBase
  imports Hashes
begin

text \<open>
  The vocabulary of the script engine: \<^verbatim>\<open>script/error.rs\<close>, \<^verbatim>\<open>script/flags.rs\<close> and
  \<^verbatim>\<open>script/opcode.rs\<close>.  An opcode is its byte, as in the code; the named bytes are
  abbreviations, so that they are numerals for the simplifier.
\<close>

subsection \<open>Errors\<close>

datatype (plugins only: code size) script_error =
    EvalFalse
  | OpReturn
  | ScriptSize
  | PushSize
  | OpCount
  | StackSize
  | PubkeyCount
  | SigCount
  | Verify
  | EqualVerify
  | CheckMultisigVerify
  | CheckSigVerify
  | NumEqualVerify
  | BadOpcode
  | DisabledOpcode
  | InvalidStackOperation
  | InvalidAltstackOperation
  | UnbalancedConditional
  | NegativeLocktime
  | UnsatisfiedLocktime
  | SigHashType
  | SigDer
  | MinimalData
  | SigPushOnly
  | SigHighS
  | SigNullDummy
  | PubkeyType
  | CleanStack
  | MinimalIf
  | SigNullFail
  | DiscourageUpgradableNops
  | DiscourageUpgradableWitnessProgram
  | WitnessProgramWrongLength
  | WitnessProgramWitnessEmpty
  | WitnessProgramMismatch
  | WitnessMalleated
  | WitnessMalleatedP2sh
  | WitnessUnexpected
  | WitnessPubkeyType
  | OpCodeseparator
  | SigFindAndDelete
  | TaprootWrongControlSize
  | DiscourageUpgradableTaprootVersion
  | DiscourageOpSuccess
  | DiscourageUpgradablePubkeyType
  | TapscriptCheckMultisig
  | SchnorrSigSize
  | SchnorrSigHashType
  | SchnorrSig
  | SchnorrSigPubkey
  | TapscriptValidationWeight
  | TapscriptMinimalIf
  | UnknownError

type_synonym 'a script_result = "script_error + 'a"

subsection \<open>Verification flags\<close>

type_synonym verify_flags = u32

definition FLAG_NONE :: verify_flags where
  "FLAG_NONE = 0"

definition FLAG_P2SH :: verify_flags where
  "FLAG_P2SH = push_bit 0 1"

definition FLAG_STRICTENC :: verify_flags where
  "FLAG_STRICTENC = push_bit 1 1"

definition FLAG_DERSIG :: verify_flags where
  "FLAG_DERSIG = push_bit 2 1"

definition FLAG_LOW_S :: verify_flags where
  "FLAG_LOW_S = push_bit 3 1"

definition FLAG_NULLDUMMY :: verify_flags where
  "FLAG_NULLDUMMY = push_bit 4 1"

definition FLAG_SIGPUSHONLY :: verify_flags where
  "FLAG_SIGPUSHONLY = push_bit 5 1"

definition FLAG_MINIMALDATA :: verify_flags where
  "FLAG_MINIMALDATA = push_bit 6 1"

definition FLAG_DISCOURAGE_UPGRADABLE_NOPS :: verify_flags where
  "FLAG_DISCOURAGE_UPGRADABLE_NOPS = push_bit 7 1"

definition FLAG_CLEANSTACK :: verify_flags where
  "FLAG_CLEANSTACK = push_bit 8 1"

definition FLAG_CHECKLOCKTIMEVERIFY :: verify_flags where
  "FLAG_CHECKLOCKTIMEVERIFY = push_bit 9 1"

definition FLAG_CHECKSEQUENCEVERIFY :: verify_flags where
  "FLAG_CHECKSEQUENCEVERIFY = push_bit 10 1"

definition FLAG_WITNESS :: verify_flags where
  "FLAG_WITNESS = push_bit 11 1"

definition FLAG_DISCOURAGE_UPGRADABLE_WITNESS_PROGRAM :: verify_flags where
  "FLAG_DISCOURAGE_UPGRADABLE_WITNESS_PROGRAM = push_bit 12 1"

definition FLAG_MINIMALIF :: verify_flags where
  "FLAG_MINIMALIF = push_bit 13 1"

definition FLAG_NULLFAIL :: verify_flags where
  "FLAG_NULLFAIL = push_bit 14 1"

definition FLAG_WITNESS_PUBKEYTYPE :: verify_flags where
  "FLAG_WITNESS_PUBKEYTYPE = push_bit 15 1"

definition FLAG_CONST_SCRIPTCODE :: verify_flags where
  "FLAG_CONST_SCRIPTCODE = push_bit 16 1"

definition FLAG_TAPROOT :: verify_flags where
  "FLAG_TAPROOT = push_bit 17 1"

definition FLAG_DISCOURAGE_UPGRADABLE_TAPROOT_VERSION :: verify_flags where
  "FLAG_DISCOURAGE_UPGRADABLE_TAPROOT_VERSION = push_bit 18 1"

definition FLAG_DISCOURAGE_OP_SUCCESS :: verify_flags where
  "FLAG_DISCOURAGE_OP_SUCCESS = push_bit 19 1"

definition FLAG_DISCOURAGE_UPGRADABLE_PUBKEYTYPE :: verify_flags where
  "FLAG_DISCOURAGE_UPGRADABLE_PUBKEYTYPE = push_bit 20 1"

definition CONSENSUS_SEGWIT :: verify_flags where
  "CONSENSUS_SEGWIT = FLAG_P2SH OR FLAG_DERSIG OR FLAG_NULLDUMMY OR FLAG_CHECKLOCKTIMEVERIFY OR
     FLAG_CHECKSEQUENCEVERIFY OR FLAG_WITNESS"

definition CONSENSUS_TAPROOT :: verify_flags where
  "CONSENSUS_TAPROOT = CONSENSUS_SEGWIT OR FLAG_TAPROOT"

text \<open>True when every bit of \<open>other\<close> is set.\<close>

definition contains :: "verify_flags \<Rightarrow> verify_flags \<Rightarrow> bool" where
  "contains flags other \<longleftrightarrow> flags AND other = other"

definition flags_union :: "verify_flags \<Rightarrow> verify_flags \<Rightarrow> verify_flags" where
  "flags_union a b = a OR b"

subsection \<open>Opcodes\<close>

type_synonym opcode = u8

abbreviation OP_0 :: u8 where
  "OP_0 \<equiv> 0x00"

abbreviation OP_FALSE :: u8 where
  "OP_FALSE \<equiv> OP_0"

abbreviation OP_PUSHDATA1 :: u8 where
  "OP_PUSHDATA1 \<equiv> 0x4c"

abbreviation OP_PUSHDATA2 :: u8 where
  "OP_PUSHDATA2 \<equiv> 0x4d"

abbreviation OP_PUSHDATA4 :: u8 where
  "OP_PUSHDATA4 \<equiv> 0x4e"

abbreviation OP_1NEGATE :: u8 where
  "OP_1NEGATE \<equiv> 0x4f"

abbreviation OP_RESERVED :: u8 where
  "OP_RESERVED \<equiv> 0x50"

abbreviation OP_1 :: u8 where
  "OP_1 \<equiv> 0x51"

abbreviation OP_TRUE :: u8 where
  "OP_TRUE \<equiv> OP_1"

abbreviation OP_2 :: u8 where
  "OP_2 \<equiv> 0x52"

abbreviation OP_3 :: u8 where
  "OP_3 \<equiv> 0x53"

abbreviation OP_4 :: u8 where
  "OP_4 \<equiv> 0x54"

abbreviation OP_5 :: u8 where
  "OP_5 \<equiv> 0x55"

abbreviation OP_6 :: u8 where
  "OP_6 \<equiv> 0x56"

abbreviation OP_7 :: u8 where
  "OP_7 \<equiv> 0x57"

abbreviation OP_8 :: u8 where
  "OP_8 \<equiv> 0x58"

abbreviation OP_9 :: u8 where
  "OP_9 \<equiv> 0x59"

abbreviation OP_10 :: u8 where
  "OP_10 \<equiv> 0x5a"

abbreviation OP_11 :: u8 where
  "OP_11 \<equiv> 0x5b"

abbreviation OP_12 :: u8 where
  "OP_12 \<equiv> 0x5c"

abbreviation OP_13 :: u8 where
  "OP_13 \<equiv> 0x5d"

abbreviation OP_14 :: u8 where
  "OP_14 \<equiv> 0x5e"

abbreviation OP_15 :: u8 where
  "OP_15 \<equiv> 0x5f"

abbreviation OP_16 :: u8 where
  "OP_16 \<equiv> 0x60"

abbreviation OP_NOP :: u8 where
  "OP_NOP \<equiv> 0x61"

abbreviation OP_VER :: u8 where
  "OP_VER \<equiv> 0x62"

abbreviation OP_IF :: u8 where
  "OP_IF \<equiv> 0x63"

abbreviation OP_NOTIF :: u8 where
  "OP_NOTIF \<equiv> 0x64"

abbreviation OP_VERIF :: u8 where
  "OP_VERIF \<equiv> 0x65"

abbreviation OP_VERNOTIF :: u8 where
  "OP_VERNOTIF \<equiv> 0x66"

abbreviation OP_ELSE :: u8 where
  "OP_ELSE \<equiv> 0x67"

abbreviation OP_ENDIF :: u8 where
  "OP_ENDIF \<equiv> 0x68"

abbreviation OP_VERIFY :: u8 where
  "OP_VERIFY \<equiv> 0x69"

abbreviation OP_RETURN :: u8 where
  "OP_RETURN \<equiv> 0x6a"

abbreviation OP_TOALTSTACK :: u8 where
  "OP_TOALTSTACK \<equiv> 0x6b"

abbreviation OP_FROMALTSTACK :: u8 where
  "OP_FROMALTSTACK \<equiv> 0x6c"

abbreviation OP_2DROP :: u8 where
  "OP_2DROP \<equiv> 0x6d"

abbreviation OP_2DUP :: u8 where
  "OP_2DUP \<equiv> 0x6e"

abbreviation OP_3DUP :: u8 where
  "OP_3DUP \<equiv> 0x6f"

abbreviation OP_2OVER :: u8 where
  "OP_2OVER \<equiv> 0x70"

abbreviation OP_2ROT :: u8 where
  "OP_2ROT \<equiv> 0x71"

abbreviation OP_2SWAP :: u8 where
  "OP_2SWAP \<equiv> 0x72"

abbreviation OP_IFDUP :: u8 where
  "OP_IFDUP \<equiv> 0x73"

abbreviation OP_DEPTH :: u8 where
  "OP_DEPTH \<equiv> 0x74"

abbreviation OP_DROP :: u8 where
  "OP_DROP \<equiv> 0x75"

abbreviation OP_DUP :: u8 where
  "OP_DUP \<equiv> 0x76"

abbreviation OP_NIP :: u8 where
  "OP_NIP \<equiv> 0x77"

abbreviation OP_OVER :: u8 where
  "OP_OVER \<equiv> 0x78"

abbreviation OP_PICK :: u8 where
  "OP_PICK \<equiv> 0x79"

abbreviation OP_ROLL :: u8 where
  "OP_ROLL \<equiv> 0x7a"

abbreviation OP_ROT :: u8 where
  "OP_ROT \<equiv> 0x7b"

abbreviation OP_SWAP :: u8 where
  "OP_SWAP \<equiv> 0x7c"

abbreviation OP_TUCK :: u8 where
  "OP_TUCK \<equiv> 0x7d"

abbreviation OP_CAT :: u8 where
  "OP_CAT \<equiv> 0x7e"

abbreviation OP_SUBSTR :: u8 where
  "OP_SUBSTR \<equiv> 0x7f"

abbreviation OP_LEFT :: u8 where
  "OP_LEFT \<equiv> 0x80"

abbreviation OP_RIGHT :: u8 where
  "OP_RIGHT \<equiv> 0x81"

abbreviation OP_SIZE :: u8 where
  "OP_SIZE \<equiv> 0x82"

abbreviation OP_INVERT :: u8 where
  "OP_INVERT \<equiv> 0x83"

abbreviation OP_AND :: u8 where
  "OP_AND \<equiv> 0x84"

abbreviation OP_OR :: u8 where
  "OP_OR \<equiv> 0x85"

abbreviation OP_XOR :: u8 where
  "OP_XOR \<equiv> 0x86"

abbreviation OP_EQUAL :: u8 where
  "OP_EQUAL \<equiv> 0x87"

abbreviation OP_EQUALVERIFY :: u8 where
  "OP_EQUALVERIFY \<equiv> 0x88"

abbreviation OP_RESERVED1 :: u8 where
  "OP_RESERVED1 \<equiv> 0x89"

abbreviation OP_RESERVED2 :: u8 where
  "OP_RESERVED2 \<equiv> 0x8a"

abbreviation OP_1ADD :: u8 where
  "OP_1ADD \<equiv> 0x8b"

abbreviation OP_1SUB :: u8 where
  "OP_1SUB \<equiv> 0x8c"

abbreviation OP_2MUL :: u8 where
  "OP_2MUL \<equiv> 0x8d"

abbreviation OP_2DIV :: u8 where
  "OP_2DIV \<equiv> 0x8e"

abbreviation OP_NEGATE :: u8 where
  "OP_NEGATE \<equiv> 0x8f"

abbreviation OP_ABS :: u8 where
  "OP_ABS \<equiv> 0x90"

abbreviation OP_NOT :: u8 where
  "OP_NOT \<equiv> 0x91"

abbreviation OP_0NOTEQUAL :: u8 where
  "OP_0NOTEQUAL \<equiv> 0x92"

abbreviation OP_ADD :: u8 where
  "OP_ADD \<equiv> 0x93"

abbreviation OP_SUB :: u8 where
  "OP_SUB \<equiv> 0x94"

abbreviation OP_MUL :: u8 where
  "OP_MUL \<equiv> 0x95"

abbreviation OP_DIV :: u8 where
  "OP_DIV \<equiv> 0x96"

abbreviation OP_MOD :: u8 where
  "OP_MOD \<equiv> 0x97"

abbreviation OP_LSHIFT :: u8 where
  "OP_LSHIFT \<equiv> 0x98"

abbreviation OP_RSHIFT :: u8 where
  "OP_RSHIFT \<equiv> 0x99"

abbreviation OP_BOOLAND :: u8 where
  "OP_BOOLAND \<equiv> 0x9a"

abbreviation OP_BOOLOR :: u8 where
  "OP_BOOLOR \<equiv> 0x9b"

abbreviation OP_NUMEQUAL :: u8 where
  "OP_NUMEQUAL \<equiv> 0x9c"

abbreviation OP_NUMEQUALVERIFY :: u8 where
  "OP_NUMEQUALVERIFY \<equiv> 0x9d"

abbreviation OP_NUMNOTEQUAL :: u8 where
  "OP_NUMNOTEQUAL \<equiv> 0x9e"

abbreviation OP_LESSTHAN :: u8 where
  "OP_LESSTHAN \<equiv> 0x9f"

abbreviation OP_GREATERTHAN :: u8 where
  "OP_GREATERTHAN \<equiv> 0xa0"

abbreviation OP_LESSTHANOREQUAL :: u8 where
  "OP_LESSTHANOREQUAL \<equiv> 0xa1"

abbreviation OP_GREATERTHANOREQUAL :: u8 where
  "OP_GREATERTHANOREQUAL \<equiv> 0xa2"

abbreviation OP_MIN :: u8 where
  "OP_MIN \<equiv> 0xa3"

abbreviation OP_MAX :: u8 where
  "OP_MAX \<equiv> 0xa4"

abbreviation OP_WITHIN :: u8 where
  "OP_WITHIN \<equiv> 0xa5"

abbreviation OP_RIPEMD160 :: u8 where
  "OP_RIPEMD160 \<equiv> 0xa6"

abbreviation OP_SHA1 :: u8 where
  "OP_SHA1 \<equiv> 0xa7"

abbreviation OP_SHA256 :: u8 where
  "OP_SHA256 \<equiv> 0xa8"

abbreviation OP_HASH160 :: u8 where
  "OP_HASH160 \<equiv> 0xa9"

abbreviation OP_HASH256 :: u8 where
  "OP_HASH256 \<equiv> 0xaa"

abbreviation OP_CODESEPARATOR :: u8 where
  "OP_CODESEPARATOR \<equiv> 0xab"

abbreviation OP_CHECKSIG :: u8 where
  "OP_CHECKSIG \<equiv> 0xac"

abbreviation OP_CHECKSIGVERIFY :: u8 where
  "OP_CHECKSIGVERIFY \<equiv> 0xad"

abbreviation OP_CHECKMULTISIG :: u8 where
  "OP_CHECKMULTISIG \<equiv> 0xae"

abbreviation OP_CHECKMULTISIGVERIFY :: u8 where
  "OP_CHECKMULTISIGVERIFY \<equiv> 0xaf"

abbreviation OP_NOP1 :: u8 where
  "OP_NOP1 \<equiv> 0xb0"

abbreviation OP_CHECKLOCKTIMEVERIFY :: u8 where
  "OP_CHECKLOCKTIMEVERIFY \<equiv> 0xb1"

abbreviation OP_NOP2 :: u8 where
  "OP_NOP2 \<equiv> OP_CHECKLOCKTIMEVERIFY"

abbreviation OP_CHECKSEQUENCEVERIFY :: u8 where
  "OP_CHECKSEQUENCEVERIFY \<equiv> 0xb2"

abbreviation OP_NOP3 :: u8 where
  "OP_NOP3 \<equiv> OP_CHECKSEQUENCEVERIFY"

abbreviation OP_NOP4 :: u8 where
  "OP_NOP4 \<equiv> 0xb3"

abbreviation OP_NOP5 :: u8 where
  "OP_NOP5 \<equiv> 0xb4"

abbreviation OP_NOP6 :: u8 where
  "OP_NOP6 \<equiv> 0xb5"

abbreviation OP_NOP7 :: u8 where
  "OP_NOP7 \<equiv> 0xb6"

abbreviation OP_NOP8 :: u8 where
  "OP_NOP8 \<equiv> 0xb7"

abbreviation OP_NOP9 :: u8 where
  "OP_NOP9 \<equiv> 0xb8"

abbreviation OP_NOP10 :: u8 where
  "OP_NOP10 \<equiv> 0xb9"

abbreviation OP_INVALIDOPCODE :: u8 where
  "OP_INVALIDOPCODE \<equiv> 0xff"

definition is_push :: "opcode \<Rightarrow> bool" where
  "is_push op \<longleftrightarrow> op \<le> OP_16"

definition counts_towards_op_limit :: "opcode \<Rightarrow> bool" where
  "counts_towards_op_limit op \<longleftrightarrow> op > OP_16"

definition is_disabled :: "opcode \<Rightarrow> bool" where
  "is_disabled op \<longleftrightarrow> op \<in> {OP_CAT, OP_SUBSTR, OP_LEFT, OP_RIGHT, OP_INVERT, OP_AND, OP_OR, OP_XOR,
     OP_2MUL, OP_2DIV, OP_MUL, OP_DIV, OP_MOD, OP_LSHIFT, OP_RSHIFT}"

definition decode_op_n :: "opcode \<Rightarrow> int option" where
  "decode_op_n op =
     (if op = OP_0 then Some 0
      else if op = OP_1NEGATE then Some (- 1)
      else if OP_1 \<le> op \<and> op \<le> OP_16 then Some (int (unat (op - (OP_1 - 1))))
      else None)"

end
