(* ===== verification/Transaction.thy ===== *)
theory Transaction
  imports Hashes
begin

text \<open>
  \<^verbatim>\<open>crates/common/types\<close>: amounts, scripts as byte buffers, outpoints, inputs, outputs,
  transactions (legacy and segwit serialisation, txid, wtxid), coins and block undo data.
\<close>

subsection \<open>Amount\<close>

definition COIN :: u64 where
  "COIN = 100000000"

definition MAX_MONEY :: u64 where
  "MAX_MONEY = 21000000 * COIN"

type_synonym amount = u64

datatype amount_error =
    ExceedsMaxMoney u64
  | WouldBeNegative u64 u64
  | Overflow

definition amount_ZERO :: amount where
  "amount_ZERO = 0"

definition from_sat :: "u64 \<Rightarrow> amount_error + amount" where
  "from_sat sats = (if sats > MAX_MONEY then Inl (ExceedsMaxMoney sats) else Inr sats)"

text \<open>\<^verbatim>\<open>u64::checked_add\<close>, \<^verbatim>\<open>checked_sub\<close> and \<^verbatim>\<open>checked_mul\<close> with the filter the type applies.\<close>

definition checked_add :: "amount \<Rightarrow> amount \<Rightarrow> amount option" where
  "checked_add a b =
     (if unat a + unat b < 2 ^ 64 then (if a + b \<le> MAX_MONEY then Some (a + b) else None) else None)"

definition checked_sub :: "amount \<Rightarrow> amount \<Rightarrow> amount option" where
  "checked_sub a b = (if b \<le> a then Some (a - b) else None)"

definition checked_mul :: "amount \<Rightarrow> u64 \<Rightarrow> amount option" where
  "checked_mul a k =
     (if unat a * unat k < 2 ^ 64 then (if a * k \<le> MAX_MONEY then Some (a * k) else None) else None)"

definition is_valid :: "amount \<Rightarrow> bool" where
  "is_valid a \<longleftrightarrow> a \<le> MAX_MONEY"

definition encode_amount :: "amount \<Rightarrow> encoder \<Rightarrow> encoder" where
  "encode_amount a enc = encode_u64 a enc"

definition decode_amount :: "decoder \<Rightarrow> (amount \<times> decoder) decode_result" where
  "decode_amount d = and_then (decode_u64 d) (\<lambda>(val, d). Inr (val, d))"

subsection \<open>ScriptBuf\<close>

type_synonym script_buf = bytes

definition encode_script_buf :: "script_buf \<Rightarrow> encoder \<Rightarrow> encoder" where
  "encode_script_buf s enc = encode_varbytes s enc"

definition decode_script_buf :: "decoder \<Rightarrow> (script_buf \<times> decoder) decode_result" where
  "decode_script_buf d = and_then (read_varbytes d ''ScriptBuf'') (\<lambda>(bs, d). Inr (bs, d))"

subsection \<open>OutPoint, TxIn, TxOut, Transaction\<close>

record out_point =
  op_txid :: hash
  op_vout :: u32

definition outpoint_is_coinbase :: "out_point \<Rightarrow> bool" where
  "outpoint_is_coinbase op \<longleftrightarrow> op_txid op = hash_ZERO \<and> op_vout op = 0xFFFFFFFF"

definition encode_outpoint :: "out_point \<Rightarrow> encoder \<Rightarrow> encoder" where
  "encode_outpoint op enc = encode_u32 (op_vout op) (encode_array (op_txid op) enc)"

definition decode_outpoint :: "decoder \<Rightarrow> (out_point \<times> decoder) decode_result" where
  "decode_outpoint d =
     and_then (decode_array 32 d) (\<lambda>(txid_bytes, d).
     and_then (decode_u32 d) (\<lambda>(vout, d).
     Inr (\<lparr>op_txid = txid_bytes, op_vout = vout\<rparr>, d)))"

record tx_in =
  previous_output :: out_point
  script_sig :: script_buf
  sequence :: u32
  witness :: "bytes list"

definition encode_txin :: "tx_in \<Rightarrow> encoder \<Rightarrow> encoder" where
  "encode_txin i enc =
     encode_u32 (sequence i) (encode_script_buf (script_sig i) (encode_outpoint (previous_output i) enc))"

definition decode_txin :: "decoder \<Rightarrow> (tx_in \<times> decoder) decode_result" where
  "decode_txin d =
     and_then (decode_outpoint d) (\<lambda>(prev, d).
     and_then (decode_script_buf d) (\<lambda>(sig, d).
     and_then (decode_u32 d) (\<lambda>(seq, d).
     Inr (\<lparr>previous_output = prev, script_sig = sig, sequence = seq, witness = []\<rparr>, d))))"

definition txin_is_final :: "tx_in \<Rightarrow> bool" where
  "txin_is_final i \<longleftrightarrow> sequence i = 0xFFFFFFFF"

definition signals_rbf :: "tx_in \<Rightarrow> bool" where
  "signals_rbf i \<longleftrightarrow> sequence i < 0xFFFFFFFE"

record tx_out =
  out_value :: amount
  script_pubkey :: script_buf

definition encode_txout :: "tx_out \<Rightarrow> encoder \<Rightarrow> encoder" where
  "encode_txout out enc = encode_script_buf (script_pubkey out) (encode_amount (out_value out) enc)"

definition decode_txout :: "decoder \<Rightarrow> (tx_out \<times> decoder) decode_result" where
  "decode_txout d =
     and_then (decode_amount d) (\<lambda>(val, d).
     and_then (decode_script_buf d) (\<lambda>(script, d).
     Inr (\<lparr>out_value = val, script_pubkey = script\<rparr>, d)))"

record transaction =
  tx_version :: u32
  inputs :: "tx_in list"
  outputs :: "tx_out list"
  lock_time :: u32

definition is_coinbase :: "transaction \<Rightarrow> bool" where
  "is_coinbase tx \<longleftrightarrow> length (inputs tx) = 1 \<and> outpoint_is_coinbase (previous_output (inputs tx ! 0))"

definition is_segwit :: "transaction \<Rightarrow> bool" where
  "is_segwit tx \<longleftrightarrow> (\<exists>i \<in> set (inputs tx). witness i \<noteq> [])"

text \<open>The inner and outer \<^verbatim>\<open>for\<close> loops of \<open>witness_serialized_size\<close>, starting from 2.\<close>

definition witness_serialized_size :: "transaction \<Rightarrow> nat" where
  "witness_serialized_size tx =
     (if \<not> is_segwit tx then 0
      else fold (\<lambda>i size.
             fold (\<lambda>item size. size + varint_serialized_size (word_of_nat (length item)) + length item)
               (witness i)
               (size + varint_serialized_size (word_of_nat (length (witness i)))))
           (inputs tx) 2)"

text \<open>\<^verbatim>\<open>try_fold\<close> over the outputs.\<close>

primrec sum_outputs :: "amount \<Rightarrow> tx_out list \<Rightarrow> amount option" where
  "sum_outputs acc [] = Some acc"
| "sum_outputs acc (out # outs) = Option.bind (checked_add acc (out_value out)) (\<lambda>a. sum_outputs a outs)"

definition output_value :: "transaction \<Rightarrow> amount option" where
  "output_value tx = sum_outputs amount_ZERO (outputs tx)"

definition encode_tx_legacy :: "transaction \<Rightarrow> encoder \<Rightarrow> encoder" where
  "encode_tx_legacy tx enc =
     encode_u32 (lock_time tx)
       (encode_varlist encode_txout (outputs tx)
         (encode_varlist encode_txin (inputs tx)
           (encode_u32 (tx_version tx) enc)))"

definition txid :: "digests \<Rightarrow> transaction \<Rightarrow> hash" where
  "txid H tx = hash256 H (encode_tx_legacy tx [])"

definition encode_transaction :: "transaction \<Rightarrow> encoder \<Rightarrow> encoder" where
  "encode_transaction tx enc =
     (if is_segwit tx then
        encode_u32 (lock_time tx)
          (fold (\<lambda>i enc. encode_varlist encode_vec_u8 (witness i) enc) (inputs tx)
            (encode_varlist encode_txout (outputs tx)
              (encode_varlist encode_txin (inputs tx)
                (encode_u8 1 (encode_u8 0 (encode_u32 (tx_version tx) enc))))))
      else encode_tx_legacy tx enc)"

definition wtxid :: "digests \<Rightarrow> transaction \<Rightarrow> hash" where
  "wtxid H tx = (if \<not> is_segwit tx then txid H tx else hash256 H (encode_transaction tx []))"

text \<open>The loop that reads one witness stack per input.\<close>

primrec read_witnesses :: "tx_in list \<Rightarrow> decoder \<Rightarrow> (tx_in list \<times> decoder) decode_result" where
  "read_witnesses [] d = Inr ([], d)"
| "read_witnesses (i # is) d =
     and_then (read_var_list decode_vec_u8 ''Transaction::witness'' d) (\<lambda>(w, next_dec).
     and_then (read_witnesses is next_dec) (\<lambda>(is', d).
     Inr (i\<lparr>witness := w\<rparr> # is', d)))"

definition decode_transaction :: "decoder \<Rightarrow> (transaction \<times> decoder) decode_result" where
  "decode_transaction d =
     and_then (decode_u32 d) (\<lambda>(ver, d).
     and_then (peek_u8 d ''Transaction::marker'') (\<lambda>marker.
     if marker = 0 then
       and_then (decode_u8 d) (\<lambda>(_, d).
       and_then (decode_u8 d) (\<lambda>(flag, d).
       if flag \<noteq> 1 then Inl (Custom ''invalid SegWit flag'')
       else
         and_then (read_var_list decode_txin ''Transaction::inputs'' d) (\<lambda>(ins, d).
         and_then (read_var_list decode_txout ''Transaction::outputs'' d) (\<lambda>(outs, d).
         and_then (read_witnesses ins d) (\<lambda>(ins, d).
         and_then (decode_u32 d) (\<lambda>(lt, d).
         Inr (\<lparr>tx_version = ver, inputs = ins, outputs = outs, lock_time = lt\<rparr>, d)))))))
     else
       and_then (read_var_list decode_txin ''Transaction::inputs'' d) (\<lambda>(ins, d).
       and_then (read_var_list decode_txout ''Transaction::outputs'' d) (\<lambda>(outs, d).
       and_then (decode_u32 d) (\<lambda>(lt, d).
       Inr (\<lparr>tx_version = ver, inputs = ins, outputs = outs, lock_time = lt\<rparr>, d))))))"

text \<open>
  \<open>Transaction::signature_hash\<close>: a copy of the transaction with every input script cleared
  and the signed input carrying the spent script.
\<close>

definition signature_hash :: "digests \<Rightarrow> transaction \<Rightarrow> nat \<Rightarrow> script_buf \<Rightarrow> u32 \<Rightarrow> bytes" where
  "signature_hash H tx input_index spk sighash_type =
     (if input_index \<ge> length (inputs tx) then 1 # replicate 31 0
      else
        let cleared = map (\<lambda>i. i\<lparr>script_sig := []\<rparr>) (inputs tx);
            tx_copy = tx\<lparr>inputs := cleared[input_index := (cleared ! input_index)\<lparr>script_sig := spk\<rparr>]\<rparr>
        in hash256 H (encode_u32 sighash_type (encode_tx_legacy tx_copy [])))"

subsection \<open>Coin and BlockUndo\<close>

record coin =
  coin_output :: tx_out
  coin_height :: u32
  coin_is_coinbase :: bool

definition coin_new :: "tx_out \<Rightarrow> u32 \<Rightarrow> bool \<Rightarrow> coin" where
  "coin_new out h cb = \<lparr>coin_output = out, coin_height = h, coin_is_coinbase = cb\<rparr>"

definition encode_coin :: "coin \<Rightarrow> encoder \<Rightarrow> encoder" where
  "encode_coin c enc =
     encode_txout (coin_output c) (encode_bool (coin_is_coinbase c) (encode_u32 (coin_height c) enc))"

definition decode_coin :: "decoder \<Rightarrow> (coin \<times> decoder) decode_result" where
  "decode_coin d =
     and_then (decode_u32 d) (\<lambda>(h, d).
     and_then (decode_bool d) (\<lambda>(cb, d).
     and_then (decode_txout d) (\<lambda>(out, d).
     Inr (\<lparr>coin_output = out, coin_height = h, coin_is_coinbase = cb\<rparr>, d))))"

text \<open>\<^verbatim>\<open>BlockUndo\<close> is its list of spent coins.\<close>

type_synonym block_undo = "coin list"

definition encode_block_undo :: "block_undo \<Rightarrow> encoder \<Rightarrow> encoder" where
  "encode_block_undo u enc = encode_varlist encode_coin u enc"

definition decode_block_undo :: "decoder \<Rightarrow> (block_undo \<times> decoder) decode_result" where
  "decode_block_undo d = and_then (read_var_list decode_coin ''BlockUndo'' d) (\<lambda>(u, d). Inr (u, d))"


subsection \<open>Arithmetic of amounts\<close>

lemma unat_MAX_MONEY: "unat MAX_MONEY = 2100000000000000"
  by (simp add: MAX_MONEY_def COIN_def)

lemma checked_add_Some:
  "checked_add a b = Some c \<longleftrightarrow> unat a + unat b \<le> unat MAX_MONEY \<and> c = a + b"
proof -
  have "unat (a + b) = unat a + unat b" if "unat a + unat b < 2 ^ 64"
    using that by (simp add: unat_word_ariths)
  then show ?thesis
    by (auto simp: checked_add_def word_le_nat_alt unat_MAX_MONEY)
qed

lemma unat_checked_add: "checked_add a b = Some c \<Longrightarrow> unat c = unat a + unat b"
  by (auto simp: checked_add_Some unat_MAX_MONEY unat_word_ariths)

lemma unat_checked_sub: "checked_sub a b = Some c \<longleftrightarrow> unat b \<le> unat a \<and> c = a - b"
  by (auto simp: checked_sub_def word_le_nat_alt)

lemma unat_checked_mul:
  "checked_mul a k = Some c \<Longrightarrow> unat c = unat a * unat k \<and> unat c \<le> unat MAX_MONEY"
  by (auto simp: checked_mul_def word_le_nat_alt unat_word_ariths split: if_splits)

definition sum_sats :: "tx_out list \<Rightarrow> nat" where
  "sum_sats outs = (\<Sum>out \<leftarrow> outs. unat (out_value out))"

lemma sum_sats_simps [simp]:
  "sum_sats [] = 0" "sum_sats (out # outs) = unat (out_value out) + sum_sats outs"
  "sum_sats (xs @ ys) = sum_sats xs + sum_sats ys"
  by (simp_all add: sum_sats_def)

lemma sum_outputs_Some:
  "unat acc \<le> unat MAX_MONEY \<Longrightarrow>
    sum_outputs acc outs = Some s \<longleftrightarrow> unat acc + sum_sats outs \<le> unat MAX_MONEY \<and> unat s = unat acc + sum_sats outs"
proof (induction outs arbitrary: acc)
  case Nil
  then show ?case by (auto simp: word_unat_eq_iff)
next
  case (Cons out outs)
  show ?case
  proof (cases "checked_add acc (out_value out)")
    case None
    then have "\<not> unat acc + unat (out_value out) \<le> unat MAX_MONEY"
      using checked_add_Some [of acc "out_value out" "acc + out_value out"] by simp
    with None show ?thesis by simp
  next
    case (Some a)
    then have "unat a = unat acc + unat (out_value out)" "unat a \<le> unat MAX_MONEY"
      using unat_checked_add [OF Some] checked_add_Some [of acc "out_value out" a] by simp_all
    with Some Cons.IH [of a] show ?thesis by (simp add: add.assoc)
  qed
qed

subsection \<open>Wire instances\<close>

definition wf_outpoint :: "out_point \<Rightarrow> bool" where
  "wf_outpoint op \<longleftrightarrow> length (op_txid op) = 32"

definition wf_txin :: "tx_in \<Rightarrow> bool" where
  "wf_txin i \<longleftrightarrow> wf_outpoint (previous_output i) \<and> wf_varbytes (script_sig i)"

definition wf_txout :: "tx_out \<Rightarrow> bool" where
  "wf_txout out \<longleftrightarrow> wf_varbytes (script_pubkey out)"

definition wf_coin :: "coin \<Rightarrow> bool" where
  "wf_coin c \<longleftrightarrow> wf_txout (coin_output c)"

lemma and_then_id [simp]: "and_then m Inr = m"
  by (cases m) auto

interpretation amount: strict_codec decode_amount encode_amount "\<lambda>_. True"
  using u64.strict_codec_axioms by (simp add: decode_amount_def [abs_def] encode_amount_def [abs_def])

interpretation script_buf: strict_codec decode_script_buf encode_script_buf wf_varbytes
  using varbytes_strict [of "''ScriptBuf''"]
  by (simp add: decode_script_buf_def [abs_def] encode_script_buf_def [abs_def])

lemmas field_by_field = fun_eq_iff compose_defs and_then_assoc case_prod_unfold

lemma decode_outpoint_fields:
  "decode_outpoint = iso_dec (\<lambda>(t, v). \<lparr>op_txid = t, op_vout = v\<rparr>) (pair_dec (decode_array 32) decode_u32)"
  by (simp add: decode_outpoint_def field_by_field)

interpretation outpoint: strict_codec decode_outpoint encode_outpoint wf_outpoint
proof -
  have "strict_codec decode_outpoint
      (\<lambda>op. pair_enc encode_array encode_u32 (op_txid op, op_vout op)) wf_outpoint"
    unfolding decode_outpoint_fields
    by (rule strict_codec_iso [OF strict_codec_pair [OF array_strict u32.strict_codec_axioms]])
      (auto simp: compose_defs wf_outpoint_def)
  then show "strict_codec decode_outpoint encode_outpoint wf_outpoint"
    by (simp add: pair_enc_def [abs_def] encode_outpoint_def [abs_def])
qed

lemma decode_txin_fields:
  "decode_txin = iso_dec (\<lambda>(p, s, q). \<lparr>previous_output = p, script_sig = s, sequence = q, witness = []\<rparr>)
     (pair_dec decode_outpoint (pair_dec decode_script_buf decode_u32))"
  by (simp add: decode_txin_def field_by_field)

text \<open>
  An input alone carries no witness on the wire; the codec is over inputs without one, and
  the encoder ignores it.
\<close>

interpretation txin: strict_codec decode_txin encode_txin "\<lambda>i. wf_txin i \<and> witness i = []"
proof -
  have "strict_codec decode_txin
      (\<lambda>i. pair_enc encode_outpoint (pair_enc encode_script_buf encode_u32)
        (previous_output i, script_sig i, sequence i)) (\<lambda>i. wf_txin i \<and> witness i = [])"
    unfolding decode_txin_fields
    by (rule strict_codec_iso [OF strict_codec_pair [OF outpoint.strict_codec_axioms
            strict_codec_pair [OF script_buf.strict_codec_axioms u32.strict_codec_axioms]]])
      (auto simp: compose_defs wf_txin_def)
  then show "strict_codec decode_txin encode_txin (\<lambda>i. wf_txin i \<and> witness i = [])"
    by (simp add: pair_enc_def [abs_def] encode_txin_def [abs_def])
qed

lemma decode_txout_fields:
  "decode_txout = iso_dec (\<lambda>(v, s). \<lparr>out_value = v, script_pubkey = s\<rparr>) (pair_dec decode_amount decode_script_buf)"
  by (simp add: decode_txout_def field_by_field)

interpretation txout: strict_codec decode_txout encode_txout wf_txout
proof -
  have "strict_codec decode_txout
      (\<lambda>out. pair_enc encode_amount encode_script_buf (out_value out, script_pubkey out)) wf_txout"
    unfolding decode_txout_fields
    by (rule strict_codec_iso [OF strict_codec_pair [OF amount.strict_codec_axioms script_buf.strict_codec_axioms]])
      (auto simp: compose_defs wf_txout_def)
  then show "strict_codec decode_txout encode_txout wf_txout"
    by (simp add: pair_enc_def [abs_def] encode_txout_def [abs_def])
qed

lemma decode_coin_fields:
  "decode_coin = iso_dec (\<lambda>(h, cb, out). \<lparr>coin_output = out, coin_height = h, coin_is_coinbase = cb\<rparr>)
     (pair_dec decode_u32 (pair_dec decode_bool decode_txout))"
  by (simp add: decode_coin_def field_by_field)

interpretation coin: codec decode_coin encode_coin wf_coin
proof -
  have "codec decode_coin
      (\<lambda>c. pair_enc encode_u32 (pair_enc encode_bool encode_txout)
        (coin_height c, coin_is_coinbase c, coin_output c)) wf_coin"
    unfolding decode_coin_fields
    by (rule codec_iso [OF codec_pair [OF u32.codec_axioms codec_pair [OF bool.codec_axioms txout.codec_axioms]]])
      (auto simp: compose_defs wf_coin_def)
  then show "codec decode_coin encode_coin wf_coin"
    by (simp add: pair_enc_def [abs_def] encode_coin_def [abs_def])
qed

interpretation block_undo: codec decode_block_undo encode_block_undo "wf_list wf_coin"
  using coin.var_list_codec [of "''BlockUndo''"]
  by (simp add: decode_block_undo_def [abs_def] encode_block_undo_def [abs_def])

interpretation txin_list: strict_codec "read_var_list decode_txin label" "encode_varlist encode_txin"
    "wf_list (\<lambda>i. wf_txin i \<and> witness i = [])" for label
  by (rule txin.var_list_strict)

interpretation txout_list: strict_codec "read_var_list decode_txout label" "encode_varlist encode_txout"
    "wf_list wf_txout" for label
  by (rule txout.var_list_strict)

interpretation witness_stack: strict_codec "read_var_list decode_vec_u8 label" "encode_varlist encode_vec_u8"
    "wf_list wf_varbytes" for label
  by (rule vec_u8.var_list_strict)


subsection \<open>The transaction codec\<close>

definition strip_txin :: "tx_in \<Rightarrow> tx_in" where
  "strip_txin i = i\<lparr>witness := []\<rparr>"

definition strip_witness :: "transaction \<Rightarrow> transaction" where
  "strip_witness tx = tx\<lparr>inputs := map strip_txin (inputs tx)\<rparr>"

text \<open>
  A transaction without inputs has no unambiguous encoding: its input count would be read
  as the segwit marker.
\<close>

definition wf_tx :: "transaction \<Rightarrow> bool" where
  "wf_tx tx \<longleftrightarrow> inputs tx \<noteq> [] \<and> wf_list wf_txin (inputs tx) \<and> wf_list wf_txout (outputs tx) \<and>
     list_all (\<lambda>i. wf_list wf_varbytes (witness i)) (inputs tx)"

abbreviation encode_witness :: "tx_in \<Rightarrow> encoder \<Rightarrow> encoder" where
  "encode_witness i enc \<equiv> encode_varlist encode_vec_u8 (witness i) enc"

lemma encode_txin_strip [simp]: "encode_txin (strip_txin i) = encode_txin i"
  by (simp add: fun_eq_iff encode_txin_def strip_txin_def)

lemma strip_txin_restore [simp]: "(strip_txin i)\<lparr>witness := witness i\<rparr> = i"
  by (simp add: strip_txin_def)

lemma fold_map_strip: "fold encode_txin (map strip_txin is) e = fold encode_txin is e"
  by (simp add: fold_map comp_def)

lemma encode_txin_list_strip [simp]:
  "encode_varlist encode_txin (map strip_txin is) e = encode_varlist encode_txin is e"
  by (simp add: encode_varlist_def fold_map_strip)

lemma wf_strip: "wf_list wf_txin is \<Longrightarrow> wf_list (\<lambda>i. wf_txin i \<and> witness i = []) (map strip_txin is)"
  by (auto simp: wf_list_def strip_txin_def wf_txin_def list_all_iff)

lemma fold_witness_append: "fold encode_witness is e = e @ fold encode_witness is []"
  by (rule fold_append_law) (rule witness_stack.enc_append)

lemma fold_witness_Cons:
  "fold encode_witness (i # is) [] = encode_witness i [] @ fold encode_witness is []"
  using fold_witness_append [of "is" "encode_witness i []"] by simp

lemma encode_u32_flat: "encode_u32 v e = e @ to_le 4 v"
  by (simp add: encoder_defs)

lemma encode_u8_flat: "encode_u8 v e = e @ [v]"
  by (simp add: encoder_defs)

lemmas tx_flat = encode_u32_flat encode_u8_flat txin.encode_varlist_flat txout.encode_varlist_flat

lemma encode_tx_legacy_flat:
  "encode_tx_legacy tx e =
     e @ encode_u32 (tx_version tx) [] @ encode_varlist encode_txin (inputs tx) [] @
     encode_varlist encode_txout (outputs tx) [] @ encode_u32 (lock_time tx) []"
  by (simp add: encode_tx_legacy_def tx_flat)

lemma encode_tx_segwit_flat:
  "is_segwit tx \<Longrightarrow> encode_transaction tx e =
     e @ encode_u32 (tx_version tx) [] @ encode_u8 0 [] @ encode_u8 1 [] @
     encode_varlist encode_txin (inputs tx) [] @ encode_varlist encode_txout (outputs tx) [] @
     fold encode_witness (inputs tx) [] @ encode_u32 (lock_time tx) []"
  by (simp add: encode_transaction_def, subst fold_witness_append) (simp add: tx_flat)

lemma encode_transaction_append: "encode_transaction tx e = e @ encode_transaction tx []"
  using encode_tx_segwit_flat [of tx e] encode_tx_segwit_flat [of tx "[]"] encode_tx_legacy_flat [of tx]
  by (cases "is_segwit tx") (simp_all add: encode_transaction_def)

lemma read_witnesses_encode:
  assumes "dec_valid d" "list_all (\<lambda>i. wf_list wf_varbytes (witness i)) is"
    "rest d = fold encode_witness is [] @ r"
  shows "read_witnesses (map strip_txin is) d = Inr (is, advance d (length (fold encode_witness is [])))"
  using assms
proof (induction "is" arbitrary: d)
  case (Cons i "is")
  have eq: "rest d = encode_witness i [] @ (fold encode_witness is [] @ r)"
    using Cons.prems(3) by (simp only: fold_witness_Cons append_assoc)
  obtain d1 where d1: "read_var_list decode_vec_u8 ''Transaction::witness'' d = Inr (witness i, d1)"
      "dec_valid d1" "rest d1 = fold encode_witness is [] @ r" "d1 = advance d (length (encode_witness i []))"
    using Cons.prems(1,2) eq by (auto elim: witness_stack.dec_step)
  have "read_witnesses (map strip_txin is) d1 = Inr (is, advance d1 (length (fold encode_witness is [])))"
    using Cons.prems(2) d1(2,3) by (intro Cons.IH) auto
  with d1(1,4) show ?case by (simp add: fold_witness_Cons del: fold.simps)
qed simp

lemma read_witnesses_reader: "reader (read_witnesses is)"
proof (induction "is")
  case Nil
  show ?case by (simp add: reader_return)
next
  case (Cons i "is")
  then show ?case
    unfolding read_witnesses.simps [abs_def] by (intro reader_intros witness_stack.reader_axioms)
qed

lemma decode_transaction_reader: "reader decode_transaction"
  unfolding decode_transaction_def [abs_def]
  by (intro reader_intros u32.reader_axioms u8.reader_axioms txin_list.reader_axioms
      txout_list.reader_axioms read_witnesses_reader)

text \<open>The first byte after the version tells the two encodings apart.\<close>

lemma peek_u8_hd: "rest d \<noteq> [] \<Longrightarrow> peek_u8 d label = Inr (hd (rest d))"
  by (simp add: peek_u8_def nth_rest_hd require_def length_rest [symmetric] Suc_le_eq)

lemma hd_encode_varint: "v \<noteq> 0 \<Longrightarrow> hd (encode_varint v [] @ r) \<noteq> 0"
  by (auto simp: encode_varint_def encoder_defs word_unat_eq_iff [of v] word_unat_eq_iff ucast_u64_bytes(1))

lemma hd_input_count:
  assumes "wf_tx tx"
  shows "hd (encode_varlist encode_txin (inputs tx) [] @ r) \<noteq> 0"
proof -
  have "unat (word_of_nat (length (inputs tx)) :: u64) = length (inputs tx)"
    using assms by (simp add: wf_tx_def wf_list_def unat_word_of_nat_alloc)
  then have "(word_of_nat (length (inputs tx)) :: u64) \<noteq> 0"
    using assms by (metis length_0_conv unsigned_0 wf_tx_def)
  then show ?thesis
    by (simp only: txin.encode_varlist_Nil append_assoc hd_encode_varint not_False_eq_True)
qed

lemma decode_transaction_legacy:
  assumes "dec_valid d" "wf_tx tx" "\<not> is_segwit tx" "rest d = encode_transaction tx [] @ r"
  shows "decode_transaction d = Inr (tx, advance d (length (encode_transaction tx [])))"
proof -
  let ?I = "encode_varlist encode_txin (inputs tx) []" and ?O = "encode_varlist encode_txout (outputs tx) []"
  let ?V = "encode_u32 (tx_version tx) []" and ?L = "encode_u32 (lock_time tx) []"
  have enc: "encode_transaction tx [] = ?V @ ?I @ ?O @ ?L"
    using assms(3) encode_tx_legacy_flat [of tx "[]"] by (simp add: encode_transaction_def)
  have w: "wf_list (\<lambda>i. wf_txin i \<and> witness i = []) (inputs tx)" "wf_list wf_txout (outputs tx)"
    using assms(2,3) by (auto simp: wf_tx_def is_segwit_def wf_list_def list_all_iff)
  have eq: "rest d = ?V @ (?I @ (?O @ (?L @ r)))" using assms(4) enc by simp
  obtain d1 where d1: "decode_u32 d = Inr (tx_version tx, d1)" "dec_valid d1" "rest d1 = ?I @ (?O @ (?L @ r))"
      "d1 = advance d (length ?V)"
    by (rule u32.dec_step [OF assms(1) TrueI eq])
  obtain d2 where d2: "read_var_list decode_txin ''Transaction::inputs'' d1 = Inr (inputs tx, d2)" "dec_valid d2"
      "rest d2 = ?O @ (?L @ r)" "d2 = advance d1 (length ?I)"
    by (rule txin_list.dec_step [OF d1(2) w(1) d1(3)])
  obtain d3 where d3: "read_var_list decode_txout ''Transaction::outputs'' d2 = Inr (outputs tx, d3)" "dec_valid d3"
      "rest d3 = ?L @ r" "d3 = advance d2 (length ?O)"
    by (rule txout_list.dec_step [OF d2(2) w(2) d2(3)])
  obtain d4 where d4: "decode_u32 d3 = Inr (lock_time tx, d4)" "d4 = advance d3 (length ?L)"
    by (rule u32.dec_step [OF d3(2) TrueI d3(3)])
  have "rest d1 \<noteq> []" using d1(3) txin_list.enc_nonempty [OF w(1)] by simp
  then have "peek_u8 d1 ''Transaction::marker'' = Inr (hd (rest d1))" by (rule peek_u8_hd)
  moreover have "hd (rest d1) \<noteq> 0" using hd_input_count [OF assms(2)] d1(3) by simp
  ultimately show ?thesis
    using d1 d2 d3 d4 by (simp add: decode_transaction_def enc add.assoc)
qed

lemma decode_transaction_segwit:
  assumes "dec_valid d" "wf_tx tx" "is_segwit tx" "rest d = encode_transaction tx [] @ r"
  shows "decode_transaction d = Inr (tx, advance d (length (encode_transaction tx [])))"
proof -
  let ?I = "encode_varlist encode_txin (inputs tx) []" and ?O = "encode_varlist encode_txout (outputs tx) []"
  let ?V = "encode_u32 (tx_version tx) []" and ?L = "encode_u32 (lock_time tx) []"
  let ?W = "fold encode_witness (inputs tx) []" and ?M = "encode_u8 0 []" and ?F = "encode_u8 1 []"
  have enc: "encode_transaction tx [] = ?V @ ?M @ ?F @ ?I @ ?O @ ?W @ ?L"
    using encode_tx_segwit_flat [OF assms(3), of "[]"] by simp
  have w: "wf_list (\<lambda>i. wf_txin i \<and> witness i = []) (map strip_txin (inputs tx))" "wf_list wf_txout (outputs tx)"
      "list_all (\<lambda>i. wf_list wf_varbytes (witness i)) (inputs tx)"
    using assms(2) wf_strip by (auto simp: wf_tx_def)
  have eq: "rest d = ?V @ (?M @ (?F @ (?I @ (?O @ (?W @ (?L @ r))))))" using assms(4) enc by simp
  obtain d1 where d1: "decode_u32 d = Inr (tx_version tx, d1)" "dec_valid d1"
      "rest d1 = ?M @ (?F @ (?I @ (?O @ (?W @ (?L @ r)))))" "d1 = advance d (length ?V)"
    by (rule u32.dec_step [OF assms(1) TrueI eq])
  obtain d2 where d2: "decode_u8 d1 = Inr (0, d2)" "dec_valid d2"
      "rest d2 = ?F @ (?I @ (?O @ (?W @ (?L @ r))))" "d2 = advance d1 (length ?M)"
    by (rule u8.dec_step [OF d1(2) TrueI d1(3)])
  obtain d3 where d3: "decode_u8 d2 = Inr (1, d3)" "dec_valid d3"
      "rest d3 = ?I @ (?O @ (?W @ (?L @ r)))" "d3 = advance d2 (length ?F)"
    by (rule u8.dec_step [OF d2(2) TrueI d2(3)])
  obtain d4 where d4: "read_var_list decode_txin ''Transaction::inputs'' d3 = Inr (map strip_txin (inputs tx), d4)"
      "dec_valid d4" "rest d4 = ?O @ (?W @ (?L @ r))" "d4 = advance d3 (length ?I)"
    by (rule txin_list.dec_step [OF d3(2) w(1), unfolded encode_txin_list_strip, OF d3(3)])
  obtain d5 where d5: "read_var_list decode_txout ''Transaction::outputs'' d4 = Inr (outputs tx, d5)" "dec_valid d5"
      "rest d5 = ?W @ (?L @ r)" "d5 = advance d4 (length ?O)"
    by (rule txout_list.dec_step [OF d4(2) w(2) d4(3)])
  have rw: "read_witnesses (map strip_txin (inputs tx)) d5 = Inr (inputs tx, advance d5 (length ?W))"
    by (rule read_witnesses_encode [OF d5(2) w(3) d5(3)])
  have v6: "dec_valid (advance d5 (length ?W))" using d5(2,3) by (rule dec_valid_advance_append)
  have r6: "rest (advance d5 (length ?W)) = ?L @ r" using d5(3) by simp
  obtain d7 where d7: "decode_u32 (advance d5 (length ?W)) = Inr (lock_time tx, d7)"
      "d7 = advance (advance d5 (length ?W)) (length ?L)"
    by (rule u32.dec_step [OF v6 TrueI r6])
  have "rest d1 \<noteq> []" "hd (rest d1) = 0" using d1(3) by (simp_all add: encode_u8_flat)
  then have "peek_u8 d1 ''Transaction::marker'' = Inr 0" by (simp add: peek_u8_hd)
  then show ?thesis
    using d1(1,4) d2(1,4) d3(1,4) d4(1,4) d5(1,4) rw d7 by (simp add: decode_transaction_def enc add.assoc)
qed

interpretation transaction: codec decode_transaction encode_transaction wf_tx
proof (intro codec.intro codec_axioms.intro)
  show "reader decode_transaction" by (rule decode_transaction_reader)
  show "encode_transaction tx e = e @ encode_transaction tx []" for tx e
    by (rule encode_transaction_append)
  show "encode_transaction tx [] \<noteq> []" for tx
    using encode_tx_segwit_flat [of tx "[]"] encode_tx_legacy_flat [of tx "[]"] u32.enc_nonempty [of "tx_version tx"]
    by (cases "is_segwit tx") (simp_all add: encode_transaction_def)
  show "decode_transaction d = Inr (tx, advance d (length (encode_transaction tx [])))"
    if "dec_valid d" "wf_tx tx" "rest d = encode_transaction tx [] @ r" for d tx r
    using decode_transaction_legacy [OF that(1,2) _ that(3)] decode_transaction_segwit [OF that(1,2) _ that(3)]
    by (cases "is_segwit tx") auto
qed


subsection \<open>Witness data: identifiers and sizes\<close>

lemma txid_strip_witness: "txid H (strip_witness tx) = txid H tx"
  by (simp add: txid_def encode_tx_legacy_def strip_witness_def)

lemma strip_witness_not_segwit [simp]: "\<not> is_segwit (strip_witness tx)"
  by (auto simp: is_segwit_def strip_witness_def strip_txin_def)

definition witness_stack_size :: "bytes list \<Rightarrow> nat" where
  "witness_stack_size w = varint_serialized_size (word_of_nat (length w)) +
     (\<Sum>item \<leftarrow> w. varint_serialized_size (word_of_nat (length item)) + length item)"

lemma fold_item_sizes:
  "fold (\<lambda>item size. size + varint_serialized_size (word_of_nat (length item)) + length item) w n =
     n + (\<Sum>item \<leftarrow> w. varint_serialized_size (word_of_nat (length item)) + length item)"
  by (induction w arbitrary: n) auto

lemma fold_stack_sizes:
  "fold (\<lambda>i size. size + varint_serialized_size (word_of_nat (length (witness i))) +
      (\<Sum>item \<leftarrow> witness i. varint_serialized_size (word_of_nat (length item)) + length item)) is n =
     n + (\<Sum>i \<leftarrow> is. witness_stack_size (witness i))"
  by (induction "is" arbitrary: n) (auto simp: witness_stack_size_def)

lemma witness_serialized_size_sum:
  "is_segwit tx \<Longrightarrow> witness_serialized_size tx = 2 + (\<Sum>i \<leftarrow> inputs tx. witness_stack_size (witness i))"
  by (simp only: witness_serialized_size_def fold_item_sizes fold_stack_sizes if_False not_True_eq_False)

lemma length_encode_vec_u8:
  "length (encode_vec_u8 item []) = varint_serialized_size (word_of_nat (length item)) + length item"
  by (simp add: encode_vec_u8_def encode_varbytes_Nil length_encode_varint)

lemma length_fold_vec_u8:
  "length (fold encode_vec_u8 w []) =
     (\<Sum>item \<leftarrow> w. varint_serialized_size (word_of_nat (length item)) + length item)"
  by (induction w) (simp_all add: vec_u8.fold_enc_Cons length_encode_vec_u8 del: fold.simps(2))

lemma length_encode_witness: "length (encode_witness i []) = witness_stack_size (witness i)"
  by (simp add: vec_u8.encode_varlist_Nil witness_stack_size_def length_encode_varint length_fold_vec_u8)

lemma length_fold_witness:
  "length (fold encode_witness is []) = (\<Sum>i \<leftarrow> is. witness_stack_size (witness i))"
  by (induction "is") (simp_all add: fold_witness_Cons length_encode_witness del: fold.simps(2))

text \<open>\<open>witness_serialized_size\<close> is exactly what the witness adds to the serialisation.\<close>

lemma length_encode_transaction:
  "length (encode_transaction tx []) =
     length (encode_transaction (strip_witness tx) []) + witness_serialized_size tx"
proof (cases "is_segwit tx")
  case True
  have "encode_transaction (strip_witness tx) [] = encode_tx_legacy tx []"
    by (simp add: encode_transaction_def encode_tx_legacy_def) (simp add: strip_witness_def)
  then show ?thesis
    using True
    by (simp add: encode_tx_segwit_flat encode_tx_legacy_flat witness_serialized_size_sum
        length_fold_witness encode_u8_flat)
next
  case False
  then have "strip_txin i = i" if "i \<in> set (inputs tx)" for i
    using that by (auto simp: is_segwit_def strip_txin_def)
  then have "strip_witness tx = tx"
    by (simp add: strip_witness_def map_idI)
  with False show ?thesis by (simp add: witness_serialized_size_def)
qed

end
