(* ===== verification/Block.thy ===== *)
theory Block
  imports Transaction
begin

text \<open>
  \<^verbatim>\<open>crates/common/types/block.rs\<close> and \<^verbatim>\<open>flat_file_pos.rs\<close>: block headers with their compact
  difficulty encoding, blocks (merkle root, weight), the block index and the block locator.
\<close>

subsection \<open>Disk positions\<close>

datatype flat_file_pos = FlatFilePos (fp_file: u32) (fp_offset: u32)

text \<open>\<^verbatim>\<open>#[derive(PartialOrd, Ord)]\<close>: lexicographic in field order.\<close>

instantiation flat_file_pos :: linorder
begin

definition less_eq_flat_file_pos :: "flat_file_pos \<Rightarrow> flat_file_pos \<Rightarrow> bool" where
  "less_eq_flat_file_pos p q \<longleftrightarrow> fp_file p < fp_file q \<or> (fp_file p = fp_file q \<and> fp_offset p \<le> fp_offset q)"

definition less_flat_file_pos :: "flat_file_pos \<Rightarrow> flat_file_pos \<Rightarrow> bool" where
  "less_flat_file_pos p q \<longleftrightarrow> fp_file p < fp_file q \<or> (fp_file p = fp_file q \<and> fp_offset p < fp_offset q)"

instance
  by standard (auto simp: less_eq_flat_file_pos_def less_flat_file_pos_def flat_file_pos.expand)

end

definition encode_flat_file_pos :: "flat_file_pos \<Rightarrow> encoder \<Rightarrow> encoder" where
  "encode_flat_file_pos p enc = encode_u32 (fp_offset p) (encode_u32 (fp_file p) enc)"

definition decode_flat_file_pos :: "decoder \<Rightarrow> (flat_file_pos \<times> decoder) decode_result" where
  "decode_flat_file_pos d =
     and_then (decode_u32 d) (\<lambda>(f, d). and_then (decode_u32 d) (\<lambda>(off, d). Inr (FlatFilePos f off, d)))"

subsection \<open>Block heights\<close>

definition height_next :: "u32 \<Rightarrow> u32" where
  "height_next h = (if h = 0xFFFFFFFF then h else h + 1)"

definition height_prev :: "u32 \<Rightarrow> u32 option" where
  "height_prev h = (if h = 0 then None else Some (h - 1))"

subsection \<open>Block headers\<close>

record block_header =
  bh_version :: i32
  prev_hash :: hash
  merkle_root :: hash
  bh_time :: u32
  bh_bits :: u32
  bh_nonce :: u32

definition header_serialize :: "block_header \<Rightarrow> bytes" where
  "header_serialize h =
     to_le 4 (bh_version h) @ prev_hash h @ merkle_root h @ to_le 4 (bh_time h) @
     to_le 4 (bh_bits h) @ to_le 4 (bh_nonce h)"

definition header_deserialize :: "bytes \<Rightarrow> block_header" where
  "header_deserialize buf =
     \<lparr>bh_version = of_le (take 4 buf), prev_hash = take 32 (drop 4 buf),
      merkle_root = take 32 (drop 36 buf), bh_time = of_le (take 4 (drop 68 buf)),
      bh_bits = of_le (take 4 (drop 72 buf)), bh_nonce = of_le (take 4 (drop 76 buf))\<rparr>"

definition block_hash :: "digests \<Rightarrow> block_header \<Rightarrow> hash" where
  "block_hash H h = hash256 H (header_serialize h)"

text \<open>\<^verbatim>\<open>exponent.saturating_sub(3)\<close> is subtraction on naturals.\<close>

definition bits_to_target :: "u32 \<Rightarrow> hash" where
  "bits_to_target bits =
     (let exponent = unat (drop_bit 24 bits);
          mantissa = bits AND 0x00FFFFFF;
          target = replicate 32 0
      in if exponent = 0 then target
         else
           let pos = exponent - 3;
               m0 = ucast (mantissa AND 0xFF);
               m1 = ucast (drop_bit 8 mantissa AND 0xFF);
               m2 = ucast (drop_bit 16 mantissa AND 0xFF);
               target = (if pos < 32 then target[pos := m0] else target);
               target = (if pos + 1 < 32 then target[pos + 1 := m1] else target);
               target = (if pos + 2 < 32 then target[pos + 2 := m2] else target)
           in target)"

definition target :: "block_header \<Rightarrow> hash" where
  "target h = bits_to_target (bh_bits h)"

text \<open>The loop \<^verbatim>\<open>while n_size > 0 && bytes[n_size - 1] == 0\<close>.\<close>

primrec significant_size :: "bytes \<Rightarrow> nat \<Rightarrow> nat" where
  "significant_size bs 0 = 0"
| "significant_size bs (Suc n) = (if bs ! n = 0 then significant_size bs n else Suc n)"

definition target_to_bits :: "hash \<Rightarrow> u32" where
  "target_to_bits bs =
     (let n_size = significant_size bs 32
      in if n_size = 0 then 0
         else
           let exponent = word_of_nat n_size :: u32;
               mantissa =
                 (if n_size \<ge> 3 then
                    push_bit 16 (ucast (bs ! (n_size - 1))) OR push_bit 8 (ucast (bs ! (n_size - 2)))
                      OR ucast (bs ! (n_size - 3))
                  else if n_size = 2 then push_bit 16 (ucast (bs ! 1)) OR push_bit 8 (ucast (bs ! 0))
                  else push_bit 16 (ucast (bs ! 0))) :: u32
           in if mantissa AND 0x00800000 \<noteq> 0
              then push_bit 24 (exponent + 1) OR drop_bit 8 mantissa
              else push_bit 24 exponent OR mantissa)"

definition meets_target :: "digests \<Rightarrow> block_header \<Rightarrow> bool" where
  "meets_target H h \<longleftrightarrow> hash_le (block_hash H h) (target h)"

definition encode_block_header :: "block_header \<Rightarrow> encoder \<Rightarrow> encoder" where
  "encode_block_header h enc = push_bytes (header_serialize h) enc"

definition decode_block_header :: "decoder \<Rightarrow> (block_header \<times> decoder) decode_result" where
  "decode_block_header d = and_then (decode_array 80 d) (\<lambda>(bs, d). Inr (header_deserialize bs, d))"

subsection \<open>Blocks\<close>

record block =
  header :: block_header
  transactions :: "transaction list"

definition encode_block :: "block \<Rightarrow> encoder \<Rightarrow> encoder" where
  "encode_block b enc = encode_varlist encode_transaction (transactions b) (encode_block_header (header b) enc)"

definition decode_block :: "decoder \<Rightarrow> (block \<times> decoder) decode_result" where
  "decode_block d =
     and_then (decode_block_header d) (\<lambda>(h, d).
     and_then (read_var_list decode_transaction ''Block::transactions'' d) (\<lambda>(txs, d).
     Inr (\<lparr>header = h, transactions = txs\<rparr>, d)))"

text \<open>Lengths of in-memory buffers: \<^verbatim>\<open>saturating_sub\<close> on naturals.\<close>

definition block_weight :: "block \<Rightarrow> nat" where
  "block_weight b =
     (let total = length (serialize encode_block b);
          wit = (\<Sum>tx \<leftarrow> transactions b. witness_serialized_size tx);
          base = total - wit
      in base * 3 + total)"

text \<open>
  One level of the merkle tree: the last hash is duplicated when the count is odd, then the
  pairs are hashed.  \<open>hash_pairs\<close> is \<^verbatim>\<open>chunks(2)\<close>; the last equation is the chunk of one
  element, which the duplication rules out.
\<close>

fun hash_pairs :: "digests \<Rightarrow> hash list \<Rightarrow> hash list" where
  "hash_pairs H [] = []"
| "hash_pairs H [a] = [hash256 H (a @ a)]"
| "hash_pairs H (a # b # hs) = hash256 H (a @ b) # hash_pairs H hs"

definition merkle_level :: "digests \<Rightarrow> hash list \<Rightarrow> hash list" where
  "merkle_level H hs = hash_pairs H (if odd (length hs) then hs @ [last hs] else hs)"

lemma length_hash_pairs: "length (hash_pairs H hs) = (length hs + 1) div 2"
  by (induction H hs rule: hash_pairs.induct) auto

lemma length_merkle_level: "length (merkle_level H hs) = (length hs + 1) div 2"
  by (auto simp: merkle_level_def length_hash_pairs)

text \<open>The \<^verbatim>\<open>while hashes.len() > 1\<close> loop; each level is shorter than the one below.\<close>

function merkle_loop :: "digests \<Rightarrow> hash list \<Rightarrow> hash list" where
  "merkle_loop H hs = (if length hs > 1 then merkle_loop H (merkle_level H hs) else hs)"
  by pat_completeness auto
termination
  by (relation "measure (\<lambda>(H, hs). length hs)") (auto simp: length_merkle_level)

definition compute_merkle_root :: "digests \<Rightarrow> block \<Rightarrow> hash" where
  "compute_merkle_root H b =
     (if transactions b = [] then hash_ZERO
      else merkle_loop H (map (txid H) (transactions b)) ! 0)"

subsection \<open>Block index and locator\<close>

record block_index =
  bi_header :: block_header
  bi_height :: u32
  chain_work :: hash
  file_pos :: "flat_file_pos option"
  undo_pos :: "flat_file_pos option"

definition unwrap_pos :: "flat_file_pos option \<Rightarrow> flat_file_pos" where
  "unwrap_pos p = (case p of Some q \<Rightarrow> q | None \<Rightarrow> FlatFilePos 0 0)"

definition encode_block_index :: "block_index \<Rightarrow> encoder \<Rightarrow> encoder" where
  "encode_block_index bi enc =
     encode_flat_file_pos (unwrap_pos (undo_pos bi))
      (encode_bool (undo_pos bi \<noteq> None)
       (encode_flat_file_pos (unwrap_pos (file_pos bi))
        (encode_bool (file_pos bi \<noteq> None)
         (encode_hash256 (chain_work bi)
          (encode_u32 (bi_height bi) (encode_block_header (bi_header bi) enc))))))"

definition decode_block_index :: "decoder \<Rightarrow> (block_index \<times> decoder) decode_result" where
  "decode_block_index d =
     and_then (decode_block_header d) (\<lambda>(h, d).
     and_then (decode_u32 d) (\<lambda>(ht, d).
     and_then (decode_hash256 d) (\<lambda>(work, d).
     and_then (decode_bool d) (\<lambda>(has_pos, d).
     and_then (decode_flat_file_pos d) (\<lambda>(pos, d).
     and_then (decode_bool d) (\<lambda>(has_undo, d).
     and_then (decode_flat_file_pos d) (\<lambda>(undo, d).
     Inr (\<lparr>bi_header = h, bi_height = ht, chain_work = work,
           file_pos = (if has_pos then Some pos else None),
           undo_pos = (if has_undo then Some undo else None)\<rparr>, d))))))))"

text \<open>
  The locator loop, on the heights as naturals: \<open>height.saturating_sub(step)\<close>, and
  \<open>step.saturating_mul(2)\<close> at 32 bits.  The step starts at one and only grows; a step of zero,
  which the loop never has, stops the model so that it is total.
\<close>

definition saturating_double :: "nat \<Rightarrow> nat" where
  "saturating_double n = min (n * 2) U32_MAX"

function locator_loop :: "(nat \<Rightarrow> hash option) \<Rightarrow> hash list \<Rightarrow> nat \<Rightarrow> nat \<Rightarrow> hash list" where
  "locator_loop hash_at_height found step height =
     (let found = (case hash_at_height height of Some h \<Rightarrow> found @ [h] | None \<Rightarrow> found)
      in if height = 0 \<or> step = 0 then found
         else locator_loop hash_at_height found
                (if length found > 10 then saturating_double step else step) (height - step))"
  by pat_completeness auto
termination
  by (relation "measure (\<lambda>(f, hs, s, h). h)") auto

definition build_block_locator :: "u32 \<Rightarrow> (nat \<Rightarrow> hash option) \<Rightarrow> hash list" where
  "build_block_locator tip_height hash_at_height = locator_loop hash_at_height [] 1 (unat tip_height)"


declare merkle_loop.simps [simp del]
declare locator_loop.simps [simp del]

subsection \<open>Wire instances\<close>

definition wf_header :: "block_header \<Rightarrow> bool" where
  "wf_header h \<longleftrightarrow> wf_hash (prev_hash h) \<and> wf_hash (merkle_root h)"

definition wf_block :: "block \<Rightarrow> bool" where
  "wf_block b \<longleftrightarrow> wf_header (header b) \<and> wf_list wf_tx (transactions b)"

definition wf_block_index :: "block_index \<Rightarrow> bool" where
  "wf_block_index bi \<longleftrightarrow> wf_header (bi_header bi) \<and> wf_hash (chain_work bi)"

lemma length_header_serialize: "wf_header h \<Longrightarrow> length (header_serialize h) = 80"
  by (simp add: header_serialize_def wf_header_def wf_hash_def)

lemma header_roundtrip: "wf_header h \<Longrightarrow> header_deserialize (header_serialize h) = h"
  by (simp add: header_deserialize_def header_serialize_def wf_header_def wf_hash_def)

lemma slices_80:
  assumes "length bs = 80"
  shows "bs = take 4 bs @ take 32 (drop 4 bs) @ take 32 (drop 36 bs) @ take 4 (drop 68 bs) @
    take 4 (drop 72 bs) @ take 4 (drop 76 bs)"
proof -
  have split: "drop n bs = take m (drop n bs) @ drop (n + m) bs" for n m
    by (simp add: add.commute flip: drop_drop)
  show ?thesis
    using split [of 0 4] split [of 4 32] split [of 36 32] split [of 68 4] split [of 72 4] split [of 76 4] assms
    by simp
qed

lemma header_serialize_deserialize:
  assumes "length bs = 80"
  shows "header_serialize (header_deserialize bs) = bs \<and> wf_header (header_deserialize bs)"
  using slices_80 [OF assms] assms
  by (simp add: header_deserialize_def header_serialize_def wf_header_def wf_hash_def to_le_of_le_n)

interpretation block_header: strict_codec decode_block_header encode_block_header wf_header
proof -
  have "strict_codec (iso_dec header_deserialize (decode_array 80)) (\<lambda>h. encode_array (header_serialize h)) wf_header"
    by (rule strict_codec_iso [OF array_strict])
      (auto simp: length_header_serialize header_roundtrip header_serialize_deserialize)
  then show "strict_codec decode_block_header encode_block_header wf_header"
    by (simp add: iso_dec_def [abs_def] decode_block_header_def [abs_def] encode_block_header_def [abs_def]
        encode_array_def [abs_def])
qed

lemma decode_block_fields:
  "decode_block = iso_dec (\<lambda>(h, txs). \<lparr>header = h, transactions = txs\<rparr>)
     (pair_dec decode_block_header (read_var_list decode_transaction ''Block::transactions''))"
  by (simp add: decode_block_def field_by_field)

interpretation block: codec decode_block encode_block wf_block
proof -
  have "codec decode_block
      (\<lambda>b. pair_enc encode_block_header (encode_varlist encode_transaction) (header b, transactions b)) wf_block"
    unfolding decode_block_fields
    by (rule codec_iso [OF codec_pair [OF block_header.codec_axioms transaction.var_list_codec]])
      (auto simp: compose_defs wf_block_def)
  then show "codec decode_block encode_block wf_block"
    by (simp add: pair_enc_def [abs_def] encode_block_def [abs_def])
qed

lemma decode_flat_file_pos_fields:
  "decode_flat_file_pos = iso_dec (\<lambda>(f, off). FlatFilePos f off) (pair_dec decode_u32 decode_u32)"
  by (simp add: decode_flat_file_pos_def field_by_field)

interpretation flat_file_pos: strict_codec decode_flat_file_pos encode_flat_file_pos "\<lambda>_. True"
proof -
  have "strict_codec decode_flat_file_pos (\<lambda>p. pair_enc encode_u32 encode_u32 (fp_file p, fp_offset p)) (\<lambda>_. True)"
    unfolding decode_flat_file_pos_fields
    by (rule strict_codec_iso [OF strict_codec_pair [OF u32.strict_codec_axioms u32.strict_codec_axioms]])
      (auto simp: compose_defs)
  then show "strict_codec decode_flat_file_pos encode_flat_file_pos (\<lambda>_. True)"
    by (simp add: pair_enc_def [abs_def] encode_flat_file_pos_def [abs_def])
qed

lemma decode_block_index_fields:
  "decode_block_index = iso_dec
     (\<lambda>(h, ht, work, has_pos, pos, has_undo, undo).
        \<lparr>bi_header = h, bi_height = ht, chain_work = work, file_pos = (if has_pos then Some pos else None),
         undo_pos = (if has_undo then Some undo else None)\<rparr>)
     (pair_dec decode_block_header (pair_dec decode_u32 (pair_dec decode_hash256 (pair_dec decode_bool
       (pair_dec decode_flat_file_pos (pair_dec decode_bool decode_flat_file_pos))))))"
  by (simp add: decode_block_index_def field_by_field cong: if_cong)

interpretation block_index: codec decode_block_index encode_block_index wf_block_index
proof -
  have "codec decode_block_index
      (\<lambda>bi. pair_enc encode_block_header (pair_enc encode_u32 (pair_enc encode_hash256 (pair_enc encode_bool
         (pair_enc encode_flat_file_pos (pair_enc encode_bool encode_flat_file_pos)))))
       (bi_header bi, bi_height bi, chain_work bi, file_pos bi \<noteq> None, unwrap_pos (file_pos bi),
        undo_pos bi \<noteq> None, unwrap_pos (undo_pos bi))) wf_block_index"
    unfolding decode_block_index_fields
    by (rule codec_iso [OF codec_pair [OF block_header.codec_axioms codec_pair [OF u32.codec_axioms
          codec_pair [OF hash256_wire.codec_axioms codec_pair [OF bool.codec_axioms
          codec_pair [OF flat_file_pos.codec_axioms codec_pair [OF bool.codec_axioms
          flat_file_pos.codec_axioms]]]]]]])
      (auto simp: compose_defs wf_block_index_def unwrap_pos_def split: option.splits)
  then show "codec decode_block_index encode_block_index wf_block_index"
    by (simp add: pair_enc_def [abs_def] encode_block_index_def [abs_def])
qed

subsection \<open>Weight\<close>

definition strip_block :: "block \<Rightarrow> block" where
  "strip_block b = b\<lparr>transactions := map strip_witness (transactions b)\<rparr>"

lemma length_fold_tx:
  "length (fold encode_transaction txs []) =
     length (fold encode_transaction (map strip_witness txs) []) + (\<Sum>tx \<leftarrow> txs. witness_serialized_size tx)"
proof (induction txs)
  case (Cons tx txs)
  have "length (fold encode_transaction (tx # txs) []) =
      length (encode_transaction tx []) + length (fold encode_transaction txs [])"
    by (simp only: transaction.fold_enc_Cons length_append)
  moreover have "length (fold encode_transaction (map strip_witness (tx # txs)) []) =
      length (encode_transaction (strip_witness tx) []) + length (fold encode_transaction (map strip_witness txs) [])"
    by (simp only: list.map transaction.fold_enc_Cons length_append)
  ultimately show ?case using Cons length_encode_transaction [of tx] by simp
qed simp

lemma encode_block_length:
  "length (encode_block b []) =
     length (encode_block (strip_block b) []) + (\<Sum>tx \<leftarrow> transactions b. witness_serialized_size tx)"
  using length_fold_tx [of "transactions b"]
  by (simp add: encode_block_def transaction.encode_varlist_flat strip_block_def)

lemma block_weight_eq:
  "block_weight b = 4 * length (serialize encode_block (strip_block b)) +
     (\<Sum>tx \<leftarrow> transactions b. witness_serialized_size tx)"
  by (simp add: block_weight_def serialize_def encode_block_length [of b])

subsection \<open>Merkle root\<close>

lemma merkle_level_duplicate:
  "odd (length hs) \<Longrightarrow> merkle_level H (hs @ [last hs]) = merkle_level H hs"
  by (simp add: merkle_level_def)

lemma merkle_loop_step: "length hs > 1 \<Longrightarrow> merkle_loop H hs = merkle_loop H (merkle_level H hs)"
  by (subst merkle_loop.simps) simp

lemma merkle_loop_singleton: "length (merkle_loop H hs) = (if hs = [] then 0 else 1)"
proof (induction H hs rule: merkle_loop.induct)
  case (1 H hs)
  show ?case
  proof (cases "length hs > 1")
    case True
    with "1.IH" have "length (merkle_loop H (merkle_level H hs)) = (if merkle_level H hs = [] then 0 else 1)" .
    moreover have "length (merkle_level H hs) \<noteq> 0" using True by (simp add: length_merkle_level)
    ultimately show ?thesis using True by (auto simp: merkle_loop_step)
  next
    case False
    then show ?thesis by (subst merkle_loop.simps) (cases hs; auto)
  qed
qed

lemma merkle_loop_duplicate:
  assumes "odd (length hs)" "length hs > 1"
  shows "merkle_loop H (hs @ [last hs]) = merkle_loop H hs"
proof -
  have "hs \<noteq> []" using assms by auto
  then have "length (hs @ [last hs]) > 1" by simp
  from merkle_loop_step [OF this] merkle_loop_step [OF assms(2)] show ?thesis
    by (simp only: merkle_level_duplicate [OF assms(1)])
qed


subsection \<open>Locator\<close>

lemma locator_loop_unfold:
  "locator_loop f found step height =
     (let found = (case f height of Some h \<Rightarrow> found @ [h] | None \<Rightarrow> found)
      in if height = 0 \<or> step = 0 then found
         else locator_loop f found (if length found > 10 then saturating_double step else step) (height - step))"
  by (rule locator_loop.simps)

text \<open>Once more than ten entries are found, the step doubles every round.\<close>

lemma locator_loop_sparse_bound:
  assumes "length found > 10" "1 \<le> step" "step \<le> U32_MAX" "height \<le> U32_MAX" "height < step * 2 ^ k"
  shows "length (locator_loop f found step height) \<le> length found + k + 2"
  using assms
proof (induction k arbitrary: found step height)
  case 0
  let ?found = "case f height of Some h \<Rightarrow> found @ [h] | None \<Rightarrow> found"
  have last_round: "length (locator_loop f found' s 0) \<le> Suc (length found')" for found' s
    by (subst locator_loop_unfold) (simp add: Let_def split: option.splits)
  from 0 have "height - step = 0" by simp
  then show ?case
    using last_round [of ?found "if length ?found > 10 then saturating_double step else step"]
    by (subst locator_loop_unfold) (auto simp: Let_def split: option.splits)
next
  case (Suc k)
  let ?found = "case f height of Some h \<Rightarrow> found @ [h] | None \<Rightarrow> found"
  have len: "length found \<le> length ?found" "length ?found \<le> Suc (length found)"
    by (auto split: option.splits)
  have step': "1 \<le> saturating_double step" "saturating_double step \<le> U32_MAX"
    using Suc.prems by (auto simp: saturating_double_def U32_MAX_def)
  have "height - step < saturating_double step * 2 ^ k"
  proof (cases "step * 2 \<le> U32_MAX")
    case True
    with Suc.prems(5) show ?thesis by (simp add: saturating_double_def algebra_simps)
  next
    case False
    then have "height - step < saturating_double step"
      using Suc.prems(2,4) by (simp add: saturating_double_def U32_MAX_def)
    also have "saturating_double step * 1 \<le> saturating_double step * 2 ^ k"
      by (intro mult_left_mono) auto
    finally show ?thesis by simp
  qed
  then have "length (locator_loop f ?found (saturating_double step) (height - step)) \<le> length ?found + k + 2"
    using Suc.prems step' len by (intro Suc.IH) auto
  then show ?case
    using len Suc.prems(1) by (subst locator_loop_unfold) (simp add: Let_def)
qed

lemma locator_loop_dense_bound:
  "length found \<le> 10 \<Longrightarrow> height \<le> U32_MAX \<Longrightarrow> length (locator_loop f found 1 height) \<le> 44"
proof (induction height arbitrary: found)
  case 0
  then show ?case by (subst locator_loop_unfold) (simp add: Let_def split: option.splits)
next
  case (Suc height)
  let ?found = "case f (Suc height) of Some h \<Rightarrow> found @ [h] | None \<Rightarrow> found"
  show ?case
  proof (cases "length ?found > 10")
    case True
    then have "length ?found = 11" using Suc.prems by (auto split: option.splits)
    moreover have "length (locator_loop f ?found (saturating_double 1) height) \<le> length ?found + 31 + 2"
      using True Suc.prems by (intro locator_loop_sparse_bound) (auto simp: saturating_double_def U32_MAX_def)
    ultimately show ?thesis using True by (subst locator_loop_unfold) (simp add: Let_def)
  next
    case False
    then have "length (locator_loop f ?found 1 height) \<le> 44" using Suc by simp
    with False show ?thesis by (subst locator_loop_unfold) (simp add: Let_def)
  qed
qed

text \<open>With every height resolved, the entries are the hashes of descending heights down to 0.\<close>

lemma locator_loop_heights:
  "1 \<le> step \<Longrightarrow> \<exists>hs. locator_loop (\<lambda>h. Some (f h)) found step height = found @ map f hs \<and>
     sorted_wrt (>) hs \<and> hs \<noteq> [] \<and> hd hs = height \<and> last hs = 0"
proof (induction height arbitrary: found step rule: less_induct)
  case (less height)
  show ?case
  proof (cases "height = 0")
    case True
    then show ?thesis by (subst locator_loop_unfold) (auto simp: Let_def intro: exI [of _ "[0]"])
  next
    case False
    let ?s = "if length (found @ [f height]) > 10 then saturating_double step else step"
    have "1 \<le> ?s" using less.prems by (auto simp: saturating_double_def U32_MAX_def)
    moreover have "height - step < height" using False less.prems by simp
    ultimately obtain hs where hs: "locator_loop (\<lambda>h. Some (f h)) (found @ [f height]) ?s (height - step) =
        (found @ [f height]) @ map f hs" "sorted_wrt (>) hs" "hs \<noteq> []" "hd hs = height - step" "last hs = 0"
      using less.IH by blast
    have "\<forall>x \<in> set hs. x \<le> height - step"
      using hs(2-4) by (cases hs) (auto simp: less_imp_le)
    then have "sorted_wrt (>) (height # hs)" using hs(2) less.prems False by fastforce
    moreover have "locator_loop (\<lambda>h. Some (f h)) found step height = found @ map f (height # hs)"
      using hs(1) False less.prems by (subst locator_loop_unfold) (simp add: Let_def)
    ultimately show ?thesis using hs(3,5) by (intro exI [of _ "height # hs"]) auto
  qed
qed

end
