(* ===== verification/Compact.thy ===== *)
theory Compact
  imports Block
begin

text \<open>
  The compact difficulty encoding of \<open>BlockHeader::bits_to_target\<close> and \<open>target_to_bits\<close>, read as
  numbers: what a compact value means, that encoding rounds down by less than one part in
  $2^{15}$, and that a normalised compact value survives the round trip.
\<close>

lemma nat_or_shift: "b < 2 ^ n \<Longrightarrow> push_bit n a OR b = a * 2 ^ n + (b :: nat)"
proof -
  assume "b < 2 ^ n"
  then have "take_bit n b = b" by (simp add: take_bit_nat_eq_self_iff)
  then have "\<not> bit b i" if "i \<ge> n" for i
    using that by (metis bit_take_bit_iff not_less)
  then have "push_bit n a AND b = 0"
    by (auto simp: bit_eq_iff bit_simps)
  then have "push_bit n a + b = push_bit n a OR b" by (rule disjunctive_add_eq_or)
  then show ?thesis by (simp add: push_bit_eq_mult)
qed

lemma unat_push_bit_u32:
  "unat (w :: u32) < 2 ^ k \<Longrightarrow> n + k \<le> 32 \<Longrightarrow> unat (push_bit n w) = unat w * 2 ^ n"
proof -
  assume w: "unat w < 2 ^ k" and k: "n + k \<le> 32"
  have "unat w * 2 ^ n < 2 ^ k * 2 ^ n" using w by simp
  also have "\<dots> = 2 ^ (n + k)" by (simp add: power_add)
  also have "\<dots> \<le> 2 ^ 32" using k by (intro power_increasing) auto
  finally have "take_bit 32 (push_bit n (unat w)) = unat w * 2 ^ n"
    by (simp add: push_bit_eq_mult take_bit_nat_eq_self_iff)
  then show ?thesis using unsigned_push_bit_eq [of n w, where ?'a = nat] by (simp only: len_num1 len_bit0) simp
qed

lemma unat_or_shift_u32:
  "unat (w :: u32) < 2 ^ k \<Longrightarrow> unat v < 2 ^ n \<Longrightarrow> n + k \<le> 32 \<Longrightarrow>
    unat (push_bit n w OR v) = unat w * 2 ^ n + unat v"
  using nat_or_shift [of "unat v" n "unat w"] unat_push_bit_u32 [of w k n]
  by (simp only: unsigned_or_eq) (simp only: push_bit_eq_mult)

lemma unat_ucast_u8_u32 [simp]: "unat (ucast (b :: u8) :: u32) = unat b"
proof -
  have "unat b < 2 ^ 32" using unat_byte_lt [of b] by (rule less_trans) simp
  then show ?thesis by (simp add: unsigned_ucast_eq take_bit_nat_eq_self_iff)
qed

lemma unat_ucast_u32_u8: "unat (ucast (w :: u32) :: u8) = unat w mod 256"
  by (simp add: unsigned_ucast_eq take_bit_eq_mod)

lemma unat_drop_bit_u32: "unat (drop_bit n (w :: u32)) = unat w div 2 ^ n"
proof -
  have "unat (drop_bit n w) = drop_bit n (take_bit 32 (unat w))"
    using unsigned_drop_bit_eq [of n w, where ?'a = nat] by simp
  also have "take_bit 32 (unat w) = unat w"
    using unsigned_less [of w, where ?'a = nat] by (simp add: take_bit_nat_eq_self_iff)
  finally show ?thesis by (simp only: drop_bit_eq_div)
qed

lemma unat_and_mask_u32:
  "unat ((w :: u32) AND 0xFF) = unat w mod 256" "unat (w AND 0xFFFFFF) = unat w mod 16777216"
proof -
  have m: "(0xFF :: nat) = mask 8" "(0xFFFFFF :: nat) = mask 24" by (simp_all add: mask_eq_exp_minus_1)
  have "unat (w AND 0xFF) = unat w AND 0xFF" "unat (w AND 0xFFFFFF) = unat w AND 0xFFFFFF"
    by (simp_all add: unsigned_and_eq)
  then show "unat (w AND 0xFF) = unat w mod 256" "unat (w AND 0xFFFFFF) = unat w mod 16777216"
    unfolding m by (simp_all only: take_bit_eq_mask [symmetric] take_bit_eq_mod) simp_all
qed

lemma mantissa_bytes:
  fixes b0 b1 b2 :: u8
  shows "unat (push_bit 16 (ucast b2) OR push_bit 8 (ucast b1) OR ucast b0 :: u32) =
    unat b2 * 65536 + unat b1 * 256 + unat b0"
proof -
  have 1: "unat (push_bit 8 (ucast b1) OR ucast b0 :: u32) = unat b1 * 256 + unat b0"
    using unat_or_shift_u32 [of "ucast b1 :: u32" 8 "ucast b0" 8] by simp
  have "unat b1 * 256 + unat b0 < 65536"
    using unat_byte_lt [of b1] unat_byte_lt [of b0] by (simp del: unat_byte_lt)
  then show ?thesis
    using unat_or_shift_u32 [of "ucast b2 :: u32" 8 "push_bit 8 (ucast b1) OR ucast b0" 16] 1 by simp
qed

lemma le_nat_update:
  "i < length bs \<Longrightarrow> bs ! i = 0 \<Longrightarrow> le_nat (bs[i := b]) = le_nat bs + 256 ^ i * unat b"
proof (induction bs arbitrary: i)
  case (Cons c cs)
  then show ?case by (cases i) (auto simp: algebra_simps)
qed simp

lemma split_24: "(m :: nat) < 2 ^ 24 \<Longrightarrow>
    m = m mod 256 + (m div 256 mod 256) * 256 + (m div 65536 mod 256) * 65536"
proof -
  assume "m < 2 ^ 24"
  then have "m div 65536 < 256" by (simp add: div_less_iff_less_mult)
  moreover have "m div 256 = m div 256 mod 256 + 256 * (m div 256 div 256)" by simp
  moreover have "m div 256 div 256 = m div 65536" by (simp add: div_mult2_eq [symmetric])
  moreover have "m = m mod 256 + 256 * (m div 256)" by simp
  moreover have "m div 65536 mod 256 = m div 65536" using calculation(1) by simp
  ultimately show ?thesis by linarith
qed

text \<open>The decoded target is the mantissa shifted by the exponent, cut to 256 bits.\<close>

lemma bits_to_target_value:
  "wf_hash (bits_to_target bits) \<and>
   le_nat (bits_to_target bits) =
     (if unat bits div 2 ^ 24 = 0 then 0
      else (unat bits mod 2 ^ 24) * 256 ^ (unat bits div 2 ^ 24 - 3) mod 256 ^ 32)"
proof (cases "unat bits div 2 ^ 24 = 0")
  case True
  then show ?thesis
    by (simp add: bits_to_target_def Let_def unat_drop_bit_u32 wf_hash_def)
next
  case False
  define p where "p = unat bits div 2 ^ 24 - 3"
  define m where "m = unat bits mod 2 ^ 24"
  define T where "T = replicate 32 (0 :: u8)"
  define m0 where "m0 = (ucast ((bits AND 0x00FFFFFF) AND 0xFF) :: u8)"
  define m1 where "m1 = (ucast (drop_bit 8 (bits AND 0x00FFFFFF) AND 0xFF) :: u8)"
  define m2 where "m2 = (ucast (drop_bit 16 (bits AND 0x00FFFFFF) AND 0xFF) :: u8)"
  have mb: "unat m0 = m mod 256" "unat m1 = m div 256 mod 256" "unat m2 = m div 65536 mod 256"
    by (simp_all only: m0_def m1_def m2_def m_def unat_ucast_u32_u8 unat_and_mask_u32 unat_drop_bit_u32)
      simp_all
  have m: "m = unat m0 + unat m1 * 256 + unat m2 * 65536"
    unfolding mb by (rule split_24) (simp add: m_def)
  have def': "bits_to_target bits =
    (let t = (if p < 32 then T[p := m0] else T); t = (if p + 1 < 32 then t[p + 1 := m1] else t)
     in (if p + 2 < 32 then t[p + 2 := m2] else t))"
    using False by (simp add: bits_to_target_def Let_def unat_drop_bit_u32 p_def T_def m0_def m1_def m2_def)
  have T: "length T = 32" "le_nat T = 0" "i < 32 \<Longrightarrow> T ! i = 0" for i
    by (simp_all add: T_def)
  have e: "m * 256 ^ p = unat m0 * 256 ^ p + unat m1 * 256 ^ (p + 1) + unat m2 * 256 ^ (p + 2)"
    unfolding m by (simp add: algebra_simps)
  consider "p < 30" | "p = 30" | "p = 31" | "p \<ge> 32" by linarith
  then have "wf_hash (bits_to_target bits) \<and> le_nat (bits_to_target bits) = m * 256 ^ p mod 256 ^ 32"
  proof cases
    case 1
    have "m < 256 ^ 3" by (simp add: m_def)
    then have "m * 256 ^ p < 256 ^ 3 * 256 ^ p" by simp
    also have "\<dots> = 256 ^ (3 + p)" by (simp add: power_add)
    also have "\<dots> \<le> (256 :: nat) ^ 32" using 1 by (intro power_increasing) auto
    finally have lt: "m * 256 ^ p < 256 ^ 32" .
    have "le_nat (T[p := m0, p + 1 := m1, p + 2 := m2]) = m * 256 ^ p"
      unfolding e using 1 T by (simp add: le_nat_update)
    with 1 lt T show ?thesis by (simp add: def' Let_def wf_hash_def)
  next
    case 2
    have "le_nat (T[p := m0, p + 1 := m1]) = unat m0 * 256 ^ p + unat m1 * 256 ^ (p + 1)"
      using 2 T by (simp add: le_nat_update)
    moreover have "le_nat (T[p := m0, p + 1 := m1]) < 256 ^ 32"
      using le_nat_lt [of "T[p := m0, p + 1 := m1]"] T by simp
    ultimately have "m * 256 ^ p mod 256 ^ 32 = le_nat (T[p := m0, p + 1 := m1])"
      unfolding e using 2 by (simp del: power_numeral)
    with 2 T show ?thesis by (simp add: def' Let_def wf_hash_def)
  next
    case 3
    have "le_nat (T[p := m0]) = unat m0 * 256 ^ p"
      using 3 T by (simp add: le_nat_update)
    moreover have "le_nat (T[p := m0]) < 256 ^ 32"
      using le_nat_lt [of "T[p := m0]"] T by simp
    moreover have "m * 256 ^ p = unat m0 * 256 ^ p + 256 ^ 32 * (unat m1 + unat m2 * 256)"
      using e 3 by (simp add: algebra_simps)
    ultimately have "m * 256 ^ p mod 256 ^ 32 = le_nat (T[p := m0])"
      by (simp only: mod_mult_self2 mod_less)
    with 3 T show ?thesis by (simp add: def' Let_def wf_hash_def)
  next
    case 4
    then have "m * 256 ^ p = 256 ^ 32 * (m * 256 ^ (p - 32))"
      by (simp add: power_add [symmetric] mult.left_commute del: power_numeral)
    then have "m * 256 ^ p mod 256 ^ 32 = 0" by (metis mod_mult_self1_is_0)
    with 4 T show ?thesis by (simp add: def' Let_def wf_hash_def)
  qed
  with False show ?thesis by (simp add: p_def m_def)
qed


lemma significant_size_props:
  "significant_size bs n \<le> n \<and> (\<forall>i. significant_size bs n \<le> i \<and> i < n \<longrightarrow> bs ! i = 0) \<and>
   (0 < significant_size bs n \<longrightarrow> bs ! (significant_size bs n - 1) \<noteq> 0)"
proof (induction n)
  case (Suc n)
  then show ?case by (auto simp: less_Suc_eq)
qed simp

lemma significant_size_bounds:
  assumes "wf_hash t"
  defines "k \<equiv> significant_size t 32"
  shows "k \<le> 32" "le_nat t < 256 ^ k" "0 < k \<Longrightarrow> 256 ^ (k - 1) \<le> le_nat t" "le_nat t = le_nat (take k t)"
proof -
  note p = significant_size_props [of t 32, folded k_def]
  show k: "k \<le> 32" using p by simp
  have "drop k t = replicate (32 - k) 0"
    using p assms(1) by (intro nth_equalityI) (auto simp: wf_hash_def)
  then have "t = take k t @ replicate (32 - k) 0" by (metis append_take_drop_id)
  then have "le_nat t = le_nat (take k t) + 256 ^ length (take k t) * le_nat (replicate (32 - k) 0)"
    by (metis le_nat_append)
  then show eq: "le_nat t = le_nat (take k t)" by simp
  show "le_nat t < 256 ^ k"
    using le_nat_lt [of "take k t"] k assms(1) by (simp add: eq wf_hash_def min_absorb2)
  assume "0 < k"
  then obtain j where j: "k = Suc j" by (cases k) auto
  with p have "t ! j \<noteq> 0" by simp
  then have "1 \<le> unat (t ! j)" by (simp add: Suc_le_eq unat_gt_0)
  then have "256 ^ j * 1 \<le> 256 ^ j * unat (t ! j)" by (intro mult_left_mono) auto
  moreover have "le_nat t = le_nat (take j t) + 256 ^ j * unat (t ! j)"
    using k assms(1) j by (simp add: eq le_nat_take_Suc wf_hash_def)
  ultimately show "256 ^ (k - 1) \<le> le_nat t" unfolding j by (simp only: diff_Suc_1)
qed

lemma byte_length_unique:
  fixes v :: nat
  assumes "256 ^ (a - 1) \<le> v" "v < 256 ^ a" "256 ^ (b - 1) \<le> v" "v < 256 ^ b" "0 < a" "0 < b"
  shows "a = b"
proof (rule ccontr)
  assume "a \<noteq> b"
  then consider "a \<le> b - 1" | "b \<le> a - 1" using assms(5,6) by linarith
  then show False
  proof cases
    case 1
    then have "(256 :: nat) ^ a \<le> 256 ^ (b - 1)" by (intro power_increasing) auto
    with assms show False by linarith
  next
    case 2
    then have "(256 :: nat) ^ b \<le> 256 ^ (a - 1)" by (intro power_increasing) auto
    with assms show False by linarith
  qed
qed

text \<open>A sixteen-bit number or more is exactly what has three significant bytes.\<close>

lemma significant_size_ge_3:
  assumes "wf_hash t" "2 ^ 16 \<le> le_nat t"
  shows "3 \<le> significant_size t 32"
proof (rule ccontr)
  assume "\<not> ?thesis"
  then have "(256 :: nat) ^ significant_size t 32 \<le> 256 ^ 2" by (intro power_increasing) auto
  with significant_size_bounds(2) [OF assms(1)] assms(2) show False by simp
qed

lemma three_top_bytes:
  assumes "wf_hash t" "3 \<le> significant_size t 32"
  defines "k \<equiv> significant_size t 32"
  shows "le_nat t div 256 ^ (k - 3) =
    unat (t ! (k - 1)) * 65536 + unat (t ! (k - 2)) * 256 + unat (t ! (k - 3))"
proof -
  obtain j where j: "k = j + 3" using assms(2) by (metis add.commute k_def le_Suc_ex)
  have len: "j + 3 \<le> length t"
    using significant_size_bounds(1) [OF assms(1)] assms(1) j by (simp add: k_def wf_hash_def)
  have "le_nat t = le_nat (take (Suc (Suc (Suc j))) t)"
    using significant_size_bounds(4) [OF assms(1)] j by (simp add: k_def numeral_3_eq_3)
  also have "\<dots> = le_nat (take j t) + 256 ^ j * (unat (t ! (j + 2)) * 65536 + unat (t ! (j + 1)) * 256 + unat (t ! j))"
    using len by (simp add: le_nat_take_Suc algebra_simps)
  finally have "le_nat t = le_nat (take j t) +
      256 ^ j * (unat (t ! (j + 2)) * 65536 + unat (t ! (j + 1)) * 256 + unat (t ! j))" .
  moreover have "le_nat (take j t) < 256 ^ j" using le_nat_lt [of "take j t"] len by simp
  ultimately have "le_nat t div 256 ^ j = unat (t ! (j + 2)) * 65536 + unat (t ! (j + 1)) * 256 + unat (t ! j)"
    by simp
  then show ?thesis by (simp add: j numeral_3_eq_3 numeral_2_eq_2)
qed

lemma and_bit_23: "(w :: u32) AND 0x00800000 \<noteq> 0 \<longleftrightarrow> unat w div 2 ^ 23 mod 2 = 1"
proof -
  have "(0x00800000 :: u32) = 2 ^ 23" by simp
  then have "w AND 0x00800000 = 0 \<longleftrightarrow> \<not> bit w 23" by (simp only: and_exp_eq_0_iff_not_bit)
  moreover have "bit w 23 \<longleftrightarrow> odd (unat w div 2 ^ 23)"
    using bit_iff_odd [of "unat w" 23] by (simp add: bit_unsigned_iff)
  ultimately show ?thesis by (simp only: odd_iff_mod_2_eq_one) blast
qed

definition compact_mantissa :: "hash \<Rightarrow> nat" where
  "compact_mantissa t = le_nat t div 256 ^ (significant_size t 32 - 3)"

lemma compact_mantissa_bounds:
  assumes "wf_hash t" "3 \<le> significant_size t 32"
  shows "2 ^ 16 \<le> compact_mantissa t" "compact_mantissa t < 2 ^ 24"
proof -
  obtain j where j: "significant_size t 32 = j + 3" using assms(2) by (metis add.commute le_Suc_ex)
  note b = significant_size_bounds [OF assms(1), unfolded j]
  have "256 ^ j * 2 ^ 16 \<le> le_nat t" using b(3) by (simp add: power_add)
  then show "2 ^ 16 \<le> compact_mantissa t"
    by (simp add: compact_mantissa_def j less_eq_div_iff_mult_less_eq mult.commute)
  have "le_nat t < 2 ^ 24 * 256 ^ j" using b(2) by (simp add: power_add)
  then show "compact_mantissa t < 2 ^ 24"
    by (simp add: compact_mantissa_def j div_less_iff_less_mult)
qed

lemma target_to_bits_value:
  assumes "wf_hash t" "3 \<le> significant_size t 32"
  shows "unat (target_to_bits t) =
    (if 2 ^ 23 \<le> compact_mantissa t
     then (significant_size t 32 + 1) * 2 ^ 24 + compact_mantissa t div 256
     else significant_size t 32 * 2 ^ 24 + compact_mantissa t)"
proof -
  define k where "k = significant_size t 32"
  define M :: u32 where "M = push_bit 16 (ucast (t ! (k - 1))) OR push_bit 8 (ucast (t ! (k - 2))) OR ucast (t ! (k - 3))"
  have k: "3 \<le> k" "k \<le> 32" using assms significant_size_bounds(1) by (auto simp: k_def)
  have M: "unat M = compact_mantissa t"
    unfolding M_def mantissa_bytes compact_mantissa_def k_def
    by (rule three_top_bytes [OF assms, symmetric])
  have M24: "unat M < 2 ^ 24" using compact_mantissa_bounds(2) [OF assms] M by simp
  have e: "unat (word_of_nat k :: u32) = k" "unat (word_of_nat k + 1 :: u32) = k + 1"
    using k by (simp_all add: unat_word_of_nat_u32 unat_word_ariths)
  have def': "target_to_bits t =
      (if M AND 0x00800000 \<noteq> 0 then push_bit 24 (word_of_nat k + 1) OR drop_bit 8 M
       else push_bit 24 (word_of_nat k) OR M)"
    using k by (simp add: target_to_bits_def Let_def k_def [symmetric] M_def)
  have c: "M AND 0x00800000 \<noteq> 0 \<longleftrightarrow> 2 ^ 23 \<le> compact_mantissa t"
  proof -
    have "unat M div 2 ^ 23 < 2" using M24 by (simp add: div_less_iff_less_mult)
    then have "unat M div 2 ^ 23 mod 2 = 1 \<longleftrightarrow> unat M div 2 ^ 23 \<noteq> 0" by auto
    then show ?thesis unfolding and_bit_23 M [symmetric] by (simp add: div_eq_0_iff not_less)
  qed
  have 1: "unat (push_bit 24 (word_of_nat k) OR M) = k * 2 ^ 24 + unat M"
    using unat_or_shift_u32 [of "word_of_nat k" 8 M 24] e M24 k by simp
  have "unat (drop_bit 8 M) < 2 ^ 24" using M24 by (simp only: unat_drop_bit_u32) simp
  then have 2: "unat (push_bit 24 (word_of_nat k + 1) OR drop_bit 8 M) = (k + 1) * 2 ^ 24 + unat M div 256"
    using unat_or_shift_u32 [of "word_of_nat k + 1" 8 "drop_bit 8 M" 24] e k
    by (simp add: unat_drop_bit_u32 del: of_nat_add)
  show ?thesis
    unfolding def' c using 1 2 M by (simp add: k_def)
qed


lemma compact_fields:
  assumes "unat bits = e * 2 ^ 24 + m" "m < 2 ^ 24" "3 \<le> e" "m * 256 ^ (e - 3) < 256 ^ 32"
  shows "le_nat (bits_to_target bits) = m * 256 ^ (e - 3)"
proof -
  have "unat bits div 2 ^ 24 = e" "unat bits mod 2 ^ 24 = m"
    using assms(1,2) by (simp_all add: div_mult_self3)
  then show ?thesis using bits_to_target_value [of bits] assms(3,4) by simp
qed

lemma power_256_bound: "m < 256 ^ a \<Longrightarrow> a + b \<le> 32 \<Longrightarrow> m * 256 ^ b < (256 :: nat) ^ 32"
proof -
  assume "m < 256 ^ a" "a + b \<le> 32"
  then have "m * 256 ^ b < 256 ^ a * 256 ^ b" by simp
  also have "\<dots> = 256 ^ (a + b)" by (simp add: power_add)
  also have "\<dots> \<le> (256 :: nat) ^ 32" using \<open>a + b \<le> 32\<close> by (intro power_increasing) auto
  finally show ?thesis .
qed

text \<open>Encoding a target and decoding it again rounds down, by less than one part in \<open>2\<^sup>1\<^sup>5\<close>.\<close>

lemma compact_floor_cases:
  assumes "wf_hash t" "2 ^ 16 \<le> le_nat t"
  obtains m e where "le_nat (bits_to_target (target_to_bits t)) = m * 256 ^ e" "2 ^ 15 \<le> m"
    "m = le_nat t div 256 ^ e"
proof -
  have k3: "3 \<le> significant_size t 32" by (rule significant_size_ge_3 [OF assms])
  obtain j where j: "significant_size t 32 = j + 3" using k3 by (metis add.commute le_Suc_ex)
  have j29: "j + 3 \<le> 32" using significant_size_bounds(1) [OF assms(1)] j by simp
  define M where "M = compact_mantissa t"
  have M: "2 ^ 16 \<le> M" "M < 2 ^ 24" "M = le_nat t div 256 ^ j"
    using compact_mantissa_bounds [OF assms(1) k3] by (simp_all add: M_def compact_mantissa_def j)
  show thesis
  proof (cases "2 ^ 23 \<le> M")
    case True
    have u: "unat (target_to_bits t) = (j + 4) * 2 ^ 24 + M div 256"
      using target_to_bits_value [OF assms(1) k3] True by (simp add: M_def j)
    have "M div 256 < 256 ^ 2" using M(2) by (simp add: div_less_iff_less_mult)
    then have "M div 256 * 256 ^ (j + 4 - 3) < 256 ^ 32" by (rule power_256_bound) (use j29 in simp)
    then have "le_nat (bits_to_target (target_to_bits t)) = M div 256 * 256 ^ (j + 4 - 3)"
      using M(2) by (intro compact_fields [OF u]) auto
    moreover have "M div 256 = le_nat t div 256 ^ Suc j" by (simp add: M(3) flip: div_mult2_eq) (simp add: mult.commute)
    moreover have "2 ^ 15 \<le> M div 256" using True by (simp add: less_eq_div_iff_mult_less_eq)
    ultimately show ?thesis by (intro that [of "M div 256" "Suc j"]) simp_all
  next
    case False
    have u: "unat (target_to_bits t) = (j + 3) * 2 ^ 24 + M"
      using target_to_bits_value [OF assms(1) k3] False by (simp add: M_def j)
    have "M < 256 ^ 3" using M(2) by simp
    then have "M * 256 ^ (j + 3 - 3) < 256 ^ 32" by (rule power_256_bound) (use j29 in simp)
    then have "le_nat (bits_to_target (target_to_bits t)) = M * 256 ^ (j + 3 - 3)"
      using M(2) by (intro compact_fields [OF u]) auto
    then show ?thesis using M by (intro that [of M j]) simp_all
  qed
qed

lemma target_to_bits_floor:
  assumes "wf_hash t" "2 ^ 16 \<le> le_nat t"
  defines "v \<equiv> le_nat (bits_to_target (target_to_bits t))"
  shows "v \<le> le_nat t" "(le_nat t - v) * 2 ^ 15 < v"
proof -
  obtain m e where c: "v = m * 256 ^ e" "2 ^ 15 \<le> m" "m = le_nat t div 256 ^ e"
    using compact_floor_cases [OF assms(1,2)] unfolding v_def by blast
  have d: "le_nat t = v + le_nat t mod 256 ^ e" unfolding c by (rule div_mult_mod_eq [symmetric])
  then show "v \<le> le_nat t" by linarith
  have "(le_nat t - v) * 2 ^ 15 = le_nat t mod 256 ^ e * 2 ^ 15" using d by simp
  also have "\<dots> < 256 ^ e * 2 ^ 15" by simp
  also have "\<dots> \<le> 256 ^ e * m" using c(2) by (rule mult_left_mono) simp
  finally show "(le_nat t - v) * 2 ^ 15 < v" by (simp add: c(1) mult.commute)
qed

text \<open>Normalised compact values: the sign bit clear and no spare leading byte.\<close>

definition normalised_bits :: "u32 \<Rightarrow> bool" where
  "normalised_bits bits \<longleftrightarrow>
     (let e = unat bits div 2 ^ 24; m = unat bits mod 2 ^ 24
      in 4 \<le> e \<and> 2 ^ 15 \<le> m \<and> m < 2 ^ 23 \<and> (e \<le> 32 \<or> e = 33 \<and> m < 2 ^ 16))"

lemma significant_size_of_value:
  assumes "wf_hash t" "256 ^ (k - 1) \<le> le_nat t" "le_nat t < 256 ^ k" "0 < k"
  shows "significant_size t 32 = k"
proof -
  have "0 < significant_size t 32"
    using significant_size_bounds(2) [OF assms(1)] assms(2) by (cases "significant_size t 32") auto
  then show ?thesis
    using byte_length_unique [OF significant_size_bounds(3,2) [OF assms(1)] assms(2,3)] assms(1,4) by blast
qed

lemma bits_target_roundtrip:
  assumes "normalised_bits bits"
  shows "target_to_bits (bits_to_target bits) = bits"
proof -
  define e m where "e = unat bits div 2 ^ 24" and "m = unat bits mod 2 ^ 24"
  define t where "t = bits_to_target bits"
  have n: "4 \<le> e" "2 ^ 15 \<le> m" "m < 2 ^ 23" "e \<le> 32 \<or> e = 33 \<and> m < 2 ^ 16"
    using assms by (simp_all add: normalised_bits_def Let_def e_def m_def)
  have u: "unat bits = e * 2 ^ 24 + m" by (simp add: e_def m_def)
  obtain j where j: "e = j + 4" using n(1) by (metis add.commute le_Suc_ex)
  have w: "wf_hash t" using bits_to_target_value [of bits] by (simp add: t_def)
  have "m * 256 ^ (e - 3) < 256 ^ 32"
  proof (cases "e \<le> 32")
    case True
    have "m < 256 ^ 3" using n(3) by simp
    then show ?thesis by (rule power_256_bound) (use True n(1) in simp)
  next
    case False
    then have "m < 256 ^ 2" "e = 33" using n(4) by auto
    then show ?thesis using power_256_bound [of m 2 30] by simp
  qed
  then have v: "le_nat t = m * 256 ^ Suc j"
    using compact_fields [OF u] n j by (simp add: t_def)
  have "unat (target_to_bits t) = unat bits"
  proof (cases "2 ^ 16 \<le> m")
    case True
    then have "2 ^ 16 * 256 ^ Suc j \<le> le_nat t" unfolding v by (rule mult_right_mono) simp
    moreover have "le_nat t < 2 ^ 24 * 256 ^ Suc j" unfolding v using n(3) by simp
    ultimately have k: "significant_size t 32 = j + 4"
      by (intro significant_size_of_value [OF w]) (simp_all add: power_add)
    have "compact_mantissa t = m" by (simp add: compact_mantissa_def k v)
    then show ?thesis using target_to_bits_value [OF w] k n(3) by (simp add: u j)
  next
    case False
    have "2 ^ 15 * 256 ^ Suc j \<le> le_nat t" unfolding v using n(2) by (rule mult_right_mono) simp
    moreover have "le_nat t < 2 ^ 16 * 256 ^ Suc j" unfolding v using False by simp
    ultimately have k: "significant_size t 32 = j + 3"
      by (intro significant_size_of_value [OF w]) (simp_all add: power_add)
    have "compact_mantissa t = m * 256" by (simp add: compact_mantissa_def k v)
    then show ?thesis using target_to_bits_value [OF w] k n(2) by (simp add: u j)
  qed
  then show ?thesis by (simp add: word_unat_eq_iff t_def)
qed

end
