(* ===== verification/ScriptNum.thy ===== *)
theory ScriptNum
  imports ScriptBase Compact
begin

text \<open>
  Script numbers, \<^verbatim>\<open>script/num.rs\<close>.  An \<^verbatim>\<open>i64\<close> is an \<open>int\<close> here: the shifts of
  \<open>decode_unchecked\<close> stay inside 64 bits for the at most eight bytes a caller passes (the
  interpreter uses four and five), and \<open>decode_unchecked_bound\<close> gives the range of the result.
\<close>

subsection \<open>Encoding and decoding\<close>

definition DEFAULT_MAX_NUM_SIZE :: nat where
  "DEFAULT_MAX_NUM_SIZE = 4"

text \<open>The loop \<^verbatim>\<open>result |= (byte as i64) << (8 * i)\<close>.\<close>

fun or_bytes :: "nat \<Rightarrow> bytes \<Rightarrow> int \<Rightarrow> int" where
  "or_bytes i [] result = result"
| "or_bytes i (b # bs) result = or_bytes (Suc i) bs (result OR push_bit (8 * i) (uint b))"

definition decode_unchecked :: "bytes \<Rightarrow> int" where
  "decode_unchecked bs =
     (if bs = [] then 0
      else
        let result = or_bytes 0 bs 0
        in if last bs AND 0x80 \<noteq> 0
           then - (result AND NOT (push_bit (8 * (length bs - 1)) 0x80))
           else result)"

definition is_minimally_encoded :: "bytes \<Rightarrow> bool" where
  "is_minimally_encoded bs \<longleftrightarrow>
     (if bs = [] then True
      else if last bs AND 0x7F = 0 then length bs > 1 \<and> bs ! (length bs - 2) AND 0x80 \<noteq> 0
      else True)"

definition num_decode :: "bytes \<Rightarrow> bool \<Rightarrow> nat \<Rightarrow> int script_result" where
  "num_decode bs require_minimal max_size =
     (if length bs > max_size then Inl UnknownError
      else if require_minimal \<and> \<not> is_minimally_encoded bs then Inl MinimalData
      else Inr (decode_unchecked bs))"

text \<open>The loop that pushes the magnitude byte by byte.\<close>

function abs_bytes :: "nat \<Rightarrow> bytes" where
  "abs_bytes n = (if n = 0 then [] else word_of_nat (n mod 256) # abs_bytes (n div 256))"
  by pat_completeness auto
termination
  by (relation "measure id") auto

declare abs_bytes.simps [simp del]

definition num_encode :: "int \<Rightarrow> bytes" where
  "num_encode v =
     (if v = 0 then []
      else
        let negative = v < 0; result = abs_bytes (nat \<bar>v\<bar>)
        in if last result AND 0x80 \<noteq> 0 then result @ [if negative then 0x80 else 0]
           else if negative then result[length result - 1 := result ! (length result - 1) OR 0x80]
           else result)"

text \<open>\<open>cast_to_bool\<close>: the first non-zero byte decides, unless it is a final \<^verbatim>\<open>0x80\<close>.\<close>

fun cast_to_bool :: "bytes \<Rightarrow> bool" where
  "cast_to_bool [] = False"
| "cast_to_bool (b # bs) = (if b \<noteq> 0 then \<not> (bs = [] \<and> b = 0x80) else cast_to_bool bs)"

subsection \<open>The value of an encoding\<close>

lemma int_or_shift: "0 \<le> b \<Longrightarrow> b < 2 ^ n \<Longrightarrow> b OR push_bit n a = b + a * 2 ^ n" for a b :: int
proof -
  assume b: "0 \<le> b" "b < 2 ^ n"
  have "b AND push_bit n a = 0"
  proof (rule bit_eqI)
    fix k
    have "bit b k \<Longrightarrow> k < n" using b by (metis bit_take_bit_iff take_bit_int_eq_self)
    then show "bit (b AND push_bit n a) k = bit 0 k"
      by (auto simp: bit_and_iff bit_push_bit_iff)
  qed
  then have "b OR push_bit n a = b + push_bit n a" by (simp flip: disjunctive_add_eq_or)
  then show ?thesis by (simp add: push_bit_eq_mult)
qed

lemma digit_lt:
  fixes d D r P :: int
  assumes "d + 1 \<le> D" "r < P" "0 \<le> P"
  shows "r + d * P < D * P"
proof -
  have "(d + 1) * P \<le> D * P" using assms by (intro mult_right_mono) auto
  then show ?thesis using assms(2) by (simp add: distrib_right)
qed

lemma or_bytes_value:
  "0 \<le> r \<Longrightarrow> r < 2 ^ (8 * i) \<Longrightarrow> or_bytes i bs r = r + 2 ^ (8 * i) * int (le_nat bs)"
proof (induction i bs r rule: or_bytes.induct)
  case (2 i b bs r)
  have e: "r OR push_bit (8 * i) (uint b) = r + uint b * 2 ^ (8 * i)"
    using 2(2,3) by (rule int_or_shift)
  have "uint b + 1 \<le> 256" using uint_lt2p [of b] by simp
  then have "r + uint b * 2 ^ (8 * i) < 256 * 2 ^ (8 * i)"
    using 2(3) by (rule digit_lt) simp
  then have "r + uint b * 2 ^ (8 * i) < 2 ^ (8 * Suc i)"
    by (simp add: power_add)
  then have "or_bytes (Suc i) bs (r + uint b * 2 ^ (8 * i)) =
      r + uint b * 2 ^ (8 * i) + 2 ^ (8 * Suc i) * int (le_nat bs)"
    using 2(1,2) unfolding e by simp
  then show ?case unfolding or_bytes.simps e by (simp add: algebra_simps power_add)
qed simp

lemma sign_bit: "(b :: u8) AND 0x80 \<noteq> 0 \<longleftrightarrow> 128 \<le> unat b"
proof -
  have "b AND 0x80 \<noteq> 0 \<longleftrightarrow> bit b 7" using and_exp_eq_0_iff_not_bit [of b 7] by simp
  also have "\<dots> \<longleftrightarrow> bit (unat b) 7" by (simp add: bit_unsigned_iff)
  also have "\<dots> \<longleftrightarrow> odd (unat b div 128)" by (simp add: bit_iff_odd)
  also have "\<dots> \<longleftrightarrow> 128 \<le> unat b"
  proof -
    have "unat b div 128 < 2" using unat_byte_lt [of b] by (simp add: div_less_iff_less_mult)
    then have "unat b div 128 = 0 \<or> unat b div 128 = 1" by linarith
    then show ?thesis by (auto simp: div_eq_0_iff not_le)
  qed
  finally show ?thesis .
qed

lemma sign_bit_0: "(b :: u8) AND 0x80 = 0 \<longleftrightarrow> unat b < 128"
  using sign_bit [of b] by linarith

lemma magnitude_bits: "unat ((b :: u8) AND 0x7F) = unat b mod 128"
proof -
  have "b AND 0x7F = take_bit 7 b" by (simp add: take_bit_eq_mask mask_eq_exp_minus_1)
  then have "unat (b AND 0x7F) = take_bit 7 (unat b)" by (simp only: unsigned_take_bit_eq)
  then show ?thesis by (simp add: take_bit_eq_mod)
qed

lemma magnitude_bits_0: "(b :: u8) AND 0x7F = 0 \<longleftrightarrow> unat b mod 128 = 0"
  using magnitude_bits [of b] unsigned_eq_0_iff [of "b AND 0x7F", where ?'a = nat] by simp

lemma set_sign_bit: "unat b < 128 \<Longrightarrow> unat ((b :: u8) OR 0x80) = unat b + 128"
proof -
  assume b: "unat b < 128"
  have "unat (b OR 0x80) = unat b OR push_bit 7 1" by (simp add: unsigned_or_eq)
  also have "\<dots> = push_bit 7 1 OR unat b" by (simp add: or.commute)
  also have "\<dots> = unat b + 128" using b nat_or_shift [of "unat b" 7 1] by simp
  finally show ?thesis .
qed

text \<open>Sign and magnitude of a non-empty element.\<close>

lemma decode_unchecked_snoc:
  "decode_unchecked (bs @ [b]) =
     (let m = int (le_nat bs + 256 ^ length bs * (unat b mod 128)) in if 128 \<le> unat b then - m else m)"
proof -
  define R where "R = int (le_nat (bs @ [b]))"
  define k where "k = 8 * length bs"
  have R: "R = int (le_nat bs) + 256 ^ length bs * int (unat b)"
    by (simp add: R_def le_nat_append)
  have v: "or_bytes 0 (bs @ [b]) 0 = R" by (simp add: or_bytes_value R_def)
  have p: "push_bit (8 * length bs) 0x80 = push_bit (k + 7) (1 :: int)"
    by (simp add: push_bit_eq_mult k_def power_add)
  have lt: "int (le_nat bs) < 256 ^ length bs"
    using le_nat_lt [of bs] by (metis of_nat_less_iff of_nat_numeral of_nat_power)
  show ?thesis
  proof (cases "128 \<le> unat b")
    case True
    then obtain c where c: "unat b = 128 + c" using le_Suc_ex by blast
    have "c < 128" using unat_byte_lt [of b] c by (simp del: unat_byte_lt)
    have P: "(2 :: int) ^ (k + 7) = 128 * 256 ^ length bs"
      by (simp add: k_def power_add power_mult)
    have "R = int (le_nat bs) + 256 ^ length bs * int c + 2 ^ (k + 7)"
      unfolding R c P by (simp add: algebra_simps)
    moreover have "0 \<le> int (le_nat bs) + 256 ^ length bs * int c" by simp
    moreover have "int (le_nat bs) + 256 ^ length bs * int c < 2 ^ (k + 7)"
      using digit_lt [of "int c" 128 "int (le_nat bs)" "256 ^ length bs"] lt \<open>c < 128\<close>
      unfolding P by (simp add: mult.commute)
    ultimately have "R div 2 ^ (k + 7) = 1" by (simp add: div_add_self2)
    then have "bit R (k + 7)" by (simp add: bit_iff_odd)
    then have "R AND NOT (push_bit (k + 7) 1) = R - 2 ^ (k + 7)"
      using unset_bit_eq_and_not [of "k + 7" R] unset_bit_eq [of "k + 7" R] by simp
    then show ?thesis
      using True v p \<open>R = int (le_nat bs) + 256 ^ length bs * int c + 2 ^ (k + 7)\<close> \<open>c < 128\<close> c
      by (simp add: decode_unchecked_def Let_def sign_bit k_def)
  next
    case False
    then show ?thesis using v R by (simp add: decode_unchecked_def Let_def sign_bit)
  qed
qed

lemma magnitude_lt: "le_nat bs + 256 ^ length bs * (unat (b :: u8) mod 128) < 2 ^ (8 * length bs + 7)"
proof -
  define P where "P = (256 :: nat) ^ length bs"
  define d where "d = unat b mod 128"
  have "P * (d + 1) \<le> P * 128" by (intro mult_left_mono) (auto simp: Suc_le_eq d_def)
  then have "P * d + P \<le> P * 128" by (simp only: distrib_left mult_1_right)
  moreover have "le_nat bs < P" using le_nat_lt [of bs] by (simp add: P_def)
  ultimately have "le_nat bs + P * d < P * 128" by linarith
  then show ?thesis by (simp add: power_add power_mult P_def d_def)
qed

lemma decode_unchecked_bound:
  assumes "length bs \<le> n" "0 < n"
  shows "\<bar>decode_unchecked bs\<bar> < 2 ^ (8 * n - 1)"
proof (cases bs rule: rev_cases)
  case Nil
  then show ?thesis by (simp add: decode_unchecked_def)
next
  case (snoc xs b)
  let ?m = "le_nat xs + 256 ^ length xs * (unat b mod 128)"
  have "\<bar>decode_unchecked bs\<bar> = int ?m" unfolding snoc decode_unchecked_snoc Let_def by (cases "128 \<le> unat b") (simp_all only: abs_minus_cancel abs_of_nat if_True if_False)
  also have "\<dots> < 2 ^ (8 * length xs + 7)"
    using magnitude_lt [of xs b] by (metis of_nat_less_iff of_nat_numeral of_nat_power)
  also have "\<dots> \<le> 2 ^ (8 * n - 1)" using assms snoc by (intro power_increasing) auto
  finally show ?thesis .
qed

subsection \<open>Round trips\<close>

lemma abs_bytes_0 [simp]: "abs_bytes 0 = []"
  by (simp add: abs_bytes.simps)

lemma abs_bytes_pos: "0 < n \<Longrightarrow> abs_bytes n = word_of_nat (n mod 256) # abs_bytes (n div 256)"
  by (subst abs_bytes.simps) simp

lemma le_nat_abs_bytes [simp]: "le_nat (abs_bytes n) = n"
proof (induction n rule: abs_bytes.induct)
  case (1 n)
  then show ?case by (cases "n = 0") (simp_all add: abs_bytes_pos unat_word_of_nat_byte)
qed

lemma abs_bytes_Nil_iff [simp]: "abs_bytes n = [] \<longleftrightarrow> n = 0"
  by (cases "n = 0") (auto simp: abs_bytes_pos)

lemma last_abs_bytes: "0 < n \<Longrightarrow> last (abs_bytes n) \<noteq> 0"
proof (induction n rule: abs_bytes.induct)
  case (1 n)
  show ?case
  proof (cases "n div 256 = 0")
    case True
    then have "n < 256" by (simp add: div_eq_0_iff)
    then have "unat (word_of_nat (n mod 256) :: u8) \<noteq> 0"
      using 1(2) by (simp add: unat_word_of_nat_byte)
    then have "(word_of_nat (n mod 256) :: u8) \<noteq> 0" by (metis unsigned_0)
    with 1(2) True show ?thesis by (simp add: abs_bytes_pos)
  next
    case False
    with 1 show ?thesis by (simp add: abs_bytes_pos [of n])
  qed
qed

lemma abs_bytes_unique: "bs = [] \<or> last bs \<noteq> 0 \<Longrightarrow> abs_bytes (le_nat bs) = bs"
proof (induction bs)
  case (Cons b bs)
  have "le_nat (b # bs) \<noteq> 0"
    using Cons.prems last_in_set [of "b # bs"] le_nat_eq_0_iff [of "b # bs"] by auto
  moreover have "abs_bytes (le_nat bs) = bs" using Cons by (cases bs) auto
  moreover have "(word_of_nat ((unat b + 256 * le_nat bs) mod 256) :: u8) = b"
    by (rule word_unat_eq_iff [THEN iffD2]) (simp add: unat_word_of_nat_byte)
  ultimately show ?case by (simp add: abs_bytes_pos)
qed simp

lemma num_encode_decode:
  assumes "is_minimally_encoded bs"
  shows "num_encode (decode_unchecked bs) = bs"
proof (cases bs rule: rev_cases)
  case Nil
  then show ?thesis by (simp add: decode_unchecked_def num_encode_def)
next
  case (snoc xs b)
  define m where "m = le_nat xs + 256 ^ length xs * (unat b mod 128)"
  have v: "decode_unchecked bs = (if 128 \<le> unat b then - int m else int m)"
    by (simp add: snoc decode_unchecked_snoc Let_def m_def)
  show ?thesis
  proof (cases "unat b mod 128 = 0")
    case True
    then obtain ys c where ys: "xs = ys @ [c]" "128 \<le> unat c"
      using assms snoc
      by (cases xs rule: rev_cases)
        (auto simp: is_minimally_encoded_def magnitude_bits_0 sign_bit nth_append split: if_splits)
    have m: "m = le_nat xs" using True by (simp add: m_def)
    have "c \<noteq> 0" using ys(2) by auto
    then have ab: "abs_bytes m = xs" unfolding m using ys(1) by (intro abs_bytes_unique) simp
    have "m \<noteq> 0" unfolding m le_nat_eq_0_iff using ys(1) \<open>c \<noteq> 0\<close> by auto
    have "b = (if 128 \<le> unat b then 0x80 else 0)"
    proof -
      have "unat b < 256" by simp
      then have "unat b = (if 128 \<le> unat b then 128 else 0)" using True by presburger
      then show ?thesis by (auto simp: word_unat_eq_iff split: if_splits)
    qed
    then show ?thesis
      using \<open>m \<noteq> 0\<close> v ab ys by (auto simp: num_encode_def Let_def sign_bit snoc)
  next
    case False
    define c :: u8 where "c = word_of_nat (unat b mod 128)"
    have c: "unat c = unat b mod 128"
      using mod_less_divisor [of 128 "unat b"] by (simp add: c_def unat_word_of_nat_byte del: mod_less_divisor)
    have "c \<noteq> 0" using False c by auto
    have "m = le_nat (xs @ [c])" by (simp add: m_def le_nat_append c)
    then have ab: "abs_bytes m = xs @ [c]" using \<open>c \<noteq> 0\<close> by (metis abs_bytes_unique last_snoc)
    then have "m \<noteq> 0" using abs_bytes_Nil_iff [of m] by auto
    have cs: "unat c < 128" unfolding c by simp
    show ?thesis
    proof (cases "128 \<le> unat b")
      case True
      have "unat b = unat c + 128"
        using True unat_byte_lt [of b] unfolding c by (simp del: unat_byte_lt add: le_mod_geq)
      then have "c OR 0x80 = b" using set_sign_bit [OF cs] by (simp add: word_unat_eq_iff)
      then show ?thesis
        using True \<open>m \<noteq> 0\<close> v ab cs by (simp add: num_encode_def Let_def sign_bit sign_bit_0 snoc)
    next
      case False
      then have "c = b" using c by (simp add: word_unat_eq_iff)
      then show ?thesis
        using False \<open>m \<noteq> 0\<close> v ab cs by (simp add: num_encode_def Let_def sign_bit sign_bit_0 snoc)
    qed
  qed
qed

lemma num_encode_cases:
  assumes "v \<noteq> 0"
  obtains xs c where "abs_bytes (nat \<bar>v\<bar>) = xs @ [c]" "c \<noteq> 0"
    "num_encode v = (if 128 \<le> unat c then xs @ [c, if v < 0 then 0x80 else 0]
       else xs @ [if v < 0 then c OR 0x80 else c])"
proof -
  obtain xs c where a: "abs_bytes (nat \<bar>v\<bar>) = xs @ [c]"
    using assms by (cases "abs_bytes (nat \<bar>v\<bar>)" rule: rev_cases) auto
  moreover have "c \<noteq> 0" using last_abs_bytes [of "nat \<bar>v\<bar>"] assms a by simp
  moreover have "num_encode v = (if 128 \<le> unat c then xs @ [c, if v < 0 then 0x80 else 0]
       else xs @ [if v < 0 then c OR 0x80 else c])"
    using assms a by (simp add: num_encode_def Let_def sign_bit)
  ultimately show ?thesis using that by blast
qed

lemma num_encode_minimal_value: "is_minimally_encoded (num_encode v) \<and> decode_unchecked (num_encode v) = v"
proof (cases "v = 0")
  case True
  then show ?thesis by (simp add: num_encode_def is_minimally_encoded_def decode_unchecked_def)
next
  case False
  then obtain xs c where a: "abs_bytes (nat \<bar>v\<bar>) = xs @ [c]" "c \<noteq> 0" and
    e: "num_encode v = (if 128 \<le> unat c then xs @ [c, if v < 0 then 0x80 else 0]
       else xs @ [if v < 0 then c OR 0x80 else c])"
    by (rule num_encode_cases)
  have m: "nat \<bar>v\<bar> = le_nat xs + 256 ^ length xs * unat c"
    using le_nat_abs_bytes [of "nat \<bar>v\<bar>"] unfolding a by (simp add: le_nat_append)
  have m': "\<bar>v\<bar> = int (le_nat xs + 256 ^ length xs * unat c)" using m by linarith
  have c0: "unat c \<noteq> 0" using a(2) by (simp add: unsigned_eq_0_iff)
  show ?thesis
  proof (cases "128 \<le> unat c")
    case True
    have e1: "num_encode v = (xs @ [c]) @ [if v < 0 then 0x80 else 0]" using e True by simp
    have "decode_unchecked (num_encode v) = v"
      unfolding e1 decode_unchecked_snoc using m' by (auto simp: le_nat_append Let_def)
    moreover have "is_minimally_encoded (num_encode v)"
      unfolding e1 is_minimally_encoded_def using True by (auto simp: sign_bit nth_append)
    ultimately show ?thesis by blast
  next
    case False
    let ?b = "if v < 0 then c OR 0x80 else c"
    have e1: "num_encode v = xs @ [?b]" using e False by simp
    have "unat ?b = (if v < 0 then unat c + 128 else unat c)" using False set_sign_bit [of c] by simp
    then have b: "unat ?b mod 128 = unat c" "128 \<le> unat ?b \<longleftrightarrow> v < 0" using False by auto
    have "decode_unchecked (num_encode v) = v"
      unfolding e1 decode_unchecked_snoc b using m' by (auto simp: Let_def)
    moreover have "is_minimally_encoded (num_encode v)"
      unfolding e1 is_minimally_encoded_def magnitude_bits_0 using b(1) c0 by (auto simp: magnitude_bits_0)
    ultimately show ?thesis by blast
  qed
qed

lemma num_encode_length:
  assumes "\<bar>v\<bar> < 2 ^ (8 * n - 1)" "0 < n"
  shows "length (num_encode v) \<le> n"
proof (cases "v = 0")
  case True
  then show ?thesis by (simp add: num_encode_def)
next
  case False
  then obtain xs c where a: "abs_bytes (nat \<bar>v\<bar>) = xs @ [c]" "c \<noteq> 0" and
    e: "num_encode v = (if 128 \<le> unat c then xs @ [c, if v < 0 then 0x80 else 0]
       else xs @ [if v < 0 then c OR 0x80 else c])"
    by (rule num_encode_cases)
  have "nat \<bar>v\<bar> = le_nat xs + 256 ^ length xs * unat c"
    using le_nat_abs_bytes [of "nat \<bar>v\<bar>"] unfolding a by (simp add: le_nat_append)
  moreover have "nat \<bar>v\<bar> < 2 ^ (8 * n - 1)" using assms(1) by (simp add: nat_less_iff)
  ultimately have u: "256 ^ length xs * unat c < 2 ^ (8 * n - 1)" by simp
  have "(2 :: nat) ^ (8 * length xs + (if 128 \<le> unat c then 7 else 0)) \<le> 256 ^ length xs * unat c"
  proof -
    have "1 \<le> unat c" using a(2) by (simp add: Suc_le_eq unat_gt_0)
    then have "(2 :: nat) ^ (if 128 \<le> unat c then 7 else 0) \<le> unat c" by auto
    then have "256 ^ length xs * (2 :: nat) ^ (if 128 \<le> unat c then 7 else 0) \<le> 256 ^ length xs * unat c"
      by (rule mult_left_mono) simp
    then show ?thesis by (simp add: power_add power_mult)
  qed
  then have "(2 :: nat) ^ (8 * length xs + (if 128 \<le> unat c then 7 else 0)) < 2 ^ (8 * n - 1)"
    using u by linarith
  then have "8 * length xs + (if 128 \<le> unat c then 7 else 0) < 8 * n - 1"
    by (rule power_less_imp_less_exp [rotated]) simp
  then show ?thesis unfolding e by (auto split: if_splits)
qed

lemma cast_to_bool_snoc: "cast_to_bool (bs @ [b]) \<longleftrightarrow> (\<exists>c \<in> set bs. c \<noteq> 0) \<or> unat b mod 128 \<noteq> 0"
proof (induction bs)
  case Nil
  have "unat b mod 128 = 0 \<longleftrightarrow> unat b = 0 \<or> unat b = 128"
    using unat_byte_lt [of b] by presburger
  then show ?case by (auto simp: word_unat_eq_iff)
qed auto

lemma cast_to_bool_iff_nonzero: "cast_to_bool bs \<longleftrightarrow> decode_unchecked bs \<noteq> 0"
proof (cases bs rule: rev_cases)
  case Nil
  then show ?thesis by (simp add: decode_unchecked_def)
next
  case (snoc xs b)
  have "decode_unchecked bs = 0 \<longleftrightarrow> le_nat xs + 256 ^ length xs * (unat b mod 128) = 0"
    unfolding snoc decode_unchecked_snoc Let_def
    by (cases "128 \<le> unat b") (simp_all only: neg_equal_0_iff_equal of_nat_eq_0_iff if_True if_False)
  also have "\<dots> \<longleftrightarrow> (\<forall>c \<in> set xs. c = 0) \<and> unat b mod 128 = 0"
    by (simp add: le_nat_eq_0_iff)
  finally show ?thesis unfolding snoc cast_to_bool_snoc by auto
qed

end
