(* ===== verification/ScriptOps.thy ===== *)
theory ScriptOps
  imports ScriptNum
begin

text \<open>
  Script parsing and structural predicates, \<^verbatim>\<open>script/script_ops.rs\<close>: the \<^verbatim>\<open>Instructions\<close>
  iterator as the list it yields, the byte-pattern predicates, \<open>find_and_delete\<close> and minimal
  pushes.
\<close>

subsection \<open>The instruction iterator\<close>

record instruction =
  ins_offset :: nat
  ins_opcode :: opcode
  ins_data :: bytes
  ins_next :: nat

text \<open>
  One call of \<^verbatim>\<open>Iterator::next\<close> at position \<open>pos\<close>: the item and the new position.
  \<open>finish_push\<close> is the common end: the length check, the slice and the instruction.
\<close>

definition finish_push :: "bytes \<Rightarrow> nat \<Rightarrow> nat \<Rightarrow> nat \<Rightarrow> instruction script_result \<times> nat" where
  "finish_push script offset cursor len =
     (if length script - cursor < len then (Inl BadOpcode, length script)
      else (Inr \<lparr>ins_offset = offset, ins_opcode = script ! offset,
                 ins_data = take len (drop cursor script), ins_next = cursor + len\<rparr>, cursor + len))"

definition next_instruction :: "bytes \<Rightarrow> nat \<Rightarrow> (instruction script_result \<times> nat) option" where
  "next_instruction script pos =
     (if pos \<ge> length script then None
      else
        let opcode_byte = script ! pos; cursor = pos + 1
        in if opcode_byte \<le> OP_PUSHDATA4 then
             if opcode_byte < OP_PUSHDATA1 then Some (finish_push script pos cursor (unat opcode_byte))
             else
               let size_len = (if opcode_byte = OP_PUSHDATA1 then 1 else if opcode_byte = OP_PUSHDATA2 then 2 else 4)
               in if length script - cursor < size_len then Some (Inl BadOpcode, length script)
                  else Some (finish_push script pos (cursor + size_len) (le_nat (take size_len (drop cursor script))))
           else Some (finish_push script pos cursor 0))"

lemma finish_push_progress:
  "finish_push script offset cursor len = (r, p) \<Longrightarrow> offset < length script \<Longrightarrow> offset < cursor \<Longrightarrow>
    offset < p \<and> (cursor \<le> length script \<longrightarrow> p \<le> length script)"
  by (auto simp: finish_push_def split: if_splits)

lemma next_instruction_progress:
  "next_instruction script pos = Some (r, p) \<Longrightarrow> pos < p \<and> p \<le> length script \<and> pos < length script"
  by (auto simp: next_instruction_def Let_def split: if_splits dest!: finish_push_progress)

lemma next_instruction_next:
  "next_instruction script pos = Some (Inr ins, p) \<Longrightarrow> ins_next ins = p \<and> ins_offset ins = pos"
  by (auto simp: next_instruction_def finish_push_def Let_def split: if_splits)

text \<open>All items the iterator yields from \<open>pos\<close> on; it ends because every item moves the position.\<close>

function instructions :: "bytes \<Rightarrow> nat \<Rightarrow> instruction script_result list" where
  "instructions script pos =
     (case next_instruction script pos of None \<Rightarrow> [] | Some (item, pos') \<Rightarrow> item # instructions script pos')"
  by pat_completeness auto
termination
  by (relation "measure (\<lambda>(script, pos). length script - pos)")
    (auto dest: next_instruction_progress)

declare instructions.simps [simp del]

subsection \<open>Predicates\<close>

definition push_item :: "instruction script_result \<Rightarrow> bool" where
  "push_item item = (case item of Inr ins \<Rightarrow> is_push (ins_opcode ins) | Inl _ \<Rightarrow> False)"

definition is_push_only :: "bytes \<Rightarrow> bool" where
  "is_push_only script \<longleftrightarrow> list_all push_item (instructions script 0)"

definition is_pay_to_script_hash :: "bytes \<Rightarrow> bool" where
  "is_pay_to_script_hash script \<longleftrightarrow>
     length script = 23 \<and> script ! 0 = OP_HASH160 \<and> script ! 1 = 0x14 \<and> script ! 22 = OP_EQUAL"

record witness_program =
  wp_version :: u8
  wp_program :: bytes

definition parse_witness_program :: "bytes \<Rightarrow> witness_program option" where
  "parse_witness_program script =
     (if length script < 4 \<or> length script > 42 then None
      else
        let version_byte = script ! 0
        in if version_byte \<noteq> OP_0 \<and> \<not> (OP_1 \<le> version_byte \<and> version_byte \<le> OP_16) then None
           else if unat (script ! 1) + 2 \<noteq> length script then None
           else Some \<lparr>wp_version = (if version_byte = OP_0 then 0 else version_byte - (OP_1 - 1)),
                      wp_program = drop 2 script\<rparr>)"

text \<open>
  The loop of \<open>find_and_delete\<close>.  The empty pattern is refused before the loop; the model stops
  on it as well, which makes it total.
\<close>

function find_and_delete_loop :: "bytes \<Rightarrow> bytes \<Rightarrow> nat \<Rightarrow> nat \<Rightarrow> bytes \<Rightarrow> nat \<Rightarrow> bytes \<times> nat" where
  "find_and_delete_loop script sig pos last_kept result found =
     (if pos + length sig \<le> length script \<and> sig \<noteq> [] then
        if take (length sig) (drop pos script) = sig then
          find_and_delete_loop script sig (pos + length sig) (pos + length sig)
            (result @ take (pos - last_kept) (drop last_kept script)) (found + 1)
        else
          (case next_instruction (drop pos script) 0 of
             Some (Inr ins, _) \<Rightarrow> find_and_delete_loop script sig (pos + ins_next ins) last_kept result found
           | _ \<Rightarrow> (result @ drop last_kept script, found))
      else (result @ drop last_kept script, found))"
  by pat_completeness auto
termination
proof (relation "measure (\<lambda>(script, sig, pos, _). length script - pos)", goal_cases)
  case (2 script sig pos last_kept result found)
  then have "0 < length sig" by simp
  moreover have "pos + length sig \<le> length script" using 2 by simp
  ultimately have "length script - (pos + length sig) < length script - pos" by linarith
  then show ?case by simp
next
  case (3 script sig pos last_kept result found item res p ins)
  then have eq: "next_instruction (drop pos script) 0 = Some (Inr ins, p)" by simp
  have "0 < ins_next ins" "pos < length script"
    using next_instruction_next [OF eq] next_instruction_progress [OF eq] by simp_all
  then show ?case by simp
qed simp

declare find_and_delete_loop.simps [simp del]

definition find_and_delete :: "bytes \<Rightarrow> bytes \<Rightarrow> bytes \<times> nat" where
  "find_and_delete script signature_push =
     (if signature_push = [] \<or> length script < length signature_push then (script, 0)
      else find_and_delete_loop script signature_push 0 0 [] 0)"

definition contains_codeseparator :: "bytes \<Rightarrow> bool" where
  "contains_codeseparator script \<longleftrightarrow>
     list_ex (\<lambda>item. case item of Inr ins \<Rightarrow> ins_opcode ins = OP_CODESEPARATOR | Inl _ \<Rightarrow> False)
       (instructions script 0)"

definition push_data :: "bytes \<Rightarrow> bytes \<Rightarrow> bytes" where
  "push_data script d =
     (let len = length d
      in (if len < 0x4c then script @ [word_of_nat len]
          else if len \<le> 0xff then script @ [OP_PUSHDATA1, word_of_nat len]
          else if len \<le> 0xffff then script @ OP_PUSHDATA2 # to_le 2 (word_of_nat len :: u16)
          else script @ OP_PUSHDATA4 # to_le 4 (word_of_nat len :: u32)) @ d)"

definition check_minimal_push :: "bytes \<Rightarrow> opcode \<Rightarrow> bool" where
  "check_minimal_push d op \<longleftrightarrow>
     (if d = [] then op = OP_0
      else if length d = 1 \<and> 1 \<le> d ! 0 \<and> d ! 0 \<le> 16 then op = OP_1 + d ! 0 - 1
      else if length d = 1 \<and> d ! 0 = 0x81 then op = OP_1NEGATE
      else if length d \<le> 75 then unat op = length d
      else if length d \<le> 255 then op = OP_PUSHDATA1
      else if length d \<le> 65535 then op = OP_PUSHDATA2
      else True)"

subsection \<open>Pushes parse back\<close>

lemma finish_push_at:
  "finish_push (pre @ s) (length pre) (length pre + k) len =
     (if length s - k < len then (Inl BadOpcode, length pre + length s)
      else (Inr \<lparr>ins_offset = length pre, ins_opcode = (pre @ s) ! length pre,
                 ins_data = take len (drop k s), ins_next = length pre + k + len\<rparr>, length pre + k + len))"
  by (simp add: finish_push_def add.assoc)

definition push_opcode :: "bytes \<Rightarrow> opcode" where
  "push_opcode d =
     (if length d < 0x4c then word_of_nat (length d) else if length d \<le> 0xff then OP_PUSHDATA1
      else if length d \<le> 0xffff then OP_PUSHDATA2 else OP_PUSHDATA4)"

lemma push_data_flat: "push_data pre d = pre @ push_data [] d"
  by (simp add: push_data_def Let_def)

lemma next_instruction_push_data:
  assumes "length d < 2 ^ 32"
  shows "next_instruction (push_data pre d @ r) (length pre) =
    Some (Inr \<lparr>ins_offset = length pre, ins_opcode = push_opcode d, ins_data = d,
               ins_next = length (push_data pre d)\<rparr>, length (push_data pre d))"
proof -
  consider (direct) "length d < 0x4c" | (one) "0x4c \<le> length d" "length d \<le> 0xff"
    | (two) "0xff < length d" "length d \<le> 0xffff" | (four) "0xffff < length d" by linarith
  then show ?thesis
  proof cases
    case direct
    then have u: "unat (word_of_nat (length d) :: u8) = length d" by (simp add: unat_word_of_nat_byte)
    then have "(word_of_nat (length d) :: u8) < OP_PUSHDATA1" "(word_of_nat (length d) :: u8) \<le> OP_PUSHDATA4"
      using direct by (simp_all add: word_less_nat_alt word_le_nat_alt)
    with direct u show ?thesis
      using finish_push_at [of pre "word_of_nat (length d) # d @ r" 1 "length d"]
      by (simp add: next_instruction_def push_data_def push_opcode_def Let_def)
  next
    case one
    then have u: "unat (word_of_nat (length d) :: u8) = length d" by (simp add: unat_word_of_nat_byte)
    with one show ?thesis
      using finish_push_at [of pre "OP_PUSHDATA1 # word_of_nat (length d) # d @ r" 2 "length d"]
      by (simp add: next_instruction_def push_data_def push_opcode_def Let_def)
  next
    case two
    then have u: "le_nat (to_le 2 (word_of_nat (length d) :: u16)) = length d"
      by (simp add: to_le_def unat_word_of_nat_u16)
    with two show ?thesis
      using finish_push_at [of pre "OP_PUSHDATA2 # to_le 2 (word_of_nat (length d) :: u16) @ d @ r" 3 "length d"]
      by (simp add: numeral_3_eq_3 next_instruction_def push_data_def push_opcode_def Let_def)
  next
    case four
    then have u: "le_nat (to_le 4 (word_of_nat (length d) :: u32)) = length d"
      using assms by (simp add: to_le_def unat_word_of_nat_u32)
    with four show ?thesis
      using finish_push_at [of pre "OP_PUSHDATA4 # to_le 4 (word_of_nat (length d) :: u32) @ d @ r" 5 "length d"]
      by (simp add: add.commute [of 5 "length pre"] add.assoc next_instruction_def push_data_def push_opcode_def Let_def)
  qed
qed

text \<open>A script built by pushes yields exactly those elements, and is push-only.\<close>

lemma length_push_data_gt: "length pre < length (push_data pre d)"
  by (simp add: push_data_def Let_def)

lemma instructions_unfold:
  "instructions script pos =
     (case next_instruction script pos of None \<Rightarrow> [] | Some (item, pos') \<Rightarrow> item # instructions script pos')"
  by (rule instructions.simps)

lemma instructions_pushes:
  assumes "\<forall>d \<in> set ds. length d < 2 ^ 32"
  shows "\<exists>items. instructions (fold (\<lambda>d s. push_data s d) ds pre) (length pre) = map Inr items \<and>
    map ins_data items = ds \<and> map ins_opcode items = map push_opcode ds"
  using assms
proof (induction ds arbitrary: pre)
  case Nil
  then show ?case by (subst instructions_unfold) (simp add: next_instruction_def)
next
  case (Cons d ds)
  let ?s = "fold (\<lambda>d s. push_data s d) ds (push_data pre d)"
  have "\<exists>r. fold (\<lambda>d s. push_data s d) ds p = p @ r" for p
  proof (induction ds arbitrary: p)
    case (Cons e es)
    then show ?case by (metis append_assoc fold_simps(2) push_data_flat)
  qed simp
  then obtain r where r: "?s = push_data pre d @ r" by blast
  obtain items where items: "instructions ?s (length (push_data pre d)) = map Inr items"
    "map ins_data items = ds" "map ins_opcode items = map push_opcode ds"
    using Cons.IH [of "push_data pre d"] Cons.prems by auto
  let ?i = "\<lparr>ins_offset = length pre, ins_opcode = push_opcode d, ins_data = d, ins_next = length (push_data pre d)\<rparr>"
  have "instructions ?s (length pre) = Inr ?i # instructions ?s (length (push_data pre d))"
    using next_instruction_push_data [of d pre r] Cons.prems r by (subst instructions_unfold) simp
  with items show ?case by (intro exI [of _ "?i # items"]) simp
qed

lemma push_opcode_is_push: "is_push (push_opcode d)"
proof -
  have "unat (word_of_nat (length d) :: u8) \<le> 96" if "length d < 76"
    using that by (simp add: unat_word_of_nat_byte)
  then show ?thesis by (auto simp: push_opcode_def is_push_def word_le_nat_alt)
qed

subsection \<open>Parsing loses no byte\<close>

definition ins_bytes :: "bytes \<Rightarrow> instruction \<Rightarrow> bytes" where
  "ins_bytes script i = take (ins_next i - ins_offset i) (drop (ins_offset i) script)"

lemma take_drop_glue: "i \<le> j \<Longrightarrow> take (j - i) (drop i xs) @ drop j xs = drop i xs"
  by (metis append_take_drop_id drop_drop le_add_diff_inverse2)

lemma instructions_tile:
  "instructions script pos = map Inr items \<Longrightarrow> pos \<le> length script \<Longrightarrow>
    concat (map (ins_bytes script) items) = drop pos script"
proof (induction script pos arbitrary: items rule: instructions.induct)
  case (1 script pos)
  show ?case
  proof (cases "next_instruction script pos")
    case None
    then have "drop pos script = []" by (auto simp: next_instruction_def Let_def split: if_splits)
    moreover have "items = []" using 1(2) None by (subst (asm) instructions_unfold) simp
    ultimately show ?thesis by simp
  next
    case (Some r)
    then obtain item p where r: "next_instruction script pos = Some (item, p)" by (cases r) auto
    then have "item # instructions script p = map Inr items"
      using 1(2) by (subst (asm) instructions_unfold) simp
    then obtain i js where i: "items = i # js" "item = Inr i" "instructions script p = map Inr js"
      by (cases items) auto
    have n: "ins_next i = p" "ins_offset i = pos" "pos < p" "p \<le> length script"
      using next_instruction_next [of script pos i p] next_instruction_progress [OF r] r i(2) by auto
    have "concat (map (ins_bytes script) js) = drop p script"
      using 1(1) [OF r refl i(3)] n by simp
    moreover have "ins_bytes script i = take (p - pos) (drop pos script)" using n by (simp add: ins_bytes_def)
    ultimately show ?thesis using n i(1) take_drop_glue [of pos p script] by simp
  qed
qed

subsection \<open>Deleting signatures\<close>

lemma find_and_delete_loop_size:
  "last_kept \<le> pos \<Longrightarrow> last_kept \<le> length script \<Longrightarrow> length result + found * length sig = last_kept \<Longrightarrow>
    find_and_delete_loop script sig pos last_kept result found = (out, n) \<Longrightarrow>
    length out + n * length sig = length script"
proof (induction script sig pos last_kept result found rule: find_and_delete_loop.induct)
  case (1 script sig pos last_kept result found)
  show ?case
  proof (cases "pos + length sig \<le> length script \<and> sig \<noteq> []")
    case True
    show ?thesis
    proof (cases "take (length sig) (drop pos script) = sig")
      case m: True
      have "find_and_delete_loop script sig (pos + length sig) (pos + length sig)
          (result @ take (pos - last_kept) (drop last_kept script)) (found + 1) = (out, n)"
        using "1.prems"(4) True m by (subst (asm) find_and_delete_loop.simps) simp
      moreover have "min (length script - last_kept) (pos - last_kept) = pos - last_kept"
        using True by linarith
      ultimately show ?thesis
        using "1.IH"(1) [OF True m] True "1.prems"(1-3) by (simp add: add.commute add.left_commute)
    next
      case m: False
      note unfold = "1.prems"(4) [unfolded find_and_delete_loop.simps [of script sig pos] if_P [OF True] if_not_P [OF m]]
      show ?thesis
      proof (cases "\<exists>ins p. next_instruction (drop pos script) 0 = Some (Inr ins, p)")
        case ex: True
        then obtain ins p where e: "next_instruction (drop pos script) 0 = Some (Inr ins, p)" by blast
        then have "find_and_delete_loop script sig (pos + ins_next ins) last_kept result found = (out, n)"
          using unfold by simp
        with "1.IH"(2) [OF True m e refl refl] "1.prems"(1-3) show ?thesis by simp
      next
        case False
        then have "(out, n) = (result @ drop last_kept script, found)"
          using unfold by (auto split: option.splits sum.splits)
        then show ?thesis using "1.prems"(2,3) by simp
      qed
    qed
  next
    case False
    then have "(out, n) = (result @ drop last_kept script, found)"
      using "1.prems"(4) by (subst (asm) find_and_delete_loop.simps) auto
    then show ?thesis using "1.prems"(2,3) by simp
  qed
qed

lemma find_and_delete_size:
  "find_and_delete script sig = (out, n) \<Longrightarrow> length out + n * length sig = length script"
  by (auto simp: find_and_delete_def dest: find_and_delete_loop_size [rotated -1] split: if_splits)

subsection \<open>Witness programs\<close>

definition witness_program_script :: "witness_program \<Rightarrow> bytes" where
  "witness_program_script wp =
     [if wp_version wp = 0 then OP_0 else wp_version wp + (OP_1 - 1), word_of_nat (length (wp_program wp))] @ wp_program wp"

lemma parse_witness_program_sound:
  assumes "parse_witness_program script = Some wp"
  shows "script = witness_program_script wp" "2 \<le> length (wp_program wp)" "length (wp_program wp) \<le> 40"
    "wp_version wp \<le> 16"
proof -
  have a: "4 \<le> length script" "length script \<le> 42" "unat (script ! 1) + 2 = length script"
    "wp_program wp = drop 2 script" "script ! 0 = OP_0 \<or> (OP_1 \<le> script ! 0 \<and> script ! 0 \<le> OP_16)"
    "wp_version wp = (if script ! 0 = OP_0 then 0 else script ! 0 - (OP_1 - 1))"
    using assms by (auto simp: parse_witness_program_def Let_def split: if_splits)
  from a(1) obtain v l r where s: "script = v # l # r" by (cases script; cases "tl script") auto
  have l: "l = word_of_nat (length r)" using a(2,3) s by (simp add: word_unat_eq_iff unat_word_of_nat_byte)
  have v: "v = OP_0 \<or> (0x51 \<le> v \<and> v \<le> 0x60)" using a(5) s by simp
  have w: "wp_version wp = (if v = 0 then 0 else v - 0x50)" using a(6) s by simp
  have sub: "unat (v - 0x50) = unat v - 0x50" if "0x51 \<le> v"
    using that by (intro trans [OF unat_sub]) (auto simp: word_le_nat_alt)
  have "v \<noteq> 0 \<Longrightarrow> v - 0x50 \<noteq> 0" using v sub by (auto simp: word_le_nat_alt word_unat_eq_iff)
  then show "script = witness_program_script wp" using s l w a(4) by (simp add: witness_program_script_def)
  show "2 \<le> length (wp_program wp)" "length (wp_program wp) \<le> 40" using a by simp_all
  show "wp_version wp \<le> 16" using v sub by (auto simp: w word_le_nat_alt)
qed

end
