(* ===== verification/Sig.thy ===== *)
theory Sig
  imports ScriptOps
begin

text \<open>
  Signature and public-key encoding rules, \<^verbatim>\<open>script/sig.rs\<close>: the strict DER layout of BIP 66
  byte by byte, low-S, hash types and key shapes, and the flag-gated checks built from them.
\<close>

abbreviation SIGHASH_ALL :: u8 where
  "SIGHASH_ALL \<equiv> 1"

abbreviation SIGHASH_NONE :: u8 where
  "SIGHASH_NONE \<equiv> 2"

abbreviation SIGHASH_SINGLE :: u8 where
  "SIGHASH_SINGLE \<equiv> 3"

abbreviation SIGHASH_ANYONECANPAY :: u8 where
  "SIGHASH_ANYONECANPAY \<equiv> 0x80"

definition HALF_CURVE_ORDER :: bytes where
  "HALF_CURVE_ORDER =
     [0x7F, 0xFF, 0xFF, 0xFF, 0xFF, 0xFF, 0xFF, 0xFF, 0xFF, 0xFF, 0xFF, 0xFF, 0xFF, 0xFF, 0xFF, 0xFF,
      0x5D, 0x57, 0x6E, 0x73, 0x57, 0xA4, 0x50, 0x1D, 0xDF, 0xE9, 0x2F, 0x46, 0x68, 0x1B, 0x20, 0xA0]"

text \<open>
  The early returns in the order of the code.  Every index is below the length that the checks
  before it guarantee.
\<close>

definition is_valid_signature_encoding :: "bytes \<Rightarrow> bool" where
  "is_valid_signature_encoding sig \<longleftrightarrow>
     (if length sig < 9 \<or> length sig > 73 then False
      else if sig ! 0 \<noteq> 0x30 then False
      else if unat (sig ! 1) \<noteq> length sig - 3 then False
      else
        let len_r = unat (sig ! 3)
        in if 5 + len_r \<ge> length sig then False
           else
             let len_s = unat (sig ! (5 + len_r))
             in if len_r + len_s + 7 \<noteq> length sig then False
                else if sig ! 2 \<noteq> 0x02 then False
                else if len_r = 0 then False
                else if sig ! 4 AND 0x80 \<noteq> 0 then False
                else if len_r > 1 \<and> sig ! 4 = 0 \<and> sig ! 5 AND 0x80 = 0 then False
                else if sig ! (len_r + 4) \<noteq> 0x02 then False
                else if len_s = 0 then False
                else if sig ! (len_r + 6) AND 0x80 \<noteq> 0 then False
                else if len_s > 1 \<and> sig ! (len_r + 6) = 0 \<and> sig ! (len_r + 7) AND 0x80 = 0 then False
                else True)"

text \<open>Lexicographic \<^verbatim>\<open><=\<close> on byte arrays of one length.\<close>

fun bytes_le :: "bytes \<Rightarrow> bytes \<Rightarrow> bool" where
  "bytes_le (a # as) (b # bs) = (if a < b then True else if b < a then False else bytes_le as bs)"
| "bytes_le [] _ = True"
| "bytes_le _ [] = False"

definition is_low_der_signature :: "bytes \<Rightarrow> bool" where
  "is_low_der_signature sig \<longleftrightarrow>
     (if \<not> is_valid_signature_encoding sig then False
      else
        let len_r = unat (sig ! 3);
            len_s = unat (sig ! (5 + len_r));
            s = take len_s (drop (len_r + 6) sig);
            s = (if s \<noteq> [] \<and> hd s = 0 \<and> length s > 1 then tl s else s)
        in if length s > 32 then False
           else bytes_le (replicate (32 - length s) 0 @ s) HALF_CURVE_ORDER)"

definition is_defined_hashtype :: "bytes \<Rightarrow> bool" where
  "is_defined_hashtype sig \<longleftrightarrow>
     (if sig = [] then False
      else let base = last sig AND NOT SIGHASH_ANYONECANPAY in SIGHASH_ALL \<le> base \<and> base \<le> SIGHASH_SINGLE)"

definition is_compressed_or_uncompressed_pubkey :: "bytes \<Rightarrow> bool" where
  "is_compressed_or_uncompressed_pubkey pubkey \<longleftrightarrow>
     (if length pubkey = 33 then pubkey ! 0 = 0x02 \<or> pubkey ! 0 = 0x03
      else if length pubkey = 65 then pubkey ! 0 = 0x04
      else False)"

definition is_compressed_pubkey :: "bytes \<Rightarrow> bool" where
  "is_compressed_pubkey pubkey \<longleftrightarrow> length pubkey = 33 \<and> (pubkey ! 0 = 0x02 \<or> pubkey ! 0 = 0x03)"

definition check_signature_encoding :: "bytes \<Rightarrow> verify_flags \<Rightarrow> unit script_result" where
  "check_signature_encoding sig flags =
     (if sig = [] then Inr ()
      else if (contains flags FLAG_DERSIG \<or> contains flags FLAG_LOW_S \<or> contains flags FLAG_STRICTENC)
              \<and> \<not> is_valid_signature_encoding sig then Inl SigDer
      else if contains flags FLAG_LOW_S \<and> \<not> is_low_der_signature sig then Inl SigHighS
      else if contains flags FLAG_STRICTENC \<and> \<not> is_defined_hashtype sig then Inl SigHashType
      else Inr ())"

definition check_pubkey_encoding :: "bytes \<Rightarrow> verify_flags \<Rightarrow> bool \<Rightarrow> unit script_result" where
  "check_pubkey_encoding pubkey flags is_witness_v0 =
     (if contains flags FLAG_STRICTENC \<and> \<not> is_compressed_or_uncompressed_pubkey pubkey then Inl PubkeyType
      else if contains flags FLAG_WITNESS_PUBKEYTYPE \<and> is_witness_v0 \<and> \<not> is_compressed_pubkey pubkey
        then Inl WitnessPubkeyType
      else Inr ())"

subsection \<open>The DER layout\<close>

text \<open>A positive DER integer body: not empty, no sign bit, no superfluous leading zero.\<close>

definition der_int_body :: "bytes \<Rightarrow> bool" where
  "der_int_body b \<longleftrightarrow> b \<noteq> [] \<and> unat (hd b) < 128 \<and> (length b > 1 \<and> hd b = 0 \<longrightarrow> 128 \<le> unat (b ! 1))"

definition der_signature :: "bytes \<Rightarrow> bytes \<Rightarrow> u8 \<Rightarrow> bytes" where
  "der_signature r s hashtype =
     [0x30, word_of_nat (length r + length s + 4), 0x02, word_of_nat (length r)] @ r @
     [0x02, word_of_nat (length s)] @ s @ [hashtype]"

lemma der_signature_nth:
  "(der_signature r s h) ! 0 = 0x30" "(der_signature r s h) ! 1 = word_of_nat (length r + length s + 4)"
  "(der_signature r s h) ! 2 = 0x02" "(der_signature r s h) ! 3 = word_of_nat (length r)"
  "length (der_signature r s h) = length r + length s + 7"
  "(der_signature r s h) ! (length r + 4) = 0x02"
  "(der_signature r s h) ! (5 + length r) = word_of_nat (length s)"
  "r \<noteq> [] \<Longrightarrow> (der_signature r s h) ! 4 = hd r"
  "length r > 1 \<Longrightarrow> (der_signature r s h) ! 5 = r ! 1"
  "s \<noteq> [] \<Longrightarrow> (der_signature r s h) ! (length r + 6) = hd s"
  "length s > 1 \<Longrightarrow> (der_signature r s h) ! (length r + 7) = s ! 1"
  by (auto simp: der_signature_def nth_append nth_Cons' hd_conv_nth)

lemma valid_encoding_der_signature:
  assumes "der_int_body r" "der_int_body s" "length r + length s + 7 \<le> 73"
  shows "is_valid_signature_encoding (der_signature r s h)"
proof -
  have ne: "r \<noteq> []" "s \<noteq> []" using assms by (auto simp: der_int_body_def)
  then have "1 \<le> length r" "1 \<le> length s" by (simp_all add: Suc_le_eq)
  moreover have u: "unat (word_of_nat (length r) :: u8) = length r" "unat (word_of_nat (length s) :: u8) = length s"
    "unat (word_of_nat (length r + length s + 4) :: u8) = length r + length s + 4"
    using assms(3) by (simp_all add: unat_word_of_nat_byte del: of_nat_add)
  ultimately show ?thesis
    using assms ne
    unfolding is_valid_signature_encoding_def der_signature_nth Let_def u
    by (auto simp: der_signature_nth der_int_body_def sign_bit sign_bit_0 not_le)
qed

lemma two_bytes: "i + 1 < length xs \<Longrightarrow> take 2 (drop i xs) = [xs ! i, xs ! (i + 1)]"
  by (simp add: numeral_2_eq_2 take_Suc_conv_app_nth)

lemma split_five:
  assumes "length xs = 4 + m + 2 + n + 1"
  shows "xs = take 4 xs @ take m (drop 4 xs) @ take 2 (drop (m + 4) xs) @ take n (drop (m + 6) xs) @ [last xs]"
proof -
  have step: "drop a xs = take b (drop a xs) @ drop (b + a) xs" for a b
    by (metis append_take_drop_id drop_drop)
  have "length (drop (n + (m + 6)) xs) = 1" using assms by simp
  then have l: "drop (n + (m + 6)) xs = [last xs]"
    by (metis One_nat_def append_take_drop_id last_appendR length_0_conv length_Suc_conv last_ConsL list.distinct(1))
  have "2 + (m + 4) = m + 6" by simp
  then show ?thesis
    using step [of 0 4] step [of 4 m] step [of "m + 4" 2] step [of "m + 6" n] l by (metis add_0_right drop0)
qed

lemma valid_encoding_decompose:
  assumes "is_valid_signature_encoding sig"
  obtains r s where "sig = der_signature r s (last sig)" "der_int_body r" "der_int_body s"
    "length r + length s + 7 \<le> 73" "length r = unat (sig ! 3)"
    "s = take (unat (sig ! (5 + length r))) (drop (length r + 6) sig)"
proof -
  define m where "m = unat (sig ! 3)"
  define n where "n = unat (sig ! (5 + m))"
  have c: "length sig \<le> 73" "sig ! 0 = 0x30" "unat (sig ! 1) = length sig - 3" "5 + m < length sig"
    "m + n + 7 = length sig" "sig ! 2 = 0x02" "m \<noteq> 0" "sig ! 4 AND 0x80 = 0"
    "\<not> (m > 1 \<and> sig ! 4 = 0 \<and> sig ! 5 AND 0x80 = 0)" "sig ! (m + 4) = 0x02" "n \<noteq> 0"
    "sig ! (m + 6) AND 0x80 = 0" "\<not> (n > 1 \<and> sig ! (m + 6) = 0 \<and> sig ! (m + 7) AND 0x80 = 0)"
    using assms unfolding is_valid_signature_encoding_def Let_def m_def n_def by (auto split: if_splits)
  define r where "r = take m (drop 4 sig)"
  define s where "s = take n (drop (m + 6) sig)"
  have len: "length r = m" "length s = n" using c(5) by (simp_all add: r_def s_def)
  have w: "sig ! 1 = word_of_nat (length r + length s + 4)" "sig ! 3 = word_of_nat (length r)"
    "sig ! (m + 5) = word_of_nat (length s)"
    using c(1,3,5) unfolding word_unat_eq_iff len
    by (simp_all add: unat_word_of_nat_byte m_def n_def add.commute del: of_nat_add)
  have head: "take 4 sig = [0x30, word_of_nat (length r + length s + 4), 0x02, word_of_nat (length r)]"
    using c(2,5,6) w(1,2) two_bytes [of 0 sig] two_bytes [of 2 sig] take_add [of 2 2 sig] by simp
  have mid: "take 2 (drop (m + 4) sig) = [0x02, word_of_nat (length s)]"
    using c(4,10) w(3) two_bytes [of "m + 4" sig] by (simp add: add.commute)
  have "sig = der_signature r s (last sig)"
    using split_five [of sig m n] c(5) unfolding head mid der_signature_def r_def s_def by simp
  moreover have "der_int_body r" "der_int_body s"
    using c(5,7-9,11-13) len
    by (auto simp: der_int_body_def r_def s_def sign_bit_0 hd_drop_conv_nth hd_take not_le numeral_2_eq_2
        add.commute [of 7 m])
  ultimately show ?thesis
    using that [of r s] c(1,5) len by (simp add: m_def n_def s_def)
qed

lemma valid_encoding_iff:
  "is_valid_signature_encoding sig \<longleftrightarrow>
     (\<exists>r s h. sig = der_signature r s h \<and> der_int_body r \<and> der_int_body s \<and> length r + length s + 7 \<le> 73)"
  using valid_encoding_der_signature valid_encoding_decompose by metis

subsection \<open>Low S\<close>

text \<open>Big-endian value.\<close>

definition be_nat :: "bytes \<Rightarrow> nat" where
  "be_nat bs = le_nat (rev bs)"

lemma be_nat_simps [simp]: "be_nat [] = 0" "be_nat (b # bs) = unat b * 256 ^ length bs + be_nat bs"
  by (simp_all add: be_nat_def le_nat_append)

lemma be_nat_lt: "be_nat bs < 256 ^ length bs"
  using le_nat_lt [of "rev bs"] by (simp add: be_nat_def)

lemma be_nat_pad [simp]: "be_nat (replicate n 0 @ bs) = be_nat bs"
  by (induction n) auto

lemma digit_less:
  assumes "(a :: nat) < b" "x < P"
  shows "a * P + x < b * P + y"
proof -
  have "(a + 1) * P \<le> b * P" using assms(1) by (intro mult_right_mono) auto
  then show ?thesis using assms(2) by simp
qed

lemma bytes_le_numeric: "length as = length bs \<Longrightarrow> bytes_le as bs \<longleftrightarrow> be_nat as \<le> be_nat bs"
proof (induction as bs rule: bytes_le.induct)
  case (1 a as b bs)
  consider "a < b" | "b < a" | "a = b" by fastforce
  then show ?case
  proof cases
    case 1
    then have "unat a < unat b" by (simp add: word_less_nat_alt)
    from digit_less [OF this be_nat_lt, of as "be_nat bs"] 1 "1.prems" show ?thesis by simp
  next
    case 2
    then have "unat b < unat a" by (simp add: word_less_nat_alt)
    from digit_less [OF this be_nat_lt, of bs "be_nat as"] 2 "1.prems" show ?thesis by simp
  next
    case 3
    then show ?thesis using "1.IH" "1.prems" by simp
  qed
qed auto

text \<open>A valid signature is low-S exactly when the number its S bytes stand for is at most half the group order.\<close>

lemma low_der_iff:
  assumes "sig = der_signature r s h" "der_int_body r" "der_int_body s" "length r + length s + 7 \<le> 73"
  shows "is_low_der_signature sig \<longleftrightarrow> be_nat s \<le> be_nat HALF_CURVE_ORDER"
proof -
  have v: "is_valid_signature_encoding sig"
    using valid_encoding_der_signature assms by blast
  have u: "unat (sig ! 3) = length r" "unat (sig ! (5 + length r)) = length s"
    using assms(4) by (simp_all add: assms(1) der_signature_nth unat_word_of_nat_byte)
  have sl: "take (length s) (drop (length r + 6) sig) = s"
    by (simp add: assms(1) der_signature_def numeral_eq_Suc)
  define t where "t = (if s \<noteq> [] \<and> hd s = 0 \<and> length s > 1 then tl s else s)"
  have t: "be_nat t = be_nat s" by (cases s) (auto simp: t_def)
  have H: "length HALF_CURVE_ORDER = 32" by (simp add: HALF_CURVE_ORDER_def)
  have "is_low_der_signature sig \<longleftrightarrow> \<not> length t > 32 \<and> bytes_le (replicate (32 - length t) 0 @ t) HALF_CURVE_ORDER"
    unfolding is_low_der_signature_def Let_def u sl t_def [symmetric] using v by simp
  also have "\<dots> \<longleftrightarrow> length t \<le> 32 \<and> be_nat s \<le> be_nat HALF_CURVE_ORDER"
    using H t by (auto simp: bytes_le_numeric not_less)
  also have "\<dots> \<longleftrightarrow> be_nat s \<le> be_nat HALF_CURVE_ORDER"
  proof -
    have "256 ^ 32 \<le> be_nat s" if big: "32 < length t"
    proof -
      obtain b bs where t': "t = b # bs" using big by (cases t) auto
      have "b \<noteq> 0"
        using big assms(3) t' unfolding t_def der_int_body_def
        by (cases s) (auto split: if_splits simp: word_unat_eq_iff)
      then have "1 \<le> unat b" by (simp add: Suc_le_eq unat_gt_0)
      then have "256 ^ length bs \<le> unat b * 256 ^ length bs" by simp
      moreover have "(256 :: nat) ^ 32 \<le> 256 ^ length bs" using big t' by (intro power_increasing) auto
      moreover have "be_nat s = unat b * 256 ^ length bs + be_nat bs" using t t' by simp
      ultimately show ?thesis by linarith
    qed
    then show ?thesis using be_nat_lt [of HALF_CURVE_ORDER] H by (metis linorder_not_less order.strict_trans1)
  qed
  finally show ?thesis .
qed

end
