(* ===== verification/Taproot.thy ===== *)
theory Taproot
  imports Sig Transaction
begin

text \<open>
  Taproot primitives, \<^verbatim>\<open>script/taproot.rs\<close>: tagged hashes, control blocks, the script tree
  and the commitment check.  The curve operations come from the \<^verbatim>\<open>secp256k1\<close> crate and are
  the record \<open>secp\<close> of functions on byte strings, an argument of what uses them.
\<close>

datatype parity = Parity_Even | Parity_Odd

record secp =
  pubkey_from_slice_ok :: "bytes \<Rightarrow> bool"
  signature_from_der_lax_ok :: "bytes \<Rightarrow> bool"
  verify_ecdsa :: "bytes \<Rightarrow> bytes \<Rightarrow> bytes \<Rightarrow> bool"
  xonly_from_slice_ok :: "bytes \<Rightarrow> bool"
  schnorr_from_slice_ok :: "bytes \<Rightarrow> bool"
  verify_schnorr :: "bytes \<Rightarrow> bytes \<Rightarrow> bytes \<Rightarrow> bool"
  scalar_from_be_bytes_ok :: "bytes \<Rightarrow> bool"
  tweak_add_check :: "bytes \<Rightarrow> bytes \<Rightarrow> parity \<Rightarrow> bytes \<Rightarrow> bool"

definition TAPROOT_LEAF_MASK :: u8 where
  "TAPROOT_LEAF_MASK = 0xfe"

definition TAPROOT_LEAF_TAPSCRIPT :: u8 where
  "TAPROOT_LEAF_TAPSCRIPT = 0xc0"

definition TAPROOT_CONTROL_BASE_SIZE :: nat where
  "TAPROOT_CONTROL_BASE_SIZE = 33"

definition TAPROOT_CONTROL_NODE_SIZE :: nat where
  "TAPROOT_CONTROL_NODE_SIZE = 32"

definition TAPROOT_CONTROL_MAX_NODE_COUNT :: nat where
  "TAPROOT_CONTROL_MAX_NODE_COUNT = 128"

definition TAPROOT_CONTROL_MAX_SIZE :: nat where
  "TAPROOT_CONTROL_MAX_SIZE =
     TAPROOT_CONTROL_BASE_SIZE + TAPROOT_CONTROL_NODE_SIZE * TAPROOT_CONTROL_MAX_NODE_COUNT"

definition WITNESS_V1_TAPROOT_SIZE :: nat where
  "WITNESS_V1_TAPROOT_SIZE = 32"

definition ANNEX_TAG :: u8 where
  "ANNEX_TAG = 0x50"

definition VALIDATION_WEIGHT_OFFSET :: int where
  "VALIDATION_WEIGHT_OFFSET = 50"

definition VALIDATION_WEIGHT_PER_SIGOP_PASSED :: int where
  "VALIDATION_WEIGHT_PER_SIGOP_PASSED = 50"

text \<open>\<^verbatim>\<open>tag.as_bytes()\<close> of an ASCII tag.\<close>

definition str_bytes :: "string \<Rightarrow> bytes" where
  "str_bytes s = map of_char s"

definition tagged_hash :: "digests \<Rightarrow> string \<Rightarrow> bytes \<Rightarrow> bytes" where
  "tagged_hash H tag d =
     (let tag_hash = sha256 H (str_bytes tag) in sha256 H (tag_hash @ tag_hash @ d))"

record exec_data =
  tapleaf_hash :: "bytes option"
  annex_hash :: "bytes option"
  codeseparator_pos :: u32
  validation_weight_left :: int

definition exec_data_new :: exec_data where
  "exec_data_new = \<lparr>tapleaf_hash = None, annex_hash = None, codeseparator_pos = 0xFFFFFFFF,
     validation_weight_left = 0\<rparr>"

record control_block =
  leaf_version :: u8
  output_key_parity :: parity
  internal_key :: bytes
  merkle_path :: "bytes list"

text \<open>\<^verbatim>\<open>chunks_exact\<close>: full chunks only.\<close>

function chunks_exact :: "nat \<Rightarrow> 'a list \<Rightarrow> 'a list list" where
  "chunks_exact n xs = (if n = 0 \<or> length xs < n then [] else take n xs # chunks_exact n (drop n xs))"
  by pat_completeness auto
termination
  by (relation "measure (\<lambda>(n, xs). length xs)") auto

declare chunks_exact.simps [simp del]

definition parse_control_block :: "bytes \<Rightarrow> control_block option" where
  "parse_control_block control =
     (if length control < TAPROOT_CONTROL_BASE_SIZE \<or> length control > TAPROOT_CONTROL_MAX_SIZE
         \<or> (length control - TAPROOT_CONTROL_BASE_SIZE) mod TAPROOT_CONTROL_NODE_SIZE \<noteq> 0 then None
      else Some
        \<lparr>leaf_version = control ! 0 AND TAPROOT_LEAF_MASK,
         output_key_parity = (if control ! 0 AND 1 = 1 then Parity_Odd else Parity_Even),
         internal_key = take 32 (drop 1 control),
         merkle_path = chunks_exact TAPROOT_CONTROL_NODE_SIZE (drop TAPROOT_CONTROL_BASE_SIZE control)\<rparr>)"

definition write_compact_size :: "bytes \<Rightarrow> u64 \<Rightarrow> bytes" where
  "write_compact_size out v =
     (if v < 0xfd then out @ [ucast v]
      else if v \<le> 0xffff then out @ 0xfd # to_le 2 (ucast v :: u16)
      else if v \<le> 0xffffffff then out @ 0xfe # to_le 4 (ucast v :: u32)
      else out @ 0xff # to_le 8 v)"

definition compute_tapleaf_hash :: "digests \<Rightarrow> u8 \<Rightarrow> bytes \<Rightarrow> bytes" where
  "compute_tapleaf_hash H version script =
     tagged_hash H ''TapLeaf'' (write_compact_size [version] (word_of_nat (length script)) @ script)"

definition tap_branch :: "digests \<Rightarrow> bytes \<Rightarrow> bytes \<Rightarrow> bytes" where
  "tap_branch H node sibling =
     tagged_hash H ''TapBranch'' (if bytes_le node sibling then node @ sibling else sibling @ node)"

definition compute_taproot_merkle_root :: "digests \<Rightarrow> control_block \<Rightarrow> bytes \<Rightarrow> bytes" where
  "compute_taproot_merkle_root H control leaf = fold (\<lambda>sibling node. tap_branch H node sibling) (merkle_path control) leaf"

definition verify_taproot_commitment :: "digests \<Rightarrow> secp \<Rightarrow> control_block \<Rightarrow> bytes \<Rightarrow> bytes \<Rightarrow> bool" where
  "verify_taproot_commitment H ec control program leaf \<longleftrightarrow>
     (if \<not> xonly_from_slice_ok ec program then False
      else if \<not> xonly_from_slice_ok ec (internal_key control) then False
      else
        let root = compute_taproot_merkle_root H control leaf;
            tweak = tagged_hash H ''TapTweak'' (internal_key control @ root)
        in if \<not> scalar_from_be_bytes_ok ec tweak then False
           else tweak_add_check ec (internal_key control) program (output_key_parity control) tweak)"

definition is_op_success :: "u8 \<Rightarrow> bool" where
  "is_op_success op \<longleftrightarrow>
     op = 80 \<or> op = 98 \<or> (op \<ge> 126 \<and> op \<le> 129) \<or> (op \<ge> 131 \<and> op \<le> 134) \<or> (op \<ge> 137 \<and> op \<le> 138)
     \<or> (op \<ge> 141 \<and> op \<le> 142) \<or> (op \<ge> 149 \<and> op \<le> 153) \<or> (op \<ge> 187 \<and> op \<le> 254)"

subsection \<open>Compact sizes and control blocks\<close>

text \<open>The second compact-size writer of the code base agrees with the wire codec.\<close>

lemma write_compact_size_varint: "write_compact_size out v = encode_varint v out"
proof -
  have "v < 0xfd \<longleftrightarrow> v \<le> 0xfc" by (auto simp: word_less_nat_alt word_le_nat_alt)
  then show ?thesis by (simp add: write_compact_size_def encode_varint_def push_u8_def push_bytes_def)
qed

lemma chunks_exact_concat:
  assumes "0 < n" "n dvd length xs"
  shows "concat (chunks_exact n xs) = xs \<and> length (chunks_exact n xs) = length xs div n \<and>
    (\<forall>c \<in> set (chunks_exact n xs). length c = n)"
  using assms(2)
proof (induction "length xs div n" arbitrary: xs)
  case 0
  then have "xs = []" using assms(1) by (auto simp: div_eq_0_iff dvd_imp_le elim!: dvdE)
  then show ?case using assms(1) by (subst (1 2 3) chunks_exact.simps) simp
next
  case (Suc k)
  then have le: "n \<le> length xs" by (metis Suc_neq_Zero div_less not_less)
  have k: "k = length (drop n xs) div n" using Suc(2) le by (simp add: le_div_geq assms(1))
  have "n dvd length (drop n xs)" using Suc.prems le by (simp add: dvd_diff_nat)
  note ih = Suc(1) [OF k this]
  have u: "chunks_exact n xs = take n xs # chunks_exact n (drop n xs)"
    using le assms(1) by (subst chunks_exact.simps) simp
  have "length (chunks_exact n xs) = Suc k" unfolding u using ih k by (metis length_Cons)
  moreover have "concat (chunks_exact n xs) = xs"
    unfolding u concat.simps using ih by (metis append_take_drop_id)
  moreover have "\<forall>c \<in> set (chunks_exact n xs). length c = n"
    unfolding u using ih le by (metis length_take min.absorb2 set_ConsD)
  ultimately show ?case using Suc(2) by simp
qed

definition control_bytes :: "control_block \<Rightarrow> bytes" where
  "control_bytes c = (leaf_version c OR (if output_key_parity c = Parity_Odd then 1 else 0)) # internal_key c @
     concat (merkle_path c)"

lemma leaf_byte_split: "((b :: u8) AND 0xfe) OR (if b AND 1 = 1 then 1 else 0) = b"
proof -
  have "b AND 1 = 1 \<or> b AND 1 = 0" by (simp add: and_one_eq mod2_eq_if)
  then have "(if b AND 1 = 1 then 1 else 0) = b AND 1" by auto
  then have "((b AND 0xfe) OR (if b AND 1 = 1 then 1 else 0)) = (b AND 0xfe) OR (b AND 1)" by simp
  also have "\<dots> = b AND (0xfe OR 1)" by (simp only: bit.conj_disj_distrib)
  also have "(0xfe OR 1 :: u8) = - 1" by simp
  finally show ?thesis by (simp only: and.right_neutral)
qed

lemma parity_bit: "(if (if b then Parity_Odd else Parity_Even) = Parity_Odd then 1 else 0) = (if b then 1 else (0 :: u8))"
  by simp

lemma parse_control_block_sound:
  assumes "parse_control_block control = Some c"
  shows "control_bytes c = control \<and> length (internal_key c) = 32 \<and> length (merkle_path c) \<le> 128 \<and>
    (\<forall>n \<in> set (merkle_path c). length n = 32) \<and> leaf_version c AND 1 = 0"
proof -
  have a: "33 \<le> length control" "length control \<le> 4129" "32 dvd length (drop 33 control)"
    and c: "c = \<lparr>leaf_version = control ! 0 AND 0xfe,
         output_key_parity = (if control ! 0 AND 1 = 1 then Parity_Odd else Parity_Even),
         internal_key = take 32 (drop 1 control), merkle_path = chunks_exact 32 (drop 33 control)\<rparr>"
    using assms
    by (auto simp: parse_control_block_def TAPROOT_CONTROL_BASE_SIZE_def TAPROOT_CONTROL_MAX_SIZE_def
        TAPROOT_CONTROL_NODE_SIZE_def TAPROOT_CONTROL_MAX_NODE_COUNT_def TAPROOT_LEAF_MASK_def mod_eq_0_iff_dvd
        split: if_splits)
  have ch: "concat (chunks_exact 32 (drop 33 control)) = drop 33 control"
    "length (chunks_exact 32 (drop 33 control)) = length (drop 33 control) div 32"
    "\<forall>n \<in> set (chunks_exact 32 (drop 33 control)). length n = 32"
    using chunks_exact_concat [OF _ a(3)] by auto
  have "control ! 0 # take 32 (drop 1 control) @ drop 33 control = control"
  proof -
    have "control = control ! 0 # drop 1 control" using a(1) by (cases control) auto
    moreover have "drop 1 control = take 32 (drop 1 control) @ drop 33 control"
      using append_take_drop_id [of 32 "drop 1 control"] by simp
    ultimately show ?thesis by metis
  qed
  then have "control_bytes c = control"
    unfolding control_bytes_def c control_block.simps ch(1) parity_bit leaf_byte_split .
  moreover have "leaf_version c AND 1 = 0" by (simp add: c and.assoc)
  moreover have "length (internal_key c) = 32" using a(1) by (simp add: c)
  moreover have "length (merkle_path c) \<le> 128"
  proof -
    have "length (merkle_path c) = length (drop 33 control) div 32" using ch by (simp add: c)
    also have "\<dots> \<le> 4096 div 32" using a(2) by (intro div_le_mono) simp
    finally show ?thesis by simp
  qed
  moreover have "\<forall>n \<in> set (merkle_path c). length n = 32" using ch by (simp add: c)
  ultimately show ?thesis by blast
qed

end
