(* ===== verification/Sighash.thy ===== *)
theory Sighash
  imports Taproot
begin

text \<open>
  Transaction signature hashes, \<^verbatim>\<open>script/sighash.rs\<close>: the legacy algorithm with its
  \<^verbatim>\<open>SIGHASH_SINGLE\<close> quirk, BIP 143 and BIP 341.  The byte string that is hashed is a
  definition of its own, so that what a signature commits to can be stated about it.
\<close>

definition SIGHASH_SINGLE_BUG :: bytes where
  "SIGHASH_SINGLE_BUG = 1 # replicate 31 0"

abbreviation SIGHASH_DEFAULT :: u8 where
  "SIGHASH_DEFAULT \<equiv> 0"

text \<open>An output as the hashes serialise it: the value as \<^verbatim>\<open>i64\<close>, then the script.\<close>

definition encode_hashed_output :: "tx_out \<Rightarrow> encoder \<Rightarrow> encoder" where
  "encode_hashed_output out enc = encode_varbytes (script_pubkey out) (encode_i64 (out_value out) enc)"

subsection \<open>Legacy\<close>

definition base_type_of :: "u32 \<Rightarrow> u8" where
  "base_type_of hash_type = ucast (hash_type AND 0x1f)"

definition anyone_can_pay_of :: "u32 \<Rightarrow> bool" where
  "anyone_can_pay_of hash_type \<longleftrightarrow> (ucast hash_type :: u8) AND SIGHASH_ANYONECANPAY \<noteq> 0"

definition encode_signed_input :: "transaction \<Rightarrow> nat \<Rightarrow> bytes \<Rightarrow> u8 \<Rightarrow> nat \<Rightarrow> encoder \<Rightarrow> encoder" where
  "encode_signed_input tx input_index script_code base_type i enc =
     (let inp = inputs tx ! i;
          seq = (if i \<noteq> input_index \<and> (base_type = SIGHASH_NONE \<or> base_type = SIGHASH_SINGLE) then 0
                 else sequence inp)
      in encode_u32 seq
          (encode_varbytes (if i = input_index then script_code else [])
            (encode_outpoint (previous_output inp) enc)))"

definition encode_signed_outputs :: "transaction \<Rightarrow> nat \<Rightarrow> u8 \<Rightarrow> encoder \<Rightarrow> encoder" where
  "encode_signed_outputs tx input_index base_type enc =
     (if base_type = SIGHASH_NONE then encode_varint 0 enc
      else if base_type = SIGHASH_SINGLE then
        fold (\<lambda>i enc. if i < input_index then encode_varbytes [] (encode_i64 (- 1) enc)
                      else encode_hashed_output (outputs tx ! i) enc)
          [0..<Suc input_index] (encode_varint (word_of_nat (input_index + 1)) enc)
      else fold encode_hashed_output (outputs tx) (encode_varint (word_of_nat (length (outputs tx))) enc))"

definition legacy_preimage :: "transaction \<Rightarrow> nat \<Rightarrow> bytes \<Rightarrow> u32 \<Rightarrow> bytes" where
  "legacy_preimage tx input_index script_code hash_type =
     (let base_type = base_type_of hash_type;
          signed_inputs = (if anyone_can_pay_of hash_type then [input_index] else [0..<length (inputs tx)]);
          enc = encode_u32 (tx_version tx) [];
          enc = encode_varint (word_of_nat (length signed_inputs)) enc;
          enc = fold (encode_signed_input tx input_index script_code base_type) signed_inputs enc;
          enc = encode_signed_outputs tx input_index base_type enc
      in encode_u32 hash_type (encode_u32 (lock_time tx) enc))"

definition legacy_signature_hash :: "digests \<Rightarrow> transaction \<Rightarrow> nat \<Rightarrow> bytes \<Rightarrow> u32 \<Rightarrow> bytes" where
  "legacy_signature_hash H tx input_index script_code hash_type =
     (if input_index \<ge> length (inputs tx) then SIGHASH_SINGLE_BUG
      else if base_type_of hash_type = SIGHASH_SINGLE \<and> input_index \<ge> length (outputs tx) then SIGHASH_SINGLE_BUG
      else hash256 H (legacy_preimage tx input_index script_code hash_type))"

subsection \<open>BIP 143\<close>

record bip143_cache =
  hash_prevouts :: bytes
  hash_sequence :: bytes
  hash_outputs :: bytes

definition bip143_cache_new :: "digests \<Rightarrow> transaction \<Rightarrow> bip143_cache" where
  "bip143_cache_new H tx =
     \<lparr>hash_prevouts = hash256 H (fold (\<lambda>i. encode_outpoint (previous_output i)) (inputs tx) []),
      hash_sequence = hash256 H (fold (\<lambda>i. encode_u32 (sequence i)) (inputs tx) []),
      hash_outputs = hash256 H (fold encode_hashed_output (outputs tx) [])\<rparr>"

text \<open>\<open>tx.inputs[input_index]\<close> panics out of range: \<open>None\<close>.  The amount is the \<^verbatim>\<open>i64\<close> of the call.\<close>

definition witness_v0_preimage ::
  "digests \<Rightarrow> transaction \<Rightarrow> nat \<Rightarrow> bytes \<Rightarrow> i64 \<Rightarrow> u32 \<Rightarrow> bip143_cache \<Rightarrow> bytes" where
  "witness_v0_preimage H tx input_index script_code amount_sat hash_type cache =
     (let base_type = base_type_of hash_type;
          acp = anyone_can_pay_of hash_type;
          zero = replicate 32 0;
          hprev = (if acp then zero else hash_prevouts cache);
          hseq = (if acp \<or> base_type = SIGHASH_SINGLE \<or> base_type = SIGHASH_NONE then zero else hash_sequence cache);
          hout = (if base_type \<noteq> SIGHASH_SINGLE \<and> base_type \<noteq> SIGHASH_NONE then hash_outputs cache
                  else if base_type = SIGHASH_SINGLE \<and> input_index < length (outputs tx)
                    then hash256 H (encode_hashed_output (outputs tx ! input_index) [])
                  else zero);
          inp = inputs tx ! input_index
      in encode_u32 hash_type (encode_u32 (lock_time tx) (encode_array hout (encode_u32 (sequence inp)
          (encode_i64 amount_sat (encode_varbytes script_code (encode_outpoint (previous_output inp)
          (encode_array hseq (encode_array hprev (encode_u32 (tx_version tx) []))))))))))"

definition witness_v0_signature_hash ::
  "digests \<Rightarrow> transaction \<Rightarrow> nat \<Rightarrow> bytes \<Rightarrow> i64 \<Rightarrow> u32 \<Rightarrow> bip143_cache \<Rightarrow> bytes option" where
  "witness_v0_signature_hash H tx input_index script_code amount_sat hash_type cache =
     (if input_index < length (inputs tx)
      then Some (hash256 H (witness_v0_preimage H tx input_index script_code amount_sat hash_type cache)) else None)"

subsection \<open>BIP 341\<close>

record taproot_cache =
  sha_prevouts :: bytes
  sha_amounts :: bytes
  sha_scriptpubkeys :: bytes
  sha_sequences :: bytes
  sha_outputs :: bytes

definition taproot_cache_new :: "digests \<Rightarrow> transaction \<Rightarrow> tx_out list \<Rightarrow> taproot_cache" where
  "taproot_cache_new H tx spent_outputs =
     \<lparr>sha_prevouts = sha256 H (fold (\<lambda>i. encode_outpoint (previous_output i)) (inputs tx) []),
      sha_amounts = sha256 H (fold (\<lambda>out. encode_i64 (out_value out)) spent_outputs []),
      sha_scriptpubkeys = sha256 H (fold (\<lambda>out. encode_varbytes (script_pubkey out)) spent_outputs []),
      sha_sequences = sha256 H (fold (\<lambda>i. encode_u32 (sequence i)) (inputs tx) []),
      sha_outputs = sha256 H (fold encode_hashed_output (outputs tx) [])\<rparr>"

definition taproot_output_type :: "u8 \<Rightarrow> u8" where
  "taproot_output_type hash_type = (if hash_type = SIGHASH_DEFAULT then SIGHASH_ALL else hash_type AND 3)"

text \<open>The message up to and including the spend type.\<close>

definition taproot_msg_head :: "transaction \<Rightarrow> u8 \<Rightarrow> u8 \<Rightarrow> exec_data \<Rightarrow> taproot_cache \<Rightarrow> bytes" where
  "taproot_msg_head tx hash_type ext_flag ed cache =
     [0, hash_type] @ to_le 4 (tx_version tx) @ to_le 4 (lock_time tx) @
     (if hash_type AND SIGHASH_ANYONECANPAY \<noteq> SIGHASH_ANYONECANPAY
      then sha_prevouts cache @ sha_amounts cache @ sha_scriptpubkeys cache @ sha_sequences cache else []) @
     (if taproot_output_type hash_type = SIGHASH_ALL then sha_outputs cache else []) @
     [push_bit 1 ext_flag OR (if annex_hash ed \<noteq> None then 1 else 0)]"

text \<open>The input, annex and single output that follow.\<close>

definition taproot_msg_body :: "digests \<Rightarrow> transaction \<Rightarrow> nat \<Rightarrow> tx_out list \<Rightarrow> u8 \<Rightarrow> exec_data \<Rightarrow> bytes" where
  "taproot_msg_body H tx input_index spent_outputs hash_type ed =
     (if hash_type AND SIGHASH_ANYONECANPAY = SIGHASH_ANYONECANPAY then
        let inp = inputs tx ! input_index; spent = spent_outputs ! input_index
        in encode_outpoint (previous_output inp) [] @ to_le 8 (out_value spent) @
           encode_varbytes (script_pubkey spent) [] @ to_le 4 (sequence inp)
      else to_le 4 (word_of_nat input_index :: u32)) @
     (case annex_hash ed of Some h \<Rightarrow> h | None \<Rightarrow> []) @
     (if taproot_output_type hash_type = SIGHASH_SINGLE
      then sha256 H (encode_hashed_output (outputs tx ! input_index) []) else [])"

definition taproot_signature_hash ::
  "digests \<Rightarrow> transaction \<Rightarrow> nat \<Rightarrow> tx_out list \<Rightarrow> u8 \<Rightarrow> u8 \<Rightarrow> exec_data \<Rightarrow> taproot_cache \<Rightarrow> bytes option" where
  "taproot_signature_hash H tx input_index spent_outputs hash_type ext_flag ed cache =
     (if input_index \<ge> length (inputs tx) \<or> length spent_outputs \<noteq> length (inputs tx) then None
      else if taproot_output_type hash_type = SIGHASH_SINGLE \<and> input_index \<ge> length (outputs tx) then None
      else
        let msg = taproot_msg_head tx hash_type ext_flag ed cache @
                  taproot_msg_body H tx input_index spent_outputs hash_type ed
        in if ext_flag = 1 then
             (case tapleaf_hash ed of
                None \<Rightarrow> None
              | Some leaf \<Rightarrow> Some (tagged_hash H ''TapSighash'' (msg @ leaf @ [0] @ to_le 4 (codeseparator_pos ed))))
           else Some (tagged_hash H ''TapSighash'' msg))"

end
