(* ===== verification/Checker.thy ===== *)
theory Checker
  imports Sighash
begin

text \<open>
  Signature checking against a transaction, \<^verbatim>\<open>script/checker.rs\<close>.  The trait
  \<^verbatim>\<open>SignatureChecker\<close> is a record of its four methods; the transaction checker fills it
  in, with the curve operations of \<open>secp\<close> as parameters.
\<close>

datatype sig_version = Base | WitnessV0 | Taproot | Tapscript

definition LOCKTIME_THRESHOLD :: int where
  "LOCKTIME_THRESHOLD = 500000000"

definition SEQUENCE_FINAL :: u32 where
  "SEQUENCE_FINAL = 0xFFFFFFFF"

definition SEQUENCE_LOCKTIME_DISABLE_FLAG :: int where
  "SEQUENCE_LOCKTIME_DISABLE_FLAG = push_bit 31 1"

definition SEQUENCE_LOCKTIME_TYPE_FLAG :: int where
  "SEQUENCE_LOCKTIME_TYPE_FLAG = push_bit 22 1"

definition SEQUENCE_LOCKTIME_MASK :: int where
  "SEQUENCE_LOCKTIME_MASK = 0x0000FFFF"

record precomputed_transaction_data =
  ptd_bip143 :: bip143_cache
  ptd_taproot :: taproot_cache

definition precomputed_new :: "digests \<Rightarrow> transaction \<Rightarrow> tx_out list \<Rightarrow> precomputed_transaction_data" where
  "precomputed_new H tx spent_outputs =
     \<lparr>ptd_bip143 = bip143_cache_new H tx, ptd_taproot = taproot_cache_new H tx spent_outputs\<rparr>"

record signature_checker =
  check_ecdsa_signature :: "bytes \<Rightarrow> bytes \<Rightarrow> bytes \<Rightarrow> sig_version \<Rightarrow> bool"
  check_schnorr_signature :: "bytes \<Rightarrow> bytes \<Rightarrow> sig_version \<Rightarrow> exec_data \<Rightarrow> unit script_result"
  check_lock_time :: "int \<Rightarrow> bool"
  check_sequence :: "int \<Rightarrow> bool"

text \<open>The trait's default methods with an ECDSA check that always fails.\<close>

definition null_signature_checker :: signature_checker where
  "null_signature_checker =
     \<lparr>check_ecdsa_signature = (\<lambda>_ _ _ _. False), check_schnorr_signature = (\<lambda>_ _ _ _. Inl SchnorrSig),
      check_lock_time = (\<lambda>_. False), check_sequence = (\<lambda>_. False)\<rparr>"

subsection \<open>The transaction checker\<close>

record tx_checker =
  tc_tx :: transaction
  tc_input_index :: nat
  tc_spent_outputs :: "tx_out list"
  tc_cache :: precomputed_transaction_data

definition tx_checker_new :: "digests \<Rightarrow> transaction \<Rightarrow> nat \<Rightarrow> tx_out list \<Rightarrow> tx_checker" where
  "tx_checker_new H tx input_index spent_outputs =
     \<lparr>tc_tx = tx, tc_input_index = input_index, tc_spent_outputs = spent_outputs,
      tc_cache = precomputed_new H tx spent_outputs\<rparr>"

definition with_cache :: "tx_checker \<Rightarrow> precomputed_transaction_data \<Rightarrow> tx_checker" where
  "with_cache tc cache = tc\<lparr>tc_cache := cache\<rparr>"

definition tc_amount :: "tx_checker \<Rightarrow> i64" where
  "tc_amount tc =
     (if tc_input_index tc < length (tc_spent_outputs tc)
      then out_value (tc_spent_outputs tc ! tc_input_index tc) else 0)"

text \<open>
  The digest of an ECDSA check; \<open>None\<close> for the taproot versions, where the method returns false.
  The index of the checker is one of the transaction, so the BIP 143 branch never panics.
\<close>

definition tc_ecdsa_digest :: "digests \<Rightarrow> tx_checker \<Rightarrow> bytes \<Rightarrow> sig_version \<Rightarrow> u8 \<Rightarrow> bytes option" where
  "tc_ecdsa_digest H tc script_code sv hash_type =
     (case sv of
        Base \<Rightarrow> Some (legacy_signature_hash H (tc_tx tc) (tc_input_index tc) script_code (ucast hash_type))
      | WitnessV0 \<Rightarrow> witness_v0_signature_hash H (tc_tx tc) (tc_input_index tc) script_code (tc_amount tc)
                       (ucast hash_type) (ptd_bip143 (tc_cache tc))
      | Taproot \<Rightarrow> None
      | Tapscript \<Rightarrow> None)"

definition tc_check_ecdsa :: "digests \<Rightarrow> secp \<Rightarrow> tx_checker \<Rightarrow> bytes \<Rightarrow> bytes \<Rightarrow> bytes \<Rightarrow> sig_version \<Rightarrow> bool" where
  "tc_check_ecdsa H ec tc sig pubkey script_code sv \<longleftrightarrow>
     (if sig = [] then False
      else
        let hash_type = last sig; sig_der = butlast sig
        in if sig_der = [] then False
           else if \<not> pubkey_from_slice_ok ec pubkey then False
           else if \<not> signature_from_der_lax_ok ec sig_der then False
           else
             (case tc_ecdsa_digest H tc script_code sv hash_type of
                None \<Rightarrow> False
              | Some digest \<Rightarrow> verify_ecdsa ec digest sig_der pubkey))"

definition tc_check_schnorr ::
  "digests \<Rightarrow> secp \<Rightarrow> tx_checker \<Rightarrow> bytes \<Rightarrow> bytes \<Rightarrow> sig_version \<Rightarrow> exec_data \<Rightarrow> unit script_result" where
  "tc_check_schnorr H ec tc sig pubkey sv ed =
     and_then
       (if length sig = 64 then Inr (sig, SIGHASH_DEFAULT)
        else if length sig = 65 then
          (if sig ! 64 = SIGHASH_DEFAULT then Inl SchnorrSigHashType else Inr (take 64 sig, sig ! 64))
        else Inl SchnorrSigSize) (\<lambda>(signature_bytes, hash_type).
     and_then
       (case sv of Taproot \<Rightarrow> Inr 0 | Tapscript \<Rightarrow> Inr 1 | _ \<Rightarrow> Inl SchnorrSig) (\<lambda>ext_flag.
     if \<not> xonly_from_slice_ok ec pubkey then Inl SchnorrSigPubkey
     else if \<not> schnorr_from_slice_ok ec signature_bytes then Inl SchnorrSig
     else
       (case taproot_signature_hash H (tc_tx tc) (tc_input_index tc) (tc_spent_outputs tc) hash_type ext_flag ed
               (ptd_taproot (tc_cache tc)) of
          None \<Rightarrow> Inl SchnorrSigHashType
        | Some digest \<Rightarrow> if verify_schnorr ec signature_bytes digest pubkey then Inr () else Inl SchnorrSig)))"

text \<open>
  \<open>check_lock_time\<close> and \<open>check_sequence\<close> index \<^verbatim>\<open>tx.inputs\<close>; a checker is only built for an input
  of its transaction.
\<close>

definition tc_check_lock_time :: "tx_checker \<Rightarrow> int \<Rightarrow> bool" where
  "tc_check_lock_time tc stack_value \<longleftrightarrow>
     (let tx_lock_time = uint (lock_time (tc_tx tc));
          same_kind = (tx_lock_time < LOCKTIME_THRESHOLD \<and> stack_value < LOCKTIME_THRESHOLD)
                    \<or> (tx_lock_time \<ge> LOCKTIME_THRESHOLD \<and> stack_value \<ge> LOCKTIME_THRESHOLD)
      in if \<not> same_kind then False
         else if stack_value > tx_lock_time then False
         else if sequence (inputs (tc_tx tc) ! tc_input_index tc) = SEQUENCE_FINAL then False
         else True)"

definition tc_check_sequence :: "tx_checker \<Rightarrow> int \<Rightarrow> bool" where
  "tc_check_sequence tc stack_value \<longleftrightarrow>
     (let tx_sequence = uint (sequence (inputs (tc_tx tc) ! tc_input_index tc))
      in if tx_version (tc_tx tc) < 2 then False
         else if tx_sequence AND SEQUENCE_LOCKTIME_DISABLE_FLAG \<noteq> 0 then False
         else
           let mask = SEQUENCE_LOCKTIME_TYPE_FLAG OR SEQUENCE_LOCKTIME_MASK;
               tx_masked = tx_sequence AND mask;
               stack_masked = stack_value AND mask;
               same_kind = (tx_masked < SEQUENCE_LOCKTIME_TYPE_FLAG \<and> stack_masked < SEQUENCE_LOCKTIME_TYPE_FLAG)
                         \<or> (tx_masked \<ge> SEQUENCE_LOCKTIME_TYPE_FLAG \<and> stack_masked \<ge> SEQUENCE_LOCKTIME_TYPE_FLAG)
           in if \<not> same_kind then False else stack_masked \<le> tx_masked)"

definition transaction_signature_checker :: "digests \<Rightarrow> secp \<Rightarrow> tx_checker \<Rightarrow> signature_checker" where
  "transaction_signature_checker H ec tc =
     \<lparr>check_ecdsa_signature = tc_check_ecdsa H ec tc, check_schnorr_signature = tc_check_schnorr H ec tc,
      check_lock_time = tc_check_lock_time tc, check_sequence = tc_check_sequence tc\<rparr>"

end
