(* ===== verification/Interpreter.thy ===== *)
theory Interpreter
  imports Checker
begin

text \<open>
  The script interpreter, \<^verbatim>\<open>script/interpreter.rs\<close>.  A stack is a \<^verbatim>\<open>Vec\<close> of byte strings with
  its top at the end.  The local variables of \<^verbatim>\<open>eval_script_with_data\<close> are the record
  \<open>eval_state\<close>, its arguments the record \<open>eval_env\<close>; every opcode group is one definition on
  the part of the state it touches, and the loop body \<open>eval_step\<close> composes them with the checks
  in the order of the code.
\<close>

type_synonym stack = "bytes list"

abbreviation OP_CHECKSIGADD :: u8 where
  "OP_CHECKSIGADD \<equiv> 0xba"

definition MAX_SCRIPT_SIZE :: nat where
  "MAX_SCRIPT_SIZE = 10000"

definition MAX_OPS_PER_SCRIPT :: nat where
  "MAX_OPS_PER_SCRIPT = 201"

definition MAX_SCRIPT_ELEMENT_SIZE :: nat where
  "MAX_SCRIPT_ELEMENT_SIZE = 520"

definition MAX_STACK_SIZE :: nat where
  "MAX_STACK_SIZE = 1000"

definition MAX_PUBKEYS_PER_MULTISIG :: int where
  "MAX_PUBKEYS_PER_MULTISIG = 20"

definition WITNESS_V0_SCRIPTHASH_SIZE :: nat where
  "WITNESS_V0_SCRIPTHASH_SIZE = 32"

definition WITNESS_V0_KEYHASH_SIZE :: nat where
  "WITNESS_V0_KEYHASH_SIZE = 20"

record eval_env =
  env_H :: digests
  env_script :: bytes
  env_flags :: verify_flags
  env_checker :: signature_checker
  env_sv :: sig_version

record eval_state =
  es_stack :: stack
  es_alt :: stack
  es_cond :: "bool list"
  es_op_count :: nat
  es_codesep :: nat
  es_exec :: exec_data

definition require_minimal :: "eval_env \<Rightarrow> bool" where
  "require_minimal env \<longleftrightarrow> contains (env_flags env) FLAG_MINIMALDATA"

definition legacy_limits :: "eval_env \<Rightarrow> bool" where
  "legacy_limits env \<longleftrightarrow> env_sv env = Base \<or> env_sv env = WitnessV0"

subsection \<open>Stack helpers\<close>

definition pop :: "stack \<Rightarrow> (bytes \<times> stack) script_result" where
  "pop stack = ok_or InvalidStackOperation (vec_pop stack)"

definition require_depth :: "stack \<Rightarrow> nat \<Rightarrow> unit script_result" where
  "require_depth stack depth = (if length stack < depth then Inl InvalidStackOperation else Inr ())"

definition stack_top :: "stack \<Rightarrow> nat \<Rightarrow> bytes script_result" where
  "stack_top stack depth =
     (if length stack < depth then Inl InvalidStackOperation else Inr (stack ! (length stack - depth)))"

definition pop_num :: "bool \<Rightarrow> stack \<Rightarrow> (int \<times> stack) script_result" where
  "pop_num minimal stack =
     and_then (pop stack) (\<lambda>(top, stack).
     and_then (num_decode top minimal DEFAULT_MAX_NUM_SIZE) (\<lambda>n. Inr (n, stack)))"

definition bool_item :: "bool \<Rightarrow> bytes" where
  "bool_item b = (if b then [1] else [])"

subsection \<open>Lock times and conditionals\<close>

definition op_checklocktimeverify :: "eval_env \<Rightarrow> stack \<Rightarrow> unit script_result" where
  "op_checklocktimeverify env stack =
     and_then (stack_top stack 1) (\<lambda>top.
     and_then (num_decode top (require_minimal env) 5) (\<lambda>lock_time.
     if lock_time < 0 then Inl NegativeLocktime
     else if \<not> check_lock_time (env_checker env) lock_time then Inl UnsatisfiedLocktime
     else Inr ()))"

definition op_checksequenceverify :: "eval_env \<Rightarrow> stack \<Rightarrow> unit script_result" where
  "op_checksequenceverify env stack =
     and_then (stack_top stack 1) (\<lambda>top.
     and_then (num_decode top (require_minimal env) 5) (\<lambda>seq.
     if seq < 0 then Inl NegativeLocktime
     else if seq AND SEQUENCE_LOCKTIME_DISABLE_FLAG = 0 \<and> \<not> check_sequence (env_checker env) seq
       then Inl UnsatisfiedLocktime
     else Inr ()))"

text \<open>
  \<^verbatim>\<open>OP_IF\<close> and \<^verbatim>\<open>OP_NOTIF\<close>: the argument is popped only when the branch is executing; the
  condition is pushed in either case.
\<close>

definition op_if :: "eval_env \<Rightarrow> opcode \<Rightarrow> bool \<Rightarrow> eval_state \<Rightarrow> eval_state script_result" where
  "op_if env op executing st =
     (if \<not> executing then Inr (st\<lparr>es_cond := es_cond st @ [False]\<rparr>)
      else
        and_then (pop (es_stack st)) (\<lambda>(top, stack).
        let non_minimal = length top > 1 \<or> (length top = 1 \<and> top ! 0 \<noteq> 1)
        in if env_sv env = Tapscript \<and> non_minimal then Inl TapscriptMinimalIf
           else if env_sv env = WitnessV0 \<and> contains (env_flags env) FLAG_MINIMALIF \<and> non_minimal then Inl MinimalIf
           else
             let v = (if op = OP_NOTIF then \<not> cast_to_bool top else cast_to_bool top)
             in Inr (st\<lparr>es_stack := stack, es_cond := es_cond st @ [v]\<rparr>)))"

definition op_else :: "eval_state \<Rightarrow> eval_state script_result" where
  "op_else st =
     (if es_cond st = [] then Inl UnbalancedConditional
      else Inr (st\<lparr>es_cond := butlast (es_cond st) @ [\<not> last (es_cond st)]\<rparr>))"

definition op_endif :: "eval_state \<Rightarrow> eval_state script_result" where
  "op_endif st =
     (if es_cond st = [] then Inl UnbalancedConditional else Inr (st\<lparr>es_cond := butlast (es_cond st)\<rparr>))"

definition op_verify :: "stack \<Rightarrow> stack script_result" where
  "op_verify stack =
     and_then (pop stack) (\<lambda>(top, stack). if \<not> cast_to_bool top then Inl Verify else Inr stack)"

definition op_toaltstack :: "eval_state \<Rightarrow> eval_state script_result" where
  "op_toaltstack st =
     and_then (pop (es_stack st)) (\<lambda>(top, stack).
     Inr (st\<lparr>es_stack := stack, es_alt := es_alt st @ [top]\<rparr>))"

definition op_fromaltstack :: "eval_state \<Rightarrow> eval_state script_result" where
  "op_fromaltstack st =
     and_then (ok_or InvalidAltstackOperation (vec_pop (es_alt st))) (\<lambda>(top, alt).
     Inr (st\<lparr>es_stack := es_stack st @ [top], es_alt := alt\<rparr>))"

subsection \<open>Stack manipulation\<close>

text \<open>\<^verbatim>\<open>stack[stack.len() - n]\<close>, reached only when the depth was checked.\<close>

abbreviation from_top :: "stack \<Rightarrow> nat \<Rightarrow> bytes" where
  "from_top stack n \<equiv> stack ! (length stack - n)"

definition op_pick_roll :: "bool \<Rightarrow> opcode \<Rightarrow> stack \<Rightarrow> stack script_result" where
  "op_pick_roll minimal op stack =
     and_then (require_depth stack 2) (\<lambda>_.
     and_then (pop_num minimal stack) (\<lambda>(n, stack).
     if n < 0 \<or> n \<ge> int (length stack) then Inl InvalidStackOperation
     else
       let index = length stack - 1 - nat n
       in if op = OP_ROLL
          then (let (item, stack) = vec_remove stack index in Inr (stack @ [item]))
          else Inr (stack @ [stack ! index])))"

definition is_stack_op :: "opcode \<Rightarrow> bool" where
  "is_stack_op op \<longleftrightarrow> op \<in> {OP_2DROP, OP_2DUP, OP_3DUP, OP_2OVER, OP_2ROT, OP_2SWAP, OP_IFDUP, OP_DEPTH,
     OP_DROP, OP_DUP, OP_NIP, OP_OVER, OP_PICK, OP_ROLL, OP_ROT, OP_SWAP, OP_TUCK, OP_SIZE}"

definition exec_stack_op :: "bool \<Rightarrow> opcode \<Rightarrow> stack \<Rightarrow> stack script_result" where
  "exec_stack_op minimal op stack =
     (if op = OP_2DROP then
        and_then (require_depth stack 2) (\<lambda>_. Inr (butlast (butlast stack)))
      else if op = OP_2DUP then
        and_then (require_depth stack 2) (\<lambda>_. Inr (stack @ [from_top stack 2, from_top stack 1]))
      else if op = OP_3DUP then
        and_then (require_depth stack 3) (\<lambda>_. Inr (stack @ [from_top stack 3, from_top stack 2, from_top stack 1]))
      else if op = OP_2OVER then
        and_then (require_depth stack 4) (\<lambda>_. Inr (stack @ [from_top stack 4, from_top stack 3]))
      else if op = OP_2ROT then
        and_then (require_depth stack 6) (\<lambda>_.
          let len = length stack;
              (a, s1) = vec_remove stack (len - 6);
              (b, s2) = vec_remove s1 (len - 6)
          in Inr (s2 @ [a, b]))
      else if op = OP_2SWAP then
        and_then (require_depth stack 4) (\<lambda>_.
          let len = length stack
          in Inr (vec_swap (vec_swap stack (len - 4) (len - 2)) (len - 3) (len - 1)))
      else if op = OP_IFDUP then
        and_then (stack_top stack 1) (\<lambda>top. Inr (if cast_to_bool top then stack @ [top] else stack))
      else if op = OP_DEPTH then Inr (stack @ [num_encode (int (length stack))])
      else if op = OP_DROP then and_then (pop stack) (\<lambda>(_, stack). Inr stack)
      else if op = OP_DUP then and_then (stack_top stack 1) (\<lambda>top. Inr (stack @ [top]))
      else if op = OP_NIP then
        and_then (require_depth stack 2) (\<lambda>_. Inr (snd (vec_remove stack (length stack - 2))))
      else if op = OP_OVER then and_then (stack_top stack 2) (\<lambda>item. Inr (stack @ [item]))
      else if op = OP_PICK \<or> op = OP_ROLL then op_pick_roll minimal op stack
      else if op = OP_ROT then
        and_then (require_depth stack 3) (\<lambda>_.
          let len = length stack
          in Inr (vec_swap (vec_swap stack (len - 3) (len - 2)) (len - 2) (len - 1)))
      else if op = OP_SWAP then
        and_then (require_depth stack 2) (\<lambda>_. Inr (vec_swap stack (length stack - 2) (length stack - 1)))
      else if op = OP_TUCK then
        and_then (require_depth stack 2) (\<lambda>_. Inr (vec_insert stack (length stack - 2) (from_top stack 1)))
      else if op = OP_SIZE then
        and_then (stack_top stack 1) (\<lambda>top. Inr (stack @ [num_encode (int (length top))]))
      else Inl BadOpcode)"

subsection \<open>Logic, arithmetic and hashing\<close>

definition op_equal :: "opcode \<Rightarrow> stack \<Rightarrow> stack script_result" where
  "op_equal op stack =
     and_then (require_depth stack 2) (\<lambda>_.
     and_then (pop stack) (\<lambda>(b, stack).
     and_then (pop stack) (\<lambda>(a, stack).
     if op = OP_EQUALVERIFY then (if a \<noteq> b then Inl EqualVerify else Inr stack)
     else Inr (stack @ [bool_item (a = b)]))))"

definition is_unary_num :: "opcode \<Rightarrow> bool" where
  "is_unary_num op \<longleftrightarrow> op \<in> {OP_1ADD, OP_1SUB, OP_NEGATE, OP_ABS, OP_NOT, OP_0NOTEQUAL}"

definition unary_result :: "opcode \<Rightarrow> int \<Rightarrow> int" where
  "unary_result op v =
     (if op = OP_1ADD then v + 1 else if op = OP_1SUB then v - 1 else if op = OP_NEGATE then - v
      else if op = OP_ABS then \<bar>v\<bar> else if op = OP_NOT then of_bool (v = 0) else of_bool (v \<noteq> 0))"

definition op_unary :: "bool \<Rightarrow> opcode \<Rightarrow> stack \<Rightarrow> stack script_result" where
  "op_unary minimal op stack =
     and_then (pop_num minimal stack) (\<lambda>(v, stack). Inr (stack @ [num_encode (unary_result op v)]))"

definition is_binary_num :: "opcode \<Rightarrow> bool" where
  "is_binary_num op \<longleftrightarrow> op \<in> {OP_ADD, OP_SUB, OP_BOOLAND, OP_BOOLOR, OP_NUMEQUAL, OP_NUMEQUALVERIFY, OP_NUMNOTEQUAL,
     OP_LESSTHAN, OP_GREATERTHAN, OP_LESSTHANOREQUAL, OP_GREATERTHANOREQUAL, OP_MIN, OP_MAX}"

definition binary_result :: "opcode \<Rightarrow> int \<Rightarrow> int \<Rightarrow> int" where
  "binary_result op a b =
     (if op = OP_ADD then a + b else if op = OP_SUB then a - b
      else if op = OP_BOOLAND then of_bool (a \<noteq> 0 \<and> b \<noteq> 0)
      else if op = OP_BOOLOR then of_bool (a \<noteq> 0 \<or> b \<noteq> 0)
      else if op = OP_NUMEQUAL \<or> op = OP_NUMEQUALVERIFY then of_bool (a = b)
      else if op = OP_NUMNOTEQUAL then of_bool (a \<noteq> b)
      else if op = OP_LESSTHAN then of_bool (a < b)
      else if op = OP_GREATERTHAN then of_bool (a > b)
      else if op = OP_LESSTHANOREQUAL then of_bool (a \<le> b)
      else if op = OP_GREATERTHANOREQUAL then of_bool (a \<ge> b)
      else if op = OP_MIN then min a b else max a b)"

definition op_binary :: "bool \<Rightarrow> opcode \<Rightarrow> stack \<Rightarrow> stack script_result" where
  "op_binary minimal op stack =
     and_then (require_depth stack 2) (\<lambda>_.
     and_then (pop_num minimal stack) (\<lambda>(b, stack).
     and_then (pop_num minimal stack) (\<lambda>(a, stack).
     let result = binary_result op a b
     in if op = OP_NUMEQUALVERIFY then (if result = 0 then Inl NumEqualVerify else Inr stack)
        else Inr (stack @ [num_encode result]))))"

definition op_within :: "bool \<Rightarrow> stack \<Rightarrow> stack script_result" where
  "op_within minimal stack =
     and_then (require_depth stack 3) (\<lambda>_.
     and_then (pop_num minimal stack) (\<lambda>(hi, stack).
     and_then (pop_num minimal stack) (\<lambda>(lo, stack).
     and_then (pop_num minimal stack) (\<lambda>(v, stack).
     Inr (stack @ [bool_item (lo \<le> v \<and> v < hi)])))))"

definition is_hash_op :: "opcode \<Rightarrow> bool" where
  "is_hash_op op \<longleftrightarrow> op \<in> {OP_RIPEMD160, OP_SHA1, OP_SHA256, OP_HASH160, OP_HASH256}"

definition hash_result :: "digests \<Rightarrow> opcode \<Rightarrow> bytes \<Rightarrow> bytes" where
  "hash_result H op d =
     (if op = OP_RIPEMD160 then ripemd160 H d else if op = OP_SHA1 then sha1 H d
      else if op = OP_SHA256 then sha256 H d else if op = OP_HASH160 then hash160 H d else hash256 H d)"

definition op_hash :: "digests \<Rightarrow> opcode \<Rightarrow> stack \<Rightarrow> stack script_result" where
  "op_hash H op stack = and_then (pop stack) (\<lambda>(d, stack). Inr (stack @ [hash_result H op d]))"

subsection \<open>Signature checks\<close>

definition build_script_code ::
  "bytes \<Rightarrow> nat \<Rightarrow> bytes \<Rightarrow> sig_version \<Rightarrow> verify_flags \<Rightarrow> bytes script_result" where
  "build_script_code script last_codeseparator sig sv flags =
     (let script_code = drop last_codeseparator script
      in if sv = Base then
           let (cleaned, found) = find_and_delete script_code (push_data [] sig)
           in if found > 0 \<and> contains flags FLAG_CONST_SCRIPTCODE then Inl SigFindAndDelete
              else if contains flags FLAG_CONST_SCRIPTCODE \<and> contains_codeseparator script then Inl OpCodeseparator
              else Inr cleaned
         else Inr script_code)"

definition eval_checksig_tapscript ::
  "bytes \<Rightarrow> bytes \<Rightarrow> verify_flags \<Rightarrow> signature_checker \<Rightarrow> exec_data \<Rightarrow> (bool \<times> exec_data) script_result" where
  "eval_checksig_tapscript sig pubkey flags checker ed =
     (let success = sig \<noteq> [];
          ed = (if success
                then ed\<lparr>validation_weight_left := validation_weight_left ed - VALIDATION_WEIGHT_PER_SIGOP_PASSED\<rparr>
                else ed)
      in if success \<and> validation_weight_left ed < 0 then Inl TapscriptValidationWeight
         else if pubkey = [] then Inl PubkeyType
         else if length pubkey = 32 then
           (if success
            then and_then (check_schnorr_signature checker sig pubkey Tapscript ed) (\<lambda>_. Inr (success, ed))
            else Inr (success, ed))
         else if contains flags FLAG_DISCOURAGE_UPGRADABLE_PUBKEYTYPE then Inl DiscourageUpgradablePubkeyType
         else Inr (success, ed))"

text \<open>The ECDSA branch of \<^verbatim>\<open>OP_CHECKSIG\<close>.\<close>

definition eval_checksig_ecdsa :: "eval_env \<Rightarrow> nat \<Rightarrow> bytes \<Rightarrow> bytes \<Rightarrow> bool script_result" where
  "eval_checksig_ecdsa env codesep sig pubkey =
     and_then (build_script_code (env_script env) codesep sig (env_sv env) (env_flags env)) (\<lambda>script_code.
     and_then (check_signature_encoding sig (env_flags env)) (\<lambda>_.
     and_then (check_pubkey_encoding pubkey (env_flags env) (env_sv env = WitnessV0)) (\<lambda>_.
     let ok = sig \<noteq> [] \<and> check_ecdsa_signature (env_checker env) sig pubkey script_code (env_sv env)
     in if \<not> ok \<and> contains (env_flags env) FLAG_NULLFAIL \<and> sig \<noteq> [] then Inl SigNullFail else Inr ok)))"

definition op_checksig :: "eval_env \<Rightarrow> opcode \<Rightarrow> eval_state \<Rightarrow> eval_state script_result" where
  "op_checksig env op st =
     and_then (require_depth (es_stack st) 2) (\<lambda>_.
     and_then (pop (es_stack st)) (\<lambda>(pubkey, stack).
     and_then (pop stack) (\<lambda>(sig, stack).
     and_then
       (if env_sv env = Tapscript
        then eval_checksig_tapscript sig pubkey (env_flags env) (env_checker env) (es_exec st)
        else and_then (eval_checksig_ecdsa env (es_codesep st) sig pubkey) (\<lambda>ok. Inr (ok, es_exec st)))
       (\<lambda>(success, ed).
     if op = OP_CHECKSIGVERIFY
     then (if \<not> success then Inl CheckSigVerify else Inr (st\<lparr>es_stack := stack, es_exec := ed\<rparr>))
     else Inr (st\<lparr>es_stack := stack @ [bool_item success], es_exec := ed\<rparr>)))))"

definition op_checksigadd :: "eval_env \<Rightarrow> eval_state \<Rightarrow> eval_state script_result" where
  "op_checksigadd env st =
     (if env_sv env \<noteq> Tapscript then Inl BadOpcode
      else
        and_then (require_depth (es_stack st) 3) (\<lambda>_.
        and_then (pop (es_stack st)) (\<lambda>(pubkey, stack).
        and_then (pop_num (require_minimal env) stack) (\<lambda>(num, stack).
        and_then (pop stack) (\<lambda>(sig, stack).
        and_then (eval_checksig_tapscript sig pubkey (env_flags env) (env_checker env) (es_exec st))
          (\<lambda>(success, ed).
        Inr (st\<lparr>es_stack := stack @ [num_encode (num + of_bool success)], es_exec := ed\<rparr>)))))))"

text \<open>\<open>pop_n\<close> is the loop that pops the keys, or the signatures, before they are reversed.\<close>

primrec pop_n :: "nat \<Rightarrow> stack \<Rightarrow> (bytes list \<times> stack) script_result" where
  "pop_n 0 stack = Inr ([], stack)"
| "pop_n (Suc n) stack =
     and_then (pop stack) (\<lambda>(top, stack).
     and_then (pop_n n stack) (\<lambda>(items, stack). Inr (top # items, stack)))"

text \<open>
  The matching loop, on the signatures and keys still to be tried (\<^verbatim>\<open>sigs[sig_index..]\<close>,
  \<^verbatim>\<open>pubkeys[key_index..]\<close>); the second component are the unmatched signatures.  There are
  never more signatures than keys, so the second equation is not reached.
\<close>

fun multisig_loop :: "eval_env \<Rightarrow> nat \<Rightarrow> bytes list \<Rightarrow> bytes list \<Rightarrow> (bool \<times> bytes list) script_result" where
  "multisig_loop env codesep [] keys = Inr (True, [])"
| "multisig_loop env codesep (sig # sigs) [] = Inr (False, sig # sigs)"
| "multisig_loop env codesep (sig # sigs) (pubkey # keys) =
     and_then (check_signature_encoding sig (env_flags env)) (\<lambda>_.
     and_then (check_pubkey_encoding pubkey (env_flags env) (env_sv env = WitnessV0)) (\<lambda>_.
     and_then (build_script_code (env_script env) codesep sig (env_sv env) (env_flags env)) (\<lambda>script_code.
     let matched = sig \<noteq> [] \<and> check_ecdsa_signature (env_checker env) sig pubkey script_code (env_sv env);
         remaining = (if matched then sigs else sig # sigs)
     in if length remaining > length keys then Inr (False, remaining)
        else multisig_loop env codesep remaining keys)))"

definition eval_checkmultisig :: "eval_env \<Rightarrow> eval_state \<Rightarrow> (bool \<times> eval_state) script_result" where
  "eval_checkmultisig env st =
     and_then (pop_num (require_minimal env) (es_stack st)) (\<lambda>(key_count, stack).
     if \<not> (0 \<le> key_count \<and> key_count \<le> MAX_PUBKEYS_PER_MULTISIG) then Inl PubkeyCount
     else
       let op_count = es_op_count st + nat key_count
       in if op_count > MAX_OPS_PER_SCRIPT then Inl OpCount
          else
            and_then (require_depth stack (nat key_count)) (\<lambda>_.
            and_then (pop_n (nat key_count) stack) (\<lambda>(popped_keys, stack).
            and_then (pop_num (require_minimal env) stack) (\<lambda>(sig_count, stack).
            if sig_count < 0 \<or> sig_count > key_count then Inl SigCount
            else
              and_then (require_depth stack (nat sig_count)) (\<lambda>_.
              and_then (pop_n (nat sig_count) stack) (\<lambda>(popped_sigs, stack).
              and_then (pop stack) (\<lambda>(dummy, stack).
              if contains (env_flags env) FLAG_NULLDUMMY \<and> dummy \<noteq> [] then Inl SigNullDummy
              else
                and_then (multisig_loop env (es_codesep st) (rev popped_sigs) (rev popped_keys)) (\<lambda>(success, unmatched).
                if \<not> success \<and> contains (env_flags env) FLAG_NULLFAIL \<and> list_ex (\<lambda>sig. sig \<noteq> []) unmatched
                then Inl SigNullFail
                else Inr (success, st\<lparr>es_stack := stack, es_op_count := op_count\<rparr>)))))))))"

definition op_checkmultisig :: "eval_env \<Rightarrow> opcode \<Rightarrow> eval_state \<Rightarrow> eval_state script_result" where
  "op_checkmultisig env op st =
     (if env_sv env = Tapscript then Inl TapscriptCheckMultisig
      else
        and_then (eval_checkmultisig env st) (\<lambda>(success, st).
        if op = OP_CHECKMULTISIGVERIFY
        then (if \<not> success then Inl CheckMultisigVerify else Inr st)
        else Inr (st\<lparr>es_stack := es_stack st @ [bool_item success]\<rparr>)))"

subsection \<open>The loop\<close>

definition on_stack :: "(stack \<Rightarrow> stack script_result) \<Rightarrow> eval_state \<Rightarrow> eval_state script_result" where
  "on_stack f st = and_then (f (es_stack st)) (\<lambda>stack. Inr (st\<lparr>es_stack := stack\<rparr>))"

text \<open>An activated lock-time opcode that is not active yet is a NOP, and skips the size check.\<close>

definition inactive_nop :: "eval_env \<Rightarrow> opcode \<Rightarrow> bool" where
  "inactive_nop env op \<longleftrightarrow>
     op = OP_CHECKLOCKTIMEVERIFY \<and> \<not> contains (env_flags env) FLAG_CHECKLOCKTIMEVERIFY
     \<or> op = OP_CHECKSEQUENCEVERIFY \<and> \<not> contains (env_flags env) FLAG_CHECKSEQUENCEVERIFY"

text \<open>The \<^verbatim>\<open>match byte\<close>, for an opcode above \<^verbatim>\<open>OP_PUSHDATA4\<close>.\<close>

definition exec_op :: "eval_env \<Rightarrow> instruction \<Rightarrow> bool \<Rightarrow> eval_state \<Rightarrow> eval_state script_result" where
  "exec_op env ins executing st =
     (let op = ins_opcode ins; minimal = require_minimal env
      in if op = OP_1NEGATE \<or> (OP_1 \<le> op \<and> op \<le> OP_16) then
           and_then (ok_or BadOpcode (decode_op_n op)) (\<lambda>v. Inr (st\<lparr>es_stack := es_stack st @ [num_encode v]\<rparr>))
         else if op = OP_NOP then Inr st
         else if op = OP_CHECKLOCKTIMEVERIFY then and_then (op_checklocktimeverify env (es_stack st)) (\<lambda>_. Inr st)
         else if op = OP_CHECKSEQUENCEVERIFY then and_then (op_checksequenceverify env (es_stack st)) (\<lambda>_. Inr st)
         else if op = OP_NOP1 \<or> (OP_NOP4 \<le> op \<and> op \<le> OP_NOP10) then
           (if contains (env_flags env) FLAG_DISCOURAGE_UPGRADABLE_NOPS then Inl DiscourageUpgradableNops else Inr st)
         else if op = OP_IF \<or> op = OP_NOTIF then op_if env op executing st
         else if op = OP_ELSE then op_else st
         else if op = OP_ENDIF then op_endif st
         else if op = OP_VERIFY then on_stack op_verify st
         else if op = OP_RETURN then Inl OpReturn
         else if op = OP_TOALTSTACK then op_toaltstack st
         else if op = OP_FROMALTSTACK then op_fromaltstack st
         else if is_stack_op op then on_stack (exec_stack_op minimal op) st
         else if op = OP_EQUAL \<or> op = OP_EQUALVERIFY then on_stack (op_equal op) st
         else if is_unary_num op then on_stack (op_unary minimal op) st
         else if is_binary_num op then on_stack (op_binary minimal op) st
         else if op = OP_WITHIN then on_stack (op_within minimal) st
         else if is_hash_op op then on_stack (op_hash (env_H env) op) st
         else if op = OP_CODESEPARATOR then
           Inr (st\<lparr>es_codesep := ins_next ins,
                   es_exec := (es_exec st)\<lparr>codeseparator_pos := word_of_nat (ins_offset ins)\<rparr>\<rparr>)
         else if op = OP_CHECKSIG \<or> op = OP_CHECKSIGVERIFY then op_checksig env op st
         else if op = OP_CHECKSIGADD then op_checksigadd env st
         else if op = OP_CHECKMULTISIG \<or> op = OP_CHECKMULTISIGVERIFY then op_checkmultisig env op st
         else Inl BadOpcode)"

definition exec_instruction :: "eval_env \<Rightarrow> instruction \<Rightarrow> bool \<Rightarrow> eval_state \<Rightarrow> eval_state script_result" where
  "exec_instruction env ins executing st =
     (if ins_opcode ins \<le> OP_PUSHDATA4 then
        (if require_minimal env \<and> \<not> check_minimal_push (ins_data ins) (ins_opcode ins) then Inl MinimalData
         else Inr (st\<lparr>es_stack := es_stack st @ [ins_data ins]\<rparr>))
      else exec_op env ins executing st)"

definition is_executing :: "eval_state \<Rightarrow> bool" where
  "is_executing st \<longleftrightarrow> list_all (\<lambda>branch. branch) (es_cond st)"

definition check_stack_size :: "eval_state \<Rightarrow> eval_state script_result" where
  "check_stack_size st =
     (if length (es_stack st) + length (es_alt st) > MAX_STACK_SIZE then Inl StackSize else Inr st)"

definition count_op :: "eval_env \<Rightarrow> opcode \<Rightarrow> eval_state \<Rightarrow> eval_state script_result" where
  "count_op env op st =
     (if legacy_limits env \<and> counts_towards_op_limit op then
        let n = es_op_count st + 1
        in if n > MAX_OPS_PER_SCRIPT then Inl OpCount else Inr (st\<lparr>es_op_count := n\<rparr>)
      else Inr st)"

definition eval_step :: "eval_env \<Rightarrow> eval_state \<Rightarrow> instruction script_result \<Rightarrow> eval_state script_result" where
  "eval_step env st item =
     and_then item (\<lambda>ins.
     let op = ins_opcode ins; executing = is_executing st
     in if length (ins_data ins) > MAX_SCRIPT_ELEMENT_SIZE then Inl PushSize
        else
          and_then (count_op env op st) (\<lambda>st.
          if is_disabled op then Inl DisabledOpcode
          else if \<not> executing \<and> \<not> (OP_IF \<le> op \<and> op \<le> OP_ENDIF) then Inr st
          else if inactive_nop env op then
            (if contains (env_flags env) FLAG_DISCOURAGE_UPGRADABLE_NOPS then Inl DiscourageUpgradableNops else Inr st)
          else and_then (exec_instruction env ins executing st) check_stack_size))"

definition eval_script_with_data :: "eval_env \<Rightarrow> stack \<Rightarrow> exec_data \<Rightarrow> (stack \<times> exec_data) script_result" where
  "eval_script_with_data env stack ed =
     (if legacy_limits env \<and> length (env_script env) > MAX_SCRIPT_SIZE then Inl ScriptSize
      else
        and_then
          (fold_res (eval_step env)
             \<lparr>es_stack = stack, es_alt = [], es_cond = [], es_op_count = 0, es_codesep = 0, es_exec = ed\<rparr>
             (instructions (env_script env) 0)) (\<lambda>st.
        if es_cond st \<noteq> [] then Inl UnbalancedConditional else Inr (es_stack st, es_exec st)))"

definition eval_script ::
  "digests \<Rightarrow> stack \<Rightarrow> bytes \<Rightarrow> verify_flags \<Rightarrow> signature_checker \<Rightarrow> sig_version \<Rightarrow> stack script_result" where
  "eval_script H stack script flags checker sv =
     and_then
       (eval_script_with_data
          \<lparr>env_H = H, env_script = script, env_flags = flags, env_checker = checker, env_sv = sv\<rparr>
          stack exec_data_new) (\<lambda>(stack, _). Inr stack)"

end
