(* ===== verification/VerifyScript.thy ===== *)
theory VerifyScript
  imports Interpreter
begin

text \<open>
  Input verification, the second half of \<^verbatim>\<open>script/interpreter.rs\<close>: \<^verbatim>\<open>verify_script\<close> with P2SH and
  witness programs, \<^verbatim>\<open>verify_witness_program\<close> and \<^verbatim>\<open>execute_witness_script\<close>.
\<close>

definition serialized_witness_size :: "bytes list \<Rightarrow> nat" where
  "serialized_witness_size wit =
     fold (\<lambda>item total. total + (length (write_compact_size [] (word_of_nat (length item))) + length item)) wit
       (length (write_compact_size [] (word_of_nat (length wit))))"

text \<open>The scan for \<^verbatim>\<open>OP_SUCCESSx\<close>: an early parse error, an early success, or nothing found.\<close>

fun scan_op_success :: "verify_flags \<Rightarrow> instruction script_result list \<Rightarrow> bool script_result" where
  "scan_op_success flags [] = Inr False"
| "scan_op_success flags (item # items) =
     and_then item (\<lambda>ins.
     if is_op_success (ins_opcode ins)
     then (if contains flags FLAG_DISCOURAGE_OP_SUCCESS then Inl DiscourageOpSuccess else Inr True)
     else scan_op_success flags items)"

definition run_witness_script :: "eval_env \<Rightarrow> stack \<Rightarrow> exec_data \<Rightarrow> unit script_result" where
  "run_witness_script env stack ed =
     (if list_ex (\<lambda>element. length element > MAX_SCRIPT_ELEMENT_SIZE) stack then Inl PushSize
      else
        and_then (eval_script_with_data env stack ed) (\<lambda>(stack, _).
        if length stack \<noteq> 1 then Inl CleanStack
        else if \<not> cast_to_bool (stack ! 0) then Inl EvalFalse
        else Inr ()))"

definition execute_witness_script :: "eval_env \<Rightarrow> stack \<Rightarrow> exec_data \<Rightarrow> unit script_result" where
  "execute_witness_script env stack ed =
     (if env_sv env = Tapscript then
        and_then (scan_op_success (env_flags env) (instructions (env_script env) 0)) (\<lambda>found.
        if found then Inr ()
        else if length stack > MAX_STACK_SIZE then Inl StackSize
        else run_witness_script env stack ed)
      else run_witness_script env stack ed)"

definition p2wpkh_script :: "bytes \<Rightarrow> bytes" where
  "p2wpkh_script program = [OP_DUP, OP_HASH160, 0x14] @ program @ [OP_EQUALVERIFY, OP_CHECKSIG]"

definition verify_witness_v0 ::
  "digests \<Rightarrow> bytes list \<Rightarrow> bytes \<Rightarrow> verify_flags \<Rightarrow> signature_checker \<Rightarrow> unit script_result" where
  "verify_witness_v0 H wit program flags checker =
     and_then
       (if length program = WITNESS_V0_SCRIPTHASH_SIZE then
          (if wit = [] then Inl WitnessProgramWitnessEmpty
           else if sha256 H (last wit) \<noteq> program then Inl WitnessProgramMismatch
           else Inr (last wit, butlast wit))
        else if length program = WITNESS_V0_KEYHASH_SIZE then
          (if length wit \<noteq> 2 then Inl WitnessProgramMismatch else Inr (p2wpkh_script program, wit))
        else Inl WitnessProgramWrongLength) (\<lambda>(script, stack).
     execute_witness_script
       \<lparr>env_H = H, env_script = script, env_flags = flags, env_checker = checker, env_sv = WitnessV0\<rparr>
       stack exec_data_new)"

text \<open>The annex, when present, is taken off the stack and hashed.\<close>

definition split_annex :: "digests \<Rightarrow> stack \<Rightarrow> stack \<times> exec_data" where
  "split_annex H stack =
     (if length stack \<ge> 2 \<and> last stack \<noteq> [] \<and> hd (last stack) = ANNEX_TAG
      then (butlast stack,
            exec_data_new\<lparr>annex_hash :=
              Some (sha256 H (write_compact_size [] (word_of_nat (length (last stack))) @ last stack))\<rparr>)
      else (stack, exec_data_new))"

definition verify_taproot_script_path ::
  "digests \<Rightarrow> secp \<Rightarrow> bytes list \<Rightarrow> stack \<Rightarrow> exec_data \<Rightarrow> bytes \<Rightarrow> verify_flags \<Rightarrow> signature_checker \<Rightarrow> unit script_result" where
  "verify_taproot_script_path H ec wit stack ed program flags checker =
     (let control = last stack; stack = butlast stack; script = last stack; stack = butlast stack
      in case parse_control_block control of
           None \<Rightarrow> Inl TaprootWrongControlSize
         | Some control \<Rightarrow>
             let leaf = compute_tapleaf_hash H (leaf_version control) script
             in if \<not> verify_taproot_commitment H ec control program leaf then Inl WitnessProgramMismatch
                else
                  let ed = ed\<lparr>tapleaf_hash := Some leaf\<rparr>
                  in if leaf_version control AND TAPROOT_LEAF_MASK = TAPROOT_LEAF_TAPSCRIPT then
                       execute_witness_script
                         \<lparr>env_H = H, env_script = script, env_flags = flags, env_checker = checker, env_sv = Tapscript\<rparr>
                         stack
                         (ed\<lparr>validation_weight_left :=
                            int (serialized_witness_size wit) + VALIDATION_WEIGHT_OFFSET\<rparr>)
                     else if contains flags FLAG_DISCOURAGE_UPGRADABLE_TAPROOT_VERSION
                       then Inl DiscourageUpgradableTaprootVersion
                     else Inr ())"

definition verify_taproot ::
  "digests \<Rightarrow> secp \<Rightarrow> bytes list \<Rightarrow> bytes \<Rightarrow> verify_flags \<Rightarrow> signature_checker \<Rightarrow> unit script_result" where
  "verify_taproot H ec wit program flags checker =
     (if wit = [] then Inl WitnessProgramWitnessEmpty
      else
        let (stack, ed) = split_annex H wit
        in if length stack = 1 then check_schnorr_signature checker (stack ! 0) program Taproot ed
           else verify_taproot_script_path H ec wit stack ed program flags checker)"

definition verify_witness_program ::
  "digests \<Rightarrow> secp \<Rightarrow> bytes list \<Rightarrow> u8 \<Rightarrow> bytes \<Rightarrow> verify_flags \<Rightarrow> signature_checker \<Rightarrow> bool \<Rightarrow> unit script_result" where
  "verify_witness_program H ec wit version program flags checker is_p2sh =
     (if version = 0 then verify_witness_v0 H wit program flags checker
      else if version = 1 \<and> length program = WITNESS_V1_TAPROOT_SIZE \<and> \<not> is_p2sh \<and> contains flags FLAG_TAPROOT
        then verify_taproot H ec wit program flags checker
      else if contains flags FLAG_DISCOURAGE_UPGRADABLE_WITNESS_PROGRAM then Inl DiscourageUpgradableWitnessProgram
      else Inr ())"

text \<open>The stack must be left with a true value on top.\<close>

definition require_true_top :: "stack \<Rightarrow> unit script_result" where
  "require_true_top stack = (if stack = [] \<or> \<not> cast_to_bool (last stack) then Inl EvalFalse else Inr ())"

text \<open>The native witness part of \<open>verify_script\<close>: the new stack, and whether a witness was used.\<close>

definition verify_native_witness ::
  "digests \<Rightarrow> secp \<Rightarrow> bytes \<Rightarrow> bytes \<Rightarrow> bytes list \<Rightarrow> verify_flags \<Rightarrow> signature_checker \<Rightarrow> stack \<Rightarrow>
   (stack \<times> bool) script_result" where
  "verify_native_witness H ec ssig spk wit flags checker stack =
     (case (if contains flags FLAG_WITNESS then parse_witness_program spk else None) of
        None \<Rightarrow> Inr (stack, False)
      | Some wp \<Rightarrow>
          if ssig \<noteq> [] then Inl WitnessMalleated
          else and_then (verify_witness_program H ec wit (wp_version wp) (wp_program wp) flags checker False)
                 (\<lambda>_. Inr (take 1 stack, True)))"

definition verify_p2sh ::
  "digests \<Rightarrow> secp \<Rightarrow> bytes \<Rightarrow> bytes list \<Rightarrow> verify_flags \<Rightarrow> signature_checker \<Rightarrow> stack \<Rightarrow> bool \<Rightarrow>
   (stack \<times> bool) script_result" where
  "verify_p2sh H ec ssig wit flags checker stack_after_sig had_witness =
     (if \<not> is_push_only ssig then Inl SigPushOnly
      else
        and_then (pop stack_after_sig) (\<lambda>(redeem_script, stack).
        and_then (eval_script H stack redeem_script flags checker Base) (\<lambda>stack.
        and_then (require_true_top stack) (\<lambda>_.
        case (if contains flags FLAG_WITNESS then parse_witness_program redeem_script else None) of
          None \<Rightarrow> Inr (stack, had_witness)
        | Some wp \<Rightarrow>
            if ssig \<noteq> push_data [] redeem_script then Inl WitnessMalleatedP2sh
            else and_then (verify_witness_program H ec wit (wp_version wp) (wp_program wp) flags checker True)
                   (\<lambda>_. Inr (take 1 stack, True))))))"

definition verify_script ::
  "digests \<Rightarrow> secp \<Rightarrow> bytes \<Rightarrow> bytes \<Rightarrow> bytes list \<Rightarrow> verify_flags \<Rightarrow> signature_checker \<Rightarrow> unit script_result" where
  "verify_script H ec ssig spk wit flags checker =
     (if \<not> contains flags FLAG_WITNESS \<and> wit \<noteq> [] then Inl WitnessUnexpected
      else if contains flags FLAG_SIGPUSHONLY \<and> \<not> is_push_only ssig then Inl SigPushOnly
      else
        and_then (eval_script H [] ssig flags checker Base) (\<lambda>stack_after_sig.
        and_then (eval_script H stack_after_sig spk flags checker Base) (\<lambda>stack.
        and_then (require_true_top stack) (\<lambda>_.
        and_then (verify_native_witness H ec ssig spk wit flags checker stack) (\<lambda>(stack, had_witness).
        and_then
          (if contains flags FLAG_P2SH \<and> is_pay_to_script_hash spk
           then verify_p2sh H ec ssig wit flags checker stack_after_sig had_witness
           else Inr (stack, had_witness)) (\<lambda>(stack, had_witness).
        if contains flags FLAG_CLEANSTACK \<and> length stack \<noteq> 1 then Inl CleanStack
        else if contains flags FLAG_WITNESS \<and> \<not> had_witness \<and> wit \<noteq> [] then Inl WitnessUnexpected
        else Inr ()))))))"

end
