(* ===== verification/ScriptInvariants.thy ===== *)
theory ScriptInvariants
  imports VerifyScript
begin

text \<open>
  What a successful script run guarantees: the resource limits hold at every step, conditionals
  balance, disabled opcodes and oversized pushes never get through, arithmetic stays far inside
  64 bits, and the tapscript budget is never overdrawn.
\<close>

subsection \<open>One step\<close>

lemmas result_simps = and_then_eq_Inr case_prod_unfold

lemma pop_Inr: "pop stack = Inr (x, s) \<longleftrightarrow> stack = s @ [x]"
  by (auto simp: pop_def vec_pop_def)

lemma require_depth_Inr [simp]: "require_depth stack n = Inr u \<longleftrightarrow> n \<le> length stack"
  by (auto simp: require_depth_def)

lemma stack_top_Inr: "stack_top stack n = Inr x \<longleftrightarrow> n \<le> length stack \<and> x = stack ! (length stack - n)"
  by (auto simp: stack_top_def)

lemma eval_stepE:
  assumes "eval_step env st item = Inr st'"
  obtains ins st1 where "item = Inr ins" "length (ins_data ins) \<le> MAX_SCRIPT_ELEMENT_SIZE"
    "count_op env (ins_opcode ins) st = Inr st1" "\<not> is_disabled (ins_opcode ins)"
    "st' = st1 \<and> \<not> (OP_IF \<le> ins_opcode ins \<and> ins_opcode ins \<le> OP_ENDIF) \<or>
     exec_instruction env ins (is_executing st) st1 = Inr st' \<and>
       length (es_stack st') + length (es_alt st') \<le> MAX_STACK_SIZE"
proof -
  have nop: "\<not> (OP_IF \<le> op \<and> op \<le> OP_ENDIF)" if "inactive_nop env op" for op
    using that by (auto simp: inactive_nop_def word_le_nat_alt)
  show ?thesis
    using assms nop
    by (cases item) (auto simp: eval_step_def Let_def result_simps check_stack_size_def split: if_splits intro: that)
qed

text \<open>\<open>count_op\<close> touches the operation count only, and keeps it within the limit.\<close>

lemma count_op_Inr:
  assumes "count_op env op st = Inr st1"
  shows "es_stack st1 = es_stack st" "es_alt st1 = es_alt st" "es_cond st1 = es_cond st"
    "es_codesep st1 = es_codesep st" "es_exec st1 = es_exec st"
    "es_op_count st \<le> MAX_OPS_PER_SCRIPT \<Longrightarrow> es_op_count st1 \<le> MAX_OPS_PER_SCRIPT"
  using assms by (auto simp: count_op_def Let_def split: if_splits)

subsection \<open>Conditionals\<close>

definition depth_step :: "opcode \<Rightarrow> nat \<Rightarrow> nat option" where
  "depth_step op d =
     (if op = OP_IF \<or> op = OP_NOTIF then Some (Suc d)
      else if op = OP_ELSE then (if d = 0 then None else Some d)
      else if op = OP_ENDIF then (if d = 0 then None else Some (d - 1))
      else Some d)"

fun balanced_from :: "nat \<Rightarrow> opcode list \<Rightarrow> bool" where
  "balanced_from d [] \<longleftrightarrow> d = 0"
| "balanced_from d (op # ops) \<longleftrightarrow> (case depth_step op d of None \<Rightarrow> False | Some d' \<Rightarrow> balanced_from d' ops)"

lemma on_stack_Inr: "on_stack f st = Inr st' \<longleftrightarrow> (\<exists>s. f (es_stack st) = Inr s \<and> st' = st\<lparr>es_stack := s\<rparr>)"
  by (auto simp: on_stack_def and_then_eq_Inr)

lemma pop_num_Inr:
  "pop_num minimal stack = Inr (n, s) \<longleftrightarrow> (\<exists>x. stack = s @ [x] \<and> num_decode x minimal DEFAULT_MAX_NUM_SIZE = Inr n)"
  by (auto simp: pop_num_def result_simps pop_Inr split: prod.splits)

lemma pop_n_Inr: "pop_n n stack = Inr (items, s) \<longleftrightarrow> stack = s @ rev items \<and> length items = n"
proof (induction n arbitrary: stack items)
  case (Suc n)
  show ?case
  proof
    assume "pop_n (Suc n) stack = Inr (items, s)"
    then obtain x s1 items1 where "pop stack = Inr (x, s1)" "pop_n n s1 = Inr (items1, s)" "items = x # items1"
      by (auto simp: result_simps)
    then show "stack = s @ rev items \<and> length items = Suc n" using Suc by (auto simp: pop_Inr)
  next
    assume a: "stack = s @ rev items \<and> length items = Suc n"
    then obtain x items1 where i: "items = x # items1" "length items1 = n" by (cases items) auto
    then have "pop stack = Inr (x, s @ rev items1)" using a by (simp add: pop_Inr)
    moreover have "pop_n n (s @ rev items1) = Inr (items1, s)" using Suc i by simp
    ultimately show "pop_n (Suc n) stack = Inr (items, s)" using i by simp
  qed
qed auto

text \<open>What a \<^verbatim>\<open>CHECKMULTISIG\<close> that does not fail found on the stack, and what it leaves.\<close>

lemma eval_checkmultisigE:
  assumes "eval_checkmultisig env st = Inr (success, st')"
  obtains s dummy sigs sc keys kc unmatched where
    "es_stack st = s @ [dummy] @ sigs @ [sc] @ keys @ [kc]"
    "num_decode kc (require_minimal env) DEFAULT_MAX_NUM_SIZE = Inr (int (length keys))"
    "num_decode sc (require_minimal env) DEFAULT_MAX_NUM_SIZE = Inr (int (length sigs))"
    "length keys \<le> 20" "length sigs \<le> length keys" "contains (env_flags env) FLAG_NULLDUMMY \<longrightarrow> dummy = []"
    "multisig_loop env (es_codesep st) sigs keys = Inr (success, unmatched)"
    "\<not> success \<and> contains (env_flags env) FLAG_NULLFAIL \<longrightarrow> (\<forall>sig \<in> set unmatched. sig = [])"
    "es_op_count st + length keys \<le> MAX_OPS_PER_SCRIPT"
    "st' = st\<lparr>es_stack := s, es_op_count := es_op_count st + length keys\<rparr>"
proof -
  from assms obtain kn s1 pk s2 sn s3 ps s4 dummy s un where
    a: "pop_num (require_minimal env) (es_stack st) = Inr (kn, s1)" "0 \<le> kn" "kn \<le> 20"
      "es_op_count st + nat kn \<le> MAX_OPS_PER_SCRIPT" "pop_n (nat kn) s1 = Inr (pk, s2)"
      "pop_num (require_minimal env) s2 = Inr (sn, s3)" "0 \<le> sn" "sn \<le> kn" "pop_n (nat sn) s3 = Inr (ps, s4)"
      "pop s4 = Inr (dummy, s)" "contains (env_flags env) FLAG_NULLDUMMY \<longrightarrow> dummy = []"
      "multisig_loop env (es_codesep st) (rev ps) (rev pk) = Inr (success, un)"
      "\<not> success \<and> contains (env_flags env) FLAG_NULLFAIL \<longrightarrow> (\<forall>sig \<in> set un. sig = [])"
      "st' = st\<lparr>es_stack := s, es_op_count := es_op_count st + nat kn\<rparr>"
    by (auto simp: eval_checkmultisig_def Let_def result_simps MAX_PUBKEYS_PER_MULTISIG_def list_ex_iff
        split: if_splits)
  from a(1,6) obtain kc sc where n: "es_stack st = s1 @ [kc]" "s2 = s3 @ [sc]"
    "num_decode kc (require_minimal env) DEFAULT_MAX_NUM_SIZE = Inr kn"
    "num_decode sc (require_minimal env) DEFAULT_MAX_NUM_SIZE = Inr sn"
    by (auto simp: pop_num_Inr)
  from a(5,9,10) have l: "s1 = s2 @ rev pk" "length pk = nat kn" "s3 = s4 @ rev ps" "length ps = nat sn" "s4 = s @ [dummy]"
    by (auto simp: pop_n_Inr pop_Inr)
  show ?thesis
    by (rule that [of s dummy "rev ps" sc "rev pk" kc un]) (use a n l in auto)
qed

lemma op_if_depth: "op_if env op ex st = Inr st' \<Longrightarrow> length (es_cond st') = Suc (length (es_cond st))"
  by (auto simp: op_if_def Let_def split: if_splits prod.splits elim!: and_then_InrE)

lemma op_else_depth: "op_else st = Inr st' \<Longrightarrow> es_cond st \<noteq> [] \<and> length (es_cond st') = length (es_cond st)"
  by (auto simp: op_else_def split: if_splits)

lemma op_endif_depth: "op_endif st = Inr st' \<Longrightarrow> es_cond st \<noteq> [] \<and> length (es_cond st') = length (es_cond st) - 1"
  by (auto simp: op_endif_def split: if_splits)

lemma op_checksig_cond: "op_checksig env op st = Inr st' \<Longrightarrow> es_cond st' = es_cond st"
  by (auto simp: op_checksig_def split: if_splits prod.splits elim!: and_then_InrE)

lemma op_checksigadd_cond: "op_checksigadd env st = Inr st' \<Longrightarrow> es_cond st' = es_cond st"
  by (auto simp: op_checksigadd_def split: if_splits prod.splits elim!: and_then_InrE)

lemma op_checkmultisig_cond: "op_checkmultisig env op st = Inr st' \<Longrightarrow> es_cond st' = es_cond st"
  by (auto simp: op_checkmultisig_def split: if_splits prod.splits elim!: and_then_InrE eval_checkmultisigE)

lemma op_altstack_cond:
  "op_toaltstack st = Inr st' \<Longrightarrow> es_cond st' = es_cond st"
  "op_fromaltstack st = Inr st' \<Longrightarrow> es_cond st' = es_cond st"
  by (auto simp: op_toaltstack_def op_fromaltstack_def result_simps)

lemma exec_op_depth:
  assumes "exec_op env ins ex st = Inr st'"
  shows "depth_step (ins_opcode ins) (length (es_cond st)) = Some (length (es_cond st'))"
proof -
  consider "ins_opcode ins = OP_IF \<or> ins_opcode ins = OP_NOTIF" | "ins_opcode ins = OP_ELSE"
    | "ins_opcode ins = OP_ENDIF" | (other) "ins_opcode ins \<notin> {OP_IF, OP_NOTIF, OP_ELSE, OP_ENDIF}" by auto
  then show ?thesis
  proof cases
    case 1
    with assms have "op_if env (ins_opcode ins) ex st = Inr st'" by (auto simp: exec_op_def Let_def)
    with 1 show ?thesis using op_if_depth by (auto simp: depth_step_def)
  next
    case 2
    with assms have "op_else st = Inr st'" by (simp add: exec_op_def Let_def)
    with 2 show ?thesis using op_else_depth by (auto simp: depth_step_def)
  next
    case 3
    with assms have "op_endif st = Inr st'" by (simp add: exec_op_def Let_def)
    with 3 show ?thesis using op_endif_depth by (auto simp: depth_step_def)
  next
    case other
    then have "es_cond st' = es_cond st"
      using assms unfolding exec_op_def Let_def
      by (auto simp: on_stack_Inr split: if_splits elim!: and_then_InrE
          dest: op_checksig_cond op_checksigadd_cond op_checkmultisig_cond op_altstack_cond)
    with other show ?thesis by (simp add: depth_step_def)
  qed
qed

lemma not_conditional_depth: "\<not> (OP_IF \<le> op \<and> op \<le> OP_ENDIF) \<Longrightarrow> depth_step op d = Some d"
  by (auto simp: depth_step_def)

lemma eval_step_depth:
  assumes "eval_step env st item = Inr st'"
  shows "\<exists>ins. item = Inr ins \<and> depth_step (ins_opcode ins) (length (es_cond st)) = Some (length (es_cond st'))"
proof -
  from assms obtain ins st1 where i: "item = Inr ins" "count_op env (ins_opcode ins) st = Inr st1"
    "st' = st1 \<and> \<not> (OP_IF \<le> ins_opcode ins \<and> ins_opcode ins \<le> OP_ENDIF) \<or>
     exec_instruction env ins (is_executing st) st1 = Inr st'"
    by (elim eval_stepE) blast
  have c: "es_cond st1 = es_cond st" using count_op_Inr(3) [OF i(2)] .
  have "depth_step (ins_opcode ins) (length (es_cond st)) = Some (length (es_cond st'))"
  proof (cases "ins_opcode ins \<le> OP_PUSHDATA4")
    case True
    then have "\<not> OP_IF \<le> ins_opcode ins" by (auto simp: word_le_nat_alt)
    then have "depth_step (ins_opcode ins) d = Some d" for d by (simp add: not_conditional_depth)
    moreover have "es_cond st' = es_cond st"
      using i(3) True c by (auto simp: exec_instruction_def split: if_splits)
    ultimately show ?thesis by simp
  next
    case False
    then show ?thesis
      using i(3) c exec_op_depth [of env ins _ st1 st'] not_conditional_depth by (auto simp: exec_instruction_def)
  qed
  with i(1) show ?thesis by blast
qed

lemma eval_loop_balanced:
  "fold_res (eval_step env) st items = Inr st' \<Longrightarrow> es_cond st' = [] \<Longrightarrow>
    \<exists>is. items = map Inr is \<and> balanced_from (length (es_cond st)) (map ins_opcode is)"
proof (induction items arbitrary: st)
  case (Cons item items)
  then obtain st1 where s: "eval_step env st item = Inr st1" "fold_res (eval_step env) st1 items = Inr st'"
    by (auto simp: and_then_eq_Inr)
  from eval_step_depth [OF s(1)] obtain ins where
    i: "item = Inr ins" "depth_step (ins_opcode ins) (length (es_cond st)) = Some (length (es_cond st1))" by blast
  from Cons.IH [OF s(2) Cons.prems(2)] obtain js where
    "items = map Inr js" "balanced_from (length (es_cond st1)) (map ins_opcode js)" by blast
  then show ?case using i by (intro exI [of _ "ins # js"]) simp
qed auto

subsection \<open>Numbers\<close>

lemma num_decode_bound: "num_decode x minimal DEFAULT_MAX_NUM_SIZE = Inr n \<Longrightarrow> \<bar>n\<bar> < 2 ^ 31"
  using decode_unchecked_bound [of x 4]
  by (auto simp: num_decode_def DEFAULT_MAX_NUM_SIZE_def split: if_splits)

lemma unary_result_bound: "\<bar>v\<bar> < 2 ^ 31 \<Longrightarrow> \<bar>unary_result op v\<bar> \<le> 2 ^ 31"
  by (auto simp: unary_result_def)

lemma binary_result_bound: "\<bar>a\<bar> < 2 ^ 31 \<Longrightarrow> \<bar>b\<bar> < 2 ^ 31 \<Longrightarrow> \<bar>binary_result op a b\<bar> < 2 ^ 32"
  by (auto simp: binary_result_def)

lemma num_encode_short: "\<bar>v\<bar> < 2 ^ 39 \<Longrightarrow> length (num_encode v) \<le> 5"
  using num_encode_length [of v 5] by simp

subsection \<open>Element sizes\<close>

definition small_items :: "stack \<Rightarrow> bool" where
  "small_items stack \<longleftrightarrow> (\<forall>x \<in> set stack. length x \<le> MAX_SCRIPT_ELEMENT_SIZE)"

lemma small_items_simps [simp]:
  "small_items []" "small_items (x # xs) \<longleftrightarrow> length x \<le> MAX_SCRIPT_ELEMENT_SIZE \<and> small_items xs"
  "small_items (xs @ ys) \<longleftrightarrow> small_items xs \<and> small_items ys"
  by (auto simp: small_items_def)

lemma small_items_nth: "small_items s \<Longrightarrow> i < length s \<Longrightarrow> length (s ! i) \<le> MAX_SCRIPT_ELEMENT_SIZE"
  by (simp add: small_items_def)

lemma small_items_sub: "small_items s \<Longrightarrow> set t \<subseteq> set s \<Longrightarrow> small_items t"
  by (auto simp: small_items_def)

lemma small_num [simp]: "\<bar>v\<bar> < 2 ^ 39 \<Longrightarrow> length (num_encode v) \<le> MAX_SCRIPT_ELEMENT_SIZE"
  using num_encode_short [of v] by (simp add: MAX_SCRIPT_ELEMENT_SIZE_def)

lemma small_bool [simp]: "length (bool_item b) \<le> MAX_SCRIPT_ELEMENT_SIZE"
  by (simp add: bool_item_def MAX_SCRIPT_ELEMENT_SIZE_def)

lemma set_vec_swap: "i < length s \<Longrightarrow> j < length s \<Longrightarrow> set (vec_swap s i j) \<subseteq> set s"
  by (auto simp: vec_swap_def in_set_conv_nth nth_list_update split: if_splits)

lemma set_vec_remove: "set (snd (vec_remove s i)) \<subseteq> set s"
  by (auto simp: vec_remove_def dest: in_set_takeD in_set_dropD)

lemma fst_vec_remove: "i < length s \<Longrightarrow> fst (vec_remove s i) \<in> set s"
  by (simp add: vec_remove_def)

lemma set_vec_insert: "set (vec_insert s i x) \<subseteq> insert x (set s)"
  by (auto simp: vec_insert_def dest: in_set_takeD in_set_dropD)

lemma set_butlast: "set (butlast s) \<subseteq> set s"
  by (auto dest: in_set_butlastD)

lemma op_pick_roll_small:
  assumes "op_pick_roll minimal op stack = Inr s" "small_items stack"
  shows "small_items s"
proof -
  from assms(1) obtain n t x where t: "stack = t @ [x]" "0 \<le> n" "n < int (length t)"
    "s = (if op = OP_ROLL then snd (vec_remove t (length t - 1 - nat n)) @ [fst (vec_remove t (length t - 1 - nat n))]
          else t @ [t ! (length t - 1 - nat n)])"
    by (auto simp: op_pick_roll_def pop_num_Inr Let_def case_prod_unfold not_le not_less split: if_splits
        elim!: and_then_InrE)
  define i where "i = length t - 1 - nat n"
  have i: "i < length t" using t(2,3) unfolding i_def by linarith
  have st: "small_items t" using assms(2) t(1) by simp
  then have "small_items (snd (vec_remove t i))" "length (fst (vec_remove t i)) \<le> MAX_SCRIPT_ELEMENT_SIZE"
    using small_items_sub [OF st set_vec_remove] fst_vec_remove [OF i] by (auto simp: small_items_def)
  then show ?thesis using t(4) [folded i_def] st i by (simp add: small_items_nth)
qed

lemma op_2rot_small:
  assumes "6 \<le> length stack" "small_items stack"
    "(case vec_remove stack (length stack - 6) of (a, s1) \<Rightarrow>
        case vec_remove s1 (length stack - 6) of (b, s2) \<Rightarrow> Inr (s2 @ [a, b])) = (Inr s :: stack script_result)"
  shows "small_items s"
proof -
  let ?k = "length stack - 6"
  let ?s1 = "snd (vec_remove stack ?k)"
  have k: "?k < length stack" using assms(1) by simp
  then have l: "?k < length ?s1" using assms(1) by simp
  have s1: "small_items ?s1" using small_items_sub [OF assms(2) set_vec_remove] .
  have "s = snd (vec_remove ?s1 ?k) @ [fst (vec_remove stack ?k), fst (vec_remove ?s1 ?k)]"
    using assms(3) by (simp add: Let_def case_prod_unfold)
  then show ?thesis
    using small_items_sub [OF s1 set_vec_remove] fst_vec_remove [OF k] fst_vec_remove [OF l] s1 assms(2)
    by (auto simp: small_items_def)
qed

lemma vec_swap_small:
  "small_items s \<Longrightarrow> i < length s \<Longrightarrow> j < length s \<Longrightarrow> small_items (vec_swap s i j)"
  by (rule small_items_sub [OF _ set_vec_swap])

lemma vec_insert_small:
  "small_items s \<Longrightarrow> length x \<le> MAX_SCRIPT_ELEMENT_SIZE \<Longrightarrow> small_items (vec_insert s i x)"
  using set_vec_insert [of s i x] by (auto simp: small_items_def)

lemma butlast_small: "small_items s \<Longrightarrow> small_items (butlast s)"
  by (rule small_items_sub [OF _ set_butlast])

lemma exec_stack_op_small:
  assumes "exec_stack_op minimal op stack = Inr s" and small: "small_items stack" "length stack \<le> MAX_STACK_SIZE"
  shows "small_items s"
proof -
  have depth: "\<bar>int (length stack)\<bar> < 2 ^ 39" using small(2) by (simp add: MAX_STACK_SIZE_def)
  have size: "\<bar>int (length (stack ! i))\<bar> < 2 ^ 39" if "i < length stack" for i
    using small_items_nth [OF small(1) that] by (simp add: MAX_SCRIPT_ELEMENT_SIZE_def)
  show ?thesis
    using assms(1) small(1) depth size
    unfolding exec_stack_op_def
    by (auto simp: stack_top_Inr pop_Inr small_items_nth vec_swap_small vec_insert_small butlast_small Let_def
        split: if_splits elim!: and_then_InrE
        intro: op_pick_roll_small op_2rot_small small_items_sub [OF _ set_vec_remove])
qed

lemma simple_ops_small:
  assumes "small_items stack"
  shows "op_verify stack = Inr s \<Longrightarrow> small_items s" "op_equal op stack = Inr s \<Longrightarrow> small_items s"
    "op_within minimal stack = Inr s \<Longrightarrow> small_items s"
  using assms
  by (auto simp: op_verify_def op_equal_def op_within_def pop_Inr pop_num_Inr split: if_splits prod.splits
      elim!: and_then_InrE)

lemma op_unary_small:
  assumes "op_unary minimal op stack = Inr s" "small_items stack"
  shows "small_items s"
proof -
  from assms(1) obtain x t v where "stack = t @ [x]" "num_decode x minimal DEFAULT_MAX_NUM_SIZE = Inr v"
    "s = t @ [num_encode (unary_result op v)]"
    by (auto simp: op_unary_def pop_num_Inr elim!: and_then_InrE)
  moreover from this have "\<bar>unary_result op v\<bar> < 2 ^ 39"
    using unary_result_bound [OF num_decode_bound, of x minimal v op] by simp
  ultimately show ?thesis using assms(2) by simp
qed

lemma op_binary_small:
  assumes "op_binary minimal op stack = Inr s" "small_items stack"
  shows "small_items s"
proof -
  from assms(1) obtain x y t a b where t: "stack = t @ [x, y]" "num_decode x minimal DEFAULT_MAX_NUM_SIZE = Inr a"
    "num_decode y minimal DEFAULT_MAX_NUM_SIZE = Inr b" "s = t \<or> s = t @ [num_encode (binary_result op a b)]"
    by (auto simp: op_binary_def pop_num_Inr Let_def split: if_splits elim!: and_then_InrE)
  have "\<bar>binary_result op a b\<bar> < 2 ^ 39"
    using binary_result_bound [OF num_decode_bound [OF t(2)] num_decode_bound [OF t(3)], of op] by simp
  with t(1,4) assms(2) show ?thesis by auto
qed

lemma op_hash_small:
  assumes "op_hash H op stack = Inr s" "small_items stack" "digest_sizes H"
  shows "small_items s"
  using assms(1,2) digest_lengths [OF assms(3)]
  by (auto simp: op_hash_def pop_Inr hash_result_def MAX_SCRIPT_ELEMENT_SIZE_def split: if_splits elim!: and_then_InrE)

subsection \<open>Resource limits\<close>

definition limits_ok :: "eval_state \<Rightarrow> bool" where
  "limits_ok st \<longleftrightarrow> length (es_stack st) + length (es_alt st) \<le> MAX_STACK_SIZE \<and> small_items (es_stack st) \<and>
     small_items (es_alt st) \<and> es_op_count st \<le> MAX_OPS_PER_SCRIPT"

abbreviation items_ok :: "eval_state \<Rightarrow> bool" where
  "items_ok st \<equiv> small_items (es_stack st) \<and> small_items (es_alt st) \<and> es_op_count st \<le> MAX_OPS_PER_SCRIPT"

lemma op_checksig_items: "op_checksig env op st = Inr st' \<Longrightarrow> items_ok st \<Longrightarrow> items_ok st'"
  by (auto simp: op_checksig_def pop_Inr split: if_splits prod.splits elim!: and_then_InrE)

lemma op_checksigadd_items: "op_checksigadd env st = Inr st' \<Longrightarrow> items_ok st \<Longrightarrow> items_ok st'"
  using num_decode_bound
  by (fastforce simp: op_checksigadd_def pop_Inr pop_num_Inr split: if_splits prod.splits elim!: and_then_InrE
      intro!: small_num)

lemma op_checkmultisig_items: "op_checkmultisig env op st = Inr st' \<Longrightarrow> items_ok st \<Longrightarrow> items_ok st'"
  by (auto simp: op_checkmultisig_def split: if_splits prod.splits elim!: and_then_InrE eval_checkmultisigE)

lemma op_if_items: "op_if env op ex st = Inr st' \<Longrightarrow> items_ok st \<Longrightarrow> items_ok st'"
  by (auto simp: op_if_def pop_Inr Let_def split: if_splits prod.splits elim!: and_then_InrE)

lemma op_else_endif_items:
  "op_else st = Inr st' \<Longrightarrow> items_ok st \<Longrightarrow> items_ok st'" "op_endif st = Inr st' \<Longrightarrow> items_ok st \<Longrightarrow> items_ok st'"
  by (auto simp: op_else_def op_endif_def split: if_splits)

lemma op_altstack_items:
  "op_toaltstack st = Inr st' \<Longrightarrow> items_ok st \<Longrightarrow> items_ok st'"
  "op_fromaltstack st = Inr st' \<Longrightarrow> items_ok st \<Longrightarrow> items_ok st'"
  by (auto simp: op_toaltstack_def op_fromaltstack_def pop_Inr dest!: vec_pop_SomeD elim!: and_then_InrE)

lemma decode_op_n_bound: "decode_op_n op = Some v \<Longrightarrow> \<bar>v\<bar> < 2 ^ 39"
proof -
  assume "decode_op_n op = Some v"
  moreover have "unat (op - (OP_1 - 1)) < 256" by (rule unat_byte_lt)
  then have "uint (op - (OP_1 - 1)) < 256" by (metis of_nat_less_iff of_nat_numeral uint_nat)
  ultimately show ?thesis by (auto simp: decode_op_n_def split: if_splits)
qed

text \<open>The shapes an executed opcode can have.\<close>

definition stack_only :: "eval_env \<Rightarrow> opcode \<Rightarrow> stack \<Rightarrow> stack script_result" where
  "stack_only env op =
     (if op = OP_VERIFY then op_verify
      else if is_stack_op op then exec_stack_op (require_minimal env) op
      else if op = OP_EQUAL \<or> op = OP_EQUALVERIFY then op_equal op
      else if is_unary_num op then op_unary (require_minimal env) op
      else if is_binary_num op then op_binary (require_minimal env) op
      else if op = OP_WITHIN then op_within (require_minimal env)
      else op_hash (env_H env) op)"

lemma stack_op_not_verify: "is_stack_op op \<Longrightarrow> op \<noteq> OP_VERIFY"
  by (auto simp: is_stack_op_def)

lemma unary_op_disjoint: "is_unary_num op \<Longrightarrow> \<not> is_stack_op op \<and> op \<notin> {OP_VERIFY, OP_EQUAL, OP_EQUALVERIFY}"
  unfolding is_unary_num_def by (elim insertE emptyE) (simp_all add: is_stack_op_def)

lemma binary_op_disjoint:
  "is_binary_num op \<Longrightarrow> \<not> is_stack_op op \<and> \<not> is_unary_num op \<and> op \<notin> {OP_VERIFY, OP_EQUAL, OP_EQUALVERIFY}"
  unfolding is_binary_num_def by (elim insertE emptyE) (simp_all add: is_stack_op_def is_unary_num_def)

lemma hash_op_disjoint:
  "is_hash_op op \<Longrightarrow> \<not> is_stack_op op \<and> \<not> is_unary_num op \<and> \<not> is_binary_num op \<and>
     op \<notin> {OP_VERIFY, OP_EQUAL, OP_EQUALVERIFY, OP_WITHIN}"
  unfolding is_hash_op_def
  by (elim insertE emptyE) (simp_all add: is_stack_op_def is_unary_num_def is_binary_num_def)

lemma named_op_groups:
  "\<not> is_stack_op OP_EQUAL" "\<not> is_stack_op OP_EQUALVERIFY" "\<not> is_stack_op OP_WITHIN"
  "\<not> is_unary_num OP_WITHIN" "\<not> is_binary_num OP_WITHIN"
  by (simp_all add: is_stack_op_def is_unary_num_def is_binary_num_def)

lemmas op_groups_disjoint = stack_op_not_verify unary_op_disjoint binary_op_disjoint hash_op_disjoint named_op_groups

lemma stack_only_eqs:
  "stack_only env OP_VERIFY = op_verify"
  "is_stack_op op \<Longrightarrow> stack_only env op = exec_stack_op (require_minimal env) op"
  "stack_only env OP_EQUAL = op_equal OP_EQUAL" "stack_only env OP_EQUALVERIFY = op_equal OP_EQUALVERIFY"
  "is_unary_num op \<Longrightarrow> stack_only env op = op_unary (require_minimal env) op"
  "is_binary_num op \<Longrightarrow> stack_only env op = op_binary (require_minimal env) op"
  "stack_only env OP_WITHIN = op_within (require_minimal env)"
  "is_hash_op op \<Longrightarrow> stack_only env op = op_hash (env_H env) op"
  unfolding stack_only_def using op_groups_disjoint by simp_all

lemma exec_op_cases:
  assumes "exec_op env ins ex st = Inr st'"
  shows "st' = st
    \<or> (\<exists>v. decode_op_n (ins_opcode ins) = Some v \<and> st' = st\<lparr>es_stack := es_stack st @ [num_encode v]\<rparr>)
    \<or> op_if env (ins_opcode ins) ex st = Inr st' \<or> op_else st = Inr st' \<or> op_endif st = Inr st'
    \<or> op_toaltstack st = Inr st' \<or> op_fromaltstack st = Inr st'
    \<or> on_stack (stack_only env (ins_opcode ins)) st = Inr st'
    \<or> st' = st\<lparr>es_codesep := ins_next ins,
                es_exec := (es_exec st)\<lparr>codeseparator_pos := word_of_nat (ins_offset ins)\<rparr>\<rparr>
    \<or> op_checksig env (ins_opcode ins) st = Inr st' \<or> op_checksigadd env st = Inr st'
    \<or> op_checkmultisig env (ins_opcode ins) st = Inr st'"
  using assms unfolding exec_op_def Let_def
  by (auto simp: stack_only_eqs and_then_eq_Inr split: if_split_asm)

lemma stack_only_small:
  assumes "stack_only env op stack = Inr s" "small_items stack" "length stack \<le> MAX_STACK_SIZE"
    "digest_sizes (env_H env)"
  shows "small_items s"
  using assms(1) unfolding stack_only_def
  by (auto split: if_split_asm
      dest: simple_ops_small [OF assms(2)] exec_stack_op_small [OF _ assms(2,3)] op_unary_small [OF _ assms(2)]
        op_binary_small [OF _ assms(2)] op_hash_small [OF _ assms(2,4)])

lemma exec_op_items:
  assumes "exec_op env ins ex st = Inr st'" "limits_ok st" "digest_sizes (env_H env)"
  shows "items_ok st'"
proof -
  have ok: "items_ok st" "length (es_stack st) \<le> MAX_STACK_SIZE" using assms(2) by (auto simp: limits_ok_def)
  from exec_op_cases [OF assms(1)] show ?thesis
  proof (elim disjE exE conjE)
    fix v assume "decode_op_n (ins_opcode ins) = Some v" "st' = st\<lparr>es_stack := es_stack st @ [num_encode v]\<rparr>"
    then show ?thesis using ok decode_op_n_bound by simp
  next
    assume "on_stack (stack_only env (ins_opcode ins)) st = Inr st'"
    then show ?thesis using ok stack_only_small [OF _ _ _ assms(3)] by (auto simp: on_stack_Inr)
  qed (use ok in \<open>auto dest: op_checksig_items op_checksigadd_items op_checkmultisig_items op_if_items
         op_else_endif_items op_altstack_items\<close>)
qed

lemma exec_instruction_items:
  assumes "exec_instruction env ins ex st = Inr st'" "limits_ok st" "digest_sizes (env_H env)"
    "length (ins_data ins) \<le> MAX_SCRIPT_ELEMENT_SIZE"
  shows "items_ok st'"
  using assms exec_op_items [OF _ assms(2,3)]
  by (auto simp: exec_instruction_def limits_ok_def split: if_splits)

lemma eval_step_limits:
  assumes "eval_step env st item = Inr st'" "limits_ok st" "digest_sizes (env_H env)"
  shows "limits_ok st'"
proof -
  from assms(1) obtain ins st1 where i: "length (ins_data ins) \<le> MAX_SCRIPT_ELEMENT_SIZE"
    "count_op env (ins_opcode ins) st = Inr st1"
    "st' = st1 \<or> exec_instruction env ins (is_executing st) st1 = Inr st' \<and>
       length (es_stack st') + length (es_alt st') \<le> MAX_STACK_SIZE"
    by (elim eval_stepE) blast
  have "limits_ok st1" using count_op_Inr [OF i(2)] assms(2) by (simp add: limits_ok_def)
  with i(3) exec_instruction_items [OF _ this assms(3) i(1)] show ?thesis by (auto simp: limits_ok_def)
qed

lemma eval_loop_limits:
  assumes "fold_res (eval_step env) st items = Inr st'" "limits_ok st" "digest_sizes (env_H env)"
  shows "limits_ok st'"
  by (rule fold_res_invariant [OF assms(1), where P = limits_ok])
    (use assms(2,3) eval_step_limits in blast)+

text \<open>Every prefix of a run that succeeds is within the limits: they hold at every moment, not only at the end.\<close>

lemma fold_res_prefix:
  "fold_res f s (xs @ ys) = Inr s' \<Longrightarrow> \<exists>m. fold_res f s xs = Inr m \<and> fold_res f m ys = Inr s'"
  by (auto simp: fold_res_append and_then_eq_Inr)

subsection \<open>Static checks\<close>

lemma eval_loop_static:
  "fold_res (eval_step env) st items = Inr st' \<Longrightarrow>
    \<exists>js. items = map Inr js \<and> (\<forall>i \<in> set js. \<not> is_disabled (ins_opcode i) \<and>
       length (ins_data i) \<le> MAX_SCRIPT_ELEMENT_SIZE)"
proof (induction items arbitrary: st)
  case (Cons item items)
  then obtain st1 where s: "eval_step env st item = Inr st1" "fold_res (eval_step env) st1 items = Inr st'"
    by (auto simp: and_then_eq_Inr)
  from s(1) obtain ins where i: "item = Inr ins" "\<not> is_disabled (ins_opcode ins)"
    "length (ins_data ins) \<le> MAX_SCRIPT_ELEMENT_SIZE" by (elim eval_stepE) blast
  from Cons.IH [OF s(2)] obtain js where "items = map Inr js"
    "\<forall>i \<in> set js. \<not> is_disabled (ins_opcode i) \<and> length (ins_data i) \<le> MAX_SCRIPT_ELEMENT_SIZE" by blast
  then show ?case using i by (intro exI [of _ "ins # js"]) simp
qed auto

subsection \<open>The tapscript budget\<close>

definition budget_step :: "exec_data \<Rightarrow> exec_data \<Rightarrow> bool" where
  "budget_step ed ed' \<longleftrightarrow>
     (validation_weight_left ed' = validation_weight_left ed \<or>
      0 \<le> validation_weight_left ed' \<and> validation_weight_left ed' = validation_weight_left ed - 50)"

lemma checksig_tapscript_budget:
  "eval_checksig_tapscript sig pubkey flags checker ed = Inr (b, ed') \<Longrightarrow>
    b = (sig \<noteq> []) \<and> budget_step ed ed' \<and> (sig \<noteq> [] \<longrightarrow> validation_weight_left ed' = validation_weight_left ed - 50)"
  by (auto simp: eval_checksig_tapscript_def Let_def budget_step_def VALIDATION_WEIGHT_PER_SIGOP_PASSED_def
      split: if_splits elim!: and_then_InrE)

lemma checksig_tapscript_budget_step:
  "eval_checksig_tapscript sig pubkey flags checker ed = Inr (b, ed') \<Longrightarrow> budget_step ed ed'"
  using checksig_tapscript_budget by blast

lemma budget_step_refl [simp]: "budget_step ed ed"
  by (simp add: budget_step_def)

lemma op_checksig_budget: "op_checksig env op st = Inr st' \<Longrightarrow> budget_step (es_exec st) (es_exec st')"
  by (auto simp: op_checksig_def split: if_splits prod.splits elim!: and_then_InrE)
    (erule checksig_tapscript_budget_step)+

lemma op_checksigadd_budget: "op_checksigadd env st = Inr st' \<Longrightarrow> budget_step (es_exec st) (es_exec st')"
  by (auto simp: op_checksigadd_def split: if_splits prod.splits elim!: and_then_InrE)
    (erule checksig_tapscript_budget_step)+

lemma op_checkmultisig_budget: "op_checkmultisig env op st = Inr st' \<Longrightarrow> budget_step (es_exec st) (es_exec st')"
  by (auto simp: op_checkmultisig_def split: if_splits prod.splits elim!: and_then_InrE eval_checkmultisigE)

lemma other_ops_budget:
  "op_if env op ex st = Inr st' \<Longrightarrow> es_exec st' = es_exec st"
  "op_else st = Inr st' \<Longrightarrow> es_exec st' = es_exec st" "op_endif st = Inr st' \<Longrightarrow> es_exec st' = es_exec st"
  "op_toaltstack st = Inr st' \<Longrightarrow> es_exec st' = es_exec st" "op_fromaltstack st = Inr st' \<Longrightarrow> es_exec st' = es_exec st"
  "on_stack f st = Inr st' \<Longrightarrow> es_exec st' = es_exec st"
  by (auto simp: op_if_def op_else_def op_endif_def op_toaltstack_def op_fromaltstack_def on_stack_Inr Let_def
      split: if_splits prod.splits elim!: and_then_InrE)

lemma exec_op_budget:
  assumes "exec_op env ins ex st = Inr st'"
  shows "budget_step (es_exec st) (es_exec st')"
  using exec_op_cases [OF assms]
  by (elim disjE exE conjE)
    (auto dest: op_checksig_budget op_checksigadd_budget op_checkmultisig_budget other_ops_budget simp: budget_step_def)

lemma eval_step_budget:
  assumes "eval_step env st item = Inr st'"
  shows "budget_step (es_exec st) (es_exec st')"
proof -
  from assms obtain ins st1 where i: "count_op env (ins_opcode ins) st = Inr st1"
    "st' = st1 \<or> exec_instruction env ins (is_executing st) st1 = Inr st'" by (elim eval_stepE) blast
  have "es_exec st1 = es_exec st" using count_op_Inr(5) [OF i(1)] .
  with i(2) exec_op_budget show ?thesis by (fastforce simp: exec_instruction_def split: if_splits)
qed

text \<open>Along a run the budget only falls, in units of 50, and never below zero.\<close>

lemma eval_loop_budget:
  "fold_res (eval_step env) st items = Inr st' \<Longrightarrow> 0 \<le> validation_weight_left (es_exec st) \<Longrightarrow>
    0 \<le> validation_weight_left (es_exec st') \<and>
    (\<exists>k. validation_weight_left (es_exec st) - validation_weight_left (es_exec st') = 50 * int k \<and> k \<le> length items)"
proof (induction items arbitrary: st)
  case (Cons item items)
  then obtain st1 where s: "eval_step env st item = Inr st1" "fold_res (eval_step env) st1 items = Inr st'"
    by (auto simp: and_then_eq_Inr)
  from eval_step_budget [OF s(1)] consider
    "validation_weight_left (es_exec st1) = validation_weight_left (es_exec st)"
    | "0 \<le> validation_weight_left (es_exec st1)"
      "validation_weight_left (es_exec st1) = validation_weight_left (es_exec st) - 50"
    by (auto simp: budget_step_def)
  then show ?case
  proof cases
    case 1
    with Cons.IH [OF s(2)] Cons.prems(2) show ?thesis by fastforce
  next
    case 2
    with Cons.IH [OF s(2)] obtain k where "0 \<le> validation_weight_left (es_exec st')"
      "validation_weight_left (es_exec st1) - validation_weight_left (es_exec st') = 50 * int k" "k \<le> length items"
      by auto
    with 2 show ?thesis by (intro conjI exI [of _ "Suc k"]) auto
  qed
qed auto

end
