(* ===== verification/ScriptSpends.thy ===== *)
theory ScriptSpends
  imports ScriptInvariants "HOL-Library.Sublist"
begin

text \<open>
  What it takes to spend: the multisignature loop against its specification, the standard
  pay-to-witness-key-hash spend computed to its result, and the rules that keep witnesses
  bound to the outputs they authorise.
\<close>

subsection \<open>Multisignatures\<close>

text \<open>A signature answers a key when it is not empty and verifies against the scriptCode.\<close>

definition sig_answers :: "eval_env \<Rightarrow> nat \<Rightarrow> bytes \<Rightarrow> bytes \<Rightarrow> bool" where
  "sig_answers env codesep sig key \<longleftrightarrow> sig \<noteq> [] \<and>
     (\<exists>sc. build_script_code (env_script env) codesep sig (env_sv env) (env_flags env) = Inr sc \<and>
       check_ecdsa_signature (env_checker env) sig key sc (env_sv env))"

text \<open>The encoding checks pass for every signature and key involved.\<close>

definition well_encoded :: "eval_env \<Rightarrow> nat \<Rightarrow> bytes list \<Rightarrow> bytes list \<Rightarrow> bool" where
  "well_encoded env codesep sigs keys \<longleftrightarrow>
     (\<forall>sig \<in> set sigs. check_signature_encoding sig (env_flags env) = Inr () \<and>
        (\<exists>sc. build_script_code (env_script env) codesep sig (env_sv env) (env_flags env) = Inr sc)) \<and>
     (\<forall>key \<in> set keys. check_pubkey_encoding key (env_flags env) (env_sv env = WitnessV0) = Inr ())"

lemma list_emb_greedy:
  "list_emb P (x # xs) (y # ys) \<longleftrightarrow> (if P x y then list_emb P xs ys else list_emb P (x # xs) ys)"
proof (cases "P x y")
  case True
  have "list_emb P xs ys" if "list_emb P (x # xs) (y # ys)"
    using that by (cases rule: list_emb.cases) (auto dest: list_emb_ConsD)
  with True show ?thesis by auto
next
  case False
  then show ?thesis by (auto elim: list_emb.cases)
qed

text \<open>
  Greedy matching from the front succeeds exactly when the signatures answer keys in the same
  order, skipping keys but never reusing one.
\<close>

lemma multisig_loop_spec:
  "well_encoded env codesep sigs keys \<Longrightarrow> length sigs \<le> length keys \<Longrightarrow>
    \<exists>unmatched. multisig_loop env codesep sigs keys =
      Inr (list_emb (sig_answers env codesep) sigs keys, unmatched) \<and> set unmatched \<subseteq> set sigs"
proof (induction env codesep sigs keys rule: multisig_loop.induct)
  case (3 env codesep sig sigs key keys)
  let ?P = "sig_answers env codesep"
  obtain sc where enc: "check_signature_encoding sig (env_flags env) = Inr ()"
    "check_pubkey_encoding key (env_flags env) (env_sv env = WitnessV0) = Inr ()"
    "build_script_code (env_script env) codesep sig (env_sv env) (env_flags env) = Inr sc"
    using "3.prems"(1) by (auto simp: well_encoded_def)
  let ?m = "sig \<noteq> [] \<and> check_ecdsa_signature (env_checker env) sig key sc (env_sv env)"
  have m: "?m \<longleftrightarrow> ?P sig key" using enc(3) by (auto simp: sig_answers_def)
  let ?rem = "if ?m then sigs else sig # sigs"
  have g: "list_emb ?P (sig # sigs) (key # keys) = list_emb ?P ?rem keys"
    using m by (subst list_emb_greedy) simp
  have step: "multisig_loop env codesep (sig # sigs) (key # keys) =
      (if length ?rem > length keys then Inr (False, ?rem) else multisig_loop env codesep ?rem keys)"
    using enc by (simp add: Let_def)
  show ?case
  proof (cases "length ?rem > length keys")
    case True
    then have "\<not> list_emb ?P ?rem keys" using list_emb_length not_less by blast
    then show ?thesis using step True g by (intro exI [of _ ?rem]) (auto split: if_splits)
  next
    case False
    have "well_encoded env codesep ?rem keys" using "3.prems"(1) by (auto simp: well_encoded_def)
    then obtain un where "multisig_loop env codesep ?rem keys = Inr (list_emb ?P ?rem keys, un)" "set un \<subseteq> set ?rem"
      using "3.IH" [OF enc(1,2,3) refl refl] False by auto
    then show ?thesis unfolding g step using False by (intro exI [of _ un]) (auto split: if_splits)
  qed
qed auto

subsection \<open>Pay to witness key hash\<close>

abbreviation ins_at :: "nat \<Rightarrow> opcode \<Rightarrow> instruction" where
  "ins_at off op \<equiv> \<lparr>ins_offset = off, ins_opcode = op, ins_data = [], ins_next = Suc off\<rparr>"

lemma next_plain_op:
  assumes "pos < length script" "script ! pos > OP_PUSHDATA4"
  shows "next_instruction script pos = Some (Inr (ins_at pos (script ! pos)), Suc pos)"
  using assms by (simp add: next_instruction_def finish_push_def Let_def not_le)

lemma instructions_plain_op:
  assumes "pos < length script" "script ! pos > OP_PUSHDATA4"
  shows "instructions script pos = Inr (ins_at pos (script ! pos)) # instructions script (Suc pos)"
  using next_plain_op [OF assms] by (subst instructions_unfold) simp

lemma instructions_direct_push:
  assumes "pos < length script" "script ! pos < OP_PUSHDATA1" "pos + 1 + unat (script ! pos) \<le> length script"
  shows "instructions script pos =
    Inr \<lparr>ins_offset = pos, ins_opcode = script ! pos, ins_data = take (unat (script ! pos)) (drop (pos + 1) script),
         ins_next = pos + 1 + unat (script ! pos)\<rparr> # instructions script (pos + 1 + unat (script ! pos))"
proof -
  have "script ! pos \<le> OP_PUSHDATA4" using assms(2) by (simp add: word_less_nat_alt word_le_nat_alt)
  with assms show ?thesis
    by (subst instructions_unfold) (simp add: next_instruction_def finish_push_def Let_def)
qed

lemma instructions_end: "length script \<le> pos \<Longrightarrow> instructions script pos = []"
  by (subst instructions_unfold) (simp add: next_instruction_def)

lemma p2wpkh_instructions:
  assumes "length program = 20"
  shows "instructions (p2wpkh_script program) 0 = map Inr
    [ins_at 0 OP_DUP, ins_at 1 OP_HASH160,
     \<lparr>ins_offset = 2, ins_opcode = 0x14, ins_data = program, ins_next = 23\<rparr>,
     ins_at 23 OP_EQUALVERIFY, ins_at 24 OP_CHECKSIG]"
proof -
  let ?s = "p2wpkh_script program"
  have len: "length ?s = 25" using assms by (simp add: p2wpkh_script_def)
  have n: "?s ! 0 = OP_DUP" "?s ! 1 = OP_HASH160" "?s ! 2 = 0x14" "?s ! 23 = OP_EQUALVERIFY" "?s ! 24 = OP_CHECKSIG"
    using assms by (simp_all add: p2wpkh_script_def nth_append)
  have d: "take 20 (drop 3 ?s) = program" using assms by (simp add: p2wpkh_script_def numeral_3_eq_3)
  have i0: "instructions ?s 0 = Inr (ins_at 0 OP_DUP) # instructions ?s 1"
    using instructions_plain_op [of 0 ?s] len n by simp
  have i1: "instructions ?s 1 = Inr (ins_at 1 OP_HASH160) # instructions ?s 2"
    using instructions_plain_op [of 1 ?s] len n unfolding Suc_1 by simp
  have i2: "instructions ?s 2 = Inr \<lparr>ins_offset = 2, ins_opcode = 0x14, ins_data = program, ins_next = 23\<rparr> #
      instructions ?s 23"
    using instructions_direct_push [of 2 ?s] len n d by simp
  have i3: "instructions ?s 23 = Inr (ins_at 23 OP_EQUALVERIFY) # instructions ?s 24"
    using instructions_plain_op [of 23 ?s] len n by simp
  have i4: "instructions ?s 24 = Inr (ins_at 24 OP_CHECKSIG) # instructions ?s 25"
    using instructions_plain_op [of 24 ?s] len n by simp
  have i5: "instructions ?s 25 = []" using instructions_end len by simp
  show ?thesis unfolding i0 i1 i2 i3 i4 i5 by simp
qed

text \<open>One executed step outside conditionals, for an opcode the operation limit counts.\<close>

abbreviation run_state :: "stack \<Rightarrow> nat \<Rightarrow> exec_data \<Rightarrow> eval_state" where
  "run_state s n ed \<equiv> \<lparr>es_stack = s, es_alt = [], es_cond = [], es_op_count = n, es_codesep = 0, es_exec = ed\<rparr>"

lemma p2wpkh_run:
  assumes "length program = 20" and v0: "env_sv env = WitnessV0" and "env_script env = p2wpkh_script program"
  shows "eval_script_with_data env [sig, pubkey] ed =
    (if hash160 (env_H env) pubkey \<noteq> program then Inl EqualVerify
     else and_then (eval_checksig_ecdsa env 0 sig pubkey) (\<lambda>ok. Inr ([bool_item ok], ed)))"
proof -
  note defs = eval_step_def count_op_def legacy_limits_def counts_towards_op_limit_def is_executing_def
    check_stack_size_def exec_instruction_def inactive_nop_def MAX_OPS_PER_SCRIPT_def MAX_STACK_SIZE_def
    MAX_SCRIPT_ELEMENT_SIZE_def is_disabled_def v0
  have s1: "eval_step env (run_state [sig, pubkey] 0 ed) (Inr (ins_at 0 OP_DUP)) =
      Inr (run_state [sig, pubkey, pubkey] 1 ed)"
    by (simp add: defs exec_op_def is_stack_op_def on_stack_def exec_stack_op_def stack_top_def)
  have s2: "eval_step env (run_state [sig, pubkey, pubkey] (Suc 0) ed) (Inr (ins_at (Suc 0) OP_HASH160)) =
      Inr (run_state [sig, pubkey, hash160 (env_H env) pubkey] 2 ed)"
    by (simp add: defs exec_op_def is_stack_op_def is_unary_num_def is_binary_num_def is_hash_op_def on_stack_def
        op_hash_def pop_def vec_pop_def hash_result_def)
  have s3: "eval_step env (run_state [sig, pubkey, h] 2 ed)
      (Inr \<lparr>ins_offset = 2, ins_opcode = 0x14, ins_data = program, ins_next = 23\<rparr>) =
      Inr (run_state [sig, pubkey, h, program] 2 ed)" for h
    using assms(1) by (auto simp: defs check_minimal_push_def)
  have s4: "eval_step env (run_state [sig, pubkey, h, program] 2 ed)
      (Inr \<lparr>ins_offset = 23, ins_opcode = OP_EQUALVERIFY, ins_data = [], ins_next = 24\<rparr>) =
      (if h \<noteq> program then Inl EqualVerify else Inr (run_state [sig, pubkey] 3 ed))" for h
    by (simp add: defs exec_op_def is_stack_op_def on_stack_def op_equal_def require_depth_def pop_def vec_pop_def)
  have s5: "eval_step env (run_state [sig, pubkey] 3 ed)
      (Inr \<lparr>ins_offset = 24, ins_opcode = OP_CHECKSIG, ins_data = [], ins_next = 25\<rparr>) =
      and_then (eval_checksig_ecdsa env 0 sig pubkey) (\<lambda>ok. Inr (run_state [bool_item ok] 4 ed))"
    by (cases "eval_checksig_ecdsa env 0 sig pubkey")
      (simp_all add: defs exec_op_def is_stack_op_def is_unary_num_def is_binary_num_def is_hash_op_def op_checksig_def
        require_depth_def pop_def vec_pop_def)
  have "length (env_script env) \<le> MAX_SCRIPT_SIZE"
    using assms(1,3) by (simp add: p2wpkh_script_def MAX_SCRIPT_SIZE_def)
  then have "eval_script_with_data env [sig, pubkey] ed =
      and_then (fold_res (eval_step env) (run_state [sig, pubkey] 0 ed) (instructions (env_script env) 0))
        (\<lambda>st. if es_cond st \<noteq> [] then Inl UnbalancedConditional else Inr (es_stack st, es_exec st))"
    by (simp add: eval_script_with_data_def)
  then show ?thesis
    unfolding assms(3) p2wpkh_instructions [OF assms(1)]
    by (cases "eval_checksig_ecdsa env 0 sig pubkey") (simp_all add: s1 s2 s3 s4 s5)
qed

lemma cast_to_bool_bool_item [simp]: "cast_to_bool (bool_item b) = b"
  by (simp add: bool_item_def)

text \<open>The outcome of every two-item witness for a 20-byte version 0 program.\<close>

lemma p2wpkh_outcome:
  fixes H :: digests and checker :: signature_checker and flags :: verify_flags and program sig pubkey :: bytes
  assumes "length program = 20"
  defines "env \<equiv> \<lparr>env_H = H, env_script = p2wpkh_script program, env_flags = flags, env_checker = checker,
      env_sv = WitnessV0\<rparr>"
  shows "verify_witness_v0 H [sig, pubkey] program flags checker =
    (if length sig > 520 \<or> length pubkey > 520 then Inl PushSize
     else if hash160 H pubkey \<noteq> program then Inl EqualVerify
     else and_then (eval_checksig_ecdsa env 0 sig pubkey) (\<lambda>ok. if ok then Inr () else Inl EvalFalse))"
  using assms(1) p2wpkh_run [of program env sig pubkey exec_data_new]
  by (cases "eval_checksig_ecdsa env 0 sig pubkey")
    (auto simp: verify_witness_v0_def WITNESS_V0_SCRIPTHASH_SIZE_def WITNESS_V0_KEYHASH_SIZE_def env_def
      execute_witness_script_def run_witness_script_def MAX_SCRIPT_ELEMENT_SIZE_def)

subsection \<open>Pay to script hash\<close>

lemma p2sh_instructions:
  assumes "is_pay_to_script_hash spk"
  shows "instructions spk 0 = map Inr
    [ins_at 0 OP_HASH160, \<lparr>ins_offset = 1, ins_opcode = 0x14, ins_data = take 20 (drop 2 spk), ins_next = 22\<rparr>,
     ins_at 22 OP_EQUAL]"
proof -
  have len: "length spk = 23" and n: "spk ! 0 = OP_HASH160" "spk ! 1 = 0x14" "spk ! 22 = OP_EQUAL"
    using assms by (simp_all add: is_pay_to_script_hash_def)
  have i0: "instructions spk 0 = Inr (ins_at 0 OP_HASH160) # instructions spk 1"
    using instructions_plain_op [of 0 spk] len n by simp
  have i1: "instructions spk 1 = Inr \<lparr>ins_offset = 1, ins_opcode = 0x14, ins_data = take 20 (drop 2 spk),
      ins_next = 22\<rparr> # instructions spk 22"
    using instructions_direct_push [of 1 spk] len n unfolding one_add_one by simp
  have i2: "instructions spk 22 = Inr (ins_at 22 OP_EQUAL) # instructions spk 23"
    using instructions_plain_op [of 22 spk] len n by simp
  show ?thesis unfolding i0 i1 i2 using instructions_end [of spk 23] len by simp
qed

text \<open>Running a P2SH output script replaces the top item by whether it hashes to the committed digest.\<close>

lemma p2sh_run:
  assumes p2sh: "is_pay_to_script_hash (env_script env)" and base: "env_sv env = Base"
    and run: "eval_script_with_data env (s @ [redeem]) ed = Inr (s', ed')"
  shows "s' = s @ [bool_item (hash160 (env_H env) redeem = take 20 (drop 2 (env_script env)))]"
proof -
  let ?h = "hash160 (env_H env) redeem" and ?p = "take 20 (drop 2 (env_script env))"
  note defs = eval_step_def count_op_def legacy_limits_def counts_towards_op_limit_def is_executing_def
    check_stack_size_def exec_instruction_def inactive_nop_def is_disabled_def base
  have len: "length (env_script env) = 23" using p2sh by (simp add: is_pay_to_script_hash_def)
  have s1: "st = run_state (s @ [?h]) 1 ed" if "eval_step env (run_state (s @ [redeem]) 0 ed) (Inr (ins_at 0 OP_HASH160)) = Inr st" for st
    using that by (auto simp: defs exec_op_def is_stack_op_def is_unary_num_def is_binary_num_def is_hash_op_def
        on_stack_def op_hash_def pop_def vec_pop_def hash_result_def split: if_splits elim!: and_then_InrE)
  have s2: "st = run_state (s @ [?h, ?p]) 1 ed" if "eval_step env (run_state (s @ [?h]) 1 ed)
      (Inr \<lparr>ins_offset = 1, ins_opcode = 0x14, ins_data = ?p, ins_next = 22\<rparr>) = Inr st" for st
    using that by (auto simp: defs split: if_splits elim!: and_then_InrE)
  have s3: "es_stack st = s @ [bool_item (?h = ?p)]" if "eval_step env (run_state (s @ [?h, ?p]) 1 ed)
      (Inr (ins_at 22 OP_EQUAL)) = Inr st" for st
    using that by (auto simp: defs exec_op_def is_stack_op_def on_stack_def op_equal_def require_depth_def pop_def
        vec_pop_def butlast_append split: if_splits elim!: and_then_InrE)
  have "\<exists>st1 st2 st3. eval_step env (run_state (s @ [redeem]) 0 ed) (Inr (ins_at 0 OP_HASH160)) = Inr st1 \<and>
      eval_step env st1 (Inr \<lparr>ins_offset = 1, ins_opcode = 0x14, ins_data = ?p, ins_next = 22\<rparr>) = Inr st2 \<and>
      eval_step env st2 (Inr (ins_at 22 OP_EQUAL)) = Inr st3 \<and> s' = es_stack st3"
    using run
    by (fastforce simp: eval_script_with_data_def p2sh_instructions [OF p2sh] split: if_splits elim!: and_then_InrE)
  then show ?thesis using s1 s2 s3 by blast
qed

lemma p2sh_commits:
  assumes "is_pay_to_script_hash spk" "eval_script H stack_after_sig spk flags checker Base = Inr stack"
    "require_true_top stack = Inr ()" "pop stack_after_sig = Inr (redeem, stack')"
  shows "hash160 H redeem = take 20 (drop 2 spk)"
proof -
  have "stack_after_sig = stack' @ [redeem]"
    using assms(4) by (auto simp: pop_def vec_pop_def split: if_splits)
  with assms(2) obtain ed' where "eval_script_with_data
      \<lparr>env_H = H, env_script = spk, env_flags = flags, env_checker = checker, env_sv = Base\<rparr>
      (stack' @ [redeem]) exec_data_new = Inr (stack, ed')"
    by (auto simp: eval_script_def elim!: and_then_InrE)
  from p2sh_run [OF _ _ this] assms(1,3) show ?thesis
    by (auto simp: require_true_top_def split: if_splits)
qed

subsection \<open>Witnesses are bound to the outputs they authorise\<close>

lemma run_witness_script_Inr:
  "run_witness_script env stack ed = Inr () \<longleftrightarrow>
    (\<forall>element \<in> set stack. length element \<le> MAX_SCRIPT_ELEMENT_SIZE) \<and>
    (\<exists>item ed'. eval_script_with_data env stack ed = Inr ([item], ed') \<and> cast_to_bool item)"
  by (cases "eval_script_with_data env stack ed")
    (auto simp: run_witness_script_def list_ex_iff not_less length_Suc_conv linorder_not_le [symmetric]
      split: if_splits prod.splits)

lemma parse_witness_program_not_p2sh:
  "parse_witness_program spk = Some wp \<Longrightarrow> \<not> is_pay_to_script_hash spk"
  by (auto simp: parse_witness_program_def is_pay_to_script_hash_def Let_def split: if_splits)

text \<open>
  A successful verification that carries a witness: the flag is on, and the witness was consumed
  by a native program with an empty scriptSig or by a program wrapped in P2SH whose scriptSig is
  exactly the push of that program.
\<close>

lemma verify_script_witness_bound:
  assumes "verify_script H ec ssig spk wit flags checker = Inr ()" "wit \<noteq> []"
  shows "contains flags FLAG_WITNESS \<and>
    ((\<exists>wp. parse_witness_program spk = Some wp \<and> ssig = [] \<and>
        verify_witness_program H ec wit (wp_version wp) (wp_program wp) flags checker False = Inr ()) \<or>
     (contains flags FLAG_P2SH \<and> is_pay_to_script_hash spk \<and>
      (\<exists>redeem wp. hash160 H redeem = take 20 (drop 2 spk) \<and> parse_witness_program redeem = Some wp \<and> ssig = push_data [] redeem \<and>
        verify_witness_program H ec wit (wp_version wp) (wp_program wp) flags checker True = Inr ())))"
  using assms p2sh_commits [of spk H _ flags checker]
  by (auto simp: verify_script_def verify_native_witness_def verify_p2sh_def
      split: if_splits prod.splits option.splits elim!: and_then_InrE) blast+

end
