(* ===== verification/HexText.thy ===== *)
theory HexText
  imports Hashes "HOL-Library.Code_Target_Numeral"
begin

text \<open>
  The text form of hashes, \<^verbatim>\<open>common/types/hash.rs\<close>.  Hexadecimal conversion is the third-party
  crate \<^verbatim>\<open>hex\<close>: the record \<open>hex_codec\<close> is its parameter, of which the code only sees success or
  failure, and \<open>hex_documented\<close> states its documentation: lower-case output, two digits of either
  case per input byte, and \<^verbatim>\<open>decode_to_slice\<close> failing when the text does not fill the slice.
\<close>

subsection \<open>The hex crate\<close>

record hex_codec =
  hex_encode :: "bytes \<Rightarrow> string"
  hex_decode :: "string \<Rightarrow> bytes option"
  decode_to_slice :: "string \<Rightarrow> nat \<Rightarrow> bytes option"

definition hex_digit :: "nat \<Rightarrow> char" where
  "hex_digit n = ''0123456789abcdef'' ! n"

definition hex_value :: "char \<Rightarrow> nat option" where
  "hex_value c =
     (let n = of_char c :: nat
      in if 48 \<le> n \<and> n \<le> 57 then Some (n - 48)
         else if 65 \<le> n \<and> n \<le> 70 then Some (n - 55)
         else if 97 \<le> n \<and> n \<le> 102 then Some (n - 87)
         else None)"

definition hex_text :: "bytes \<Rightarrow> string" where
  "hex_text bs = concat (map (\<lambda>b. [hex_digit (unat b div 16), hex_digit (unat b mod 16)]) bs)"

fun hex_bytes :: "string \<Rightarrow> bytes option" where
  "hex_bytes [] = Some []"
| "hex_bytes [c] = None"
| "hex_bytes (c # d # s) =
     (case (hex_value c, hex_value d, hex_bytes s) of
        (Some a, Some b, Some bs) \<Rightarrow> Some (word_of_nat (16 * a + b) # bs)
      | _ \<Rightarrow> None)"

definition hex_documented :: "hex_codec \<Rightarrow> bool" where
  "hex_documented X \<longleftrightarrow>
     (\<forall>bs. hex_encode X bs = hex_text bs) \<and> (\<forall>s. hex_decode X s = hex_bytes s) \<and>
     (\<forall>s n. decode_to_slice X s n =
        (case hex_bytes s of Some bs \<Rightarrow> if length bs = n then Some bs else None | None \<Rightarrow> None))"

definition reference_hex :: hex_codec where
  "reference_hex = \<lparr>hex_encode = hex_text, hex_decode = hex_bytes,
     decode_to_slice = (\<lambda>s n. case hex_bytes s of Some bs \<Rightarrow> if length bs = n then Some bs else None | None \<Rightarrow> None)\<rparr>"

lemma reference_hex_documented: "hex_documented reference_hex"
  by (simp add: hex_documented_def reference_hex_def)

subsection \<open>Hash texts\<close>

datatype (plugins only: code size) hash_error =
    WrongLength string nat nat
  | InvalidHex string string

text \<open>\<^verbatim>\<open>Display\<close> and \<^verbatim>\<open>FromStr\<close> of \<^verbatim>\<open>Hash256\<close>, \<^verbatim>\<open>BlockHash\<close> and \<^verbatim>\<open>Txid\<close>: the bytes in
  reverse order.  A panic of \<^verbatim>\<open>from_hex_be\<close> is \<^term>\<open>None\<close>.\<close>

definition hash_to_string :: "hex_codec \<Rightarrow> hash \<Rightarrow> string" where
  "hash_to_string X h = hex_encode X (rev h)"

definition hash_from_str :: "hex_codec \<Rightarrow> string \<Rightarrow> string \<Rightarrow> hash_error + hash" where
  "hash_from_str X context s =
     (case decode_to_slice X s 32 of
        None \<Rightarrow> Inl (InvalidHex context ''invalid hex string'')
      | Some bs \<Rightarrow> Inr (rev bs))"

definition from_hex_be :: "hex_codec \<Rightarrow> string \<Rightarrow> string \<Rightarrow> hash option" where
  "from_hex_be X context s = (case hash_from_str X context s of Inr h \<Rightarrow> Some h | Inl _ \<Rightarrow> None)"

text \<open>\<^verbatim>\<open>str::to_lowercase\<close> on the characters of one byte.\<close>

definition ascii_lower :: "char \<Rightarrow> char" where
  "ascii_lower c = (let n = of_char c :: nat in if 65 \<le> n \<and> n \<le> 90 then char_of (n + 32) else c)"

subsection \<open>Digits\<close>

lemma hex_value_digit:
  assumes "n < 16"
  shows "hex_value (hex_digit n) = Some n"
proof -
  have "\<forall>n\<in>set [0..<16]. hex_value (hex_digit n) = Some n" by code_simp
  with assms show ?thesis by auto
qed

lemma hex_digit_lower:
  "n < 10 \<Longrightarrow> hex_digit n = ascii_lower (char_of (48 + n))"
  "n < 6 \<Longrightarrow> hex_digit (10 + n) = ascii_lower (char_of (65 + n))"
  "n < 6 \<Longrightarrow> hex_digit (10 + n) = ascii_lower (char_of (97 + n))"
proof -
  have "list_all (\<lambda>n. hex_digit n = ascii_lower (char_of (48 + n))) [0..<10]"
    "list_all (\<lambda>n. hex_digit (10 + n) = ascii_lower (char_of (65 + n))) [0..<6]"
    "list_all (\<lambda>n. hex_digit (10 + n) = ascii_lower (char_of (97 + n))) [0..<6]"
    by code_simp+
  then show "n < 10 \<Longrightarrow> hex_digit n = ascii_lower (char_of (48 + n))"
    "n < 6 \<Longrightarrow> hex_digit (10 + n) = ascii_lower (char_of (65 + n))"
    "n < 6 \<Longrightarrow> hex_digit (10 + n) = ascii_lower (char_of (97 + n))"
    unfolding list_all_iff set_upt by (meson atLeastLessThan_iff zero_le)+
qed

lemma hex_value_SomeD:
  assumes "hex_value c = Some n"
  shows "n < 16 \<and> hex_digit n = ascii_lower c"
proof -
  define k where "k = (of_char c :: nat)"
  then have c: "c = char_of k" by simp
  show ?thesis
  proof (cases "48 \<le> k \<and> k \<le> 57")
    case True
    then have "k = 48 + n" "n < 10" using assms by (auto simp: hex_value_def k_def)
    then show ?thesis unfolding c by (simp add: hex_digit_lower(1))
  next
    case no_digit: False
    show ?thesis
    proof (cases "65 \<le> k \<and> k \<le> 70")
      case True
      with no_digit have "k = 65 + (n - 10)" "n - 10 < 6" "n = 10 + (n - 10)"
        using assms by (auto simp: hex_value_def k_def)
      then show ?thesis unfolding c using hex_digit_lower(2) [of "n - 10"] by simp
    next
      case False
      with no_digit have "k = 97 + (n - 10)" "n - 10 < 6" "n = 10 + (n - 10)"
        using assms by (auto simp: hex_value_def k_def Let_def split: if_splits)
      then show ?thesis unfolding c using hex_digit_lower(3) [of "n - 10"] by simp
    qed
  qed
qed

lemma hex_text_simps [simp]:
  "hex_text [] = []"
  "hex_text (b # bs) = hex_digit (unat b div 16) # hex_digit (unat b mod 16) # hex_text bs"
  by (simp_all add: hex_text_def)

lemma length_hex_text [simp]: "length (hex_text bs) = 2 * length bs"
  by (induction bs) auto

lemma hex_bytes_text [simp]: "hex_bytes (hex_text bs) = Some bs"
proof (induction bs)
  case (Cons b bs)
  have "unat b div 16 < 16" using unat_byte_lt [of b] by linarith
  with Cons show ?case by (simp add: hex_value_digit)
qed simp

lemma hex_text_bytes:
  "hex_bytes s = Some bs \<Longrightarrow> length s = 2 * length bs \<and> hex_text bs = map ascii_lower s"
proof (induction s arbitrary: bs rule: hex_bytes.induct)
  case (3 c d s)
  then obtain a b cs where eq: "hex_value c = Some a" "hex_value d = Some b" "hex_bytes s = Some cs"
    "bs = word_of_nat (16 * a + b) # cs"
    by (auto split: option.splits)
  have "a < 16" "b < 16" using hex_value_SomeD eq by blast+
  have "unat (word_of_nat (16 * a + b) :: u8) = (16 * a + b) mod 256" by (rule unat_word_of_nat_byte)
  moreover have "(16 * a + b) mod 256 = 16 * a + b" using \<open>a < 16\<close> \<open>b < 16\<close> by simp
  ultimately have "unat (word_of_nat (16 * a + b) :: u8) = 16 * a + b" by (rule trans)
  with eq \<open>a < 16\<close> \<open>b < 16\<close> show ?case
    using hex_value_SomeD [OF eq(1)] hex_value_SomeD [OF eq(2)] "3.IH" by simp
qed auto

subsection \<open>Round trip of hash texts\<close>

lemma hash_text_of:
  assumes "hex_documented X"
  shows "hash_to_string X h = hex_text (rev h)"
    "hash_from_str X context s = (case hex_bytes s of
       Some bs \<Rightarrow> if length bs = 32 then Inr (rev bs) else Inl (InvalidHex context ''invalid hex string'')
     | None \<Rightarrow> Inl (InvalidHex context ''invalid hex string''))"
    "length s \<noteq> 64 \<Longrightarrow> from_hex_be X context s = None"
  using assms hex_text_bytes [of s]
  by (auto simp: hex_documented_def hash_to_string_def hash_from_str_def from_hex_be_def split: option.splits)

lemma hash_from_str_to_string:
  assumes "hex_documented X" "wf_hash h"
  shows "hash_from_str X context (hash_to_string X h) = Inr h"
  using assms(2) by (simp add: hash_text_of [OF assms(1)] wf_hash_def)

lemma hash_to_string_from_str:
  assumes "hex_documented X" "hash_from_str X context s = Inr h"
  shows "wf_hash h \<and> hash_to_string X h = map ascii_lower s"
  using assms(2) hex_text_bytes [of s]
  by (auto simp: hash_text_of [OF assms(1)] wf_hash_def split: option.splits if_splits)

end
