(* ===== verification/Pow.thy ===== *)
theory Pow
  imports Compact
begin

text \<open>
  \<^verbatim>\<open>crates/consensus/pow.rs\<close> and the consensus parameters of \<^verbatim>\<open>types/params.rs\<close>: difficulty
  retargeting and chain work, with the multi-limb arithmetic as the code writes it and the
  numbers it computes.
\<close>

subsection \<open>Parameters\<close>

record consensus_params =
  bip34_height :: u32
  bip65_height :: u32
  bip66_height :: u32
  segwit_height :: u32
  pow_limit :: hash
  pow_target_spacing :: u64
  pow_target_timespan :: u64
  pow_no_retargeting :: bool
  f_pow_allow_min_difficulty_blocks :: bool
  n_subsidy_halving_interval :: u32
  n_minimum_chain_work :: hash
  default_assume_valid :: hash
  signet_blocks :: bool
  signet_challenge :: bytes

subsection \<open>Chain work\<close>

text \<open>
  Adding a carry into a little-endian byte array: \<^verbatim>\<open>sum = b + carry\<close> in \<^verbatim>\<open>u16\<close>, which the
  two bytes and a carry of at most one never overflow.
\<close>

fun add_carry :: "bytes \<Rightarrow> nat \<Rightarrow> bytes" where
  "add_carry [] carry = []"
| "add_carry (b # bs) carry =
     (let sum = unat b + carry in word_of_nat (sum mod 256) # add_carry bs (sum div 256))"

fun add_bytes :: "bytes \<Rightarrow> bytes \<Rightarrow> nat \<Rightarrow> bytes" where
  "add_bytes (a # as) (b # bs) carry =
     (let sum = unat a + unat b + carry in word_of_nat (sum mod 256) # add_bytes as bs (sum div 256))"
| "add_bytes _ _ carry = []"

text \<open>Shift the remainder left by one bit, moving the carry bit \<open>c\<close> from byte to byte.\<close>

fun shl1 :: "bytes \<Rightarrow> u8 \<Rightarrow> bytes" where
  "shl1 [] c = []"
| "shl1 (b # bs) c = (push_bit 1 b OR c) # shl1 bs (drop_bit 7 b)"

text \<open>The comparison loop from the most significant byte, and the subtraction with borrow.\<close>

primrec bytes_ge :: "nat \<Rightarrow> bytes \<Rightarrow> bytes \<Rightarrow> bool" where
  "bytes_ge 0 r d = True"
| "bytes_ge (Suc j) r d =
     (if r ! j < d ! j then False else if r ! j > d ! j then True else bytes_ge j r d)"

fun sub_borrow :: "bytes \<Rightarrow> bytes \<Rightarrow> int \<Rightarrow> bytes" where
  "sub_borrow (r # rs) (d # ds) borrow =
     (let diff = int (unat r) - int (unat d) - borrow
      in if diff < 0 then word_of_int (diff + 256) # sub_borrow rs ds 1
         else word_of_int diff # sub_borrow rs ds 0)"
| "sub_borrow _ _ borrow = []"

text \<open>One round of the long division for bit \<open>i\<close>, and the loop \<^verbatim>\<open>for i in (0..256).rev()\<close>.\<close>

definition div_step :: "bytes \<Rightarrow> bytes \<Rightarrow> nat \<Rightarrow> bytes \<times> bytes \<Rightarrow> bytes \<times> bytes" where
  "div_step numerator denominator i qr =
     (let quotient = fst qr;
          remainder = shl1 (snd qr) 0;
          b = drop_bit (i mod 8) (numerator ! (i div 8)) AND 1;
          remainder = remainder[0 := remainder ! 0 OR b]
      in if bytes_ge 32 remainder denominator
         then (quotient[i div 8 := quotient ! (i div 8) OR push_bit (i mod 8) 1],
               sub_borrow remainder denominator 0)
         else (quotient, remainder))"

primrec div_loop :: "bytes \<Rightarrow> bytes \<Rightarrow> nat \<Rightarrow> bytes \<times> bytes \<Rightarrow> bytes \<times> bytes" where
  "div_loop numerator denominator 0 qr = qr"
| "div_loop numerator denominator (Suc i) qr =
     div_loop numerator denominator i (div_step numerator denominator i qr)"

definition calculate_block_work :: "u32 \<Rightarrow> hash" where
  "calculate_block_work bits =
     (let t = bits_to_target bits
      in if is_zero t then hash_ZERO
         else
           let numerator = map (\<lambda>b. NOT b) t;
               denominator = add_carry t 1;
               quotient = fst (div_loop numerator denominator 256 (replicate 32 0, replicate 32 0))
           in add_carry quotient 1)"

definition add_chain_work :: "hash \<Rightarrow> hash \<Rightarrow> hash" where
  "add_chain_work a b = add_bytes a b 0"

subsection \<open>Retargeting\<close>

text \<open>
  The sixteen 32-bit limbs of \<open>multiply_and_divide\<close>, as naturals below \<open>2\<^sup>3\<^sup>2\<close>; the
  intermediate \<^verbatim>\<open>u128\<close> values stay below \<open>2\<^sup>1\<^sup>2\<^sup>8\<close>.  \<^verbatim>\<open>as u32\<close> is written out.
\<close>

fun mul_limbs :: "nat list \<Rightarrow> nat \<Rightarrow> nat \<Rightarrow> nat list" where
  "mul_limbs [] mul carry = []"
| "mul_limbs (l # ls) mul carry =
     (let val = l * mul + carry in val mod 2 ^ 32 # mul_limbs ls mul (val div 2 ^ 32))"

text \<open>The division runs from the most significant limb; the list is given in that order.\<close>

fun div_limbs_rev :: "nat list \<Rightarrow> nat \<Rightarrow> nat \<Rightarrow> nat list" where
  "div_limbs_rev [] d r = []"
| "div_limbs_rev (l # ls) d r =
     (let val = l + r * 2 ^ 32 in val div d mod 2 ^ 32 # div_limbs_rev ls d (val mod d))"

fun limbs_of_bytes :: "bytes \<Rightarrow> nat list" where
  "limbs_of_bytes (a # b # c # d # bs) = le_nat [a, b, c, d] # limbs_of_bytes bs"
| "limbs_of_bytes _ = []"

definition bytes_of_limbs :: "nat list \<Rightarrow> bytes" where
  "bytes_of_limbs ls = concat (map (le_bytes 4) ls)"

text \<open>\<open>None\<close> is the panic of a division by zero.\<close>

definition multiply_and_divide :: "hash \<Rightarrow> u64 \<Rightarrow> u64 \<Rightarrow> hash option" where
  "multiply_and_divide t mul d =
     (if d = 0 then None
      else
        let expanded = limbs_of_bytes t @ replicate 8 0;
            expanded = mul_limbs expanded (unat mul) 0;
            expanded = rev (div_limbs_rev (rev expanded) (unat d) 0)
        in if \<exists>l \<in> set (drop 8 expanded). l \<noteq> 0 then Some (replicate 32 0xFF)
           else Some (bytes_of_limbs (take 8 expanded)))"

text \<open>\<^verbatim>\<open>as i64\<close> reinterprets the word, \<^verbatim>\<open>as u64\<close> goes back.\<close>

definition calculate_next_work_required :: "block_index \<Rightarrow> u32 \<Rightarrow> consensus_params \<Rightarrow> u32 option" where
  "calculate_next_work_required index_prev first_block_time params =
     (if pow_no_retargeting params then Some (bh_bits (bi_header index_prev))
      else
        let actual_timespan = int (unat (bh_time (bi_header index_prev)) - unat first_block_time);
            min_timespan = sint (pow_target_timespan params div 4);
            max_timespan = sint (pow_target_timespan params * 4);
            actual_timespan = (if actual_timespan < min_timespan then min_timespan else actual_timespan);
            actual_timespan = (if actual_timespan > max_timespan then max_timespan else actual_timespan);
            t = bits_to_target (bh_bits (bi_header index_prev))
        in map_option
             (\<lambda>t. target_to_bits (if hash_gt t (pow_limit params) then pow_limit params else t))
             (multiply_and_divide t (word_of_int actual_timespan) (pow_target_timespan params)))"

text \<open>
  \<open>get_next_work_required\<close>; the provider is \<^verbatim>\<open>BlockIndexProvider::get_block_index_by_height\<close>.
  Unsigned additions wrap as in a release build; \<open>None\<close> is again a division by zero.
\<close>

definition get_next_work_required ::
  "block_index \<Rightarrow> block_header \<Rightarrow> consensus_params \<Rightarrow> (u32 \<Rightarrow> block_index option) \<Rightarrow> u32 option" where
  "get_next_work_required index_prev hdr params provider =
     (if pow_no_retargeting params then Some (bh_bits (bi_header index_prev))
      else if f_pow_allow_min_difficulty_blocks params then
        (if bh_time hdr > bh_time (bi_header index_prev) + ucast (pow_target_spacing params) * 2
         then Some (target_to_bits (pow_limit params))
         else Some (bh_bits (bi_header index_prev)))
      else if pow_target_spacing params = 0 then None
      else
        let next_height = bi_height index_prev + 1;
            interval = ucast (pow_target_timespan params div pow_target_spacing params) :: u32
        in if interval = 0 then None
           else if next_height mod interval \<noteq> 0 then Some (bh_bits (bi_header index_prev))
           else
             let first_height =
                   (if bi_height index_prev < interval - 1 then 0 else bi_height index_prev - (interval - 1))
             in case provider first_height of
                  None \<Rightarrow> Some (bh_bits (bi_header index_prev))
                | Some index_first \<Rightarrow>
                    calculate_next_work_required index_prev (bh_time (bi_header index_first)) params)"

subsection \<open>Byte-array arithmetic computes on numbers\<close>

lemma word_of_nat_mod_256: "unat (word_of_nat (n mod 256) :: u8) = n mod 256"
  by (simp add: unat_word_of_nat_byte)

lemma length_add_carry [simp]: "length (add_carry bs c) = length bs"
  by (induction bs c rule: add_carry.induct) (auto simp: Let_def)

lemma le_nat_digit:
  "s mod 256 + 256 * ((n + s div 256) mod P) = (s + 256 * n) mod (256 * P :: nat)"
  by (simp add: mod_mult2_eq add.commute)

lemma le_nat_add_carry: "le_nat (add_carry bs c) = (le_nat bs + c) mod 256 ^ length bs"
proof (induction bs c rule: add_carry.induct)
  case (2 b bs carry)
  let ?s = "unat b + carry"
  have "le_nat (add_carry (b # bs) carry) = ?s mod 256 + 256 * ((le_nat bs + ?s div 256) mod 256 ^ length bs)"
    using 2 by (simp add: Let_def word_of_nat_mod_256)
  also have "\<dots> = (le_nat (b # bs) + carry) mod 256 ^ length (b # bs)"
    unfolding le_nat_digit by (simp add: ac_simps)
  finally show ?case .
qed simp

lemma length_add_bytes [simp]: "length as = length bs \<Longrightarrow> length (add_bytes as bs c) = length as"
  by (induction as bs c rule: add_bytes.induct) (auto simp: Let_def)

lemma le_nat_add_bytes:
  "length as = length bs \<Longrightarrow> le_nat (add_bytes as bs c) = (le_nat as + le_nat bs + c) mod 256 ^ length as"
proof (induction as bs c rule: add_bytes.induct)
  case (1 a as b bs carry)
  let ?s = "unat a + unat b + carry"
  have "le_nat (add_bytes (a # as) (b # bs) carry) =
      ?s mod 256 + 256 * ((le_nat as + le_nat bs + ?s div 256) mod 256 ^ length as)"
    using 1 by (simp add: Let_def word_of_nat_mod_256)
  also have "\<dots> = (le_nat (a # as) + le_nat (b # bs) + carry) mod 256 ^ length (a # as)"
    unfolding le_nat_digit by (simp add: algebra_simps)
  finally show ?case .
qed auto

lemma add_chain_work_value:
  "wf_hash a \<Longrightarrow> wf_hash b \<Longrightarrow>
    wf_hash (add_chain_work a b) \<and> le_nat (add_chain_work a b) = (le_nat a + le_nat b) mod 2 ^ 256"
  by (simp add: add_chain_work_def wf_hash_def le_nat_add_bytes)

lemma unat_NOT_byte: "unat (NOT b :: u8) = 255 - unat b"
proof -
  have "unat (NOT b) = unat (- 1 - b)" by (metis diff_conv_add_uminus minus_diff_commute not_eq_complement)
  also have "\<dots> = unat (- 1 :: u8) - unat b" by (rule unat_sub) simp
  finally show ?thesis by (simp add: unsigned_minus_1_eq_mask mask_eq_exp_minus_1)
qed

lemma le_nat_map_NOT: "le_nat (map (\<lambda>b. NOT b) bs) = 256 ^ length bs - 1 - le_nat bs"
proof (induction bs)
  case (Cons b bs)
  have "unat b \<le> 255" using unat_byte_lt [of b] by (simp del: unat_byte_lt)
  moreover have "le_nat bs < 256 ^ length bs" by (rule le_nat_lt)
  ultimately show ?case using Cons by (simp add: algebra_simps unat_NOT_byte)
qed simp

subsection \<open>The long division\<close>

lemma length_shl1 [simp]: "length (shl1 bs c) = length bs"
  by (induction bs c rule: shl1.induct) auto

lemma double_mod_256:
  assumes "c \<le> (1 :: nat)"
  shows "(2 * u + c) mod 256 = 2 * (u mod 128) + c"
proof -
  have "(2 * u + c) div 2 = u" "(2 * u + c) mod 2 = c" using assms by auto
  then show ?thesis using mod_mult2_eq [of "2 * u + c" 2 128] by simp
qed

lemma unat_shl1_byte:
  assumes c: "unat c \<le> 1"
  shows "unat (push_bit 1 b OR c :: u8) = (2 * unat b + unat c) mod 256"
proof -
  have "unat (push_bit 1 b OR c) = push_bit 1 (unat b) mod 256 OR unat c"
    unfolding unsigned_or_eq unsigned_push_bit_eq by (simp add: take_bit_eq_mod)
  also have "push_bit 1 (unat b) mod 256 = push_bit 1 (unat b mod 128)"
    using double_mod_256 [of 0 "unat b"] by (simp add: push_bit_eq_mult mult.commute)
  also have "\<dots> OR unat c = 2 * (unat b mod 128) + unat c"
    using c by (subst nat_or_shift) auto
  also have "\<dots> = (2 * unat b + unat c) mod 256" using double_mod_256 [OF c] by simp
  finally show ?thesis .
qed

lemma unat_drop_bit_byte: "unat (drop_bit n b :: u8) = unat b div 2 ^ n"
  using unsigned_drop_bit_eq [of n b, where ?'a = nat]
  by (simp add: drop_bit_eq_div take_bit_nat_eq_self)

lemma le_nat_shl1: "unat c \<le> 1 \<Longrightarrow> le_nat (shl1 bs c) = (2 * le_nat bs + unat c) mod 256 ^ length bs"
proof (induction bs c rule: shl1.induct)
  case (2 b bs c)
  let ?s = "2 * unat b + unat c"
  have hi: "unat (drop_bit 7 b) = ?s div 256" "unat (drop_bit 7 b) \<le> 1"
    using 2(2) unat_byte_lt [of b] unfolding unat_drop_bit_byte by (auto simp del: unat_byte_lt)
  have "le_nat (shl1 (b # bs) c) = ?s mod 256 + 256 * ((2 * le_nat bs + ?s div 256) mod 256 ^ length bs)"
    using 2(1) [OF hi(2)] hi(1) unat_shl1_byte [OF 2(2), of b] by simp
  also have "\<dots> = (2 * le_nat (b # bs) + unat c) mod 256 ^ length (b # bs)"
    unfolding le_nat_digit by (simp add: algebra_simps)
  finally show ?case .
qed simp

lemma shl1_set_bit:
  "bs \<noteq> [] \<Longrightarrow> (shl1 bs 0)[0 := shl1 bs 0 ! 0 OR c] = shl1 bs c"
  by (cases bs) auto

lemma bytes_ge_numeric:
  "j \<le> length r \<Longrightarrow> length r = length d \<Longrightarrow>
    bytes_ge j r d \<longleftrightarrow> le_nat (take j d) \<le> le_nat (take j r)"
proof (induction j)
  case (Suc j)
  consider "r ! j < d ! j" | "r ! j = d ! j" | "d ! j < r ! j" by fastforce
  then show ?case
  proof cases
    case 1
    with le_nat_take_less [of j r d] Suc.prems show ?thesis by simp
  next
    case 2
    with Suc show ?thesis by (simp add: le_nat_take_Suc)
  next
    case 3
    with le_nat_take_less [of j d r] Suc.prems show ?thesis by auto
  qed
qed simp

lemma length_sub_borrow [simp]: "length r = length d \<Longrightarrow> length (sub_borrow r d b) = length r"
  by (induction r d b rule: sub_borrow.induct) (auto simp: Let_def)

lemma uint_word_of_int_byte: "0 \<le> x \<Longrightarrow> x < 256 \<Longrightarrow> uint (word_of_int x :: u8) = x"
  by (simp add: unsigned_of_int take_bit_int_eq_self)

lemma borrow_digit:
  assumes "- 256 \<le> x" "x < (256 :: int)" and P: "0 < P"
  shows "x + 256 * (if x < 0 then 1 else 0) + 256 * ((n - (if x < 0 then 1 else 0)) mod P)
    = (x + 256 * n) mod (256 * P)"
proof -
  have "x mod 256 = x + 256 * (if x < 0 then 1 else 0)"
  proof (cases "x < 0")
    case True
    have "x mod 256 = (x + 256) mod 256" by simp
    also have "\<dots> = x + 256" using True assms by (intro mod_pos_pos_trivial) auto
    finally show ?thesis using True by simp
  qed (use assms in auto)
  moreover have "(x + 256 * n) div 256 = n - (if x < 0 then 1 else 0)"
  proof (cases "x < 0")
    case True
    have "(x + 256 * n) div 256 = (x + 256 + 256 * (n - 1)) div 256" by (simp add: algebra_simps)
    also have "\<dots> = (x + 256) div 256 + (n - 1)" by simp
    also have "(x + 256) div 256 = 0" using True assms by (intro div_pos_pos_trivial) auto
    finally show ?thesis using True by simp
  qed (use assms in \<open>auto simp: div_pos_pos_trivial\<close>)
  moreover have "(x + 256 * n) mod 256 = x mod 256" by simp
  ultimately show ?thesis using zmod_zmult2_eq [of P "x + 256 * n" 256] P by simp
qed

lemma le_nat_sub_borrow:
  "length r = length d \<Longrightarrow> 0 \<le> b \<Longrightarrow> b \<le> 1 \<Longrightarrow>
    int (le_nat (sub_borrow r d b)) = (int (le_nat r) - int (le_nat d) - b) mod 256 ^ length r"
proof (induction r d b rule: sub_borrow.induct)
  case (1 r rs d ds b)
  define x where "x = int (unat r) - int (unat d) - b"
  define n where "n = int (le_nat rs) - int (le_nat ds)"
  let ?c = "if x < 0 then 1 else (0 :: int)"
  have "unat r < 256" "unat d < 256" by auto
  then have x: "- 256 \<le> x" "x < 256"
    using 1(4,5) unfolding x_def by linarith+
  have "sub_borrow (r # rs) (d # ds) b = word_of_int (x + 256 * ?c) # sub_borrow rs ds ?c"
    unfolding sub_borrow.simps Let_def x_def by auto
  moreover have "int (le_nat (sub_borrow rs ds ?c)) = (n - ?c) mod 256 ^ length rs"
    using 1(1,2) [OF refl] 1(3) unfolding n_def x_def by auto
  moreover have "uint (word_of_int (x + 256 * ?c) :: u8) = x + 256 * ?c"
    using x by (intro uint_word_of_int_byte) auto
  ultimately have "int (le_nat (sub_borrow (r # rs) (d # ds) b)) =
      x + 256 * ?c + 256 * ((n - ?c) mod 256 ^ length rs)"
    by (simp del: of_int_add sub_borrow.simps)
  also have "\<dots> = (x + 256 * n) mod (256 * 256 ^ length rs)"
    by (rule borrow_digit [OF x]) simp
  finally show ?case by (simp add: x_def n_def algebra_simps)
qed auto

lemma bit_le_nat: "bit (le_nat bs) i \<longleftrightarrow> i < 8 * length bs \<and> bit (bs ! (i div 8)) (i mod 8)"
proof (induction bs arbitrary: i)
  case (Cons b bs)
  have "le_nat (b # bs) = push_bit 8 (le_nat bs) OR unat b"
    by (subst nat_or_shift) auto
  then have "bit (le_nat (b # bs)) i \<longleftrightarrow> (8 \<le> i \<and> bit (le_nat bs) (i - 8)) \<or> (i < 8 \<and> bit b i)"
    using bit_imp_le_length [of b i]
    by (simp only: bit_or_iff bit_push_bit_iff_nat bit_unsigned_iff) auto
  also have "\<dots> \<longleftrightarrow> i < 8 * length (b # bs) \<and> bit ((b # bs) ! (i div 8)) (i mod 8)"
  proof (cases "i < 8")
    case False
    then obtain j where j: "i = 8 + j" using le_Suc_ex not_less by blast
    then have "i div 8 = Suc (j div 8)" "i mod 8 = j mod 8" by auto
    then show ?thesis using Cons [of j] j by (simp only: nth_Cons_Suc) auto
  qed auto
  finally show ?case .
qed simp

lemma nat_bit_value: "of_bool (bit n i) = n div 2 ^ i mod (2 :: nat)"
  by (simp add: bit_iff_odd mod_2_eq_odd)

lemma unat_select_bit:
  "i < 8 * length bs \<Longrightarrow> unat (drop_bit (i mod 8) (bs ! (i div 8)) AND 1) = le_nat bs div 2 ^ i mod 2"
  unfolding nat_bit_value [symmetric] bit_le_nat
  by (simp add: and_one_eq bit_iff_odd_drop_bit mod_2_eq_odd)

lemma le_nat_set_bit:
  assumes "i < 8 * length bs"
  shows "le_nat (bs[i div 8 := bs ! (i div 8) OR push_bit (i mod 8) 1]) = set_bit i (le_nat bs)"
proof (rule bit_eqI)
  fix n
  show "bit (le_nat (bs[i div 8 := bs ! (i div 8) OR push_bit (i mod 8) 1])) n = bit (set_bit i (le_nat bs)) n"
  proof (cases "n div 8 = i div 8")
    case True
    then have "n = i \<longleftrightarrow> n mod 8 = i mod 8" by (metis div_mult_mod_eq)
    then show ?thesis
      using True assms by (auto simp: bit_le_nat bit_set_bit_iff bit_or_iff bit_exp_iff)
  next
    case False
    then have "n \<noteq> i" by auto
    with False assms show ?thesis by (auto simp: bit_le_nat bit_set_bit_iff)
  qed
qed

lemma div_step_digit:
  fixes A D \<beta> :: nat
  assumes "0 < D" "\<beta> \<le> 1"
  shows "(2 * A + \<beta>) div D = 2 * (A div D) + of_bool (D \<le> 2 * (A mod D) + \<beta>)"
    and "(2 * A + \<beta>) mod D = 2 * (A mod D) + \<beta> - (if D \<le> 2 * (A mod D) + \<beta> then D else 0)"
proof -
  let ?r = "2 * (A mod D) + \<beta>"
  have "A mod D < D" using assms by simp
  then have r: "?r < 2 * D" using assms(2) by linarith
  have A: "2 * A + \<beta> = D * (2 * (A div D)) + ?r"
    using mult_div_mod_eq [of D A] by (metis add.assoc add_mult_distrib2 mult.left_commute)
  have "?r div D = of_bool (D \<le> ?r) \<and> ?r mod D = ?r - (if D \<le> ?r then D else 0)"
    using r assms(1) by (auto simp: div_nat_eqI le_mod_geq)
  then show "(2 * A + \<beta>) div D = 2 * (A div D) + of_bool (D \<le> ?r)"
    "(2 * A + \<beta>) mod D = ?r - (if D \<le> ?r then D else 0)"
    unfolding A using assms(1) by auto
qed

definition div_inv :: "bytes \<Rightarrow> bytes \<Rightarrow> nat \<Rightarrow> bytes \<times> bytes \<Rightarrow> bool" where
  "div_inv n d i qr \<longleftrightarrow> length (fst qr) = 32 \<and> length (snd qr) = 32 \<and>
     le_nat (fst qr) = 2 ^ i * (le_nat n div 2 ^ i div le_nat d) \<and>
     le_nat (snd qr) = le_nat n div 2 ^ i mod le_nat d"

lemma div_step_inv:
  assumes inv: "div_inv n d (Suc i) qr" and i: "i < 256" and len: "length n = 32" "length d = 32"
    and D: "0 < le_nat d"
  shows "div_inv n d i (div_step n d i qr)"
proof -
  obtain q r where qr: "qr = (q, r)" by (cases qr)
  define A where "A = le_nat n div 2 ^ Suc i"
  define \<beta> where "\<beta> = le_nat n div 2 ^ i mod 2"
  let ?b = "drop_bit (i mod 8) (n ! (i div 8)) AND 1"
  let ?r = "shl1 r ?b"
  have q: "length q = 32" "le_nat q = 2 ^ Suc i * (A div le_nat d)"
    and r: "length r = 32" "le_nat r = A mod le_nat d"
    using inv by (auto simp: div_inv_def qr A_def)
  have b: "unat ?b = \<beta>" using unat_select_bit [of i n] i len by (simp add: \<beta>_def)
  have \<beta>: "\<beta> \<le> 1" unfolding \<beta>_def by linarith
  have N: "le_nat n div 2 ^ i = 2 * A + \<beta>"
    unfolding A_def \<beta>_def power_Suc2 div_mult2_eq by simp
  have "2 * (A mod le_nat d) + \<beta> \<le> le_nat n div 2 ^ i"
    unfolding N by (simp add: mod_less_eq_dividend)
  also have "\<dots> \<le> le_nat n" by simp
  also have "\<dots> < 256 ^ 32" using le_nat_lt [of n] len by simp
  finally have rv: "le_nat ?r = 2 * (A mod le_nat d) + \<beta>"
    using le_nat_shl1 [of ?b r] b \<beta> r by simp
  have r0: "(shl1 r 0)[0 := shl1 r 0 ! 0 OR ?b] = ?r"
    using r by (intro shl1_set_bit) auto
  have ge: "bytes_ge 32 ?r d \<longleftrightarrow> le_nat d \<le> 2 * (A mod le_nat d) + \<beta>"
    using bytes_ge_numeric [of 32 ?r d] r len rv by simp
  have step: "div_step n d i qr = (if le_nat d \<le> 2 * (A mod le_nat d) + \<beta>
       then (q[i div 8 := q ! (i div 8) OR push_bit (i mod 8) 1], sub_borrow ?r d 0) else (q, ?r))"
    unfolding div_step_def Let_def qr fst_conv snd_conv r0 ge ..
  note digit = div_step_digit [OF D \<beta>, of A]
  show ?thesis
  proof (cases "le_nat d \<le> 2 * (A mod le_nat d) + \<beta>")
    case True
    have "\<not> bit (le_nat q) i" unfolding q(2) by (simp add: bit_iff_odd)
    then have "le_nat (q[i div 8 := q ! (i div 8) OR push_bit (i mod 8) 1]) = le_nat q + 2 ^ i"
      using le_nat_set_bit [of i q] i q(1) by (simp add: set_bit_eq)
    moreover have "int (le_nat (sub_borrow ?r d 0)) = int (2 * (A mod le_nat d) + \<beta> - le_nat d)"
    proof -
      have "le_nat ?r - le_nat d < 256 ^ 32" using le_nat_lt [of ?r] r by simp
      then show ?thesis
        using le_nat_sub_borrow [of ?r d 0] r len rv True by (simp add: of_nat_diff mod_pos_pos_trivial)
    qed
    ultimately show ?thesis
      using True q r digit len by (simp add: div_inv_def step N algebra_simps del: of_nat_diff)
  next
    case False
    then show ?thesis using q r digit rv by (simp add: div_inv_def step N)
  qed
qed

lemma div_loop_inv:
  assumes "div_inv n d i qr" "i \<le> 256" "length n = 32" "length d = 32" "0 < le_nat d"
  shows "div_inv n d 0 (div_loop n d i qr)"
  using assms(1,2)
proof (induction i arbitrary: qr)
  case (Suc i)
  have "div_inv n d i (div_step n d i qr)"
    using Suc.prems assms(3-) by (intro div_step_inv) auto
  then show ?case using Suc by simp
qed simp

lemma div_loop_quotient:
  assumes "length n = 32" "length d = 32" "0 < le_nat d"
  shows "le_nat (fst (div_loop n d 256 (replicate 32 0, replicate 32 0))) = le_nat n div le_nat d"
    and "length (fst (div_loop n d 256 (replicate 32 0, replicate 32 0))) = 32"
proof -
  have "le_nat n < 2 ^ 256" using le_nat_lt [of n] assms(1) by simp
  then have "div_inv n d 256 (replicate 32 0, replicate 32 0)"
    unfolding div_inv_def by simp
  from div_loop_inv [OF this _ assms] show
    "le_nat (fst (div_loop n d 256 (replicate 32 0, replicate 32 0))) = le_nat n div le_nat d"
    "length (fst (div_loop n d 256 (replicate 32 0, replicate 32 0))) = 32"
    by (auto simp: div_inv_def)
qed

lemma bits_to_target_wf [simp]: "wf_hash (bits_to_target bits)" "length (bits_to_target bits) = 32"
  using bits_to_target_value [of bits] by (auto simp: wf_hash_def)

lemma bits_to_target_lt_max: "le_nat (bits_to_target bits) + 1 < 2 ^ 256"
proof -
  define e where "e = unat bits div 2 ^ 24"
  define m where "m = unat bits mod 2 ^ 24"
  have v: "le_nat (bits_to_target bits) = (if e = 0 then 0 else m * 256 ^ (e - 3) mod 256 ^ 32)"
    using bits_to_target_value [of bits] by (simp add: e_def m_def)
  consider "e = 0" | "e \<noteq> 0" "e - 3 = 0" | "e \<noteq> 0" "0 < e - 3" by blast
  then show ?thesis
  proof cases
    case 2
    moreover have "m < 2 ^ 24" by (simp add: m_def)
    ultimately show ?thesis unfolding v by simp
  next
    case 3
    have "256 dvd m * 256 ^ (e - 3)" using 3 by (intro dvd_mult dvd_power) auto
    then have "256 dvd le_nat (bits_to_target bits)"
      unfolding v using 3 by (simp add: dvd_mod_iff)
    then obtain k where k: "le_nat (bits_to_target bits) = 256 * k" by blast
    have "le_nat (bits_to_target bits) < 256 * 256 ^ 31"
      using le_nat_lt [of "bits_to_target bits"] by simp
    then have "k + 1 \<le> 256 ^ 31" unfolding k by linarith
    then have "256 * (k + 1) \<le> 256 * 256 ^ 31" by (rule mult_left_mono) simp
    then show ?thesis unfolding k by simp
  qed (simp add: v)
qed

lemma block_work_value:
  fixes bits :: u32
  defines "t \<equiv> le_nat (bits_to_target bits)"
  shows "le_nat (calculate_block_work bits) = (if t = 0 then 0 else 2 ^ 256 div (t + 1))"
    and "wf_hash (calculate_block_work bits)"
proof -
  let ?t = "bits_to_target bits"
  let ?n = "map (\<lambda>b. NOT b) ?t" and ?d = "add_carry ?t 1"
  have len: "length ?n = 32" "length ?d = 32" by simp_all
  have t: "t + 1 < 2 ^ 256" unfolding t_def by (rule bits_to_target_lt_max)
  have n: "le_nat ?n = 2 ^ 256 - 1 - t" unfolding le_nat_map_NOT t_def by simp
  have d: "le_nat ?d = t + 1" unfolding le_nat_add_carry using t by (simp add: t_def)
  define q where "q = fst (div_loop ?n ?d 256 (replicate 32 0, replicate 32 0))"
  have q: "le_nat q = (2 ^ 256 - (t + 1)) div (t + 1)" "length q = 32"
    using div_loop_quotient [OF len] d unfolding q_def n by auto
  have "2 ^ 256 div (t + 1) = (2 ^ 256 - (t + 1)) div (t + 1) + 1"
    using t by (subst le_div_geq) auto
  moreover have "(2 :: nat) ^ 256 div (t + 1) < 2 ^ 256" if "t \<noteq> 0"
    using that by (intro div_less_dividend) auto
  ultimately have "le_nat (add_carry q 1) = 2 ^ 256 div (t + 1)" if "t \<noteq> 0"
    unfolding le_nat_add_carry q using that by simp
  then show "le_nat (calculate_block_work bits) = (if t = 0 then 0 else 2 ^ 256 div (t + 1))"
    unfolding calculate_block_work_def Let_def is_zero_numeric q_def t_def by (auto simp: hash_ZERO_def)
  show "wf_hash (calculate_block_work bits)"
    unfolding calculate_block_work_def Let_def using q(2) by (auto simp: wf_hash_def hash_ZERO_def q_def)
qed

subsection \<open>The 512-bit product and quotient\<close>

text \<open>The number a list of 32-bit limbs stands for, least significant limb first.\<close>

primrec limb_nat :: "nat list \<Rightarrow> nat" where
  "limb_nat [] = 0"
| "limb_nat (l # ls) = l + 2 ^ 32 * limb_nat ls"

lemma limb_nat_append: "limb_nat (xs @ ys) = limb_nat xs + (2 ^ 32) ^ length xs * limb_nat ys"
  by (induction xs) (auto simp: algebra_simps)

lemma limb_nat_replicate_0 [simp]: "limb_nat (replicate n 0) = 0"
  by (induction n) auto

lemma limb_nat_eq_0_iff: "limb_nat ls = 0 \<longleftrightarrow> (\<forall>l \<in> set ls. l = 0)"
  by (induction ls) auto

lemma limb_nat_lt: "\<forall>l \<in> set ls. l < 2 ^ 32 \<Longrightarrow> limb_nat ls < (2 ^ 32) ^ length ls"
proof (induction ls)
  case (Cons l ls)
  then have "2 ^ 32 * (limb_nat ls + 1) \<le> 2 ^ 32 * (2 ^ 32) ^ length ls"
    by (intro mult_left_mono) auto
  moreover have "l < 2 ^ 32" using Cons.prems by simp
  ultimately show ?case by simp
qed simp

lemma limb_nat_limbs_of_bytes: "4 dvd length bs \<Longrightarrow> limb_nat (limbs_of_bytes bs) = le_nat bs"
proof (induction bs rule: limbs_of_bytes.induct)
  case (1 a b c d bs)
  then have "4 dvd length bs" by (simp add: dvd_def) presburger
  with 1 show ?case by (simp add: algebra_simps)
qed (auto dest: dvd_imp_le)

lemma length_limbs_of_bytes: "length (limbs_of_bytes bs) = length bs div 4"
  by (induction bs rule: limbs_of_bytes.induct) auto

lemma le_nat_bytes_of_limbs: "\<forall>l \<in> set ls. l < 2 ^ 32 \<Longrightarrow> le_nat (bytes_of_limbs ls) = limb_nat ls"
  by (induction ls) (auto simp: bytes_of_limbs_def le_nat_append)

lemma length_bytes_of_limbs: "length (bytes_of_limbs ls) = 4 * length ls"
  by (induction ls) (auto simp: bytes_of_limbs_def)

lemma length_mul_limbs [simp]: "length (mul_limbs ls m c) = length ls"
  by (induction ls m c rule: mul_limbs.induct) (auto simp: Let_def)

lemma mul_limbs_small: "\<forall>l \<in> set (mul_limbs ls m c). l < 2 ^ 32"
  by (induction ls m c rule: mul_limbs.induct) (auto simp: Let_def)

lemma limb_nat_mul_limbs:
  "limb_nat (mul_limbs ls m c) = (limb_nat ls * m + c) mod (2 ^ 32) ^ length ls"
proof (induction ls m c rule: mul_limbs.induct)
  case (2 l ls m c)
  let ?s = "l * m + c"
  have "limb_nat (mul_limbs (l # ls) m c) =
      ?s mod 2 ^ 32 + 2 ^ 32 * ((limb_nat ls * m + ?s div 2 ^ 32) mod (2 ^ 32) ^ length ls)"
    using 2 by (simp add: Let_def)
  also have "limb_nat ls * m + ?s div 2 ^ 32 = (?s + 2 ^ 32 * (limb_nat ls * m)) div 2 ^ 32" by simp
  also have "?s mod 2 ^ 32 = (?s + 2 ^ 32 * (limb_nat ls * m)) mod 2 ^ 32" by simp
  finally have "limb_nat (mul_limbs (l # ls) m c) = (?s + 2 ^ 32 * (limb_nat ls * m)) mod (2 ^ 32 * (2 ^ 32) ^ length ls)"
    unfolding mod_mult2_eq [of "?s + 2 ^ 32 * (limb_nat ls * m)"] by linarith
  then show ?case by (simp add: algebra_simps)
qed simp

lemma length_div_limbs_rev [simp]: "length (div_limbs_rev ls d r) = length ls"
  by (induction ls d r rule: div_limbs_rev.induct) (auto simp: Let_def)

lemma div_limbs_rev_small: "\<forall>l \<in> set (div_limbs_rev ls d r). l < 2 ^ 32"
  by (induction ls d r rule: div_limbs_rev.induct) (auto simp: Let_def)

lemma limb_shuffle: "m * B + R + d * (B * q) = (m + d * q) * B + (R :: nat)"
  by (simp add: algebra_simps)

lemma limb_nat_div_limbs:
  "0 < d \<Longrightarrow> r < d \<Longrightarrow> \<forall>l \<in> set ls. l < 2 ^ 32 \<Longrightarrow>
    limb_nat (rev (div_limbs_rev ls d r)) = (r * (2 ^ 32) ^ length ls + limb_nat (rev ls)) div d"
proof (induction ls d r rule: div_limbs_rev.induct)
  case (2 l ls d r)
  let ?v = "l + r * 2 ^ 32" and ?B = "(2 ^ 32) ^ length ls :: nat"
  have "l < 2 ^ 32" using 2 by simp
  moreover have "(r + 1) * 2 ^ 32 \<le> d * 2 ^ 32" using 2(3) by (intro mult_right_mono) auto
  ultimately have "?v < 2 ^ 32 * d" by simp
  then have "?v div d < 2 ^ 32" using 2(2) by (simp add: div_less_iff_less_mult)
  then have "limb_nat (rev (div_limbs_rev (l # ls) d r)) =
      (?v mod d * ?B + limb_nat (rev ls)) div d + ?B * (?v div d)"
    using 2 by (simp add: Let_def limb_nat_append)
  also have "\<dots> = (?v mod d * ?B + limb_nat (rev ls) + d * (?B * (?v div d))) div d"
    using 2(2) by simp
  also have "?v mod d * ?B + limb_nat (rev ls) + d * (?B * (?v div d)) = ?v * ?B + limb_nat (rev ls)"
    using limb_shuffle [of "?v mod d" ?B "limb_nat (rev ls)" d "?v div d"] by (simp only: mod_mult_div_eq)
  also have "\<dots> = r * (2 ^ 32) ^ length (l # ls) + limb_nat (rev (l # ls))"
    by (simp add: limb_nat_append algebra_simps)
  finally show ?case .
qed simp

lemma le_nat_replicate_ff: "le_nat (replicate n 0xFF) = 256 ^ n - 1"
proof (induction n)
  case (Suc n)
  have "(1 :: nat) \<le> 256 ^ n" "unat (0xFF :: u8) = 255" by simp_all
  with Suc show ?case by (simp add: diff_mult_distrib2)
qed simp

lemma multiply_and_divide_value:
  assumes t: "wf_hash t" and d: "d \<noteq> 0"
  shows "\<exists>r. multiply_and_divide t mul d = Some r \<and> wf_hash r \<and>
    le_nat r = min (le_nat t * unat mul div unat d) (2 ^ 256 - 1)"
proof -
  define v where "v = le_nat t * unat mul div unat d"
  define m where "m = mul_limbs (limbs_of_bytes t @ replicate 8 0) (unat mul) 0"
  define e where "e = rev (div_limbs_rev (rev m) (unat d) 0)"
  have len: "length m = 16" "length e = 16" using t by (simp_all add: m_def e_def length_limbs_of_bytes wf_hash_def)
  have small: "\<forall>l \<in> set e. l < 2 ^ 32" unfolding e_def using div_limbs_rev_small by simp
  have "le_nat t < 2 ^ 256" using le_nat_lt [of t] t by (simp add: wf_hash_def)
  moreover have "unat mul < 2 ^ 64" using unsigned_less [of mul, where ?'a = nat] by simp
  ultimately have "le_nat t * unat mul < 2 ^ 256 * 2 ^ 64" by (rule mult_strict_mono) auto
  then have "limb_nat m = le_nat t * unat mul"
    using t unfolding m_def
    by (simp add: limb_nat_mul_limbs limb_nat_append limb_nat_limbs_of_bytes length_limbs_of_bytes wf_hash_def)
  then have e: "limb_nat e = v"
    unfolding e_def v_def using d mul_limbs_small
    by (subst limb_nat_div_limbs) (auto simp: m_def unat_gt_0)
  have split: "limb_nat e = limb_nat (take 8 e) + 2 ^ 256 * limb_nat (drop 8 e)"
    using limb_nat_append [of "take 8 e" "drop 8 e"] len by (simp flip: power_mult)
  have lo: "limb_nat (take 8 e) < 2 ^ 256"
    using limb_nat_lt [of "take 8 e"] small len by (auto simp flip: power_mult dest: in_set_takeD)
  have ov: "(\<exists>l \<in> set (drop 8 e). l \<noteq> 0) \<longleftrightarrow> 2 ^ 256 \<le> v"
  proof (cases "limb_nat (drop 8 e)")
    case 0
    then show ?thesis using limb_nat_eq_0_iff [of "drop 8 e"] split lo e by simp
  next
    case (Suc k)
    then have "limb_nat (drop 8 e) \<noteq> 0" by simp
    then have "\<exists>l \<in> set (drop 8 e). l \<noteq> 0" unfolding limb_nat_eq_0_iff by simp
    moreover have "2 ^ 256 \<le> v" using split unfolding e Suc mult_Suc_right by linarith
    ultimately show ?thesis by blast
  qed
  have "multiply_and_divide t mul d =
      Some (if 2 ^ 256 \<le> v then replicate 32 0xFF else bytes_of_limbs (take 8 e))"
    using d ov by (simp add: multiply_and_divide_def Let_def flip: m_def e_def)
  moreover have "le_nat (bytes_of_limbs (take 8 e)) = v" if "v < 2 ^ 256"
  proof -
    have "limb_nat (drop 8 e) = 0" using that split e by (cases "limb_nat (drop 8 e)") auto
    then show ?thesis
      using split e small by (subst le_nat_bytes_of_limbs) (auto dest: in_set_takeD)
  qed
  ultimately show ?thesis
    using len by (cases "2 ^ 256 \<le> v")
      (auto simp: v_def [symmetric] le_nat_replicate_ff wf_hash_def length_bytes_of_limbs min_def)
qed

subsection \<open>The retarget formula\<close>

lemma sint_small_u64: "unat (w :: u64) < 2 ^ 63 \<Longrightarrow> sint w = int (unat w)"
proof -
  assume "unat w < 2 ^ 63"
  then have "uint w < 2 ^ 63" by (metis of_nat_less_iff of_nat_numeral of_nat_power uint_nat)
  then show "sint w = int (unat w)"
    by (simp add: sint_uint signed_take_bit_int_eq_self order_trans [OF _ uint_ge_0])
qed

lemma unat_mult_small_u64: "unat (w :: u64) * k < 2 ^ 64 \<Longrightarrow> unat (w * word_of_nat k) = unat w * k"
  by (simp add: unat_word_ariths unsigned_of_nat take_bit_eq_mod mod_mult_right_eq)

text \<open>The timespan the code uses: the measured one, kept within a factor of four.\<close>

definition clamped_timespan :: "consensus_params \<Rightarrow> u32 \<Rightarrow> u32 \<Rightarrow> nat" where
  "clamped_timespan params last_time first_time =
     (let T = unat (pow_target_timespan params)
      in max (T div 4) (min (T * 4) (unat last_time - unat first_time)))"

lemma word_of_int_clamp:
  fixes a lo hi :: nat
  assumes "lo \<le> hi" "hi < 2 ^ 64"
  shows "unat (word_of_int (if int hi < (if int a < int lo then int lo else int a) then int hi
           else (if int a < int lo then int lo else int a)) :: u64) = max lo (min hi a)"
  using assms by (auto simp: unsigned_of_nat take_bit_nat_eq_self)

lemma next_work_value:
  assumes "\<not> pow_no_retargeting params" and T: "pow_target_timespan params \<noteq> 0"
    "unat (pow_target_timespan params) * 4 < 2 ^ 63" and lim: "wf_hash (pow_limit params)"
  shows "\<exists>r. calculate_next_work_required prev first params = Some (target_to_bits r) \<and> wf_hash r \<and>
    le_nat r = min (le_nat (pow_limit params))
      (le_nat (bits_to_target (bh_bits (bi_header prev))) *
         clamped_timespan params (bh_time (bi_header prev)) first div unat (pow_target_timespan params))"
proof -
  let ?ts = "pow_target_timespan params" and ?t = "bits_to_target (bh_bits (bi_header prev))"
  let ?a = "unat (bh_time (bi_header prev)) - unat first"
  let ?c = "clamped_timespan params (bh_time (bi_header prev)) first"
  have "sint (?ts div 4) = int (unat ?ts div 4)"
    using T(2) by (subst sint_small_u64) (auto simp: unat_div)
  moreover have "sint (?ts * 4) = int (unat ?ts * 4)"
    using unat_mult_small_u64 [of ?ts 4] T(2) by (subst sint_small_u64) auto
  ultimately have span: "unat (word_of_int
      (if sint (?ts * 4) < (if int ?a < sint (?ts div 4) then sint (?ts div 4) else int ?a) then sint (?ts * 4)
       else (if int ?a < sint (?ts div 4) then sint (?ts div 4) else int ?a)) :: u64) = ?c"
    using word_of_int_clamp [of "unat ?ts div 4" "unat ?ts * 4" ?a] T(2)
    by (simp only: clamped_timespan_def Let_def) simp
  obtain r where r: "multiply_and_divide ?t (word_of_int
      (if sint (?ts * 4) < (if int ?a < sint (?ts div 4) then sint (?ts div 4) else int ?a) then sint (?ts * 4)
       else (if int ?a < sint (?ts div 4) then sint (?ts div 4) else int ?a))) ?ts = Some r"
    "wf_hash r" "le_nat r = min (le_nat ?t * ?c div unat ?ts) (2 ^ 256 - 1)"
    using multiply_and_divide_value [OF bits_to_target_wf(1) T(1)] unfolding span [symmetric] by blast
  define s where "s = (if hash_gt r (pow_limit params) then pow_limit params else r)"
  have "calculate_next_work_required prev first params = Some (target_to_bits s)"
    using assms(1) r(1) by (simp add: calculate_next_work_required_def Let_def s_def)
  moreover have "wf_hash s" using r(2) lim by (simp add: s_def)
  moreover have "le_nat s = min (le_nat (pow_limit params)) (le_nat ?t * ?c div unat ?ts)"
  proof -
    have "le_nat (pow_limit params) \<le> 2 ^ 256 - 1"
      using le_nat_lt [of "pow_limit params"] lim by (simp add: wf_hash_def)
    then show ?thesis unfolding s_def hash_gt_numeric [OF r(2) lim] using r(3) by auto
  qed
  ultimately show ?thesis by blast
qed

end
