(* ===== verification/BlockFile.thy ===== *)
theory BlockFile
  imports Block
begin

text \<open>
  The flat block files, \<^verbatim>\<open>storage/block_file.rs\<close>, with the error type of
  \<^verbatim>\<open>storage/error.rs\<close> and the message-start bytes of \<^verbatim>\<open>common/types/magic.rs\<close>.  A sequence of
  numbered files is a partial function from the file number to the contents; \<open>file_write\<close>,
  \<open>set_len\<close> and \<open>read_at\<close> are the positioned operations of \<^verbatim>\<open>std::fs::File\<close>.  File operations
  succeed unless a file that must exist is missing or a read passes the end; failures of the
  disk itself are outside the model.  File sizes are naturals (\<^verbatim>\<open>u64\<close> in the code, far from
  its limit), positions in the index keep their 32 bits.
\<close>

subsection \<open>Errors and magic\<close>

text \<open>
  \<open>Decode\<close> carries the wire error instead of its printed form, \<open>BadPosition\<close> is the \<^verbatim>\<open>Decode\<close>
  error of \<^verbatim>\<open>read_record\<close>, and \<open>SlicePanic\<close> stands for the panic of \<^verbatim>\<open>bytes[..32]\<close> on a
  stored value that is too short.
\<close>

datatype store_error =
    WireDecode decode_error
  | Io
  | LockPoisoned
  | Decode decode_error
  | BadPosition u32
  | MissingBestBlock
  | MissingBlockIndex
  | BlockFileUnavailable u32 u32
  | StoreCustom string hash
  | StoreMessage string
  | SlicePanic

type_synonym 'a store_result = "store_error + 'a"

type_synonym magic = bytes

definition encode_magic :: "magic \<Rightarrow> encoder \<Rightarrow> encoder" where
  "encode_magic m enc = encode_array m enc"

definition decode_magic :: "decoder \<Rightarrow> (magic \<times> decoder) decode_result" where
  "decode_magic d = and_then (decode_array 4 d) (\<lambda>(bs, d). Inr (bs, d))"

definition MAGIC_MAINNET :: magic where
  "MAGIC_MAINNET = [0xF9, 0xBE, 0xB4, 0xD9]"

definition MAGIC_TESTNET3 :: magic where
  "MAGIC_TESTNET3 = [0x0B, 0x11, 0x09, 0x07]"

definition MAGIC_SIGNET :: magic where
  "MAGIC_SIGNET = [0x0A, 0x03, 0xCF, 0x40]"

definition MAGIC_REGTEST :: magic where
  "MAGIC_REGTEST = [0xFA, 0xBF, 0xB5, 0xDA]"

definition from_signet_challenge :: "digests \<Rightarrow> bytes \<Rightarrow> magic" where
  "from_signet_challenge H challenge = take 4 (hash256 H (encode_varbytes challenge []))"

subsection \<open>File contents\<close>

definition file_write :: "bytes \<Rightarrow> nat \<Rightarrow> bytes \<Rightarrow> bytes" where
  "file_write content pos d =
     take pos content @ replicate (pos - length content) 0 @ d @ drop (pos + length d) content"

definition set_len :: "bytes \<Rightarrow> nat \<Rightarrow> bytes" where
  "set_len content n = take n content @ replicate (n - length content) 0"

definition read_at :: "bytes \<Rightarrow> nat \<Rightarrow> nat \<Rightarrow> bytes option" where
  "read_at content pos n = (if pos + n \<le> length content then Some (take n (drop pos content)) else None)"

subsection \<open>File sequences\<close>

definition MAX_BLOCK_FILE_SIZE :: nat where
  "MAX_BLOCK_FILE_SIZE = 128 * 1024 * 1024"

definition BLOCK_FILE_CHUNK :: nat where
  "BLOCK_FILE_CHUNK = 16 * 1024 * 1024"

definition UNDO_FILE_CHUNK :: nat where
  "UNDO_FILE_CHUNK = 1024 * 1024"

record flat_file_seq =
  ffs_files :: "u32 \<Rightarrow> bytes option"
  ffs_chunk_size :: nat

definition preallocate :: "nat \<Rightarrow> bytes \<Rightarrow> nat \<Rightarrow> bytes" where
  "preallocate chunk_size content needed_until =
     (if needed_until \<ge> length content
      then let boundary = (needed_until div chunk_size + 1) * chunk_size
           in file_write content (boundary - 1) [0]
      else content)"

text \<open>Opening for writing creates the file and pre-allocates; the result is the contents to write into.\<close>

definition open_for_write :: "flat_file_seq \<Rightarrow> u32 \<Rightarrow> nat \<Rightarrow> bytes" where
  "open_for_write seq n off =
     preallocate (ffs_chunk_size seq) (case ffs_files seq n of None \<Rightarrow> [] | Some content \<Rightarrow> content) off"

definition open_for_read :: "flat_file_seq \<Rightarrow> u32 \<Rightarrow> bytes store_result" where
  "open_for_read seq n = ok_or (BlockFileUnavailable n 0) (ffs_files seq n)"

text \<open>The scan of \<^verbatim>\<open>used_size\<close>: records with the right magic and a size that fits.\<close>

function used_size_loop :: "bytes \<Rightarrow> bytes \<Rightarrow> nat \<Rightarrow> nat" where
  "used_size_loop expected_magic content off =
     (if off + 8 \<le> length content then
        let hdr = take 8 (drop off content);
            size = unat (of_le (take 4 (drop 4 hdr)) :: u32)
        in if take 4 hdr \<noteq> expected_magic then off
           else if size = 0 \<or> off + 8 + size > length content then off
           else used_size_loop expected_magic content (off + 8 + size)
      else off)"
  by pat_completeness auto
termination
  by (relation "measure (\<lambda>(m, content, off). length content - off)") auto

definition used_size :: "flat_file_seq \<Rightarrow> u32 \<Rightarrow> magic \<Rightarrow> nat store_result" where
  "used_size seq n magic =
     (case ffs_files seq n of
        None \<Rightarrow> Inr 0
      | Some content \<Rightarrow> Inr (used_size_loop (encode_magic magic []) content 0))"

definition finalize :: "flat_file_seq \<Rightarrow> u32 \<Rightarrow> nat \<Rightarrow> flat_file_seq store_result" where
  "finalize seq n used_bytes =
     and_then (ok_or Io (ffs_files seq n)) (\<lambda>content.
     Inr (seq\<lparr>ffs_files := (ffs_files seq)(n \<mapsto> set_len content used_bytes)\<rparr>))"

subsection \<open>The block file manager\<close>

record block_file_manager =
  bfm_blocks :: flat_file_seq
  bfm_undo :: flat_file_seq
  bfm_magic :: magic
  bfm_current_file :: u32
  bfm_current_size :: nat

text \<open>Resuming over existing files: the current size is the length of the last block file.\<close>

definition block_file_manager_new ::
  "(u32 \<Rightarrow> bytes option) \<Rightarrow> (u32 \<Rightarrow> bytes option) \<Rightarrow> magic \<Rightarrow> u32 \<Rightarrow> block_file_manager" where
  "block_file_manager_new blk rev_files magic last_file =
     \<lparr>bfm_blocks = \<lparr>ffs_files = blk, ffs_chunk_size = BLOCK_FILE_CHUNK\<rparr>,
      bfm_undo = \<lparr>ffs_files = rev_files, ffs_chunk_size = UNDO_FILE_CHUNK\<rparr>,
      bfm_magic = magic, bfm_current_file = last_file,
      bfm_current_size = (case blk last_file of Some content \<Rightarrow> length content | None \<Rightarrow> 0)\<rparr>"

definition record_bytes :: "magic \<Rightarrow> bytes \<Rightarrow> bytes" where
  "record_bytes magic d = encode_u32 (word_of_nat (length d)) (encode_magic magic []) @ d"

text \<open>Two writes in a row continue at the file position the first one left.\<close>

definition write_record :: "magic \<Rightarrow> bytes \<Rightarrow> nat \<Rightarrow> bytes \<Rightarrow> bytes" where
  "write_record magic content write_at d =
     (let hdr = encode_u32 (word_of_nat (length d)) (encode_magic magic [])
      in file_write (file_write content write_at hdr) (write_at + length hdr) d)"

definition write_block :: "block_file_manager \<Rightarrow> bytes \<Rightarrow> (flat_file_pos \<times> block_file_manager) store_result" where
  "write_block m raw_block =
     (let record_len = 8 + length raw_block
      in and_then
        (if bfm_current_size m + record_len > MAX_BLOCK_FILE_SIZE \<and> bfm_current_size m > 0 then
           and_then (finalize (bfm_blocks m) (bfm_current_file m) (bfm_current_size m)) (\<lambda>seq.
           Inr (m\<lparr>bfm_blocks := seq, bfm_current_file := bfm_current_file m + 1, bfm_current_size := 0\<rparr>))
         else Inr m) (\<lambda>m.
         let write_at = bfm_current_size m;
             file = bfm_current_file m;
             content = open_for_write (bfm_blocks m) file (write_at + record_len);
             content = write_record (bfm_magic m) content write_at raw_block;
             seq = (bfm_blocks m)\<lparr>ffs_files := (ffs_files (bfm_blocks m))(file \<mapsto> content)\<rparr>
         in Inr (FlatFilePos file (word_of_nat (write_at + 8)),
              m\<lparr>bfm_blocks := seq, bfm_current_size := write_at + record_len\<rparr>)))"

definition write_undo ::
  "block_file_manager \<Rightarrow> u32 \<Rightarrow> bytes \<Rightarrow> nat \<Rightarrow> (flat_file_pos \<times> nat) \<times> block_file_manager" where
  "write_undo m blk_file undo_data current_undo_size =
     (let write_at = current_undo_size;
          record_len = 8 + length undo_data;
          content = open_for_write (bfm_undo m) blk_file (write_at + record_len);
          content = write_record (bfm_magic m) content write_at undo_data;
          seq = (bfm_undo m)\<lparr>ffs_files := (ffs_files (bfm_undo m))(blk_file \<mapsto> content)\<rparr>
      in ((FlatFilePos blk_file (word_of_nat (write_at + 8)), current_undo_size + 8 + length undo_data),
          m\<lparr>bfm_undo := seq\<rparr>))"

definition undo_used_size :: "block_file_manager \<Rightarrow> u32 \<Rightarrow> nat store_result" where
  "undo_used_size m file = used_size (bfm_undo m) file (bfm_magic m)"

definition read_record :: "flat_file_seq \<Rightarrow> flat_file_pos \<Rightarrow> bytes store_result" where
  "read_record seq pos =
     and_then (open_for_read seq (fp_file pos)) (\<lambda>content.
     if fp_offset pos < 4 then Inl (BadPosition (fp_offset pos))
     else
       let size_at = unat (fp_offset pos) - 4
       in and_then (ok_or (BlockFileUnavailable (fp_file pos) (fp_offset pos)) (read_at content size_at 4)) (\<lambda>size_buf.
          and_then (map_err WireDecode (decode_exact decode_u32 size_buf ''record::size'')) (\<lambda>size :: u32.
          ok_or (BlockFileUnavailable (fp_file pos) (fp_offset pos))
            (read_at content (size_at + 4) (unat size)))))"

definition read_block :: "block_file_manager \<Rightarrow> flat_file_pos \<Rightarrow> bytes store_result" where
  "read_block m pos = read_record (bfm_blocks m) pos"

definition read_undo :: "block_file_manager \<Rightarrow> flat_file_pos \<Rightarrow> bytes store_result" where
  "read_undo m pos = read_record (bfm_undo m) pos"

text \<open>\<^verbatim>\<open>flush\<close> forces data to the disk: no effect on the contents, but the file must exist.\<close>

definition bfm_flush :: "block_file_manager \<Rightarrow> unit store_result" where
  "bfm_flush m =
     (if bfm_current_size m = 0 then Inr ()
      else and_then (ok_or Io (ffs_files (bfm_blocks m) (bfm_current_file m))) (\<lambda>_. Inr ()))"

declare used_size_loop.simps [simp del]

subsection \<open>File metadata\<close>

record block_file_info =
  bfi_blocks :: u32
  bfi_size :: u64
  bfi_undo_size :: u64
  bfi_height_first :: u32
  bfi_height_last :: u32
  bfi_time_first :: u32
  bfi_time_last :: u32

definition update_for_block :: "block_file_info \<Rightarrow> u32 \<Rightarrow> u32 \<Rightarrow> block_file_info" where
  "update_for_block info height time =
     (let info = (if bfi_blocks info = 0 then info\<lparr>bfi_height_first := height, bfi_time_first := time\<rparr> else info)
      in info\<lparr>bfi_blocks := bfi_blocks info + 1,
              bfi_height_last := max (bfi_height_last info) height,
              bfi_time_last := max (bfi_time_last info) time\<rparr>)"

definition encode_block_file_info :: "block_file_info \<Rightarrow> encoder \<Rightarrow> encoder" where
  "encode_block_file_info i enc =
     encode_u32 (bfi_time_last i) (encode_u32 (bfi_time_first i)
      (encode_u32 (bfi_height_last i) (encode_u32 (bfi_height_first i)
       (encode_u64 (bfi_undo_size i) (encode_u64 (bfi_size i) (encode_u32 (bfi_blocks i) enc))))))"

definition decode_block_file_info :: "decoder \<Rightarrow> (block_file_info \<times> decoder) decode_result" where
  "decode_block_file_info d =
     and_then (decode_u32 d) (\<lambda>(blocks, d).
     and_then (decode_u64 d) (\<lambda>(size, d).
     and_then (decode_u64 d) (\<lambda>(undo_size, d).
     and_then (decode_u32 d) (\<lambda>(height_first, d).
     and_then (decode_u32 d) (\<lambda>(height_last, d).
     and_then (decode_u32 d) (\<lambda>(time_first, d).
     and_then (decode_u32 d) (\<lambda>(time_last, d).
     Inr (\<lparr>bfi_blocks = blocks, bfi_size = size, bfi_undo_size = undo_size, bfi_height_first = height_first,
           bfi_height_last = height_last, bfi_time_first = time_first, bfi_time_last = time_last\<rparr>, d))))))))"

subsection \<open>Reading back what was written\<close>

lemma length_file_write [simp]: "length (file_write c p d) = max (length c) (p + length d)"
  by (simp add: file_write_def)

lemma read_at_Some: "read_at c p n = Some x \<longleftrightarrow> p + n \<le> length c \<and> take n (drop p c) = x"
  by (auto simp: read_at_def)

lemma read_at_file_write_same: "read_at (file_write c p d) p (length d) = Some d"
  by (simp add: read_at_Some) (simp add: file_write_def)

lemma read_at_file_write_below:
  assumes "read_at c p' n = Some x" "p' + n \<le> p"
  shows "read_at (file_write c p d) p' n = Some x"
proof -
  have "take n (drop p' (file_write c p d)) = take n (drop p' c)"
    using assms by (simp add: read_at_Some file_write_def take_drop min_def)
  then show ?thesis using assms by (auto simp: read_at_Some)
qed

lemma read_at_file_write_above:
  assumes "read_at c p' n = Some x" "p + length d \<le> p'"
  shows "read_at (file_write c p d) p' n = Some x"
proof -
  have "p \<le> length c" using assms by (simp add: read_at_Some)
  then have "drop p' (file_write c p d) = drop p' c"
    using assms(2) by (simp add: file_write_def)
  then show ?thesis using assms(1) by (auto simp: read_at_Some)
qed

lemma read_at_set_len:
  "read_at c p n = Some x \<Longrightarrow> p + n \<le> used \<Longrightarrow> read_at (set_len c used) p n = Some x"
  by (auto simp: read_at_Some set_len_def take_drop min_def)

lemma read_at_preallocate:
  assumes "read_at c p n = Some x" "chunk > 0"
  shows "read_at (preallocate chunk c needed) p n = Some x"
proof (cases "needed \<ge> length c")
  case True
  have "needed < (needed div chunk + 1) * chunk"
    using assms(2) by (metis add.commute div_mult_mod_eq mod_less_divisor mult.commute mult_Suc_right nat_add_left_cancel_less Suc_eq_plus1)
  then have "p + n \<le> (needed div chunk + 1) * chunk - 1"
    using True assms(1) unfolding read_at_Some by linarith
  then show ?thesis
    using True read_at_file_write_below [OF assms(1)] by (simp add: preallocate_def Let_def)
qed (simp add: preallocate_def assms(1))

lemma read_at_split:
  assumes "read_at c p (m + n) = Some (xs @ ys)" "length xs = m"
  shows "read_at c (p + m) n = Some ys"
proof -
  have "take n (drop (p + m) c) = drop m (take (m + n) (drop p c))"
    by (simp add: drop_take add.commute)
  then show ?thesis using assms by (simp add: read_at_Some)
qed

text \<open>A record is in the contents at a data offset: its size field, then its data.\<close>

definition record_at :: "bytes \<Rightarrow> nat \<Rightarrow> bytes \<Rightarrow> bool" where
  "record_at c off d \<longleftrightarrow> 4 \<le> off \<and> length d < 2 ^ 32 \<and>
     read_at c (off - 4) 4 = Some (to_le 4 (word_of_nat (length d) :: u32)) \<and> read_at c off (length d) = Some d"

lemma write_record_record_at:
  assumes "length magic = 4" "length d < 2 ^ 32"
  shows "record_at (write_record magic c p d) (p + 8) d"
proof -
  let ?hdr = "magic @ to_le 4 (word_of_nat (length d) :: u32)"
  let ?c = "file_write (file_write c p ?hdr) (p + 8) d"
  have w: "write_record magic c p d = ?c"
    using assms(1) by (simp add: write_record_def encode_magic_def encode_array_def push_bytes_def encode_u32_flat Let_def)
  have "read_at (file_write c p ?hdr) p 8 = Some ?hdr"
    using read_at_file_write_same [of c p ?hdr] assms(1) by simp
  then have "read_at (file_write c p ?hdr) (p + 4) 4 = Some (to_le 4 (word_of_nat (length d) :: u32))"
    using read_at_split [of "file_write c p ?hdr" p 4 4 magic] assms(1) by simp
  then have "read_at ?c (p + 4) 4 = Some (to_le 4 (word_of_nat (length d) :: u32))"
    by (rule read_at_file_write_below) simp
  then show ?thesis
    unfolding w record_at_def using assms(2) read_at_file_write_same [of "file_write c p ?hdr" "p + 8" d] by (simp add: add.commute)
qed

lemma write_record_keeps:
  assumes "read_at c p' n = Some x" "p' + n \<le> p"
  shows "read_at (write_record magic c p d) p' n = Some x"
  unfolding write_record_def Let_def
  using read_at_file_write_below [OF read_at_file_write_below [OF assms]] assms(2) by simp

lemma read_record_record_at:
  assumes "ffs_files seq (fp_file pos) = Some c" "record_at c (unat (fp_offset pos)) d"
  shows "read_record seq pos = Inr d"
proof -
  have "\<not> fp_offset pos < 4" using assms(2) by (simp add: record_at_def word_less_nat_alt)
  moreover have "decode_exact decode_u32 (to_le 4 (word_of_nat (length d) :: u32)) ''record::size'' =
      Inr (word_of_nat (length d))"
    using u32.decode_exact_serialize [of "word_of_nat (length d)"] by (simp add: serialize_def encode_u32_flat)
  moreover have "unat (word_of_nat (length d) :: u32) = length d"
    using assms(2) by (simp add: record_at_def unat_word_of_nat_u32)
  ultimately show ?thesis
    using assms by (simp add: read_record_def open_for_read_def record_at_def Let_def)
qed

subsection \<open>Block files only ever grow\<close>

definition bfm_ok :: "block_file_manager \<Rightarrow> bool" where
  "bfm_ok m \<longleftrightarrow> length (bfm_magic m) = 4 \<and> ffs_chunk_size (bfm_blocks m) > 0 \<and> bfm_current_size m + 8 < 2 ^ 32 \<and>
     (bfm_current_size m > 0 \<longrightarrow> ffs_files (bfm_blocks m) (bfm_current_file m) \<noteq> None)"

text \<open>A record of a finished file, or of the used part of the current one.\<close>

definition stored :: "block_file_manager \<Rightarrow> flat_file_pos \<Rightarrow> bytes \<Rightarrow> bool" where
  "stored m pos d \<longleftrightarrow>
     (\<exists>c. ffs_files (bfm_blocks m) (fp_file pos) = Some c \<and> record_at c (unat (fp_offset pos)) d) \<and>
     (fp_file pos < bfm_current_file m \<or>
      fp_file pos = bfm_current_file m \<and> unat (fp_offset pos) + length d \<le> bfm_current_size m)"

lemma stored_read: "stored m pos d \<Longrightarrow> read_block m pos = Inr d"
  by (auto simp: stored_def read_block_def read_record_record_at)

text \<open>Rotation to the next file: only the slack of the finished file is cut.\<close>

definition rotate_file :: "block_file_manager \<Rightarrow> bytes \<Rightarrow> block_file_manager" where
  "rotate_file m c = m\<lparr>bfm_blocks := (bfm_blocks m)\<lparr>ffs_files := (ffs_files (bfm_blocks m))
       (bfm_current_file m \<mapsto> set_len c (bfm_current_size m))\<rparr>,
     bfm_current_file := bfm_current_file m + 1, bfm_current_size := 0\<rparr>"

lemma record_at_set_len:
  "record_at c off d \<Longrightarrow> off + length d \<le> used \<Longrightarrow> record_at (set_len c used) off d"
  by (auto simp: record_at_def intro!: read_at_set_len)

lemma unat_u32_Suc:
  assumes "(w :: u32) \<noteq> 0xFFFFFFFF"
  shows "unat (w + 1) = Suc (unat w)"
proof -
  have "w + 1 \<noteq> 0"
  proof
    assume "w + 1 = 0"
    then have "w = - 1" by (simp add: eq_neg_iff_add_eq_0)
    with assms show False by simp
  qed
  then show ?thesis using unatSuc [of w] by (simp add: add.commute)
qed

lemma rotate_file_keeps:
  assumes "stored m pos d" "ffs_files (bfm_blocks m) (bfm_current_file m) = Some c" "bfm_current_file m \<noteq> 0xFFFFFFFF"
  shows "stored (rotate_file m c) pos d"
proof -
  have "bfm_current_file m < bfm_current_file m + 1"
    using assms(3) by (simp add: word_less_nat_alt unat_u32_Suc)
  then show ?thesis
    using assms by (auto simp: stored_def rotate_file_def intro: record_at_set_len dest: order.strict_trans)
qed

text \<open>The write itself, after a possible rotation.\<close>

definition append_block :: "block_file_manager \<Rightarrow> bytes \<Rightarrow> flat_file_pos \<times> block_file_manager" where
  "append_block m d =
     (let n = bfm_current_size m + (8 + length d);
          c = write_record (bfm_magic m) (open_for_write (bfm_blocks m) (bfm_current_file m) n) (bfm_current_size m) d
      in (FlatFilePos (bfm_current_file m) (word_of_nat (bfm_current_size m + 8)),
          m\<lparr>bfm_blocks := (bfm_blocks m)\<lparr>ffs_files := (ffs_files (bfm_blocks m))(bfm_current_file m \<mapsto> c)\<rparr>,
            bfm_current_size := n\<rparr>))"

lemma write_block_append:
  assumes "bfm_ok m"
  shows "write_block m d =
    (if bfm_current_size m + (8 + length d) > MAX_BLOCK_FILE_SIZE \<and> bfm_current_size m > 0
     then Inr (append_block (rotate_file m (the (ffs_files (bfm_blocks m) (bfm_current_file m)))) d)
     else Inr (append_block m d))"
  using assms
  by (auto simp: write_block_def append_block_def rotate_file_def finalize_def bfm_ok_def Let_def)

lemma append_block_stored:
  assumes "bfm_ok m" "length d < 2 ^ 32" "append_block m d = (pos, m')"
  shows "stored m' pos d"
proof -
  have "unat (word_of_nat (bfm_current_size m + 8) :: u32) = bfm_current_size m + 8"
    using assms(1) by (simp add: bfm_ok_def unat_word_of_nat_u32 del: of_nat_add)
  moreover have "record_at (write_record (bfm_magic m) c (bfm_current_size m) d) (bfm_current_size m + 8) d" for c
    using assms(1,2) by (intro write_record_record_at) (simp_all add: bfm_ok_def)
  ultimately show ?thesis
    using assms(3) by (auto simp: append_block_def stored_def Let_def)
qed

lemma append_block_keeps:
  assumes "bfm_ok m" "append_block m d = (pos', m')" "stored m pos x"
  shows "stored m' pos x"
proof (cases "fp_file pos = bfm_current_file m")
  case True
  let ?off = "unat (fp_offset pos)" and ?o = "open_for_write (bfm_blocks m) (bfm_current_file m)"
  from True assms(3) obtain c where c: "ffs_files (bfm_blocks m) (bfm_current_file m) = Some c" "record_at c ?off x"
    and le: "?off + length x \<le> bfm_current_size m"
    by (auto simp: stored_def)
  have "record_at (?o n) ?off x" for n
    using c assms(1) by (auto simp: record_at_def open_for_write_def bfm_ok_def intro!: read_at_preallocate)
  then have "record_at (write_record (bfm_magic m) (?o n) (bfm_current_size m) d) ?off x" for n
    using le by (auto simp: record_at_def intro!: write_record_keeps)
  then show ?thesis using assms(2) True le by (auto simp: append_block_def stored_def Let_def)
next
  case False
  then show ?thesis using assms(2,3) by (auto simp: append_block_def stored_def Let_def)
qed

lemma append_block_ok:
  assumes "bfm_ok m" "append_block m d = (pos, m')" "bfm_current_size m' + 8 < 2 ^ 32"
  shows "bfm_ok m' \<and> bfm_current_file m' = bfm_current_file m"
  using assms by (auto simp: append_block_def bfm_ok_def Let_def)

lemma rotate_file_ok: "bfm_ok m \<Longrightarrow> bfm_ok (rotate_file m c)"
  by (simp add: bfm_ok_def rotate_file_def)

text \<open>
  A write succeeds, its record can be read, and no earlier record is lost; the number of the
  current file grows by at most one.
\<close>

lemma write_block_correct:
  assumes "bfm_ok m" "8 + length d \<le> MAX_BLOCK_FILE_SIZE" "bfm_current_file m \<noteq> 0xFFFFFFFF"
  obtains pos m' where "write_block m d = Inr (pos, m')" "stored m' pos d" "bfm_ok m'"
    "\<And>p x. stored m p x \<Longrightarrow> stored m' p x" "unat (bfm_current_file m') \<le> Suc (unat (bfm_current_file m))"
proof -
  have d: "length d < 2 ^ 32" using assms(2) by (simp add: MAX_BLOCK_FILE_SIZE_def)
  let ?full = "bfm_current_size m + (8 + length d) > MAX_BLOCK_FILE_SIZE \<and> bfm_current_size m > 0"
  define c where "c = the (ffs_files (bfm_blocks m) (bfm_current_file m))"
  define m1 where "m1 = (if ?full then rotate_file m c else m)"
  obtain pos m' where app: "append_block m1 d = (pos, m')" by (cases "append_block m1 d")
  have m1: "bfm_ok m1" using assms(1) rotate_file_ok by (simp add: m1_def)
  have size: "bfm_current_size m' \<le> MAX_BLOCK_FILE_SIZE"
    using app assms(2) by (auto simp: append_block_def m1_def rotate_file_def Let_def split: if_splits)
  have ok: "bfm_ok m'" "bfm_current_file m' = bfm_current_file m1"
    using append_block_ok [OF m1 app] size by (simp_all add: MAX_BLOCK_FILE_SIZE_def)
  have keep: "stored m1 p x" if "stored m p x" for p x
    using that rotate_file_keeps [OF that _ assms(3)] assms(1) by (auto simp: m1_def c_def bfm_ok_def)
  show thesis
  proof (rule that)
    show "write_block m d = Inr (pos, m')"
      using write_block_append [OF assms(1)] app unfolding m1_def c_def by (cases ?full) auto
    show "stored m' pos d" by (rule append_block_stored [OF m1 d app])
    show "bfm_ok m'" by (rule ok)
    show "stored m' p x" if "stored m p x" for p x
      by (rule append_block_keeps [OF m1 app keep [OF that]])
    show "unat (bfm_current_file m') \<le> Suc (unat (bfm_current_file m))"
      using ok(2) assms(3) by (auto simp: m1_def rotate_file_def unat_u32_Suc)
  qed
qed

text \<open>The loop of \<^verbatim>\<open>handle_store_blocks\<close>: write every block, collect the positions.\<close>

fun write_all :: "block_file_manager \<Rightarrow> bytes list \<Rightarrow> (flat_file_pos list \<times> block_file_manager) store_result" where
  "write_all m [] = Inr ([], m)"
| "write_all m (d # ds) =
     and_then (write_block m d) (\<lambda>(pos, m).
     and_then (write_all m ds) (\<lambda>(positions, m). Inr (pos # positions, m)))"

lemma write_all_correct:
  assumes "bfm_ok m" "\<forall>d \<in> set ds. 8 + length d \<le> MAX_BLOCK_FILE_SIZE"
    "unat (bfm_current_file m) + length ds < 2 ^ 32"
  shows "\<exists>positions m'. write_all m ds = Inr (positions, m') \<and> bfm_ok m' \<and>
    list_all2 (stored m') positions ds \<and> (\<forall>p x. stored m p x \<longrightarrow> stored m' p x)"
  using assms
proof (induction ds arbitrary: m)
  case (Cons d ds)
  have "bfm_current_file m \<noteq> 0xFFFFFFFF" using Cons.prems(3) by auto
  then obtain pos m1 where 1: "write_block m d = Inr (pos, m1)" "stored m1 pos d" "bfm_ok m1"
    "\<And>p x. stored m p x \<Longrightarrow> stored m1 p x" "unat (bfm_current_file m1) \<le> Suc (unat (bfm_current_file m))"
    using write_block_correct [of m d] Cons.prems by auto
  obtain ps m2 where 2: "write_all m1 ds = Inr (ps, m2)" "bfm_ok m2" "list_all2 (stored m2) ps ds"
    "\<forall>p x. stored m1 p x \<longrightarrow> stored m2 p x"
    using Cons.IH [OF 1(3)] Cons.prems 1(5) by auto
  then show ?case using 1 by auto
qed simp

subsection \<open>Recovering the used size\<close>

lemma record_bytes_eq: "record_bytes magic d = magic @ to_le 4 (word_of_nat (length d) :: u32) @ d"
  by (simp add: record_bytes_def encode_magic_def encode_array_def push_bytes_def encode_u32_flat)

lemma used_size_stop:
  assumes "length magic = 4" "magic \<noteq> replicate 4 0"
  shows "used_size_loop magic (pre @ replicate z 0) (length pre) = length pre"
proof (cases "z \<ge> 8")
  case True
  then have "take 4 (take 8 (drop (length pre) (pre @ replicate z 0))) = replicate 4 0" by (simp add: min_def)
  then show ?thesis using assms(2) True by (subst used_size_loop.simps) (simp add: Let_def)
qed (subst used_size_loop.simps, simp)

text \<open>
  Scanning a file of records with a zero tail stops exactly at the end of the records, so the
  undo size is recovered after a restart whatever was pre-allocated.
\<close>

lemma used_size_records:
  assumes "length magic = 4" "magic \<noteq> replicate 4 0" "\<forall>d \<in> set ds. d \<noteq> [] \<and> length d < 2 ^ 32"
  shows "used_size_loop magic (pre @ concat (map (record_bytes magic) ds) @ replicate z 0) (length pre) =
    length pre + length (concat (map (record_bytes magic) ds))"
  using assms(3)
proof (induction ds arbitrary: pre)
  case Nil
  then show ?case using used_size_stop [OF assms(1,2)] by simp
next
  case (Cons d ds)
  let ?r = "record_bytes magic d" and ?t = "concat (map (record_bytes magic) ds) @ replicate z 0"
  let ?c = "pre @ ?r @ ?t"
  have len: "length ?r = 8 + length d" using assms(1) by (simp add: record_bytes_eq)
  have hdr: "take 8 (drop (length pre) ?c) = magic @ to_le 4 (word_of_nat (length d) :: u32)"
    using assms(1) by (simp add: record_bytes_eq)
  have size: "unat (of_le (to_le 4 (word_of_nat (length d) :: u32)) :: u32) = length d"
    using Cons.prems by (simp add: unat_word_of_nat_u32)
  have "used_size_loop magic ?c (length pre) = used_size_loop magic ?c (length pre + 8 + length d)"
    using Cons.prems len size assms(1)
    by (subst used_size_loop.simps, simp only: hdr Let_def) simp
  also have "\<dots> = used_size_loop magic ((pre @ ?r) @ ?t) (length (pre @ ?r))"
    using len by (simp add: add.assoc)
  also have "\<dots> = length (pre @ ?r) + length (concat (map (record_bytes magic) ds))"
    using Cons.prems by (intro Cons.IH) simp
  finally show ?case by simp
qed

end
