(* ===== verification/Params.thy ===== *)
theory Params
  imports HexText Pow BlockFile
begin

text \<open>
  Chain selection and chain parameters: \<^verbatim>\<open>common/types/params.rs\<close>, \<^verbatim>\<open>common/types/genesis.rs\<close>
  and \<^verbatim>\<open>common/types/networks\<close>.  Constants written in hexadecimal are decoded when the parameters are
  built; a panic there is \<^term>\<open>None\<close>.
\<close>

subsection \<open>Chain parameters\<close>

datatype base58_type = PubKeyAddress | ScriptAddress | SecretKey | ExtPublicKey | ExtSecretKey

record chain_params =
  genesis_header :: block_header
  consensus :: consensus_params
  cp_magic :: magic
  default_port :: u16
  bech32_hrp :: string
  base58_prefixes :: "base58_type \<rightharpoonup> bytes"
  dns_seeds :: "string list"

definition message_start :: "chain_params \<Rightarrow> magic" where
  "message_start params = cp_magic params"

definition genesis_hash :: "digests \<Rightarrow> chain_params \<Rightarrow> hash" where
  "genesis_hash H params = block_hash H (genesis_header params)"

subsection \<open>Genesis blocks\<close>

record genesis =
  ge_version :: i32
  ge_timestamp :: u32
  ge_bits :: u32
  ge_nonce :: u32
  ge_message :: string
  ge_output_script :: script_buf
  ge_reward :: amount

text \<open>The message, pay_script key and reward that all four constructors repeat.\<close>

definition genesis_of :: "hex_codec \<Rightarrow> u32 \<Rightarrow> u32 \<Rightarrow> u32 \<Rightarrow> genesis option" where
  "genesis_of X timestamp bits nonce =
     Option.bind (hex_decode X ''4104678afdb0fe5548271967f1a67130b7105cd6a828e03909a67962e0ea1f61deb649f6bc3f4cef38c4f35504e51ec112de5c384df7ba0b8d578a4c702b6bf11d5fac'') (\<lambda>pay_script.
     case from_sat 5000000000 of
       Inl _ \<Rightarrow> None
     | Inr reward \<Rightarrow>
         Some \<lparr>ge_version = 1, ge_timestamp = timestamp, ge_bits = bits, ge_nonce = nonce,
           ge_message = ''The Times 03/Jan/2009 Chancellor on brink of second bailout for banks'',
           ge_output_script = pay_script, ge_reward = reward\<rparr>)"

definition genesis_mainnet :: "hex_codec \<Rightarrow> genesis option" where
  "genesis_mainnet X = genesis_of X 1231006505 0x1d00ffff 2083236893"

definition genesis_testnet3 :: "hex_codec \<Rightarrow> genesis option" where
  "genesis_testnet3 X = genesis_of X 1296688602 0x1d00ffff 414098458"

definition genesis_signet :: "hex_codec \<Rightarrow> genesis option" where
  "genesis_signet X = genesis_of X 1598918400 0x1e0377ae 52613770"

definition genesis_regtest :: "hex_codec \<Rightarrow> genesis option" where
  "genesis_regtest X = genesis_of X 1296688602 0x207fffff 2"

definition from_magic :: "hex_codec \<Rightarrow> magic \<Rightarrow> genesis option" where
  "from_magic X m =
     (if m = MAGIC_MAINNET then genesis_mainnet X
      else if m = MAGIC_TESTNET3 then genesis_testnet3 X
      else if m = MAGIC_SIGNET then genesis_signet X
      else if m = MAGIC_REGTEST then genesis_regtest X
      else genesis_signet X)"

definition genesis_script_sig :: "genesis \<Rightarrow> bytes" where
  "genesis_script_sig g =
     [0x04] @ to_le 4 (486604799 :: u32) @ [0x01, 0x04] @ [word_of_nat (length (ge_message g))] @
     map of_char (ge_message g)"

definition genesis_coinbase :: "genesis \<Rightarrow> transaction" where
  "genesis_coinbase g =
     \<lparr>tx_version = 1,
      inputs = [\<lparr>previous_output = \<lparr>op_txid = hash_ZERO, op_vout = 0xffffffff\<rparr>, script_sig = genesis_script_sig g,
        sequence = 0xffffffff, witness = []\<rparr>],
      outputs = [\<lparr>out_value = ge_reward g, script_pubkey = ge_output_script g\<rparr>],
      lock_time = 0\<rparr>"

definition genesis_build :: "digests \<Rightarrow> genesis \<Rightarrow> block" where
  "genesis_build H g =
     (let b = \<lparr>header = \<lparr>bh_version = ge_version g, prev_hash = hash_ZERO, merkle_root = hash_ZERO,
                 bh_time = ge_timestamp g, bh_bits = ge_bits g, bh_nonce = ge_nonce g\<rparr>,
               transactions = [genesis_coinbase g]\<rparr>
      in b\<lparr>header := (header b)\<lparr>merkle_root := compute_merkle_root H b\<rparr>\<rparr>)"

subsection \<open>Networks\<close>

definition test_prefixes :: "base58_type \<rightharpoonup> bytes" where
  "test_prefixes =
     [PubKeyAddress \<mapsto> [111], ScriptAddress \<mapsto> [196], SecretKey \<mapsto> [239],
      ExtPublicKey \<mapsto> [0x04, 0x35, 0x87, 0xCF], ExtSecretKey \<mapsto> [0x04, 0x35, 0x83, 0x94]]"

definition main_prefixes :: "base58_type \<rightharpoonup> bytes" where
  "main_prefixes =
     [PubKeyAddress \<mapsto> [0], ScriptAddress \<mapsto> [5], SecretKey \<mapsto> [128],
      ExtPublicKey \<mapsto> [0x04, 0x88, 0xB2, 0x1E], ExtSecretKey \<mapsto> [0x04, 0x88, 0xAD, 0xE4]]"

definition mainnet_params :: "digests \<Rightarrow> hex_codec \<Rightarrow> chain_params option" where
  "mainnet_params H X =
     Option.bind (genesis_mainnet X) (\<lambda>g.
     Option.bind (from_hex_be X ''Hash256'' ''00000000ffffffffffffffffffffffffffffffffffffffffffffffffffffffff'') (\<lambda>limit.
     Option.bind (from_hex_be X ''Hash256'' ''000000000000000000000000000000000000000017dde1c649f3708d14b6'') (\<lambda>work.
     Option.bind (from_hex_be X ''BlockHash'' ''000000000000000000035c3f0d31e71a5cb24c9ad35140bbdaed4af95ba3d52e'') (\<lambda>assumed.
     Some \<lparr>genesis_header = header (genesis_build H g),
       consensus = \<lparr>bip34_height = 227931, bip65_height = 388381, bip66_height = 363725, segwit_height = 481824, pow_limit = limit,
         pow_target_spacing = 600, pow_target_timespan = 14 * 24 * 60 * 60, pow_no_retargeting = False, f_pow_allow_min_difficulty_blocks = False,
         n_subsidy_halving_interval = 210000, n_minimum_chain_work = work, default_assume_valid = assumed,
         signet_blocks = False, signet_challenge = []\<rparr>,
       cp_magic = MAGIC_MAINNET, default_port = 8333, bech32_hrp = ''bc'', base58_prefixes = main_prefixes,
       dns_seeds = [''seed.bitcoin.sipa.be'', ''dnsseed.bluematt.me'', ''dnsseed.bitcoin.dashjr-list.of.hetzner.de'', ''seed.bitcoinstats.com'', ''seed.bitcoin.jonasschnelli.ch'', ''seed.btc.petertodd.net'']\<rparr>))))"

definition testnet3_params :: "digests \<Rightarrow> hex_codec \<Rightarrow> chain_params option" where
  "testnet3_params H X =
     Option.bind (genesis_testnet3 X) (\<lambda>g.
     Option.bind (from_hex_be X ''Hash256'' ''00000000ffffffffffffffffffffffffffffffffffffffffffffffffffffffff'') (\<lambda>limit.
     Option.bind (from_hex_be X ''Hash256'' ''0000000000000000000000000000000000000000000017dde1c649f3708d14b6'') (\<lambda>work.
     Option.bind (from_hex_be X ''BlockHash'' ''000000007a61e4230b28ac5cb6b5e5a0130de37ac1faf2f8987d2fa6505b67f4'') (\<lambda>assumed.
     Some \<lparr>genesis_header = header (genesis_build H g),
       consensus = \<lparr>bip34_height = 21111, bip65_height = 581885, bip66_height = 330776, segwit_height = 834624, pow_limit = limit,
         pow_target_spacing = 600, pow_target_timespan = 14 * 24 * 60 * 60, pow_no_retargeting = False, f_pow_allow_min_difficulty_blocks = True,
         n_subsidy_halving_interval = 210000, n_minimum_chain_work = work, default_assume_valid = assumed,
         signet_blocks = False, signet_challenge = []\<rparr>,
       cp_magic = MAGIC_TESTNET3, default_port = 18333, bech32_hrp = ''tb'', base58_prefixes = test_prefixes,
       dns_seeds = [''testnet-seed.bitcoin.jonasschnelli.ch'', ''seed.tbtc.petertodd.net'', ''seed.testnet.bitcoin.sprovoost.nl'', ''testnet-seed.bluematt.me'', ''seed.testnet.achownodes.xyz'']\<rparr>))))"

definition signet_params :: "digests \<Rightarrow> hex_codec \<Rightarrow> chain_params option" where
  "signet_params H X =
     Option.bind (genesis_signet X) (\<lambda>g.
     Option.bind (from_hex_be X ''Hash256'' ''00000377ae000000000000000000000000000000000000000000000000000000'') (\<lambda>limit.
     Option.bind (from_hex_be X ''Hash256'' ''00000000000000000000000000000000000000000000000000000b463ea0a4b8'') (\<lambda>work.
     Option.bind (from_hex_be X ''BlockHash'' ''00000008414aab61092ef93f1aacc54cf9e9f16af29ddad493b908a01ff5c329'') (\<lambda>assumed.
     Option.bind (hex_decode X ''512103ad5e0edad18cb1f0fc0d28a3d4f1f3e445640337489abb10404f2d1e086be430210359ef5021964fe22d6f8e05b2463c9540ce96883fe3b278760f048f5189f2e6c452ae'') (\<lambda>challenge.
     Some \<lparr>genesis_header = header (genesis_build H g),
       consensus = \<lparr>bip34_height = 1, bip65_height = 1, bip66_height = 1, segwit_height = 1, pow_limit = limit,
         pow_target_spacing = 600, pow_target_timespan = 14 * 24 * 60 * 60, pow_no_retargeting = False, f_pow_allow_min_difficulty_blocks = False,
         n_subsidy_halving_interval = 210000, n_minimum_chain_work = work, default_assume_valid = assumed,
         signet_blocks = True, signet_challenge = challenge\<rparr>,
       cp_magic = MAGIC_SIGNET, default_port = 38333, bech32_hrp = ''tb'', base58_prefixes = test_prefixes,
       dns_seeds = [''seed.signet.bitcoin.sprovoost.nl'']\<rparr>)))))"

definition regtest_params :: "digests \<Rightarrow> hex_codec \<Rightarrow> chain_params option" where
  "regtest_params H X =
     Option.bind (genesis_regtest X) (\<lambda>g.
     Option.bind (from_hex_be X ''Hash256'' ''7fffffffffffffffffffffffffffffffffffffffffffffffffffffffffffffff'') (\<lambda>limit.
     Option.bind (from_hex_be X ''Hash256'' ''0000000000000000000000000000000000000000000000000000000000000000'') (\<lambda>work.
     Option.bind (from_hex_be X ''BlockHash'' ''06226e46111a0b59caaf126043eb5b79c60f48e789a30595d9715734b6dee15c'') (\<lambda>assumed.
     Some \<lparr>genesis_header = header (genesis_build H g),
       consensus = \<lparr>bip34_height = 100, bip65_height = 1351, bip66_height = 1251, segwit_height = 0, pow_limit = limit,
         pow_target_spacing = 600, pow_target_timespan = 14 * 24 * 60 * 60, pow_no_retargeting = True, f_pow_allow_min_difficulty_blocks = True,
         n_subsidy_halving_interval = 150, n_minimum_chain_work = work, default_assume_valid = assumed,
         signet_blocks = False, signet_challenge = []\<rparr>,
       cp_magic = MAGIC_REGTEST, default_port = 18444, bech32_hrp = ''bcrt'', base58_prefixes = test_prefixes,
       dns_seeds = []\<rparr>))))"

subsection \<open>Chain selection\<close>

datatype chain_type = Mainnet | Testnet3 | Signet | Regtest

fun type_params :: "digests \<Rightarrow> hex_codec \<Rightarrow> chain_type \<Rightarrow> chain_params option" where
  "type_params H X Mainnet = mainnet_params H X"
| "type_params H X Testnet3 = testnet3_params H X"
| "type_params H X Signet = signet_params H X"
| "type_params H X Regtest = regtest_params H X"

fun datadir_suffix :: "chain_type \<Rightarrow> string option" where
  "datadir_suffix Mainnet = None"
| "datadir_suffix Testnet3 = Some ''testnet3''"
| "datadir_suffix Signet = Some ''signet''"
| "datadir_suffix Regtest = Some ''regtest''"

definition all_chain_types :: "chain_type list" where
  "all_chain_types = [Mainnet, Testnet3, Signet, Regtest]"

fun chain_type_name :: "chain_type \<Rightarrow> string" where
  "chain_type_name Mainnet = ''mainnet''"
| "chain_type_name Testnet3 = ''testnet3''"
| "chain_type_name Signet = ''signet''"
| "chain_type_name Regtest = ''regtest''"

definition chain_type_from :: "string \<Rightarrow> chain_type" where
  "chain_type_from s =
     (let s = map ascii_lower s
      in if s = ''mainnet'' then Mainnet
         else if s = ''testnet'' \<or> s = ''testnet3'' then Testnet3
         else if s = ''signet'' then Signet
         else if s = ''regtest'' then Regtest
         else Mainnet)"

text \<open>\<^verbatim>\<open>Display for Magic\<close>; \<open>debug_upper\<close> is the formatting of a byte array by \<^verbatim>\<open>{:02X?}\<close>.\<close>

definition upper_digits :: "u8 \<Rightarrow> string" where
  "upper_digits b = [''0123456789ABCDEF'' ! (unat b div 16), ''0123456789ABCDEF'' ! (unat b mod 16)]"

fun comma_separated :: "string list \<Rightarrow> string" where
  "comma_separated [] = []"
| "comma_separated [s] = s"
| "comma_separated (s # ss) = s @ '', '' @ comma_separated ss"

definition debug_upper :: "bytes \<Rightarrow> string" where
  "debug_upper bs = ''['' @ comma_separated (map upper_digits bs) @ '']''"

definition magic_to_string :: "magic \<Rightarrow> string" where
  "magic_to_string m =
     (if m = MAGIC_MAINNET then ''mainnet''
      else if m = MAGIC_TESTNET3 then ''testnet3''
      else if m = MAGIC_SIGNET then ''signet''
      else if m = MAGIC_REGTEST then ''regtest''
      else ''custom('' @ debug_upper m @ '')'')"

subsection \<open>Which parameters can be built\<close>

lemma hex_bytes_defined: "(\<exists>bs. hex_bytes s = Some bs) \<longleftrightarrow> even (length s) \<and> list_all (\<lambda>c. hex_value c \<noteq> None) s"
  by (induction s rule: hex_bytes.induct) (auto split: option.splits)

abbreviation all_hex :: "string \<Rightarrow> bool" where
  "all_hex s \<equiv> list_all (\<lambda>c. hex_value c \<noteq> None) s"

lemma from_hex_be_literal:
  assumes "hex_documented X" "length s = 64" "all_hex s"
  obtains h where "from_hex_be X context s = Some h" "wf_hash h"
proof -
  from assms(2,3) obtain bs where bs: "hex_bytes s = Some bs" using hex_bytes_defined [of s] by auto
  with assms(2) have "length bs = 32" using hex_text_bytes [OF bs] by simp
  with bs that [of "rev bs"] show thesis by (simp add: from_hex_be_def hash_text_of [OF assms(1)] wf_hash_def)
qed

lemma hex_decode_literal:
  assumes "hex_documented X" "length s = 2 * n" "all_hex s"
  obtains bs where "hex_decode X s = Some bs" "length bs = n"
proof -
  from assms(2,3) obtain bs where bs: "hex_bytes s = Some bs" using hex_bytes_defined [of s] by auto
  with assms(2) have "length bs = n" using hex_text_bytes [OF bs] by simp
  with bs that [of bs] assms(1) show thesis by (simp add: hex_documented_def)
qed

lemma from_hex_be_short: "hex_documented X \<Longrightarrow> length s \<noteq> 64 \<Longrightarrow> from_hex_be X context s = None"
  by (rule hash_text_of(3))

lemma genesis_of_defined:
  assumes "hex_documented X"
  obtains pay_script where "length pay_script = 67"
    "genesis_of X timestamp bits nonce = Some \<lparr>ge_version = 1, ge_timestamp = timestamp, ge_bits = bits, ge_nonce = nonce,
       ge_message = ''The Times 03/Jan/2009 Chancellor on brink of second bailout for banks'',
       ge_output_script = pay_script, ge_reward = 5000000000\<rparr>"
proof -
  let ?key = "''4104678afdb0fe5548271967f1a67130b7105cd6a828e03909a67962e0ea1f61deb649f6bc3f4cef38c4f35504e51ec112de5c384df7ba0b8d578a4c702b6bf11d5fac''"
  have "length ?key = 2 * 67" "all_hex ?key" by (simp, code_simp)
  then obtain pay_script where "hex_decode X ?key = Some pay_script" "length pay_script = 67"
    by (rule hex_decode_literal [OF assms])
  moreover have "from_sat 5000000000 = Inr 5000000000" by code_simp
  ultimately show thesis using that by (simp add: genesis_of_def)
qed

lemmas network_defs = mainnet_params_def testnet3_params_def signet_params_def regtest_params_def
lemmas genesis_defs = genesis_mainnet_def genesis_testnet3_def genesis_signet_def genesis_regtest_def

text \<open>The minimum chain work of mainnet is written with 60 digits.\<close>

lemma mainnet_params_panic:
  assumes "hex_documented X"
  shows "mainnet_params H X = None"
proof -
  have "length ''000000000000000000000000000000000000000017dde1c649f3708d14b6'' \<noteq> 64" by simp
  from from_hex_be_short [OF assms this] show ?thesis
    unfolding mainnet_params_def by (simp only: option.case_eq_if bind_eq_None_conv) auto
qed

text \<open>What the rest of the node relies on: hashes of 32 bytes and a genesis block that commits to its coinbase.\<close>

definition wf_params :: "digests \<Rightarrow> chain_params \<Rightarrow> bool" where
  "wf_params H params \<longleftrightarrow>
     wf_header (genesis_header params) \<and> is_zero (prev_hash (genesis_header params)) \<and>
     wf_hash (pow_limit (consensus params)) \<and> wf_hash (n_minimum_chain_work (consensus params)) \<and>
     wf_hash (default_assume_valid (consensus params)) \<and> length (cp_magic params) = 4"

lemma genesis_header_simps:
  "header (genesis_build H g) =
     \<lparr>bh_version = ge_version g, prev_hash = hash_ZERO, merkle_root = txid H (genesis_coinbase g),
      bh_time = ge_timestamp g, bh_bits = ge_bits g, bh_nonce = ge_nonce g\<rparr>"
  by (simp add: genesis_build_def compute_merkle_root_def merkle_loop.simps)

lemma is_zero_ZERO [simp]: "is_zero hash_ZERO"
  by (simp add: is_zero_def hash_ZERO_def list_all_iff)

lemma genesis_header_wf:
  assumes "digest_sizes H"
  shows "wf_header (header (genesis_build H g)) \<and> is_zero (prev_hash (header (genesis_build H g)))"
  using assms by (simp add: genesis_header_simps wf_header_def txid_def)

lemma magic_length [simp]:
  "length MAGIC_MAINNET = 4" "length MAGIC_TESTNET3 = 4" "length MAGIC_SIGNET = 4" "length MAGIC_REGTEST = 4"
  by (simp_all add: MAGIC_MAINNET_def MAGIC_TESTNET3_def MAGIC_SIGNET_def MAGIC_REGTEST_def)

definition hash_literal :: "string \<Rightarrow> bool" where
  "hash_literal s \<longleftrightarrow> length s = 64 \<and> all_hex s"

lemma hash_literals:
  assumes "hex_documented X" "list_all hash_literal [a, b, c]"
  obtains limit work assumed where "from_hex_be X ''Hash256'' a = Some limit" "from_hex_be X ''Hash256'' b = Some work"
    "from_hex_be X ''BlockHash'' c = Some assumed" "wf_hash limit" "wf_hash work" "wf_hash assumed"
proof -
  have abc: "length a = 64" "all_hex a" "length b = 64" "all_hex b" "length c = 64" "all_hex c"
    using assms(2) by (simp_all add: hash_literal_def)
  obtain limit where "from_hex_be X ''Hash256'' a = Some limit" "wf_hash limit"
    by (rule from_hex_be_literal [OF assms(1) abc(1,2)])
  moreover obtain work where "from_hex_be X ''Hash256'' b = Some work" "wf_hash work"
    by (rule from_hex_be_literal [OF assms(1) abc(3,4)])
  moreover obtain assumed where "from_hex_be X ''BlockHash'' c = Some assumed" "wf_hash assumed"
    by (rule from_hex_be_literal [OF assms(1) abc(5,6)])
  ultimately show thesis using that by blast
qed

lemma testnet3_params_defined:
  assumes "hex_documented X" "digest_sizes H"
  shows "\<exists>params. testnet3_params H X = Some params \<and> wf_params H params \<and> cp_magic params = MAGIC_TESTNET3"
proof -
  let ?a = "''00000000ffffffffffffffffffffffffffffffffffffffffffffffffffffffff''"
  let ?b = "''0000000000000000000000000000000000000000000017dde1c649f3708d14b6''"
  let ?c = "''000000007a61e4230b28ac5cb6b5e5a0130de37ac1faf2f8987d2fa6505b67f4''"
  obtain g where g: "genesis_testnet3 X = Some g" using genesis_of_defined [OF assms(1)] unfolding genesis_defs by metis
  have "list_all hash_literal [?a, ?b, ?c]" by code_simp
  then obtain limit work assumed where h: "from_hex_be X ''Hash256'' ?a = Some limit"
    "from_hex_be X ''Hash256'' ?b = Some work" "from_hex_be X ''BlockHash'' ?c = Some assumed"
    "wf_hash limit" "wf_hash work" "wf_hash assumed"
    by (rule hash_literals [OF assms(1)])
  show ?thesis
    unfolding testnet3_params_def g h(1-3) bind.bind_lunit
    using h(4-6) genesis_header_wf [OF assms(2)] by (simp add: wf_params_def)
qed

lemma signet_params_defined:
  assumes "hex_documented X" "digest_sizes H"
  shows "\<exists>params. signet_params H X = Some params \<and> wf_params H params \<and> cp_magic params = MAGIC_SIGNET"
proof -
  let ?a = "''00000377ae000000000000000000000000000000000000000000000000000000''"
  let ?b = "''00000000000000000000000000000000000000000000000000000b463ea0a4b8''"
  let ?c = "''00000008414aab61092ef93f1aacc54cf9e9f16af29ddad493b908a01ff5c329''"
  obtain g where g: "genesis_signet X = Some g" using genesis_of_defined [OF assms(1)] unfolding genesis_defs by metis
  have "list_all hash_literal [?a, ?b, ?c]" by code_simp
  then obtain limit work assumed where h: "from_hex_be X ''Hash256'' ?a = Some limit"
    "from_hex_be X ''Hash256'' ?b = Some work" "from_hex_be X ''BlockHash'' ?c = Some assumed"
    "wf_hash limit" "wf_hash work" "wf_hash assumed"
    by (rule hash_literals [OF assms(1)])
  have "length ''512103ad5e0edad18cb1f0fc0d28a3d4f1f3e445640337489abb10404f2d1e086be430210359ef5021964fe22d6f8e05b2463c9540ce96883fe3b278760f048f5189f2e6c452ae'' = 2 * 71" "all_hex ''512103ad5e0edad18cb1f0fc0d28a3d4f1f3e445640337489abb10404f2d1e086be430210359ef5021964fe22d6f8e05b2463c9540ce96883fe3b278760f048f5189f2e6c452ae''" by (simp, code_simp)
  then obtain bs where challenge: "hex_decode X ''512103ad5e0edad18cb1f0fc0d28a3d4f1f3e445640337489abb10404f2d1e086be430210359ef5021964fe22d6f8e05b2463c9540ce96883fe3b278760f048f5189f2e6c452ae'' = Some bs"
    by (rule hex_decode_literal [OF assms(1)])
  show ?thesis
    unfolding signet_params_def g h(1-3) challenge bind.bind_lunit
    using h(4-6) genesis_header_wf [OF assms(2)] by (simp add: wf_params_def)
qed

lemma regtest_params_defined:
  assumes "hex_documented X" "digest_sizes H"
  shows "\<exists>params. regtest_params H X = Some params \<and> wf_params H params \<and> cp_magic params = MAGIC_REGTEST"
proof -
  let ?a = "''7fffffffffffffffffffffffffffffffffffffffffffffffffffffffffffffff''"
  let ?b = "''0000000000000000000000000000000000000000000000000000000000000000''"
  let ?c = "''06226e46111a0b59caaf126043eb5b79c60f48e789a30595d9715734b6dee15c''"
  obtain g where g: "genesis_regtest X = Some g" using genesis_of_defined [OF assms(1)] unfolding genesis_defs by metis
  have "list_all hash_literal [?a, ?b, ?c]" by code_simp
  then obtain limit work assumed where h: "from_hex_be X ''Hash256'' ?a = Some limit"
    "from_hex_be X ''Hash256'' ?b = Some work" "from_hex_be X ''BlockHash'' ?c = Some assumed"
    "wf_hash limit" "wf_hash work" "wf_hash assumed"
    by (rule hash_literals [OF assms(1)])
  show ?thesis
    unfolding regtest_params_def g h(1-3) bind.bind_lunit
    using h(4-6) genesis_header_wf [OF assms(2)] by (simp add: wf_params_def)
qed

lemma type_params_defined:
  assumes "hex_documented X" "digest_sizes H"
  shows "type_params H X t = None \<longleftrightarrow> t = Mainnet"
    "type_params H X t = Some params \<Longrightarrow> wf_params H params \<and> magic_to_string (cp_magic params) = chain_type_name t"
  using mainnet_params_panic [OF assms(1)] testnet3_params_defined [OF assms] signet_params_defined [OF assms]
    regtest_params_defined [OF assms]
  by (cases t; auto simp: magic_to_string_def MAGIC_MAINNET_def MAGIC_TESTNET3_def MAGIC_SIGNET_def MAGIC_REGTEST_def)+

lemma chain_type_text: "chain_type_from (chain_type_name t) = t"
proof -
  have "list_all (\<lambda>t. chain_type_from (chain_type_name t) = t) all_chain_types" by code_simp
  then show ?thesis unfolding all_chain_types_def by (cases t) simp_all
qed

end
