(* ===== verification/Signet.thy ===== *)
theory Signet
  imports ScriptSpends Params
begin

text \<open>
  Signet block solutions, \<^verbatim>\<open>consensus/signet.rs\<close>.  Error texts that print a wire error carry the error itself.
\<close>

subsection \<open>Constants\<close>

definition SIGNET_HEADER :: bytes where
  "SIGNET_HEADER = [0xec, 0xc7, 0xda, 0xa2]"

definition MINIMUM_WITNESS_COMMITMENT :: nat where
  "MINIMUM_WITNESS_COMMITMENT = 38"

definition WITNESS_COMMITMENT_PREFIX :: bytes where
  "WITNESS_COMMITMENT_PREFIX = [0x6a, 0x24, 0xaa, 0x21, 0xa9, 0xed]"

datatype malformed_solution = BadScriptSig decode_error | BadWitness decode_error | ExtraneousData

datatype signet_error =
    ChallengeMissing
  | NoCoinbase
  | MissingWitnessCommitment
  | MalformedSolution malformed_solution
  | UnsupportedChallenge
  | ScriptFailed script_error

subsection \<open>The commitment\<close>

definition is_witness_commitment :: "tx_out \<Rightarrow> bool" where
  "is_witness_commitment out \<longleftrightarrow>
     length (script_pubkey out) \<ge> MINIMUM_WITNESS_COMMITMENT \<and>
     take 6 (script_pubkey out) = WITNESS_COMMITMENT_PREFIX"

definition get_witness_commitment_index :: "transaction \<Rightarrow> nat option" where
  "get_witness_commitment_index coinbase =
     map_option fst (List.find (\<lambda>(_, out). is_witness_commitment out) (rev (enumerate 0 (outputs coinbase))))"

text \<open>
  The scan of \<^verbatim>\<open>fetch_and_clear_commitment_section\<close>: \<open>pos\<close>, the section found so far and the
  rewritten script.  The length of a push is its opcode, or the bytes after it.
\<close>

definition push_size_len :: "u8 \<Rightarrow> nat" where
  "push_size_len opcode = (if opcode = 0x4c then 1 else if opcode = 0x4d then 2 else if opcode = 0x4e then 4 else 0)"

definition push_len :: "u8 \<Rightarrow> bytes \<Rightarrow> nat" where
  "push_len opcode size_bytes =
     (if opcode \<le> 75 then unat opcode
      else if opcode = 0x4c then unat (size_bytes ! 0)
      else if opcode = 0x4d then unat (of_le size_bytes :: u16)
      else unat (of_le size_bytes :: u32))"

function fetch_loop :: "bytes \<Rightarrow> bytes \<Rightarrow> nat \<Rightarrow> bytes option \<Rightarrow> bytes \<Rightarrow> bytes option \<times> bytes" where
  "fetch_loop hdr script pos found modified =
     (if pos < length script then
        let opcode = script ! pos; pos = pos + 1
        in if opcode > 0x4e then fetch_loop hdr script pos found (modified @ [opcode])
           else if pos + push_size_len opcode > length script then (found, modified)
           else
             let size_bytes = take (push_size_len opcode) (drop pos script);
                 len = push_len opcode size_bytes;
                 data_start = pos + push_size_len opcode
             in if data_start + len > length script then (found, modified)
                else
                  let d = take len (drop data_start script)
                  in if found = None \<and> len > length hdr \<and> take (length hdr) d = hdr
                     then fetch_loop hdr script (data_start + len) (Some (drop (length hdr) d))
                            (modified @ word_of_nat (length hdr) # hdr)
                     else fetch_loop hdr script (data_start + len) found (modified @ opcode # size_bytes @ d)
      else (found, modified))"
  by pat_completeness auto
termination
  by (relation "measure (\<lambda>(hdr, script, pos, found, modified). length script - pos)") auto

declare fetch_loop.simps [simp del]

definition fetch_and_clear_commitment_section :: "bytes \<Rightarrow> bytes \<Rightarrow> bytes option \<times> bytes" where
  "fetch_and_clear_commitment_section hdr script = fetch_loop hdr script 0 None []"

definition parse_signet_solution :: "bytes \<Rightarrow> signet_error + (bytes \<times> bytes list)" where
  "parse_signet_solution d =
     and_then (map_err (\<lambda>e. MalformedSolution (BadScriptSig e)) (read_varbytes (decoder_new d) ''signet_scriptSig''))
       (\<lambda>(ssig, dec).
     and_then (map_err (\<lambda>e. MalformedSolution (BadWitness e)) (read_var_list decode_vec_u8 ''signet_witness'' dec))
       (\<lambda>(wit, dec).
     if \<not> is_done dec then Inl (MalformedSolution ExtraneousData) else Inr (ssig, wit)))"

subsection \<open>The virtual transactions\<close>

text \<open>\<^verbatim>\<open>merkle_root\<close> runs the same level loop as \<^verbatim>\<open>Block::compute_merkle_root\<close>, on any list of hashes.\<close>

definition signet_merkle_root :: "digests \<Rightarrow> hash list \<Rightarrow> hash" where
  "signet_merkle_root H hs = (if hs = [] then hash_ZERO else merkle_loop H hs ! 0)"

definition compute_modified_merkle_root :: "digests \<Rightarrow> block \<Rightarrow> transaction \<Rightarrow> hash" where
  "compute_modified_merkle_root H b modified_coinbase =
     signet_merkle_root H (txid H modified_coinbase # map (txid H) (drop 1 (transactions b)))"

definition signet_push_data :: "bytes \<Rightarrow> bytes \<Rightarrow> bytes" where
  "signet_push_data script d =
     (let len = length d
      in (if len \<le> 75 then script @ [word_of_nat len]
          else if len \<le> 0xff then script @ [0x4c, word_of_nat len]
          else if len \<le> 0xffff then script @ 0x4d # to_le 2 (word_of_nat len :: u16)
          else script @ 0x4e # to_le 4 (word_of_nat len :: u32)) @ d)"

record signet_txs =
  to_spend :: transaction
  to_sign :: transaction

text \<open>The bytes the signature covers: version, previous hash, modified root and time.\<close>

definition signet_block_data :: "block_header \<Rightarrow> hash \<Rightarrow> bytes" where
  "signet_block_data h signet_merkle = to_le 4 (bh_version h) @ prev_hash h @ signet_merkle @ to_le 4 (bh_time h)"

definition signet_to_spend :: "bytes \<Rightarrow> bytes \<Rightarrow> transaction" where
  "signet_to_spend block_data challenge =
     \<lparr>tx_version = 0,
      inputs = [\<lparr>previous_output = \<lparr>op_txid = hash_ZERO, op_vout = 0xFFFFFFFF\<rparr>,
                 script_sig = signet_push_data [0] block_data, sequence = 0, witness = []\<rparr>],
      outputs = [\<lparr>out_value = amount_ZERO, script_pubkey = challenge\<rparr>],
      lock_time = 0\<rparr>"

definition signet_to_sign :: "hash \<Rightarrow> bytes \<Rightarrow> bytes list \<Rightarrow> transaction" where
  "signet_to_sign spend_txid ssig wit =
     \<lparr>tx_version = 0,
      inputs = [\<lparr>previous_output = \<lparr>op_txid = spend_txid, op_vout = 0\<rparr>, script_sig = ssig, sequence = 0, witness = wit\<rparr>],
      outputs = [\<lparr>out_value = amount_ZERO, script_pubkey = [0x6a]\<rparr>],
      lock_time = 0\<rparr>"

definition signet_txs_new :: "digests \<Rightarrow> block \<Rightarrow> bytes \<Rightarrow> signet_error + signet_txs" where
  "signet_txs_new H b challenge =
     (case transactions b of
        [] \<Rightarrow> Inl NoCoinbase
      | coinbase # _ \<Rightarrow>
          if \<not> is_coinbase coinbase then Inl NoCoinbase
          else
            and_then (ok_or MissingWitnessCommitment (get_witness_commitment_index coinbase)) (\<lambda>cidx.
            let out = outputs coinbase ! cidx;
                (solution, modified_commitment) = fetch_and_clear_commitment_section SIGNET_HEADER (script_pubkey out);
                modified_coinbase = coinbase\<lparr>outputs := (outputs coinbase)[cidx := out\<lparr>script_pubkey := modified_commitment\<rparr>]\<rparr>
            in and_then (case solution of Some bytes \<Rightarrow> parse_signet_solution bytes | None \<Rightarrow> Inr ([], [])) (\<lambda>(ssig, wit).
               let signet_merkle = compute_modified_merkle_root H b modified_coinbase;
                   spend = signet_to_spend (signet_block_data (header b) signet_merkle) challenge
               in Inr \<lparr>to_spend = spend, to_sign = signet_to_sign (txid H spend) ssig wit\<rparr>)))"

definition is_unsupported_challenge :: "bytes \<Rightarrow> bool" where
  "is_unsupported_challenge challenge \<longleftrightarrow>
     (case parse_witness_program challenge of
        Some wp \<Rightarrow>
          if wp_version wp = 0 then False
          else if wp_version wp = 1 then length (wp_program wp) \<noteq> WITNESS_V1_TAPROOT_SIZE
          else True
      | None \<Rightarrow> False)"

definition SIGNET_FLAGS :: verify_flags where
  "SIGNET_FLAGS = FLAG_P2SH OR FLAG_DERSIG OR FLAG_NULLDUMMY OR FLAG_WITNESS OR FLAG_TAPROOT"

definition verify_solution_script :: "digests \<Rightarrow> secp \<Rightarrow> signet_txs \<Rightarrow> bytes \<Rightarrow> signet_error + unit" where
  "verify_solution_script H ec txs challenge =
     (if is_unsupported_challenge challenge then Inl UnsupportedChallenge
      else
        let inp = inputs (to_sign txs) ! 0;
            spent_outputs = outputs (to_spend txs);
            checker = transaction_signature_checker H ec (tx_checker_new H (to_sign txs) 0 spent_outputs)
        in map_err ScriptFailed
             (verify_script H ec (script_sig inp) challenge (witness inp) SIGNET_FLAGS checker))"

definition check_signet_block_solution :: "digests \<Rightarrow> secp \<Rightarrow> block \<Rightarrow> chain_params \<Rightarrow> signet_error + unit" where
  "check_signet_block_solution H ec b params =
     (if block_hash H (header b) = genesis_hash H params then Inr ()
      else if signet_challenge (consensus params) = [] then Inl ChallengeMissing
      else and_then (signet_txs_new H b (signet_challenge (consensus params)))
             (\<lambda>txs. verify_solution_script H ec txs (signet_challenge (consensus params))))"

subsection \<open>Agreement with the script and block modules\<close>

lemma signet_push_data_eq: "signet_push_data = push_data"
  by (auto simp: fun_eq_iff signet_push_data_def push_data_def Let_def)

lemma signet_merkle_root_txids:
  "transactions b \<noteq> [] \<Longrightarrow> signet_merkle_root H (map (txid H) (transactions b)) = compute_merkle_root H b"
  by (simp add: signet_merkle_root_def compute_merkle_root_def)

text \<open>The last matching output wins.\<close>

lemma find_rev_enumerate:
  "map_option fst (List.find (\<lambda>(_, x). P x) (rev (enumerate n xs))) = Some i \<longleftrightarrow>
    n \<le> i \<and> i < n + length xs \<and> P (xs ! (i - n)) \<and> (\<forall>j. i < j \<and> j < n + length xs \<longrightarrow> \<not> P (xs ! (j - n)))"
proof (induction xs rule: rev_induct)
  case (snoc x xs)
  show ?case
  proof (cases "P x")
    case True
    then show ?thesis by (auto simp: enumerate_append_eq nth_append less_Suc_eq not_less)
  next
    case False
    show ?thesis
      using snoc False by (auto simp: enumerate_append_eq nth_append less_Suc_eq)
  qed
qed simp

lemma get_witness_commitment_index_Some:
  "get_witness_commitment_index tx = Some i \<longleftrightarrow>
    i < length (outputs tx) \<and> is_witness_commitment (outputs tx ! i) \<and>
    (\<forall>j. i < j \<and> j < length (outputs tx) \<longrightarrow> \<not> is_witness_commitment (outputs tx ! j))"
  using find_rev_enumerate [of is_witness_commitment 0 "outputs tx" i]
  by (simp add: get_witness_commitment_index_def)

subsection \<open>What a solution signs\<close>

text \<open>The proof of work fields are not covered, everything else of the header is.\<close>

lemma signet_txs_ignore_pow:
  "signet_txs_new H (b\<lparr>header := (header b)\<lparr>bh_nonce := n, bh_bits := bits\<rparr>\<rparr>) challenge = signet_txs_new H b challenge"
  by (cases "transactions b")
    (simp_all add: signet_txs_new_def compute_modified_merkle_root_def signet_block_data_def)

lemma signet_block_data_inject:
  assumes "wf_hash (prev_hash h)" "wf_hash (prev_hash h')" "wf_hash r" "wf_hash r'"
  shows "signet_block_data h r = signet_block_data h' r' \<longleftrightarrow>
    bh_version h = bh_version h' \<and> prev_hash h = prev_hash h' \<and> r = r' \<and> bh_time h = bh_time h'"
  using assms by (auto simp: signet_block_data_def wf_hash_def)

subsection \<open>The commitment section\<close>

text \<open>A script as the list of its instructions: plain opcodes and data pushes in minimal form.\<close>

datatype commit_item = Plain u8 | Data bytes

fun item_bytes :: "commit_item \<Rightarrow> bytes" where
  "item_bytes (Plain op) = [op]"
| "item_bytes (Data d) = push_data [] d"

fun item_ok :: "commit_item \<Rightarrow> bool" where
  "item_ok (Plain op) \<longleftrightarrow> op > 0x4e"
| "item_ok (Data d) \<longleftrightarrow> length d < 2 ^ 32"

definition tagged :: "bytes \<Rightarrow> commit_item \<Rightarrow> bool" where
  "tagged hdr item \<longleftrightarrow> (\<exists>sol. item = Data (hdr @ sol) \<and> sol \<noteq> [])"

lemma push_data_parts:
  assumes "length d < 2 ^ 32"
  obtains opcode size_bytes where "push_data [] d = opcode # size_bytes @ d" "opcode \<le> 0x4e"
    "length size_bytes = push_size_len opcode" "push_len opcode size_bytes = length d"
proof -
  consider "length d \<le> 75" | "75 < length d" "length d \<le> 0xff" | "0xff < length d" "length d \<le> 0xffff"
    | "0xffff < length d" by linarith
  then show thesis
  proof cases
    case 1
    then have u: "unat (word_of_nat (length d) :: u8) = length d" by (simp add: unat_word_of_nat_byte)
    then have "(word_of_nat (length d) :: u8) \<le> 75" "(word_of_nat (length d) :: u8) \<le> 0x4e"
        "(word_of_nat (length d) :: u8) \<notin> {0x4c, 0x4d, 0x4e}"
      using 1 by (auto simp: word_le_nat_alt dest: arg_cong [of _ _ unat])
    with 1 u show thesis
      by (intro that [of "word_of_nat (length d)" "[]"]) (auto simp: push_data_def push_size_len_def push_len_def)
  next
    case 2
    then show thesis
      by (intro that [of "0x4c" "[word_of_nat (length d)]"])
        (auto simp: push_data_def push_size_len_def push_len_def unat_word_of_nat_byte Let_def)
  next
    case 3
    then show thesis
      by (intro that [of "0x4d" "to_le 2 (word_of_nat (length d) :: u16)"])
        (auto simp: push_data_def push_size_len_def push_len_def unat_word_of_nat_u16 Let_def)
  next
    case 4
    then show thesis
      using assms by (intro that [of "0x4e" "to_le 4 (word_of_nat (length d) :: u32)"])
        (auto simp: push_data_def push_size_len_def push_len_def unat_word_of_nat_u32 Let_def)
  qed
qed

lemma fetch_plain:
  assumes "op > 0x4e"
  shows "fetch_loop hdr (pre @ op # post) (length pre) found out =
    fetch_loop hdr (pre @ op # post) (Suc (length pre)) found (out @ [op])"
  using assms by (subst fetch_loop.simps) (simp add: Let_def)

lemma fetch_push:
  assumes "length d < 2 ^ 32"
  shows "fetch_loop hdr (pre @ push_data [] d @ post) (length pre) found out =
    (if found = None \<and> tagged hdr (Data d)
     then fetch_loop hdr (pre @ push_data [] d @ post) (length (pre @ push_data [] d)) (Some (drop (length hdr) d))
            (out @ word_of_nat (length hdr) # hdr)
     else fetch_loop hdr (pre @ push_data [] d @ post) (length (pre @ push_data [] d)) found (out @ push_data [] d))"
proof -
  obtain opcode size_bytes where p: "push_data [] d = opcode # size_bytes @ d" "opcode \<le> 0x4e"
    "length size_bytes = push_size_len opcode" "push_len opcode size_bytes = length d"
    using push_data_parts [OF assms] .
  have t: "length d > length hdr \<and> take (length hdr) d = hdr \<longleftrightarrow> tagged hdr (Data d)"
    unfolding tagged_def
    by (auto simp: take_eq_Nil) (metis append_take_drop_id drop_eq_Nil leD order_refl)
  have "\<not> 0x4e < opcode" using p(2) by simp
  then show ?thesis
    unfolding p(1) t [symmetric] using p(3,4)
    by (subst fetch_loop.simps) (simp add: Let_def add.assoc)
qed

text \<open>What the scan should do, on instructions: the first tagged push is taken out and its payload kept.\<close>

fun clear_items :: "bytes \<Rightarrow> bytes option \<Rightarrow> commit_item list \<Rightarrow> bytes option \<times> bytes" where
  "clear_items hdr found [] = (found, [])"
| "clear_items hdr found (Plain op # items) = map_prod id (\<lambda>bs. op # bs) (clear_items hdr found items)"
| "clear_items hdr found (Data d # items) =
     (if found = None \<and> tagged hdr (Data d)
      then map_prod id (\<lambda>bs. word_of_nat (length hdr) # hdr @ bs) (clear_items hdr (Some (drop (length hdr) d)) items)
      else map_prod id (\<lambda>bs. push_data [] d @ bs) (clear_items hdr found items))"

lemma fetch_loop_items:
  assumes "list_all item_ok items"
  shows "fetch_loop hdr (pre @ concat (map item_bytes items)) (length pre) found out =
    map_prod id (\<lambda>bs. out @ bs) (clear_items hdr found items)"
  using assms
proof (induction items arbitrary: pre found out)
  case Nil
  then show ?case by (subst fetch_loop.simps) simp
next
  case (Cons item items)
  show ?case
  proof (cases item)
    case (Plain op)
    with Cons fetch_plain [of op hdr pre] Cons.IH [of "pre @ [op]"] show ?thesis
      by (simp add: map_prod_def split_def)
  next
    case (Data d)
    with Cons fetch_push [of d hdr pre] Cons.IH [of "pre @ push_data [] d"] show ?thesis
      by (simp add: map_prod_def split_def)
  qed
qed

lemma clear_items_untagged:
  assumes "found \<noteq> None \<or> (\<forall>i \<in> set items. \<not> tagged hdr i)"
  shows "clear_items hdr found items = (found, concat (map item_bytes items))"
  using assms by (induction hdr found items rule: clear_items.induct) auto

lemma clear_items_append:
  assumes "\<forall>i \<in> set items. \<not> tagged hdr i"
  shows "clear_items hdr None (items @ later) = map_prod id (\<lambda>bs. concat (map item_bytes items) @ bs) (clear_items hdr None later)"
  using assms
proof (induction items)
  case (Cons i items)
  then show ?case by (cases i) (simp_all add: map_prod_def split_def)
qed (simp add: map_prod_def split_def)

text \<open>
  Around a tagged section the script is kept byte for byte, and the section is reduced to the
  bare tag: the signed script does not depend on the solution.
\<close>

lemma fetch_section:
  assumes "list_all item_ok (before @ Data (hdr @ sol) # after)" "\<forall>i \<in> set before. \<not> tagged hdr i" "sol \<noteq> []"
  shows "fetch_and_clear_commitment_section hdr (concat (map item_bytes (before @ Data (hdr @ sol) # after))) =
    (Some sol, concat (map item_bytes before) @ word_of_nat (length hdr) # hdr @ concat (map item_bytes after))"
proof -
  have "tagged hdr (Data (hdr @ sol))" using assms(3) by (auto simp: tagged_def)
  then show ?thesis
    using fetch_loop_items [OF assms(1), of hdr "[]" None "[]"] clear_items_append [OF assms(2)]
      clear_items_untagged [of "Some sol" after hdr]
    by (simp add: fetch_and_clear_commitment_section_def map_prod_def split_def)
qed

end
