(* ===== verification/Storage.thy ===== *)
theory Storage
  imports BlockFile "HOL-Library.AList" "HOL-Library.List_Lexorder"
begin

text \<open>
  The storage engine: the tables of \<^verbatim>\<open>storage/api/tables.rs\<close>, the in-memory key-value backend
  of \<^verbatim>\<open>storage/backend/in_memory.rs\<close>, the write worker \<^verbatim>\<open>storage/block_manager.rs\<close> and the
  reads of \<^verbatim>\<open>storage/store.rs\<close>.  A hash map is an association list with distinct keys; its
  order is one order of iteration.  The backend's lock is never poisoned, so reads and writes
  of the backend do not fail.
\<close>

subsection \<open>Tables and keys\<close>

definition BLOCK_INDEX :: string where
  "BLOCK_INDEX = ''block_index''"

definition UTXOS :: string where
  "UTXOS = ''utxos''"

definition CHAIN_META :: string where
  "CHAIN_META = ''chain_meta''"

definition PREFIX_BLOCK :: u8 where
  "PREFIX_BLOCK = 0x62"

definition PREFIX_COIN :: u8 where
  "PREFIX_COIN = 0x43"

definition KEY_HEADERS_TIP :: u8 where
  "KEY_HEADERS_TIP = 0x68"

definition KEY_BEST_BLOCK :: u8 where
  "KEY_BEST_BLOCK = 0x42"

definition KEY_BLOCK_TIP :: u8 where
  "KEY_BLOCK_TIP = 0x44"

definition KEY_LAST_FILE :: u8 where
  "KEY_LAST_FILE = 0x6C"

definition PREFIX_HEIGHT :: u8 where
  "PREFIX_HEIGHT = 0x48"

definition PREFIX_HEADER_HEIGHT :: u8 where
  "PREFIX_HEADER_HEIGHT = 0x7A"

lemmas table_defs = BLOCK_INDEX_def UTXOS_def CHAIN_META_def
lemmas prefix_defs = PREFIX_BLOCK_def PREFIX_COIN_def KEY_HEADERS_TIP_def KEY_BEST_BLOCK_def KEY_BLOCK_TIP_def
  KEY_LAST_FILE_def PREFIX_HEIGHT_def PREFIX_HEADER_HEIGHT_def

text \<open>\<^verbatim>\<open>u32::to_be_bytes\<close> and the keys the handlers build.\<close>

definition to_be4 :: "u32 \<Rightarrow> bytes" where
  "to_be4 w = rev (to_le 4 w)"

definition block_key :: "hash \<Rightarrow> bytes" where
  "block_key h = PREFIX_BLOCK # h"

definition height_key :: "u8 \<Rightarrow> u32 \<Rightarrow> bytes" where
  "height_key p height = p # to_be4 height"

definition coin_key :: "out_point \<Rightarrow> bytes" where
  "coin_key op = PREFIX_COIN # op_txid op @ to_le 4 (op_vout op)"

subsection \<open>The in-memory backend\<close>

type_synonym table = "(bytes \<times> bytes) list"
type_synonym database = "string \<Rightarrow> table"

definition database_empty :: database where
  "database_empty = (\<lambda>_. [])"

definition db_get :: "database \<Rightarrow> string \<Rightarrow> bytes \<Rightarrow> bytes option" where
  "db_get db t key = map_of (db t) key"

definition db_put_batch :: "database \<Rightarrow> string \<Rightarrow> (bytes \<times> bytes) list \<Rightarrow> database" where
  "db_put_batch db t batch = db(t := fold (\<lambda>(key, v). AList.update key v) batch (db t))"

definition db_put :: "database \<Rightarrow> string \<Rightarrow> bytes \<Rightarrow> bytes \<Rightarrow> database" where
  "db_put db t key v = db_put_batch db t [(key, v)]"

definition db_delete :: "database \<Rightarrow> string \<Rightarrow> bytes \<Rightarrow> database" where
  "db_delete db t key = db(t := AList.delete key (db t))"

definition db_clear_table :: "database \<Rightarrow> string \<Rightarrow> database" where
  "db_clear_table db t = db(t := [])"

definition db_prefix_iterator :: "database \<Rightarrow> string \<Rightarrow> bytes \<Rightarrow> (bytes \<times> bytes) list" where
  "db_prefix_iterator db t pre = sort_key fst (filter (\<lambda>(key, _). take (length pre) key = pre) (db t))"

subsection \<open>The write worker\<close>

datatype coin_update = Add coin | Remove

datatype write_message =
    StoreHeader block_header u32 hash bool
  | StoreBlock block_header u32 hash bytes
  | StoreBlockIndex hash block_index
  | StoreBlockIndexes "(hash \<times> block_index) list" "hash option"
  | StoreUndo hash block_undo
  | UpdateUtxoSet "(out_point \<times> coin_update) list" "hash option" "(u32 \<times> hash) list"
  | UpdateActiveTip hash
  | UpdateHeadersTip hash
  | DeleteBlock hash
  | DeleteHeightMapping u32
  | UpdateHeaderIndex hash u32
  | Flush

record block_manager =
  bm_backend :: database
  bm_files :: block_file_manager
  bm_last_known_tip_height :: u32
  bm_undo_sizes :: "u32 \<rightharpoonup> nat"
  bm_pending_undo_indexes :: "(hash \<times> block_index) list"

definition block_manager_new :: "database \<Rightarrow> block_file_manager \<Rightarrow> block_manager" where
  "block_manager_new db files =
     \<lparr>bm_backend = db, bm_files = files, bm_last_known_tip_height = 0, bm_undo_sizes = Map.empty,
      bm_pending_undo_indexes = []\<rparr>"

text \<open>The start of \<^verbatim>\<open>run\<close>: the tip height of the disk, zero when anything is missing.\<close>

definition initial_tip_height :: "database \<Rightarrow> u32" where
  "initial_tip_height db =
     (case db_get db UTXOS [KEY_BLOCK_TIP] of
        None \<Rightarrow> 0
      | Some tip \<Rightarrow>
          let tip_hash = (if length tip = 32 then tip else replicate 32 0)
          in case db_get db BLOCK_INDEX (block_key tip_hash) of
               None \<Rightarrow> 0
             | Some idx_bytes \<Rightarrow>
                 (case decode_block_index (decoder_new idx_bytes) of Inr (idx, _) \<Rightarrow> bi_height idx | Inl _ \<Rightarrow> 0))"

text \<open>The two puts every stored index makes.\<close>

definition put_block_index :: "hash \<Rightarrow> block_index \<Rightarrow> database \<Rightarrow> database" where
  "put_block_index h index db =
     db_put (db_put db BLOCK_INDEX (block_key h) (serialize encode_block_index index))
       CHAIN_META (height_key PREFIX_HEADER_HEIGHT (bi_height index)) h"

definition handle_store_block_index :: "block_manager \<Rightarrow> hash \<Rightarrow> block_index \<Rightarrow> block_manager" where
  "handle_store_block_index m h index = m\<lparr>bm_backend := put_block_index h index (bm_backend m)\<rparr>"

definition handle_store_block_indexes ::
  "block_manager \<Rightarrow> (hash \<times> block_index) list \<Rightarrow> hash option \<Rightarrow> block_manager" where
  "handle_store_block_indexes m indexes best_tip =
     (let db = fold (\<lambda>(h, index). put_block_index h index) indexes (bm_backend m);
          db = (case best_tip of Some h \<Rightarrow> db_put db UTXOS [KEY_HEADERS_TIP] h | None \<Rightarrow> db)
      in m\<lparr>bm_backend := db\<rparr>)"

definition handle_update_headers_tip :: "block_manager \<Rightarrow> hash \<Rightarrow> block_manager" where
  "handle_update_headers_tip m h = m\<lparr>bm_backend := db_put (bm_backend m) UTXOS [KEY_HEADERS_TIP] h\<rparr>"

definition handle_store_header ::
  "digests \<Rightarrow> block_manager \<Rightarrow> block_header \<Rightarrow> u32 \<Rightarrow> hash \<Rightarrow> bool \<Rightarrow> block_manager" where
  "handle_store_header H m hdr height work is_best =
     (let h = block_hash H hdr;
          index = \<lparr>bi_header = hdr, bi_height = height, chain_work = work, file_pos = None, undo_pos = None\<rparr>;
          m = handle_store_block_index m h index
      in if is_best then handle_update_headers_tip m h else m)"

text \<open>The entries of a batch of blocks, after the blocks were written to the files.\<close>

definition block_entries ::
  "digests \<Rightarrow> (block_header \<times> u32 \<times> hash \<times> bytes) list \<Rightarrow> flat_file_pos list \<Rightarrow> (hash \<times> block_index) list" where
  "block_entries H blocks positions =
     map (\<lambda>((hdr, height, work, _), pos).
       (block_hash H hdr,
        \<lparr>bi_header = hdr, bi_height = height, chain_work = work, file_pos = Some pos, undo_pos = None\<rparr>))
       (zip blocks positions)"

text \<open>The highest new tip: the first entry of the greatest height that is not below the known tip.\<close>

definition better_tip :: "u32 \<Rightarrow> (hash \<times> block_index) \<Rightarrow> (u32 \<times> hash) option \<Rightarrow> (u32 \<times> hash) option" where
  "better_tip known entry tip =
     (case entry of (h, index) \<Rightarrow>
        if bi_height index \<ge> known \<and> (case tip of None \<Rightarrow> True | Some (height, _) \<Rightarrow> bi_height index > height)
        then Some (bi_height index, h) else tip)"

definition handle_store_blocks ::
  "digests \<Rightarrow> block_manager \<Rightarrow> (block_header \<times> u32 \<times> hash \<times> bytes) list \<Rightarrow>
   (flat_file_pos list \<times> block_manager) store_result" where
  "handle_store_blocks H m blocks =
     and_then (write_all (bm_files m) (map (\<lambda>(_, _, _, raw). raw) blocks)) (\<lambda>(positions, files).
     let entries = block_entries H blocks positions;
         db = fold (\<lambda>(h, index). put_block_index h index) entries (bm_backend m);
         tip = fold (better_tip (bm_last_known_tip_height m)) entries None;
         db = db_put db CHAIN_META [KEY_LAST_FILE] (to_le 4 (bfm_current_file files));
         m = m\<lparr>bm_files := files, bm_backend := db\<rparr>
     in Inr (positions,
          case tip of
            None \<Rightarrow> m
          | Some (height, h) \<Rightarrow>
              m\<lparr>bm_backend := db_put db UTXOS [KEY_BLOCK_TIP] h, bm_last_known_tip_height := height\<rparr>))"

definition put_coin :: "out_point \<times> coin_update \<Rightarrow> database \<Rightarrow> database" where
  "put_coin u db =
     (case u of
        (op, Add c) \<Rightarrow> db_put db UTXOS (coin_key op) (serialize encode_coin c)
      | (op, Remove) \<Rightarrow> db_delete db UTXOS (coin_key op))"

definition handle_update_utxo_set ::
  "block_manager \<Rightarrow> (out_point \<times> coin_update) list \<Rightarrow> hash option \<Rightarrow> (u32 \<times> hash) list \<Rightarrow> block_manager" where
  "handle_update_utxo_set m coins best_block connected_blocks =
     (let db = fold put_coin coins (bm_backend m);
          db = (case best_block of Some h \<Rightarrow> db_put db UTXOS [KEY_BEST_BLOCK] h | None \<Rightarrow> db);
          db = fold (\<lambda>(h, index) db. db_put db BLOCK_INDEX (block_key h) (serialize encode_block_index index))
                 (bm_pending_undo_indexes m) db;
          db = fold (\<lambda>(height, h) db. db_put db CHAIN_META (height_key PREFIX_HEIGHT height) h) connected_blocks db;
          known = fold (\<lambda>(height, _) known. if height \<ge> known then height else known) connected_blocks
                    (bm_last_known_tip_height m)
      in m\<lparr>bm_backend := db, bm_last_known_tip_height := known, bm_pending_undo_indexes := []\<rparr>)"

definition pending_or_stored_index :: "block_manager \<Rightarrow> hash \<Rightarrow> block_index store_result" where
  "pending_or_stored_index m h =
     (case map_of (bm_pending_undo_indexes m) h of
        Some index \<Rightarrow> Inr index
      | None \<Rightarrow>
          and_then (ok_or (StoreCustom ''block index missing'' h) (db_get (bm_backend m) BLOCK_INDEX (block_key h)))
            (\<lambda>index_bytes. map_err WireDecode (decode_exact decode_block_index index_bytes ''BlockIndex'')))"

definition handle_store_undo :: "block_manager \<Rightarrow> hash \<Rightarrow> block_undo \<Rightarrow> block_manager store_result" where
  "handle_store_undo m h undo_data =
     and_then (pending_or_stored_index m h) (\<lambda>index.
     and_then (ok_or (StoreCustom ''block data position missing'' h) (file_pos index)) (\<lambda>block_pos.
     and_then
       (case bm_undo_sizes m (fp_file block_pos) of
          Some used \<Rightarrow> Inr used
        | None \<Rightarrow> undo_used_size (bm_files m) (fp_file block_pos)) (\<lambda>current_size.
     let ((upos, new_size), files) =
           write_undo (bm_files m) (fp_file block_pos) (serialize encode_block_undo undo_data) current_size
     in Inr (m\<lparr>bm_files := files,
               bm_undo_sizes := (bm_undo_sizes m)(fp_file block_pos \<mapsto> new_size),
               bm_pending_undo_indexes :=
                 AList.update h (index\<lparr>undo_pos := Some upos\<rparr>) (bm_pending_undo_indexes m)\<rparr>))))"

definition handle_update_active_tip :: "block_manager \<Rightarrow> hash \<Rightarrow> block_manager" where
  "handle_update_active_tip m h = m\<lparr>bm_backend := db_put (bm_backend m) UTXOS [KEY_BEST_BLOCK] h\<rparr>"

definition handle_update_header_index :: "block_manager \<Rightarrow> hash \<Rightarrow> u32 \<Rightarrow> block_manager" where
  "handle_update_header_index m h height =
     m\<lparr>bm_backend := db_put (bm_backend m) CHAIN_META (height_key PREFIX_HEADER_HEIGHT height) h\<rparr>"

definition handle_delete_height_mapping :: "block_manager \<Rightarrow> u32 \<Rightarrow> block_manager" where
  "handle_delete_height_mapping m height =
     m\<lparr>bm_backend := db_delete (bm_backend m) CHAIN_META (height_key PREFIX_HEIGHT height)\<rparr>"

definition handle_delete_block :: "block_manager \<Rightarrow> hash \<Rightarrow> block_manager" where
  "handle_delete_block m h = m\<lparr>bm_backend := db_delete (bm_backend m) BLOCK_INDEX (block_key h)\<rparr>"

text \<open>
  The message loop.  A \<^verbatim>\<open>StoreBlock\<close> takes up to 63 further ones that are next in the queue into
  the same batch; the first other message goes to the backlog and is handled next, so the order
  of the queue is kept.  A failed batch answers every sender and changes nothing here.
\<close>

datatype reply = UnitReply "unit store_result" | PosReply "flat_file_pos store_result"

fun collect_batch ::
  "nat \<Rightarrow> write_message list \<Rightarrow> (block_header \<times> u32 \<times> hash \<times> bytes) list \<times> write_message list" where
  "collect_batch (Suc n) (StoreBlock hdr height work raw # msgs) =
     (let (blocks, msgs) = collect_batch n msgs in ((hdr, height, work, raw) # blocks, msgs))"
| "collect_batch _ msgs = ([], msgs)"

lemma length_collect_batch: "length (snd (collect_batch n msgs)) \<le> length msgs"
  by (induction n msgs rule: collect_batch.induct) (auto split: prod.splits)

lemma collect_batch_le: "(blocks, msgs') = collect_batch n msgs \<Longrightarrow> length msgs' \<le> length msgs"
  using length_collect_batch [of n msgs] by (metis snd_conv)

text \<open>The other messages; a \<open>StoreBlock\<close> never gets here.\<close>

definition handle_other :: "digests \<Rightarrow> block_manager \<Rightarrow> write_message \<Rightarrow> reply \<times> block_manager" where
  "handle_other H m msg =
     (case msg of
        StoreHeader hdr height work is_best \<Rightarrow> (UnitReply (Inr ()), handle_store_header H m hdr height work is_best)
      | StoreBlockIndex h index \<Rightarrow> (UnitReply (Inr ()), handle_store_block_index m h index)
      | StoreBlockIndexes indexes best_tip \<Rightarrow> (UnitReply (Inr ()), handle_store_block_indexes m indexes best_tip)
      | StoreUndo h undo_data \<Rightarrow>
          (case handle_store_undo m h undo_data of
             Inl e \<Rightarrow> (UnitReply (Inl e), m) | Inr m' \<Rightarrow> (UnitReply (Inr ()), m'))
      | UpdateUtxoSet coins best_block connected \<Rightarrow>
          (UnitReply (Inr ()), handle_update_utxo_set m coins best_block connected)
      | UpdateActiveTip h \<Rightarrow> (UnitReply (Inr ()), handle_update_active_tip m h)
      | UpdateHeadersTip h \<Rightarrow> (UnitReply (Inr ()), handle_update_headers_tip m h)
      | DeleteBlock h \<Rightarrow> (UnitReply (Inr ()), handle_delete_block m h)
      | DeleteHeightMapping height \<Rightarrow> (UnitReply (Inr ()), handle_delete_height_mapping m height)
      | UpdateHeaderIndex h height \<Rightarrow> (UnitReply (Inr ()), handle_update_header_index m h height)
      | Flush \<Rightarrow> (UnitReply (bfm_flush (bm_files m)), m)
      | StoreBlock hdr height work raw \<Rightarrow> (UnitReply (Inr ()), m))"

function run_messages :: "digests \<Rightarrow> block_manager \<Rightarrow> write_message list \<Rightarrow> reply list \<times> block_manager" where
  "run_messages H m [] = ([], m)"
| "run_messages H m (msg # msgs) =
     (case msg of
        StoreBlock hdr height work raw \<Rightarrow>
          let (blocks, msgs') = collect_batch 63 msgs;
              blocks = (hdr, height, work, raw) # blocks;
              (replies, m) =
                (case handle_store_blocks H m blocks of
                   Inl e \<Rightarrow> (map (\<lambda>_. PosReply (Inl e)) blocks, m)
                 | Inr (positions, m') \<Rightarrow> (map (\<lambda>pos. PosReply (Inr pos)) positions, m'));
              (more, m) = run_messages H m msgs'
          in (replies @ more, m)
      | _ \<Rightarrow>
          let (reply, m) = handle_other H m msg; (more, m) = run_messages H m msgs in (reply # more, m))"
  by pat_completeness auto
termination
  by (relation "measure (\<lambda>(H, m, msgs). length msgs)")
    (auto simp: less_Suc_eq_le dest: collect_batch_le)

definition block_manager_run :: "digests \<Rightarrow> block_manager \<Rightarrow> write_message list \<Rightarrow> reply list \<times> block_manager" where
  "block_manager_run H m msgs =
     run_messages H (m\<lparr>bm_last_known_tip_height := initial_tip_height (bm_backend m)\<rparr>) msgs"

declare run_messages.simps [simp del]

subsection \<open>Store reads\<close>

definition get_block_index :: "database \<Rightarrow> hash \<Rightarrow> block_index option store_result" where
  "get_block_index db h =
     (case db_get db BLOCK_INDEX (block_key h) of
        None \<Rightarrow> Inr None
      | Some bytes \<Rightarrow> and_then (map_err Decode (decode_exact decode_block_index bytes ''BlockIndex'')) (\<lambda>i. Inr (Some i)))"

text \<open>The four readers of a 32-byte hash share their code.\<close>

definition get_hash :: "database \<Rightarrow> string \<Rightarrow> bytes \<Rightarrow> hash option store_result" where
  "get_hash db t key =
     (case db_get db t key of
        None \<Rightarrow> Inr None
      | Some bytes \<Rightarrow> if length bytes < 32 then Inl SlicePanic else Inr (Some (take 32 bytes)))"

definition get_headers_tip :: "database \<Rightarrow> hash option store_result" where
  "get_headers_tip db = get_hash db UTXOS [KEY_HEADERS_TIP]"

definition get_best_block :: "database \<Rightarrow> hash option store_result" where
  "get_best_block db = get_hash db UTXOS [KEY_BEST_BLOCK]"

definition get_block_tip :: "database \<Rightarrow> hash option store_result" where
  "get_block_tip db = get_hash db UTXOS [KEY_BLOCK_TIP]"

definition get_block_hash :: "database \<Rightarrow> u32 \<Rightarrow> hash option store_result" where
  "get_block_hash db height = get_hash db CHAIN_META (height_key PREFIX_HEIGHT height)"

definition get_block_hash_by_header_height :: "database \<Rightarrow> u32 \<Rightarrow> hash option store_result" where
  "get_block_hash_by_header_height db height = get_hash db CHAIN_META (height_key PREFIX_HEADER_HEIGHT height)"

definition store_get_coin :: "database \<Rightarrow> out_point \<Rightarrow> coin option store_result" where
  "store_get_coin db op =
     (case db_get db UTXOS (coin_key op) of
        None \<Rightarrow> Inr None
      | Some bytes \<Rightarrow> and_then (map_err Decode (decode_exact decode_coin bytes ''Coin'')) (\<lambda>c. Inr (Some c)))"

definition get_block :: "database \<Rightarrow> block_file_manager \<Rightarrow> hash \<Rightarrow> bytes option store_result" where
  "get_block db files h =
     and_then (get_block_index db h) (\<lambda>index.
     case index of
       None \<Rightarrow> Inr None
     | Some index \<Rightarrow>
         (case file_pos index of
            None \<Rightarrow> Inr None
          | Some pos \<Rightarrow> and_then (read_block files pos) (\<lambda>bytes. Inr (Some bytes))))"

subsection \<open>The backend is a map per table\<close>

lemma db_get_put [simp]:
  "db_get (db_put db t key v) t' key' = (if t' = t \<and> key' = key then Some v else db_get db t' key')"
  by (simp add: db_get_def db_put_def db_put_batch_def update_conv')

lemma db_get_delete [simp]:
  "db_get (db_delete db t key) t' key' = (if t' = t \<and> key' = key then None else db_get db t' key')"
  by (simp add: db_get_def db_delete_def delete_conv')

lemma db_get_clear [simp]: "db_get (db_clear_table db t) t' key = (if t' = t then None else db_get db t' key)"
  by (simp add: db_get_def db_clear_table_def)

lemma db_get_put_batch:
  "db_get (db_put_batch db t batch) t' key =
    (if t' = t then (map_of (db t) ++ map_of (rev batch)) key else db_get db t' key)"
proof -
  have "map_of (fold (\<lambda>(k, v). AList.update k v) batch tb) = map_of tb ++ map_of (rev batch)" for tb
    by (induction batch arbitrary: tb) (auto simp: update_conv' map_add_def fun_eq_iff split: option.splits)
  then show ?thesis by (simp add: db_get_def db_put_batch_def)
qed

text \<open>Every backend operation keeps the keys of a table distinct.\<close>

definition db_ok :: "database \<Rightarrow> bool" where
  "db_ok db \<longleftrightarrow> (\<forall>t. distinct (map fst (db t)))"

lemma db_ok_ops:
  assumes "db_ok db"
  shows "db_ok (db_put db t key v)" "db_ok (db_delete db t key)" "db_ok (db_clear_table db t)"
  using assms
  by (simp_all add: db_ok_def db_put_def db_put_batch_def db_delete_def db_clear_table_def distinct_update distinct_delete)

lemma prefix_iterator_spec:
  assumes "db_ok db"
  shows "sorted (map fst (db_prefix_iterator db t pre))"
    "set (db_prefix_iterator db t pre) = {(k, v). db_get db t k = Some v \<and> take (length pre) k = pre}"
proof -
  show "sorted (map fst (db_prefix_iterator db t pre))" by (simp add: db_prefix_iterator_def)
  have "(k, v) \<in> set (db t) \<longleftrightarrow> map_of (db t) k = Some v" for k v
    using assms map_of_eq_Some_iff [of "db t" k v] by (simp add: db_ok_def)
  then show "set (db_prefix_iterator db t pre) = {(k, v). db_get db t k = Some v \<and> take (length pre) k = pre}"
    by (auto simp: db_prefix_iterator_def db_get_def)
qed

subsection \<open>Keys do not collide\<close>

lemma to_be4_inject [simp]: "to_be4 a = to_be4 b \<longleftrightarrow> a = b"
  by (simp add: to_be4_def)

lemma block_key_inject [simp]: "block_key a = block_key b \<longleftrightarrow> a = b"
  by (simp add: block_key_def)

lemma height_key_inject [simp]: "height_key p a = height_key q b \<longleftrightarrow> p = q \<and> a = b"
  by (simp add: height_key_def)

lemma coin_key_inject:
  assumes "wf_outpoint a" "wf_outpoint b"
  shows "coin_key a = coin_key b \<longleftrightarrow> a = b"
  using assms by (auto simp: coin_key_def wf_outpoint_def wf_hash_def)

lemma coin_key_not_meta [simp]: "coin_key op \<noteq> [k]" "[k] \<noteq> coin_key op"
  by (auto simp: coin_key_def dest: arg_cong [of _ _ length])

lemma height_key_not_meta [simp]: "height_key p a \<noteq> [k]" "[k] \<noteq> height_key p a"
  by (auto simp: height_key_def to_be4_def dest: arg_cong [of _ _ length])

lemma tables_distinct [simp]:
  "BLOCK_INDEX \<noteq> UTXOS" "UTXOS \<noteq> BLOCK_INDEX" "BLOCK_INDEX \<noteq> CHAIN_META" "CHAIN_META \<noteq> BLOCK_INDEX"
  "UTXOS \<noteq> CHAIN_META" "CHAIN_META \<noteq> UTXOS"
  by (simp_all add: table_defs)

lemma keys_distinct [simp]:
  "PREFIX_HEIGHT \<noteq> PREFIX_HEADER_HEIGHT" "PREFIX_HEADER_HEIGHT \<noteq> PREFIX_HEIGHT"
  "KEY_HEADERS_TIP \<noteq> KEY_BEST_BLOCK" "KEY_BEST_BLOCK \<noteq> KEY_HEADERS_TIP" "KEY_BLOCK_TIP \<noteq> KEY_BEST_BLOCK"
  "KEY_BEST_BLOCK \<noteq> KEY_BLOCK_TIP" "KEY_BLOCK_TIP \<noteq> KEY_HEADERS_TIP" "KEY_HEADERS_TIP \<noteq> KEY_BLOCK_TIP"
  by (simp_all add: prefix_defs)

subsection \<open>Stored blocks can be read\<close>

lemma put_block_index_get:
  "db_get (put_block_index h index db) BLOCK_INDEX (block_key h') =
    (if h' = h then Some (serialize encode_block_index index) else db_get db BLOCK_INDEX (block_key h'))"
  by (simp add: put_block_index_def)

lemma fold_put_block_index_other:
  "h \<notin> fst ` set entries \<Longrightarrow>
    db_get (fold (\<lambda>(h, index). put_block_index h index) entries db) BLOCK_INDEX (block_key h) =
      db_get db BLOCK_INDEX (block_key h)"
  by (induction entries arbitrary: db) (auto simp: put_block_index_get)

lemma fold_put_block_index:
  assumes "distinct (map fst entries)" "(h, index) \<in> set entries"
  shows "db_get (fold (\<lambda>(h, index). put_block_index h index) entries db) BLOCK_INDEX (block_key h) =
    Some (serialize encode_block_index index)"
  using assms
proof (induction entries arbitrary: db)
  case (Cons e entries)
  show ?case
  proof (cases "e = (h, index)")
    case True
    with Cons.prems(1) show ?thesis by (simp add: fold_put_block_index_other put_block_index_get)
  next
    case False
    with Cons show ?thesis by simp
  qed
qed simp

lemma get_block_index_stored:
  "wf_block_index index \<Longrightarrow> db_get db BLOCK_INDEX (block_key h) = Some (serialize encode_block_index index) \<Longrightarrow>
    get_block_index db h = Inr (Some index)"
  using block_index.decode_exact_serialize [of index "''BlockIndex''"] by (simp add: get_block_index_def)

lemma store_blocks_backend:
  assumes "write_all (bm_files m) (map (\<lambda>(_, _, _, raw). raw) blocks) = Inr (positions, files)"
  obtains m' where "handle_store_blocks H m blocks = Inr (positions, m')" "bm_files m' = files"
    "\<And>h. db_get (bm_backend m') BLOCK_INDEX (block_key h) =
      db_get (fold (\<lambda>(h, index). put_block_index h index) (block_entries H blocks positions) (bm_backend m))
        BLOCK_INDEX (block_key h)"
  using assms that by (auto simp: handle_store_blocks_def Let_def split: option.splits)

lemma map_fst_block_entries:
  "length blocks = length positions \<Longrightarrow>
    map fst (block_entries H blocks positions) = map (\<lambda>(hdr, _). block_hash H hdr) blocks"
  by (induction blocks positions rule: list_induct2) (auto simp: block_entries_def)

text \<open>
  A batch of blocks with different hashes: the worker stores every one, and reading a hash back
  gives its index record and the very bytes that were sent.
\<close>

lemma store_blocks_readable:
  assumes "bfm_ok (bm_files m)" "unat (bfm_current_file (bm_files m)) + length blocks < 2 ^ 32"
    and ok: "\<forall>(hdr, height, work, raw) \<in> set blocks. wf_header hdr \<and> wf_hash work \<and> 8 + length raw \<le> MAX_BLOCK_FILE_SIZE"
    and dist: "distinct (map (\<lambda>(hdr, _). block_hash H hdr) blocks)"
  shows "\<exists>positions m'. handle_store_blocks H m blocks = Inr (positions, m') \<and>
    (\<forall>(hdr, height, work, raw) \<in> set blocks.
      get_block (bm_backend m') (bm_files m') (block_hash H hdr) = Inr (Some raw))"
proof -
  let ?raws = "map (\<lambda>(_, _, _, raw). raw) blocks"
  have "\<forall>d \<in> set ?raws. 8 + length d \<le> MAX_BLOCK_FILE_SIZE" using ok by force
  then obtain positions files where w: "write_all (bm_files m) ?raws = Inr (positions, files)"
    "list_all2 (stored files) positions ?raws"
    using write_all_correct [of "bm_files m" ?raws] assms(1,2) by auto
  then have len: "length blocks = length positions" by (auto dest: list_all2_lengthD)
  obtain m' where m': "handle_store_blocks H m blocks = Inr (positions, m')" "bm_files m' = files"
    "\<And>h. db_get (bm_backend m') BLOCK_INDEX (block_key h) =
      db_get (fold (\<lambda>(h, index). put_block_index h index) (block_entries H blocks positions) (bm_backend m))
        BLOCK_INDEX (block_key h)"
    using store_blocks_backend [OF w(1)] by blast
  have "get_block (bm_backend m') (bm_files m') (block_hash H hdr) = Inr (Some raw)"
    if b: "(hdr, height, work, raw) \<in> set blocks" for hdr height work raw
  proof -
    obtain i where i: "i < length blocks" "blocks ! i = (hdr, height, work, raw)"
      using b by (auto simp: in_set_conv_nth)
    define index where "index = \<lparr>bi_header = hdr, bi_height = height, chain_work = work,
        file_pos = Some (positions ! i), undo_pos = None\<rparr>"
    have "(block_hash H hdr, index) \<in> set (block_entries H blocks positions)"
      using i len by (force simp: block_entries_def index_def set_zip)
    then have "db_get (bm_backend m') BLOCK_INDEX (block_key (block_hash H hdr)) =
        Some (serialize encode_block_index index)"
      using fold_put_block_index m'(3) dist map_fst_block_entries [OF len] by metis
    moreover have "wf_block_index index" using b ok by (auto simp: wf_block_index_def index_def)
    ultimately have "get_block_index (bm_backend m') (block_hash H hdr) = Inr (Some index)"
      by (rule get_block_index_stored [rotated])
    moreover have "stored files (positions ! i) raw"
      using list_all2_nthD2 [OF w(2), of i] i by simp
    ultimately show ?thesis using m'(2) stored_read by (simp add: get_block_def index_def)
  qed
  with m'(1) show ?thesis by blast
qed

end
