(* ===== verification/Coins.thy ===== *)
theory Coins
  imports Storage
begin

text \<open>
  The coin cache, \<^verbatim>\<open>consensus/coins.rs\<close>.  The trait \<^verbatim>\<open>CoinsView\<close> is a record of its two methods;
  a cache buffers changes over a base view.  What the cache promises is stated against the set of
  unspent outputs it stands for, \<open>utxo\<close>: the operations add, remove and look up entries of that
  map, and flushing to a store that satisfies the contract \<open>coin_store\<close> writes exactly it.
  The hit and miss counters are statistics and are left out.
\<close>

subsection \<open>Views\<close>

record coins_view =
  view_get_coin :: "out_point \<Rightarrow> coin option"
  view_get_best_block :: "hash option"

text \<open>\<^verbatim>\<open>StoreCoinsView\<close>: errors of the store read as absence.\<close>

definition ok_flatten :: "'e + 'a option \<Rightarrow> 'a option" where
  "ok_flatten r = (case r of Inr x \<Rightarrow> x | Inl _ \<Rightarrow> None)"

definition store_coins_view :: "database \<Rightarrow> coins_view" where
  "store_coins_view db =
     \<lparr>view_get_coin = (\<lambda>op. ok_flatten (store_get_coin db op)),
      view_get_best_block = ok_flatten (get_best_block db)\<rparr>"

subsection \<open>The cache\<close>

definition ESTIMATED_CACHE_ENTRY_BYTES :: nat where
  "ESTIMATED_CACHE_ENTRY_BYTES = 256"

record coin_cache_entry =
  ce_coin :: "coin option"
  is_dirty :: bool
  is_fresh :: bool

record coins_view_cache =
  cvc_base :: coins_view
  cvc_cache :: "(out_point \<times> coin_cache_entry) list"
  cvc_best_block :: "hash option"
  cvc_connected_blocks :: "(u32 \<times> hash) list"
  cvc_max_entries :: nat

definition cache_new :: "coins_view \<Rightarrow> nat \<Rightarrow> coins_view_cache" where
  "cache_new base budget_bytes =
     \<lparr>cvc_base = base, cvc_cache = [], cvc_best_block = view_get_best_block base, cvc_connected_blocks = [],
      cvc_max_entries = max (budget_bytes div ESTIMATED_CACHE_ENTRY_BYTES) 1\<rparr>"

definition set_best_block :: "coins_view_cache \<Rightarrow> hash \<Rightarrow> u32 \<Rightarrow> coins_view_cache" where
  "set_best_block c h height =
     c\<lparr>cvc_best_block := Some h, cvc_connected_blocks := cvc_connected_blocks c @ [(height, h)]\<rparr>"

definition cache_insert :: "out_point \<Rightarrow> coin_cache_entry \<Rightarrow> coins_view_cache \<Rightarrow> coins_view_cache" where
  "cache_insert op e c = c\<lparr>cvc_cache := AList.update op e (cvc_cache c)\<rparr>"

definition cache_remove :: "out_point \<Rightarrow> coins_view_cache \<Rightarrow> coins_view_cache" where
  "cache_remove op c = c\<lparr>cvc_cache := AList.delete op (cvc_cache c)\<rparr>"

text \<open>Both branches on \<^verbatim>\<open>possible_overwrite\<close> are empty: a new entry is always fresh.\<close>

definition add_coin :: "coins_view_cache \<Rightarrow> out_point \<Rightarrow> coin \<Rightarrow> bool \<Rightarrow> coins_view_cache" where
  "add_coin c op coin possible_overwrite =
     (let e = \<lparr>ce_coin = Some coin, is_dirty = True, is_fresh = True\<rparr>;
          e = (case map_of (cvc_cache c) op of Some existing \<Rightarrow> e\<lparr>is_fresh := is_fresh existing\<rparr> | None \<Rightarrow> e)
      in cache_insert op e c)"

definition spent_entry :: coin_cache_entry where
  "spent_entry = \<lparr>ce_coin = None, is_dirty = True, is_fresh = False\<rparr>"

definition spend_coin :: "coins_view_cache \<Rightarrow> out_point \<Rightarrow> coin option \<times> coins_view_cache" where
  "spend_coin c op =
     (case map_of (cvc_cache c) op of
        Some e \<Rightarrow>
          (case ce_coin e of
             None \<Rightarrow> (None, c)
           | Some coin \<Rightarrow>
               (Some coin, if is_fresh e then cache_remove op c else cache_insert op spent_entry c))
      | None \<Rightarrow>
          (case view_get_coin (cvc_base c) op of
             Some coin \<Rightarrow> (Some coin, cache_insert op spent_entry c)
           | None \<Rightarrow> (None, c)))"

definition spend_coin_known :: "coins_view_cache \<Rightarrow> out_point \<Rightarrow> coins_view_cache" where
  "spend_coin_known c op =
     (if map_of (cvc_cache c) op \<noteq> None then snd (spend_coin c op) else cache_insert op spent_entry c)"

definition entry_update :: "out_point \<times> coin_cache_entry \<Rightarrow> (out_point \<times> coin_update) option" where
  "entry_update oe =
     (case oe of (op, e) \<Rightarrow>
        if is_dirty e then
          (case ce_coin e of
             Some coin \<Rightarrow> Some (op, Add coin)
           | None \<Rightarrow> if \<not> is_fresh e then Some (op, Remove) else None)
        else None)"

definition to_updates :: "coins_view_cache \<Rightarrow> (out_point \<times> coin_update) list" where
  "to_updates c = List.map_filter entry_update (cvc_cache c)"

text \<open>\<^verbatim>\<open>retain\<close> with the counter of entries still to drop.\<close>

fun trim_entries :: "nat \<Rightarrow> (out_point \<times> coin_cache_entry) list \<Rightarrow> (out_point \<times> coin_cache_entry) list" where
  "trim_entries remaining_entries [] = []"
| "trim_entries remaining_entries ((op, e) # es) =
     (if remaining_entries > 0 \<and> \<not> is_dirty e then trim_entries (remaining_entries - 1) es
      else (op, e) # trim_entries remaining_entries es)"

definition trim_to_budget :: "coins_view_cache \<Rightarrow> coins_view_cache" where
  "trim_to_budget c =
     c\<lparr>cvc_cache := trim_entries (length (cvc_cache c) - cvc_max_entries c) (cvc_cache c)\<rparr>"

definition clean_entry :: "out_point \<times> coin_cache_entry \<Rightarrow> (out_point \<times> coin_cache_entry) option" where
  "clean_entry oe =
     (case oe of (op, e) \<Rightarrow>
        if is_dirty e then
          (if ce_coin e = None then None else Some (op, e\<lparr>is_dirty := False, is_fresh := False\<rparr>))
        else Some (op, e))"

definition clear_history :: "coins_view_cache \<Rightarrow> coins_view_cache" where
  "clear_history c =
     trim_to_budget (c\<lparr>cvc_connected_blocks := [], cvc_cache := List.map_filter clean_entry (cvc_cache c)\<rparr>)"

definition cache_len :: "coins_view_cache \<Rightarrow> nat" where
  "cache_len c = length (cvc_cache c)"

definition cache_get_coin :: "coins_view_cache \<Rightarrow> out_point \<Rightarrow> coin option" where
  "cache_get_coin c op =
     (case map_of (cvc_cache c) op of Some e \<Rightarrow> ce_coin e | None \<Rightarrow> view_get_coin (cvc_base c) op)"

definition cache_get_best_block :: "coins_view_cache \<Rightarrow> hash option" where
  "cache_get_best_block c =
     (case cvc_best_block c of Some h \<Rightarrow> Some h | None \<Rightarrow> view_get_best_block (cvc_base c))"

text \<open>
  \<^verbatim>\<open>StoreCoinsView::flush\<close>: the updates go to the store, whose view the cache then has as its base.
\<close>

definition flush_cache :: "block_manager \<Rightarrow> coins_view_cache \<Rightarrow> block_manager \<times> coins_view_cache" where
  "flush_cache m c =
     (let m = handle_update_utxo_set m (to_updates c) (cache_get_best_block c) (cvc_connected_blocks c)
      in (m, clear_history (c\<lparr>cvc_base := store_coins_view (bm_backend m)\<rparr>)))"

subsection \<open>What a cache stands for\<close>

type_synonym utxo_set = "out_point \<rightharpoonup> coin"

text \<open>
  The invariant of a cache: keys are distinct; a fresh entry is unknown to the base, unspent and
  dirty; an entry that is not dirty repeats the base.
\<close>

definition entry_ok :: "coins_view \<Rightarrow> out_point \<times> coin_cache_entry \<Rightarrow> bool" where
  "entry_ok base oe \<longleftrightarrow> (case oe of (op, e) \<Rightarrow>
     (is_fresh e \<longrightarrow> is_dirty e \<and> ce_coin e \<noteq> None \<and> view_get_coin base op = None) \<and>
     (\<not> is_dirty e \<longrightarrow> ce_coin e \<noteq> None \<and> ce_coin e = view_get_coin base op))"

definition cache_ok :: "coins_view_cache \<Rightarrow> bool" where
  "cache_ok c \<longleftrightarrow> distinct (map fst (cvc_cache c)) \<and> list_all (entry_ok (cvc_base c)) (cvc_cache c)"

abbreviation utxo :: "coins_view_cache \<Rightarrow> utxo_set" where
  "utxo c \<equiv> cache_get_coin c"

lemma cache_ok_entry: "cache_ok c \<Longrightarrow> map_of (cvc_cache c) op = Some e \<Longrightarrow> entry_ok (cvc_base c) (op, e)"
  by (auto simp: cache_ok_def list_all_iff dest: map_of_SomeD)

lemma set_delete: "x \<in> set (AList.delete k al) \<Longrightarrow> x \<in> set al"
  by (auto simp: AList.delete_eq)

lemma set_update: "x \<in> set (AList.update k v al) \<Longrightarrow> x = (k, v) \<or> x \<in> set al"
  by (induction al) (auto split: if_splits)

lemma cache_insert_ok:
  "cache_ok c \<Longrightarrow> entry_ok (cvc_base c) (op, e) \<Longrightarrow> cache_ok (cache_insert op e c)"
  by (auto simp: cache_ok_def cache_insert_def list_all_iff distinct_update dest!: set_update)

lemma cache_remove_ok: "cache_ok c \<Longrightarrow> cache_ok (cache_remove op c)"
  by (auto simp: cache_ok_def cache_remove_def list_all_iff distinct_delete dest!: set_delete)

lemma utxo_cache_insert: "utxo (cache_insert op e c) = (utxo c)(op := ce_coin e)"
  by (auto simp: cache_get_coin_def cache_insert_def update_conv' fun_eq_iff split: option.splits)

lemma utxo_cache_remove: "utxo (cache_remove op c) = (utxo c)(op := view_get_coin (cvc_base c) op)"
  by (auto simp: cache_get_coin_def cache_remove_def delete_conv' fun_eq_iff split: option.splits)

lemma cache_new_ok: "cache_ok (cache_new base budget)" "utxo (cache_new base budget) = view_get_coin base"
  by (simp_all add: cache_ok_def cache_new_def cache_get_coin_def fun_eq_iff)

text \<open>Adding a coin is sound when the base does not hold the outpoint, or the cache shadows it.\<close>

lemma add_coin_refines:
  "utxo (add_coin c op coin po) = (utxo c)(op \<mapsto> coin)"
  by (auto simp: add_coin_def utxo_cache_insert Let_def split: option.splits)

lemma add_coin_ok:
  assumes "cache_ok c" "view_get_coin (cvc_base c) op = None \<or> map_of (cvc_cache c) op \<noteq> None"
  shows "cache_ok (add_coin c op coin po)"
  using assms cache_ok_entry [OF assms(1), of op]
  by (auto simp: add_coin_def Let_def entry_ok_def intro!: cache_insert_ok split: option.splits)

text \<open>
  The condition is needed: an outpoint the base already holds, added and then spent, is unspent
  again, because the new entry was fresh and its removal uncovers the base.
\<close>

lemma add_coin_overwrite_resurrects:
  assumes "view_get_coin (cvc_base c) op = Some old" "map_of (cvc_cache c) op = None"
  shows "utxo (snd (spend_coin (add_coin c op coin True) op)) op = Some old"
  using assms
  by (simp add: add_coin_def spend_coin_def cache_insert_def cache_remove_def cache_get_coin_def update_conv'
      delete_conv' Let_def)

lemma spent_entry_ok [simp]: "entry_ok base (op, spent_entry)"
  by (simp add: entry_ok_def spent_entry_def)

lemma spend_coin_refines:
  assumes "cache_ok c"
  shows "fst (spend_coin c op) = utxo c op" "utxo (snd (spend_coin c op)) = (utxo c)(op := None)"
    "cache_ok (snd (spend_coin c op))"
proof -
  show "fst (spend_coin c op) = utxo c op"
    by (auto simp: spend_coin_def cache_get_coin_def split: option.splits)
  show "utxo (snd (spend_coin c op)) = (utxo c)(op := None)"
  proof (cases "map_of (cvc_cache c) op")
    case None
    then show ?thesis
      by (cases "view_get_coin (cvc_base c) op")
        (auto simp: spend_coin_def utxo_cache_insert spent_entry_def cache_get_coin_def)
  next
    case (Some e)
    with cache_ok_entry [OF assms Some] show ?thesis
      by (cases "ce_coin e")
        (auto simp: spend_coin_def utxo_cache_insert utxo_cache_remove spent_entry_def entry_ok_def cache_get_coin_def)
  qed
  show "cache_ok (snd (spend_coin c op))"
    using assms by (auto simp: spend_coin_def intro: cache_insert_ok cache_remove_ok split: option.splits)
qed

lemma ce_coin_spent_entry [simp]: "ce_coin spent_entry = None"
  by (simp add: spent_entry_def)

lemma spend_coin_known_refines:
  assumes "cache_ok c"
  shows "utxo (spend_coin_known c op) = (utxo c)(op := None)" "cache_ok (spend_coin_known c op)"
  using spend_coin_refines [OF assms] assms
  by (auto simp: spend_coin_known_def utxo_cache_insert intro: cache_insert_ok)

subsection \<open>Flushing\<close>

definition keeps_keys :: "('k \<times> 'v \<Rightarrow> ('k \<times> 'w) option) \<Rightarrow> bool" where
  "keeps_keys f \<longleftrightarrow> (\<forall>k v k' v'. f (k, v) = Some (k', v') \<longrightarrow> k' = k)"

lemma map_of_map_filter:
  assumes "keeps_keys f" "distinct (map fst al)"
  shows "map_of (List.map_filter f al) k = Option.bind (map_of al k) (\<lambda>v. map_option snd (f (k, v)))"
    "distinct (map fst (List.map_filter f al))"
proof -
  note k = assms(1) [unfolded keeps_keys_def, rule_format]
  have "map_of (List.map_filter f al) k = Option.bind (map_of al k) (\<lambda>v. map_option snd (f (k, v))) \<and>
      distinct (map fst (List.map_filter f al))"
    using assms(2)
  proof (induction al)
    case (Cons kv al)
    obtain k0 v0 where kv: "kv = (k0, v0)" by (cases kv)
    have notin: "k0 \<notin> fst ` set (List.map_filter f al)"
      using Cons.prems kv k by (force simp: map_filter_def)
    have "map_of al k0 = None" using Cons.prems kv by (simp add: map_of_eq_None_iff)
    with Cons notin kv k [of k0 v0] show ?case
      by (cases "f (k0, v0)") (auto simp: map_filter_simps)
  qed (simp add: map_filter_simps)
  then show "map_of (List.map_filter f al) k = Option.bind (map_of al k) (\<lambda>v. map_option snd (f (k, v)))"
    "distinct (map fst (List.map_filter f al))" by auto
qed

lemma entry_update_key: "keeps_keys entry_update"
  by (auto simp: keeps_keys_def entry_update_def split: if_splits option.splits)

lemma clean_entry_key: "keeps_keys clean_entry"
  by (auto simp: keeps_keys_def clean_entry_def split: if_splits)

text \<open>The value an outpoint has after an optional update.\<close>

fun apply_update :: "coin_update option \<Rightarrow> coin option \<Rightarrow> coin option" where
  "apply_update None old = old"
| "apply_update (Some (Add c)) old = Some c"
| "apply_update (Some Remove) old = None"

text \<open>The updates, applied to the base, give what the cache stands for.\<close>

lemma to_updates_sound:
  assumes "cache_ok c"
  shows "apply_update (map_of (to_updates c) op) (view_get_coin (cvc_base c) op) = utxo c op"
    "distinct (map fst (to_updates c))"
proof -
  have d: "distinct (map fst (cvc_cache c))" using assms by (simp add: cache_ok_def)
  note up = map_of_map_filter [where f = entry_update, OF entry_update_key d]
  show "distinct (map fst (to_updates c))" unfolding to_updates_def by (rule up)
  show "apply_update (map_of (to_updates c) op) (view_get_coin (cvc_base c) op) = utxo c op"
  proof (cases "map_of (cvc_cache c) op")
    case (Some e)
    with cache_ok_entry [OF assms Some] show ?thesis
      by (cases "ce_coin e") (auto simp: to_updates_def up(1) cache_get_coin_def entry_update_def entry_ok_def)
  qed (simp add: to_updates_def up(1) cache_get_coin_def)
qed

lemma trim_entries_subset: "set (trim_entries n al) \<subseteq> set al"
  by (induction n al rule: trim_entries.induct) auto

lemma trim_entries_distinct: "distinct (map fst al) \<Longrightarrow> distinct (map fst (trim_entries n al))"
proof (induction n al rule: trim_entries.induct)
  case (2 n op e es)
  then show ?case using trim_entries_subset [of n es] by force
qed simp

text \<open>Trimming drops clean entries only, which the base repeats.\<close>

lemma trim_entries_lookup:
  assumes "distinct (map fst al)" "list_all (entry_ok base) al"
  shows "(case map_of (trim_entries n al) op of Some e \<Rightarrow> ce_coin e | None \<Rightarrow> view_get_coin base op) =
    (case map_of al op of Some e \<Rightarrow> ce_coin e | None \<Rightarrow> view_get_coin base op)"
  using assms
proof (induction n al rule: trim_entries.induct)
  case (2 n op' e es)
  have "map_of (trim_entries (n - 1) es) op' = None"
    using "2.prems"(1) trim_entries_subset [of "n - 1" es] by (force simp: map_of_eq_None_iff)
  with 2 show ?case by (auto simp: entry_ok_def split: if_splits)
qed simp

lemma trim_to_budget_refines:
  assumes "cache_ok c"
  shows "cache_ok (trim_to_budget c)" "utxo (trim_to_budget c) op = utxo c op"
proof -
  let ?n = "length (cvc_cache c) - cvc_max_entries c"
  show "cache_ok (trim_to_budget c)"
    using assms trim_entries_subset [of ?n "cvc_cache c"]
    by (auto simp: cache_ok_def trim_to_budget_def list_all_iff trim_entries_distinct)
  show "utxo (trim_to_budget c) op = utxo c op"
    using trim_entries_lookup [of "cvc_cache c" "cvc_base c" op ?n] assms
    by (simp add: cache_ok_def trim_to_budget_def cache_get_coin_def cong: option.case_cong)
qed

text \<open>How many entries remain: the dirty ones always, clean ones as long as the budget lasts.\<close>

lemma length_trim_entries:
  "length (trim_entries n al) = length al - min n (length (filter (\<lambda>(_, e). \<not> is_dirty e) al))"
proof (induction n al rule: trim_entries.induct)
  case (2 n op e es)
  have "min n (length (filter (\<lambda>(_, e). \<not> is_dirty e) es)) \<le> length es"
    by (rule order_trans [OF min.cobounded2 length_filter_le])
  with 2 show ?case by (cases n) (auto simp: Suc_diff_le)
qed simp

text \<open>Clearing the history over a base that already holds the cache's contents.\<close>

lemma clear_history_refines:
  assumes "distinct (map fst (cvc_cache c))"
    and base: "\<And>op e. map_of (cvc_cache c) op = Some e \<Longrightarrow> view_get_coin (cvc_base c) op = ce_coin e"
    and clean: "\<And>op e. map_of (cvc_cache c) op = Some e \<Longrightarrow> \<not> is_dirty e \<Longrightarrow> ce_coin e \<noteq> None \<and> \<not> is_fresh e"
  shows "cache_ok (clear_history c)" "utxo (clear_history c) op = utxo c op"
proof -
  let ?al = "List.map_filter clean_entry (cvc_cache c)"
  let ?c = "c\<lparr>cvc_connected_blocks := [], cvc_cache := ?al\<rparr>"
  note cl = map_of_map_filter [where f = clean_entry, OF clean_entry_key assms(1)]
  have "entry_ok (cvc_base c) (op, e')" if "map_of ?al op = Some e'" for op e'
    using that base [of op] clean [of op]
    by (auto simp: cl clean_entry_def entry_ok_def bind_eq_Some_conv split: if_splits
        dest: arg_cong [of _ _ is_fresh])
  then have ok: "cache_ok ?c"
    using cl(2) by (auto simp: cache_ok_def list_all_iff)
  show "cache_ok (clear_history c)"
    using trim_to_budget_refines(1) [OF ok] by (simp add: clear_history_def)
  have "utxo ?c op = utxo c op"
    using base [of op] by (cases "map_of (cvc_cache c) op") (auto simp: cache_get_coin_def cl clean_entry_def)
  then show "utxo (clear_history c) op = utxo c op"
    using trim_to_budget_refines(2) [OF ok] by (simp add: clear_history_def)
qed

subsection \<open>The contract of a coin store\<close>

fun wf_update :: "out_point \<times> coin_update \<Rightarrow> bool" where
  "wf_update (op, Add c) \<longleftrightarrow> wf_outpoint op \<and> wf_coin c"
| "wf_update (op, Remove) \<longleftrightarrow> wf_outpoint op"

text \<open>Outpoints and coins of a cache have the sizes their Rust types guarantee.\<close>

definition cache_wf :: "coins_view_cache \<Rightarrow> bool" where
  "cache_wf c \<longleftrightarrow> list_all (\<lambda>(op, e). wf_outpoint op \<and> (\<forall>coin. ce_coin e = Some coin \<longrightarrow> wf_coin coin)) (cvc_cache c)"

lemma to_updates_wf: "cache_wf c \<Longrightarrow> list_all wf_update (to_updates c)"
  by (fastforce simp: cache_wf_def list_all_iff to_updates_def map_filter_def entry_update_def
      split: if_splits option.splits)

text \<open>
  What the cache relies on: an update of the store changes exactly the outpoints it names, and
  records the best block.
\<close>

locale coin_store =
  fixes view :: "'s \<Rightarrow> coins_view"
    and update_utxos :: "'s \<Rightarrow> (out_point \<times> coin_update) list \<Rightarrow> hash option \<Rightarrow> (u32 \<times> hash) list \<Rightarrow> 's"
  assumes coin_after_update:
      "distinct (map fst ups) \<Longrightarrow> list_all wf_update ups \<Longrightarrow> wf_outpoint op \<Longrightarrow>
        view_get_coin (view (update_utxos s ups best blocks)) op =
          apply_update (map_of ups op) (view_get_coin (view s) op)"
    and best_after_update:
      "wf_hash h \<Longrightarrow> view_get_best_block (view (update_utxos s ups (Some h) blocks)) = Some h"
begin

lemma flush_writes_utxo:
  assumes "cache_ok c" "cache_wf c" "cvc_base c = view s" "wf_outpoint op"
  shows "view_get_coin (view (update_utxos s (to_updates c) best blocks)) op = utxo c op"
  using coin_after_update [OF to_updates_sound(2) [OF assms(1)] to_updates_wf [OF assms(2)] assms(4)]
    to_updates_sound(1) [OF assms(1)] assms(3) by simp

text \<open>Over the updated store the cleaned cache is consistent and stands for the same set.\<close>

lemma flush_keeps_utxo:
  fixes s best blocks
  assumes "cache_ok c" "cache_wf c" "cvc_base c = view s"
  defines "c' \<equiv> clear_history (c\<lparr>cvc_base := view (update_utxos s (to_updates c) best blocks)\<rparr>)"
  shows "cache_ok c'" "wf_outpoint op \<Longrightarrow> utxo c' op = utxo c op"
proof -
  let ?v = "view (update_utxos s (to_updates c) best blocks)"
  let ?c = "c\<lparr>cvc_base := ?v\<rparr>"
  have wfk: "wf_outpoint op" if "map_of (cvc_cache c) op = Some e" for op e
    using assms(2) map_of_SomeD [OF that] by (auto simp: cache_wf_def list_all_iff)
  have base: "view_get_coin ?v op = ce_coin e" if "map_of (cvc_cache c) op = Some e" for op e
    using flush_writes_utxo [OF assms(1-3) wfk [OF that]] that by (simp add: cache_get_coin_def)
  have clean: "ce_coin e \<noteq> None \<and> \<not> is_fresh e" if "map_of (cvc_cache c) op = Some e" "\<not> is_dirty e" for op e
    using cache_ok_entry [OF assms(1) that(1)] that(2) unfolding entry_ok_def prod.case by blast
  have dist: "distinct (map fst (cvc_cache ?c))" using assms(1) by (simp add: cache_ok_def)
  show "cache_ok c'"
    unfolding c'_def using base clean by (intro clear_history_refines(1) [OF dist]) auto
  show "utxo c' op = utxo c op" if "wf_outpoint op"
  proof -
    have "utxo c' op = utxo ?c op"
      unfolding c'_def using base clean by (intro clear_history_refines(2) [OF dist]) auto
    also have "\<dots> = utxo c op"
      using base flush_writes_utxo [OF assms(1-3) that] by (auto simp: cache_get_coin_def split: option.splits)
    finally show ?thesis .
  qed
qed

end

subsection \<open>The store keeps the contract\<close>

lemma fold_put_other_table [simp]:
  "t \<noteq> t' \<Longrightarrow> db_get (fold (\<lambda>(a, b) db. db_put db t' (f a b) (g a b)) xs db) t key = db_get db t key"
  by (induction xs arbitrary: db) auto

lemma put_coin_get:
  assumes "wf_update (op', u)" "wf_outpoint op"
  shows "ok_flatten (store_get_coin (put_coin (op', u) db) op) =
    (if op = op' then apply_update (Some u) None else ok_flatten (store_get_coin db op))"
proof (cases u)
  case (Add c)
  with assms coin.decode_exact_serialize [of c "''Coin''"] show ?thesis
    by (auto simp: put_coin_def store_get_coin_def ok_flatten_def coin_key_inject)
next
  case Remove
  with assms show ?thesis
    by (auto simp: put_coin_def store_get_coin_def ok_flatten_def coin_key_inject)
qed

lemma fold_put_coin_get:
  assumes "distinct (map fst ups)" "list_all wf_update ups" "wf_outpoint op"
  shows "ok_flatten (store_get_coin (fold put_coin ups db) op) =
    apply_update (map_of ups op) (ok_flatten (store_get_coin db op))"
  using assms
proof (induction ups arbitrary: db)
  case (Cons up ups)
  obtain op' u where up: "up = (op', u)" by (cases up)
  have "map_of ups op' = None" using Cons.prems(1) up by (simp add: map_of_eq_None_iff)
  with Cons up put_coin_get [of op' u op db] show ?case by (cases u) auto
qed simp

lemma store_get_coin_cong:
  "db_get db UTXOS (coin_key op) = db_get db' UTXOS (coin_key op) \<Longrightarrow> store_get_coin db op = store_get_coin db' op"
  by (simp add: store_get_coin_def)

lemma update_utxo_set_coins:
  "db_get (bm_backend (handle_update_utxo_set m ups best blocks)) UTXOS (coin_key op) =
    db_get (fold put_coin ups (bm_backend m)) UTXOS (coin_key op)"
  by (auto simp: handle_update_utxo_set_def Let_def split: option.splits)

lemma update_utxo_set_best:
  "db_get (bm_backend (handle_update_utxo_set m ups (Some h) blocks)) UTXOS [KEY_BEST_BLOCK] = Some h"
  by (auto simp: handle_update_utxo_set_def Let_def)

interpretation coins: coin_store "\<lambda>m. store_coins_view (bm_backend m)" handle_update_utxo_set
proof
  fix ups :: "(out_point \<times> coin_update) list" and op m best blocks
  assume a: "distinct (map fst ups)" "list_all wf_update ups" "wf_outpoint op"
  show "view_get_coin (store_coins_view (bm_backend (handle_update_utxo_set m ups best blocks))) op =
      apply_update (map_of ups op) (view_get_coin (store_coins_view (bm_backend m)) op)"
    using fold_put_coin_get [OF a] store_get_coin_cong [OF update_utxo_set_coins]
    by (simp add: store_coins_view_def)
next
  fix h m and ups :: "(out_point \<times> coin_update) list" and blocks
  assume "wf_hash h"
  then show "view_get_best_block (store_coins_view (bm_backend (handle_update_utxo_set m ups (Some h) blocks))) = Some h"
    by (simp add: store_coins_view_def get_best_block_def get_hash_def update_utxo_set_best ok_flatten_def wf_hash_def)
qed

lemma flush_cache_correct:
  assumes "cache_ok c" "cache_wf c" "cvc_base c = store_coins_view (bm_backend m)" "flush_cache m c = (m', c')"
  shows "cache_ok c'" "cvc_base c' = store_coins_view (bm_backend m')"
    "wf_outpoint op \<Longrightarrow> utxo c' op = utxo c op"
    "wf_outpoint op \<Longrightarrow> view_get_coin (store_coins_view (bm_backend m')) op = utxo c op"
  using assms coins.flush_keeps_utxo [OF assms(1-3)] coins.flush_writes_utxo [OF assms(1-3)]
  by (auto simp: flush_cache_def Let_def clear_history_def trim_to_budget_def)

end
