(* ===== verification/Validation.thy ===== *)
theory Validation
  imports Signet Coins
begin

text \<open>
  Consensus validation: the script engine selection of \<^verbatim>\<open>consensus/engine.rs\<close> and the rules of
  \<^verbatim>\<open>consensus/validation.rs\<close>.  A check returns the error of its first failing rule.
  \<open>connect_block\<close> also returns the coin cache, because it changes it before its last checks.
  Script checks run in parallel tasks whose results are collected at the end; the model collects
  them in block order, which decides only which of several script errors is reported.
\<close>

subsection \<open>Errors and constants\<close>

text \<open>
  \<open>DivisionPanic\<close> stands for the panic of the difficulty computation on degenerate parameters.
\<close>

datatype (plugins only: code size) validation_error =
    NoInputs
  | NoOutputs
  | TooLarge
  | AmountOutOfRange
  | TotalAmountOutOfRange
  | InputMissingOrSpent out_point
  | NegativeFee
  | ScriptFailure
  | ScriptError nat script_error
  | ReferenceEngineUnavailable
  | NoTransactions
  | InvalidCoinbase
  | InvalidMerkleRoot hash hash
  | InvalidProofOfWork
  | WrongDifficulty u32 u32 u32
  | SignetSolution signet_error
  | DuplicateInput
  | BadCoinbaseScriptLength nat
  | NullPrevout
  | BadCoinbaseHeight u32
  | BadWitnessNonceSize
  | WitnessCommitmentMismatch
  | UnexpectedWitness
  | BlockWeightTooLarge nat
  | CoinbaseValueTooHigh u64 u64
  | PrematureCoinbaseSpend u32 u32
  | DivisionPanic

type_synonym 'a validation = "validation_error + 'a"

definition INITIAL_BLOCK_REWARD :: u64 where
  "INITIAL_BLOCK_REWARD = 50 * COIN"

definition COINBASE_MATURITY :: u32 where
  "COINBASE_MATURITY = 100"

definition MAX_BLOCK_WEIGHT :: nat where
  "MAX_BLOCK_WEIGHT = 4000000"

definition MIN_COINBASE_SCRIPT_SIZE :: nat where
  "MIN_COINBASE_SCRIPT_SIZE = 2"

definition MAX_COINBASE_SCRIPT_SIZE :: nat where
  "MAX_COINBASE_SCRIPT_SIZE = 100"

subsection \<open>The script engine\<close>

datatype consensus_engine_kind = Native | CoreReference

record consensus_engine =
  engine_kind :: consensus_engine_kind
  engine_flags :: verify_flags

definition engine_new :: "consensus_engine_kind \<Rightarrow> consensus_engine" where
  "engine_new kind = \<lparr>engine_kind = kind, engine_flags = CONSENSUS_TAPROOT\<rparr>"

definition with_flags :: "consensus_engine \<Rightarrow> verify_flags \<Rightarrow> consensus_engine" where
  "with_flags engine flags = engine\<lparr>engine_flags := flags\<rparr>"

definition verify_native ::
  "digests \<Rightarrow> secp \<Rightarrow> transaction \<Rightarrow> coin list \<Rightarrow> verify_flags \<Rightarrow> unit validation" where
  "verify_native H ec tx spent_coins flags =
     (if length spent_coins \<noteq> length (inputs tx) then Inl ScriptFailure
      else
        let spent_outputs = map coin_output spent_coins;
            cache = precomputed_new H tx spent_outputs
        in fold_res (\<lambda>_ (index, inp).
             let coin = spent_coins ! index;
                 checker = transaction_signature_checker H ec (with_cache (tx_checker_new H tx index spent_outputs) cache)
             in map_err (ScriptError index)
                  (verify_script H ec (script_sig inp) (script_pubkey (coin_output coin)) (witness inp) flags checker))
             () (enumerate 0 (inputs tx)))"

text \<open>The reference engine of a default build, without the feature that links it.\<close>

definition verify_core_reference :: "transaction \<Rightarrow> coin list \<Rightarrow> verify_flags \<Rightarrow> unit validation" where
  "verify_core_reference tx spent_coins flags = Inl ReferenceEngineUnavailable"

definition verify_transaction ::
  "digests \<Rightarrow> secp \<Rightarrow> consensus_engine \<Rightarrow> transaction \<Rightarrow> coin list \<Rightarrow> unit validation" where
  "verify_transaction H ec engine tx spent_coins =
     (case engine_kind engine of
        Native \<Rightarrow> verify_native H ec tx spent_coins (engine_flags engine)
      | CoreReference \<Rightarrow> verify_core_reference tx spent_coins (engine_flags engine))"

subsection \<open>Transactions\<close>

definition check_outputs :: "tx_out list \<Rightarrow> amount validation" where
  "check_outputs outs =
     fold_res (\<lambda>total out.
       if \<not> is_valid (out_value out) then Inl AmountOutOfRange
       else ok_or TotalAmountOutOfRange (checked_add total (out_value out))) amount_ZERO outs"

definition check_duplicates :: "tx_in list \<Rightarrow> out_point set validation" where
  "check_duplicates ins =
     fold_res (\<lambda>seen inp.
       if previous_output inp \<in> seen then Inl DuplicateInput else Inr (insert (previous_output inp) seen)) {} ins"

definition check_transaction :: "transaction \<Rightarrow> unit validation" where
  "check_transaction tx =
     (if inputs tx = [] then Inl NoInputs
      else if outputs tx = [] then Inl NoOutputs
      else
        and_then (check_outputs (outputs tx)) (\<lambda>total.
        if \<not> is_valid total then Inl TotalAmountOutOfRange
        else
          and_then (check_duplicates (inputs tx)) (\<lambda>_.
          if is_coinbase tx then
            (let len = length (script_sig (inputs tx ! 0))
             in if MIN_COINBASE_SCRIPT_SIZE \<le> len \<and> len \<le> MAX_COINBASE_SCRIPT_SIZE then Inr ()
                else Inl (BadCoinbaseScriptLength len))
          else if list_ex (\<lambda>inp. op_txid (previous_output inp) = hash_ZERO \<and> op_vout (previous_output inp) = 0xFFFFFFFF)
                    (inputs tx) then Inl NullPrevout
          else Inr ())))"

text \<open>The halving interval is a positive constant of every network.\<close>

definition block_subsidy :: "u32 \<Rightarrow> consensus_params \<Rightarrow> amount" where
  "block_subsidy height params =
     (let halvings = height div n_subsidy_halving_interval params
      in if halvings \<ge> 64 then amount_ZERO
         else (case from_sat (drop_bit (unat halvings) INITIAL_BLOCK_REWARD) of Inr a \<Rightarrow> a | Inl _ \<Rightarrow> amount_ZERO))"

definition sum_inputs_step ::
  "(out_point \<Rightarrow> coin option) \<Rightarrow> u32 \<Rightarrow> amount \<times> coin list \<Rightarrow> tx_in \<Rightarrow> (amount \<times> coin list) validation" where
  "sum_inputs_step view height acc inp =
     (case acc of (value_in, spent) \<Rightarrow>
        and_then (ok_or (InputMissingOrSpent (previous_output inp)) (view (previous_output inp))) (\<lambda>coin.
        if coin_is_coinbase coin \<and> unat height - unat (coin_height coin) < unat COINBASE_MATURITY
        then Inl (PrematureCoinbaseSpend (coin_height coin) height)
        else
          and_then (ok_or TotalAmountOutOfRange (checked_add value_in (out_value (coin_output coin)))) (\<lambda>value_in.
          Inr (value_in, spent @ [coin]))))"

definition sum_output_values :: "tx_out list \<Rightarrow> amount validation" where
  "sum_output_values outs =
     fold_res (\<lambda>total out. ok_or TotalAmountOutOfRange (checked_add total (out_value out))) amount_ZERO outs"

definition contextual_check_transaction_metadata ::
  "transaction \<Rightarrow> (out_point \<Rightarrow> coin option) \<Rightarrow> u32 \<Rightarrow> (amount \<times> coin list) validation" where
  "contextual_check_transaction_metadata tx view height =
     (if is_coinbase tx then Inr (amount_ZERO, [])
      else
        and_then (fold_res (sum_inputs_step view height) (amount_ZERO, []) (inputs tx)) (\<lambda>(total_in, spent_coins).
        and_then (sum_output_values (outputs tx)) (\<lambda>total_out.
        if total_in < total_out then Inl NegativeFee
        else
          and_then (ok_or NegativeFee (checked_sub total_in total_out)) (\<lambda>fee.
          Inr (fee, spent_coins)))))"

subsection \<open>Blocks\<close>

text \<open>Both indices are in range: the block was checked first.\<close>

definition check_bip34_height :: "block \<Rightarrow> u32 \<Rightarrow> unit validation" where
  "check_bip34_height b height =
     (let expected_push = push_data [] (num_encode (int (unat height)));
          ssig = script_sig (inputs (transactions b ! 0) ! 0)
      in if take (length expected_push) ssig = expected_push then Inr () else Inl (BadCoinbaseHeight height))"

definition witness_leaves :: "digests \<Rightarrow> block \<Rightarrow> hash list" where
  "witness_leaves H b = hash_ZERO # map (wtxid H) (drop 1 (transactions b))"

definition check_witness_commitment :: "digests \<Rightarrow> block \<Rightarrow> unit validation" where
  "check_witness_commitment H b =
     (let coinbase = transactions b ! 0
      in case get_witness_commitment_index coinbase of
           None \<Rightarrow> if list_ex is_segwit (transactions b) then Inl UnexpectedWitness else Inr ()
         | Some commitment_index \<Rightarrow>
             let wit = witness (inputs coinbase ! 0)
             in if length wit \<noteq> 1 \<or> length (wit ! 0) \<noteq> 32 then Inl BadWitnessNonceSize
                else
                  let witness_root = signet_merkle_root H (witness_leaves H b);
                      expected = hash256 H (witness_root @ wit ! 0);
                      script = script_pubkey (outputs coinbase ! commitment_index)
                  in if take 32 (drop 6 script) \<noteq> expected then Inl WitnessCommitmentMismatch else Inr ())"

definition check_block_header ::
  "digests \<Rightarrow> block_header \<Rightarrow> block_index \<Rightarrow> chain_params \<Rightarrow> (u32 \<Rightarrow> block_index option) \<Rightarrow> unit validation" where
  "check_block_header H hdr index_prev params provider =
     (if \<not> meets_target H hdr then Inl InvalidProofOfWork
      else
        case get_next_work_required index_prev hdr (consensus params) provider of
          None \<Rightarrow> Inl DivisionPanic
        | Some expected_bits \<Rightarrow>
            if bh_bits hdr \<noteq> expected_bits
            then Inl (WrongDifficulty (bi_height index_prev + 1) expected_bits (bh_bits hdr))
            else Inr ())"

definition check_block :: "digests \<Rightarrow> secp \<Rightarrow> block \<Rightarrow> chain_params \<Rightarrow> unit validation" where
  "check_block H ec b params =
     (if transactions b = [] then Inl NoTransactions
      else
        let computed_root = compute_merkle_root H b
        in if merkle_root (header b) \<noteq> computed_root
           then Inl (InvalidMerkleRoot (merkle_root (header b)) computed_root)
           else if \<not> is_coinbase (transactions b ! 0) then Inl InvalidCoinbase
           else
             and_then (fold_res (\<lambda>_ tx. check_transaction tx) () (transactions b)) (\<lambda>_.
             if block_weight b > MAX_BLOCK_WEIGHT then Inl (BlockWeightTooLarge (block_weight b))
             else if signet_blocks (consensus params)
               then map_err SignetSolution (check_signet_block_solution H ec b params)
             else Inr ()))"

subsection \<open>Connecting a block\<close>

type_synonym overlay = "out_point \<rightharpoonup> coin option"

definition overlay_get_coin :: "(out_point \<Rightarrow> coin option) \<Rightarrow> overlay \<Rightarrow> out_point \<Rightarrow> coin option" where
  "overlay_get_coin base coins op = (case coins op of Some coin \<Rightarrow> coin | None \<Rightarrow> base op)"

record connect_state =
  total_fees :: amount
  undo_coins :: block_undo
  overlay_coins :: overlay
  script_jobs :: "(transaction \<times> coin list) list"
  validated_spends :: "out_point list list"

definition tx_coins :: "hash \<Rightarrow> tx_out list \<Rightarrow> u32 \<Rightarrow> bool \<Rightarrow> (out_point \<times> coin) list" where
  "tx_coins tid outs height cb =
     map (\<lambda>(vout, out). (\<lparr>op_txid = tid, op_vout = word_of_nat vout\<rparr>, coin_new out height cb)) (enumerate 0 outs)"

text \<open>The body of the validation loop, one transaction after the coinbase.\<close>

definition connect_tx ::
  "digests \<Rightarrow> (out_point \<Rightarrow> coin option) \<Rightarrow> u32 \<Rightarrow> bool \<Rightarrow> connect_state \<Rightarrow> transaction \<Rightarrow> connect_state validation" where
  "connect_tx H base height check_scripts st tx =
     and_then (contextual_check_transaction_metadata tx (overlay_get_coin base (overlay_coins st)) height)
       (\<lambda>(fee, spent_coins).
     and_then (ok_or TotalAmountOutOfRange (checked_add (total_fees st) fee)) (\<lambda>fees.
     let spends = map previous_output (inputs tx);
         spent_overlay = fold (\<lambda>op m. m(op \<mapsto> None)) spends (overlay_coins st);
         new_overlay = fold (\<lambda>(op, coin) m. m(op \<mapsto> Some coin)) (tx_coins (txid H tx) (outputs tx) height False) spent_overlay
     in Inr \<lparr>total_fees = fees, undo_coins = undo_coins st @ spent_coins, overlay_coins = new_overlay,
             script_jobs = (if check_scripts then script_jobs st @ [(tx, spent_coins)] else script_jobs st),
             validated_spends = validated_spends st @ [spends]\<rparr>))"

definition connect_state_new :: connect_state where
  "connect_state_new = \<lparr>total_fees = amount_ZERO, undo_coins = [], overlay_coins = Map.empty, script_jobs = [],
     validated_spends = []\<rparr>"

definition add_tx_coins :: "hash \<Rightarrow> tx_out list \<Rightarrow> u32 \<Rightarrow> bool \<Rightarrow> coins_view_cache \<Rightarrow> coins_view_cache" where
  "add_tx_coins tid outs height cb view =
     fold (\<lambda>(op, coin) view. add_coin view op coin False) (tx_coins tid outs height cb) view"

text \<open>The commit loop over transactions and the outpoints they spend, then the coinbase outputs.\<close>

definition commit_tx :: "digests \<Rightarrow> u32 \<Rightarrow> transaction \<times> out_point list \<Rightarrow> coins_view_cache \<Rightarrow> coins_view_cache" where
  "commit_tx H height ts view =
     (case ts of (tx, spends) \<Rightarrow>
        add_tx_coins (txid H tx) (outputs tx) height False (fold (\<lambda>op view. spend_coin_known view op) spends view))"

definition commit_block :: "digests \<Rightarrow> block \<Rightarrow> u32 \<Rightarrow> out_point list list \<Rightarrow> coins_view_cache \<Rightarrow> coins_view_cache" where
  "commit_block H b height spends view =
     (let view = fold (commit_tx H height) (zip (drop 1 (transactions b)) spends) view;
          coinbase = transactions b ! 0
      in add_tx_coins (txid H coinbase) (outputs coinbase) height True view)"

text \<open>The checks before anything is committed.\<close>

definition validate_block ::
  "digests \<Rightarrow> secp \<Rightarrow> block \<Rightarrow> u32 \<Rightarrow> block_index \<Rightarrow> (out_point \<Rightarrow> coin option) \<Rightarrow> chain_params \<Rightarrow>
   (u32 \<Rightarrow> block_index option) \<Rightarrow> bool \<Rightarrow> consensus_engine \<Rightarrow> connect_state validation" where
  "validate_block H ec b height index_prev base params provider check_scripts engine =
     and_then (check_block H ec b params) (\<lambda>_.
     and_then (check_block_header H (header b) index_prev params provider) (\<lambda>_.
     and_then (if height \<ge> bip34_height (consensus params) then check_bip34_height b height else Inr ()) (\<lambda>_.
     and_then (if height \<ge> segwit_height (consensus params) then check_witness_commitment H b else Inr ()) (\<lambda>_.
     and_then (fold_res (connect_tx H base height check_scripts) connect_state_new (drop 1 (transactions b))) (\<lambda>st.
     and_then (fold_res (\<lambda>_ (tx, spent). verify_transaction H ec engine tx spent) () (script_jobs st)) (\<lambda>_.
     Inr st))))))"

definition check_coinbase_value :: "block \<Rightarrow> u32 \<Rightarrow> chain_params \<Rightarrow> amount \<Rightarrow> unit validation" where
  "check_coinbase_value b height params fees =
     and_then (sum_output_values (outputs (transactions b ! 0))) (\<lambda>coinbase_value.
     and_then (ok_or TotalAmountOutOfRange (checked_add (block_subsidy height (consensus params)) fees)) (\<lambda>allowed.
     if coinbase_value > allowed then Inl (CoinbaseValueTooHigh coinbase_value allowed) else Inr ()))"

definition connect_block ::
  "digests \<Rightarrow> secp \<Rightarrow> block \<Rightarrow> u32 \<Rightarrow> block_index \<Rightarrow> coins_view_cache \<Rightarrow> chain_params \<Rightarrow>
   (u32 \<Rightarrow> block_index option) \<Rightarrow> bool \<Rightarrow> consensus_engine \<Rightarrow> (amount \<times> block_undo) validation \<times> coins_view_cache" where
  "connect_block H ec b height index_prev view params provider check_scripts engine =
     (case validate_block H ec b height index_prev (cache_get_coin view) params provider check_scripts engine of
        Inl e \<Rightarrow> (Inl e, view)
      | Inr st \<Rightarrow>
          let view = commit_block H b height (validated_spends st) view
          in case check_coinbase_value b height params (total_fees st) of
               Inl e \<Rightarrow> (Inl e, view)
             | Inr _ \<Rightarrow>
                 (Inr (total_fees st, undo_coins st), set_best_block view (block_hash H (header b)) height))"

end
