(* ===== verification/Ledger.thy ===== *)
theory Ledger
  imports Validation
begin

text \<open>
  What the consensus checks guarantee.  The rules of a transaction as one equivalence, the exact
  fee, and the specification of a block on the set of unspent outputs: \<open>apply_tx\<close> removes what
  a transaction spends and adds what it creates, \<open>apply_block\<close> does so for a block.  Connecting
  a block implements \<open>apply_block\<close>, and never creates more value than the subsidy.
\<close>

subsection \<open>Transaction rules\<close>

lemma fold_res_unit: "fold_res (\<lambda>_ x. f x) () xs = Inr () \<longleftrightarrow> (\<forall>x \<in> set xs. f x = Inr ())"
  by (induction xs) (auto simp: and_then_eq_Inr)

lemma unat_ZERO [simp]: "unat amount_ZERO = 0"
  by (simp add: amount_ZERO_def)

lemma checked_add_bound: "checked_add a b = Some c \<Longrightarrow> unat c \<le> unat MAX_MONEY"
  by (metis checked_add_Some unat_checked_add)

lemma sum_output_values_from:
  assumes "unat acc \<le> unat MAX_MONEY"
  shows "fold_res (\<lambda>acc out. ok_or TotalAmountOutOfRange (checked_add acc (out_value out))) acc outs = Inr t \<longleftrightarrow>
    unat acc + sum_sats outs \<le> unat MAX_MONEY \<and> unat t = unat acc + sum_sats outs"
  using assms
proof (induction outs arbitrary: acc)
  case (Cons out outs)
  show ?case
  proof (cases "checked_add acc (out_value out)")
    case None
    then have "\<not> unat acc + unat (out_value out) \<le> unat MAX_MONEY"
      using checked_add_Some [of acc "out_value out" "acc + out_value out"] by simp
    with None show ?thesis by simp
  next
    case (Some a)
    with Cons.IH [of a] unat_checked_add [OF Some] checked_add_bound [OF Some] show ?thesis by (simp add: add.assoc)
  qed
qed (auto simp: word_unat_eq_iff)

lemma sum_output_values_Inr:
  "sum_output_values outs = Inr t \<longleftrightarrow> sum_sats outs \<le> unat MAX_MONEY \<and> unat t = sum_sats outs"
  unfolding sum_output_values_def using sum_output_values_from [of amount_ZERO outs t] by simp

lemma check_outputs_Inr:
  "check_outputs outs = Inr t \<longleftrightarrow>
    (\<forall>out \<in> set outs. is_valid (out_value out)) \<and> sum_sats outs \<le> unat MAX_MONEY \<and> unat t = sum_sats outs"
proof -
  have "fold_res (\<lambda>acc out. if \<not> is_valid (out_value out) then Inl AmountOutOfRange
        else ok_or TotalAmountOutOfRange (checked_add acc (out_value out))) acc outs = Inr t \<longleftrightarrow>
      (\<forall>out \<in> set outs. is_valid (out_value out)) \<and>
      fold_res (\<lambda>acc out. ok_or TotalAmountOutOfRange (checked_add acc (out_value out))) acc outs = Inr t" for acc
    by (induction outs arbitrary: acc) (auto simp: and_then_eq_Inr)
  then show ?thesis
    unfolding check_outputs_def using sum_output_values_from [of amount_ZERO outs t] by simp
qed

lemma check_duplicates_Inr:
  "check_duplicates ins = Inr seen \<longleftrightarrow>
    distinct (map previous_output ins) \<and> seen = previous_output ` set ins"
proof -
  have "fold_res (\<lambda>seen inp. if previous_output inp \<in> seen then Inl DuplicateInput
        else Inr (insert (previous_output inp) seen)) s ins = Inr seen \<longleftrightarrow>
      distinct (map previous_output ins) \<and> s \<inter> previous_output ` set ins = {} \<and> seen = s \<union> previous_output ` set ins" for s
    by (induction ins arbitrary: s) auto
  then show ?thesis by (simp add: check_duplicates_def)
qed

text \<open>The rules \<open>check_transaction\<close> enforces, as the consensus rules state them.\<close>

definition tx_rules :: "transaction \<Rightarrow> bool" where
  "tx_rules tx \<longleftrightarrow> inputs tx \<noteq> [] \<and> outputs tx \<noteq> [] \<and> sum_sats (outputs tx) \<le> 2100000000000000 \<and>
     distinct (map previous_output (inputs tx)) \<and>
     (if is_coinbase tx then length (script_sig (inputs tx ! 0)) \<in> {2..100}
      else (\<forall>inp \<in> set (inputs tx). \<not> outpoint_is_coinbase (previous_output inp)))"

lemma sum_sats_member: "out \<in> set outs \<Longrightarrow> unat (out_value out) \<le> sum_sats outs"
  by (induction outs) auto

lemma check_transaction_rules: "check_transaction tx = Inr () \<longleftrightarrow> tx_rules tx"
proof -
  have valid: "is_valid a \<longleftrightarrow> unat a \<le> 2100000000000000" for a
    by (simp add: is_valid_def word_le_nat_alt unat_MAX_MONEY)
  have outs: "(\<exists>t. check_outputs (outputs tx) = Inr t \<and> is_valid t) \<longleftrightarrow> sum_sats (outputs tx) \<le> 2100000000000000"
  proof
    assume s: "sum_sats (outputs tx) \<le> 2100000000000000"
    let ?t = "word_of_nat (sum_sats (outputs tx)) :: u64"
    have t: "unat ?t = sum_sats (outputs tx)" using s by (simp add: unat_word_of_nat_u64)
    then have "check_outputs (outputs tx) = Inr ?t"
      unfolding check_outputs_Inr using s order_trans [OF sum_sats_member s] by (auto simp: valid unat_MAX_MONEY)
    with t s show "\<exists>t. check_outputs (outputs tx) = Inr t \<and> is_valid t" by (auto simp: valid)
  qed (auto simp: check_outputs_Inr valid)
  show ?thesis
    unfolding tx_rules_def outs [symmetric] check_transaction_def
    by (auto simp: and_then_eq_Inr check_duplicates_Inr list_ex_iff outpoint_is_coinbase_def Let_def
        MIN_COINBASE_SCRIPT_SIZE_def MAX_COINBASE_SCRIPT_SIZE_def)
qed

subsection \<open>Fees\<close>

definition coin_sats :: "coin \<Rightarrow> nat" where
  "coin_sats c = unat (out_value (coin_output c))"

definition mature :: "u32 \<Rightarrow> coin \<Rightarrow> bool" where
  "mature height c \<longleftrightarrow> (coin_is_coinbase c \<longrightarrow> unat (coin_height c) + 100 \<le> unat height)"

lemma sum_inputs_from:
  assumes "fold_res (sum_inputs_step view height) (a, cs) ins = Inr (t, cs')"
  shows "\<exists>spent. cs' = cs @ spent \<and> map Some spent = map (view \<circ> previous_output) ins \<and>
    unat t = unat a + sum_list (map coin_sats spent) \<and> list_all (mature height) spent"
  using assms
proof (induction ins arbitrary: a cs)
  case (Cons inp ins)
  then obtain acc1 where step: "sum_inputs_step view height (a, cs) inp = Inr acc1"
    and rem: "fold_res (sum_inputs_step view height) acc1 ins = Inr (t, cs')"
    by (auto elim!: and_then_InrE)
  from step obtain c a1 where c: "view (previous_output inp) = Some c" "checked_add a (out_value (coin_output c)) = Some a1"
    "\<not> (coin_is_coinbase c \<and> unat height - unat (coin_height c) < unat COINBASE_MATURITY)" "acc1 = (a1, cs @ [c])"
    unfolding sum_inputs_step_def by (auto split: if_splits elim!: and_then_InrE)
  then obtain spent where s: "cs' = (cs @ [c]) @ spent" "map Some spent = map (view \<circ> previous_output) ins"
    "unat t = unat a1 + sum_list (map coin_sats spent)" "list_all (mature height) spent"
    using Cons.IH rem c(4) by blast
  then show ?case
    using c unat_checked_add [OF c(2)]
    by (intro exI [of _ "c # spent"]) (auto simp: coin_sats_def [of c] mature_def [of _ c] COINBASE_MATURITY_def)
qed simp

lemma metadata_fee:
  assumes "contextual_check_transaction_metadata tx view height = Inr (fee, spent)" "\<not> is_coinbase tx"
  shows "map Some spent = map (view \<circ> previous_output) (inputs tx)"
    "unat fee + sum_sats (outputs tx) = sum_list (map coin_sats spent)" "list_all (mature height) spent"
proof -
  obtain t_in t_out where t: "fold_res (sum_inputs_step view height) (amount_ZERO, []) (inputs tx) = Inr (t_in, spent)"
    "sum_output_values (outputs tx) = Inr t_out" "\<not> t_in < t_out" "fee = t_in - t_out"
    using assms by (auto simp: contextual_check_transaction_metadata_def unat_checked_sub split: if_splits elim!: and_then_InrE)
  from sum_inputs_from [OF t(1)] show "map Some spent = map (view \<circ> previous_output) (inputs tx)"
    "list_all (mature height) spent" by auto
  have "unat t_in = sum_list (map coin_sats spent)" using sum_inputs_from [OF t(1)] by auto
  moreover have "unat t_out = sum_sats (outputs tx)" using t(2) by (simp add: sum_output_values_Inr)
  moreover have "unat fee = unat t_in - unat t_out" "unat t_out \<le> unat t_in"
    using t(3,4) by (simp_all add: unat_sub word_le_nat_alt not_less)
  ultimately show "unat fee + sum_sats (outputs tx) = sum_list (map coin_sats spent)" by simp
qed

subsection \<open>Number of outputs\<close>

text \<open>A block within the weight limit has fewer outputs than a \<open>vout\<close> can count.\<close>

lemma fold_txout_length: "length outs \<le> length (fold encode_txout outs [])"
proof (induction outs)
  case (Cons out outs)
  have "encode_txout out [] = encode_amount (out_value out) [] @ encode_script_buf (script_pubkey out) []"
    unfolding encode_txout_def by (rule script_buf.enc_append)
  then have "0 < length (encode_txout out [])"
    by (simp add: encode_amount_def encode_u64_def push_bytes_def)
  then have "1 \<le> length (encode_txout out [])" by linarith
  with Cons show ?case by (simp add: txout.fold_enc_Cons del: fold.simps)
qed simp

lemma outputs_le_encoding: "length (outputs tx) \<le> length (encode_transaction tx [])"
proof (cases "is_segwit tx")
  case True
  with fold_txout_length [of "outputs tx"] show ?thesis by (simp add: encode_tx_segwit_flat txout.encode_varlist_Nil)
next
  case False
  with fold_txout_length [of "outputs tx"] show ?thesis
    by (simp add: encode_transaction_def encode_tx_legacy_flat txout.encode_varlist_Nil)
qed

lemma fold_transactions_length:
  "tx \<in> set txs \<Longrightarrow> length (encode_transaction tx []) \<le> length (fold encode_transaction txs [])"
  by (induction txs) (auto simp: transaction.fold_enc_Cons simp del: fold.simps)

lemma outputs_le_weight:
  assumes "tx \<in> set (transactions b)"
  shows "length (outputs tx) \<le> block_weight b"
proof -
  have "length (outputs tx) \<le> length (serialize encode_block b)"
    using outputs_le_encoding [of tx] fold_transactions_length [OF assms]
    by (simp add: serialize_def encode_block_def transaction.encode_varlist_flat transaction.encode_varlist_Nil)
  then show ?thesis by (simp add: block_weight_def Let_def)
qed

subsection \<open>The ledger\<close>

text \<open>
  The specification: a transaction removes the outpoints it spends and adds one coin per output
  under its own id; a block applies its transactions in order and then pays its coinbase.
\<close>

definition spends :: "transaction \<Rightarrow> out_point list" where
  "spends tx = map previous_output (inputs tx)"

definition created :: "digests \<Rightarrow> u32 \<Rightarrow> bool \<Rightarrow> transaction \<Rightarrow> utxo_set" where
  "created H height cb tx op =
     (if op_txid op = txid H tx \<and> unat (op_vout op) < length (outputs tx)
      then Some (coin_new (outputs tx ! unat (op_vout op)) height cb) else None)"

definition apply_tx :: "digests \<Rightarrow> u32 \<Rightarrow> transaction \<Rightarrow> utxo_set \<Rightarrow> utxo_set" where
  "apply_tx H height tx u = (u |` (- set (spends tx))) ++ created H height False tx"

definition apply_block :: "digests \<Rightarrow> u32 \<Rightarrow> block \<Rightarrow> utxo_set \<Rightarrow> utxo_set" where
  "apply_block H height b u =
     fold (apply_tx H height) (drop 1 (transactions b)) u ++ created H height True (transactions b ! 0)"

lemma fold_remove: "fold (\<lambda>op m. m(op := None)) ops u = u |` (- set ops)"
  by (induction ops arbitrary: u) (auto simp: restrict_map_def fun_eq_iff)

lemma tx_coins_distinct:
  assumes "length outs \<le> 2 ^ 32"
  shows "distinct (map fst (tx_coins tid outs height cb))"
proof -
  have "map fst (tx_coins tid outs height cb) = map (\<lambda>v. \<lparr>op_txid = tid, op_vout = word_of_nat v\<rparr>) [0..<length outs]"
    by (rule nth_equalityI) (simp_all add: tx_coins_def nth_enumerate_eq case_prod_beta)
  moreover have "inj_on (\<lambda>v. \<lparr>op_txid = tid, op_vout = word_of_nat v :: u32\<rparr>) {0..<length outs}"
  proof (rule inj_onI)
    fix x y
    assume xy: "x \<in> {0..<length outs}" "y \<in> {0..<length outs}"
      "\<lparr>op_txid = tid, op_vout = word_of_nat x :: u32\<rparr> = \<lparr>op_txid = tid, op_vout = word_of_nat y\<rparr>"
    from xy(3) have "unat (word_of_nat x :: u32) = unat (word_of_nat y :: u32)"
      by (metis out_point.ext_inject)
    with xy(1,2) assms show "x = y" by (simp add: unat_word_of_nat_u32)
  qed
  ultimately show ?thesis by (simp add: distinct_map)
qed

lemma map_of_tx_coins:
  assumes "length (outputs tx) \<le> 2 ^ 32"
  shows "map_of (tx_coins (txid H tx) (outputs tx) height cb) = created H height cb tx"
proof
  fix op
  let ?cs = "tx_coins (txid H tx) (outputs tx) height cb"
  have nth: "v < length (outputs tx) \<Longrightarrow> ?cs ! v = (\<lparr>op_txid = txid H tx, op_vout = word_of_nat v\<rparr>, coin_new (outputs tx ! v) height cb)" for v
    by (simp add: tx_coins_def nth_enumerate_eq)
  have len: "length ?cs = length (outputs tx)" by (simp add: tx_coins_def)
  have un: "v < length (outputs tx) \<Longrightarrow> unat (word_of_nat v :: u32) = v" for v
    using assms unat_word_of_nat_u32 by simp
  show "map_of ?cs op = created H height cb tx op"
  proof (cases "op_txid op = txid H tx \<and> unat (op_vout op) < length (outputs tx)")
    case True
    then have "?cs ! unat (op_vout op) = (op, coin_new (outputs tx ! unat (op_vout op)) height cb)" by (simp add: nth)
    with True len have "(op, coin_new (outputs tx ! unat (op_vout op)) height cb) \<in> set ?cs" by (metis nth_mem)
    with tx_coins_distinct [OF assms] True show ?thesis by (simp add: created_def)
  next
    case False
    have "op \<notin> fst ` set ?cs"
      using False un by (auto simp: in_set_conv_nth len nth)
    then have "map_of ?cs op = None" by (simp only: map_of_eq_None_iff not_False_eq_True)
    with False show ?thesis by (simp add: created_def)
  qed
qed

lemma fold_update_map_of:
  "distinct (map fst al) \<Longrightarrow> fold (\<lambda>(k, v) m. m(k \<mapsto> v)) al u = u ++ map_of al"
  by (induction al arbitrary: u) (auto simp: map_add_def fun_eq_iff map_of_eq_None_iff [symmetric] split: option.splits)

lemma overlay_update [simp]: "overlay_get_coin base (ov(op \<mapsto> x)) = (overlay_get_coin base ov)(op := x)"
  by (auto simp: overlay_get_coin_def fun_eq_iff)

lemma overlay_spends: "overlay_get_coin base (fold (\<lambda>op m. m(op \<mapsto> None)) ops ov) = overlay_get_coin base ov |` (- set ops)"
  unfolding fold_remove [symmetric] by (induction ops arbitrary: ov) simp_all

lemma overlay_adds:
  "overlay_get_coin base (fold (\<lambda>(op, c) m. m(op \<mapsto> Some c)) cs ov) = fold (\<lambda>(op, c) u. u(op \<mapsto> c)) cs (overlay_get_coin base ov)"
  by (induction cs arbitrary: ov) auto

text \<open>One step of the validation loop: the overlay follows the specification.\<close>

lemma connect_tx_overlay:
  assumes "connect_tx H base height cs st tx = Inr st'" "length (outputs tx) \<le> 2 ^ 32"
  shows "overlay_get_coin base (overlay_coins st') = apply_tx H height tx (overlay_get_coin base (overlay_coins st))"
    "validated_spends st' = validated_spends st @ [spends tx]"
  using assms
  by (auto simp: connect_tx_def Let_def overlay_adds overlay_spends fold_update_map_of tx_coins_distinct map_of_tx_coins
      apply_tx_def spends_def elim!: and_then_InrE)

subsection \<open>Committing a block\<close>

text \<open>
  The outpoints \<open>S\<close> can be added to a cache that keeps its invariant: the base does not hold
  them, or the cache already has an entry for them.
\<close>

definition ready :: "out_point set \<Rightarrow> coins_view_cache \<Rightarrow> bool" where
  "ready S c \<longleftrightarrow> cache_ok c \<and> (\<forall>op \<in> S. view_get_coin (cvc_base c) op = None \<or> map_of (cvc_cache c) op \<noteq> None)"

lemma ready_ok [simp]: "ready S c \<Longrightarrow> cache_ok c"
  by (simp add: ready_def)

lemma ready_insert: "ready S c \<Longrightarrow> entry_ok (cvc_base c) (op, e) \<Longrightarrow> ready S (cache_insert op e c)"
  by (auto simp: ready_def cache_insert_ok) (fastforce simp: cache_insert_def update_conv' split: if_splits)

lemma ready_remove:
  "ready S c \<Longrightarrow> view_get_coin (cvc_base c) op = None \<Longrightarrow> ready S (cache_remove op c)"
  by (auto simp: ready_def cache_remove_ok) (fastforce simp: cache_remove_def delete_conv' split: if_splits)

lemma ready_spend: "ready S c \<Longrightarrow> ready S (spend_coin_known c op)"
  using cache_ok_entry [of c op]
  by (auto simp: spend_coin_known_def spend_coin_def spent_entry_def entry_ok_def ready_def [of _ c]
      intro!: ready_insert ready_remove split: option.splits)

lemma ready_add: "ready S c \<Longrightarrow> op \<in> S \<Longrightarrow> ready S (add_coin c op coin po)"
  using cache_ok_entry [of c op] ready_insert [of S c]
  by (auto simp: add_coin_def Let_def entry_ok_def ready_def [of _ c] intro!: ready_insert split: option.splits)

lemma ready_spends:
  "ready S c \<Longrightarrow> ready S (fold (\<lambda>op c. spend_coin_known c op) ops c) \<and>
     utxo (fold (\<lambda>op c. spend_coin_known c op) ops c) = utxo c |` (- set ops)"
  unfolding fold_remove [symmetric]
  by (induction ops arbitrary: c) (simp_all add: ready_spend spend_coin_known_refines(1))

lemma ready_adds:
  "ready S c \<Longrightarrow> fst ` set cs \<subseteq> S \<Longrightarrow> ready S (fold (\<lambda>(op, coin) c. add_coin c op coin False) cs c) \<and>
     utxo (fold (\<lambda>(op, coin) c. add_coin c op coin False) cs c) = fold (\<lambda>(op, coin) u. u(op \<mapsto> coin)) cs (utxo c)"
  by (induction cs arbitrary: c) (auto simp: ready_add add_coin_refines)

lemma dom_created:
  "length (outputs tx) \<le> 2 ^ 32 \<Longrightarrow> dom (created H height cb tx) = fst ` set (tx_coins (txid H tx) (outputs tx) height cb)"
  by (simp add: map_of_tx_coins [symmetric] dom_map_of_conv_image_fst)

lemma add_tx_coins_refines:
  assumes "ready S c" "length (outputs tx) \<le> 2 ^ 32" "dom (created H height cb tx) \<subseteq> S"
  shows "ready S (add_tx_coins (txid H tx) (outputs tx) height cb c)"
    "utxo (add_tx_coins (txid H tx) (outputs tx) height cb c) = utxo c ++ created H height cb tx"
  using ready_adds [OF assms(1), of "tx_coins (txid H tx) (outputs tx) height cb"] assms(2,3)
  by (simp_all add: dom_created add_tx_coins_def fold_update_map_of tx_coins_distinct map_of_tx_coins)

lemma commit_tx_refines:
  assumes "ready S c" "length (outputs tx) \<le> 2 ^ 32" "dom (created H height False tx) \<subseteq> S"
  shows "ready S (commit_tx H height (tx, spends tx) c)"
    "utxo (commit_tx H height (tx, spends tx) c) = apply_tx H height tx (utxo c)"
proof -
  note r = ready_spends [OF assms(1), of "spends tx"]
  show "ready S (commit_tx H height (tx, spends tx) c)"
    "utxo (commit_tx H height (tx, spends tx) c) = apply_tx H height tx (utxo c)"
    using add_tx_coins_refines [of S "fold (\<lambda>op c. spend_coin_known c op) (spends tx) c" tx H height False] r assms
    by (simp_all add: commit_tx_def apply_tx_def)
qed

lemma zip_map_right: "zip xs (map f xs) = map (\<lambda>x. (x, f x)) xs"
  by (induction xs) auto

definition created_by :: "digests \<Rightarrow> block \<Rightarrow> out_point set" where
  "created_by H b = (\<Union>tx \<in> set (transactions b). dom (created H 0 False tx))"

lemma dom_created_any: "dom (created H height cb tx) = dom (created H 0 False tx)"
  by (auto simp: created_def split: if_splits)

lemma commit_block_refines:
  assumes "ready (created_by H b) c" "\<forall>tx \<in> set (transactions b). length (outputs tx) \<le> 2 ^ 32" "transactions b \<noteq> []"
  shows "ready (created_by H b) (commit_block H b height (map spends (drop 1 (transactions b))) c)"
    "utxo (commit_block H b height (map spends (drop 1 (transactions b))) c) = apply_block H height b (utxo c)"
proof -
  let ?S = "created_by H b"
  have dom: "tx \<in> set (transactions b) \<Longrightarrow> dom (created H height cb tx) \<subseteq> ?S" for tx cb
    unfolding dom_created_any [of H height cb] created_by_def by blast
  have step: "ready ?S (fold (commit_tx H height) (map (\<lambda>tx. (tx, spends tx)) txs) c) \<and>
      utxo (fold (commit_tx H height) (map (\<lambda>tx. (tx, spends tx)) txs) c) = fold (apply_tx H height) txs (utxo c)"
    if "set txs \<subseteq> set (transactions b)" "ready ?S c" for txs c
    using that
  proof (induction txs arbitrary: c)
    case (Cons tx txs)
    then have "ready ?S (commit_tx H height (tx, spends tx) c)"
      "utxo (commit_tx H height (tx, spends tx) c) = apply_tx H height tx (utxo c)"
      using commit_tx_refines [of ?S c tx] assms(2) dom by auto
    with Cons show ?case by simp
  qed simp
  have first: "transactions b ! 0 \<in> set (transactions b)" using assms(3) by simp
  show "ready ?S (commit_block H b height (map spends (drop 1 (transactions b))) c)"
    "utxo (commit_block H b height (map spends (drop 1 (transactions b))) c) = apply_block H height b (utxo c)"
    using step [of "drop 1 (transactions b)" c] add_tx_coins_refines [OF _ bspec [OF assms(2) first] dom [OF first]] assms(1)
    by (simp_all add: commit_block_def apply_block_def zip_map_right set_drop_subset Let_def)
qed

text \<open>The validation loop and the commit follow the same specification.\<close>

lemma connect_txs:
  assumes "fold_res (connect_tx H base height cs) st txs = Inr st'" "\<forall>tx \<in> set txs. length (outputs tx) \<le> 2 ^ 32"
  shows "validated_spends st' = validated_spends st @ map spends txs \<and>
    overlay_get_coin base (overlay_coins st') = fold (apply_tx H height) txs (overlay_get_coin base (overlay_coins st))"
  using assms
proof (induction txs arbitrary: st)
  case (Cons tx txs)
  then obtain st1 where "connect_tx H base height cs st tx = Inr st1" "fold_res (connect_tx H base height cs) st1 txs = Inr st'"
    by (auto elim!: and_then_InrE)
  with Cons.IH [of st1] Cons.prems(2) connect_tx_overlay [of H base height cs st tx st1] show ?case by simp
qed simp

lemma check_block_facts:
  assumes "check_block H ec b params = Inr ()"
  shows "transactions b \<noteq> []" "merkle_root (header b) = compute_merkle_root H b" "is_coinbase (transactions b ! 0)"
    "\<forall>tx \<in> set (transactions b). tx_rules tx" "block_weight b \<le> 4000000"
  using assms
  by (auto simp: check_block_def fold_res_unit check_transaction_rules Let_def MAX_BLOCK_WEIGHT_def not_less
      split: if_splits elim!: and_then_InrE)

lemma outputs_countable:
  assumes "check_block H ec b params = Inr ()" "tx \<in> set (transactions b)"
  shows "length (outputs tx) \<le> 2 ^ 32"
  using check_block_facts(5) [OF assms(1)] outputs_le_weight [OF assms(2)] by simp

lemma validate_block_Inr:
  assumes "validate_block H ec b height index_prev base params provider check_scripts engine = Inr st"
  shows "check_block H ec b params = Inr ()"
    "check_block_header H (header b) index_prev params provider = Inr ()"
    "fold_res (connect_tx H base height check_scripts) connect_state_new (drop 1 (transactions b)) = Inr st"
    "\<forall>(tx, spent) \<in> set (script_jobs st). verify_transaction H ec engine tx spent = Inr ()"
  using assms by (fastforce simp: validate_block_def case_prod_beta fold_res_unit elim!: and_then_InrE)+

lemma connect_block_Inr:
  assumes "connect_block H ec b height index_prev view params provider check_scripts engine = (Inr (fees, undo), view')"
  obtains st where "validate_block H ec b height index_prev (utxo view) params provider check_scripts engine = Inr st"
    "check_coinbase_value b height params (total_fees st) = Inr ()" "fees = total_fees st" "undo = undo_coins st"
    "view' = set_best_block (commit_block H b height (validated_spends st) view) (block_hash H (header b)) height"
  using assms by (auto simp: connect_block_def Let_def split: sum.splits)

lemma validated_spends_new:
  assumes "validate_block H ec b height index_prev base params provider check_scripts engine = Inr st"
  shows "validated_spends st = map spends (drop 1 (transactions b))"
  using connect_txs [OF validate_block_Inr(3) [OF assms]] outputs_countable [OF validate_block_Inr(1) [OF assms]]
  by (auto simp: connect_state_new_def dest: in_set_dropD)

lemma set_best_block_view [simp]:
  "utxo (set_best_block c h height) = utxo c" "cache_ok (set_best_block c h height) = cache_ok c"
  "cache_get_best_block (set_best_block c h height) = Some h"
  by (simp_all add: set_best_block_def cache_get_coin_def cache_ok_def cache_get_best_block_def fun_eq_iff split: option.split)

lemma connect_block_applies:
  assumes "connect_block H ec b height index_prev view params provider check_scripts engine = (Inr (fees, undo), view')"
    and "ready (created_by H b) view"
  shows "utxo view' = apply_block H height b (utxo view)" "cache_ok view'"
    "cache_get_best_block view' = Some (block_hash H (header b))"
proof -
  obtain st where st: "validate_block H ec b height index_prev (utxo view) params provider check_scripts engine = Inr st"
    "view' = set_best_block (commit_block H b height (validated_spends st) view) (block_hash H (header b)) height"
    using connect_block_Inr [OF assms(1)] by blast
  note v = validate_block_Inr [OF st(1)]
  note c = commit_block_refines [OF assms(2) _ check_block_facts(1) [OF v(1)]]
  have "\<forall>tx \<in> set (transactions b). length (outputs tx) \<le> 2 ^ 32" using outputs_countable [OF v(1)] by blast
  from ready_ok [OF c(1) [OF this]] c(2) [OF this] show "utxo view' = apply_block H height b (utxo view)" "cache_ok view'"
    "cache_get_best_block view' = Some (block_hash H (header b))"
    by (simp_all add: st(2) validated_spends_new [OF st(1)])
qed

subsection \<open>Conservation of value\<close>

definition ledger_value :: "utxo_set \<Rightarrow> nat" where
  "ledger_value u = (\<Sum>op \<in> dom u. coin_sats (the (u op)))"

lemma finite_dom_fun_upd_None: "finite (dom (u(op := None))) = finite (dom u)"
  by simp

lemma ledger_value_remove:
  assumes "finite (dom u)" "u op = Some c"
  shows "ledger_value (u(op := None)) + coin_sats c = ledger_value u"
proof -
  have "ledger_value u = coin_sats c + (\<Sum>op' \<in> dom u - {op}. coin_sats (the (u op')))"
    unfolding ledger_value_def using assms by (subst sum.remove [of _ op]) auto
  also have "(\<Sum>op' \<in> dom u - {op}. coin_sats (the (u op'))) = ledger_value (u(op := None))"
    unfolding ledger_value_def by (rule sum.cong) auto
  finally show ?thesis by simp
qed

lemma ledger_value_map_of:
  "distinct (map fst al) \<Longrightarrow> ledger_value (map_of al) = (\<Sum>c \<leftarrow> map snd al. coin_sats c)"
proof (induction al)
  case (Cons kv al)
  obtain k c where kv: "kv = (k, c)" by (cases kv)
  have k: "k \<notin> dom (map_of al)" using Cons.prems kv by (simp add: dom_map_of_conv_image_fst)
  then have "((map_of al)(k \<mapsto> c))(k := None) = map_of al" by (auto simp: fun_eq_iff)
  then have "ledger_value ((map_of al)(k \<mapsto> c)) = coin_sats c + ledger_value (map_of al)"
    using ledger_value_remove [of "(map_of al)(k \<mapsto> c)" k c] by (simp add: finite_dom_map_of)
  moreover have "map_of (kv # al) = (map_of al)(k \<mapsto> c)" by (simp only: kv map_of.simps fst_conv snd_conv)
  ultimately have "ledger_value (map_of (kv # al)) = coin_sats c + ledger_value (map_of al)" by (simp only:)
  with Cons kv show ?case by (simp del: map_of.simps)
qed (simp add: ledger_value_def)

lemma ledger_value_created:
  assumes "length (outputs tx) \<le> 2 ^ 32"
  shows "ledger_value (created H height cb tx) = sum_sats (outputs tx)"
proof -
  have "(\<Sum>c \<leftarrow> map snd (map (\<lambda>(v, out). (f v, coin_new out height cb)) (enumerate n outs)). coin_sats c) = sum_sats outs"
    for f :: "nat \<Rightarrow> out_point" and outs n
    by (induction outs arbitrary: n) (simp_all add: coin_sats_def coin_new_def)
  then have "(\<Sum>c \<leftarrow> map snd (tx_coins (txid H tx) (outputs tx) height cb). coin_sats c) = sum_sats (outputs tx)"
    unfolding tx_coins_def .
  then show ?thesis
    unfolding map_of_tx_coins [OF assms, symmetric] by (simp only: ledger_value_map_of [OF tx_coins_distinct [OF assms]])
qed

lemma ledger_value_add:
  assumes "finite (dom u)" "finite (dom v)"
  shows "ledger_value (u ++ v) \<le> ledger_value u + ledger_value v"
proof -
  have "ledger_value (u ++ v) = (\<Sum>op \<in> dom v \<union> (dom u - dom v). coin_sats (the ((u ++ v) op)))"
    unfolding ledger_value_def by (rule sum.cong) auto
  also have "\<dots> = (\<Sum>op \<in> dom v. coin_sats (the ((u ++ v) op))) + (\<Sum>op \<in> dom u - dom v. coin_sats (the ((u ++ v) op)))"
    using assms by (intro sum.union_disjoint) auto
  also have "(\<Sum>op \<in> dom v. coin_sats (the ((u ++ v) op))) = ledger_value v"
    unfolding ledger_value_def by (rule sum.cong) (auto simp: map_add_dom_app_simps)
  also have "(\<Sum>op \<in> dom u - dom v. coin_sats (the ((u ++ v) op))) = (\<Sum>op \<in> dom u - dom v. coin_sats (the (u op)))"
    by (rule sum.cong) (auto simp: map_add_dom_app_simps)
  also have "\<dots> \<le> ledger_value u" unfolding ledger_value_def using assms by (intro sum_mono2) auto
  finally show ?thesis by simp
qed

lemma ledger_value_spends:
  assumes "finite (dom u)" "distinct ops" "map Some spent = map u ops"
  shows "ledger_value (u |` (- set ops)) + (\<Sum>c \<leftarrow> spent. coin_sats c) = ledger_value u"
  using assms
proof (induction ops arbitrary: u spent)
  case (Cons op ops)
  then obtain c cs where s: "spent = c # cs" "u op = Some c" "map Some cs = map u ops" by auto
  have "map Some cs = map (u(op := None)) ops" using s(3) Cons.prems(2) by (auto intro: map_cong)
  then have "ledger_value ((u(op := None)) |` (- set ops)) + (\<Sum>c \<leftarrow> cs. coin_sats c) = ledger_value (u(op := None))"
    using Cons.IH [of "u(op := None)" cs] Cons.prems by (simp only: finite_dom_fun_upd_None distinct.simps simp_thms)
  moreover have "(u(op := None)) |` (- set ops) = u |` (- set (op # ops))" by (auto simp: restrict_map_def fun_eq_iff)
  ultimately show ?case using ledger_value_remove [OF Cons.prems(1) s(2)] s(1) by simp
qed (simp add: restrict_map_def)

lemma finite_apply_tx: "finite (dom u) \<Longrightarrow> length (outputs tx) \<le> 2 ^ 32 \<Longrightarrow> finite (dom (apply_tx H height tx u))"
  by (simp add: apply_tx_def dom_created)

text \<open>A transaction that is not a coinbase destroys what it pays as fee, and no less.\<close>

lemma connect_tx_conserves:
  assumes "connect_tx H base height cs st tx = Inr st'" "tx_rules tx" "\<not> is_coinbase tx" "length (outputs tx) \<le> 2 ^ 32"
    and "finite (dom (overlay_get_coin base (overlay_coins st)))"
  shows "ledger_value (overlay_get_coin base (overlay_coins st')) + unat (total_fees st') \<le>
    ledger_value (overlay_get_coin base (overlay_coins st)) + unat (total_fees st)"
proof -
  let ?u = "overlay_get_coin base (overlay_coins st)"
  obtain fee spent where m: "contextual_check_transaction_metadata tx ?u height = Inr (fee, spent)"
    "checked_add (total_fees st) fee = Some (total_fees st')"
    using assms(1) by (auto simp: connect_tx_def Let_def elim!: and_then_InrE)
  have d: "distinct (spends tx)" using assms(2) by (simp add: tx_rules_def spends_def)
  note fee = metadata_fee [OF m(1) assms(3)]
  have "ledger_value (?u |` (- set (spends tx))) + (\<Sum>c \<leftarrow> spent. coin_sats c) = ledger_value ?u"
    using fee(1) by (intro ledger_value_spends [OF assms(5) d]) (simp add: spends_def)
  moreover have "ledger_value (apply_tx H height tx ?u) \<le> ledger_value (?u |` (- set (spends tx))) + sum_sats (outputs tx)"
    unfolding apply_tx_def ledger_value_created [OF assms(4), of H height False, symmetric]
    using assms(5) by (intro ledger_value_add) (simp_all add: dom_created [OF assms(4)])
  ultimately show ?thesis
    using fee(2) unat_checked_add [OF m(2)] connect_tx_overlay(1) [OF assms(1,4)] by simp
qed

lemma connect_txs_conserve:
  assumes "fold_res (connect_tx H base height cs) st txs = Inr st'"
    and "\<forall>tx \<in> set txs. tx_rules tx \<and> \<not> is_coinbase tx \<and> length (outputs tx) \<le> 2 ^ 32"
    and "finite (dom (overlay_get_coin base (overlay_coins st)))"
  shows "finite (dom (overlay_get_coin base (overlay_coins st'))) \<and>
    ledger_value (overlay_get_coin base (overlay_coins st')) + unat (total_fees st') \<le>
    ledger_value (overlay_get_coin base (overlay_coins st)) + unat (total_fees st)"
  using assms
proof (induction txs arbitrary: st)
  case (Cons tx txs)
  then obtain st1 where s: "connect_tx H base height cs st tx = Inr st1" "fold_res (connect_tx H base height cs) st1 txs = Inr st'"
    by (auto elim!: and_then_InrE)
  have tx: "tx_rules tx" "\<not> is_coinbase tx" "length (outputs tx) \<le> 2 ^ 32" using Cons.prems(2) by auto
  have "finite (dom (overlay_get_coin base (overlay_coins st1)))"
    using connect_tx_overlay(1) [OF s(1) tx(3)] finite_apply_tx [OF Cons.prems(3) tx(3)] by simp
  with Cons.IH [OF s(2)] Cons.prems(2) connect_tx_conserves [OF s(1) tx Cons.prems(3)] show ?case by fastforce
qed simp

text \<open>
  A coinbase after the first position passes the metadata check for free.  Checking scripts
  refuses it, because it has an input and no spent coin.
\<close>

lemma verify_transaction_count:
  "verify_transaction H ec engine tx spent = Inr () \<Longrightarrow> length spent = length (inputs tx)"
  by (auto simp: verify_transaction_def verify_native_def verify_core_reference_def
      split: consensus_engine_kind.splits if_splits)

lemma connect_tx_jobs:
  assumes "connect_tx H base height True st tx = Inr st'"
  shows "\<exists>spent. script_jobs st' = script_jobs st @ [(tx, spent)] \<and> (is_coinbase tx \<longrightarrow> spent = [])"
  using assms
  by (auto simp: connect_tx_def contextual_check_transaction_metadata_def Let_def elim!: and_then_InrE split: if_splits)

lemma connect_txs_jobs:
  assumes "fold_res (connect_tx H base height True) st txs = Inr st'"
  shows "set (script_jobs st) \<subseteq> set (script_jobs st') \<and> (\<forall>tx \<in> set txs. \<exists>spent. (tx, spent) \<in> set (script_jobs st') \<and> (is_coinbase tx \<longrightarrow> spent = []))"
  using assms
proof (induction txs arbitrary: st)
  case (Cons tx txs)
  then obtain st1 where s: "connect_tx H base height True st tx = Inr st1" "fold_res (connect_tx H base height True) st1 txs = Inr st'"
    by (auto elim!: and_then_InrE)
  from connect_tx_jobs [OF s(1)] Cons.IH [OF s(2)] show ?case by auto
qed simp

lemma script_checks_refuse_coinbase:
  assumes "validate_block H ec b height index_prev base params provider True engine = Inr st"
    and "tx \<in> set (drop 1 (transactions b))"
  shows "\<not> is_coinbase tx"
proof
  assume cb: "is_coinbase tx"
  note v = validate_block_Inr [OF assms(1)]
  obtain spent where "(tx, spent) \<in> set (script_jobs st)" "spent = []"
    using connect_txs_jobs [OF v(3)] assms(2) cb by blast
  with v(4) have "verify_transaction H ec engine tx [] = Inr ()" by blast
  then have "inputs tx = []" using verify_transaction_count by fastforce
  with cb show False by (simp add: is_coinbase_def)
qed

lemma connect_block_conserves:
  assumes "connect_block H ec b height index_prev view params provider check_scripts engine = (Inr (fees, undo), view')"
    and "ready (created_by H b) view" "finite (dom (utxo view))"
    and "check_scripts \<or> (\<forall>tx \<in> set (drop 1 (transactions b)). \<not> is_coinbase tx)"
  shows "ledger_value (utxo view') \<le> ledger_value (utxo view) + unat (block_subsidy height (consensus params))"
proof -
  obtain st where st: "validate_block H ec b height index_prev (utxo view) params provider check_scripts engine = Inr st"
    "check_coinbase_value b height params (total_fees st) = Inr ()"
    using connect_block_Inr [OF assms(1)] by blast
  note v = validate_block_Inr [OF st(1)]
  note facts = check_block_facts [OF v(1)]
  let ?cb = "transactions b ! 0"
  let ?u = "overlay_get_coin (utxo view) (overlay_coins st)"
  have start: "overlay_get_coin (utxo view) (overlay_coins connect_state_new) = utxo view" "total_fees connect_state_new = 0"
    by (simp_all add: overlay_get_coin_def connect_state_new_def amount_ZERO_def fun_eq_iff)
  have txs: "\<forall>tx \<in> set (drop 1 (transactions b)). tx_rules tx \<and> \<not> is_coinbase tx \<and> length (outputs tx) \<le> 2 ^ 32"
    using assms(4) script_checks_refuse_coinbase st(1) facts(4) outputs_countable [OF v(1)]
    by (cases check_scripts) (auto dest: in_set_dropD)
  have spent: "finite (dom ?u)" "ledger_value ?u + unat (total_fees st) \<le> ledger_value (utxo view)"
    using connect_txs_conserve [OF v(3) txs] assms(3) start by simp_all
  have u: "?u = fold (apply_tx H height) (drop 1 (transactions b)) (utxo view)"
    using connect_txs [OF v(3)] txs start by simp
  obtain cv allowed where cv: "sum_output_values (outputs ?cb) = Inr cv" "\<not> cv > allowed"
    "checked_add (block_subsidy height (consensus params)) (total_fees st) = Some allowed"
    using st(2) by (auto simp: check_coinbase_value_def split: if_splits elim!: and_then_InrE)
  have paid: "sum_sats (outputs ?cb) \<le> unat (block_subsidy height (consensus params)) + unat (total_fees st)"
    using cv(1,2) unat_checked_add [OF cv(3)] by (simp add: sum_output_values_Inr word_less_nat_alt)
  have len: "length (outputs ?cb) \<le> 2 ^ 32" using outputs_countable [OF v(1)] facts(1) by simp
  have "utxo view' = ?u ++ created H height True ?cb"
    using connect_block_applies(1) [OF assms(1,2)] by (simp add: apply_block_def u)
  moreover have "ledger_value (?u ++ created H height True ?cb) \<le> ledger_value ?u + sum_sats (outputs ?cb)"
    unfolding ledger_value_created [OF len, of H height True, symmetric]
    using spent(1) by (intro ledger_value_add) (simp_all add: dom_created [OF len])
  ultimately show ?thesis using spent(2) paid by simp
qed

lemma extra_coinbase_connects:
  assumes "is_coinbase tx" "unat (total_fees st) \<le> unat MAX_MONEY" "length (outputs tx) \<le> 2 ^ 32"
  shows "\<exists>st'. connect_tx H base height False st tx = Inr st' \<and> total_fees st' = total_fees st \<and>
    script_jobs st' = script_jobs st \<and>
    overlay_get_coin base (overlay_coins st') = apply_tx H height tx (overlay_get_coin base (overlay_coins st))"
proof -
  have "checked_add (total_fees st) 0 = Some (total_fees st)"
    using assms(2) by (simp add: checked_add_Some)
  then obtain st' where st': "connect_tx H base height False st tx = Inr st'" "total_fees st' = total_fees st"
    "script_jobs st' = script_jobs st"
    using assms(1) by (simp add: connect_tx_def contextual_check_transaction_metadata_def amount_ZERO_def Let_def)
  with connect_tx_overlay(1) [OF st'(1) assms(3)] show ?thesis by blast
qed

subsection \<open>Errors\<close>

text \<open>
  Every check but the last leaves the cache untouched.  The last one, on the value of the
  coinbase, runs after the commit: when it fails, the cache already holds the refused block.
\<close>

lemma sum_output_values_Inl: "sum_output_values outs = Inl e \<Longrightarrow> e = TotalAmountOutOfRange"
proof -
  have "fold_res (\<lambda>total out. ok_or TotalAmountOutOfRange (checked_add total (out_value out))) a outs = Inl e \<Longrightarrow>
      e = TotalAmountOutOfRange" for a
    by (induction outs arbitrary: a) (auto simp: and_then_eq_Inl)
  then show "sum_output_values outs = Inl e \<Longrightarrow> e = TotalAmountOutOfRange" by (simp add: sum_output_values_def)
qed

lemma connect_block_error_frame:
  assumes "connect_block H ec b height index_prev view params provider check_scripts engine = (Inl e, view')"
    and "e \<noteq> TotalAmountOutOfRange" "\<forall>claimed allowed. e \<noteq> CoinbaseValueTooHigh claimed allowed"
  shows "view' = view"
  using assms
  by (auto simp: connect_block_def check_coinbase_value_def Let_def and_then_eq_Inl
      split: sum.splits if_splits dest!: sum_output_values_Inl)

lemma connect_block_late_failure:
  assumes "validate_block H ec b height index_prev (utxo view) params provider check_scripts engine = Inr st"
    and "check_coinbase_value b height params (total_fees st) = Inl e" "ready (created_by H b) view"
  shows "fst (connect_block H ec b height index_prev view params provider check_scripts engine) = Inl e"
    "utxo (snd (connect_block H ec b height index_prev view params provider check_scripts engine)) =
       apply_block H height b (utxo view)"
proof -
  note v = validate_block_Inr [OF assms(1)]
  have "\<forall>tx \<in> set (transactions b). length (outputs tx) \<le> 2 ^ 32" using outputs_countable [OF v(1)] by blast
  from commit_block_refines(2) [OF assms(3) this check_block_facts(1) [OF v(1)]] assms(1,2) validated_spends_new [OF assms(1)]
  show "fst (connect_block H ec b height index_prev view params provider check_scripts engine) = Inl e"
    "utxo (snd (connect_block H ec b height index_prev view params provider check_scripts engine)) =
       apply_block H height b (utxo view)"
    by (simp_all add: connect_block_def Let_def)
qed

subsection \<open>Subsidy and supply\<close>

lemma block_subsidy_formula:
  "unat (block_subsidy height params) = 5000000000 div 2 ^ (unat height div unat (n_subsidy_halving_interval params))"
proof -
  let ?h = "height div n_subsidy_halving_interval params"
  have h: "unat ?h = unat height div unat (n_subsidy_halving_interval params)" by (simp add: unat_div_distrib)
  have r: "unat INITIAL_BLOCK_REWARD = 5000000000" by (simp add: INITIAL_BLOCK_REWARD_def COIN_def)
  show ?thesis
  proof (cases "?h \<ge> 64")
    case True
    then have "64 \<le> unat ?h" by (simp add: word_le_nat_alt)
    then have "(2 :: nat) ^ 64 \<le> 2 ^ unat ?h" by (intro power_increasing) simp_all
    then have "(5000000000 :: nat) div 2 ^ unat ?h = 0" by simp
    with True show ?thesis by (simp add: block_subsidy_def Let_def h)
  next
    case False
    have u: "unat (drop_bit (unat ?h) INITIAL_BLOCK_REWARD) = 5000000000 div 2 ^ unat ?h"
      by (simp only: unat_drop_bit_eq r) (simp add: drop_bit_eq_div)
    have "(5000000000 :: nat) div 2 ^ unat ?h \<le> 5000000000" by (rule div_le_dividend)
    then have "drop_bit (unat ?h) INITIAL_BLOCK_REWARD \<le> MAX_MONEY"
      by (simp only: word_le_nat_alt u unat_MAX_MONEY)
    with False u show ?thesis by (simp add: block_subsidy_def Let_def h from_sat_def)
  qed
qed

lemma sum_by_epoch:
  fixes f :: "nat \<Rightarrow> nat"
  assumes "0 < m" "\<And>k. K \<le> k \<Longrightarrow> f k = 0"
  shows "(\<Sum>h < n. f (h div m)) \<le> m * (\<Sum>k < K. f k)"
proof -
  let ?g = "\<lambda>h. f (h div m)"
  have "(\<Sum>h < n. ?g h) \<le> (\<Sum>h < max n (K * m). ?g h)" by (rule sum_mono2) auto
  also have "\<dots> = (\<Sum>h < K * m. ?g h)"
    using assms by (intro sum.mono_neutral_right) (auto simp: less_eq_div_iff_mult_less_eq)
  also have "\<dots> = (\<Sum>k < K. sum ?g {k * m..<k * m + m})" by (rule sum.nat_group [symmetric])
  also have "\<dots> = (\<Sum>k < K. m * f k)"
  proof (rule sum.cong)
    fix k
    have "h div m = k" if "h \<in> {k * m..<k * m + m}" for h
      using that by (intro div_nat_eqI) (simp_all add: mult.commute)
    then show "sum ?g {k * m..<k * m + m} = m * f k" by simp
  qed simp
  finally show ?thesis by (simp add: sum_distrib_left)
qed

lemma subsidy_sum:
  assumes "n_subsidy_halving_interval params = 210000" "n \<le> 2 ^ 32"
  shows "(\<Sum>h < n. unat (block_subsidy (word_of_nat h) params)) \<le> 2099999997690000"
proof -
  have "(\<Sum>h < n. unat (block_subsidy (word_of_nat h) params)) = (\<Sum>h < n. 5000000000 div 2 ^ (h div 210000))"
    using assms by (intro sum.cong) (simp_all add: block_subsidy_formula unat_word_of_nat_u32)
  also have "\<dots> \<le> 210000 * (\<Sum>k < 33. 5000000000 div 2 ^ k)"
  proof (rule sum_by_epoch)
    fix k :: nat assume "33 \<le> k"
    then have "(2 :: nat) ^ 33 \<le> 2 ^ k" by (rule power_increasing) simp
    then show "(5000000000 :: nat) div 2 ^ k = 0" by simp
  qed simp
  also have "(\<Sum>k < 33. 5000000000 div 2 ^ k) = (9999999989 :: nat)" by (simp add: lessThan_nat_numeral lessThan_Suc)
  finally show ?thesis by simp
qed

subsection \<open>Headers\<close>

lemma check_block_header_Inr:
  "check_block_header H hdr index_prev params provider = Inr () \<longleftrightarrow>
     meets_target H hdr \<and> get_next_work_required index_prev hdr (consensus params) provider = Some (bh_bits hdr)"
  by (auto simp: check_block_header_def split: option.splits)

end
