(* ===== verification/Chainstate.thy ===== *)
theory Chainstate
  imports Ledger
begin

text \<open>
  The chainstate actor, \<^verbatim>\<open>consensus/chainstate.rs\<close>: it keeps the headers tip on the branch with
  most work, queues downloaded blocks by height and connects them to the coin cache in strict
  height order, flushing the cache to the store every 1024 blocks.  Every message sent to the
  write worker is awaited, so a store operation is a function on the worker's state.  The cache
  reads the store through a live view: \<open>with_store\<close> keeps its base equal to the store's contents.
  Instants are natural numbers of milliseconds, given by the argument \<open>now\<close> for each round of the
  activation loop.
\<close>

subsection \<open>State\<close>

datatype (plugins only: code size) chainstate_error =
    StoreFailed store_error
  | TipIndexMissing hash
  | GenesisIndexMissing hash
  | BlockDecodeFailed decode_error

record chainstate_manager =
  cs_store :: block_manager
  cs_params :: chain_params
  waiting_blocks :: "u32 \<rightharpoonup> hash"
  is_activating :: bool
  cache_view :: coins_view_cache
  blocks_since_flush :: u32
  active_tip :: "(hash \<times> u32) option"
  cs_engine :: consensus_engine
  script_checks :: bool
  last_failed_activation :: "(u32 \<times> hash \<times> nat) option"

type_synonym chainstate_result = "(chainstate_error + unit) \<times> chainstate_manager"

definition FLUSH_INTERVAL_BLOCKS :: u32 where
  "FLUSH_INTERVAL_BLOCKS = 1024"

definition ACTIVATE_BATCH_SIZE :: nat where
  "ACTIVATE_BATCH_SIZE = 128"

abbreviation cs_db :: "chainstate_manager \<Rightarrow> database" where
  "cs_db cs \<equiv> bm_backend (cs_store cs)"

definition with_store :: "block_manager \<Rightarrow> chainstate_manager \<Rightarrow> chainstate_manager" where
  "with_store m cs =
     cs\<lparr>cs_store := m, cache_view := (cache_view cs)\<lparr>cvc_base := store_coins_view (bm_backend m)\<rparr>\<rparr>"

definition persisted_tip :: "database \<Rightarrow> (hash \<times> u32) option" where
  "persisted_tip db =
     (case ok_flatten (get_best_block db) of
        None \<Rightarrow> None
      | Some h \<Rightarrow> map_option (\<lambda>index. (h, bi_height index)) (ok_flatten (get_block_index db h)))"

definition chainstate_new ::
  "block_manager \<Rightarrow> chain_params \<Rightarrow> nat \<Rightarrow> consensus_engine \<Rightarrow> bool \<Rightarrow> chainstate_manager" where
  "chainstate_new m params dbcache_bytes engine checks =
     \<lparr>cs_store = m, cs_params = params, waiting_blocks = Map.empty, is_activating = False,
      cache_view = cache_new (store_coins_view (bm_backend m)) (min (dbcache_bytes * 3) U64_MAX div 4),
      blocks_since_flush = 0, active_tip = persisted_tip (bm_backend m), cs_engine = engine,
      script_checks = checks, last_failed_activation = None\<rparr>"

text \<open>The block index by height: connected blocks first, then headers.\<close>

definition index_of_hash :: "database \<Rightarrow> hash option store_result \<Rightarrow> block_index option" where
  "index_of_hash db r =
     (case r of Inr (Some h) \<Rightarrow> ok_flatten (get_block_index db h) | _ \<Rightarrow> None)"

definition get_block_index_by_height :: "database \<Rightarrow> u32 \<Rightarrow> block_index option" where
  "get_block_index_by_height db height =
     (case index_of_hash db (get_block_hash db height) of
        Some index \<Rightarrow> Some index
      | None \<Rightarrow> index_of_hash db (get_block_hash_by_header_height db height))"

subsection \<open>Startup\<close>

text \<open>The forward scan of \<^verbatim>\<open>verify_and_repair_tips\<close>: at most the given number of heights.\<close>

primrec scout_headers :: "nat \<Rightarrow> database \<Rightarrow> u32 \<Rightarrow> hash option \<Rightarrow> hash \<Rightarrow> hash option" where
  "scout_headers 0 db scout_height found best_work = found"
| "scout_headers (Suc n) db scout_height found best_work =
     (case get_block_hash db scout_height of
        Inr (Some h) \<Rightarrow>
          (case ok_flatten (get_block_index db h) of
             Some index \<Rightarrow>
               if hash_gt (chain_work index) best_work
               then scout_headers n db (scout_height + 1) (Some h) (chain_work index)
               else scout_headers n db (scout_height + 1) found best_work
           | None \<Rightarrow> scout_headers n db (scout_height + 1) found best_work)
      | _ \<Rightarrow> found)"

definition tip_index :: "database \<Rightarrow> hash option \<Rightarrow> block_index option store_result" where
  "tip_index db tip = (case tip of Some h \<Rightarrow> get_block_index db h | None \<Rightarrow> Inr None)"

definition index_height :: "block_index option \<Rightarrow> u32" where
  "index_height index = (case index of Some i \<Rightarrow> bi_height i | None \<Rightarrow> 0)"

definition index_work :: "block_index option \<Rightarrow> hash" where
  "index_work index = (case index of Some i \<Rightarrow> chain_work i | None \<Rightarrow> hash_ZERO)"

definition cs_update_headers_tip :: "hash option \<Rightarrow> chainstate_manager \<Rightarrow> chainstate_manager" where
  "cs_update_headers_tip h cs =
     (case h of Some h \<Rightarrow> with_store (handle_update_headers_tip (cs_store cs) h) cs | None \<Rightarrow> cs)"

definition verify_and_repair_tips :: "chainstate_manager \<Rightarrow> chainstate_result" where
  "verify_and_repair_tips cs =
     (let db = cs_db cs
      in case and_then (get_headers_tip db) (\<lambda>header_tip.
              and_then (get_best_block db) (\<lambda>validated_tip.
              and_then (tip_index db header_tip) (\<lambda>header_index.
              and_then (tip_index db validated_tip) (\<lambda>validated_index.
              Inr (validated_tip, header_index, validated_index))))) of
           Inl e \<Rightarrow> (Inl (StoreFailed e), cs)
         | Inr (validated_tip, header_index, validated_index) \<Rightarrow>
             let header_height = index_height header_index;
                 validated_height = index_height validated_index;
                 cs = cs_update_headers_tip
                        (scout_headers 500000 db (header_height + 1) None (index_work header_index)) cs;
                 cs = (if header_height < validated_height then cs_update_headers_tip validated_tip cs else cs);
                 cs = (if header_height > validated_height + 2000000 then cs_update_headers_tip validated_tip cs else cs)
             in (Inr (), cs))"

subsection \<open>Headers and downloaded blocks\<close>

definition work_of :: "database \<Rightarrow> hash option \<Rightarrow> hash store_result" where
  "work_of db h = and_then (tip_index db h) (\<lambda>index. Inr (index_work index))"

definition process_header :: "digests \<Rightarrow> chainstate_manager \<Rightarrow> block_header \<Rightarrow> u32 \<Rightarrow> chainstate_result" where
  "process_header H cs hdr height =
     (let h = block_hash H hdr
      in case get_block_index (cs_db cs) h of
           Inl e \<Rightarrow> (Inl (StoreFailed e), cs)
         | Inr (Some _) \<Rightarrow> (Inr (), cs)
         | Inr None \<Rightarrow>
             (case if is_zero (prev_hash hdr) then Inr hash_ZERO else work_of (cs_db cs) (Some (prev_hash hdr)) of
                Inl e \<Rightarrow> (Inl (StoreFailed e), cs)
              | Inr prev_work \<Rightarrow>
                  let work = add_chain_work prev_work (calculate_block_work (bh_bits hdr));
                      index = \<lparr>bi_header = hdr, bi_height = height, chain_work = work, file_pos = None, undo_pos = None\<rparr>;
                      cs = with_store (handle_store_block_index (cs_store cs) h index) cs
                  in case and_then (get_headers_tip (cs_db cs)) (work_of (cs_db cs)) of
                       Inl e \<Rightarrow> (Inl (StoreFailed e), cs)
                     | Inr current_work \<Rightarrow>
                         (Inr (), if hash_gt work current_work then cs_update_headers_tip (Some h) cs else cs)))"

definition process_headers ::
  "chainstate_manager \<Rightarrow> (hash \<times> block_index) list \<Rightarrow> hash option \<Rightarrow> chainstate_result" where
  "process_headers cs indexes best_tip =
     (Inr (), with_store (handle_store_block_indexes (cs_store cs) indexes best_tip) cs)"

definition process_block_downloaded :: "chainstate_manager \<Rightarrow> hash \<Rightarrow> u32 \<Rightarrow> chainstate_result" where
  "process_block_downloaded cs h height = (Inr (), cs\<lparr>waiting_blocks := (waiting_blocks cs)(height \<mapsto> h)\<rparr>)"

subsection \<open>Activation\<close>

text \<open>The next block: a waiting one, else a connected or header hash of that height.\<close>

definition next_hash :: "chainstate_manager \<Rightarrow> u32 \<Rightarrow> hash option \<times> chainstate_manager" where
  "next_hash cs height =
     (case waiting_blocks cs height of
        Some h \<Rightarrow> (Some h, cs\<lparr>waiting_blocks := (waiting_blocks cs)(height := None)\<rparr>)
      | None \<Rightarrow>
          (case ok_flatten (get_block_hash (cs_db cs) height) of
             Some h \<Rightarrow> (Some h, cs)
           | None \<Rightarrow> (ok_flatten (get_block_hash_by_header_height (cs_db cs) height), cs)))"

definition recently_failed :: "chainstate_manager \<Rightarrow> u32 \<Rightarrow> hash \<Rightarrow> nat \<Rightarrow> bool" where
  "recently_failed cs height h now =
     (case last_failed_activation cs of
        Some (failed_height, failed_hash, failed_at) \<Rightarrow> failed_height = height \<and> failed_hash = h \<and> now - failed_at < 30000
      | None \<Rightarrow> False)"

definition assume_valid_height :: "chainstate_manager \<Rightarrow> u32 option store_result" where
  "assume_valid_height cs =
     (let assume_valid = default_assume_valid (consensus (cs_params cs))
      in if is_zero assume_valid then Inr None
         else and_then (get_block_index (cs_db cs) assume_valid) (\<lambda>index. Inr (map_option bi_height index)))"

definition current_tip :: "digests \<Rightarrow> chainstate_manager \<Rightarrow> chainstate_error + block_index" where
  "current_tip H cs =
     (case (case cache_get_best_block (cache_view cs) of
              Some h \<Rightarrow> Some h
            | None \<Rightarrow> ok_flatten (get_best_block (cs_db cs))) of
        Some tip_hash \<Rightarrow>
          and_then (map_err StoreFailed (get_block_index (cs_db cs) tip_hash)) (ok_or (TipIndexMissing tip_hash))
      | None \<Rightarrow>
          let gen_hash = genesis_hash H (cs_params cs)
          in and_then (map_err StoreFailed (get_block_index (cs_db cs) gen_hash)) (ok_or (GenesisIndexMissing gen_hash)))"

text \<open>
  What one round of the loop does: it stops without error, fails, or connects a block and goes on
  with the new tip.
\<close>

datatype activation = Stop | Fail chainstate_error | Connected block_index

definition flush_if_due :: "chainstate_manager \<Rightarrow> chainstate_manager" where
  "flush_if_due cs =
     (if blocks_since_flush cs \<ge> FLUSH_INTERVAL_BLOCKS then
        (let (m, view) = flush_cache (cs_store cs) (cache_view cs)
         in cs\<lparr>cs_store := m, cache_view := view, blocks_since_flush := 0\<rparr>)
      else cs)"

definition next_tip_index :: "block_index \<Rightarrow> block \<Rightarrow> block_index" where
  "next_tip_index tip b =
     \<lparr>bi_header = header b, bi_height = bi_height tip + 1,
      chain_work = add_chain_work (chain_work tip) (calculate_block_work (bh_bits (header b))),
      file_pos = None, undo_pos = None\<rparr>"

definition scripts_due :: "chainstate_manager \<Rightarrow> u32 option \<Rightarrow> u32 \<Rightarrow> bool" where
  "scripts_due cs assumed height \<longleftrightarrow>
     script_checks cs \<and> (case assumed of Some h \<Rightarrow> height > h | None \<Rightarrow> True)"

definition connect_next ::
  "digests \<Rightarrow> secp \<Rightarrow> u32 option \<Rightarrow> nat \<Rightarrow> chainstate_manager \<Rightarrow> block_index \<Rightarrow> hash \<Rightarrow> block \<Rightarrow>
   activation \<times> chainstate_manager" where
  "connect_next H ec assumed now cs tip h b =
     (let next_height = bi_height tip + 1
      in case connect_block H ec b next_height tip (cache_view cs) (cs_params cs)
                (get_block_index_by_height (cs_db cs)) (scripts_due cs assumed next_height) (cs_engine cs) of
           (Inl e, view) \<Rightarrow> (Stop, cs\<lparr>cache_view := view, last_failed_activation := Some (next_height, h, now)\<rparr>)
         | (Inr (fees, undo), view) \<Rightarrow>
             let cs = cs\<lparr>cache_view := view, last_failed_activation := None\<rparr>
             in case handle_store_undo (cs_store cs) h undo of
                  Inl e \<Rightarrow> (Fail (StoreFailed e), cs)
                | Inr m \<Rightarrow>
                    let cs = with_store m cs;
                        cs = cs\<lparr>cache_view := set_best_block (cache_view cs) h next_height,
                                active_tip := Some (h, next_height), blocks_since_flush := blocks_since_flush cs + 1\<rparr>
                    in (Connected (next_tip_index tip b), flush_if_due cs))"

definition activate_step ::
  "digests \<Rightarrow> secp \<Rightarrow> u32 option \<Rightarrow> nat \<Rightarrow> chainstate_manager \<Rightarrow> block_index \<Rightarrow> activation \<times> chainstate_manager" where
  "activate_step H ec assumed now cs tip =
     (case next_hash cs (bi_height tip + 1) of
        (None, cs) \<Rightarrow> (Stop, cs)
      | (Some h, cs) \<Rightarrow>
          if recently_failed cs (bi_height tip + 1) h now then (Stop, cs)
          else
            case get_block (cs_db cs) (bm_files (cs_store cs)) h of
              Inl e \<Rightarrow> (Fail (StoreFailed e), cs)
            | Inr None \<Rightarrow> (Stop, cs)
            | Inr (Some raw) \<Rightarrow>
                (case decode_block (decoder_new raw) of
                   Inl e \<Rightarrow> (Fail (BlockDecodeFailed e), cs)
                 | Inr (b, _) \<Rightarrow> connect_next H ec assumed now cs tip h b))"

text \<open>A round that goes on has connected a block, so the batch limit bounds the rounds.\<close>

primrec activate_loop ::
  "nat \<Rightarrow> digests \<Rightarrow> secp \<Rightarrow> u32 option \<Rightarrow> (nat \<Rightarrow> nat) \<Rightarrow> chainstate_manager \<Rightarrow> block_index \<Rightarrow> chainstate_result" where
  "activate_loop 0 H ec assumed now cs tip = (Inr (), cs)"
| "activate_loop (Suc n) H ec assumed now cs tip =
     (case activate_step H ec assumed (now n) cs tip of
        (Stop, cs) \<Rightarrow> (Inr (), cs)
      | (Fail e, cs) \<Rightarrow> (Inl e, cs)
      | (Connected tip, cs) \<Rightarrow> activate_loop n H ec assumed now cs tip)"

definition activate_best_chain_inner ::
  "digests \<Rightarrow> secp \<Rightarrow> (nat \<Rightarrow> nat) \<Rightarrow> chainstate_manager \<Rightarrow> chainstate_result" where
  "activate_best_chain_inner H ec now cs =
     (case assume_valid_height cs of
        Inl e \<Rightarrow> (Inl (StoreFailed e), cs)
      | Inr assumed \<Rightarrow>
          (case current_tip H cs of
             Inl e \<Rightarrow> (Inl e, cs)
           | Inr tip \<Rightarrow> activate_loop ACTIVATE_BATCH_SIZE H ec assumed now cs tip))"

definition activate_best_chain ::
  "digests \<Rightarrow> secp \<Rightarrow> (nat \<Rightarrow> nat) \<Rightarrow> chainstate_manager \<Rightarrow> chainstate_result" where
  "activate_best_chain H ec now cs =
     (if is_activating cs then (Inr (), cs)
      else
        let (result, cs) = activate_best_chain_inner H ec now (cs\<lparr>is_activating := True\<rparr>)
        in (result, cs\<lparr>is_activating := False\<rparr>))"

subsection \<open>Genesis\<close>

definition load_genesis_block :: "digests \<Rightarrow> chain_params \<Rightarrow> chainstate_manager \<Rightarrow> chainstate_result" where
  "load_genesis_block H params cs =
     (let h = genesis_hash H params
      in case get_block_index (cs_db cs) h of
           Inl e \<Rightarrow> (Inl (StoreFailed e), cs)
         | Inr (Some _) \<Rightarrow> (Inr (), cs)
         | Inr None \<Rightarrow>
             let index = \<lparr>bi_header = genesis_header params, bi_height = 0,
                          chain_work = calculate_block_work (bh_bits (genesis_header params)),
                          file_pos = None, undo_pos = None\<rparr>;
                 m = handle_store_block_index (cs_store cs) h index;
                 m = handle_update_headers_tip m h;
                 m = handle_update_header_index m h 0;
                 m = handle_update_active_tip m h;
                 cs = with_store m cs
             in (Inr (), cs\<lparr>cache_view := set_best_block (cache_view cs) h 0, active_tip := Some (h, 0)\<rparr>))"

subsection \<open>The actor\<close>

datatype chainstate_msg =
    ProcessHeader block_header u32
  | ProcessHeaders "(hash \<times> block_index) list" "hash option"
  | ProcessBlockDownloaded hash u32
  | ActivateBestChain "nat \<Rightarrow> nat"
  | LoadGenesis chain_params

fun handle_chainstate_msg :: "digests \<Rightarrow> secp \<Rightarrow> chainstate_manager \<Rightarrow> chainstate_msg \<Rightarrow> chainstate_result" where
  "handle_chainstate_msg H ec cs (ProcessHeader hdr height) = process_header H cs hdr height"
| "handle_chainstate_msg H ec cs (ProcessHeaders indexes best_tip) = process_headers cs indexes best_tip"
| "handle_chainstate_msg H ec cs (ProcessBlockDownloaded h height) = process_block_downloaded cs h height"
| "handle_chainstate_msg H ec cs (ActivateBestChain now) = activate_best_chain H ec now cs"
| "handle_chainstate_msg H ec cs (LoadGenesis params) = load_genesis_block H params cs"

primrec handle_chainstate_msgs ::
  "digests \<Rightarrow> secp \<Rightarrow> chainstate_manager \<Rightarrow> chainstate_msg list \<Rightarrow> (chainstate_error + unit) list \<times> chainstate_manager" where
  "handle_chainstate_msgs H ec cs [] = ([], cs)"
| "handle_chainstate_msgs H ec cs (msg # msgs) =
     (let (result, cs) = handle_chainstate_msg H ec cs msg;
          (results, cs) = handle_chainstate_msgs H ec cs msgs
      in (result # results, cs))"

text \<open>The startup repair only logs its error.\<close>

definition run_chainstate_loop ::
  "digests \<Rightarrow> secp \<Rightarrow> chainstate_manager \<Rightarrow> chainstate_msg list \<Rightarrow> (chainstate_error + unit) list \<times> chainstate_manager" where
  "run_chainstate_loop H ec cs msgs = handle_chainstate_msgs H ec (snd (verify_and_repair_tips cs)) msgs"

end
