(* ===== verification/Activation.thy ===== *)
theory Activation
  imports Chainstate
begin

text \<open>
  What the chainstate actor guarantees: the headers tip stays on the branch with most work, and an
  activation applies the connected blocks, in height order, to the set of unspent outputs, whether
  or not the cache was flushed to the store on the way.
\<close>

subsection \<open>Decoded blocks have the sizes of their types\<close>

definition tx_sized :: "transaction \<Rightarrow> bool" where
  "tx_sized tx \<longleftrightarrow> (\<forall>op \<in> set (spends tx). wf_outpoint op) \<and> list_all wf_txout (outputs tx)"

lemma read_items_all:
  assumes "reader dec" "\<And>d x d'. dec_valid d \<Longrightarrow> dec d = Inr (x, d') \<Longrightarrow> P x"
  shows "dec_valid d \<Longrightarrow> read_items dec n d = Inr (xs, d') \<Longrightarrow> list_all P xs"
proof (induction n arbitrary: d xs)
  case (Suc n)
  then obtain x d1 ys where 1: "dec d = Inr (x, d1)" "read_items dec n d1 = Inr (ys, d')" "xs = x # ys"
    by (auto simp: and_then_eq_Inr)
  from Suc 1 reader.dec_safe [OF assms(1) Suc.prems(1) 1(1)] assms(2) show ?case by auto
qed simp

lemma read_witnesses_spends:
  "read_witnesses ins d = Inr (ins', d') \<Longrightarrow> map previous_output ins' = map previous_output ins"
  by (induction ins arbitrary: d ins' d') (auto elim!: and_then_InrE)

lemma decode_transaction_sized:
  assumes "dec_valid d" "decode_transaction d = Inr (tx, d')"
  shows "tx_sized tx"
proof -
  obtain ver da marker where a: "decode_u32 d = Inr (ver, da)" "peek_u8 da ''Transaction::marker'' = Inr marker"
    using assms(2) by (auto simp: decode_transaction_def elim!: and_then_InrE)
  have va: "dec_valid da" using u32.dec_safe [OF assms(1) a(1)] by simp
  obtain d0 d1 d2 ins outs where
    r: "dec_valid d0" "read_var_list decode_txin ''Transaction::inputs'' d0 = Inr (ins, d1)"
      "read_var_list decode_txout ''Transaction::outputs'' d1 = Inr (outs, d2)"
      "map previous_output (inputs tx) = map previous_output ins" "outputs tx = outs"
  proof (cases "marker = 0")
    case True
    with assms(2) a obtain x db flag dc ins d1 outs d2 ins' d3 lt where
      "decode_u8 da = Inr (x, db)" "decode_u8 db = Inr (flag, dc)"
      "read_var_list decode_txin ''Transaction::inputs'' dc = Inr (ins, d1)"
      "read_var_list decode_txout ''Transaction::outputs'' d1 = Inr (outs, d2)" "read_witnesses ins d2 = Inr (ins', d3)"
      "tx = \<lparr>tx_version = ver, inputs = ins', outputs = outs, lock_time = lt\<rparr>"
      by (auto simp: decode_transaction_def elim!: and_then_InrE split: if_splits)
    moreover from this have "dec_valid dc" using u8.dec_safe va by blast
    ultimately show ?thesis using that read_witnesses_spends by simp
  next
    case False
    with assms(2) a obtain ins d1 outs d2 lt where
      "read_var_list decode_txin ''Transaction::inputs'' da = Inr (ins, d1)"
      "read_var_list decode_txout ''Transaction::outputs'' d1 = Inr (outs, d2)"
      "tx = \<lparr>tx_version = ver, inputs = ins, outputs = outs, lock_time = lt\<rparr>"
      by (auto simp: decode_transaction_def elim!: and_then_InrE)
    with va that show ?thesis by simp
  qed
  have ins: "wf_list (\<lambda>i. wf_txin i \<and> witness i = []) ins" using txin_list.dec_canonical [OF r(1,2)] by simp
  have "dec_valid d1" using txin_list.dec_safe [OF r(1,2)] by simp
  then have outs: "wf_list wf_txout outs" using txout_list.dec_canonical [OF _ r(3)] by simp
  have "set (spends tx) = previous_output ` set ins" using arg_cong [OF r(4), of set] by (simp add: spends_def)
  with ins outs r(5) show ?thesis by (auto simp: tx_sized_def wf_list_def list_all_iff wf_txin_def)
qed

lemma decode_block_sized:
  assumes "decode_block (decoder_new raw) = Inr (b, d')"
  shows "\<forall>tx \<in> set (transactions b). tx_sized tx"
proof -
  obtain d0 d1 where r: "dec_valid d0" "read_var_list decode_transaction ''Block::transactions'' d0 = Inr (transactions b, d1)"
    using assms block_header.dec_safe [of "decoder_new raw"]
    by (auto simp: decode_block_def elim!: and_then_InrE)
  then obtain c d2 where "read_varint d0 ''Block::transactions'' = Inr (c, d2)"
    "read_items decode_transaction (unat c) d2 = Inr (transactions b, d1)"
    by (auto simp: read_var_list_def elim!: and_then_InrE split: if_splits)
  moreover from this(1) have "dec_valid d2" using read_varint_sound [OF r(1)] by blast
  ultimately show ?thesis
    using read_items_all [OF transaction.reader_axioms decode_transaction_sized] by (simp add: list_all_iff)
qed

subsection \<open>The cache during a block\<close>

lemma cache_wf_insert:
  "cache_wf c \<Longrightarrow> wf_outpoint op \<Longrightarrow> (\<And>coin. ce_coin e = Some coin \<Longrightarrow> wf_coin coin) \<Longrightarrow> cache_wf (cache_insert op e c)"
  by (fastforce simp: cache_wf_def cache_insert_def list_all_iff dest!: set_update)

lemma cache_wf_remove: "cache_wf c \<Longrightarrow> cache_wf (cache_remove op c)"
  by (auto simp: cache_wf_def cache_remove_def list_all_iff dest!: set_delete)

lemma cache_wf_spend: "cache_wf c \<Longrightarrow> wf_outpoint op \<Longrightarrow> cache_wf (spend_coin_known c op)"
  by (auto simp: spend_coin_known_def spend_coin_def intro: cache_wf_insert cache_wf_remove split: option.splits)

lemma cache_wf_add: "cache_wf c \<Longrightarrow> wf_outpoint op \<Longrightarrow> wf_coin coin \<Longrightarrow> cache_wf (add_coin c op coin po)"
  by (auto simp: add_coin_def Let_def intro!: cache_wf_insert split: option.splits)

lemma cache_base_ops [simp]:
  "cvc_base (cache_insert op e c) = cvc_base c" "cvc_base (cache_remove op c) = cvc_base c"
  "cvc_base (set_best_block c h height) = cvc_base c"
  by (simp_all add: cache_insert_def cache_remove_def set_best_block_def)

lemma cache_base_spend [simp]: "cvc_base (spend_coin_known c op) = cvc_base c"
  by (auto simp: spend_coin_known_def spend_coin_def split: option.splits)

lemma cache_base_add [simp]: "cvc_base (add_coin c op coin po) = cvc_base c"
  by (simp add: add_coin_def Let_def)

text \<open>The invariant of the two loops over outpoints and coins.\<close>

definition wf_over :: "coins_view \<Rightarrow> coins_view_cache \<Rightarrow> bool" where
  "wf_over base c \<longleftrightarrow> cache_wf c \<and> cvc_base c = base"

lemma wf_over_spends:
  "wf_over base c \<Longrightarrow> \<forall>op \<in> set ops. wf_outpoint op \<Longrightarrow> wf_over base (fold (\<lambda>op c. spend_coin_known c op) ops c)"
  by (induction ops arbitrary: c) (auto simp: wf_over_def cache_wf_spend)

lemma wf_over_adds:
  "wf_over base c \<Longrightarrow> \<forall>(op, coin) \<in> set cs. wf_outpoint op \<and> wf_coin coin \<Longrightarrow>
    wf_over base (fold (\<lambda>(op, coin) c. add_coin c op coin po) cs c)"
  by (induction cs arbitrary: c) (auto simp: wf_over_def cache_wf_add)

lemma tx_coins_wf:
  assumes "digest_sizes H" "list_all wf_txout (outputs tx)"
  shows "\<forall>(op, coin) \<in> set (tx_coins (txid H tx) (outputs tx) height cb). wf_outpoint op \<and> wf_coin coin"
  using assms
  by (auto simp: tx_coins_def wf_outpoint_def wf_coin_def coin_new_def txid_def digest_lengths list_all_iff
      dest!: in_set_enumerate_eq [THEN iffD1])

lemma wf_over_commit:
  assumes "digest_sizes H" "\<forall>tx \<in> set (transactions b). tx_sized tx" "transactions b \<noteq> []" "wf_over base c"
  shows "wf_over base (commit_block H b height (map spends (drop 1 (transactions b))) c)"
proof -
  have step: "wf_over base (fold (commit_tx H height) (map (\<lambda>tx. (tx, spends tx)) txs) c)"
    if "\<forall>tx \<in> set txs. tx_sized tx" "wf_over base c" for txs c
    using that
    by (induction txs arbitrary: c)
      (auto simp: commit_tx_def add_tx_coins_def tx_sized_def intro!: wf_over_adds wf_over_spends
        tx_coins_wf [OF assms(1)])
  have sized: "\<forall>tx \<in> set (drop 1 (transactions b)). tx_sized tx" using assms(2) by (auto dest: in_set_dropD)
  have first: "tx_sized (transactions b ! 0)" using assms(2,3) by simp
  show ?thesis
    using wf_over_adds [OF step [OF sized assms(4)] tx_coins_wf [OF assms(1)]] first
    by (simp add: commit_block_def zip_map_right Let_def add_tx_coins_def tx_sized_def)
qed

lemma connect_block_wf:
  assumes "connect_block H ec b height index_prev view params provider check_scripts engine = (Inr (fees, undo), view')"
    and "digest_sizes H" "\<forall>tx \<in> set (transactions b). tx_sized tx" "wf_over base view"
  shows "wf_over base view'"
proof -
  obtain st where st: "validate_block H ec b height index_prev (utxo view) params provider check_scripts engine = Inr st"
    "view' = set_best_block (commit_block H b height (validated_spends st) view) (block_hash H (header b)) height"
    using connect_block_Inr [OF assms(1)] by blast
  have "transactions b \<noteq> []" using check_block_facts(1) [OF validate_block_Inr(1) [OF st(1)]] .
  from wf_over_commit [OF assms(2,3) this assms(4)] show ?thesis
    by (simp add: st(2) validated_spends_new [OF st(1)] wf_over_def cache_wf_def set_best_block_def)
qed

subsection \<open>Blocks over the ledger of an actor\<close>

text \<open>The ledger an actor stands for, over the outpoints the store can name.\<close>

definition ledger_of :: "chainstate_manager \<Rightarrow> utxo_set" where
  "ledger_of cs = utxo (cache_view cs) |` Collect wf_outpoint"

definition cs_ok :: "chainstate_manager \<Rightarrow> bool" where
  "cs_ok cs \<longleftrightarrow> cache_ok (cache_view cs) \<and> wf_over (store_coins_view (cs_db cs)) (cache_view cs)"

text \<open>No output of the block exists already: the rule of BIP 30.\<close>

definition bip30 :: "digests \<Rightarrow> block \<Rightarrow> utxo_set \<Rightarrow> bool" where
  "bip30 H b u \<longleftrightarrow> created_by H b \<inter> dom u = {}"

primrec apply_blocks :: "digests \<Rightarrow> u32 \<Rightarrow> block list \<Rightarrow> utxo_set \<Rightarrow> utxo_set" where
  "apply_blocks H height [] u = u"
| "apply_blocks H height (b # bs) u = apply_blocks H (height + 1) bs (apply_block H height b u)"

primrec bip30_chain :: "digests \<Rightarrow> u32 \<Rightarrow> block list \<Rightarrow> utxo_set \<Rightarrow> bool" where
  "bip30_chain H height [] u \<longleftrightarrow> True"
| "bip30_chain H height (b # bs) u \<longleftrightarrow> bip30 H b u \<and> bip30_chain H (height + 1) bs (apply_block H height b u)"

lemma created_wf: "digest_sizes H \<Longrightarrow> dom (created H height cb tx) \<subseteq> Collect wf_outpoint"
  by (auto simp: created_def wf_outpoint_def txid_def digest_lengths split: if_splits)

lemma map_add_restrict: "dom v \<subseteq> W \<Longrightarrow> (u ++ v) |` W = (u |` W) ++ v"
  by (auto simp: restrict_map_def map_add_def fun_eq_iff split: option.splits)

lemma apply_tx_restrict:
  "digest_sizes H \<Longrightarrow> apply_tx H height tx u |` Collect wf_outpoint = apply_tx H height tx (u |` Collect wf_outpoint)"
  unfolding apply_tx_def map_add_restrict [OF created_wf] restrict_restrict by (simp add: Int_commute)

lemma apply_block_restrict:
  assumes "digest_sizes H"
  shows "apply_block H height b u |` Collect wf_outpoint = apply_block H height b (u |` Collect wf_outpoint)"
proof -
  have "fold (apply_tx H height) txs u |` Collect wf_outpoint = fold (apply_tx H height) txs (u |` Collect wf_outpoint)" for txs u
    by (induction txs arbitrary: u) (simp_all add: apply_tx_restrict [OF assms])
  then show ?thesis unfolding apply_block_def map_add_restrict [OF created_wf [OF assms]] by simp
qed

lemma bip30_ready:
  assumes "digest_sizes H" "cs_ok cs" "bip30 H b (ledger_of cs)"
  shows "ready (created_by H b) (cache_view cs)"
proof -
  have "utxo (cache_view cs) op = None" if op: "op \<in> created_by H b" for op
  proof -
    have "wf_outpoint op" using op created_wf [OF assms(1), of 0 False] unfolding created_by_def by blast
    then have "ledger_of cs op = utxo (cache_view cs) op" by (simp add: ledger_of_def)
    moreover have "op \<notin> dom (ledger_of cs)" using op assms(3) unfolding bip30_def by blast
    ultimately show ?thesis by (simp add: domIff)
  qed
  then show ?thesis
    using assms(2) unfolding ready_def cs_ok_def by (fastforce simp: cache_get_coin_def split: option.splits)
qed

lemma cache_wf_trim: "cache_wf c \<Longrightarrow> cache_wf (trim_to_budget c)"
  using trim_entries_subset [of "length (cvc_cache c) - cvc_max_entries c" "cvc_cache c"]
  by (auto simp: cache_wf_def trim_to_budget_def list_all_iff)

lemma cache_wf_clear_history: "cache_wf c \<Longrightarrow> cache_wf (clear_history c)"
  unfolding clear_history_def
  by (rule cache_wf_trim) (fastforce simp: cache_wf_def list_all_iff map_filter_def clean_entry_def split: if_splits)

lemma flush_if_due_keeps:
  assumes "cs_ok cs"
  shows "cs_ok (flush_if_due cs)" "ledger_of (flush_if_due cs) = ledger_of cs" "active_tip (flush_if_due cs) = active_tip cs"
    "last_failed_activation (flush_if_due cs) = last_failed_activation cs"
proof -
  obtain m c where f: "flush_cache (cs_store cs) (cache_view cs) = (m, c)" by (cases "flush_cache (cs_store cs) (cache_view cs)")
  have a: "cache_ok (cache_view cs)" "cache_wf (cache_view cs)" "cvc_base (cache_view cs) = store_coins_view (bm_backend (cs_store cs))"
    using assms by (simp_all add: cs_ok_def wf_over_def)
  note fl = flush_cache_correct [OF a f]
  have wf: "cache_wf c"
    using f a(2) cache_wf_clear_history by (auto simp: flush_cache_def Let_def cache_wf_def)
  show "cs_ok (flush_if_due cs)"
    using assms fl(1,2) wf f by (simp add: flush_if_due_def cs_ok_def wf_over_def)
  have "utxo c |` Collect wf_outpoint = utxo (cache_view cs) |` Collect wf_outpoint"
    using fl(3) by (auto simp: restrict_map_def fun_eq_iff)
  then show "ledger_of (flush_if_due cs) = ledger_of cs" using f by (simp add: flush_if_due_def ledger_of_def)
  show "active_tip (flush_if_due cs) = active_tip cs" "last_failed_activation (flush_if_due cs) = last_failed_activation cs"
    using f by (simp_all add: flush_if_due_def)
qed

lemma handle_store_undo_backend: "handle_store_undo m h undo = Inr m' \<Longrightarrow> bm_backend m' = bm_backend m"
  by (auto simp: handle_store_undo_def Let_def case_prod_beta elim!: and_then_InrE)

lemma connect_next_applies:
  assumes "connect_next H ec assumed now cs tip h b = (Connected tip', cs')"
    and "cs_ok cs" "digest_sizes H" "\<forall>tx \<in> set (transactions b). tx_sized tx" "bip30 H b (ledger_of cs)"
  shows "cs_ok cs'" "ledger_of cs' = apply_block H (bi_height tip + 1) b (ledger_of cs)"
    "active_tip cs' = Some (h, bi_height tip + 1)" "tip' = next_tip_index tip b" "last_failed_activation cs' = None"
proof -
  let ?n = "bi_height tip + 1"
  obtain fees undo view m where c:
    "connect_block H ec b ?n tip (cache_view cs) (cs_params cs) (get_block_index_by_height (cs_db cs))
      (scripts_due cs assumed ?n) (cs_engine cs) = (Inr (fees, undo), view)"
    "handle_store_undo (cs_store cs) h undo = Inr m" "tip' = next_tip_index tip b"
    and cs': "cs' = flush_if_due
      ((with_store m (cs\<lparr>cache_view := view, last_failed_activation := None\<rparr>))
        \<lparr>cache_view := set_best_block (view\<lparr>cvc_base := store_coins_view (bm_backend m)\<rparr>) h ?n,
         active_tip := Some (h, ?n), blocks_since_flush := blocks_since_flush cs + 1\<rparr>)"
    using assms(1) by (auto simp: connect_next_def Let_def with_store_def split: prod.splits sum.splits)
  have ok: "cache_ok (cache_view cs)" "wf_over (store_coins_view (cs_db cs)) (cache_view cs)"
    using assms(2) by (simp_all add: cs_ok_def)
  note app = connect_block_applies [OF c(1) bip30_ready [OF assms(3,2,5)]]
  note wf = connect_block_wf [OF c(1) assms(3,4) ok(2)]
  have m: "bm_backend m = cs_db cs" using handle_store_undo_backend [OF c(2)] .
  then have base: "view\<lparr>cvc_base := store_coins_view (bm_backend m)\<rparr> = view" using wf by (simp add: wf_over_def)
  let ?cs = "(with_store m (cs\<lparr>cache_view := view, last_failed_activation := None\<rparr>))
      \<lparr>cache_view := set_best_block view h ?n, active_tip := Some (h, ?n), blocks_since_flush := blocks_since_flush cs + 1\<rparr>"
  have "cs_ok ?cs"
    using app(2) wf m by (simp add: cs_ok_def wf_over_def with_store_def cache_wf_def set_best_block_def [of view] cache_ok_def)
  moreover have "ledger_of ?cs = apply_block H ?n b (ledger_of cs)"
    using app(1) apply_block_restrict [OF assms(3)] by (simp add: ledger_of_def)
  ultimately show "cs_ok cs'" "ledger_of cs' = apply_block H (bi_height tip + 1) b (ledger_of cs)"
    "active_tip cs' = Some (h, bi_height tip + 1)" "tip' = next_tip_index tip b" "last_failed_activation cs' = None"
    using flush_if_due_keeps [of ?cs] c(3) by (simp_all add: cs' base with_store_def)
qed

subsection \<open>Activation\<close>

text \<open>The blocks a run of the loop connects: each is loaded from the store and connected to the tip.\<close>

inductive connects :: "digests \<Rightarrow> secp \<Rightarrow> u32 option \<Rightarrow> chainstate_manager \<Rightarrow> block_index \<Rightarrow> block list \<Rightarrow>
    chainstate_manager \<Rightarrow> block_index \<Rightarrow> bool" for H ec assumed where
  connects_none: "connects H ec assumed cs tip [] cs tip"
| connects_block: "connects H ec assumed cs tip (b # bs) cs' tip'"
    if "next_hash cs (bi_height tip + 1) = (Some h, cs1)"
      "get_block (cs_db cs1) (bm_files (cs_store cs1)) h = Inr (Some raw)"
      "decode_block (decoder_new raw) = Inr (b, d)"
      "connect_next H ec assumed now cs1 tip h b = (Connected tip2, cs2)"
      "connects H ec assumed cs2 tip2 bs cs' tip'"

inductive_simps connects_Nil [simp]: "connects H ec assumed cs tip [] cs' tip'"

lemma activate_step_Connected:
  assumes "activate_step H ec assumed now cs tip = (Connected tip2, cs2)"
  obtains h cs1 raw b d where "next_hash cs (bi_height tip + 1) = (Some h, cs1)"
    "get_block (cs_db cs1) (bm_files (cs_store cs1)) h = Inr (Some raw)" "decode_block (decoder_new raw) = Inr (b, d)"
    "connect_next H ec assumed now cs1 tip h b = (Connected tip2, cs2)"
  using assms by (auto simp: activate_step_def split: prod.splits option.splits if_splits sum.splits)

lemma activate_loop_connects:
  assumes "activate_loop n H ec assumed now cs tip = (r, cs')"
  shows "\<exists>bs cs1 tip1. connects H ec assumed cs tip bs cs1 tip1 \<and> length bs \<le> n \<and>
    (length bs < n \<longrightarrow> (\<exists>k out. activate_step H ec assumed (now k) cs1 tip1 = (out, cs') \<and>
       (out = Stop \<and> r = Inr () \<or> (\<exists>e. out = Fail e \<and> r = Inl e)))) \<and>
    (length bs = n \<longrightarrow> cs' = cs1 \<and> r = Inr ())"
  using assms
proof (induction n arbitrary: cs tip)
  case 0
  then show ?case by (auto intro: connects_none)
next
  case (Suc n)
  obtain out cs2 where step: "activate_step H ec assumed (now n) cs tip = (out, cs2)"
    by (cases "activate_step H ec assumed (now n) cs tip")
  show ?case
  proof (cases out)
    case Stop
    with Suc.prems step have "cs' = cs2" "r = Inr ()" by simp_all
    with Stop step show ?thesis
      by (intro exI [of _ "[]"] exI [of _ cs] exI [of _ tip]) (auto intro: connects_none)
  next
    case (Fail e)
    with Suc.prems step have "cs' = cs2" "r = Inl e" by simp_all
    with Fail step show ?thesis
      by (intro exI [of _ "[]"] exI [of _ cs] exI [of _ tip]) (auto intro: connects_none)
  next
    case (Connected tip2)
    then have "activate_loop n H ec assumed now cs2 tip2 = (r, cs')" using Suc.prems step by simp
    from Suc.IH [OF this] obtain bs cs1 tip1 where bs: "connects H ec assumed cs2 tip2 bs cs1 tip1" "length bs \<le> n"
      "length bs < n \<longrightarrow> (\<exists>k out. activate_step H ec assumed (now k) cs1 tip1 = (out, cs') \<and>
         (out = Stop \<and> r = Inr () \<or> (\<exists>e. out = Fail e \<and> r = Inl e)))"
      "length bs = n \<longrightarrow> cs' = cs1 \<and> r = Inr ()" by blast
    obtain h csa raw b d where ld: "next_hash cs (bi_height tip + 1) = (Some h, csa)"
      "get_block (cs_db csa) (bm_files (cs_store csa)) h = Inr (Some raw)" "decode_block (decoder_new raw) = Inr (b, d)"
      "connect_next H ec assumed (now n) csa tip h b = (Connected tip2, cs2)"
      using activate_step_Connected [of H ec assumed "now n" cs tip tip2 cs2] step Connected by metis
    show ?thesis
      using connects_block [OF ld bs(1)] bs(2-4)
      by (intro exI [of _ "b # bs"] exI [of _ cs1] exI [of _ tip1]) simp
  qed
qed

lemma next_hash_keeps:
  assumes "next_hash cs height = (h, cs1)"
  shows "cs_ok cs1 = cs_ok cs" "ledger_of cs1 = ledger_of cs" "active_tip cs1 = active_tip cs"
    "last_failed_activation cs1 = last_failed_activation cs"
  using assms by (auto simp: next_hash_def cs_ok_def ledger_of_def split: option.splits)

lemma connects_applies:
  assumes "connects H ec assumed cs tip bs cs' tip'" "digest_sizes H" "cs_ok cs"
    and "bip30_chain H (bi_height tip + 1) bs (ledger_of cs)"
  shows "cs_ok cs' \<and> ledger_of cs' = apply_blocks H (bi_height tip + 1) bs (ledger_of cs) \<and>
    bi_height tip' = bi_height tip + word_of_nat (length bs) \<and>
    (bs \<noteq> [] \<longrightarrow> map_option snd (active_tip cs') = Some (bi_height tip'))"
  using assms
proof (induction rule: connects.induct)
  case (connects_block cs tip h cs1 raw b d now tip2 cs2 bs cs' tip')
  note n = next_hash_keeps [OF connects_block(1)]
  have step: "cs_ok cs2" "ledger_of cs2 = apply_block H (bi_height tip + 1) b (ledger_of cs)"
    "active_tip cs2 = Some (h, bi_height tip + 1)" "bi_height tip2 = bi_height tip + 1"
    using connect_next_applies [OF connects_block(4) _ \<open>digest_sizes H\<close> decode_block_sized [OF connects_block(3)]]
      connects_block.prems n by (simp_all add: next_tip_index_def)
  with connects_block.IH connects_block.prems connects_block(5) show ?case
    by (cases bs) (auto simp: add.assoc)
qed simp

lemma activating_irrelevant [simp]:
  "cs_ok (cs\<lparr>is_activating := v\<rparr>) = cs_ok cs" "ledger_of (cs\<lparr>is_activating := v\<rparr>) = ledger_of cs"
  "assume_valid_height (cs\<lparr>is_activating := v\<rparr>) = assume_valid_height cs"
  "current_tip H (cs\<lparr>is_activating := v\<rparr>) = current_tip H cs"
  by (simp_all add: cs_ok_def ledger_of_def assume_valid_height_def current_tip_def Let_def cong: option.case_cong)

lemma activate_step_Stop:
  assumes "activate_step H ec assumed now cs tip = (Stop, cs')" "last_failed_activation cs' = None"
  shows "cs_ok cs' = cs_ok cs" "ledger_of cs' = ledger_of cs" "active_tip cs' = active_tip cs"
proof -
  obtain h cs1 where h: "next_hash cs (bi_height tip + 1) = (h, cs1)" by (cases "next_hash cs (bi_height tip + 1)")
  have "connect_next H ec assumed now cs1 tip g b \<noteq> (Stop, cs')" for g b
    using assms(2) by (auto simp: connect_next_def Let_def split: prod.splits sum.splits)
  then have "cs' = cs1"
    using assms(1) h by (auto simp: activate_step_def split: option.splits if_splits sum.splits)
  with next_hash_keeps [OF h] show "cs_ok cs' = cs_ok cs" "ledger_of cs' = ledger_of cs" "active_tip cs' = active_tip cs"
    by simp_all
qed

text \<open>
  An activation that ends well and leaves no failed block behind has applied the blocks it
  connected, at most 128 of them; when it stopped before, the next round would connect nothing.
\<close>

lemma activation_run:
  assumes "activate_best_chain H ec now cs = (Inr (), cs')" "\<not> is_activating cs"
  obtains assumed tip bs cs1 tip1 cs2 where "assume_valid_height cs = Inr assumed" "current_tip H cs = Inr tip"
    "connects H ec assumed (cs\<lparr>is_activating := True\<rparr>) tip bs cs1 tip1" "length bs \<le> 128"
    "length bs = 128 \<Longrightarrow> cs2 = cs1"
    "length bs < 128 \<Longrightarrow> \<exists>k. activate_step H ec assumed (now k) cs1 tip1 = (Stop, cs2)"
    "cs' = cs2\<lparr>is_activating := False\<rparr>"
proof -
  from assms obtain assumed tip cs2 where a: "assume_valid_height cs = Inr assumed" "current_tip H cs = Inr tip"
    "activate_loop ACTIVATE_BATCH_SIZE H ec assumed now (cs\<lparr>is_activating := True\<rparr>) tip = (Inr (), cs2)"
    "cs' = cs2\<lparr>is_activating := False\<rparr>"
    by (auto simp: activate_best_chain_def activate_best_chain_inner_def split: prod.splits sum.splits)
  from activate_loop_connects [OF a(3)] a that show thesis by (fastforce simp: ACTIVATE_BATCH_SIZE_def)
qed

lemma activate_best_chain_applies:
  assumes "activate_best_chain H ec now cs = (Inr (), cs')" "\<not> is_activating cs" "cs_ok cs" "digest_sizes H"
    and "last_failed_activation cs' = None"
  shows "\<exists>assumed tip bs cs1 tip1. assume_valid_height cs = Inr assumed \<and> current_tip H cs = Inr tip \<and>
    connects H ec assumed (cs\<lparr>is_activating := True\<rparr>) tip bs cs1 tip1 \<and> length bs \<le> 128 \<and>
    (length bs < 128 \<longrightarrow> (\<exists>k cs2. activate_step H ec assumed (now k) cs1 tip1 = (Stop, cs2))) \<and>
    (bip30_chain H (bi_height tip + 1) bs (ledger_of cs) \<longrightarrow>
      cs_ok cs' \<and> ledger_of cs' = apply_blocks H (bi_height tip + 1) bs (ledger_of cs) \<and>
      (bs \<noteq> [] \<longrightarrow> map_option snd (active_tip cs') = Some (bi_height tip + word_of_nat (length bs))))"
proof -
  obtain assumed tip bs cs1 tip1 cs2 where a: "assume_valid_height cs = Inr assumed" "current_tip H cs = Inr tip"
    "connects H ec assumed (cs\<lparr>is_activating := True\<rparr>) tip bs cs1 tip1" "length bs \<le> 128"
    "length bs = 128 \<Longrightarrow> cs2 = cs1"
    "length bs < 128 \<Longrightarrow> \<exists>k. activate_step H ec assumed (now k) cs1 tip1 = (Stop, cs2)"
    "cs' = cs2\<lparr>is_activating := False\<rparr>"
    using activation_run [OF assms(1,2)] by metis
  have same: "cs_ok cs' = cs_ok cs1" "ledger_of cs' = ledger_of cs1" "active_tip cs' = active_tip cs1"
    using activate_step_Stop [of H ec assumed _ cs1 tip1 cs2] a(4-7) assms(5) by (cases "length bs = 128"; force)+
  have "cs_ok cs' \<and> ledger_of cs' = apply_blocks H (bi_height tip + 1) bs (ledger_of cs) \<and>
      (bs \<noteq> [] \<longrightarrow> map_option snd (active_tip cs') = Some (bi_height tip + word_of_nat (length bs)))"
    if "bip30_chain H (bi_height tip + 1) bs (ledger_of cs)"
    using connects_applies [OF a(3) assms(4)] assms(3) that same by auto
  with a show ?thesis by blast
qed

subsection \<open>The headers tip\<close>

text \<open>The tip is an indexed header, and no indexed header has more work.\<close>

definition most_work :: "database \<Rightarrow> bool" where
  "most_work db \<longleftrightarrow> (\<exists>tip i. get_headers_tip db = Inr (Some tip) \<and> get_block_index db tip = Inr (Some i) \<and>
     (\<forall>h j. get_block_index db h = Inr (Some j) \<longrightarrow> wf_hash (chain_work j) \<and> le_nat (chain_work j) \<le> le_nat (chain_work i)))"

lemma with_store_store [simp]: "cs_store (with_store m cs) = m"
  by (simp add: with_store_def)

lemma put_block_index_reads:
  assumes "wf_block_index i"
  shows "get_block_index (put_block_index h i db) h' = (if h' = h then Inr (Some i) else get_block_index db h')"
    "get_headers_tip (put_block_index h i db) = get_headers_tip db"
  using get_block_index_stored [OF assms, of "put_block_index h i db" h]
  by (simp_all add: get_block_index_def put_block_index_get get_headers_tip_def get_hash_def put_block_index_def)

lemma headers_tip_reads:
  assumes "wf_hash h"
  shows "get_block_index (bm_backend (handle_update_headers_tip m h)) h' = get_block_index (bm_backend m) h'"
    "get_headers_tip (bm_backend (handle_update_headers_tip m h)) = Inr (Some h)"
  using assms by (simp_all add: get_block_index_def get_headers_tip_def get_hash_def handle_update_headers_tip_def wf_hash_def)

lemma work_of_wf: "most_work db \<Longrightarrow> work_of db h = Inr w \<Longrightarrow> wf_hash w"
  by (auto simp: most_work_def work_of_def tip_index_def index_work_def elim!: and_then_InrE split: option.splits)

lemma process_header_new:
  assumes "most_work (cs_db cs)" "digest_sizes H" "wf_header hdr"
    and "get_block_index (cs_db cs) (block_hash H hdr) = Inr None"
    and "(if is_zero (prev_hash hdr) then Inr hash_ZERO else work_of (cs_db cs) (Some (prev_hash hdr))) = Inr prev_work"
  shows "most_work (cs_db (snd (process_header H cs hdr height)))"
proof -
  let ?h = "block_hash H hdr"
  let ?w = "add_chain_work prev_work (calculate_block_work (bh_bits hdr))"
  let ?i = "\<lparr>bi_header = hdr, bi_height = height, chain_work = ?w, file_pos = None, undo_pos = None\<rparr>"
  let ?db = "put_block_index ?h ?i (cs_db cs)"
  have wh: "wf_hash ?h" using assms(2) by (simp add: block_hash_def wf_hash_simps)
  have wp: "wf_hash prev_work"
    using assms(5) work_of_wf [OF assms(1)] by (auto simp: wf_hash_simps split: if_splits)
  have ww: "wf_hash ?w" using add_chain_work_value [OF wp block_work_value(2)] by blast
  have wi: "wf_block_index ?i" using assms(3) ww by (simp add: wf_block_index_def)
  note r = put_block_index_reads [OF wi]
  from assms(1) obtain tip i where t: "get_headers_tip (cs_db cs) = Inr (Some tip)" "get_block_index (cs_db cs) tip = Inr (Some i)"
    "\<And>h j. get_block_index (cs_db cs) h = Inr (Some j) \<Longrightarrow> wf_hash (chain_work j) \<and> le_nat (chain_work j) \<le> le_nat (chain_work i)"
    by (auto simp: most_work_def)
  have ne: "tip \<noteq> ?h" using t(2) assms(4) by auto
  have gt: "hash_gt ?w (chain_work i) \<longleftrightarrow> le_nat (chain_work i) < le_nat ?w" using hash_gt_numeric ww t(2,3) by blast
  let ?cs = "with_store (handle_store_block_index (cs_store cs) ?h ?i) cs"
  have p: "snd (process_header H cs hdr height) = (if hash_gt ?w (chain_work i) then cs_update_headers_tip (Some ?h) ?cs else ?cs)"
    using assms(4,5) t ne
    by (simp add: process_header_def Let_def work_of_def tip_index_def index_work_def handle_store_block_index_def r)
  show ?thesis
  proof (cases "hash_gt ?w (chain_work i)")
    case True
    with gt have lt: "le_nat (chain_work i) < le_nat ?w" by blast
    have "wf_hash (chain_work j) \<and> le_nat (chain_work j) \<le> le_nat ?w" if "get_block_index ?db h = Inr (Some j)" for h j
      using that ww lt t(3) [of h j] by (auto simp: r split: if_splits)
    then show ?thesis
      using True by (auto simp: p most_work_def cs_update_headers_tip_def headers_tip_reads [OF wh] handle_store_block_index_def r)
  next
    case False
    with gt ww t ne show ?thesis
      by (auto simp: p most_work_def handle_store_block_index_def r)
  qed
qed

lemma process_header_most_work:
  assumes "most_work (cs_db cs)" "digest_sizes H" "wf_header hdr"
  shows "most_work (cs_db (snd (process_header H cs hdr height)))"
proof (cases "get_block_index (cs_db cs) (block_hash H hdr) = Inr None \<and>
    (\<exists>w. (if is_zero (prev_hash hdr) then Inr hash_ZERO else work_of (cs_db cs) (Some (prev_hash hdr))) = Inr w)")
  case True
  then show ?thesis using process_header_new [OF assms] by blast
next
  case False
  then have "snd (process_header H cs hdr height) = cs"
    unfolding process_header_def Let_def by (auto split: sum.splits option.splits)
  with assms(1) show ?thesis by simp
qed

lemma load_genesis_most_work:
  assumes "\<And>h. get_block_index (cs_db cs) h = Inr None" "digest_sizes H" "wf_header (genesis_header params)"
  shows "most_work (cs_db (snd (load_genesis_block H params cs)))"
proof -
  let ?h = "genesis_hash H params"
  let ?w = "calculate_block_work (bh_bits (genesis_header params))"
  let ?i = "\<lparr>bi_header = genesis_header params, bi_height = 0, chain_work = ?w, file_pos = None, undo_pos = None\<rparr>"
  let ?cs = "snd (load_genesis_block H params cs)"
  have wh: "wf_hash ?h" using assms(2) by (simp add: genesis_hash_def block_hash_def wf_hash_simps)
  have wi: "wf_block_index ?i" using assms(3) block_work_value(2) by (simp add: wf_block_index_def)
  note r = put_block_index_reads [OF wi]
  have "get_block_index (cs_db ?cs) h = (if h = ?h then Inr (Some ?i) else Inr None)" for h
    using r(1) [of ?h "cs_db cs" h] assms(1)
    by (simp add: load_genesis_block_def Let_def handle_update_active_tip_def handle_update_header_index_def
        handle_update_headers_tip_def handle_store_block_index_def get_block_index_def)
  moreover have "get_headers_tip (cs_db ?cs) = Inr (Some ?h)"
    using wh assms(1)
    by (simp add: load_genesis_block_def Let_def handle_update_active_tip_def handle_update_header_index_def
        handle_update_headers_tip_def get_headers_tip_def get_hash_def wf_hash_def)
  ultimately show ?thesis
    using block_work_value(2) by (auto simp: most_work_def)
qed

lemma headers_most_work:
  assumes "digest_sizes H" "\<forall>(hdr, height) \<in> set hs. wf_header hdr" "most_work (cs_db cs)"
  shows "most_work (cs_db (snd (handle_chainstate_msgs H ec cs (map (\<lambda>(hdr, height). ProcessHeader hdr height) hs))))"
  using assms(2,3)
proof (induction hs arbitrary: cs)
  case (Cons x hs)
  obtain hdr height where x: "x = (hdr, height)" by (cases x)
  with Cons process_header_most_work [OF _ assms(1), of cs hdr height] show ?case
    by (simp add: case_prod_beta)
qed simp

end
