(* ===== verification/Samples.thy ===== *)
theory Samples
  imports Activation "HOL-Library.Code_Target_Numeral"
begin

text \<open>
  Concrete values at which the witnesses of the properties are evaluated, and the facts about
  them that several witnesses share.
\<close>

subsection \<open>Sample values for the witnesses\<close>

definition sample_txin :: tx_in where
  "sample_txin = \<lparr>previous_output = \<lparr>op_txid = replicate 32 7, op_vout = 1\<rparr>, script_sig = [0x51],
     sequence = 0xFFFFFFFF, witness = [[1, 2], []]\<rparr>"

definition sample_tx :: transaction where
  "sample_tx = \<lparr>tx_version = 2, inputs = [sample_txin],
     outputs = [\<lparr>out_value = 5000, script_pubkey = [0x51, 0x87]\<rparr>], lock_time = 0\<rparr>"

definition sample_digests :: digests where
  "sample_digests = \<lparr>Sha256_digest = (\<lambda>d. take 32 (d @ replicate 32 (word_of_nat (length d)))),
     Ripemd160_digest = (\<lambda>d. take 20 (d @ replicate 20 0)), Sha1_digest = (\<lambda>d. take 20 (d @ replicate 20 1))\<rparr>"

definition sample_header :: block_header where
  "sample_header = \<lparr>bh_version = 1, prev_hash = replicate 32 1, merkle_root = replicate 32 2,
     bh_time = 2000000, bh_bits = 0x1d00ffff, bh_nonce = 7\<rparr>"

definition sample_index :: block_index where
  "sample_index = \<lparr>bi_header = sample_header, bi_height = 2015, chain_work = replicate 32 0,
     file_pos = Some (FlatFilePos 0 8), undo_pos = None\<rparr>"

definition mainnet_like :: consensus_params where
  "mainnet_like = \<lparr>bip34_height = 227931, bip65_height = 388381, bip66_height = 363725, segwit_height = 481824,
     pow_limit = replicate 28 0xFF @ [0, 0, 0, 0], pow_target_spacing = 600, pow_target_timespan = 1209600,
     pow_no_retargeting = False, f_pow_allow_min_difficulty_blocks = False, n_subsidy_halving_interval = 210000,
     n_minimum_chain_work = replicate 32 0, default_assume_valid = replicate 32 0,
     signet_blocks = False, signet_challenge = []\<rparr>"

lemma sample_tx_wf: "wf_tx sample_tx"
  by (simp add: sample_tx_def sample_txin_def wf_tx_def wf_list_def wf_txin_def wf_outpoint_def
      wf_txout_def wf_varbytes_def MAX_WIRE_ALLOCATION_def MAX_MESSAGE_SIZE_def)

lemma sample_header_wf: "wf_header sample_header"
  by (simp add: sample_header_def wf_header_def wf_hash_def)

lemma sample_digest_sizes: "digest_sizes sample_digests"
  by (simp add: sample_digests_def digest_sizes_def min_def)

text \<open>A checker that accepts a signature equal to the key it is checked against.\<close>

definition sample_checker :: signature_checker where
  "sample_checker = null_signature_checker\<lparr>check_ecdsa_signature := (\<lambda>sig key sc sv. sig = key)\<rparr>"

definition sample_env :: "bytes \<Rightarrow> eval_env" where
  "sample_env script = \<lparr>env_H = sample_digests, env_script = script, env_flags = FLAG_P2SH OR FLAG_WITNESS,
     env_checker = sample_checker, env_sv = Base\<rparr>"

text \<open>Curve operations that accept nothing, and a script that takes a branch.\<close>

definition sample_secp :: secp where
  "sample_secp = \<lparr>pubkey_from_slice_ok = (\<lambda>_. False), signature_from_der_lax_ok = (\<lambda>_. False),
     verify_ecdsa = (\<lambda>_ _ _. False), xonly_from_slice_ok = (\<lambda>_. False), schnorr_from_slice_ok = (\<lambda>_. False),
     verify_schnorr = (\<lambda>_ _ _. False), scalar_from_be_bytes_ok = (\<lambda>_. False),
     tweak_add_check = (\<lambda>_ _ _ _. False)\<rparr>"

definition branch_script :: bytes where
  "branch_script = [0x51, 0x63, 0x52, 0x68]"

lemma branch_script_runs:
  "eval_script_with_data (sample_env branch_script) [] exec_data_new = Inr ([[2]], exec_data_new)"
  by code_simp

text \<open>The key \<open>[2]\<close> hashes to \<open>key_program\<close> under the sample digests.\<close>

definition key_program :: bytes where
  "key_program = 2 # replicate 19 1"

definition key_output :: bytes where
  "key_output = [0x00, 0x14] @ key_program"

lemma key_output_spends:
  "verify_script sample_digests sample_secp [] key_output [[2], [2]] (FLAG_P2SH OR FLAG_WITNESS) sample_checker = Inr ()"
  by code_simp

subsection \<open>A block that connects\<close>

text \<open>
  A coinbase that claims the subsidy and the fee, and a transaction that spends an existing coin;
  the spent coin needs no signature.
\<close>

definition prior_outpoint :: out_point where
  "prior_outpoint = \<lparr>op_txid = replicate 32 9, op_vout = 0\<rparr>"

definition prior_coin :: coin where
  "prior_coin = coin_new \<lparr>out_value = 1000, script_pubkey = [0x51]\<rparr> 0 False"

definition prior_view :: coins_view where
  "prior_view = \<lparr>view_get_coin = (\<lambda>op. if op = prior_outpoint then Some prior_coin else None), view_get_best_block = None\<rparr>"

definition sample_coinbase :: transaction where
  "sample_coinbase = \<lparr>tx_version = 1,
     inputs = [\<lparr>previous_output = \<lparr>op_txid = hash_ZERO, op_vout = 0xFFFFFFFF\<rparr>, script_sig = [0x51, 0x51],
       sequence = 0xFFFFFFFF, witness = []\<rparr>],
     outputs = [\<lparr>out_value = 5000000100, script_pubkey = [0x51]\<rparr>], lock_time = 0\<rparr>"

definition sample_spend :: transaction where
  "sample_spend = \<lparr>tx_version = 2,
     inputs = [\<lparr>previous_output = prior_outpoint, script_sig = [], sequence = 0xFFFFFFFF, witness = []\<rparr>],
     outputs = [\<lparr>out_value = 900, script_pubkey = [0x51]\<rparr>], lock_time = 0\<rparr>"

definition sample_block :: block where
  "sample_block = \<lparr>header = \<lparr>bh_version = 1, prev_hash = replicate 32 0, merkle_root = txid sample_digests sample_coinbase,
       bh_time = 0, bh_bits = 0x207fffff, bh_nonce = 0\<rparr>, transactions = [sample_coinbase, sample_spend]\<rparr>"

definition regtest_like :: chain_params where
  "regtest_like = \<lparr>genesis_header = header sample_block,
     consensus = mainnet_like\<lparr>bip34_height := 500, segwit_height := 500, pow_no_retargeting := True\<rparr>,
     cp_magic = MAGIC_REGTEST, default_port = 18444, bech32_hrp = ''bcrt'', base58_prefixes = test_prefixes, dns_seeds = []\<rparr>"

definition sample_prev :: block_index where
  "sample_prev = \<lparr>bi_header = header sample_block, bi_height = 0, chain_work = replicate 32 0, file_pos = None, undo_pos = None\<rparr>"

abbreviation sample_view :: coins_view_cache where
  "sample_view \<equiv> cache_new prior_view 1000"

lemma sample_check_block: "check_block sample_digests sample_secp sample_block regtest_like = Inr ()"
  by code_simp

lemma sample_check_header:
  "check_block_header sample_digests (header sample_block) sample_prev regtest_like (\<lambda>_. None) = Inr ()"
  by code_simp

lemma sample_connect_txs:
  "map_sum id (\<lambda>s. (total_fees s, undo_coins s, script_jobs s))
     (fold_res (connect_tx sample_digests (utxo sample_view) 1 True) connect_state_new (drop 1 (transactions sample_block))) =
   Inr (100, [prior_coin], [(sample_spend, [prior_coin])])"
  by code_simp

lemma sample_verifies: "verify_transaction sample_digests sample_secp (engine_new Native) sample_spend [prior_coin] = Inr ()"
  by code_simp

lemma sample_coinbase_value: "check_coinbase_value sample_block 1 regtest_like 100 = Inr ()"
  by code_simp

lemma sample_block_connects:
  "\<exists>view'. connect_block sample_digests sample_secp sample_block 1 sample_prev sample_view regtest_like (\<lambda>_. None)
     True (engine_new Native) = (Inr (100, [prior_coin]), view')"
proof -
  obtain st where st: "fold_res (connect_tx sample_digests (utxo sample_view) 1 True) connect_state_new
      (drop 1 (transactions sample_block)) = Inr st" "total_fees st = 100" "undo_coins st = [prior_coin]"
    "script_jobs st = [(sample_spend, [prior_coin])]"
    using sample_connect_txs
    by (cases "fold_res (connect_tx sample_digests (utxo sample_view) 1 True) connect_state_new (drop 1 (transactions sample_block))")
      auto
  have heights: "\<not> bip34_height (consensus regtest_like) \<le> 1" "\<not> segwit_height (consensus regtest_like) \<le> 1"
    by code_simp+
  have "validate_block sample_digests sample_secp sample_block 1 sample_prev (utxo sample_view) regtest_like (\<lambda>_. None)
      True (engine_new Native) = Inr st"
    using st heights by (simp add: validate_block_def sample_check_block sample_check_header sample_verifies)
  then show ?thesis using st(2,3) by (simp add: connect_block_def Let_def sample_coinbase_value)
qed

lemma sample_view_ready: "ready (created_by sample_digests sample_block) sample_view"
proof -
  have ids: "op_txid prior_outpoint \<noteq> txid sample_digests sample_coinbase"
    "op_txid prior_outpoint \<noteq> txid sample_digests sample_spend" by code_simp+
  have "set (transactions sample_block) = {sample_coinbase, sample_spend}" by (simp add: sample_block_def)
  then have "prior_outpoint \<notin> created_by sample_digests sample_block"
    using ids by (simp add: created_by_def created_def domIff)
  then have "view_get_coin prior_view op = None" if "op \<in> created_by sample_digests sample_block" for op
    using that by (auto simp: prior_view_def)
  moreover have "cvc_base sample_view = prior_view" by (simp add: cache_new_def)
  ultimately show ?thesis unfolding ready_def using cache_new_ok(1) by metis
qed

lemma sample_view_finite: "finite (dom (utxo sample_view))"
proof -
  have "dom (utxo sample_view) \<subseteq> {prior_outpoint}"
    by (auto simp: cache_new_ok(2) prior_view_def split: if_splits)
  then show ?thesis by (rule finite_subset) simp
qed

subsection \<open>A chainstate with a block to connect\<close>

definition next_block :: block where
  "next_block = \<lparr>header = (header sample_block)\<lparr>bh_version := 2\<rparr>,
     transactions = [sample_coinbase\<lparr>outputs := [\<lparr>out_value = 5000000000, script_pubkey = [0x51]\<rparr>]\<rparr>]\<rparr>"

definition genesis_id :: hash where
  "genesis_id = 1 # replicate 31 0"

definition next_id :: hash where
  "next_id = 2 # replicate 31 0"

definition next_raw :: bytes where
  "next_raw = serialize encode_block next_block"

definition next_index :: block_index where
  "next_index = \<lparr>bi_header = header next_block, bi_height = 1, chain_work = replicate 32 0,
     file_pos = Some (FlatFilePos 0 8), undo_pos = None\<rparr>"

definition waiting_db :: database where
  "waiting_db t =
     (if t = BLOCK_INDEX then
        [(block_key genesis_id, serialize encode_block_index sample_prev),
         (block_key next_id, serialize encode_block_index next_index)]
      else [])"

definition waiting_store :: block_manager where
  "waiting_store = block_manager_new waiting_db
     \<lparr>bfm_blocks = \<lparr>ffs_files = (\<lambda>_. Some (record_bytes [1, 2, 3, 4] next_raw)), ffs_chunk_size = 256\<rparr>,
      bfm_undo = \<lparr>ffs_files = (\<lambda>_. None), ffs_chunk_size = 16\<rparr>, bfm_magic = [1, 2, 3, 4],
      bfm_current_file = 0, bfm_current_size = 200\<rparr>"

definition waiting_chainstate :: chainstate_manager where
  "waiting_chainstate =
     (chainstate_new waiting_store regtest_like 1000 (engine_new Native) True)\<lparr>waiting_blocks := [1 \<mapsto> next_id]\<rparr>"

lemma sample_ids: "genesis_hash sample_digests regtest_like = genesis_id" "block_hash sample_digests (header next_block) = next_id"
  by code_simp+

lemma sample_coinbase_root: "wf_hash (txid sample_digests sample_coinbase)"
  using sample_digest_sizes by (simp add: txid_def)

lemma next_block_wf: "wf_block next_block"
  using sample_coinbase_root
  by (simp add: next_block_def sample_block_def sample_coinbase_def wf_block_def wf_header_def wf_hash_def hash_ZERO_def
      wf_list_def wf_tx_def wf_txin_def wf_outpoint_def wf_varbytes_def wf_txout_def MAX_WIRE_ALLOCATION_def MAX_MESSAGE_SIZE_def)

lemma sample_indexes_wf: "wf_block_index sample_prev" "wf_block_index next_index"
  using sample_coinbase_root
  by (simp_all add: sample_prev_def next_index_def next_block_def sample_block_def wf_block_index_def wf_header_def wf_hash_def)

lemma waiting_index: "get_block_index waiting_db genesis_id = Inr (Some sample_prev)" "get_block_index waiting_db next_id = Inr (Some next_index)"
  using sample_indexes_wf
  by (auto intro!: get_block_index_stored simp: waiting_db_def db_get_def genesis_id_def next_id_def)

lemma next_raw_length: "length next_raw < 2 ^ 32"
  by code_simp

lemma waiting_loads: "get_block waiting_db (bm_files waiting_store) next_id = Inr (Some next_raw)"
proof -
  have "read_block (bm_files waiting_store) (FlatFilePos 0 8) = Inr next_raw"
    using next_raw_length
    by (auto simp: waiting_store_def block_manager_new_def read_block_def record_at_def record_bytes_eq read_at_def
        intro!: read_record_record_at)
  then show ?thesis by (simp add: get_block_def waiting_index next_index_def)
qed

lemma waiting_decodes: "\<exists>d. decode_block (decoder_new next_raw) = Inr (next_block, d)"
  using block.dec_enc [of "decoder_new next_raw" next_block "[]"] next_block_wf
  by (simp add: next_raw_def serialize_def)

lemma waiting_checks: "check_block sample_digests sample_secp next_block regtest_like = Inr ()"
  by code_simp

lemma waiting_pow: "meets_target sample_digests (header next_block)"
  by code_simp

lemma waiting_value: "check_coinbase_value next_block 1 regtest_like amount_ZERO = Inr ()"
  by code_simp

lemma waiting_undo: "map_sum id (\<lambda>_. ()) (handle_store_undo waiting_store next_id []) = Inr ()"
  by code_simp

lemma waiting_connects:
  "\<exists>view'. connect_block sample_digests sample_secp next_block 1 sample_prev view regtest_like provider True engine =
     (Inr (amount_ZERO, []), view')"
proof -
  have h: "\<not> bip34_height (consensus regtest_like) \<le> 1" "\<not> segwit_height (consensus regtest_like) \<le> 1"
    by code_simp+
  have "get_next_work_required sample_prev (header next_block) (consensus regtest_like) provider = Some (bh_bits (header next_block))"
    by (simp add: get_next_work_required_def regtest_like_def sample_prev_def next_block_def)
  then have hd: "check_block_header sample_digests (header next_block) sample_prev regtest_like provider = Inr ()"
    by (simp add: check_block_header_Inr waiting_pow)
  have "drop 1 (transactions next_block) = []" by (simp add: next_block_def)
  then have "validate_block sample_digests sample_secp next_block 1 sample_prev (utxo view) regtest_like provider True engine =
      Inr connect_state_new"
    using h hd by (simp add: validate_block_def waiting_checks connect_state_new_def)
  then show ?thesis by (simp add: connect_block_def Let_def connect_state_new_def waiting_value)
qed

lemma waiting_ok: "cs_ok waiting_chainstate"
  by (simp add: waiting_chainstate_def chainstate_new_def cs_ok_def wf_over_def cache_ok_def cache_wf_def cache_new_def)

lemma waiting_no_hash: "ok_flatten (get_block_hash waiting_db h) = None" "ok_flatten (get_block_hash_by_header_height waiting_db h) = None"
  by (simp_all add: get_block_hash_def get_block_hash_by_header_height_def get_hash_def waiting_db_def db_get_def ok_flatten_def)

text \<open>The state after the block was connected.\<close>

definition after_next :: "coins_view_cache \<Rightarrow> block_manager \<Rightarrow> chainstate_manager" where
  "after_next view m = (with_store m (waiting_chainstate\<lparr>is_activating := True, waiting_blocks := Map.empty, cache_view := view, last_failed_activation := None\<rparr>))
     \<lparr>cache_view := set_best_block (view\<lparr>cvc_base := store_coins_view (bm_backend m)\<rparr>) next_id 1, active_tip := Some (next_id, 1), blocks_since_flush := 1\<rparr>"

lemma waiting_first_step:
  "\<exists>view m. activate_step sample_digests sample_secp None t (waiting_chainstate\<lparr>is_activating := True\<rparr>) sample_prev =
     (Connected (next_tip_index sample_prev next_block), after_next view m) \<and> bm_backend m = waiting_db"
proof -
  let ?cs = "waiting_chainstate\<lparr>is_activating := True, waiting_blocks := Map.empty\<rparr>"
  have n: "next_hash (waiting_chainstate\<lparr>is_activating := True\<rparr>) 1 = (Some next_id, ?cs)"
    by (simp add: next_hash_def waiting_chainstate_def)
  have f: "\<not> recently_failed ?cs 1 next_id t" by (simp add: recently_failed_def waiting_chainstate_def chainstate_new_def)
  obtain d where d: "decode_block (decoder_new next_raw) = Inr (next_block, d)" using waiting_decodes by blast
  have due: "scripts_due ?cs None 1" by (simp add: scripts_due_def waiting_chainstate_def chainstate_new_def)
  obtain view where v: "connect_block sample_digests sample_secp next_block 1 sample_prev (cache_view ?cs) regtest_like
      (get_block_index_by_height (cs_db ?cs)) True (cs_engine ?cs) = (Inr (amount_ZERO, []), view)"
    using waiting_connects by blast
  obtain m where m: "handle_store_undo waiting_store next_id [] = Inr m"
    using waiting_undo by (cases "handle_store_undo waiting_store next_id []") auto
  have h: "bi_height sample_prev + 1 = 1" by (simp add: sample_prev_def)
  have st: "cs_store ?cs = waiting_store" "cs_db ?cs = waiting_db" "cs_params ?cs = regtest_like" "blocks_since_flush ?cs = 0"
    by (simp_all add: waiting_chainstate_def chainstate_new_def waiting_store_def block_manager_new_def)
  have small: "\<not> (1024 :: u32) \<le> 1" by (simp add: word_le_nat_alt)
  have c: "connect_next sample_digests sample_secp None t ?cs sample_prev next_id next_block =
      (Connected (next_tip_index sample_prev next_block), after_next view m)"
    using v m h st due small
    by (simp add: connect_next_def Let_def flush_if_due_def FLUSH_INTERVAL_BLOCKS_def with_store_def after_next_def)
  have "activate_step sample_digests sample_secp None t (waiting_chainstate\<lparr>is_activating := True\<rparr>) sample_prev =
      connect_next sample_digests sample_secp None t ?cs sample_prev next_id next_block"
    using n f d st waiting_loads by (simp add: activate_step_def h)
  with c handle_store_undo_backend [OF m] st show ?thesis by auto
qed

lemma waiting_second_step:
  assumes "bm_backend m = waiting_db"
  shows "activate_step sample_digests sample_secp None t (after_next view m) (next_tip_index sample_prev next_block) = (Stop, after_next view m)"
proof -
  have "next_hash (after_next view m) (bi_height (next_tip_index sample_prev next_block) + 1) = (None, after_next view m)"
    using waiting_no_hash assms by (simp add: next_hash_def after_next_def with_store_def)
  then show ?thesis by (simp add: activate_step_def)
qed

lemma waiting_start: "assume_valid_height waiting_chainstate = Inr None" "current_tip sample_digests waiting_chainstate = Inr sample_prev"
proof -
  show "assume_valid_height waiting_chainstate = Inr None"
    by (simp add: assume_valid_height_def waiting_chainstate_def chainstate_new_def regtest_like_def mainnet_like_def is_zero_def Let_def list_all_iff)
  have "get_best_block waiting_db = Inr None" by (simp add: get_best_block_def get_hash_def waiting_db_def db_get_def)
  then show "current_tip sample_digests waiting_chainstate = Inr sample_prev"
    by (simp add: current_tip_def waiting_chainstate_def chainstate_new_def cache_get_best_block_def cache_new_def
        store_coins_view_def ok_flatten_def waiting_store_def block_manager_new_def sample_ids waiting_index Let_def)
qed

lemma waiting_activates:
  "\<exists>view m. activate_best_chain sample_digests sample_secp (\<lambda>_. 0) waiting_chainstate = (Inr (), (after_next view m)\<lparr>is_activating := False\<rparr>)"
proof -
  obtain view m where s: "activate_step sample_digests sample_secp None 0 (waiting_chainstate\<lparr>is_activating := True\<rparr>) sample_prev =
     (Connected (next_tip_index sample_prev next_block), after_next view m)" "bm_backend m = waiting_db" using waiting_first_step by blast
  have "activate_loop (Suc (Suc k)) sample_digests sample_secp None (\<lambda>_. 0) (waiting_chainstate\<lparr>is_activating := True\<rparr>) sample_prev =
      (Inr (), after_next view m)" for k
    using s waiting_second_step [OF s(2)] by simp
  from this [of 126] have "activate_loop ACTIVATE_BATCH_SIZE sample_digests sample_secp None (\<lambda>_. 0)
      (waiting_chainstate\<lparr>is_activating := True\<rparr>) sample_prev = (Inr (), after_next view m)"
    by (simp add: ACTIVATE_BATCH_SIZE_def)
  moreover
  have "\<not> is_activating waiting_chainstate" by (simp add: waiting_chainstate_def chainstate_new_def)
  ultimately show ?thesis
    using waiting_start by (auto simp: activate_best_chain_def activate_best_chain_inner_def)
qed

end
