(* ===== verification/ScriptSpec.thy ===== *)
theory ScriptSpec
  imports Samples
begin

text \<open>
  The properties of the script engine: number and push encodings, signature encodings, the limits
  every execution keeps, and what the standard spends require.
\<close>

section \<open>Encodings\<close>

text \<open>Script numbers.  Decoding inverts encoding for every integer, a byte string is accepted as
  minimal exactly when it is the encoding of the number it denotes, and a byte string is true exactly
  when that number is not zero.\<close>

theorem script_number_roundtrip:
  "decode_unchecked (num_encode v) = v \<and>
   (is_minimally_encoded bs \<longleftrightarrow> num_encode (decode_unchecked bs) = bs) \<and>
   (cast_to_bool bs \<longleftrightarrow> decode_unchecked bs \<noteq> 0)"
  using num_encode_minimal_value [of v] num_encode_minimal_value [of "decode_unchecked bs"] num_encode_decode [of bs]
    cast_to_bool_iff_nonzero [of bs] by metis

text \<open>Scripts built from pushes.  Whatever byte strings are pushed, parsing the script gives back
  exactly those strings under the shortest push opcodes, the parsed instructions tile the script, and
  the script counts as push only.\<close>

theorem push_script_roundtrip:
  fixes ds :: "bytes list"
  defines "script \<equiv> fold (\<lambda>d s. push_data s d) ds []"
  assumes "\<forall>d \<in> set ds. length d < 2 ^ 32"
  shows "\<exists>items. instructions script 0 = map Inr items \<and> map ins_data items = ds \<and>
    map ins_opcode items = map push_opcode ds \<and> concat (map (ins_bytes script) items) = script \<and> is_push_only script"
proof -
  obtain items where i: "instructions script 0 = map Inr items" "map ins_data items = ds"
    "map ins_opcode items = map push_opcode ds"
    using instructions_pushes [OF assms(2), of "[]"] unfolding script_def by auto
  have "concat (map (ins_bytes script) items) = script" using instructions_tile [OF i(1)] by simp
  moreover have "list_all push_item (map Inr items)"
  proof -
    have "is_push (ins_opcode x)" if "x \<in> set items" for x
      using that arg_cong [OF i(3), of set] push_opcode_is_push by (metis imageE image_eqI list.set_map)
    then show ?thesis by (simp add: list_all_iff push_item_def)
  qed
  ultimately show ?thesis using i by (auto simp: is_push_only_def)
qed

theorem push_script_roundtrip_witness:
  "\<exists>items. instructions [0x02, 0x07, 0x08, 0x00] 0 = map Inr items \<and> map ins_data items = [[7, 8], []]"
  using push_script_roundtrip [of "[[7, 8], []]"] by (auto simp: push_data_def)

text \<open>C37: signature encodings.  A byte string passes the strict DER check exactly when it is the DER
  sequence of two positive integers in shortest form followed by a hash type, and it passes the low-S
  check exactly when in addition the value of S is at most half the curve order.\<close>

theorem strict_der_exact:
  "(is_valid_signature_encoding sig \<longleftrightarrow>
     (\<exists>r s h. sig = der_signature r s h \<and> der_int_body r \<and> der_int_body s \<and> length r + length s \<le> 66)) \<and>
   (is_low_der_signature sig \<longleftrightarrow>
     (\<exists>r s h. sig = der_signature r s h \<and> der_int_body r \<and> der_int_body s \<and> length r + length s \<le> 66 \<and>
       be_nat s \<le> be_nat HALF_CURVE_ORDER))"
proof
  have n: "a + b + 7 \<le> 73 \<longleftrightarrow> a + b \<le> (66 :: nat)" for a b by auto
  show v: "is_valid_signature_encoding sig \<longleftrightarrow>
     (\<exists>r s h. sig = der_signature r s h \<and> der_int_body r \<and> der_int_body s \<and> length r + length s \<le> 66)"
    unfolding valid_encoding_iff n by (rule refl)
  have "is_low_der_signature sig \<Longrightarrow> is_valid_signature_encoding sig"
    by (simp add: is_low_der_signature_def split: if_splits)
  with v low_der_iff [unfolded n] show "is_low_der_signature sig \<longleftrightarrow>
     (\<exists>r s h. sig = der_signature r s h \<and> der_int_body r \<and> der_int_body s \<and> length r + length s \<le> 66 \<and>
       be_nat s \<le> be_nat HALF_CURVE_ORDER)" by metis
qed

section \<open>Execution\<close>

text \<open>C32: resource limits.  At every moment of an execution that starts within the limits, and not
  only at its end, the two stacks together hold at most 1000 items of at most 520 bytes each and at
  most 201 counted operations have run.\<close>

theorem interpreter_limits:
  assumes "fold_res (eval_step env) st (done @ todo) = Inr st'" "limits_ok st" "digest_sizes (env_H env)"
  shows "\<exists>m. fold_res (eval_step env) st done = Inr m \<and> length (es_stack m) + length (es_alt m) \<le> 1000 \<and>
    (\<forall>item \<in> set (es_stack m) \<union> set (es_alt m). length item \<le> 520) \<and> es_op_count m \<le> 201"
proof -
  obtain m where m: "fold_res (eval_step env) st done = Inr m" using fold_res_prefix [OF assms(1)] by blast
  from eval_loop_limits [OF m assms(2,3)] m show ?thesis
    by (auto simp: limits_ok_def small_items_def MAX_STACK_SIZE_def MAX_SCRIPT_ELEMENT_SIZE_def MAX_OPS_PER_SCRIPT_def)
qed

definition branch_start :: eval_state where
  "branch_start = \<lparr>es_stack = [], es_alt = [], es_cond = [], es_op_count = 0, es_codesep = 0, es_exec = exec_data_new\<rparr>"

theorem interpreter_limits_witness:
  "\<exists>m. fold_res (eval_step (sample_env branch_script)) branch_start (take 3 (instructions branch_script 0)) = Inr m \<and>
     length (es_stack m) + length (es_alt m) \<le> 1000 \<and> es_op_count m \<le> 201"
proof -
  let ?is = "instructions branch_script 0"
  have "\<exists>st'. fold_res (eval_step (sample_env branch_script)) branch_start (take 3 ?is @ drop 3 ?is) = Inr st'"
    using branch_script_runs
    by (auto simp: eval_script_with_data_def branch_start_def sample_env_def split: if_splits elim!: and_then_InrE)
  moreover have "limits_ok branch_start" by (simp add: branch_start_def limits_ok_def)
  ultimately show ?thesis
    using interpreter_limits [of "sample_env branch_script" branch_start "take 3 ?is" "drop 3 ?is"] sample_digest_sizes
    by (auto simp: sample_env_def)
qed

text \<open>C35: a script that runs to its end contains no disabled opcode, not even in a branch that was
  not taken, no push over 520 bytes, and its conditionals are properly nested and closed.\<close>

theorem successful_script_is_sane:
  assumes "eval_script_with_data env stack ed = Inr result"
  shows "\<exists>items. instructions (env_script env) 0 = map Inr items \<and> balanced_from 0 (map ins_opcode items) \<and>
    (\<forall>i \<in> set items. \<not> is_disabled (ins_opcode i) \<and> length (ins_data i) \<le> 520)"
proof -
  obtain st' where r: "fold_res (eval_step env)
      \<lparr>es_stack = stack, es_alt = [], es_cond = [], es_op_count = 0, es_codesep = 0, es_exec = ed\<rparr>
      (instructions (env_script env) 0) = Inr st'" "es_cond st' = []"
    using assms by (auto simp: eval_script_with_data_def split: if_splits elim!: and_then_InrE)
  from eval_loop_balanced [OF r] obtain items where i: "instructions (env_script env) 0 = map Inr items"
    "balanced_from 0 (map ins_opcode items)" by auto
  from eval_loop_static [OF r(1)] obtain js where j: "instructions (env_script env) 0 = map Inr js"
    "\<forall>i \<in> set js. \<not> is_disabled (ins_opcode i) \<and> length (ins_data i) \<le> MAX_SCRIPT_ELEMENT_SIZE" by blast
  have "inj (Inr :: instruction \<Rightarrow> instruction script_result)" by simp
  with i(1) j(1) have "js = items" by (metis inj_map_eq_map)
  with i j(2) show ?thesis by (auto simp: MAX_SCRIPT_ELEMENT_SIZE_def)
qed

theorem successful_script_is_sane_witness:
  "\<exists>items. instructions branch_script 0 = map Inr items \<and> balanced_from 0 (map ins_opcode items)"
  using successful_script_is_sane [OF branch_script_runs] by (auto simp: sample_env_def)



section \<open>Spends\<close>

text \<open>C33: multisignatures.  When every encoding check passes, the loop over signatures and keys accepts
  exactly when the signatures answer keys in the same order, skipping keys but never reusing one.\<close>

theorem multisig_exact:
  assumes "well_encoded env codesep sigs keys" "length sigs \<le> length keys"
  shows "\<exists>unmatched. multisig_loop env codesep sigs keys =
    Inr (list_emb (sig_answers env codesep) sigs keys, unmatched) \<and> set unmatched \<subseteq> set sigs"
  using multisig_loop_spec [OF assms] .

theorem multisig_exact_witness:
  "list_emb (sig_answers (sample_env []) 0) [[1], [3]] [[1], [2], [3]] \<and>
   \<not> list_emb (sig_answers (sample_env []) 0) [[3], [1]] [[1], [2], [3]]"
proof -
  have "check_signature_encoding sig (env_flags (sample_env [])) = Inr ()" for sig
    by (simp add: check_signature_encoding_def sample_env_def) code_simp
  moreover have "check_pubkey_encoding key (env_flags (sample_env [])) False = Inr ()" for key
    by (simp add: check_pubkey_encoding_def sample_env_def) code_simp
  moreover have "build_script_code [] 0 [1] Base (env_flags (sample_env [])) = Inr []"
    "build_script_code [] 0 [3] Base (env_flags (sample_env [])) = Inr []" by code_simp+
  ultimately have w: "well_encoded (sample_env []) 0 [[1], [3]] [[1], [2], [3]]" "well_encoded (sample_env []) 0 [[3], [1]] [[1], [2], [3]]"
    by (simp_all add: well_encoded_def sample_env_def)
  have "multisig_loop (sample_env []) 0 [[1], [3]] [[1], [2], [3]] = Inr (True, [])" by code_simp
  moreover have "map_sum id fst (multisig_loop (sample_env []) 0 [[3], [1]] [[1], [2], [3]]) = Inr False" by code_simp
  ultimately show ?thesis
    using multisig_exact [OF w(1)] multisig_exact [OF w(2)] by (auto simp: id_def)
qed

text \<open>C34: pay to witness key hash.  For a 20-byte version 0 program and a witness of two items the
  result is: items over 520 bytes are refused, then a key whose hash is not the program, and then the
  signature check alone decides.\<close>

theorem p2wpkh_exact:
  assumes "length program = 20"
  shows "verify_witness_v0 H [sig, pubkey] program flags checker =
    (if length sig > 520 \<or> length pubkey > 520 then Inl PushSize
     else if hash160 H pubkey \<noteq> program then Inl EqualVerify
     else and_then (eval_checksig_ecdsa \<lparr>env_H = H, env_script = p2wpkh_script program, env_flags = flags,
         env_checker = checker, env_sv = WitnessV0\<rparr> 0 sig pubkey) (\<lambda>ok. if ok then Inr () else Inl EvalFalse))"
  using p2wpkh_outcome [OF assms] .

theorem p2wpkh_exact_witness:
  "verify_witness_v0 sample_digests [[2], [2]] (replicate 20 0) FLAG_WITNESS sample_checker = Inl EqualVerify"
proof -
  have "hash160 sample_digests [2] \<noteq> replicate 20 0" by code_simp
  with p2wpkh_exact [of "replicate 20 0" sample_digests "[2]" "[2]"] show ?thesis by simp
qed

text \<open>C31: witnesses are bound to what they authorise.  An input that verifies and carries a witness
  spends either a native witness program with an empty scriptSig, or a P2SH output whose scriptSig is
  exactly the push of a witness program with the committed hash; in both cases that program accepted
  the witness.\<close>

theorem witness_bound_to_output:
  assumes "verify_script H ec ssig spk wit flags checker = Inr ()" "wit \<noteq> []"
  shows "contains flags FLAG_WITNESS \<and>
    ((\<exists>wp. parse_witness_program spk = Some wp \<and> ssig = [] \<and>
        verify_witness_program H ec wit (wp_version wp) (wp_program wp) flags checker False = Inr ()) \<or>
     (contains flags FLAG_P2SH \<and> is_pay_to_script_hash spk \<and>
      (\<exists>redeem wp. hash160 H redeem = take 20 (drop 2 spk) \<and> parse_witness_program redeem = Some wp \<and>
        ssig = push_data [] redeem \<and>
        verify_witness_program H ec wit (wp_version wp) (wp_program wp) flags checker True = Inr ())))"
  using verify_script_witness_bound [OF assms] .

theorem witness_bound_to_output_witness:
  "\<exists>wp. parse_witness_program key_output = Some wp \<and>
     verify_witness_program sample_digests sample_secp [[2], [2]] (wp_version wp) (wp_program wp)
       (FLAG_P2SH OR FLAG_WITNESS) sample_checker False = Inr ()"
proof -
  have "\<not> is_pay_to_script_hash key_output" by code_simp
  with witness_bound_to_output [OF key_output_spends] show ?thesis by auto
qed

end
