(* ===== verification/Mempool.thy ===== *)
theory Mempool
  imports Transaction "HOL-Library.AList"
begin

text \<open>
  The memory pool, \<^verbatim>\<open>node/mempool.rs\<close>: a map from transaction id to transaction behind a mutex.
  Its order is one order of iteration of the hash map.
\<close>

datatype mempool_error = Duplicate

type_synonym mempool = "(hash \<times> transaction) list"

definition mempool_new :: mempool where
  "mempool_new = []"

definition accept_tx :: "digests \<Rightarrow> mempool \<Rightarrow> transaction \<Rightarrow> (mempool_error + unit) \<times> mempool" where
  "accept_tx H txs tx =
     (let tid = txid H tx
      in if map_of txs tid \<noteq> None then (Inl Duplicate, txs) else (Inr (), AList.update tid tx txs))"

definition mempool_remove :: "mempool \<Rightarrow> hash \<Rightarrow> mempool" where
  "mempool_remove txs tid = AList.delete tid txs"

definition mempool_get_all :: "mempool \<Rightarrow> transaction list" where
  "mempool_get_all txs = map snd txs"

subsection \<open>The pool is a map from ids to transactions of that id\<close>

definition mempool_ok :: "digests \<Rightarrow> mempool \<Rightarrow> bool" where
  "mempool_ok H txs \<longleftrightarrow> distinct (map fst txs) \<and> (\<forall>(tid, tx) \<in> set txs. tid = txid H tx)"

lemma mempool_new_ok: "mempool_ok H mempool_new"
  by (simp add: mempool_ok_def mempool_new_def)

lemma update_fresh: "map_of txs tid = None \<Longrightarrow> AList.update tid tx txs = txs @ [(tid, tx)]"
  by (induction txs) (auto split: if_splits)

lemma accept_tx_ok:
  assumes "mempool_ok H txs"
  shows "mempool_ok H (snd (accept_tx H txs tx))"
    "fst (accept_tx H txs tx) = Inr () \<Longrightarrow> mempool_get_all (snd (accept_tx H txs tx)) = mempool_get_all txs @ [tx]"
    "fst (accept_tx H txs tx) = Inl Duplicate \<longleftrightarrow> txid H tx \<in> txid H ` set (mempool_get_all txs)"
proof -
  have dom: "map_of txs tid \<noteq> None \<longleftrightarrow> tid \<in> txid H ` set (mempool_get_all txs)" for tid
    using assms by (force simp: mempool_ok_def mempool_get_all_def map_of_eq_None_iff)
  show "mempool_ok H (snd (accept_tx H txs tx))"
    "fst (accept_tx H txs tx) = Inr () \<Longrightarrow> mempool_get_all (snd (accept_tx H txs tx)) = mempool_get_all txs @ [tx]"
    using assms
    by (auto simp: accept_tx_def Let_def mempool_ok_def update_fresh map_of_eq_None_iff mempool_get_all_def split: if_splits)
  show "fst (accept_tx H txs tx) = Inl Duplicate \<longleftrightarrow> txid H tx \<in> txid H ` set (mempool_get_all txs)"
    using dom [of "txid H tx"] by (simp add: accept_tx_def Let_def)
qed

lemma mempool_remove_ok:
  assumes "mempool_ok H txs"
  shows "mempool_ok H (mempool_remove txs tid)"
    "set (mempool_get_all (mempool_remove txs tid)) = {tx \<in> set (mempool_get_all txs). txid H tx \<noteq> tid}"
proof -
  have d: "mempool_remove txs tid = filter (\<lambda>(k, v). tid \<noteq> k) txs"
    by (simp add: mempool_remove_def AList.delete_eq)
  show "mempool_ok H (mempool_remove txs tid)"
    using assms by (auto simp: d mempool_ok_def distinct_map inj_on_def)
  show "set (mempool_get_all (mempool_remove txs tid)) = {tx \<in> set (mempool_get_all txs). txid H tx \<noteq> tid}"
    using assms by (force simp: d mempool_ok_def mempool_get_all_def)
qed

end
