(* ===== verification/Blockchain.thy ===== *)
theory Blockchain
  imports Mempool Chainstate
begin

text \<open>
  The chain orchestrator, \<^verbatim>\<open>node/blockchain.rs\<close>: it validates headers and blocks that arrive from
  peers, hands them to the store and the chainstate actor, keeps the best header path in memory and
  answers the sync engine and the RPC server.  The store of \<open>Blockchain\<close> and the store of the actor are
  handles of one write worker, so there is one store, \<open>cs_store\<close>; every message to the worker and to
  the actor is awaited.  The reconstruction counts wrong height entries only to log them.
\<close>

subsection \<open>State\<close>

datatype (plugins only: code size) node_error =
    NodeStore store_error
  | OrphanHeader hash
  | HeaderCheckFailed validation_error
  | StatelessFailed validation_error
  | HeaderNotFound hash
  | StoreBlockFailed store_error
  | ChainstateFailed chainstate_error

record blockchain =
  bc_chainstate :: chainstate_manager
  bc_mempool :: mempool
  bc_params :: chain_params
  best_header_chain :: "hash list"

abbreviation bc_store :: "blockchain \<Rightarrow> block_manager" where
  "bc_store bc \<equiv> cs_store (bc_chainstate bc)"

abbreviation bc_db :: "blockchain \<Rightarrow> database" where
  "bc_db bc \<equiv> cs_db (bc_chainstate bc)"

text \<open>A reply of the chainstate actor.\<close>

definition on_chainstate :: "blockchain \<Rightarrow> chainstate_result \<Rightarrow> (node_error + unit) \<times> blockchain" where
  "on_chainstate bc r = (case r of (result, cs) \<Rightarrow> (map_err ChainstateFailed result, bc\<lparr>bc_chainstate := cs\<rparr>))"

subsection \<open>The best header path\<close>

text \<open>The walk back from the tip; the height counts down to zero.\<close>

primrec reconstruct_walk :: "nat \<Rightarrow> database \<Rightarrow> hash option \<Rightarrow> hash list \<Rightarrow> hash list" where
  "reconstruct_walk 0 db current path =
     (case current of None \<Rightarrow> path | Some h \<Rightarrow> if is_zero h then path else path[0 := h])"
| "reconstruct_walk (Suc height) db current path =
     (case current of
        None \<Rightarrow> path
      | Some h \<Rightarrow>
          if is_zero h then path
          else reconstruct_walk height db
                 (map_option (\<lambda>index. prev_hash (bi_header index)) (ok_flatten (get_block_index db h)))
                 (path[Suc height := h]))"

definition reconstruct_header_chain :: "database \<Rightarrow> hash list \<Rightarrow> hash list" where
  "reconstruct_header_chain db chain =
     (let headers_tip = ok_flatten (get_headers_tip db); blocks_tip = ok_flatten (get_best_block db)
      in case (case headers_tip of Some h \<Rightarrow> Some h | None \<Rightarrow> blocks_tip) of
           None \<Rightarrow> chain
         | Some tip_hash \<Rightarrow>
             (case ok_flatten (get_block_index db tip_hash) of
                None \<Rightarrow> chain
              | Some index \<Rightarrow>
                  reconstruct_walk (unat (bi_height index)) db (Some tip_hash)
                    (replicate (unat (bi_height index + 1)) hash_ZERO)))"

definition blockchain_new :: "chainstate_manager \<Rightarrow> mempool \<Rightarrow> chain_params \<Rightarrow> blockchain" where
  "blockchain_new cs pool params =
     \<lparr>bc_chainstate = cs, bc_mempool = pool, bc_params = params, best_header_chain = reconstruct_header_chain (cs_db cs) []\<rparr>"

definition update_header_chain :: "hash \<Rightarrow> u32 \<Rightarrow> hash list \<Rightarrow> hash list" where
  "update_header_chain h height chain =
     (if chain = [] \<and> height < 2000 \<and> height = 0 then chain @ [h]
      else if unat height = length chain then chain @ [h]
      else if unat height < length chain
        then (if chain ! unat height \<noteq> h then take (unat height) chain @ [h] else chain)
      else chain)"

abbreviation on_header_chain :: "(hash list \<Rightarrow> hash list) \<Rightarrow> blockchain \<Rightarrow> blockchain" where
  "on_header_chain f bc \<equiv> bc\<lparr>best_header_chain := f (best_header_chain bc)\<rparr>"

subsection \<open>Block index by height and the locator\<close>

definition genesis_index :: "chain_params \<Rightarrow> block_index" where
  "genesis_index params =
     \<lparr>bi_header = genesis_header params, bi_height = 0, chain_work = calculate_block_work (bh_bits (genesis_header params)),
      file_pos = None, undo_pos = None\<rparr>"

definition node_index_by_height :: "blockchain \<Rightarrow> u32 \<Rightarrow> block_index option" where
  "node_index_by_height bc height =
     (if height = 0 then Some (genesis_index (bc_params bc))
      else
        case index_of_hash (bc_db bc) (get_block_hash (bc_db bc) height) of
          Some index \<Rightarrow> Some index
        | None \<Rightarrow> index_of_hash (bc_db bc) (get_block_hash_by_header_height (bc_db bc) height))"

definition header_hash_at_height :: "digests \<Rightarrow> blockchain \<Rightarrow> u32 \<Rightarrow> hash option" where
  "header_hash_at_height H bc height =
     (if unat height < length (best_header_chain bc) \<and> \<not> is_zero (best_header_chain bc ! unat height)
      then Some (best_header_chain bc ! unat height)
      else map_option (\<lambda>index. block_hash H (bi_header index)) (node_index_by_height bc height))"

definition block_locator :: "digests \<Rightarrow> blockchain \<Rightarrow> hash \<Rightarrow> hash list" where
  "block_locator H bc tip =
     (let genesis = genesis_hash H (bc_params bc)
      in case ok_flatten (get_block_index (bc_db bc) tip) of
           None \<Rightarrow> [genesis]
         | Some index \<Rightarrow>
             let tip_height = bi_height index;
                 locator = build_block_locator tip_height (\<lambda>height.
                   if height = unat tip_height then Some tip else header_hash_at_height H bc (word_of_nat height))
             in if locator = [] \<or> last locator \<noteq> genesis then locator @ [genesis] else locator)"

subsection \<open>Headers\<close>

definition node_process_header :: "digests \<Rightarrow> blockchain \<Rightarrow> block_header \<Rightarrow> (node_error + u32) \<times> blockchain" where
  "node_process_header H bc hdr =
     (let h = block_hash H hdr
      in case get_block_index (bc_db bc) h of
           Inl e \<Rightarrow> (Inl (NodeStore e), bc)
         | Inr (Some index) \<Rightarrow> (Inr (bi_height index), on_header_chain (update_header_chain h (bi_height index)) bc)
         | Inr None \<Rightarrow>
             (case (if is_zero (prev_hash hdr) then Inr (0, None)
                    else
                      case get_block_index (bc_db bc) (prev_hash hdr) of
                        Inl e \<Rightarrow> Inl (NodeStore e)
                      | Inr None \<Rightarrow> Inl (OrphanHeader (prev_hash hdr))
                      | Inr (Some parent) \<Rightarrow> Inr (bi_height parent + 1, Some parent)) of
                Inl e \<Rightarrow> (Inl e, bc)
              | Inr (height, prev_index) \<Rightarrow>
                  (case (case prev_index of
                           None \<Rightarrow> Inr ()
                         | Some prev \<Rightarrow> check_block_header H hdr prev (bc_params bc) (node_index_by_height bc)) of
                     Inl e \<Rightarrow> (Inl (HeaderCheckFailed e), bc)
                   | Inr _ \<Rightarrow>
                       (case on_chainstate bc (process_header H (bc_chainstate bc) hdr height) of
                          (Inl e, bc) \<Rightarrow> (Inl e, bc)
                        | (Inr _, bc) \<Rightarrow> (Inr height, on_header_chain (update_header_chain h height) bc)))))"

text \<open>The state of the batch loop of \<^verbatim>\<open>process_headers\<close>.\<close>

record header_batch =
  hb_heights :: "u32 list"
  hb_pending :: "(hash \<times> block_index) list"
  hb_by_hash :: "hash \<rightharpoonup> block_index"
  hb_by_height :: "u32 \<rightharpoonup> block_index"
  hb_best_work :: hash
  hb_best_tip :: "hash option"

definition batch_provider :: "blockchain \<Rightarrow> header_batch \<Rightarrow> u32 \<Rightarrow> block_index option" where
  "batch_provider bc batch height =
     (case hb_by_height batch height of Some index \<Rightarrow> Some index | None \<Rightarrow> node_index_by_height bc height)"

definition batch_known :: "hash \<Rightarrow> block_index \<Rightarrow> header_batch \<Rightarrow> header_batch" where
  "batch_known h index batch =
     batch\<lparr>hb_heights := hb_heights batch @ [bi_height index],
           hb_by_height := (hb_by_height batch)(bi_height index \<mapsto> index),
           hb_by_hash := (hb_by_hash batch)(h \<mapsto> index)\<rparr>"

definition batch_new :: "hash \<Rightarrow> block_index \<Rightarrow> header_batch \<Rightarrow> header_batch" where
  "batch_new h index batch =
     (let better = hash_gt (chain_work index) (hb_best_work batch);
          batch = batch_known h index batch
      in batch\<lparr>hb_pending := hb_pending batch @ [(h, index)],
               hb_best_work := (if better then chain_work index else hb_best_work batch),
               hb_best_tip := (if better then Some h else hb_best_tip batch)\<rparr>)"

definition header_index :: "block_header \<Rightarrow> block_index \<Rightarrow> block_index" where
  "header_index hdr prev =
     \<lparr>bi_header = hdr, bi_height = bi_height prev + 1,
      chain_work = add_chain_work (chain_work prev) (calculate_block_work (bh_bits hdr)), file_pos = None, undo_pos = None\<rparr>"

definition batch_parent :: "blockchain \<Rightarrow> header_batch \<Rightarrow> hash \<Rightarrow> block_index option" where
  "batch_parent bc batch h =
     (case hb_by_hash batch h of Some index \<Rightarrow> Some index | None \<Rightarrow> ok_flatten (get_block_index (bc_db bc) h))"

primrec headers_loop :: "digests \<Rightarrow> blockchain \<Rightarrow> block_header list \<Rightarrow> header_batch \<Rightarrow> node_error + header_batch" where
  "headers_loop H bc [] batch = Inr batch"
| "headers_loop H bc (hdr # hdrs) batch =
     (let h = block_hash H hdr
      in case get_block_index (bc_db bc) h of
           Inl e \<Rightarrow> Inl (NodeStore e)
         | Inr (Some index) \<Rightarrow> headers_loop H bc hdrs (batch_known h index batch)
         | Inr None \<Rightarrow>
             (case batch_parent bc batch (prev_hash hdr) of
                None \<Rightarrow> Inr batch
              | Some prev \<Rightarrow>
                  (case check_block_header H hdr prev (bc_params bc) (batch_provider bc batch) of
                     Inl e \<Rightarrow> Inl (HeaderCheckFailed e)
                   | Inr _ \<Rightarrow> headers_loop H bc hdrs (batch_new h (header_index hdr prev) batch))))"

definition batch_start :: "database \<Rightarrow> hash option \<Rightarrow> header_batch" where
  "batch_start db tip =
     \<lparr>hb_heights = [], hb_pending = [], hb_by_hash = Map.empty, hb_by_height = Map.empty,
      hb_best_work = index_work (Option.bind tip (\<lambda>h. ok_flatten (get_block_index db h))), hb_best_tip = None\<rparr>"

definition node_process_headers ::
  "digests \<Rightarrow> blockchain \<Rightarrow> block_header list \<Rightarrow> (node_error + u32 list) \<times> blockchain" where
  "node_process_headers H bc headers =
     (case and_then (map_err NodeStore (get_headers_tip (bc_db bc)))
             (\<lambda>tip. headers_loop H bc headers (batch_start (bc_db bc) tip)) of
        Inl e \<Rightarrow> (Inl e, bc)
      | Inr batch \<Rightarrow>
          (case (if hb_pending batch = [] then (Inr (), bc)
                 else on_chainstate bc (process_headers (bc_chainstate bc) (hb_pending batch) (hb_best_tip batch))) of
             (Inl e, bc) \<Rightarrow> (Inl e, bc)
           | (Inr _, bc) \<Rightarrow>
               (Inr (hb_heights batch),
                on_header_chain (fold (\<lambda>(hdr, height). update_header_chain (block_hash H hdr) height)
                  (zip headers (hb_heights batch))) bc)))"

subsection \<open>Blocks\<close>

definition node_process_block :: "secp \<Rightarrow> digests \<Rightarrow> blockchain \<Rightarrow> block \<Rightarrow> (node_error + u32) \<times> blockchain" where
  "node_process_block ec H bc b =
     (let h = block_hash H (header b)
      in case check_block H ec b (bc_params bc) of
           Inl e \<Rightarrow> (Inl (StatelessFailed e), bc)
         | Inr _ \<Rightarrow>
             (case get_block_index (bc_db bc) h of
                Inl e \<Rightarrow> (Inl (NodeStore e), bc)
              | Inr None \<Rightarrow> (Inl (HeaderNotFound h), bc)
              | Inr (Some index) \<Rightarrow>
                  (case (if file_pos index \<noteq> None then Inr (bc_store bc)
                         else map_sum StoreBlockFailed snd
                           (handle_store_blocks H (bc_store bc)
                             [(header b, bi_height index, chain_work index, serialize encode_block b)])) of
                     Inl e \<Rightarrow> (Inl e, bc)
                   | Inr m \<Rightarrow>
                       let bc = bc\<lparr>bc_chainstate := with_store m (bc_chainstate bc)\<rparr>
                       in case on_chainstate bc (process_block_downloaded (bc_chainstate bc) h (bi_height index)) of
                            (Inl e, bc) \<Rightarrow> (Inl e, bc)
                          | (Inr _, bc) \<Rightarrow> (Inr (bi_height index), bc))))"

definition add_to_mempool :: "digests \<Rightarrow> blockchain \<Rightarrow> transaction \<Rightarrow> (mempool_error + unit) \<times> blockchain" where
  "add_to_mempool H bc tx = (let (result, pool) = accept_tx H (bc_mempool bc) tx in (result, bc\<lparr>bc_mempool := pool\<rparr>))"

text \<open>The argument \<open>now\<close> is the time of day in seconds.\<close>

definition is_initial_block_download :: "u64 \<Rightarrow> blockchain \<Rightarrow> bool" where
  "is_initial_block_download now bc =
     (case get_block_tip (bc_db bc) of
        Inr (Some tip_hash) \<Rightarrow>
          (case get_block_index (bc_db bc) tip_hash of
             Inr (Some index) \<Rightarrow> ucast (bh_time (bi_header index)) + 86400 < now
           | _ \<Rightarrow> True)
      | _ \<Rightarrow> True)"

definition node_load_genesis :: "digests \<Rightarrow> blockchain \<Rightarrow> (node_error + unit) \<times> blockchain" where
  "node_load_genesis H bc = on_chainstate bc (load_genesis_block H (bc_params bc) (bc_chainstate bc))"

definition node_activate_best_chain ::
  "digests \<Rightarrow> secp \<Rightarrow> (nat \<Rightarrow> nat) \<Rightarrow> blockchain \<Rightarrow> (node_error + unit) \<times> blockchain" where
  "node_activate_best_chain H ec now bc = on_chainstate bc (activate_best_chain H ec now (bc_chainstate bc))"

subsection \<open>What to download next\<close>

definition bc_get_block :: "blockchain \<Rightarrow> hash \<Rightarrow> bytes option store_result" where
  "bc_get_block bc h = get_block (bc_db bc) (bm_files (bc_store bc)) h"

definition needs_block_data :: "blockchain \<Rightarrow> hash \<Rightarrow> bool" where
  "needs_block_data bc h = (case bc_get_block bc h of Inr (Some _) \<Rightarrow> False | _ \<Rightarrow> True)"

definition queue_hash :: "blockchain \<Rightarrow> hash \<Rightarrow> hash set \<times> hash list \<Rightarrow> hash set \<times> hash list" where
  "queue_hash bc h st =
     (case st of (queued, hashes) \<Rightarrow>
        if needs_block_data bc h \<and> h \<notin> queued then (insert h queued, hashes @ [h]) else (queued, hashes))"

fun queue_from_index :: "blockchain \<Rightarrow> u32 list \<Rightarrow> hash set \<times> hash list \<Rightarrow> hash set \<times> hash list" where
  "queue_from_index bc [] st = st"
| "queue_from_index bc (height # heights) st =
     (case get_block_hash_by_header_height (bc_db bc) height of
        Inr (Some h) \<Rightarrow> queue_from_index bc heights (queue_hash bc h st)
      | _ \<Rightarrow> st)"

definition get_next_block_hashes_for_sync :: "blockchain \<Rightarrow> u32 \<Rightarrow> nat \<Rightarrow> hash list" where
  "get_next_block_hashes_for_sync bc start_height limit =
     (let chain = best_header_chain bc; first_needed_height = start_height + 1;
          st = (if unat first_needed_height < length chain
                then fold (\<lambda>height. queue_hash bc (chain ! height))
                       [unat first_needed_height..<min (unat first_needed_height + limit) (length chain)] ({}, [])
                else ({}, []));
          st = (if length (snd st) < limit
                then queue_from_index bc
                       (map word_of_nat [unat (first_needed_height + word_of_nat (length (snd st)))
                          ..<unat (first_needed_height + word_of_nat limit)]) st
                else st)
      in snd st)"

definition has_next_block_on_disk :: "blockchain \<Rightarrow> u32 \<Rightarrow> bool" where
  "has_next_block_on_disk bc start_height =
     (case get_block_hash_by_header_height (bc_db bc) (start_height + 1) of
        Inr (Some h) \<Rightarrow> (case bc_get_block bc h of Inr b \<Rightarrow> b \<noteq> None | Inl _ \<Rightarrow> False)
      | _ \<Rightarrow> False)"

subsection \<open>The providers of the sync engine and of the RPC server\<close>

definition sync_get_block_index :: "digests \<Rightarrow> blockchain \<Rightarrow> hash \<Rightarrow> block_index option" where
  "sync_get_block_index H bc h =
     (if h = genesis_hash H (bc_params bc) then Some (genesis_index (bc_params bc))
      else ok_flatten (get_block_index (bc_db bc) h))"

definition get_blocks_tip :: "digests \<Rightarrow> blockchain \<Rightarrow> hash \<times> u32" where
  "get_blocks_tip H bc =
     (case active_tip (bc_chainstate bc) of
        Some tip \<Rightarrow> tip
      | None \<Rightarrow>
          (case get_best_block (bc_db bc) of
             Inr (Some h) \<Rightarrow> (h, index_height (ok_flatten (get_block_index (bc_db bc) h)))
           | _ \<Rightarrow> (genesis_hash H (bc_params bc), 0)))"

definition sync_get_headers_tip :: "blockchain \<Rightarrow> hash \<times> u32" where
  "sync_get_headers_tip bc =
     (let h = (case ok_flatten (get_headers_tip (bc_db bc)) of Some h \<Rightarrow> h | None \<Rightarrow> hash_ZERO)
      in (h, if h = hash_ZERO then 0 else index_height (ok_flatten (get_block_index (bc_db bc) h))))"

definition rpc_get_headers_tip :: "blockchain \<Rightarrow> hash option store_result" where
  "rpc_get_headers_tip bc = get_headers_tip (bc_db bc)"

definition rpc_get_best_block :: "blockchain \<Rightarrow> hash option store_result" where
  "rpc_get_best_block bc =
     (case active_tip (bc_chainstate bc) of Some (h, _) \<Rightarrow> Inr (Some h) | None \<Rightarrow> get_best_block (bc_db bc))"

definition rpc_get_block_tip :: "blockchain \<Rightarrow> hash option store_result" where
  "rpc_get_block_tip bc = get_block_tip (bc_db bc)"

definition rpc_get_block_index_height :: "blockchain \<Rightarrow> hash \<Rightarrow> u32 option store_result" where
  "rpc_get_block_index_height bc h = map_sum id (map_option bi_height) (get_block_index (bc_db bc) h)"

definition rpc_get_block_hash :: "blockchain \<Rightarrow> u32 \<Rightarrow> hash option store_result" where
  "rpc_get_block_hash bc height = get_block_hash (bc_db bc) height"

definition rpc_get_block_raw :: "blockchain \<Rightarrow> hash \<Rightarrow> bytes option store_result" where
  "rpc_get_block_raw bc h = bc_get_block bc h"

end
