(* ===== verification/HeaderTree.thy ===== *)
theory HeaderTree
  imports Blockchain Activation
begin

text \<open>
  The block index as a tree of headers.  \<open>tree_of\<close> reads the index of the store as a map, \<open>tree_ok\<close> says
  that every entry other than genesis hangs below its parent with the next height, the parent's work
  plus its own, and a proof of work; a batch of headers from a peer extends the tree and keeps the
  headers tip on the entry with most work.
\<close>

subsection \<open>The tree\<close>

type_synonym header_tree = "hash \<rightharpoonup> block_index"

definition tree_of :: "database \<Rightarrow> header_tree" where
  "tree_of db h = ok_flatten (get_block_index db h)"

definition child_of :: "digests \<Rightarrow> header_tree \<Rightarrow> block_index \<Rightarrow> bool" where
  "child_of H T i \<longleftrightarrow>
     (\<exists>p. T (prev_hash (bi_header i)) = Some p \<and> bi_height i = bi_height p + 1 \<and>
        chain_work i = add_chain_work (chain_work p) (calculate_block_work (bh_bits (bi_header i))) \<and>
        meets_target H (bi_header i))"

definition tree_ok :: "digests \<Rightarrow> chain_params \<Rightarrow> header_tree \<Rightarrow> bool" where
  "tree_ok H params T \<longleftrightarrow>
     (\<exists>g. T (genesis_hash H params) = Some g \<and> bi_header g = genesis_header params \<and> bi_height g = 0) \<and>
     (\<forall>h i. T h = Some i \<longrightarrow> block_hash H (bi_header i) = h \<and> wf_block_index i \<and>
        (h \<noteq> genesis_hash H params \<longrightarrow> child_of H T i))"

text \<open>The tip is in the tree and nothing in the tree has more work.\<close>

definition heaviest :: "header_tree \<Rightarrow> hash \<Rightarrow> hash \<Rightarrow> bool" where
  "heaviest T tip work \<longleftrightarrow>
     (\<exists>i. T tip = Some i \<and> chain_work i = work) \<and> (\<forall>h j. T h = Some j \<longrightarrow> le_nat (chain_work j) \<le> le_nat work)"

lemma ok_flatten_Some [simp]: "ok_flatten r = Some x \<longleftrightarrow> r = Inr (Some x)"
  by (auto simp: ok_flatten_def split: sum.splits)

lemma tree_of_Some [simp]: "tree_of db h = Some i \<longleftrightarrow> get_block_index db h = Inr (Some i)"
  by (simp add: tree_of_def)

lemma most_work_heaviest:
  assumes "\<And>h i. tree_of db h = Some i \<Longrightarrow> wf_block_index i"
  shows "most_work db \<longleftrightarrow> (\<exists>tip work. get_headers_tip db = Inr (Some tip) \<and> heaviest (tree_of db) tip work)"
  using assms by (fastforce simp: most_work_def heaviest_def wf_block_index_def)

lemma map_le_Some: "T \<subseteq>\<^sub>m T' \<Longrightarrow> T h = Some i \<Longrightarrow> T' h = Some i"
  by (force simp: map_le_def dom_def)

lemma child_of_mono: "child_of H T i \<Longrightarrow> T \<subseteq>\<^sub>m T' \<Longrightarrow> child_of H T' i"
  by (force simp: child_of_def map_le_def dom_def)

lemma tree_ok_entry:
  assumes "tree_ok H params T" "T h = Some i"
  shows "block_hash H (bi_header i) = h" "wf_block_index i" "wf_hash (chain_work i)"
    "h \<noteq> genesis_hash H params \<Longrightarrow> child_of H T i"
  using assms by (auto simp: tree_ok_def wf_block_index_def)

lemma map_le_fresh: "T h = None \<Longrightarrow> T \<subseteq>\<^sub>m T(h \<mapsto> i)"
  by (auto simp: map_le_def)

lemma tree_ok_insert:
  assumes "tree_ok H params T" "T h = None" "block_hash H (bi_header i) = h" "wf_block_index i" "child_of H T i"
  shows "tree_ok H params (T(h \<mapsto> i))"
proof -
  have ne: "genesis_hash H params \<noteq> h" using assms(1,2) by (auto simp: tree_ok_def)
  have "child_of H (T(h \<mapsto> i)) j" if "child_of H T j" for j
    using child_of_mono [OF that map_le_fresh [of T h i]] assms(2) by blast
  with assms ne show ?thesis by (auto simp: tree_ok_def)
qed

lemma tree_of_put: "wf_block_index i \<Longrightarrow> tree_of (put_block_index h i db) = (tree_of db)(h \<mapsto> i)"
  by (simp add: fun_eq_iff tree_of_def put_block_index_reads ok_flatten_def)

lemma put_headers_tip: "wf_block_index i \<Longrightarrow> get_headers_tip (put_block_index h i db) = get_headers_tip db"
  by (rule put_block_index_reads(2))

subsection \<open>A batch of headers\<close>

abbreviation pending_db :: "blockchain \<Rightarrow> header_batch \<Rightarrow> database" where
  "pending_db bc batch \<equiv> fold (\<lambda>(h, index). put_block_index h index) (hb_pending batch) (bc_db bc)"

definition batch_tip :: "blockchain \<Rightarrow> header_batch \<Rightarrow> hash option" where
  "batch_tip bc batch =
     (case hb_best_tip batch of Some h \<Rightarrow> Some h | None \<Rightarrow> ok_flatten (get_headers_tip (bc_db bc)))"

text \<open>
  Between two rounds of the loop: the headers found so far, stored or pending, form a tree that extends
  the stored one; every new entry comes from a header of the message and its parent; and the best tip
  is heaviest.
\<close>

definition batch_ok :: "digests \<Rightarrow> blockchain \<Rightarrow> block_header set \<Rightarrow> header_batch \<Rightarrow> bool" where
  "batch_ok H bc hdrs batch \<longleftrightarrow>
     tree_of (pending_db bc batch) = batch_parent bc batch \<and> get_headers_tip (pending_db bc batch) = get_headers_tip (bc_db bc) \<and>
     tree_of (bc_db bc) \<subseteq>\<^sub>m batch_parent bc batch \<and>
     tree_ok H (bc_params bc) (batch_parent bc batch) \<and>
     (\<exists>tip. batch_tip bc batch = Some tip \<and> heaviest (batch_parent bc batch) tip (hb_best_work batch)) \<and>
     (\<forall>h i. batch_parent bc batch h = Some i \<longrightarrow> tree_of (bc_db bc) h = None \<longrightarrow>
        bi_header i \<in> hdrs \<and> (\<exists>p. batch_parent bc batch (prev_hash (bi_header i)) = Some p \<and> i = header_index (bi_header i) p)) \<and>
     (\<forall>h. hb_best_tip batch = Some h \<longrightarrow> wf_hash h)"

definition heights_match :: "digests \<Rightarrow> header_tree \<Rightarrow> block_header list \<Rightarrow> u32 list \<Rightarrow> bool" where
  "heights_match H T hdrs heights \<longleftrightarrow>
     list_all2 (\<lambda>hdr height. \<exists>i. T (block_hash H hdr) = Some i \<and> bi_height i = height) hdrs heights"

lemma heights_match_mono: "heights_match H T hdrs heights \<Longrightarrow> T \<subseteq>\<^sub>m T' \<Longrightarrow> heights_match H T' hdrs heights"
  unfolding heights_match_def by (erule list_all2_mono) (force simp: map_le_def dom_def)

lemma heights_match_snoc:
  "heights_match H T hdrs heights \<Longrightarrow> T (block_hash H hdr) = Some i \<Longrightarrow>
    heights_match H T (hdrs @ [hdr]) (heights @ [bi_height i])"
  by (simp add: heights_match_def list_all2_appendI)

lemma batch_known_tree:
  assumes "tree_of (bc_db bc) \<subseteq>\<^sub>m batch_parent bc batch" "get_block_index (bc_db bc) h = Inr (Some i)"
  shows "batch_parent bc (batch_known h i batch) = batch_parent bc batch"
proof -
  have "tree_of (bc_db bc) h = Some i" using assms(2) by simp
  with assms(1) have "batch_parent bc batch h = Some i" by (rule map_le_Some)
  then show ?thesis by (auto simp: fun_eq_iff batch_parent_def batch_known_def split: option.splits)
qed

lemma batch_known_ok:
  assumes "batch_ok H bc hdrs batch" "get_block_index (bc_db bc) h = Inr (Some i)"
  shows "batch_ok H bc hdrs (batch_known h i batch)"
proof -
  have t: "batch_parent bc (batch_known h i batch) = batch_parent bc batch"
    using batch_known_tree assms by (simp add: batch_ok_def)
  have "hb_pending (batch_known h i batch) = hb_pending batch" "hb_best_tip (batch_known h i batch) = hb_best_tip batch"
    "hb_best_work (batch_known h i batch) = hb_best_work batch"
    by (simp_all add: batch_known_def)
  with assms(1) show ?thesis by (simp add: batch_ok_def t batch_tip_def)
qed

lemma batch_new_tree: "batch_parent bc (batch_new h i batch) = (batch_parent bc batch)(h \<mapsto> i)"
  by (simp add: fun_eq_iff batch_parent_def batch_new_def batch_known_def Let_def)

lemma heaviest_insert:
  assumes "heaviest T tip w" "T h = None \<or> T h = Some i" "wf_hash w" "wf_hash (chain_work i)"
  shows "heaviest (T(h \<mapsto> i)) (if hash_gt (chain_work i) w then h else tip) (if hash_gt (chain_work i) w then chain_work i else w)"
proof -
  have gt: "hash_gt (chain_work i) w \<longleftrightarrow> le_nat w < le_nat (chain_work i)" using hash_gt_numeric assms(3,4) by blast
  have "tip = h \<Longrightarrow> chain_work i = w" using assms(1,2) by (auto simp: heaviest_def)
  with assms(1) gt show ?thesis by (fastforce simp: heaviest_def)
qed

lemma header_index_simps [simp]:
  "bi_header (header_index hdr p) = hdr" "bi_height (header_index hdr p) = bi_height p + 1"
  "chain_work (header_index hdr p) = add_chain_work (chain_work p) (calculate_block_work (bh_bits hdr))"
  by (simp_all add: header_index_def)

lemma check_header_target: "check_block_header H hdr prev params provider = Inr () \<Longrightarrow> meets_target H hdr"
  by (auto simp: check_block_header_def split: if_splits)

lemma unat_height_Suc: "unat (w :: u32) < 2 ^ 32 - 1 \<Longrightarrow> unat (w + 1) = Suc (unat w)"
  by (rule unat_u32_Suc) auto

text \<open>A header whose hash is new to the store, below a parent of the tree.\<close>

lemma batch_new_ok:
  assumes "batch_ok H bc hdrs batch" "get_block_index (bc_db bc) (block_hash H hdr) = Inr None"
    and "batch_parent bc batch (prev_hash hdr) = Some prev" "meets_target H hdr"
    and "hdr \<in> hdrs" "inj_on (block_hash H) hdrs" "wf_header hdr" "digest_sizes H"
  shows "batch_ok H bc hdrs (batch_new (block_hash H hdr) (header_index hdr prev) batch)"
    "batch_parent bc batch \<subseteq>\<^sub>m batch_parent bc (batch_new (block_hash H hdr) (header_index hdr prev) batch)"
proof -
  let ?h = "block_hash H hdr" and ?i = "header_index hdr prev" and ?T = "batch_parent bc batch" and ?S = "tree_of (bc_db bc)"
  let ?b = "batch_new ?h ?i batch"
  note B = assms(1) [unfolded batch_ok_def]
  have T0: "?S ?h = None" using assms(2) by (simp add: tree_of_def ok_flatten_def)
  have wprev: "wf_block_index prev" using B assms(3) by (auto simp: tree_ok_def)
  have wi: "wf_block_index ?i"
    using add_chain_work_value [OF _ block_work_value(2)] wprev assms(7) by (simp add: wf_block_index_def)
  have child: "child_of H ?T ?i" using assms(3,4) by (simp add: child_of_def)
  have same: "?T ?h = None \<or> ?T ?h = Some ?i"
  proof (cases "?T ?h")
    case (Some j)
    then have j: "bi_header j \<in> hdrs" "\<exists>p. ?T (prev_hash (bi_header j)) = Some p \<and> j = header_index (bi_header j) p"
      "block_hash H (bi_header j) = ?h"
      using B T0 by (auto simp: tree_ok_def)
    then have "bi_header j = hdr" using assms(5,6) by (auto dest: inj_onD)
    with j(2) assms(3) Some show ?thesis by auto
  qed simp
  have le: "?T \<subseteq>\<^sub>m ?T(?h \<mapsto> ?i)" using same by (auto simp: map_le_def)
  then show "?T \<subseteq>\<^sub>m batch_parent bc ?b" by (simp add: batch_new_tree)
  have tree: "tree_ok H (bc_params bc) (?T(?h \<mapsto> ?i))"
    using same
  proof
    assume "?T ?h = None"
    then show ?thesis using tree_ok_insert B child wi by simp
  next
    assume "?T ?h = Some ?i"
    then have "?T(?h \<mapsto> ?i) = ?T" by (simp add: fun_upd_idem)
    then show ?thesis using B by simp
  qed
  obtain tip where tip: "batch_tip bc batch = Some tip" "heaviest ?T tip (hb_best_work batch)" using B by blast
  have wbest: "wf_hash (hb_best_work batch)"
    using tip(2) B tree_ok_entry(3) unfolding heaviest_def by metis
  have heavy: "\<exists>tip. batch_tip bc ?b = Some tip \<and> heaviest (?T(?h \<mapsto> ?i)) tip (hb_best_work ?b)"
    using heaviest_insert [OF tip(2) same wbest] wi tip(1)
    by (auto simp: batch_new_def batch_known_def Let_def batch_tip_def wf_block_index_def)
  have pend: "tree_of (pending_db bc ?b) = ?T(?h \<mapsto> ?i)" "get_headers_tip (pending_db bc ?b) = get_headers_tip (bc_db bc)"
    using B tree_of_put [OF wi] put_headers_tip [OF wi] by (simp_all add: batch_new_def batch_known_def Let_def)
  have new: "bi_header i \<in> hdrs \<and> (\<exists>p. (?T(?h \<mapsto> ?i)) (prev_hash (bi_header i)) = Some p \<and> i = header_index (bi_header i) p)"
    if i: "(?T(?h \<mapsto> ?i)) h = Some i" "?S h = None" for h i
  proof (cases "h = ?h")
    case True
    with i have "i = ?i" by simp
    with assms(3,5) map_le_Some [OF le] show ?thesis by fastforce
  next
    case False
    with i have "?T h = Some i" by simp
    with B i(2) obtain p where "bi_header i \<in> hdrs" "?T (prev_hash (bi_header i)) = Some p" "i = header_index (bi_header i) p"
      by blast
    with map_le_Some [OF le] show ?thesis by blast
  qed
  have wh: "wf_hash ?h" using assms(8) by (simp add: block_hash_def)
  have sub: "?S \<subseteq>\<^sub>m ?T(?h \<mapsto> ?i)" using B le map_le_trans by blast
  have best: "wf_hash h" if "hb_best_tip ?b = Some h" for h
    using that wh B by (auto simp: batch_new_def batch_known_def Let_def split: if_splits)
  show "batch_ok H bc hdrs ?b"
    unfolding batch_ok_def batch_new_tree using pend sub tree heavy new best by blast
qed

text \<open>The whole loop: it stops at the end of the message or at the first header without a known parent.\<close>

definition stops_at_orphan :: "digests \<Rightarrow> blockchain \<Rightarrow> header_tree \<Rightarrow> block_header list \<Rightarrow> bool" where
  "stops_at_orphan H bc T hdrs \<longleftrightarrow>
     (case hdrs of [] \<Rightarrow> True
      | hdr # _ \<Rightarrow> get_block_index (bc_db bc) (block_hash H hdr) = Inr None \<and> T (prev_hash hdr) = None)"

lemma headers_loop_ok:
  assumes "headers_loop H bc hdrs batch = Inr batch'" "batch_ok H bc S batch" "set hdrs \<subseteq> S"
    and "inj_on (block_hash H) S" "\<forall>hdr \<in> S. wf_header hdr" "digest_sizes H"
    and "heights_match H (batch_parent bc batch) seen (hb_heights batch)"
  shows "batch_ok H bc S batch' \<and> (\<exists>k. heights_match H (batch_parent bc batch') (seen @ take k hdrs) (hb_heights batch') \<and>
    stops_at_orphan H bc (batch_parent bc batch') (drop k hdrs))"
  using assms(1-3,7)
proof (induction hdrs arbitrary: batch seen)
  case Nil
  then have "batch' = batch" by simp
  with Nil show ?case by (auto simp: stops_at_orphan_def)
next
  case (Cons hdr hdrs)
  let ?h = "block_hash H hdr" and ?T = "batch_parent bc batch"
  have step: ?case
    if b: "headers_loop H bc hdrs b = Inr batch'" "batch_ok H bc S b" "?T \<subseteq>\<^sub>m batch_parent bc b"
      and i: "batch_parent bc b ?h = Some i" "hb_heights b = hb_heights batch @ [bi_height i]" for b i
  proof -
    have m: "heights_match H (batch_parent bc b) (seen @ [hdr]) (hb_heights b)"
      using heights_match_snoc [OF heights_match_mono [OF Cons.prems(4) b(3)] i(1)] i(2) by simp
    have "set hdrs \<subseteq> S" using Cons.prems(3) by simp
    from Cons.IH [OF b(1,2) this m] obtain k where "batch_ok H bc S batch'"
      "heights_match H (batch_parent bc batch') (seen @ take (Suc k) (hdr # hdrs)) (hb_heights batch')"
      "stops_at_orphan H bc (batch_parent bc batch') (drop (Suc k) (hdr # hdrs))"
      by auto
    then show ?thesis by blast
  qed
  show ?case
  proof (cases "get_block_index (bc_db bc) ?h")
    case (Inl e)
    with Cons.prems(1) show ?thesis by simp
  next
    case (Inr found)
    show ?thesis
    proof (cases found)
      case (Some i)
      have sub: "tree_of (bc_db bc) \<subseteq>\<^sub>m ?T" using Cons.prems(2) by (simp add: batch_ok_def)
      have i: "get_block_index (bc_db bc) ?h = Inr (Some i)" using Inr Some by simp
      then have "?T ?h = Some i" using map_le_Some [OF sub, of ?h i] by simp
      with Cons.prems(1) i batch_known_ok [OF Cons.prems(2) i] batch_known_tree [OF sub i] show ?thesis
        by (intro step [of "batch_known ?h i batch" i]) (simp_all add: batch_known_def)
    next
      case None
      show ?thesis
      proof (cases "?T (prev_hash hdr)")
        case no_parent: None
        with Cons.prems(1) Inr None have "batch' = batch" by simp
        with Cons.prems(2,4) Inr None no_parent show ?thesis
          by (intro conjI exI [of _ 0]) (simp_all add: stops_at_orphan_def)
      next
        case parent: (Some prev)
        let ?b = "batch_new ?h (header_index hdr prev) batch"
        have ok: "check_block_header H hdr prev (bc_params bc) (batch_provider bc batch) = Inr ()"
          "headers_loop H bc hdrs ?b = Inr batch'"
          using Cons.prems(1) Inr None parent by (auto split: sum.splits)
        note new = batch_new_ok [OF Cons.prems(2) _ parent check_header_target [OF ok(1)] _ assms(4) _ assms(6)]
        have "hb_heights ?b = hb_heights batch @ [bi_height (header_index hdr prev)]"
          by (simp add: batch_new_def batch_known_def Let_def)
        then show ?thesis
          using ok(2) new Inr None Cons.prems(3) assms(5)
          by (intro step [of ?b "header_index hdr prev"]) (auto simp: batch_new_tree)
      qed
    qed
  qed
qed

lemma batch_start_ok:
  assumes "tree_ok H (bc_params bc) (tree_of (bc_db bc))" "most_work (bc_db bc)" "get_headers_tip (bc_db bc) = Inr tip"
  shows "batch_ok H bc S (batch_start (bc_db bc) tip)" "batch_parent bc (batch_start (bc_db bc) tip) = tree_of (bc_db bc)"
proof -
  let ?b = "batch_start (bc_db bc) tip"
  show t: "batch_parent bc ?b = tree_of (bc_db bc)"
    by (simp add: fun_eq_iff batch_parent_def batch_start_def tree_of_def)
  obtain h w where hw: "tip = Some h" "heaviest (tree_of (bc_db bc)) h w"
    using assms most_work_heaviest [of "bc_db bc"] tree_ok_entry(2) [OF assms(1)] by auto
  then have "hb_best_work ?b = w" by (auto simp: batch_start_def heaviest_def index_work_def ok_flatten_def)
  with hw assms show "batch_ok H bc S ?b"
    unfolding batch_ok_def t by (auto simp: batch_start_def batch_tip_def ok_flatten_def simp del: tree_of_Some)
qed

lemma store_indexes_reads:
  fixes m indexes
  assumes "\<forall>h. best_tip = Some h \<longrightarrow> wf_hash h"
  defines "m' \<equiv> handle_store_block_indexes m indexes best_tip"
  shows "tree_of (bm_backend m') = tree_of (fold (\<lambda>(h, index). put_block_index h index) indexes (bm_backend m))"
    "get_headers_tip (bm_backend m') =
      (case best_tip of Some h \<Rightarrow> Inr (Some h)
       | None \<Rightarrow> get_headers_tip (fold (\<lambda>(h, index). put_block_index h index) indexes (bm_backend m)))"
  using assms(1)
  by (cases best_tip; simp add: m'_def handle_store_block_indexes_def fun_eq_iff tree_of_def get_block_index_def
      get_headers_tip_def get_hash_def wf_hash_def)+

lemma batch_stored:
  assumes "batch_ok H bc S batch"
  defines "db' \<equiv> bm_backend (handle_store_block_indexes (bc_store bc) (hb_pending batch) (hb_best_tip batch))"
  shows "tree_of db' = batch_parent bc batch" "most_work db'"
proof -
  note B = assms(1) [unfolded batch_ok_def]
  note reads = store_indexes_reads [of "hb_best_tip batch" "bc_store bc" "hb_pending batch"]
  show t: "tree_of db' = batch_parent bc batch" using B reads(1) by (simp add: db'_def)
  obtain tip where tip: "batch_tip bc batch = Some tip" "heaviest (batch_parent bc batch) tip (hb_best_work batch)" using B by blast
  have "get_headers_tip db' = Inr (Some tip)"
    using tip(1) B reads(2) by (auto simp: db'_def batch_tip_def split: option.splits)
  moreover have "wf_block_index i" if "tree_of db' h = Some i" for h i
    using that B tree_ok_entry(2) unfolding t by blast
  ultimately show "most_work db'" using tip(2) most_work_heaviest [of db'] by (auto simp: t)
qed

text \<open>The index and the tips after a \<open>headers\<close> message.\<close>

lemma process_headers_tree:
  assumes "node_process_headers H bc headers = (r, bc')" "tree_ok H (bc_params bc) (tree_of (bc_db bc))" "most_work (bc_db bc)"
    and "inj_on (block_hash H) (set headers)" "\<forall>hdr \<in> set headers. wf_header hdr" "digest_sizes H"
  shows "tree_ok H (bc_params bc) (tree_of (bc_db bc')) \<and> most_work (bc_db bc') \<and> tree_of (bc_db bc) \<subseteq>\<^sub>m tree_of (bc_db bc') \<and>
    (\<forall>i \<in> ran (tree_of (bc_db bc')). i \<in> ran (tree_of (bc_db bc)) \<or> bi_header i \<in> set headers) \<and>
    (case r of
       Inl e \<Rightarrow> bc' = bc
     | Inr heights \<Rightarrow> \<exists>k. heights_match H (tree_of (bc_db bc')) (take k headers) heights \<and>
         stops_at_orphan H bc (tree_of (bc_db bc')) (drop k headers))"
proof (cases "and_then (map_err NodeStore (get_headers_tip (bc_db bc)))
    (\<lambda>tip. headers_loop H bc headers (batch_start (bc_db bc) tip))")
  case (Inl e)
  with assms(1) have "r = Inl e" "bc' = bc" by (simp_all add: node_process_headers_def)
  with assms(2,3) show ?thesis by simp
next
  case (Inr batch)
  then obtain tip where tip: "get_headers_tip (bc_db bc) = Inr tip"
    and loop: "headers_loop H bc headers (batch_start (bc_db bc) tip) = Inr batch"
    by (auto elim!: and_then_InrE)
  note start = batch_start_ok [OF assms(2,3) tip]
  have "heights_match H (batch_parent bc (batch_start (bc_db bc) tip)) [] (hb_heights (batch_start (bc_db bc) tip))"
    by (simp add: heights_match_def batch_start_def)
  from headers_loop_ok [OF loop start(1) subset_refl assms(4-6) this] start(2) obtain k where
    ok: "batch_ok H bc (set headers) batch" and m: "heights_match H (batch_parent bc batch) (take k headers) (hb_heights batch)"
    and stop: "stops_at_orphan H bc (batch_parent bc batch) (drop k headers)"
    by auto
  have r: "r = Inr (hb_heights batch)"
    using assms(1) Inr by (auto simp: node_process_headers_def on_chainstate_def process_headers_def split: if_splits)
  have db: "bc_db bc' = (if hb_pending batch = [] then bc_db bc
      else bm_backend (handle_store_block_indexes (bc_store bc) (hb_pending batch) (hb_best_tip batch)))"
    using assms(1) Inr by (auto simp: node_process_headers_def on_chainstate_def process_headers_def split: if_splits)
  have "tree_of (bc_db bc') = batch_parent bc batch" "most_work (bc_db bc')"
    using db batch_stored [OF ok] ok assms(3) by (auto simp: batch_ok_def)
  moreover have "i \<in> ran (tree_of (bc_db bc)) \<or> bi_header i \<in> set headers" if "batch_parent bc batch h = Some i" for h i
    using that ok map_le_Some [of "tree_of (bc_db bc)" "batch_parent bc batch" h]
    by (cases "tree_of (bc_db bc) h") (auto simp: batch_ok_def ran_def)
  ultimately show ?thesis using ok m stop r by (auto simp: batch_ok_def ran_def)
qed

end
