(* ===== verification/HeaderPath.thy ===== *)
theory HeaderPath
  imports HeaderTree
begin

text \<open>
  The in-memory best header path: it is rebuilt from the index at startup, follows a message that
  extends it, and is cut by any header at a lower height, whatever its work.
\<close>

subsection \<open>Paths from genesis\<close>

definition on_path :: "header_tree \<Rightarrow> hash list \<Rightarrow> nat \<Rightarrow> bool" where
  "on_path T path k \<longleftrightarrow>
     (\<exists>i. T (path ! k) = Some i \<and> unat (bi_height i) = k \<and> (0 < k \<longrightarrow> prev_hash (bi_header i) = path ! (k - 1)))"

definition path_ok :: "digests \<Rightarrow> chain_params \<Rightarrow> header_tree \<Rightarrow> hash list \<Rightarrow> bool" where
  "path_ok H params T path \<longleftrightarrow> path \<noteq> [] \<and> path ! 0 = genesis_hash H params \<and> (\<forall>k < length path. on_path T path k)"

text \<open>Heights are 32-bit words; the paths below are about trees that have not reached the largest one.\<close>

definition heights_free :: "header_tree \<Rightarrow> bool" where
  "heights_free T \<longleftrightarrow> (\<forall>h i. T h = Some i \<longrightarrow> bi_height i \<noteq> 0xFFFFFFFF)"

lemma tree_height_0:
  assumes "tree_ok H params T" "heights_free T" "T h = Some i" "unat (bi_height i) = 0"
  shows "h = genesis_hash H params"
proof (rule ccontr)
  assume "h \<noteq> genesis_hash H params"
  from tree_ok_entry(4) [OF assms(1,3) this] obtain p where
    p: "T (prev_hash (bi_header i)) = Some p" "bi_height i = bi_height p + 1"
    by (auto simp: child_of_def)
  then have "bi_height p \<noteq> 0xFFFFFFFF" using assms(2) by (auto simp: heights_free_def)
  from unat_u32_Suc [OF this] p(2) assms(4) show False by simp
qed

lemma tree_parent:
  assumes "tree_ok H params T" "T h = Some i" "unat (bi_height i) = Suc n"
  obtains p where "T (prev_hash (bi_header i)) = Some p" "unat (bi_height p) = n"
proof -
  have "bi_height g = 0" if "T (genesis_hash H params) = Some g" for g
    using assms(1) that by (auto simp: tree_ok_def)
  then have "h \<noteq> genesis_hash H params" using assms(2,3) by auto
  from tree_ok_entry(4) [OF assms(1,2) this] obtain p where
    p: "T (prev_hash (bi_header i)) = Some p" "bi_height i = bi_height p + 1"
    by (auto simp: child_of_def)
  then have "bi_height p \<noteq> 0xFFFFFFFF" using assms(3) by auto
  from unat_u32_Suc [OF this] p assms(3) that show thesis by simp
qed

lemma on_path_cong: "(\<And>j. j \<le> k \<Longrightarrow> p ! j = q ! j) \<Longrightarrow> on_path T p k \<longleftrightarrow> on_path T q k"
  by (simp add: on_path_def)

subsection \<open>Reconstruction\<close>

lemma reconstruct_walk_path:
  assumes "tree_ok H params (tree_of db)" "\<forall>h i. tree_of db h = Some i \<longrightarrow> \<not> is_zero h"
    and "tree_of db h = Some i" "unat (bi_height i) = n" "n < length path"
  shows "length (reconstruct_walk n db (Some h) path) = length path \<and> reconstruct_walk n db (Some h) path ! n = h \<and>
    (\<forall>k > n. reconstruct_walk n db (Some h) path ! k = path ! k) \<and>
    (\<forall>k \<le> n. on_path (tree_of db) (reconstruct_walk n db (Some h) path) k)"
  using assms(3-)
proof (induction n arbitrary: h i path)
  case 0
  then have "\<not> is_zero h" using assms(2) by blast
  with 0 show ?case by (auto simp: on_path_def)
next
  case (Suc n)
  have nz: "\<not> is_zero h" using Suc.prems assms(2) by blast
  obtain j where j: "tree_of db (prev_hash (bi_header i)) = Some j" "unat (bi_height j) = n"
    using tree_parent [OF assms(1) Suc.prems(1,2)] by blast
  let ?path = "path[Suc n := h]"
  let ?p = "reconstruct_walk n db (Some (prev_hash (bi_header i))) ?path"
  have eq: "reconstruct_walk (Suc n) db (Some h) path = ?p"
    using nz Suc.prems(1) by (simp add: ok_flatten_def)
  have ih: "length ?p = length path \<and> ?p ! n = prev_hash (bi_header i) \<and> (\<forall>k > n. ?p ! k = ?path ! k) \<and>
      (\<forall>k \<le> n. on_path (tree_of db) ?p k)"
    using Suc.IH [OF j, of ?path] Suc.prems(3) by simp
  then have at: "?p ! Suc n = h" using Suc.prems(3) by simp
  then have "on_path (tree_of db) ?p (Suc n)" using ih Suc.prems(1,2) by (simp add: on_path_def)
  with ih at show ?case unfolding eq by (auto simp: le_Suc_eq)
qed

lemma reconstruct_path:
  assumes "tree_ok H params (tree_of db)" "\<forall>h i. tree_of db h = Some i \<longrightarrow> \<not> is_zero h"
    and "get_headers_tip db = Inr (Some tip)" "tree_of db tip = Some i" "heights_free (tree_of db)"
  shows "path_ok H params (tree_of db) (reconstruct_header_chain db chain) \<and>
    last (reconstruct_header_chain db chain) = tip \<and> length (reconstruct_header_chain db chain) = Suc (unat (bi_height i))"
proof -
  let ?n = "unat (bi_height i)"
  let ?p = "reconstruct_walk ?n db (Some tip) (replicate (Suc ?n) hash_ZERO)"
  have eq: "reconstruct_header_chain db chain = ?p"
    using assms(3-5) by (simp add: unat_u32_Suc heights_free_def reconstruct_header_chain_def ok_flatten_def)
  have p: "length ?p = Suc ?n" "?p ! ?n = tip" "\<forall>k \<le> ?n. on_path (tree_of db) ?p k"
    using reconstruct_walk_path [OF assms(1,2,4) refl, of "replicate (Suc ?n) hash_ZERO"] by simp_all
  obtain j where "tree_of db (?p ! 0) = Some j" "unat (bi_height j) = 0" using p(3) by (auto simp: on_path_def)
  then have "?p ! 0 = genesis_hash H params" by (rule tree_height_0 [OF assms(1,5)])
  moreover have "?p \<noteq> []" using p(1) by (metis list.size(3) nat.distinct(1))
  ultimately show ?thesis
    unfolding eq using p last_conv_nth [of ?p] by (simp add: path_ok_def less_Suc_eq_le)
qed

subsection \<open>Extension\<close>

text \<open>A message whose headers follow each other.\<close>

primrec linked_from :: "digests \<Rightarrow> hash \<Rightarrow> block_header list \<Rightarrow> bool" where
  "linked_from H h [] \<longleftrightarrow> True"
| "linked_from H h (hdr # hdrs) \<longleftrightarrow> prev_hash hdr = h \<and> linked_from H (block_hash H hdr) hdrs"

lemma linked_from_take: "linked_from H h hdrs \<Longrightarrow> linked_from H h (take k hdrs)"
  by (induction hdrs arbitrary: h k) (auto simp: take_Cons')

lemma update_header_chain_end:
  "length chain < 2 ^ 32 \<Longrightarrow> update_header_chain h (word_of_nat (length chain)) chain = chain @ [h]"
  by (simp add: update_header_chain_def unat_word_of_nat_u32)

lemma fold_update_header_chain:
  assumes "length chain + length hdrs \<le> 2 ^ 32"
  shows "fold (\<lambda>(hdr, height). update_header_chain (block_hash H hdr) height)
     (zip hdrs (map word_of_nat [length chain..<length chain + length hdrs])) chain = chain @ map (block_hash H) hdrs"
  using assms
proof (induction hdrs arbitrary: chain)
  case (Cons hdr hdrs)
  have "[length chain..<length chain + length (hdr # hdrs)] =
      length chain # [length (chain @ [block_hash H hdr])..<length (chain @ [block_hash H hdr]) + length hdrs]"
    by (subst upt_conv_Cons) (simp_all add: add.commute)
  with Cons.IH [of "chain @ [block_hash H hdr]"] Cons.prems show ?case
    by (simp only: zip_Cons_Cons list.map fold_simps) (simp add: update_header_chain_end)
qed simp

lemma linked_heights:
  assumes "tree_ok H params T" "linked_from H h hdrs" "T h = Some i" "unat (bi_height i) = n"
    and "\<forall>hdr \<in> set hdrs. \<forall>j. T (block_hash H hdr) = Some j \<longrightarrow> bi_header j = hdr"
    and "\<forall>hdr \<in> set hdrs. block_hash H hdr \<noteq> genesis_hash H params" "heights_match H T hdrs heights"
    and "n + length hdrs < 2 ^ 32"
  shows "heights = map word_of_nat [Suc n..<Suc n + length hdrs] \<and>
    (\<forall>k < length hdrs. \<exists>j. T (block_hash H (hdrs ! k)) = Some j \<and> bi_header j = hdrs ! k \<and> unat (bi_height j) = Suc (n + k))"
  using assms(2-)
proof (induction hdrs arbitrary: h i n heights)
  case (Cons hdr hdrs)
  from Cons.prems(6) obtain j hts where j: "T (block_hash H hdr) = Some j" "heights = bi_height j # hts"
    "heights_match H T hdrs hts"
    by (auto simp: heights_match_def list_all2_Cons1)
  have "child_of H T j" using tree_ok_entry(4) [OF assms(1) j(1)] Cons.prems(5) by simp
  moreover have hj: "bi_header j = hdr" using Cons.prems(4) j(1) by simp
  ultimately have "bi_height j = bi_height i + 1" using Cons.prems(1-3) by (auto simp: child_of_def)
  then have n: "unat (bi_height j) = Suc n" using unat_height_Suc [of "bi_height i"] Cons.prems(3,7) by simp
  then have w: "bi_height j = word_of_nat (Suc n)" by (simp flip: n)
  have rec: "hts = map word_of_nat [Suc (Suc n)..<Suc (Suc n) + length hdrs] \<and>
    (\<forall>k < length hdrs. \<exists>j. T (block_hash H (hdrs ! k)) = Some j \<and> bi_header j = hdrs ! k \<and> unat (bi_height j) = Suc (Suc n + k))"
    using Cons.IH [OF _ j(1) n _ _ j(3)] Cons.prems by simp
  have "[Suc n..<Suc n + length (hdr # hdrs)] = Suc n # [Suc (Suc n)..<Suc (Suc n) + length hdrs]"
    by (subst upt_conv_Cons) simp_all
  then have "heights = map word_of_nat [Suc n..<Suc n + length (hdr # hdrs)]"
    using rec j(2) w by (simp only: list.map)
  moreover have "\<exists>j. T (block_hash H ((hdr # hdrs) ! k)) = Some j \<and> bi_header j = (hdr # hdrs) ! k \<and> unat (bi_height j) = Suc (n + k)"
    if "k < length (hdr # hdrs)" for k
    using that rec j(1) n hj by (cases k) auto
  ultimately show ?case by blast
qed (auto simp: heights_match_def)

text \<open>The path and the tree after a message that extends the path.\<close>

lemma headers_match_length: "heights_match H T hdrs heights \<Longrightarrow> length heights = length hdrs"
  by (simp add: heights_match_def list_all2_lengthD)

lemma path_extend:
  assumes "path_ok H params T path" "T \<subseteq>\<^sub>m T'" "linked_from H (last path) hdrs"
    and "\<forall>k < length hdrs. \<exists>j. T' (block_hash H (hdrs ! k)) = Some j \<and> bi_header j = hdrs ! k \<and>
      unat (bi_height j) = length path + k"
  shows "path_ok H params T' (path @ map (block_hash H) hdrs)"
  using assms
proof (induction hdrs arbitrary: path T)
  case Nil
  then have "on_path T' path k" if "k < length path" for k
    using that map_le_Some [OF Nil(2)] by (fastforce simp: path_ok_def on_path_def)
  with Nil show ?case by (simp add: path_ok_def)
next
  case (Cons hdr hdrs)
  let ?path = "path @ [block_hash H hdr]"
  obtain j where j: "T' (block_hash H hdr) = Some j" "bi_header j = hdr" "unat (bi_height j) = length path"
    using Cons.prems(4) by (metis add_0_right length_Cons nth_Cons_0 zero_less_Suc)
  have "path \<noteq> []" using Cons.prems(1) by (simp add: path_ok_def)
  then have "on_path T' ?path (length path)"
    using j Cons.prems(3) by (simp add: on_path_def nth_append last_conv_nth)
  moreover have "on_path T' ?path k" if "k < length path" for k
    using that Cons.prems(1) map_le_Some [OF Cons.prems(2)]
    by (fastforce simp: path_ok_def on_path_def nth_append)
  ultimately have ok: "path_ok H params T' ?path"
    using Cons.prems(1) by (auto simp: path_ok_def nth_append less_Suc_eq)
  have "\<forall>k < length hdrs. \<exists>j. T' (block_hash H (hdrs ! k)) = Some j \<and> bi_header j = hdrs ! k \<and>
      unat (bi_height j) = length ?path + k"
    using Cons.prems(4) by fastforce
  from Cons.IH [OF ok map_le_refl _ this] Cons.prems(3) show ?case by simp
qed

lemma zip_take_left: "zip (take (length ys) xs) ys = zip xs ys"
  by (induction xs ys rule: list_induct2') auto

lemma headers_extend_path:
  assumes "node_process_headers H bc headers = (Inr heights, bc')" "tree_ok H (bc_params bc) (tree_of (bc_db bc))"
    and "most_work (bc_db bc)" "digest_sizes H" "\<forall>hdr \<in> set headers. wf_header hdr"
    and "inj_on (block_hash H) (insert (genesis_header (bc_params bc)) (set headers \<union> bi_header ` ran (tree_of (bc_db bc))))"
    and "length (best_header_chain bc) + length headers < 2 ^ 32"
    and "path_ok H (bc_params bc) (tree_of (bc_db bc)) (best_header_chain bc)"
    and "linked_from H (last (best_header_chain bc)) headers" "genesis_header (bc_params bc) \<notin> set headers"
  shows "best_header_chain bc' = best_header_chain bc @ map (block_hash H) (take (length heights) headers) \<and>
    path_ok H (bc_params bc) (tree_of (bc_db bc')) (best_header_chain bc')"
proof -
  let ?T = "tree_of (bc_db bc)" and ?U = "tree_of (bc_db bc')" and ?path = "best_header_chain bc"
  have inj: "inj_on (block_hash H) (set headers)" using inj_on_subset [OF assms(6)] by blast
  obtain k where t: "tree_ok H (bc_params bc) ?U" "?T \<subseteq>\<^sub>m ?U" "heights_match H ?U (take k headers) heights"
    "\<forall>i \<in> ran ?U. i \<in> ran ?T \<or> bi_header i \<in> set headers"
    using process_headers_tree [OF assms(1-3) inj assms(5,4)] by auto
  let ?hdrs = "take (length heights) headers"
  have k: "?hdrs = take k headers" using headers_match_length [OF t(3)] by (simp add: min_def)
  have ne: "?path \<noteq> []" using assms(8) by (simp add: path_ok_def)
  then have "on_path ?T ?path (length ?path - 1)" using assms(8) by (simp add: path_ok_def)
  then obtain i where "?T (last ?path) = Some i" "unat (bi_height i) = length ?path - 1"
    unfolding on_path_def last_conv_nth [OF ne] by blast
  moreover obtain n where n: "length ?path = Suc n" using ne by (cases ?path) auto
  ultimately have i: "?T (last ?path) = Some i" "unat (bi_height i) = n" by simp_all
  have U: "bi_header j = hdr" if "hdr \<in> set headers" "?U (block_hash H hdr) = Some j" for hdr j
  proof -
    have "bi_header j \<in> set headers \<union> bi_header ` ran ?T" using t(4) ranI [of ?U "block_hash H hdr" j] that(2) by blast
    then show ?thesis using inj_onD [OF assms(6), of "bi_header j" hdr] tree_ok_entry(1) [OF t(1) that(2)] that(1) by blast
  qed
  have G: "block_hash H hdr \<noteq> genesis_hash H (bc_params bc)" if "hdr \<in> set headers" for hdr
    using that assms(10) inj_onD [OF assms(6), of hdr "genesis_header (bc_params bc)"] by (auto simp: genesis_hash_def)
  have "heights = map word_of_nat [Suc n..<Suc n + length ?hdrs] \<and>
    (\<forall>k < length ?hdrs. \<exists>j. ?U (block_hash H (?hdrs ! k)) = Some j \<and> bi_header j = ?hdrs ! k \<and>
      unat (bi_height j) = Suc (n + k))"
  proof (rule linked_heights [OF t(1) linked_from_take [OF assms(9)] map_le_Some [OF t(2) i(1)] i(2)])
    show "heights_match H ?U ?hdrs heights" using t(3) k by simp
    show "n + length ?hdrs < 2 ^ 32" using assms(7) n by simp
  qed (use U G in \<open>auto dest: in_set_takeD\<close>)
  then have hs: "heights = map word_of_nat [length ?path..<length ?path + length ?hdrs]"
    and at: "\<forall>k < length ?hdrs. \<exists>j. ?U (block_hash H (?hdrs ! k)) = Some j \<and> bi_header j = ?hdrs ! k \<and>
      unat (bi_height j) = length ?path + k"
    using n by simp_all
  have "length ?path + length ?hdrs \<le> 2 ^ 32" using assms(7) by simp
  from fold_update_header_chain [OF this, of H] hs
  have fold: "fold (\<lambda>(hdr, height). update_header_chain (block_hash H hdr) height) (zip headers heights) ?path =
      ?path @ map (block_hash H) ?hdrs"
    by (metis zip_take_left)
  have "best_header_chain bc' = ?path @ map (block_hash H) ?hdrs"
    using assms(1) fold
    by (auto simp: node_process_headers_def on_chainstate_def process_headers_def split: sum.splits if_splits)
  with path_extend [OF assms(8) t(2) linked_from_take [OF assms(9)] at] show ?thesis by simp
qed

end
