(* ===== verification/TreeActivation.thy ===== *)
theory TreeActivation
  imports HeaderTree
begin

text \<open>
  Connecting blocks leaves the header tree alone: activation writes undo positions into index records
  and moves the tips of the connected chain, and nothing else of the index changes.
\<close>

definition same_node :: "block_index \<Rightarrow> block_index \<Rightarrow> bool" where
  "same_node i j \<longleftrightarrow> bi_header j = bi_header i \<and> bi_height j = bi_height i \<and> chain_work j = chain_work i"

definition same_tree :: "header_tree \<Rightarrow> header_tree \<Rightarrow> bool" where
  "same_tree T U \<longleftrightarrow> (\<forall>h. rel_option same_node (T h) (U h))"

lemma same_node_simps [simp]: "same_node i i" "same_node i (i\<lparr>undo_pos := u\<rparr>)" "same_node i (i\<lparr>file_pos := f, undo_pos := u\<rparr>)"
  by (simp_all add: same_node_def)

lemma same_node_trans: "same_node i j \<Longrightarrow> same_node j k \<Longrightarrow> same_node i k"
  by (simp add: same_node_def)

lemma same_tree_refl [simp]: "same_tree T T"
  by (simp add: same_tree_def option.rel_refl)

lemma same_tree_trans:
  assumes "same_tree T U" "same_tree U V"
  shows "same_tree T V"
proof -
  have "rel_option same_node (T h) (V h)" for h
    using assms by (cases "T h"; cases "U h"; cases "V h")
      (auto simp: same_tree_def dest!: spec [of _ h] intro: same_node_trans)
  then show ?thesis by (simp add: same_tree_def)
qed

lemma same_tree_Some: "same_tree T U \<Longrightarrow> T h = Some i \<Longrightarrow> \<exists>j. U h = Some j \<and> same_node i j"
  by (auto simp: same_tree_def dest!: spec [of _ h] elim!: option.rel_cases)

lemma same_tree_Some': "same_tree T U \<Longrightarrow> U h = Some j \<Longrightarrow> \<exists>i. T h = Some i \<and> same_node i j"
  by (auto simp: same_tree_def dest!: spec [of _ h] elim!: option.rel_cases)

lemma same_tree_update: "T h = Some i \<Longrightarrow> same_node i j \<Longrightarrow> same_tree T (T(h \<mapsto> j))"
  by (simp add: same_tree_def option.rel_refl)

lemma same_tree_ok:
  assumes "tree_ok H params T" "same_tree T U"
  shows "tree_ok H params U"
proof -
  obtain g where "T (genesis_hash H params) = Some g" "bi_header g = genesis_header params" "bi_height g = 0"
    using assms(1) by (auto simp: tree_ok_def)
  then have "\<exists>g. U (genesis_hash H params) = Some g \<and> bi_header g = genesis_header params \<and> bi_height g = 0"
    using same_tree_Some [OF assms(2), of "genesis_hash H params" g] by (auto simp: same_node_def)
  moreover have "block_hash H (bi_header j) = h \<and> wf_block_index j \<and> (h \<noteq> genesis_hash H params \<longrightarrow> child_of H U j)"
    if j: "U h = Some j" for h j
  proof -
    obtain i where i: "T h = Some i" "same_node i j" using same_tree_Some' [OF assms(2) j] by blast
    have "child_of H U j" if c: "child_of H T i"
    proof -
      obtain p where p: "T (prev_hash (bi_header i)) = Some p" "bi_height i = bi_height p + 1"
        "chain_work i = add_chain_work (chain_work p) (calculate_block_work (bh_bits (bi_header i)))" "meets_target H (bi_header i)"
        using c by (auto simp: child_of_def)
      obtain q where "U (prev_hash (bi_header i)) = Some q" "same_node p q" using same_tree_Some [OF assms(2) p(1)] by blast
      with p i(2) show ?thesis by (simp add: child_of_def same_node_def)
    qed
    with tree_ok_entry [OF assms(1) i(1)] i(2) show ?thesis by (auto simp: same_node_def wf_block_index_def)
  qed
  ultimately show ?thesis by (simp add: tree_ok_def)
qed

lemma same_tree_heaviest:
  assumes "heaviest T tip w" "same_tree T U"
  shows "heaviest U tip w"
  using assms same_tree_Some [OF assms(2)] same_tree_Some' [OF assms(2)]
  by (fastforce simp: heaviest_def same_node_def)

lemma same_tree_most_work:
  assumes "tree_ok H params (tree_of db)" "same_tree (tree_of db) (tree_of db')" "get_headers_tip db' = get_headers_tip db"
    "most_work db"
  shows "most_work db'"
proof -
  have "\<And>h i. tree_of db h = Some i \<Longrightarrow> wf_block_index i" "\<And>h i. tree_of db' h = Some i \<Longrightarrow> wf_block_index i"
    using tree_ok_entry(2) assms(1) same_tree_ok [OF assms(1,2)] by blast+
  with assms same_tree_heaviest [OF _ assms(2)] show ?thesis using most_work_heaviest by metis
qed

subsection \<open>The records waiting for a flush\<close>

text \<open>Undo positions are collected in memory; each pending record is a node of the tree.\<close>

definition pending_ok :: "block_manager \<Rightarrow> bool" where
  "pending_ok m \<longleftrightarrow> (\<forall>(h, j) \<in> set (bm_pending_undo_indexes m). wf_block_index j \<and>
     (\<exists>i. tree_of (bm_backend m) h = Some i \<and> same_node i j))"

definition index_kept :: "block_manager \<Rightarrow> block_manager \<Rightarrow> bool" where
  "index_kept m m' \<longleftrightarrow> same_tree (tree_of (bm_backend m)) (tree_of (bm_backend m')) \<and>
     get_headers_tip (bm_backend m') = get_headers_tip (bm_backend m) \<and> pending_ok m'"

lemma index_kept_refl: "pending_ok m \<Longrightarrow> index_kept m m"
  by (simp add: index_kept_def)

lemma index_kept_trans: "index_kept m m' \<Longrightarrow> index_kept m' m'' \<Longrightarrow> index_kept m m''"
  unfolding index_kept_def using same_tree_trans by metis

lemma set_update_subset: "set (AList.update k v al) \<subseteq> insert (k, v) (set al)"
  by (induction al) auto

lemma store_undo_kept:
  assumes "handle_store_undo m h undo = Inr m'" "pending_ok m" "\<forall>h i. tree_of (bm_backend m) h = Some i \<longrightarrow> wf_block_index i"
  shows "index_kept m m'"
proof -
  obtain i upos where i: "pending_or_stored_index m h = Inr i"
    and m': "bm_backend m' = bm_backend m"
      "bm_pending_undo_indexes m' = AList.update h (i\<lparr>undo_pos := Some upos\<rparr>) (bm_pending_undo_indexes m)"
    using assms(1) by (auto simp: handle_store_undo_def Let_def elim!: and_then_InrE split: prod.splits)
  have "\<exists>k. tree_of (bm_backend m) h = Some k \<and> same_node k i \<and> wf_block_index i"
  proof (cases "map_of (bm_pending_undo_indexes m) h")
    case None
    then have "tree_of (bm_backend m) h = Some i"
      using i by (auto simp: pending_or_stored_index_def get_block_index_def elim!: and_then_InrE)
    with assms(3) show ?thesis by auto
  next
    case (Some k)
    with i assms(2) show ?thesis
      by (auto simp: pending_or_stored_index_def pending_ok_def dest!: map_of_SomeD bspec)
  qed
  then obtain k where k: "tree_of (bm_backend m) h = Some k" "same_node k i" "wf_block_index i" by blast
  have "pending_ok m'"
    unfolding pending_ok_def m'
  proof (clarify)
    fix h' j
    assume "(h', j) \<in> set (AList.update h (i\<lparr>undo_pos := Some upos\<rparr>) (bm_pending_undo_indexes m))"
    then have "(h', j) = (h, i\<lparr>undo_pos := Some upos\<rparr>) \<or> (h', j) \<in> set (bm_pending_undo_indexes m)"
      using set_update_subset [of h "i\<lparr>undo_pos := Some upos\<rparr>" "bm_pending_undo_indexes m"] by blast
    then show "wf_block_index j \<and> (\<exists>i. tree_of (bm_backend m) h' = Some i \<and> same_node i j)"
      using k assms(2) same_node_trans [OF k(2)] by (auto simp: pending_ok_def wf_block_index_def)
  qed
  then show ?thesis by (simp add: index_kept_def m')
qed

subsection \<open>The flush\<close>

definition put_index_record :: "hash \<times> block_index \<Rightarrow> database \<Rightarrow> database" where
  "put_index_record e db = db_put db BLOCK_INDEX (block_key (fst e)) (serialize encode_block_index (snd e))"

lemma put_index_record_reads:
  assumes "wf_block_index j"
  shows "tree_of (put_index_record (h, j) db) = (tree_of db)(h \<mapsto> j)"
    "get_headers_tip (put_index_record (h, j) db) = get_headers_tip db"
  using get_block_index_stored [OF assms, of "put_index_record (h, j) db" h]
  by (auto simp: fun_eq_iff tree_of_def put_index_record_def get_block_index_def get_headers_tip_def get_hash_def ok_flatten_def)

lemma fold_put_index_records:
  assumes "\<forall>(h, j) \<in> set es. wf_block_index j \<and> (\<exists>i. tree_of db h = Some i \<and> same_node i j)"
  shows "same_tree (tree_of db) (tree_of (fold put_index_record es db))"
    "get_headers_tip (fold put_index_record es db) = get_headers_tip db"
proof -
  have "same_tree (tree_of db) (tree_of (fold put_index_record es db)) \<and>
      get_headers_tip (fold put_index_record es db) = get_headers_tip db"
    using assms
  proof (induction es arbitrary: db)
    case (Cons e es)
    obtain h j where e: "e = (h, j)" by (cases e)
    with Cons.prems obtain i where i: "wf_block_index j" "tree_of db h = Some i" "same_node i j" by auto
    note r = put_index_record_reads [OF i(1)]
    have st: "same_tree (tree_of db) (tree_of (put_index_record e db))"
      using same_tree_update [of "tree_of db" h i j] i(2,3) by (simp add: e r)
    have "wf_block_index j' \<and> (\<exists>i'. tree_of (put_index_record e db) h' = Some i' \<and> same_node i' j')" if m: "(h', j') \<in> set es" for h' j'
    proof -
      obtain k where k: "wf_block_index j'" "tree_of db h' = Some k" "same_node k j'" using Cons.prems m by auto
      obtain k' where "tree_of (put_index_record e db) h' = Some k'" "same_node k k'" using same_tree_Some [OF st k(2)] by blast
      with k show ?thesis by (auto simp: same_node_def)
    qed
    then have "same_tree (tree_of (put_index_record e db)) (tree_of (fold put_index_record es (put_index_record e db))) \<and>
      get_headers_tip (fold put_index_record es (put_index_record e db)) = get_headers_tip (put_index_record e db)"
      by (intro Cons.IH) auto
    then show ?case using same_tree_trans [OF st] by (simp add: e r)
  qed simp
  then show "same_tree (tree_of db) (tree_of (fold put_index_record es db))"
    "get_headers_tip (fold put_index_record es db) = get_headers_tip db"
    by simp_all
qed

text \<open>Writes outside the index table, and not to the headers tip, do not show in the tree.\<close>

definition index_blind :: "(database \<Rightarrow> database) \<Rightarrow> bool" where
  "index_blind f \<longleftrightarrow> (\<forall>db. tree_of (f db) = tree_of db \<and> get_headers_tip (f db) = get_headers_tip db)"

lemma index_blind_fold: "(\<And>x. index_blind (f x)) \<Longrightarrow> index_blind (fold f xs)"
  by (induction xs) (auto simp: index_blind_def)

lemma index_blind_puts:
  "index_blind (put_coin u)" "index_blind (\<lambda>db. db_put db UTXOS [KEY_BEST_BLOCK] h)"
  "index_blind (\<lambda>db. db_put db CHAIN_META k v)"
  by (auto simp: index_blind_def put_coin_def fun_eq_iff tree_of_def get_block_index_def get_headers_tip_def get_hash_def
      split: prod.splits coin_update.splits)

lemma update_utxo_set_kept:
  assumes "pending_ok m"
  shows "index_kept m (handle_update_utxo_set m coins best connected)"
proof -
  let ?db1 = "case best of Some h \<Rightarrow> db_put (fold put_coin coins (bm_backend m)) UTXOS [KEY_BEST_BLOCK] h
    | None \<Rightarrow> fold put_coin coins (bm_backend m)"
  let ?db2 = "fold put_index_record (bm_pending_undo_indexes m) ?db1"
  let ?db3 = "fold (\<lambda>(height, h) db. db_put db CHAIN_META (height_key PREFIX_HEIGHT height) h) connected ?db2"
  have 1: "tree_of ?db1 = tree_of (bm_backend m)" "get_headers_tip ?db1 = get_headers_tip (bm_backend m)"
    using index_blind_fold [of put_coin coins] index_blind_puts(1,2)
    by (auto simp: index_blind_def split: option.splits)
  have 2: "same_tree (tree_of ?db1) (tree_of ?db2)" "get_headers_tip ?db2 = get_headers_tip ?db1"
    using fold_put_index_records [of "bm_pending_undo_indexes m" ?db1] assms 1 by (simp_all add: pending_ok_def)
  have "index_blind (\<lambda>db. case x of (height, h) \<Rightarrow> db_put db CHAIN_META (height_key PREFIX_HEIGHT height) h)" for x
    using index_blind_puts(3) by (cases x) simp
  then have "index_blind (fold (\<lambda>(height, h) db. db_put db CHAIN_META (height_key PREFIX_HEIGHT height) h) connected)"
    by (intro index_blind_fold) (auto split: prod.splits)
  then have 3: "tree_of ?db3 = tree_of ?db2" "get_headers_tip ?db3 = get_headers_tip ?db2"
    by (simp_all add: index_blind_def)
  have rec: "(\<lambda>(h, index) db. db_put db BLOCK_INDEX (block_key h) (serialize encode_block_index index)) = put_index_record"
    by (auto simp: fun_eq_iff put_index_record_def)
  have "bm_backend (handle_update_utxo_set m coins best connected) = ?db3"
    "bm_pending_undo_indexes (handle_update_utxo_set m coins best connected) = []"
    by (simp_all add: handle_update_utxo_set_def Let_def rec)
  with 1 2 3 show ?thesis by (simp add: index_kept_def pending_ok_def)
qed

subsection \<open>Activation\<close>

abbreviation cs_kept :: "chainstate_manager \<Rightarrow> chainstate_manager \<Rightarrow> bool" where
  "cs_kept cs cs' \<equiv> index_kept (cs_store cs) (cs_store cs')"

lemma flush_if_due_kept: "pending_ok (cs_store cs) \<Longrightarrow> cs_kept cs (flush_if_due cs)"
  by (simp add: flush_if_due_def flush_cache_def Let_def index_kept_refl update_utxo_set_kept)

lemma connect_next_kept:
  assumes "pending_ok (cs_store cs)" "\<forall>h i. tree_of (cs_db cs) h = Some i \<longrightarrow> wf_block_index i"
  shows "cs_kept cs (snd (connect_next H ec assumed now cs tip h b))"
proof -
  have undo: "index_kept (cs_store cs) m" if "handle_store_undo (cs_store cs) h undo = Inr m" for undo m
    using store_undo_kept [OF that assms] .
  have "cs_kept cs (flush_if_due cs1)" if "handle_store_undo (cs_store cs) h undo = Inr m" "cs_store cs1 = m" for undo m cs1
    using undo [OF that(1)] flush_if_due_kept [of cs1] that(2) index_kept_trans by (auto simp: index_kept_def)
  with index_kept_refl [OF assms(1)] show ?thesis
    by (auto simp: connect_next_def Let_def split: prod.splits sum.splits)
qed

lemma next_hash_store [simp]: "cs_store (snd (next_hash cs height)) = cs_store cs"
  by (simp add: next_hash_def split: option.splits)

lemma activate_step_kept:
  assumes "pending_ok (cs_store cs)" "\<forall>h i. tree_of (cs_db cs) h = Some i \<longrightarrow> wf_block_index i"
  shows "cs_kept cs (snd (activate_step H ec assumed now cs tip))"
proof -
  obtain h cs1 where n: "next_hash cs (bi_height tip + 1) = (h, cs1)" by fastforce
  then have "cs_store cs1 = cs_store cs" using next_hash_store [of cs "bi_height tip + 1"] by simp
  with n assms connect_next_kept [of cs1] index_kept_refl [OF assms(1)] show ?thesis
    by (auto simp: activate_step_def split: option.splits sum.splits)
qed

lemma kept_wf:
  assumes "index_kept m m'" "\<forall>h i. tree_of (bm_backend m) h = Some i \<longrightarrow> wf_block_index i"
  shows "\<forall>h i. tree_of (bm_backend m') h = Some i \<longrightarrow> wf_block_index i"
  using assms same_tree_Some' by (fastforce simp: index_kept_def same_node_def wf_block_index_def simp del: tree_of_Some)

lemma activate_loop_kept:
  assumes "pending_ok (cs_store cs)" "\<forall>h i. tree_of (cs_db cs) h = Some i \<longrightarrow> wf_block_index i"
  shows "cs_kept cs (snd (activate_loop n H ec assumed now cs tip))"
  using assms
proof (induction n arbitrary: cs tip)
  case 0
  then show ?case by (simp add: index_kept_refl)
next
  case (Suc n)
  obtain a cs1 where a: "activate_step H ec assumed (now n) cs tip = (a, cs1)" by fastforce
  have k: "cs_kept cs cs1" using activate_step_kept [OF Suc.prems, of H ec assumed "now n" tip] a by simp
  have "cs_kept cs1 (snd (activate_loop n H ec assumed now cs1 tip'))" for tip'
    using Suc.IH kept_wf [OF k Suc.prems(2)] k by (auto simp: index_kept_def)
  with k a show ?case using index_kept_trans by (cases a) auto
qed

lemma activate_best_chain_kept:
  assumes "pending_ok (cs_store cs)" "\<forall>h i. tree_of (cs_db cs) h = Some i \<longrightarrow> wf_block_index i"
  shows "cs_kept cs (snd (activate_best_chain H ec now cs))"
  using assms activate_loop_kept [of "cs\<lparr>is_activating := True\<rparr>" ACTIVATE_BATCH_SIZE H ec]
  by (auto simp: activate_best_chain_def activate_best_chain_inner_def index_kept_refl Let_def case_prod_unfold
      split: sum.splits)

end
