(* ===== verification/Messages.thy ===== *)
theory Messages
  imports BlockFile
begin

text \<open>
  The peer-to-peer messages, \<^verbatim>\<open>net/p2p/message.rs\<close>, \<^verbatim>\<open>codec.rs\<close>, \<^verbatim>\<open>messages/\<close>, and the frame parser of
  the read loop in \<^verbatim>\<open>node.rs\<close>.  Command names and strings are their bytes.  A decoder that may panic
  returns an option, with None for the panic.
\<close>

subsection \<open>Errors and commands\<close>

text \<open>\<open>P2pDecode\<close> carries the decoder's error where the code has its text.\<close>

datatype (plugins only: code size) p2p_error =
    ConnectionFailed
  | WrongMagic u32 u32
  | MessageTooLarge u32 nat
  | ChecksumMismatch u32 u32
  | MalformedCommand bytes string
  | ConnectionClosed
  | HandshakeTimeout nat
  | PeerVersionTooOld i32 i32
  | DuplicateHandshakeMessage string
  | P2pIo
  | P2pDecode "decode_error + string"
  | SelfConnection
  | Banned

type_synonym 'a p2p_result = "p2p_error + 'a"

datatype (plugins only: code size) command =
    Version_cmd | Verack_cmd | Ping_cmd | Pong_cmd | GetHeaders_cmd | Headers_cmd | GetData_cmd | Inv_cmd
  | GetBlocks_cmd | Block_cmd | Tx_cmd | Addr_cmd | GetAddr_cmd | SendHeaders_cmd | FeeFilter_cmd | SendCmpct_cmd
  | NotFound_cmd | Unknown_cmd bytes

definition ascii :: "string \<Rightarrow> bytes" where
  "ascii s = map (\<lambda>c. word_of_nat (of_char c)) s"

fun command_name :: "command \<Rightarrow> bytes" where
  "command_name Version_cmd = ascii ''version''"
| "command_name Verack_cmd = ascii ''verack''"
| "command_name Ping_cmd = ascii ''ping''"
| "command_name Pong_cmd = ascii ''pong''"
| "command_name GetHeaders_cmd = ascii ''getheaders''"
| "command_name Headers_cmd = ascii ''headers''"
| "command_name GetData_cmd = ascii ''getdata''"
| "command_name Inv_cmd = ascii ''inv''"
| "command_name GetBlocks_cmd = ascii ''getblocks''"
| "command_name Block_cmd = ascii ''block''"
| "command_name Tx_cmd = ascii ''tx''"
| "command_name Addr_cmd = ascii ''addr''"
| "command_name GetAddr_cmd = ascii ''getaddr''"
| "command_name SendHeaders_cmd = ascii ''sendheaders''"
| "command_name FeeFilter_cmd = ascii ''feefilter''"
| "command_name SendCmpct_cmd = ascii ''sendcmpct''"
| "command_name NotFound_cmd = ascii ''notfound''"
| "command_name (Unknown_cmd s) = s"

definition known_commands :: "command list" where
  "known_commands = [Version_cmd, Verack_cmd, Ping_cmd, Pong_cmd, GetHeaders_cmd, Headers_cmd, GetData_cmd, Inv_cmd,
     GetBlocks_cmd, Block_cmd, Tx_cmd, Addr_cmd, GetAddr_cmd, SendHeaders_cmd, FeeFilter_cmd, SendCmpct_cmd, NotFound_cmd]"

text \<open>The match on the name.\<close>

definition command_of_name :: "bytes \<Rightarrow> command" where
  "command_of_name s =
     (case List.find (\<lambda>c. command_name c = s) known_commands of Some c \<Rightarrow> c | None \<Rightarrow> Unknown_cmd s)"

definition from_wire :: "bytes \<Rightarrow> command p2p_result" where
  "from_wire bytes =
     (let end = length (takeWhile (\<lambda>b. b \<noteq> 0) bytes)
      in if end = 0 then Inl (MalformedCommand bytes ''empty command'')
         else if list_ex (\<lambda>b. b \<noteq> 0) (drop end bytes)
           then Inl (MalformedCommand bytes ''non-null byte after command terminator'')
         else if list_ex (\<lambda>b. \<not> (0x20 \<le> b \<and> b \<le> 0x7e)) (take end bytes)
           then Inl (MalformedCommand bytes ''command contains non-printable ascii'')
         else if \<not> valid_utf8 (take end bytes) then Inl (MalformedCommand bytes ''command is not utf-8'')
         else Inr (command_of_name (take end bytes)))"

definition to_wire :: "command \<Rightarrow> bytes" where
  "to_wire c = (let s = take 12 (command_name c) in s @ replicate (12 - length s) 0)"

subsection \<open>Message headers\<close>

record message_header =
  mh_magic :: magic
  mh_command :: command
  mh_length :: u32
  mh_checksum :: bytes

definition checksum :: "digests \<Rightarrow> bytes \<Rightarrow> bytes" where
  "checksum H payload = take 4 (hash256 H payload)"

definition encode_header :: "digests \<Rightarrow> magic \<Rightarrow> command \<Rightarrow> bytes \<Rightarrow> bytes" where
  "encode_header H magic cmd payload =
     magic @ to_wire cmd @ to_le 4 (word_of_nat (length payload) :: u32) @ checksum H payload"

definition decode_header :: "bytes \<Rightarrow> magic \<Rightarrow> message_header p2p_result" where
  "decode_header buf expected_magic =
     (let magic = take 4 buf
      in if magic \<noteq> expected_magic then Inl (WrongMagic (of_le expected_magic) (of_le magic))
         else
           and_then (from_wire (take 12 (drop 4 buf))) (\<lambda>cmd.
           let len = of_le (take 4 (drop 16 buf)) :: u32
           in if unat len > MAX_MESSAGE_SIZE then Inl (MessageTooLarge len MAX_MESSAGE_SIZE)
              else Inr \<lparr>mh_magic = magic, mh_command = cmd, mh_length = len, mh_checksum = take 4 (drop 20 buf)\<rparr>))"

definition verify_checksum :: "digests \<Rightarrow> message_header \<Rightarrow> bytes \<Rightarrow> unit p2p_result" where
  "verify_checksum H hdr payload =
     (let actual = checksum H payload
      in if actual \<noteq> mh_checksum hdr
         then Inl (ChecksumMismatch (of_le (rev (mh_checksum hdr))) (of_le (rev actual))) else Inr ())"

subsection \<open>Addresses\<close>

text \<open>An IPv6 socket address has no flow label and no scope here.\<close>

datatype ip_addr = V4 bytes | V6 bytes

record socket_addr =
  sa_ip :: ip_addr
  sa_port :: u16

record net_addr =
  na_time :: u32
  na_services :: u64
  na_ip :: bytes
  na_port :: u16

definition to_ipv6_mapped :: "bytes \<Rightarrow> bytes" where
  "to_ipv6_mapped octets = replicate 10 0 @ [0xff, 0xff] @ octets"

definition ip_octets :: "ip_addr \<Rightarrow> bytes" where
  "ip_octets ip = (case ip of V4 o4 \<Rightarrow> to_ipv6_mapped o4 | V6 o6 \<Rightarrow> o6)"

definition to_socket_addr :: "net_addr \<Rightarrow> socket_addr" where
  "to_socket_addr a = \<lparr>sa_ip = V6 (na_ip a), sa_port = na_port a\<rparr>"

definition from_socket_addr :: "socket_addr \<Rightarrow> net_addr" where
  "from_socket_addr a = \<lparr>na_time = 0, na_services = 0, na_ip = ip_octets (sa_ip a), na_port = sa_port a\<rparr>"

definition encode_net_addr :: "net_addr \<Rightarrow> encoder \<Rightarrow> encoder" where
  "encode_net_addr a enc =
     encode_u16be (na_port a) (encode_array (na_ip a) (encode_u64 (na_services a) (encode_u32 (na_time a) enc)))"

definition decode_net_addr :: "decoder \<Rightarrow> (net_addr \<times> decoder) decode_result" where
  "decode_net_addr d =
     and_then (decode_u32 d) (\<lambda>(time, d).
     and_then (decode_u64 d) (\<lambda>(services, d).
     and_then (read_array 16 d ''ip'') (\<lambda>(ip, d).
     and_then (read_u16_be d ''port'') (\<lambda>(port, d).
     Inr (\<lparr>na_time = time, na_services = services, na_ip = ip, na_port = port\<rparr>, d)))))"

subsection \<open>Messages\<close>

definition MAX_ADDR_ENTRIES :: nat where
  "MAX_ADDR_ENTRIES = 1000"

definition MAX_INV_ENTRIES :: nat where
  "MAX_INV_ENTRIES = 50000"

definition MAX_HEADERS_PER_MSG :: nat where
  "MAX_HEADERS_PER_MSG = 2000"

text \<open>A count read from the payload, refused above a limit, then that many items.\<close>

definition read_counted ::
  "(decoder \<Rightarrow> ('a \<times> decoder) decode_result) \<Rightarrow> string \<Rightarrow> nat \<Rightarrow> decoder \<Rightarrow> ('a list \<times> decoder) decode_result" where
  "read_counted dec field limit d =
     and_then (read_varint d field) (\<lambda>(count, d).
     if unat count > limit then Inl (AllocationTooLarge field count limit)
     else read_items dec (unat count) d)"

definition encode_addr :: "net_addr list \<Rightarrow> bytes" where
  "encode_addr addresses = encode_varlist encode_net_addr addresses []"

definition decode_addr :: "bytes \<Rightarrow> net_addr list decode_result" where
  "decode_addr payload = decode_exact (read_counted decode_net_addr ''count'' MAX_ADDR_ENTRIES) payload ''addr''"

datatype inv_type =
    Inv_Error | Inv_Tx | Inv_Block | Inv_FilteredBlock | Inv_CmpctBlock | Inv_Wtx | Inv_WitnessTx | Inv_WitnessBlock
  | Inv_FilteredWitnessBlock

fun inv_type_code :: "inv_type \<Rightarrow> u32" where
  "inv_type_code Inv_Error = 0"
| "inv_type_code Inv_Tx = 1"
| "inv_type_code Inv_Block = 2"
| "inv_type_code Inv_FilteredBlock = 3"
| "inv_type_code Inv_CmpctBlock = 4"
| "inv_type_code Inv_Wtx = 5"
| "inv_type_code Inv_WitnessTx = 0x40000001"
| "inv_type_code Inv_WitnessBlock = 0x40000002"
| "inv_type_code Inv_FilteredWitnessBlock = 0x40000003"

definition inv_type_from_u32 :: "u32 \<Rightarrow> inv_type" where
  "inv_type_from_u32 val =
     (if val = 1 then Inv_Tx else if val = 2 then Inv_Block else if val = 3 then Inv_FilteredBlock
      else if val = 4 then Inv_CmpctBlock else if val = 5 then Inv_Wtx else if val = 1073741825 then Inv_WitnessTx
      else if val = 1073741826 then Inv_WitnessBlock else if val = 1073741827 then Inv_FilteredWitnessBlock
      else Inv_Error)"

record inv_vector =
  inv_kind :: inv_type
  inv_hash :: hash

definition encode_inv_vector :: "inv_vector \<Rightarrow> encoder \<Rightarrow> encoder" where
  "encode_inv_vector v enc = encode_array (inv_hash v) (encode_u32 (inv_type_code (inv_kind v)) enc)"

definition decode_inv_vector :: "decoder \<Rightarrow> (inv_vector \<times> decoder) decode_result" where
  "decode_inv_vector d =
     and_then (decode_u32 d) (\<lambda>(typ, d).
     and_then (decode_array 32 d) (\<lambda>(h, d).
     Inr (\<lparr>inv_kind = inv_type_from_u32 typ, inv_hash = h\<rparr>, d)))"

text \<open>\<^verbatim>\<open>Inv\<close> and \<^verbatim>\<open>GetData\<close> share their wire form and limit; the reported context differs.\<close>

definition encode_inventory :: "inv_vector list \<Rightarrow> encoder \<Rightarrow> encoder" where
  "encode_inventory items enc = encode_varlist encode_inv_vector items enc"

definition decode_inventory :: "decoder \<Rightarrow> (inv_vector list \<times> decoder) decode_result" where
  "decode_inventory d = read_counted decode_inv_vector ''inv_count'' MAX_INV_ENTRIES d"

record get_headers =
  gh_version :: u32
  gh_locator :: "hash list"
  gh_stop_hash :: hash

definition get_headers_from_tip :: "hash \<Rightarrow> get_headers" where
  "get_headers_from_tip tip = \<lparr>gh_version = 70015, gh_locator = [tip], gh_stop_hash = hash_ZERO\<rparr>"

definition encode_get_headers :: "get_headers \<Rightarrow> bytes" where
  "encode_get_headers g =
     encode_array (gh_stop_hash g) (encode_varlist encode_array (gh_locator g) (encode_u32 (gh_version g) []))"

text \<open>
  The count is not limited: \<^verbatim>\<open>Vec::with_capacity\<close> panics when the 32-byte entries would need more than
  \<^verbatim>\<open>isize::MAX\<close> bytes.  An allocation the system refuses is not modelled.
\<close>

definition decode_get_headers :: "bytes \<Rightarrow> get_headers decode_result option" where
  "decode_get_headers payload =
     (case and_then (decode_u32 (decoder_new payload)) (\<lambda>(ver, d).
           and_then (read_varint d ''locator_count'') (\<lambda>(count, d). Inr (ver, count, d))) of
        Inl e \<Rightarrow> Some (Inl e)
      | Inr (ver, count, d) \<Rightarrow>
          if unat count * 32 > 2 ^ 63 - 1 then None
          else Some (
            and_then (read_items (\<lambda>d. read_array 32 d ''locator_hash'') (unat count) d) (\<lambda>(locator, d).
            and_then (read_array 32 d ''stop_hash'') (\<lambda>(stop, d).
            and_then (finish d ''getheaders'') (\<lambda>_.
            Inr \<lparr>gh_version = ver, gh_locator = locator, gh_stop_hash = stop\<rparr>)))))"

definition encode_header_entry :: "block_header \<Rightarrow> encoder \<Rightarrow> encoder" where
  "encode_header_entry h enc = encode_u8 0 (encode_array (header_serialize h) enc)"

definition decode_header_entry :: "decoder \<Rightarrow> (block_header \<times> decoder) decode_result" where
  "decode_header_entry d =
     and_then (read_array 80 d ''header'') (\<lambda>(raw, d).
     and_then (decode_u8 d) (\<lambda>(tx_count, d).
     if tx_count \<noteq> 0 then Inl (InvalidValue ''tx_count'' (ucast tx_count))
     else Inr (header_deserialize raw, d)))"

definition encode_headers :: "block_header list \<Rightarrow> bytes" where
  "encode_headers hs = encode_varlist encode_header_entry hs []"

definition decode_headers :: "bytes \<Rightarrow> block_header list decode_result" where
  "decode_headers payload =
     (if payload = [] then Inr []
      else decode_exact (read_counted decode_header_entry ''header_count'' MAX_HEADERS_PER_MSG) payload ''headers'')"


definition PROTOCOL_VERSION :: i32 where
  "PROTOCOL_VERSION = 70015"

definition SERVICES :: u64 where
  "SERVICES = 0x09"

definition USER_AGENT :: bytes where
  "USER_AGENT = ascii ''/bitcrab:0.1.0/''"

record version_msg =
  vm_version :: i32
  vm_services :: u64
  vm_timestamp :: i64
  vm_recv_services :: u64
  vm_recv_addr :: bytes
  vm_recv_port :: u16
  vm_from_services :: u64
  vm_from_addr :: bytes
  vm_from_port :: u16
  vm_nonce :: u64
  vm_user_agent :: bytes
  vm_start_height :: i32
  vm_relay :: bool

text \<open>The clock is a parameter: whole seconds and the nanoseconds within the second.\<close>

definition make_nonce :: "u32 \<Rightarrow> u64" where
  "make_nonce subsec_nanos = ucast subsec_nanos OR 0xDEADBEEF00000000"

definition our_version :: "u64 \<Rightarrow> u32 \<Rightarrow> i32 \<Rightarrow> bool \<Rightarrow> version_msg" where
  "our_version secs subsec_nanos start_height relay =
     \<lparr>vm_version = PROTOCOL_VERSION, vm_services = SERVICES, vm_timestamp = secs, vm_recv_services = 0,
      vm_recv_addr = replicate 16 0, vm_recv_port = 0, vm_from_services = SERVICES, vm_from_addr = replicate 16 0,
      vm_from_port = 0, vm_nonce = make_nonce subsec_nanos, vm_user_agent = USER_AGENT,
      vm_start_height = start_height, vm_relay = relay\<rparr>"

definition our_version_with_nonce :: "u64 \<Rightarrow> u32 \<Rightarrow> u64 \<Rightarrow> i32 \<Rightarrow> bool \<Rightarrow> version_msg" where
  "our_version_with_nonce secs subsec_nanos nonce start_height relay =
     (our_version secs subsec_nanos start_height relay)\<lparr>vm_nonce := nonce\<rparr>"

definition encode_version :: "version_msg \<Rightarrow> encoder \<Rightarrow> encoder" where
  "encode_version v enc =
     (let enc = encode_i64 (vm_timestamp v) (encode_u64 (vm_services v) (encode_i32 (vm_version v) enc));
          enc = encode_u16be (vm_recv_port v) (encode_array (vm_recv_addr v) (encode_u64 (vm_recv_services v) enc));
          enc = encode_u16be (vm_from_port v) (encode_array (vm_from_addr v) (encode_u64 (vm_from_services v) enc))
      in encode_bool (vm_relay v) (encode_i32 (vm_start_height v)
           (encode_varstr (vm_user_agent v) (encode_u64 (vm_nonce v) enc))))"

definition decode_version :: "decoder \<Rightarrow> (version_msg \<times> decoder) decode_result" where
  "decode_version d =
     and_then (decode_i32 d) (\<lambda>(version, d).
     and_then (decode_u64 d) (\<lambda>(services, d).
     and_then (decode_i64 d) (\<lambda>(timestamp, d).
     and_then (decode_u64 d) (\<lambda>(recv_services, d).
     and_then (read_array 16 d ''recv_addr'') (\<lambda>(recv_addr, d).
     and_then (read_u16_be d ''recv_port'') (\<lambda>(recv_port, d).
     and_then (decode_u64 d) (\<lambda>(from_services, d).
     and_then (read_array 16 d ''from_addr'') (\<lambda>(from_addr, d).
     and_then (read_u16_be d ''from_port'') (\<lambda>(from_port, d).
     and_then (decode_u64 d) (\<lambda>(nonce, d).
     and_then (read_var_str d ''user_agent'') (\<lambda>(user_agent, d).
     and_then (decode_i32 d) (\<lambda>(start_height, d).
     and_then (decode_optional_field decode_bool d) (\<lambda>(relay, d).
     Inr (\<lparr>vm_version = version, vm_services = services, vm_timestamp = timestamp,
           vm_recv_services = recv_services, vm_recv_addr = recv_addr, vm_recv_port = recv_port,
           vm_from_services = from_services, vm_from_addr = from_addr, vm_from_port = from_port,
           vm_nonce = nonce, vm_user_agent = user_agent, vm_start_height = start_height,
           vm_relay = (case relay of Some b \<Rightarrow> b | None \<Rightarrow> True)\<rparr>, d))))))))))))))"

text \<open>\<^verbatim>\<open>Ping\<close> and \<^verbatim>\<open>Pong\<close> carry one nonce; \<^verbatim>\<open>Verack\<close> and \<^verbatim>\<open>GetAddr\<close> carry nothing.\<close>

definition encode_ping :: "u64 \<Rightarrow> encoder \<Rightarrow> encoder" where
  "encode_ping nonce enc = encode_u64 nonce enc"

definition decode_ping :: "decoder \<Rightarrow> (u64 \<times> decoder) decode_result" where
  "decode_ping d = and_then (decode_u64 d) (\<lambda>(nonce, d). Inr (nonce, d))"

definition decode_verack :: "decoder \<Rightarrow> (unit \<times> decoder) decode_result" where
  "decode_verack d = Inr ((), d)"

definition decode_get_addr :: "bytes \<Rightarrow> unit decode_result" where
  "decode_get_addr payload = finish (decoder_new payload) ''getaddr''"

datatype (plugins only: code size) message =
    Version_msg version_msg
  | Verack_msg
  | Ping_msg u64
  | Pong_msg u64
  | GetHeaders_msg get_headers
  | Headers_msg "block_header list"
  | GetData_msg "inv_vector list"
  | Inv_msg "inv_vector list"
  | Block_msg block
  | Addr_msg "net_addr list"
  | GetAddr_msg
  | NotFound_msg "inv_vector list"
  | Ignored_msg command
  | Unknown_msg bytes

fun message_command :: "message \<Rightarrow> command" where
  "message_command (Version_msg _) = Version_cmd"
| "message_command Verack_msg = Verack_cmd"
| "message_command (Ping_msg _) = Ping_cmd"
| "message_command (Pong_msg _) = Pong_cmd"
| "message_command (GetHeaders_msg _) = GetHeaders_cmd"
| "message_command (Headers_msg _) = Headers_cmd"
| "message_command (GetData_msg _) = GetData_cmd"
| "message_command (Inv_msg _) = Inv_cmd"
| "message_command (Block_msg _) = Block_cmd"
| "message_command (Addr_msg _) = Addr_cmd"
| "message_command GetAddr_msg = GetAddr_cmd"
| "message_command (NotFound_msg _) = NotFound_cmd"
| "message_command (Ignored_msg c) = c"
| "message_command (Unknown_msg s) = Unknown_cmd s"

fun message_encode :: "message \<Rightarrow> bytes" where
  "message_encode (Version_msg v) = serialize encode_version v"
| "message_encode Verack_msg = []"
| "message_encode (Ping_msg n) = serialize encode_ping n"
| "message_encode (Pong_msg n) = serialize encode_ping n"
| "message_encode (GetHeaders_msg g) = encode_get_headers g"
| "message_encode (Headers_msg hs) = encode_headers hs"
| "message_encode (GetData_msg vs) = serialize encode_inventory vs"
| "message_encode (Inv_msg vs) = serialize encode_inventory vs"
| "message_encode (Block_msg b) = serialize encode_block b"
| "message_encode (Addr_msg as) = encode_addr as"
| "message_encode GetAddr_msg = []"
| "message_encode (NotFound_msg vs) = serialize encode_inventory vs"
| "message_encode (Ignored_msg c) = []"
| "message_encode (Unknown_msg s) = []"

definition map_ok :: "('a \<Rightarrow> 'b) \<Rightarrow> 'a decode_result \<Rightarrow> 'b decode_result" where
  "map_ok f r = and_then r (\<lambda>x. Inr (f x))"

fun message_decode :: "command \<Rightarrow> bytes \<Rightarrow> message decode_result option" where
  "message_decode Version_cmd p = Some (map_ok Version_msg (decode_exact decode_version p ''version''))"
| "message_decode Verack_cmd p = Some (map_ok (\<lambda>_. Verack_msg) (decode_exact decode_verack p ''verack''))"
| "message_decode Ping_cmd p = Some (map_ok Ping_msg (decode_exact decode_ping p ''ping''))"
| "message_decode Pong_cmd p = Some (map_ok Pong_msg (decode_exact decode_ping p ''pong''))"
| "message_decode GetHeaders_cmd p = map_option (map_ok GetHeaders_msg) (decode_get_headers p)"
| "message_decode Headers_cmd p = Some (map_ok Headers_msg (decode_headers p))"
| "message_decode GetData_cmd p = Some (map_ok GetData_msg (decode_exact decode_inventory p ''getdata''))"
| "message_decode Inv_cmd p = Some (map_ok Inv_msg (decode_exact decode_inventory p ''inv''))"
| "message_decode Block_cmd p = Some (map_ok Block_msg (decode_exact decode_block p ''block''))"
| "message_decode Addr_cmd p = Some (map_ok Addr_msg (decode_addr p))"
| "message_decode GetAddr_cmd p = Some (map_ok (\<lambda>_. GetAddr_msg) (decode_get_addr p))"
| "message_decode NotFound_cmd p = Some (map_ok NotFound_msg (decode_exact decode_inventory p ''inv''))"
| "message_decode (Unknown_cmd s) p = Some (Inr (Unknown_msg s))"
| "message_decode other p = Some (Inr (Ignored_msg other))"

subsection \<open>Messages read back what was written\<close>

context reader
begin

lemma read_counted_reader: "reader (read_counted dec field limit)"
proof
  fix d x d'
  assume v: "dec_valid d" and r: "read_counted dec field limit d = Inr (x, d')"
  from r obtain c d1 where 1: "read_varint d field = Inr (c, d1)" "read_items dec (unat c) d1 = Inr (x, d')"
    by (auto simp: read_counted_def and_then_eq_Inr split: if_splits)
  from read_varint_sound [OF v 1(1)] read_items_safe [OF _ 1(2)]
  show "dec_data d' = dec_data d \<and> dec_pos d \<le> dec_pos d' \<and> dec_valid d'" by auto
qed

end

context codec
begin

lemma read_count_items:
  assumes "dec_valid d" "list_all wf xs" "length xs < 2 ^ 64" "rest d = encode_varlist enc xs [] @ r"
  obtains d1 where "read_varint d field = Inr (word_of_nat (length xs), d1)"
    "read_items dec (length xs) d1 = Inr (xs, advance d (length (encode_varlist enc xs [])))"
proof
  let ?n = "encode_varint (word_of_nat (length xs)) []"
  let ?d = "advance d (length ?n)"
  have eq: "rest d = ?n @ (fold enc xs [] @ r)" using assms(4) by (simp add: encode_varlist_Nil)
  show "read_varint d field = Inr (word_of_nat (length xs), ?d)"
    using assms(1) eq by (rule read_varint_encode)
  have v: "dec_valid ?d" using assms(1) eq by (rule dec_valid_advance_append)
  have "rest ?d = fold enc xs [] @ r" using eq by simp
  then show "read_items dec (length xs) ?d = Inr (xs, advance d (length (encode_varlist enc xs [])))"
    using read_items_fold [OF v assms(2)] by (simp add: encode_varlist_Nil)
qed

lemma read_counted_codec:
  assumes "limit < 2 ^ 64"
  shows "codec (read_counted dec field limit) (encode_varlist enc) (\<lambda>xs. list_all wf xs \<and> length xs \<le> limit)"
proof (intro codec.intro codec_axioms.intro)
  show "reader (read_counted dec field limit)" by (rule read_counted_reader)
  show "encode_varlist enc xs e = e @ encode_varlist enc xs []" for xs e
    by (rule encode_varlist_append)
  show "encode_varlist enc xs [] \<noteq> []" for xs by (simp add: encode_varlist_Nil)
  fix d r :: _ and xs :: "'a list"
  assume "dec_valid d" "list_all wf xs \<and> length xs \<le> limit" "rest d = encode_varlist enc xs [] @ r"
  with assms show "read_counted dec field limit d = Inr (xs, advance d (length (encode_varlist enc xs [])))"
    by (auto simp: read_counted_def unat_word_of_nat_u64 elim!: read_count_items [of d xs r field])
qed

lemma optional_codec:
  "codec (decode_optional_field dec) (\<lambda>x e. case x of None \<Rightarrow> e | Some v \<Rightarrow> enc v e)
     (\<lambda>x. case x of None \<Rightarrow> False | Some v \<Rightarrow> wf v)"
proof (intro codec.intro codec_axioms.intro reader.intro)
  fix d x d'
  assume v: "dec_valid d" and r: "decode_optional_field dec d = Inr (x, d')"
  from r have "d' = d \<or> (\<exists>y. dec d = Inr (y, d'))"
    by (auto simp: decode_optional_field_def and_then_eq_Inr split: if_splits)
  then show "dec_data d' = dec_data d \<and> dec_pos d \<le> dec_pos d' \<and> dec_valid d'"
    using v dec_safe [OF v] by blast
next
  show "(case x of None \<Rightarrow> e | Some v \<Rightarrow> enc v e) = e @ (case x of None \<Rightarrow> [] | Some v \<Rightarrow> enc v [])" for x e
    by (cases x) (auto intro: enc_append)
  show "(case x of None \<Rightarrow> [] | Some v \<Rightarrow> enc v []) \<noteq> []" if "case x of None \<Rightarrow> False | Some v \<Rightarrow> wf v" for x
    using that enc_nonempty by (auto split: option.splits)
  fix d x r
  assume v: "dec_valid d" and w: "case x of None \<Rightarrow> False | Some v \<Rightarrow> wf v"
    and r: "rest d = (case x of None \<Rightarrow> [] | Some v \<Rightarrow> enc v []) @ r"
  from w obtain y where y: "x = Some y" "wf y" by (auto split: option.splits)
  moreover from y v r enc_nonempty [of y] have "\<not> is_done d" by (simp add: rest_Nil_iff)
  ultimately show "decode_optional_field dec d =
      Inr (x, advance d (length (case x of None \<Rightarrow> [] | Some v \<Rightarrow> enc v [])))"
    using dec_enc [OF v y(2)] r by (simp add: decode_optional_field_def)
qed

end

lemma read_array_strict:
  "0 < n \<Longrightarrow> strict_codec (\<lambda>d. read_array n d label) encode_array (\<lambda>bs. length bs = n)"
  by (rule strict_codec_fixed [where n = n and f = "\<lambda>bs. bs" and g = "\<lambda>bs. bs" and label = label])
    (auto simp: read_array_def slice_rest encoder_defs)

lemma read_u16_be_strict: "strict_codec (\<lambda>d. read_u16_be d label) encode_u16be (\<lambda>_. True)"
  by (rule strict_codec_fixed [where n = 2 and f = "\<lambda>bs. of_le (rev bs)" and g = "\<lambda>x. rev (to_le 2 x)" and label = label])
    (auto simp: read_u16_be_def slice_rest encoder_defs to_le_of_le_n)

lemmas read_array_codec = strict_codec.axioms(1) [OF read_array_strict]
lemmas read_u16_be_codec = strict_codec.axioms(1) [OF read_u16_be_strict]

definition wf_net_addr :: "net_addr \<Rightarrow> bool" where
  "wf_net_addr a \<longleftrightarrow> length (na_ip a) = 16"

lemma decode_net_addr_fields:
  "decode_net_addr = iso_dec (\<lambda>(t, s, i, p). \<lparr>na_time = t, na_services = s, na_ip = i, na_port = p\<rparr>)
     (pair_dec decode_u32 (pair_dec decode_u64 (pair_dec (\<lambda>d. read_array 16 d ''ip'') (\<lambda>d. read_u16_be d ''port''))))"
  by (simp add: decode_net_addr_def field_by_field)

interpretation net_addr: strict_codec decode_net_addr encode_net_addr wf_net_addr
proof -
  have "strict_codec decode_net_addr
      (\<lambda>a. pair_enc encode_u32 (pair_enc encode_u64 (pair_enc encode_array encode_u16be))
        (na_time a, na_services a, na_ip a, na_port a)) wf_net_addr"
    unfolding decode_net_addr_fields
    by (rule strict_codec_iso [OF strict_codec_pair [OF u32.strict_codec_axioms strict_codec_pair
          [OF u64.strict_codec_axioms strict_codec_pair [OF read_array_strict read_u16_be_strict]]]])
      (auto simp: compose_defs wf_net_addr_def)
  then show "strict_codec decode_net_addr encode_net_addr wf_net_addr"
    by (simp add: pair_enc_def [abs_def] encode_net_addr_def [abs_def])
qed

lemma inv_type_roundtrip [simp]: "inv_type_from_u32 (inv_type_code t) = t"
  by (cases t) (simp_all add: inv_type_from_u32_def)

lemma decode_inv_vector_fields:
  "decode_inv_vector = iso_dec (\<lambda>(t, h). \<lparr>inv_kind = inv_type_from_u32 t, inv_hash = h\<rparr>)
     (pair_dec decode_u32 (decode_array 32))"
  by (simp add: decode_inv_vector_def field_by_field)

interpretation inv_vector: codec decode_inv_vector encode_inv_vector "\<lambda>v. wf_hash (inv_hash v)"
proof -
  have "codec decode_inv_vector
      (\<lambda>v. pair_enc encode_u32 encode_array (inv_type_code (inv_kind v), inv_hash v)) (\<lambda>v. wf_hash (inv_hash v))"
    unfolding decode_inv_vector_fields
    by (rule codec_iso [OF codec_pair [OF u32.codec_axioms strict_codec.axioms(1) [OF array_strict]]])
      (auto simp: compose_defs wf_hash_def)
  then show "codec decode_inv_vector encode_inv_vector (\<lambda>v. wf_hash (inv_hash v))"
    by (simp add: pair_enc_def [abs_def] encode_inv_vector_def [abs_def])
qed

interpretation header_entry: codec decode_header_entry encode_header_entry wf_header
proof unfold_locales
  let ?raw = "\<lambda>d. read_array 80 d ''header''"
  show "encode_header_entry h e = e @ encode_header_entry h []" for h e
    by (simp add: encode_header_entry_def encoder_defs)
  show "encode_header_entry h [] \<noteq> []" for h by (simp add: encode_header_entry_def encoder_defs)
  fix d x d'
  assume "dec_valid d" "decode_header_entry d = Inr (x, d')"
  then show "dec_data d' = dec_data d \<and> dec_pos d \<le> dec_pos d' \<and> dec_valid d'"
    by (auto simp: decode_header_entry_def read_array_def decode_u8_def read_u8_def and_then_eq_Inr
        dec_valid_advance split: if_splits)
next
  fix d h r
  assume v: "dec_valid d" and w: "wf_header h" and r: "rest d = encode_header_entry h [] @ r"
  then have eq: "rest d = header_serialize h @ [0] @ r" by (simp add: encode_header_entry_def encoder_defs)
  have 1: "read_array 80 d ''header'' = Inr (header_serialize h, advance d 80)"
    using length_header_serialize [OF w] eq
    by (simp add: read_array_def require_def length_rest [symmetric] slice_rest)
  have v1: "dec_valid (advance d 80)"
    using dec_valid_advance_append [OF v eq] length_header_serialize [OF w] by simp
  have "rest (advance d 80) = encode_u8 0 [] @ r"
    using eq length_header_serialize [OF w] by (simp add: encoder_defs)
  from u8.dec_enc [OF v1 TrueI this] have 2: "decode_u8 (advance d 80) = Inr (0, advance d 81)"
    by (simp add: encoder_defs)
  show "decode_header_entry d = Inr (h, advance d (length (encode_header_entry h [])))"
    using 1 2 length_header_serialize [OF w]
    by (simp add: decode_header_entry_def header_roundtrip [OF w] encode_header_entry_def encoder_defs)
qed

definition wf_version :: "version_msg \<Rightarrow> bool" where
  "wf_version v \<longleftrightarrow> length (vm_recv_addr v) = 16 \<and> length (vm_from_addr v) = 16 \<and>
     wf_varbytes (vm_user_agent v) \<and> valid_utf8 (vm_user_agent v)"

lemma decode_version_fields:
  "decode_version = iso_dec
     (\<lambda>(v, s, t, rs, ra, rp, fs, fa, fp, n, u, h, r).
       \<lparr>vm_version = v, vm_services = s, vm_timestamp = t, vm_recv_services = rs, vm_recv_addr = ra,
        vm_recv_port = rp, vm_from_services = fs, vm_from_addr = fa, vm_from_port = fp, vm_nonce = n,
        vm_user_agent = u, vm_start_height = h, vm_relay = (case r of Some b \<Rightarrow> b | None \<Rightarrow> True)\<rparr>)
     (pair_dec decode_i32 (pair_dec decode_u64 (pair_dec decode_i64 (pair_dec decode_u64
       (pair_dec (\<lambda>d. read_array 16 d ''recv_addr'') (pair_dec (\<lambda>d. read_u16_be d ''recv_port'')
       (pair_dec decode_u64 (pair_dec (\<lambda>d. read_array 16 d ''from_addr'') (pair_dec (\<lambda>d. read_u16_be d ''from_port'')
       (pair_dec decode_u64 (pair_dec (\<lambda>d. read_var_str d ''user_agent'') (pair_dec decode_i32
         (decode_optional_field decode_bool)))))))))))))"
  by (simp add: decode_version_def field_by_field)

interpretation version: codec decode_version encode_version wf_version
proof -
  have "codec decode_version
      (\<lambda>v. pair_enc encode_i32 (pair_enc encode_u64 (pair_enc encode_i64 (pair_enc encode_u64
         (pair_enc encode_array (pair_enc encode_u16be (pair_enc encode_u64 (pair_enc encode_array
         (pair_enc encode_u16be (pair_enc encode_u64 (pair_enc encode_varstr (pair_enc encode_i32
           (\<lambda>x e. case x of None \<Rightarrow> e | Some b \<Rightarrow> encode_bool b e))))))))))))
       (vm_version v, vm_services v, vm_timestamp v, vm_recv_services v, vm_recv_addr v, vm_recv_port v,
        vm_from_services v, vm_from_addr v, vm_from_port v, vm_nonce v, vm_user_agent v, vm_start_height v,
        Some (vm_relay v))) wf_version"
    unfolding decode_version_fields
    by (rule codec_iso [OF codec_pair [OF i32.codec_axioms codec_pair [OF u64.codec_axioms codec_pair
          [OF i64.codec_axioms codec_pair [OF u64.codec_axioms codec_pair [OF read_array_codec codec_pair
          [OF read_u16_be_codec codec_pair [OF u64.codec_axioms codec_pair [OF read_array_codec codec_pair
          [OF read_u16_be_codec codec_pair [OF u64.codec_axioms codec_pair [OF varstr.codec_axioms codec_pair
          [OF i32.codec_axioms bool.optional_codec]]]]]]]]]]]]])
      (auto simp: compose_defs wf_version_def)
  then show "codec decode_version encode_version wf_version"
    by (simp add: pair_enc_def [abs_def] encode_version_def [abs_def] Let_def)
qed

definition wf_inventory :: "inv_vector list \<Rightarrow> bool" where
  "wf_inventory vs \<longleftrightarrow> list_all (\<lambda>v. wf_hash (inv_hash v)) vs \<and> length vs \<le> MAX_INV_ENTRIES"

interpretation inventory: codec decode_inventory encode_inventory wf_inventory
  using inv_vector.read_counted_codec [of MAX_INV_ENTRIES "''inv_count''"]
  by (simp add: decode_inventory_def [abs_def] encode_inventory_def [abs_def] wf_inventory_def [abs_def]
      MAX_INV_ENTRIES_def)

lemma addr_roundtrip:
  assumes "list_all wf_net_addr as" "length as \<le> MAX_ADDR_ENTRIES"
  shows "decode_addr (encode_addr as) = Inr as"
  using codec.decode_exact_serialize [OF net_addr.read_counted_codec [of MAX_ADDR_ENTRIES "''count''"]] assms
  by (simp add: decode_addr_def encode_addr_def serialize_def MAX_ADDR_ENTRIES_def)

lemma headers_roundtrip:
  assumes "list_all wf_header hs" "length hs \<le> MAX_HEADERS_PER_MSG"
  shows "decode_headers (encode_headers hs) = Inr hs"
  using codec.decode_exact_serialize [OF header_entry.read_counted_codec [of MAX_HEADERS_PER_MSG "''header_count''"]]
    assms
  by (simp add: decode_headers_def encode_headers_def serialize_def MAX_HEADERS_PER_MSG_def
      header_entry.encode_varlist_Nil)

interpretation locator: codec "\<lambda>d. read_array 32 d ''locator_hash''" encode_array wf_hash
  using read_array_codec [of 32 "''locator_hash''"] by (simp add: wf_hash_def [abs_def])

definition wf_get_headers :: "get_headers \<Rightarrow> bool" where
  "wf_get_headers g \<longleftrightarrow> list_all wf_hash (gh_locator g) \<and> wf_hash (gh_stop_hash g) \<and>
     length (gh_locator g) * 32 < 2 ^ 63"

lemma get_headers_roundtrip:
  assumes "wf_get_headers g"
  shows "decode_get_headers (encode_get_headers g) = Some (Inr g)"
proof -
  let ?list = "encode_varlist encode_array (gh_locator g) []"
  let ?bs = "encode_u32 (gh_version g) [] @ ?list @ gh_stop_hash g"
  have enc: "encode_get_headers g = ?bs"
    by (simp add: encode_get_headers_def encode_array_def push_bytes_def locator.encode_varlist_flat)
  have w: "list_all wf_hash (gh_locator g)" "length (gh_stop_hash g) = 32" "length (gh_locator g) * 32 < 2 ^ 63"
    using assms by (auto simp: wf_get_headers_def wf_hash_def)
  then have n: "length (gh_locator g) < 2 ^ 64" by simp
  let ?d1 = "advance (decoder_new ?bs) (length (encode_u32 (gh_version g) []))"
  have 1: "decode_u32 (decoder_new ?bs) = Inr (gh_version g, ?d1)"
    by (rule u32.dec_enc [OF decoder_new_simps(1) TrueI]) simp
  have v1: "dec_valid ?d1" by (rule dec_valid_advance_append) auto
  have r1: "rest ?d1 = ?list @ gh_stop_hash g" by simp
  obtain d2 where 2: "read_varint ?d1 ''locator_count'' = Inr (word_of_nat (length (gh_locator g)), d2)"
      "read_items (\<lambda>d. read_array 32 d ''locator_hash'') (length (gh_locator g)) d2 =
        Inr (gh_locator g, advance ?d1 (length ?list))"
    using locator.read_count_items [OF v1 w(1) n r1] by blast
  let ?d3 = "advance ?d1 (length ?list)"
  have r3: "rest ?d3 = gh_stop_hash g @ []" using r1 by (simp del: advance_advance)
  have v3: "dec_valid ?d3" using v1 r1 by (rule dec_valid_advance_append)
  have 3: "read_array 32 ?d3 ''stop_hash'' = Inr (gh_stop_hash g, advance ?d3 32)"
    using r3 w(2) by (simp add: read_array_def require_def length_rest [symmetric] slice_rest del: advance_advance)
  have 4: "finish (advance ?d3 32) ''getheaders'' = Inr ()"
    using w(2) by (simp add: finish_def is_done_def)
  have u: "unat (word_of_nat (length (gh_locator g)) :: u64) = length (gh_locator g)"
    using n by (simp add: unat_word_of_nat_u64)
  show ?thesis
    unfolding enc decode_get_headers_def
    using 1 2 3 4 u w(3) by (simp del: advance_advance)
qed

text \<open>The commands the decoder knows and has no message for.\<close>

definition ignored_commands :: "command list" where
  "ignored_commands = [GetBlocks_cmd, Tx_cmd, SendHeaders_cmd, FeeFilter_cmd, SendCmpct_cmd]"

fun wf_message :: "message \<Rightarrow> bool" where
  "wf_message (Version_msg v) = wf_version v"
| "wf_message (GetHeaders_msg g) = wf_get_headers g"
| "wf_message (Headers_msg hs) = (list_all wf_header hs \<and> length hs \<le> MAX_HEADERS_PER_MSG)"
| "wf_message (GetData_msg vs) = wf_inventory vs"
| "wf_message (Inv_msg vs) = wf_inventory vs"
| "wf_message (NotFound_msg vs) = wf_inventory vs"
| "wf_message (Block_msg b) = wf_block b"
| "wf_message (Addr_msg as) = (list_all wf_net_addr as \<and> length as \<le> MAX_ADDR_ENTRIES)"
| "wf_message (Ignored_msg c) = (c \<in> set ignored_commands)"
| "wf_message _ = True"

lemma map_ok_Inr [simp]: "map_ok f (Inr x) = Inr (f x)"
  by (simp add: map_ok_def)

interpretation ping: codec decode_ping encode_ping "\<lambda>_. True"
proof -
  have "decode_ping = iso_dec (\<lambda>n. n) decode_u64" by (simp add: decode_ping_def field_by_field)
  then show "codec decode_ping encode_ping (\<lambda>_. True)"
    using codec_iso [OF u64.codec_axioms, of "\<lambda>_. True" "\<lambda>n. n" "\<lambda>n. n"] by (simp add: encode_ping_def [abs_def])
qed

lemma empty_payloads:
  "decode_exact decode_verack [] label = Inr ()" "decode_get_addr [] = Inr ()"
  by (simp_all add: decode_exact_def decode_verack_def decode_get_addr_def finish_def is_done_def decoder_new_def)

lemma message_roundtrip:
  assumes "wf_message m"
  shows "message_decode (message_command m) (message_encode m) = Some (Inr m)"
proof (cases m)
  case (Ignored_msg c)
  with assms show ?thesis by (auto simp: ignored_commands_def)
qed (use assms in \<open>simp_all add: version.decode_exact_serialize ping.decode_exact_serialize
      inventory.decode_exact_serialize block.decode_exact_serialize addr_roundtrip headers_roundtrip
      get_headers_roundtrip empty_payloads\<close>)

end
