(* ===== verification/AddrMan.thy ===== *)
theory AddrMan
  imports Messages "HOL-Library.AList"
begin

text \<open>
  The address manager, \<^verbatim>\<open>net/p2p/addr_man.rs\<close>.  A hash map is the association list of its entries in
  iteration order, with distinct keys.  Instants are nanoseconds on a clock that every operation reads
  once; the bucket hash (\<^verbatim>\<open>DefaultHasher\<close> over the key and the address groups) and the random shuffle
  are parameters.  Saving and loading \<^verbatim>\<open>peers.dat\<close> goes through bincode: the snapshot of entries is
  modelled, its bytes are not.

  The invariant \<open>am_ok\<close> says that the buckets hold exactly the known addresses, each once, in the table
  its flag names and in the bucket its groups give; every operation keeps it.
\<close>

subsection \<open>Clock and hash maps\<close>

type_synonym instant = nat

definition from_secs :: "nat \<Rightarrow> nat" where
  "from_secs s = s * 1000000000"

definition elapsed :: "instant \<Rightarrow> instant \<Rightarrow> nat" where
  "elapsed now t = now - t"

definition as_secs :: "nat \<Rightarrow> nat" where
  "as_secs d = d div 1000000000"

text \<open>\<^verbatim>\<open>*map.entry(k).or_insert(d)\<close> changed by \<open>f\<close>.\<close>

definition entry_or :: "'k \<Rightarrow> 'v \<Rightarrow> ('v \<Rightarrow> 'v) \<Rightarrow> ('k \<times> 'v) list \<Rightarrow> ('k \<times> 'v) list" where
  "entry_or k d f m = AList.update k (f (case map_of m k of Some v \<Rightarrow> v | None \<Rightarrow> d)) m"

text \<open>\<^verbatim>\<open>if let Some(v) = map.get_mut(k)\<close>.\<close>

definition modify :: "'k \<Rightarrow> ('v \<Rightarrow> 'v) \<Rightarrow> ('k \<times> 'v) list \<Rightarrow> ('k \<times> 'v) list" where
  "modify k f m = map (\<lambda>(k', v). (k', if k' = k then f v else v)) m"

text \<open>\<^verbatim>\<open>Iterator::max_by_key\<close> keeps the last of equal maxima; \<open>le\<close> compares keys.\<close>

fun max_by_key :: "('a \<Rightarrow> 'a \<Rightarrow> bool) \<Rightarrow> 'a list \<Rightarrow> 'a option" where
  "max_by_key le [] = None"
| "max_by_key le (x # xs) = Some (fold (\<lambda>y best. if le best y then y else best) xs x)"

subsection \<open>Address entries\<close>

definition ADDRMAN_NEW_BUCKET_COUNT :: nat where
  "ADDRMAN_NEW_BUCKET_COUNT = 1024"

definition ADDRMAN_TRIED_BUCKET_COUNT :: nat where
  "ADDRMAN_TRIED_BUCKET_COUNT = 256"

definition ADDRMAN_BUCKET_SIZE :: nat where
  "ADDRMAN_BUCKET_SIZE = 64"

definition MAX_SCORE :: i32 where
  "MAX_SCORE = 100"

definition MIN_SCORE :: i32 where
  "MIN_SCORE = - 10"

definition BAN_DURATION :: nat where
  "BAN_DURATION = from_secs (60 * 10)"

definition RETRY_INTERVAL :: nat where
  "RETRY_INTERVAL = from_secs (60 * 2)"

record addr_info =
  ai_addr :: socket_addr
  ai_source :: socket_addr
  ai_score :: i32
  is_tried :: bool
  last_connected :: "instant option"
  last_attempt :: "instant option"
  banned_at :: "instant option"
  success_count :: u32
  failure_count :: u32

definition addr_info_new :: "socket_addr \<Rightarrow> socket_addr \<Rightarrow> addr_info" where
  "addr_info_new addr source =
     \<lparr>ai_addr = addr, ai_source = source, ai_score = 0, is_tried = False, last_connected = None,
      last_attempt = None, banned_at = None, success_count = 0, failure_count = 0\<rparr>"

definition ai_is_banned :: "instant \<Rightarrow> addr_info \<Rightarrow> bool" where
  "ai_is_banned now e = (case banned_at e of None \<Rightarrow> False | Some t \<Rightarrow> elapsed now t < BAN_DURATION)"

definition is_too_recent :: "instant \<Rightarrow> addr_info \<Rightarrow> bool" where
  "is_too_recent now e = (case last_attempt e of None \<Rightarrow> False | Some t \<Rightarrow> elapsed now t < RETRY_INTERVAL)"

definition is_connectable :: "instant \<Rightarrow> addr_info \<Rightarrow> bool" where
  "is_connectable now e \<longleftrightarrow> \<not> ai_is_banned now e \<and> \<not> is_too_recent now e"

definition to_net_addr :: "instant \<Rightarrow> addr_info \<Rightarrow> net_addr" where
  "to_net_addr now e =
     \<lparr>na_time = (case last_connected e of None \<Rightarrow> 0 | Some t \<Rightarrow> word_of_nat (as_secs (elapsed now t))),
      na_services = 1, na_ip = ip_octets (sa_ip (ai_addr e)), na_port = sa_port (ai_addr e)\<rparr>"

subsection \<open>The tables\<close>

record addr_man =
  map_info :: "(socket_addr \<times> addr_info) list"
  new_buckets :: "socket_addr list list"
  tried_buckets :: "socket_addr list list"
  am_key :: bytes

text \<open>The hashes \<^verbatim>\<open>DefaultHasher\<close> gives for what is fed to it.\<close>

record addr_hasher =
  hash_new :: "bytes \<Rightarrow> bytes \<Rightarrow> bytes \<Rightarrow> u64"
  hash_tried :: "bytes \<Rightarrow> ip_addr \<Rightarrow> bytes \<Rightarrow> u64"

definition addr_man_new :: "bytes \<Rightarrow> addr_man" where
  "addr_man_new key =
     \<lparr>map_info = [], new_buckets = replicate ADDRMAN_NEW_BUCKET_COUNT [],
      tried_buckets = replicate ADDRMAN_TRIED_BUCKET_COUNT [], am_key = key\<rparr>"

definition get_group :: "ip_addr \<Rightarrow> bytes" where
  "get_group ip = (case ip of V4 octets \<Rightarrow> take 2 octets | V6 octets \<Rightarrow> take 4 octets)"

definition get_new_bucket :: "addr_hasher \<Rightarrow> addr_man \<Rightarrow> socket_addr \<Rightarrow> socket_addr \<Rightarrow> nat" where
  "get_new_bucket S am tgt source =
     unat (hash_new S (am_key am) (get_group (sa_ip tgt)) (get_group (sa_ip source))) mod ADDRMAN_NEW_BUCKET_COUNT"

definition get_tried_bucket :: "addr_hasher \<Rightarrow> addr_man \<Rightarrow> socket_addr \<Rightarrow> nat" where
  "get_tried_bucket S am tgt =
     unat (hash_tried S (am_key am) (sa_ip tgt) (get_group (sa_ip tgt))) mod ADDRMAN_TRIED_BUCKET_COUNT"

text \<open>\<^verbatim>\<open>bucket.remove(0)\<close>, when the bucket is full.\<close>

definition am_evict_new :: "addr_man \<Rightarrow> nat \<Rightarrow> addr_man" where
  "am_evict_new am b =
     (if length (new_buckets am ! b) \<ge> ADDRMAN_BUCKET_SIZE
      then am\<lparr>new_buckets := (new_buckets am)[b := tl (new_buckets am ! b)],
              map_info := AList.delete (hd (new_buckets am ! b)) (map_info am)\<rparr>
      else am)"

definition am_add :: "addr_hasher \<Rightarrow> addr_man \<Rightarrow> socket_addr \<Rightarrow> socket_addr \<Rightarrow> addr_man" where
  "am_add S am addr source =
     (if map_of (map_info am) addr \<noteq> None then am
      else
        let b = get_new_bucket S am addr source;
            am = am_evict_new am b
        in am\<lparr>map_info := AList.update addr (addr_info_new addr source) (map_info am),
              new_buckets := (new_buckets am)[b := new_buckets am ! b @ [addr]]\<rparr>)"

definition add_many :: "addr_hasher \<Rightarrow> addr_man \<Rightarrow> socket_addr list \<Rightarrow> socket_addr \<Rightarrow> addr_man" where
  "add_many S am addrs source = fold (\<lambda>addr am. am_add S am addr source) addrs am"

text \<open>
  A full tried bucket gives up its oldest entry to the new table, whatever the size of the bucket there.
\<close>

definition am_evict_tried :: "addr_hasher \<Rightarrow> addr_man \<Rightarrow> nat \<Rightarrow> addr_man" where
  "am_evict_tried S am t =
     (if length (tried_buckets am ! t) \<ge> ADDRMAN_BUCKET_SIZE
      then
        let victim = hd (tried_buckets am ! t);
            am = am\<lparr>tried_buckets := (tried_buckets am)[t := tl (tried_buckets am ! t)]\<rparr>
        in case map_of (map_info am) victim of
             None \<Rightarrow> am
           | Some v_info \<Rightarrow>
               let n = get_new_bucket S am victim (ai_source v_info)
               in am\<lparr>map_info := modify victim (\<lambda>e. e\<lparr>is_tried := False\<rparr>) (map_info am),
                     new_buckets := (new_buckets am)[n := new_buckets am ! n @ [victim]]\<rparr>
      else am)"

definition am_good :: "addr_hasher \<Rightarrow> addr_man \<Rightarrow> socket_addr \<Rightarrow> addr_man" where
  "am_good S am addr =
     (case map_of (map_info am) addr of
        None \<Rightarrow> am
      | Some info \<Rightarrow>
          if is_tried info then am
          else
            let n = get_new_bucket S am addr (ai_source info);
                am = am\<lparr>new_buckets := (new_buckets am)[n := filter (\<lambda>x. x \<noteq> addr) (new_buckets am ! n)],
                        map_info := modify addr (\<lambda>e. e\<lparr>is_tried := True\<rparr>) (map_info am)\<rparr>;
                t = get_tried_bucket S am addr;
                am = am_evict_tried S am t
            in am\<lparr>tried_buckets := (tried_buckets am)[t := tried_buckets am ! t @ [addr]]\<rparr>)"

definition smin :: "i32 \<Rightarrow> i32 \<Rightarrow> i32" where
  "smin a b = (if sint a \<le> sint b then a else b)"

definition smax :: "i32 \<Rightarrow> i32 \<Rightarrow> i32" where
  "smax a b = (if sint b \<le> sint a then a else b)"

definition am_record_success :: "addr_hasher \<Rightarrow> instant \<Rightarrow> addr_man \<Rightarrow> socket_addr \<Rightarrow> addr_man" where
  "am_record_success S now am addr =
     am_good S
       (am\<lparr>map_info := modify addr (\<lambda>e. e\<lparr>ai_score := smin (ai_score e + 1) MAX_SCORE,
             last_connected := Some now, last_attempt := Some now, success_count := success_count e + 1,
             banned_at := None\<rparr>) (map_info am)\<rparr>)
       addr"

definition failed_entry :: "instant \<Rightarrow> addr_info \<Rightarrow> addr_info" where
  "failed_entry now e =
     (let e = e\<lparr>ai_score := smax (ai_score e - 1) (MIN_SCORE - 1), failure_count := failure_count e + 1,
               last_attempt := Some now\<rparr>
      in if sint (ai_score e) < sint MIN_SCORE then e\<lparr>banned_at := Some now\<rparr> else e)"

definition am_record_failure :: "instant \<Rightarrow> addr_man \<Rightarrow> socket_addr \<Rightarrow> addr_man" where
  "am_record_failure now am addr = am\<lparr>map_info := modify addr (failed_entry now) (map_info am)\<rparr>"

subsection \<open>Selection\<close>

text \<open>The order of the keys \<^verbatim>\<open>(is_tried, score, success_count)\<close>.\<close>

definition rank_le :: "addr_info \<Rightarrow> addr_info \<Rightarrow> bool" where
  "rank_le a b \<longleftrightarrow>
     (if is_tried a \<noteq> is_tried b then is_tried b
      else if ai_score a \<noteq> ai_score b then sint (ai_score a) < sint (ai_score b)
      else success_count a \<le> success_count b)"

definition is_ipv4 :: "socket_addr \<Rightarrow> bool" where
  "is_ipv4 a = (case sa_ip a of V4 _ \<Rightarrow> True | V6 _ \<Rightarrow> False)"

definition select_best_ipv4 :: "instant \<Rightarrow> addr_man \<Rightarrow> socket_addr list \<Rightarrow> socket_addr option" where
  "select_best_ipv4 now am active =
     map_option ai_addr (max_by_key rank_le
       (filter (\<lambda>e. is_connectable now e \<and> is_ipv4 (ai_addr e) \<and> ai_addr e \<notin> set active)
          (map snd (map_info am))))"

definition select_best :: "instant \<Rightarrow> addr_man \<Rightarrow> socket_addr list \<Rightarrow> socket_addr option" where
  "select_best now am active =
     map_option ai_addr (max_by_key rank_le
       (filter (\<lambda>e. is_connectable now e \<and> ai_addr e \<notin> set active) (map snd (map_info am))))"

definition connectable_count :: "instant \<Rightarrow> addr_man \<Rightarrow> nat" where
  "connectable_count now am = length (filter (is_connectable now) (map snd (map_info am)))"

text \<open>\<open>indices\<close> is the shuffled list of the positions of the connectable entries.\<close>

definition get_random_sample :: "instant \<Rightarrow> nat list \<Rightarrow> addr_man \<Rightarrow> nat \<Rightarrow> net_addr list" where
  "get_random_sample now indices am count =
     (let all_connectable = filter (is_connectable now) (map snd (map_info am))
      in if all_connectable = [] then []
         else
           let sample_size = min count (length all_connectable)
           in map (\<lambda>i. to_net_addr now (all_connectable ! i)) (take sample_size indices))"

subsection \<open>The snapshot in peers.dat\<close>

record persisted_addr_info =
  pa_addr :: socket_addr
  pa_source :: socket_addr
  pa_score :: i32
  pa_is_tried :: bool
  pa_success_count :: u32
  pa_failure_count :: u32

text \<open>Addresses are written as text and parsed back; a parse that fails skips the entry.\<close>

definition am_save :: "addr_man \<Rightarrow> bytes \<times> persisted_addr_info list" where
  "am_save am =
     (am_key am, map (\<lambda>(_, e). \<lparr>pa_addr = ai_addr e, pa_source = ai_source e, pa_score = ai_score e,
        pa_is_tried = is_tried e, pa_success_count = success_count e, pa_failure_count = failure_count e\<rparr>)
        (map_info am))"

definition am_load_entry :: "addr_hasher \<Rightarrow> persisted_addr_info \<Rightarrow> addr_man \<Rightarrow> addr_man" where
  "am_load_entry S p am =
     (let addr = pa_addr p; source = pa_source p;
          info = (addr_info_new addr source)\<lparr>ai_score := smax (pa_score p) 0, is_tried := pa_is_tried p,
            success_count := pa_success_count p, failure_count := pa_failure_count p\<rparr>;
          am = am\<lparr>map_info := AList.update addr info (map_info am)\<rparr>
      in if is_tried info
         then
           let b = get_tried_bucket S am addr
           in if length (tried_buckets am ! b) < ADDRMAN_BUCKET_SIZE
              then am\<lparr>tried_buckets := (tried_buckets am)[b := tried_buckets am ! b @ [addr]]\<rparr> else am
         else
           let b = get_new_bucket S am addr source
           in if length (new_buckets am ! b) < ADDRMAN_BUCKET_SIZE
              then am\<lparr>new_buckets := (new_buckets am)[b := new_buckets am ! b @ [addr]]\<rparr> else am)"

definition am_load :: "addr_hasher \<Rightarrow> bytes \<times> persisted_addr_info list \<Rightarrow> addr_man" where
  "am_load S snapshot = fold (am_load_entry S) (snd snapshot) (addr_man_new (fst snapshot))"

subsection \<open>Hash map facts\<close>

lemma map_of_modify: "map_of (modify k f m) x = (if x = k then map_option f (map_of m x) else map_of m x)"
  by (induction m) (auto simp: modify_def)

lemma keys_modify [simp]: "map fst (modify k f m) = map fst m"
  by (simp add: modify_def case_prod_unfold comp_def)

lemma map_of_delete [simp]: "map_of (AList.delete k m) x = (if x = k then None else map_of m x)"
  by (simp add: AList.delete_conv')

lemma map_of_update [simp]: "map_of (AList.update k v m) x = (if x = k then Some v else map_of m x)"
  by (simp add: AList.update_conv')

lemma map_of_entry_or: "map_of (entry_or k d f m) x =
    (if x = k then Some (f (case map_of m k of Some v \<Rightarrow> v | None \<Rightarrow> d)) else map_of m x)"
  by (simp add: entry_or_def)

lemma keys_delete: "distinct (map fst m) \<Longrightarrow> distinct (map fst (AList.delete k m))"
  by (rule AList.distinct_delete)

lemma keys_update: "distinct (map fst m) \<Longrightarrow> distinct (map fst (AList.update k v m))"
  by (rule AList.distinct_update)

subsection \<open>The tables agree with the entries\<close>

text \<open>\<open>X\<close> is the set of addresses that are between two tables.\<close>

definition keyed :: "(socket_addr \<times> addr_info) list \<Rightarrow> bool" where
  "keyed m \<longleftrightarrow> distinct (map fst m) \<and> (\<forall>a e. map_of m a = Some e \<longrightarrow> ai_addr e = a)"

definition in_new :: "addr_hasher \<Rightarrow> addr_man \<Rightarrow> socket_addr \<Rightarrow> nat \<Rightarrow> bool" where
  "in_new S am a b \<longleftrightarrow>
     (\<exists>e. map_of (map_info am) a = Some e \<and> \<not> is_tried e \<and> get_new_bucket S am a (ai_source e) = b)"

definition in_tried :: "addr_hasher \<Rightarrow> addr_man \<Rightarrow> socket_addr \<Rightarrow> nat \<Rightarrow> bool" where
  "in_tried S am a b \<longleftrightarrow>
     (\<exists>e. map_of (map_info am) a = Some e \<and> is_tried e \<and> get_tried_bucket S am a = b)"

definition holds :: "nat \<Rightarrow> socket_addr list list \<Rightarrow> (socket_addr \<Rightarrow> nat \<Rightarrow> bool) \<Rightarrow> bool" where
  "holds n bs P \<longleftrightarrow> length bs = n \<and> (\<forall>b < n. distinct (bs ! b) \<and> (\<forall>a. a \<in> set (bs ! b) \<longleftrightarrow> P a b))"

definition am_ok_except :: "addr_hasher \<Rightarrow> socket_addr set \<Rightarrow> addr_man \<Rightarrow> bool" where
  "am_ok_except S X am \<longleftrightarrow> keyed (map_info am) \<and>
     holds ADDRMAN_NEW_BUCKET_COUNT (new_buckets am) (\<lambda>a b. a \<notin> X \<and> in_new S am a b) \<and>
     holds ADDRMAN_TRIED_BUCKET_COUNT (tried_buckets am) (\<lambda>a b. a \<notin> X \<and> in_tried S am a b) \<and>
     (\<forall>b < ADDRMAN_TRIED_BUCKET_COUNT. length (tried_buckets am ! b) \<le> ADDRMAN_BUCKET_SIZE)"

definition am_ok :: "addr_hasher \<Rightarrow> addr_man \<Rightarrow> bool" where
  "am_ok S am \<longleftrightarrow> am_ok_except S {} am"

lemma in_bucket_unique:
  "in_new S am a b \<Longrightarrow> in_new S am a c \<Longrightarrow> b = c" "in_tried S am a b \<Longrightarrow> in_tried S am a c \<Longrightarrow> b = c"
  by (auto simp: in_new_def in_tried_def)

lemma bucket_bounds [simp]:
  "get_new_bucket S am a s < ADDRMAN_NEW_BUCKET_COUNT" "get_tried_bucket S am a < ADDRMAN_TRIED_BUCKET_COUNT"
  by (simp_all add: get_new_bucket_def get_tried_bucket_def ADDRMAN_NEW_BUCKET_COUNT_def
      ADDRMAN_TRIED_BUCKET_COUNT_def)

lemma bucket_key:
  "am_key am' = am_key am \<Longrightarrow> get_new_bucket S am' = get_new_bucket S am"
  "am_key am' = am_key am \<Longrightarrow> get_tried_bucket S am' = get_tried_bucket S am"
  by (simp_all add: fun_eq_iff get_new_bucket_def get_tried_bucket_def)

lemma bucket_upd [simp]:
  "get_new_bucket S (tried_buckets_update f am) = get_new_bucket S am"
  "get_tried_bucket S (tried_buckets_update f am) = get_tried_bucket S am"
  "get_new_bucket S (map_info_update g am) = get_new_bucket S am"
  "get_tried_bucket S (map_info_update g am) = get_tried_bucket S am"
  by (simp_all add: fun_eq_iff get_new_bucket_def get_tried_bucket_def)

lemma holds_push:
  assumes "holds n bs P" "b < n" "\<not> P x b"
    and "\<And>a c. c < n \<Longrightarrow> Q a c \<longleftrightarrow> P a c \<or> a = x \<and> c = b"
  shows "holds n (bs[b := bs ! b @ [x]]) Q"
  using assms by (auto simp: holds_def nth_list_update)

lemma holds_remove:
  assumes "holds n bs P" "b < n" "distinct ys" "set ys = set (bs ! b) - {x}"
    and "\<And>a c. c < n \<Longrightarrow> Q a c \<longleftrightarrow> P a c \<and> \<not> (a = x \<and> c = b)"
  shows "holds n (bs[b := ys]) Q"
  using assms by (auto simp: holds_def nth_list_update)

lemma holds_cong:
  "holds n bs P \<Longrightarrow> (\<And>a c. c < n \<Longrightarrow> Q a c \<longleftrightarrow> P a c) \<Longrightarrow> holds n bs Q"
  by (auto simp: holds_def)

lemma holdsD: "holds n bs P \<Longrightarrow> b < n \<Longrightarrow> distinct (bs ! b) \<and> (\<forall>a. a \<in> set (bs ! b) \<longleftrightarrow> P a b)"
  by (simp add: holds_def)

lemma set_tl_distinct: "distinct xs \<Longrightarrow> set (tl xs) = set xs - {hd xs}"
  by (cases xs) auto

lemma am_ok_new: "am_ok S (addr_man_new key)"
  by (simp add: am_ok_def am_ok_except_def addr_man_new_def keyed_def holds_def in_new_def in_tried_def)

lemma am_evict_new_ok:
  assumes ok: "am_ok S am" and b: "b < ADDRMAN_NEW_BUCKET_COUNT"
  shows "am_ok S (am_evict_new am b) \<and> am_key (am_evict_new am b) = am_key am \<and>
    (map_of (map_info am) a = None \<longrightarrow> map_of (map_info (am_evict_new am b)) a = None)"
proof (cases "length (new_buckets am ! b) \<ge> ADDRMAN_BUCKET_SIZE")
  case True
  let ?v = "hd (new_buckets am ! b)" and ?m = "am_evict_new am b"
  have e: "?m = am\<lparr>new_buckets := (new_buckets am)[b := tl (new_buckets am ! b)],
      map_info := AList.delete ?v (map_info am)\<rparr>"
    using True by (simp add: am_evict_new_def)
  have ne: "new_buckets am ! b \<noteq> []" using True by (auto simp: ADDRMAN_BUCKET_SIZE_def)
  note h = ok [unfolded am_ok_def am_ok_except_def]
  have v: "in_new S am ?v b" using h holdsD [OF _ b] ne by (auto dest: hd_in_set)
  have k: "get_new_bucket S ?m = get_new_bucket S am" "get_tried_bucket S ?m = get_tried_bucket S am"
    by (rule bucket_key; simp add: e)+
  have ni: "in_new S ?m a c \<longleftrightarrow> in_new S am a c \<and> a \<noteq> ?v" "in_tried S ?m a c \<longleftrightarrow> in_tried S am a c" for a c
    using v by (auto simp: in_new_def in_tried_def k) (auto simp: e split: if_splits)
  have nb: "new_buckets ?m = (new_buckets am)[b := tl (new_buckets am ! b)]" by (simp add: e)
  have "holds ADDRMAN_NEW_BUCKET_COUNT (new_buckets ?m) (\<lambda>a b. a \<notin> {} \<and> in_new S ?m a b)"
    unfolding nb
  proof (rule holds_remove)
    show "holds ADDRMAN_NEW_BUCKET_COUNT (new_buckets am) (\<lambda>a b. a \<notin> {} \<and> in_new S am a b)" using h by blast
    show "distinct (tl (new_buckets am ! b))" "set (tl (new_buckets am ! b)) = set (new_buckets am ! b) - {?v}"
      using h holdsD [OF _ b] by (auto simp: distinct_tl set_tl_distinct)
  qed (use b v in \<open>auto simp: ni dest: in_bucket_unique\<close>)
  moreover have "holds ADDRMAN_TRIED_BUCKET_COUNT (tried_buckets ?m) (\<lambda>a b. a \<notin> {} \<and> in_tried S ?m a b)"
    using h by (simp add: ni) (simp add: e)
  moreover have "keyed (map_info ?m)" using h by (simp add: e keyed_def keys_delete)
  ultimately show ?thesis using h by (simp add: am_ok_def am_ok_except_def e)
qed (use ok in \<open>simp add: am_evict_new_def\<close>)

lemma am_add_ok:
  assumes ok: "am_ok S am"
  shows "am_ok S (am_add S am addr source) \<and> am_key (am_add S am addr source) = am_key am"
proof (cases "map_of (map_info am) addr")
  case None
  let ?b = "get_new_bucket S am addr source"
  let ?e = "am_evict_new am ?b" and ?m = "am_add S am addr source"
  have e: "am_ok S ?e" "am_key ?e = am_key am" "map_of (map_info ?e) addr = None"
    using am_evict_new_ok [OF ok, of ?b addr] None by auto
  have m: "?m = ?e\<lparr>map_info := AList.update addr (addr_info_new addr source) (map_info ?e),
      new_buckets := (new_buckets ?e)[?b := new_buckets ?e ! ?b @ [addr]]\<rparr>"
    using None by (simp add: am_add_def Let_def)
  have k: "get_new_bucket S ?m = get_new_bucket S ?e" "get_tried_bucket S ?m = get_tried_bucket S ?e"
    by (rule bucket_key; simp add: m)+
  have k0: "get_new_bucket S ?e = get_new_bucket S am" by (rule bucket_key) (rule e(2))
  have ni: "in_new S ?m a c \<longleftrightarrow> in_new S ?e a c \<or> a = addr \<and> c = ?b" "in_tried S ?m a c \<longleftrightarrow> in_tried S ?e a c" for a c
    using e(3) by (auto simp: in_new_def in_tried_def k k0) (auto simp: m addr_info_new_def split: if_splits)
  note h = e(1) [unfolded am_ok_def am_ok_except_def]
  have nb: "new_buckets ?m = (new_buckets ?e)[?b := new_buckets ?e ! ?b @ [addr]]" by (simp add: m)
  have "holds ADDRMAN_NEW_BUCKET_COUNT (new_buckets ?m) (\<lambda>a b. a \<notin> {} \<and> in_new S ?m a b)"
    unfolding nb
  proof (rule holds_push)
    show "holds ADDRMAN_NEW_BUCKET_COUNT (new_buckets ?e) (\<lambda>a b. a \<notin> {} \<and> in_new S ?e a b)" using h by blast
    show "\<not> (addr \<notin> {} \<and> in_new S ?e addr ?b)" using e(3) by (simp add: in_new_def)
  qed (auto simp: ni)
  moreover have "holds ADDRMAN_TRIED_BUCKET_COUNT (tried_buckets ?m) (\<lambda>a b. a \<notin> {} \<and> in_tried S ?m a b)"
    using h by (simp add: ni) (simp add: m)
  moreover have "keyed (map_info ?m)" using h by (auto simp: m keyed_def keys_update addr_info_new_def)
  ultimately show ?thesis using h e(2) by (simp add: am_ok_def am_ok_except_def m)
qed (use ok in \<open>simp add: am_add_def\<close>)

lemma add_many_ok: "am_ok S am \<Longrightarrow> am_ok S (add_many S am addrs source)"
  unfolding add_many_def by (induction addrs arbitrary: am) (simp_all add: am_add_ok)

text \<open>Promotion: out of the new table, room in the tried table, into it.\<close>

definition am_lift :: "addr_hasher \<Rightarrow> addr_man \<Rightarrow> socket_addr \<Rightarrow> addr_info \<Rightarrow> addr_man" where
  "am_lift S am addr info =
     (let n = get_new_bucket S am addr (ai_source info)
      in am\<lparr>new_buckets := (new_buckets am)[n := filter (\<lambda>x. x \<noteq> addr) (new_buckets am ! n)],
            map_info := modify addr (\<lambda>e. e\<lparr>is_tried := True\<rparr>) (map_info am)\<rparr>)"

lemma am_lift_ok:
  assumes ok: "am_ok S am" and info: "map_of (map_info am) addr = Some info" "\<not> is_tried info"
  shows "am_ok_except S {addr} (am_lift S am addr info)"
proof -
  let ?n = "get_new_bucket S am addr (ai_source info)" and ?m = "am_lift S am addr info"
  have m: "?m = am\<lparr>new_buckets := (new_buckets am)[?n := filter (\<lambda>x. x \<noteq> addr) (new_buckets am ! ?n)],
      map_info := modify addr (\<lambda>e. e\<lparr>is_tried := True\<rparr>) (map_info am)\<rparr>"
    by (simp add: am_lift_def Let_def)
  have k: "get_new_bucket S ?m = get_new_bucket S am" "get_tried_bucket S ?m = get_tried_bucket S am"
    by (rule bucket_key; simp add: m)+
  have ni: "a \<notin> {addr} \<and> in_new S ?m a c \<longleftrightarrow> in_new S am a c \<and> \<not> (a = addr \<and> c = ?n)"
    "a \<notin> {addr} \<and> in_tried S ?m a c \<longleftrightarrow> in_tried S am a c" for a c
    using info by (auto simp: in_new_def in_tried_def k) (auto simp: m map_of_modify)
  note h = ok [unfolded am_ok_def am_ok_except_def]
  have nb: "new_buckets ?m = (new_buckets am)[?n := filter (\<lambda>x. x \<noteq> addr) (new_buckets am ! ?n)]" by (simp add: m)
  have "holds ADDRMAN_NEW_BUCKET_COUNT (new_buckets ?m) (\<lambda>a b. a \<notin> {addr} \<and> in_new S ?m a b)"
    unfolding nb ni
  proof (rule holds_remove)
    show "holds ADDRMAN_NEW_BUCKET_COUNT (new_buckets am) (\<lambda>a b. a \<notin> {} \<and> in_new S am a b)" using h by blast
    show "distinct (filter (\<lambda>x. x \<noteq> addr) (new_buckets am ! ?n))"
      using h by (simp add: holds_def)
  qed auto
  moreover have "holds ADDRMAN_TRIED_BUCKET_COUNT (tried_buckets ?m) (\<lambda>a b. a \<notin> {addr} \<and> in_tried S ?m a b)"
    using h unfolding ni by (simp add: m)
  moreover have "keyed (map_info ?m)" using h by (auto simp: m keyed_def map_of_modify split: if_splits)
  ultimately show ?thesis using h by (simp add: am_ok_except_def m)
qed

lemma am_evict_tried_ok:
  assumes ok: "am_ok_except S X am" and t: "t < ADDRMAN_TRIED_BUCKET_COUNT"
  shows "am_ok_except S X (am_evict_tried S am t)"
    "length (tried_buckets (am_evict_tried S am t) ! t) < ADDRMAN_BUCKET_SIZE"
    "am_key (am_evict_tried S am t) = am_key am"
    "a \<in> X \<Longrightarrow> map_of (map_info (am_evict_tried S am t)) a = map_of (map_info am) a"
proof -
  let ?m = "am_evict_tried S am t" and ?v = "hd (tried_buckets am ! t)"
  note h = ok [unfolded am_ok_except_def]
  have "am_ok_except S X ?m \<and> length (tried_buckets ?m ! t) < ADDRMAN_BUCKET_SIZE \<and> am_key ?m = am_key am \<and>
      (a \<in> X \<longrightarrow> map_of (map_info ?m) a = map_of (map_info am) a)"
  proof (cases "length (tried_buckets am ! t) \<ge> ADDRMAN_BUCKET_SIZE")
    case True
    then have ne: "tried_buckets am ! t \<noteq> []" by (auto simp: ADDRMAN_BUCKET_SIZE_def)
    then have v: "?v \<notin> X" "in_tried S am ?v t" using h holdsD [OF _ t] by (auto dest: hd_in_set)
    then obtain e where e: "map_of (map_info am) ?v = Some e" "is_tried e" by (auto simp: in_tried_def)
    let ?n = "get_new_bucket S am ?v (ai_source e)"
    let ?tb = "(tried_buckets am)[t := tl (tried_buckets am ! t)]"
    let ?nb = "(new_buckets am)[?n := new_buckets am ! ?n @ [?v]]"
    have key: "get_new_bucket S (am\<lparr>tried_buckets := ?tb\<rparr>) = get_new_bucket S am" by (rule bucket_key) simp
    have m: "?m = am\<lparr>tried_buckets := ?tb, map_info := modify ?v (\<lambda>e. e\<lparr>is_tried := False\<rparr>) (map_info am),
        new_buckets := ?nb\<rparr>"
      using True e by (simp add: am_evict_tried_def Let_def key)
    have k: "get_new_bucket S ?m = get_new_bucket S am" "get_tried_bucket S ?m = get_tried_bucket S am"
      by (rule bucket_key; simp add: m)+
    have ni: "in_new S ?m a c \<longleftrightarrow> in_new S am a c \<or> a = ?v \<and> c = ?n"
      "in_tried S ?m a c \<longleftrightarrow> in_tried S am a c \<and> a \<noteq> ?v" for a c
      using e by (auto simp: in_new_def in_tried_def k) (auto simp: m map_of_modify split: if_splits)
    have nb: "new_buckets ?m = ?nb" "tried_buckets ?m = ?tb" by (simp_all add: m)
    have "holds ADDRMAN_NEW_BUCKET_COUNT (new_buckets ?m) (\<lambda>a b. a \<notin> X \<and> in_new S ?m a b)"
      unfolding nb
    proof (rule holds_push)
      show "holds ADDRMAN_NEW_BUCKET_COUNT (new_buckets am) (\<lambda>a b. a \<notin> X \<and> in_new S am a b)" using h by blast
      show "\<not> (?v \<notin> X \<and> in_new S am ?v ?n)" using e by (simp add: in_new_def)
    qed (use v in \<open>auto simp: ni\<close>)
    moreover have "holds ADDRMAN_TRIED_BUCKET_COUNT (tried_buckets ?m) (\<lambda>a b. a \<notin> X \<and> in_tried S ?m a b)"
      unfolding nb
    proof (rule holds_remove)
      show "holds ADDRMAN_TRIED_BUCKET_COUNT (tried_buckets am) (\<lambda>a b. a \<notin> X \<and> in_tried S am a b)" using h by blast
      show "distinct (tl (tried_buckets am ! t))" "set (tl (tried_buckets am ! t)) = set (tried_buckets am ! t) - {?v}"
        using h holdsD [OF _ t] by (auto simp: distinct_tl set_tl_distinct)
    qed (use t v in \<open>auto simp: ni dest: in_bucket_unique\<close>)
    moreover have "keyed (map_info ?m)" using h by (auto simp: m keyed_def map_of_modify split: if_splits)
    moreover have "length (tried_buckets ?m ! b) \<le> ADDRMAN_BUCKET_SIZE" if "b < ADDRMAN_TRIED_BUCKET_COUNT" for b
      using h that by (cases "b = t") (auto simp: nb holds_def intro: order_trans [OF diff_le_self])
    moreover have "length (tried_buckets ?m ! t) < ADDRMAN_BUCKET_SIZE"
    proof -
      have "length (tried_buckets am ! t) \<le> ADDRMAN_BUCKET_SIZE" "t < length (tried_buckets am)"
        using h t by (auto simp: holds_def)
      with ne show ?thesis by (cases "tried_buckets am ! t") (auto simp: nb)
    qed
    ultimately show ?thesis using v(1) by (auto simp: am_ok_except_def m map_of_modify)
  qed (use ok in \<open>simp add: am_evict_tried_def\<close>)
  then show "am_ok_except S X ?m" "length (tried_buckets ?m ! t) < ADDRMAN_BUCKET_SIZE" "am_key ?m = am_key am"
    "a \<in> X \<Longrightarrow> map_of (map_info ?m) a = map_of (map_info am) a"
    by blast+
qed

lemma am_push_tried_ok:
  assumes ok: "am_ok_except S {addr} am" and "map_of (map_info am) addr = Some info" "is_tried info"
    and t: "t = get_tried_bucket S am addr" "length (tried_buckets am ! t) < ADDRMAN_BUCKET_SIZE"
  shows "am_ok S (am\<lparr>tried_buckets := (tried_buckets am)[t := tried_buckets am ! t @ [addr]]\<rparr>)"
proof -
  let ?tb = "(tried_buckets am)[t := tried_buckets am ! t @ [addr]]"
  let ?m = "am\<lparr>tried_buckets := ?tb\<rparr>"
  note h = ok [unfolded am_ok_except_def]
  have ni: "in_new S ?m a c \<longleftrightarrow> a \<notin> {addr} \<and> in_new S am a c"
    "in_tried S ?m a c \<longleftrightarrow> (a \<notin> {addr} \<and> in_tried S am a c) \<or> a = addr \<and> c = t" for a c
    using assms(2,3) t(1) by (auto simp: in_new_def in_tried_def)
  have tb: "t < ADDRMAN_TRIED_BUCKET_COUNT" by (simp add: t(1))
  have "holds ADDRMAN_TRIED_BUCKET_COUNT ?tb (\<lambda>a b. a \<notin> {} \<and> in_tried S ?m a b)"
    by (rule holds_push [where P = "\<lambda>a b. a \<notin> {addr} \<and> in_tried S am a b"]) (use h tb in \<open>auto simp: ni\<close>)
  moreover have "length (?tb ! b) \<le> ADDRMAN_BUCKET_SIZE" if "b < ADDRMAN_TRIED_BUCKET_COUNT" for b
    using h that t(2) by (cases "b = t") (auto simp: holds_def)
  ultimately show ?thesis using h by (simp add: am_ok_def am_ok_except_def ni)
qed

lemma am_good_ok:
  assumes ok: "am_ok S am"
  shows "am_ok S (am_good S am addr)"
proof (cases "\<exists>info. map_of (map_info am) addr = Some info \<and> \<not> is_tried info")
  case True
  then obtain info where i: "map_of (map_info am) addr = Some info" "\<not> is_tried info" by blast
  let ?l = "am_lift S am addr info"
  let ?t = "get_tried_bucket S ?l addr"
  let ?e = "am_evict_tried S ?l ?t"
  have l: "map_of (map_info ?l) addr = Some (info\<lparr>is_tried := True\<rparr>)"
    using i by (simp add: am_lift_def Let_def map_of_modify)
  note e = am_evict_tried_ok [OF am_lift_ok [OF ok i], of ?t, OF bucket_bounds(2)]
  have "?t = get_tried_bucket S ?e addr" by (simp add: bucket_key(2) [OF e(3)])
  then have "am_ok S (?e\<lparr>tried_buckets := (tried_buckets ?e)[?t := tried_buckets ?e ! ?t @ [addr]]\<rparr>)"
    using am_push_tried_ok [OF e(1), of "info\<lparr>is_tried := True\<rparr>" ?t] e(2,4) l by simp
  moreover have "am_good S am addr = ?e\<lparr>tried_buckets := (tried_buckets ?e)[?t := tried_buckets ?e ! ?t @ [addr]]\<rparr>"
    using i by (simp add: am_good_def am_lift_def Let_def)
  ultimately show ?thesis by simp
qed (use ok in \<open>auto simp: am_good_def split: option.splits\<close>)

lemma modify_ok:
  assumes "am_ok S am"
    and f: "\<And>e. ai_addr (f e) = ai_addr e \<and> ai_source (f e) = ai_source e \<and> is_tried (f e) = is_tried e"
  shows "am_ok S (am\<lparr>map_info := modify a f (map_info am)\<rparr>)"
proof -
  let ?m = "am\<lparr>map_info := modify a f (map_info am)\<rparr>"
  have "in_new S ?m = in_new S am" "in_tried S ?m = in_tried S am"
    by (auto simp: fun_eq_iff in_new_def in_tried_def map_of_modify f)
  then show ?thesis
    using assms(1) by (auto simp: am_ok_def am_ok_except_def keyed_def map_of_modify f split: if_splits)
qed

lemma am_record_success_ok: "am_ok S am \<Longrightarrow> am_ok S (am_record_success S now am addr)"
  unfolding am_record_success_def by (intro am_good_ok modify_ok) auto

lemma am_record_failure_ok: "am_ok S am \<Longrightarrow> am_ok S (am_record_failure now am addr)"
  unfolding am_record_failure_def by (intro modify_ok) (auto simp: failed_entry_def Let_def)

subsection \<open>Scores\<close>

lemma sint_add_small:
  fixes a b :: i32
  assumes "- (2 ^ 31) \<le> sint a + sint b" "sint a + sint b < 2 ^ 31"
  shows "sint (a + b) = sint a + sint b"
  using assms by (simp add: sint_word_ariths signed_take_bit_int_eq_self)

lemma sint_sub_small:
  fixes a b :: i32
  assumes "- (2 ^ 31) \<le> sint a - sint b" "sint a - sint b < 2 ^ 31"
  shows "sint (a - b) = sint a - sint b"
  using assms by (simp add: sint_word_ariths signed_take_bit_int_eq_self)

lemma score_constants: "sint MAX_SCORE = 100" "sint MIN_SCORE = - 10" "sint (MIN_SCORE - 1) = - 11"
  by (simp_all add: MAX_SCORE_def MIN_SCORE_def)

definition scored :: "addr_info \<Rightarrow> bool" where
  "scored e \<longleftrightarrow> - 11 \<le> sint (ai_score e) \<and> sint (ai_score e) \<le> 100"

definition scores_ok :: "addr_man \<Rightarrow> bool" where
  "scores_ok am \<longleftrightarrow> (\<forall>a e. map_of (map_info am) a = Some e \<longrightarrow> scored e)"

lemma scored_success: "scored e \<Longrightarrow> scored (e\<lparr>ai_score := smin (ai_score e + 1) MAX_SCORE\<rparr>)"
  using sint_add_small [of "ai_score e" 1] by (auto simp: scored_def smin_def score_constants)

lemma scored_failure: "scored e \<Longrightarrow> scored (failed_entry now e)"
  using sint_sub_small [of "ai_score e" 1] by (auto simp: scored_def failed_entry_def smax_def score_constants Let_def)

lemma scores_modify:
  "scores_ok am \<Longrightarrow> (\<And>e. scored e \<Longrightarrow> scored (f e)) \<Longrightarrow> scores_ok (am\<lparr>map_info := modify a f (map_info am)\<rparr>)"
  by (auto simp: scores_ok_def map_of_modify)

lemma scores_evict_tried: "scores_ok am \<Longrightarrow> scores_ok (am_evict_tried S am t)"
  by (auto simp: am_evict_tried_def scores_ok_def map_of_modify scored_def Let_def split: option.splits if_splits)

lemma scores_good: "scores_ok am \<Longrightarrow> scores_ok (am_good S am addr)"
proof (cases "\<exists>info. map_of (map_info am) addr = Some info \<and> \<not> is_tried info")
  case True
  assume ok: "scores_ok am"
  from True obtain info where i: "map_of (map_info am) addr = Some info" "\<not> is_tried info" by blast
  have "scores_ok (am_lift S am addr info)"
    using ok by (auto simp: am_lift_def scores_ok_def map_of_modify scored_def Let_def)
  from scores_evict_tried [OF this] show ?thesis
    using i by (simp add: am_good_def am_lift_def scores_ok_def Let_def)
qed (auto simp: am_good_def split: option.splits)

lemma scores_success: "scores_ok am \<Longrightarrow> scores_ok (am_record_success S now am addr)"
  unfolding am_record_success_def
  using scored_success by (intro scores_good scores_modify) (auto simp: scored_def)

lemma scores_failure: "scores_ok am \<Longrightarrow> scores_ok (am_record_failure now am addr)"
  unfolding am_record_failure_def by (intro scores_modify scored_failure)

lemma scores_add: "scores_ok am \<Longrightarrow> scores_ok (am_add S am addr source)"
  by (auto simp: am_add_def am_evict_new_def scores_ok_def Let_def addr_info_new_def scored_def split: if_splits)

subsection \<open>Any history of operations\<close>

datatype am_op = Am_add socket_addr socket_addr | Am_success instant socket_addr | Am_failure instant socket_addr

fun am_step :: "addr_hasher \<Rightarrow> am_op \<Rightarrow> addr_man \<Rightarrow> addr_man" where
  "am_step S (Am_add a source) am = am_add S am a source"
| "am_step S (Am_success now a) am = am_record_success S now am a"
| "am_step S (Am_failure now a) am = am_record_failure now am a"

lemma am_history_ok:
  "am_ok S am \<and> scores_ok am \<Longrightarrow> am_ok S (fold (am_step S) ops am) \<and> scores_ok (fold (am_step S) ops am)"
proof (induction ops arbitrary: am)
  case (Cons op ops)
  then have "am_ok S (am_step S op am) \<and> scores_ok (am_step S op am)"
    by (cases op) (simp_all add: am_add_ok am_record_success_ok am_record_failure_ok scores_add scores_success scores_failure)
  with Cons.IH show ?case by simp
qed simp

subsection \<open>Selection\<close>

lemma fold_max_mem: "fold (\<lambda>y best. if le best y then y else best) xs x \<in> insert x (set xs)"
  by (induction xs arbitrary: x) (simp_all, blast)

lemma max_by_key_mem: "max_by_key le xs = Some x \<Longrightarrow> x \<in> set xs"
  using fold_max_mem [of le] by (cases xs) auto

lemma max_by_key_None: "max_by_key le xs = None \<longleftrightarrow> xs = []"
  by (cases xs) auto

lemma sint_eq_iff: "sint (a :: i32) = sint b \<longleftrightarrow> a = b"
  by (metis of_int_sint scast_id)

lemma rank_le_total: "rank_le a b \<or> rank_le b a"
  by (auto simp: rank_le_def not_less sint_eq_iff order_le_less)

lemma rank_le_trans: "rank_le a b \<Longrightarrow> rank_le b c \<Longrightarrow> rank_le a c"
  by (auto simp: rank_le_def split: if_splits)

lemma fold_max_upper:
  assumes "\<And>a b. le a b \<or> le b a" "\<And>a b c. le a b \<Longrightarrow> le b c \<Longrightarrow> le a c"
  shows "\<forall>y \<in> insert x (set xs). le y (fold (\<lambda>y best. if le best y then y else best) xs x)"
proof (induction xs arbitrary: x)
  case Nil
  then show ?case using assms(1) by auto
next
  case (Cons z zs)
  let ?b = "if le x z then z else x"
  let ?r = "fold (\<lambda>y best. if le best y then y else best) zs ?b"
  have b: "le x ?b" "le z ?b" using assms(1) [of x z] assms(1) [of x x] assms(1) [of z z] by auto
  have "le ?b ?r" "\<forall>y \<in> set zs. le y ?r" using Cons.IH [of ?b] by blast+
  with b assms(2) [of x ?b ?r] assms(2) [of z ?b ?r] show ?case by simp
qed

lemma max_by_key_upper: "max_by_key rank_le xs = Some x \<Longrightarrow> y \<in> set xs \<Longrightarrow> rank_le y x"
  using fold_max_upper [of rank_le, OF rank_le_total rank_le_trans] by (cases xs) auto

lemma select_best_sound:
  assumes "am_ok S am" "select_best now am active = Some a"
  shows "a \<notin> set active \<and> (\<exists>e. map_of (map_info am) a = Some e \<and> is_connectable now e \<and>
    (\<forall>b f. map_of (map_info am) b = Some f \<longrightarrow> is_connectable now f \<longrightarrow> b \<notin> set active \<longrightarrow> rank_le f e))"
proof -
  let ?es = "filter (\<lambda>e. is_connectable now e \<and> ai_addr e \<notin> set active) (map snd (map_info am))"
  have k: "keyed (map_info am)" using assms(1) by (simp add: am_ok_def am_ok_except_def)
  from assms(2) obtain e where e: "max_by_key rank_le ?es = Some e" "ai_addr e = a"
    by (auto simp: select_best_def)
  then have m: "e \<in> set ?es" by (intro max_by_key_mem)
  then obtain a' where a': "(a', e) \<in> set (map_info am)" by auto
  then have "map_of (map_info am) a' = Some e" using k by (simp add: keyed_def)
  moreover from this k have "a' = a" using e(2) by (auto simp: keyed_def)
  ultimately have ma: "map_of (map_info am) a = Some e" by simp
  have "rank_le f e" if "map_of (map_info am) b = Some f" "is_connectable now f" "b \<notin> set active" for b f
  proof (rule max_by_key_upper [OF e(1)])
    have "(b, f) \<in> set (map_info am)" "ai_addr f = b" using that k by (auto simp: keyed_def dest: map_of_SomeD)
    then show "f \<in> set ?es" using that by (force simp: image_iff)
  qed
  with ma m e(2) show ?thesis by auto
qed

end
