(* ===== verification/PeerTable.thy ===== *)
theory PeerTable
  imports AddrMan
begin

text \<open>
  The registry of connections, \<^verbatim>\<open>net/p2p/peer_table.rs\<close>, with the connection types and quotas of
  \<^verbatim>\<open>net_types.rs\<close>, the inbound slots of \<^verbatim>\<open>network.rs\<close> and the outbound quotas of \<^verbatim>\<open>initiator.rs\<close>.
  A node handle is its address, services and type; its channel and cancellation token are outside the
  table, and \<open>pt_cancelled\<close> lists the connections whose token was signalled.
\<close>

subsection \<open>Connection types\<close>

definition DEFAULT_MAX_PEER_CONNECTIONS :: nat where
  "DEFAULT_MAX_PEER_CONNECTIONS = 125"

definition MAX_OUTBOUND_FULL_RELAY_CONNECTIONS :: nat where
  "MAX_OUTBOUND_FULL_RELAY_CONNECTIONS = 8"

definition MAX_BLOCK_RELAY_ONLY_CONNECTIONS :: nat where
  "MAX_BLOCK_RELAY_ONLY_CONNECTIONS = 2"

definition MAX_FEELER_CONNECTIONS :: nat where
  "MAX_FEELER_CONNECTIONS = 1"

definition MAX_INBOUND_CONNECTIONS :: nat where
  "MAX_INBOUND_CONNECTIONS =
     DEFAULT_MAX_PEER_CONNECTIONS - MAX_OUTBOUND_FULL_RELAY_CONNECTIONS - MAX_BLOCK_RELAY_ONLY_CONNECTIONS"

datatype connection_type = Inbound | OutboundFullRelay | BlockRelayOnly | Feeler

fun is_tx_relay_connection :: "connection_type \<Rightarrow> bool" where
  "is_tx_relay_connection Inbound = True"
| "is_tx_relay_connection OutboundFullRelay = True"
| "is_tx_relay_connection BlockRelayOnly = False"
| "is_tx_relay_connection Feeler = False"

definition is_ephemeral :: "connection_type \<Rightarrow> bool" where
  "is_ephemeral c \<longleftrightarrow> c = Feeler"

definition is_outbound :: "connection_type \<Rightarrow> bool" where
  "is_outbound c \<longleftrightarrow> c \<noteq> Inbound"

subsection \<open>The table\<close>

record node_handle =
  nh_addr :: socket_addr
  nh_services :: u64
  nh_conn_type :: connection_type

record peer_table =
  pt_peers :: "(socket_addr \<times> node_handle) list"
  pt_ban_list :: "(ip_addr \<times> instant) list"
  pt_scores :: "(socket_addr \<times> i32) list"
  pt_addr_man :: addr_man
  pt_cancelled :: "socket_addr list"

definition peer_table_new :: "addr_man \<Rightarrow> peer_table" where
  "peer_table_new am = \<lparr>pt_peers = [], pt_ban_list = [], pt_scores = [], pt_addr_man = am, pt_cancelled = []\<rparr>"

definition add_peer :: "peer_table \<Rightarrow> node_handle \<Rightarrow> peer_table" where
  "add_peer pt h = pt\<lparr>pt_peers := AList.update (nh_addr h) h (pt_peers pt)\<rparr>"

definition remove_peer :: "peer_table \<Rightarrow> socket_addr \<Rightarrow> peer_table" where
  "remove_peer pt addr = pt\<lparr>pt_peers := AList.delete addr (pt_peers pt)\<rparr>"

definition node_disconnect :: "peer_table \<Rightarrow> node_handle \<Rightarrow> peer_table" where
  "node_disconnect pt h = pt\<lparr>pt_cancelled := pt_cancelled pt @ [nh_addr h]\<rparr>"

definition ban_peer_internal :: "instant \<Rightarrow> peer_table \<Rightarrow> socket_addr \<Rightarrow> node_handle option \<times> peer_table" where
  "ban_peer_internal now pt addr =
     (map_of (pt_peers pt) addr,
      pt\<lparr>pt_ban_list := AList.update (sa_ip addr) (now + from_secs 86400) (pt_ban_list pt),
         pt_peers := AList.delete addr (pt_peers pt)\<rparr>)"

definition finish_ban :: "instant \<Rightarrow> peer_table \<Rightarrow> socket_addr \<Rightarrow> node_handle option \<Rightarrow> peer_table" where
  "finish_ban now pt addr peer_to_disconnect =
     (let pt = (case peer_to_disconnect of None \<Rightarrow> pt | Some h \<Rightarrow> node_disconnect pt h)
      in pt\<lparr>pt_addr_man := am_record_failure now (pt_addr_man pt) addr\<rparr>)"

definition record_critical_failure :: "instant \<Rightarrow> peer_table \<Rightarrow> socket_addr \<Rightarrow> peer_table" where
  "record_critical_failure now pt addr =
     (let (peer_to_disconnect, pt) = ban_peer_internal now pt addr
      in finish_ban now pt addr peer_to_disconnect)"

definition get_score :: "peer_table \<Rightarrow> socket_addr \<Rightarrow> i32" where
  "get_score pt addr = (case map_of (pt_scores pt) addr of Some s \<Rightarrow> s | None \<Rightarrow> 0)"

definition record_misbehavior :: "instant \<Rightarrow> peer_table \<Rightarrow> socket_addr \<Rightarrow> i32 \<Rightarrow> peer_table" where
  "record_misbehavior now pt addr score =
     (let pt = pt\<lparr>pt_scores := entry_or addr 0 (\<lambda>s. s + score) (pt_scores pt)\<rparr>
      in if sint (get_score pt addr) \<ge> 100
         then let (peer_to_disconnect, pt) = ban_peer_internal now pt addr
              in finish_ban now pt addr peer_to_disconnect
         else pt)"

definition pt_is_banned :: "instant \<Rightarrow> peer_table \<Rightarrow> ip_addr \<Rightarrow> bool" where
  "pt_is_banned now pt ip = (case map_of (pt_ban_list pt) ip of Some expiry \<Rightarrow> now < expiry | None \<Rightarrow> False)"

definition pt_record_success :: "addr_hasher \<Rightarrow> instant \<Rightarrow> peer_table \<Rightarrow> socket_addr \<Rightarrow> peer_table" where
  "pt_record_success S now pt addr = pt\<lparr>pt_addr_man := am_record_success S now (pt_addr_man pt) addr\<rparr>"

definition get_peer_count :: "peer_table \<Rightarrow> nat" where
  "get_peer_count pt = length (pt_peers pt)"

definition get_peer_count_by_type :: "peer_table \<Rightarrow> connection_type \<Rightarrow> nat" where
  "get_peer_count_by_type pt c = length (filter (\<lambda>(_, h). nh_conn_type h = c) (pt_peers pt))"

definition get_outbound_peer_count :: "peer_table \<Rightarrow> nat" where
  "get_outbound_peer_count pt =
     length (filter (\<lambda>(_, h). is_outbound (nh_conn_type h) \<and> \<not> is_ephemeral (nh_conn_type h)) (pt_peers pt))"

record connection_counts =
  cc_inbound :: nat
  cc_outbound_full_relay :: nat
  cc_block_relay_only :: nat
  cc_feeler :: nat

definition cc_total :: "connection_counts \<Rightarrow> nat" where
  "cc_total c = cc_inbound c + cc_outbound_full_relay c + cc_block_relay_only c + cc_feeler c"

fun count_connection :: "connection_type \<Rightarrow> connection_counts \<Rightarrow> connection_counts" where
  "count_connection Inbound c = c\<lparr>cc_inbound := cc_inbound c + 1\<rparr>"
| "count_connection OutboundFullRelay c = c\<lparr>cc_outbound_full_relay := cc_outbound_full_relay c + 1\<rparr>"
| "count_connection BlockRelayOnly c = c\<lparr>cc_block_relay_only := cc_block_relay_only c + 1\<rparr>"
| "count_connection Feeler c = c\<lparr>cc_feeler := cc_feeler c + 1\<rparr>"

definition get_connection_counts :: "peer_table \<Rightarrow> connection_counts" where
  "get_connection_counts pt =
     fold (\<lambda>(_, h). count_connection (nh_conn_type h)) (pt_peers pt)
       \<lparr>cc_inbound = 0, cc_outbound_full_relay = 0, cc_block_relay_only = 0, cc_feeler = 0\<rparr>"

definition get_best_peer :: "peer_table \<Rightarrow> node_handle option" where
  "get_best_peer pt =
     List.find (\<lambda>h. map_of (pt_ban_list pt) (sa_ip (nh_addr h)) = None) (map snd (pt_peers pt))"

definition get_addresses :: "instant \<Rightarrow> nat list \<Rightarrow> peer_table \<Rightarrow> net_addr list" where
  "get_addresses now indices pt = get_random_sample now indices (pt_addr_man pt) 1000"

definition add_addresses :: "addr_hasher \<Rightarrow> peer_table \<Rightarrow> net_addr list \<Rightarrow> socket_addr \<Rightarrow> peer_table" where
  "add_addresses S pt addresses source =
     pt\<lparr>pt_addr_man := fold (\<lambda>a am. am_add S am (to_socket_addr a) source) addresses (pt_addr_man pt)\<rparr>"

text \<open>\<^verbatim>\<open>Ipv6Addr::to_ipv4_mapped\<close>: the last four octets of an address in \<^verbatim>\<open>::ffff:0:0/96\<close>.\<close>

definition to_ipv4_mapped :: "bytes \<Rightarrow> bytes option" where
  "to_ipv4_mapped o6 = (if take 12 o6 = replicate 10 0 @ [0xff, 0xff] then Some (drop 12 o6) else None)"

definition address_variants :: "socket_addr \<Rightarrow> socket_addr list" where
  "address_variants a =
     a # (case sa_ip a of
        V4 o4 \<Rightarrow> [\<lparr>sa_ip = V6 (to_ipv6_mapped o4), sa_port = sa_port a\<rparr>]
      | V6 o6 \<Rightarrow> (case to_ipv4_mapped o6 of
          None \<Rightarrow> [] | Some o4 \<Rightarrow> [\<lparr>sa_ip = V4 o4, sa_port = sa_port a\<rparr>]))"

definition get_best_address :: "instant \<Rightarrow> peer_table \<Rightarrow> socket_addr list \<Rightarrow> socket_addr option" where
  "get_best_address now pt pending =
     (let exclude = concat (map address_variants (map fst (pt_peers pt) @ pending))
      in case select_best_ipv4 now (pt_addr_man pt) exclude of
           Some a \<Rightarrow> Some a
         | None \<Rightarrow> select_best now (pt_addr_man pt) exclude)"

definition get_peers :: "peer_table \<Rightarrow> u64 option \<Rightarrow> node_handle list" where
  "get_peers pt service_filter =
     filter (\<lambda>h. case service_filter of Some bits \<Rightarrow> nh_services h AND bits = bits | None \<Rightarrow> True)
       (map snd (pt_peers pt))"

definition pt_clear :: "peer_table \<Rightarrow> peer_table" where
  "pt_clear pt = fold (\<lambda>h pt. node_disconnect pt h) (map snd (pt_peers pt)) (pt\<lparr>pt_peers := []\<rparr>)"

subsection \<open>Connection slots\<close>

text \<open>\<^verbatim>\<open>try_reserve_inbound_slot\<close>: whether a slot was reserved, and the pending count after it.\<close>

definition try_reserve_inbound_slot :: "nat \<Rightarrow> nat \<Rightarrow> nat \<Rightarrow> bool \<times> nat" where
  "try_reserve_inbound_slot pending active_inbound max_inbound =
     (if min (active_inbound + pending) U64_MAX < max_inbound then (True, pending + 1) else (False, pending))"

definition connection_deficit :: "nat \<Rightarrow> nat \<Rightarrow> nat \<Rightarrow> nat" where
  "connection_deficit active pending tgt = tgt - min (active + pending) U64_MAX"

type_synonym pending_attempts = "(socket_addr \<times> connection_type) list"

definition pending_count :: "pending_attempts \<Rightarrow> connection_type \<Rightarrow> nat" where
  "pending_count pending c = length (filter (\<lambda>(_, t). t = c) pending)"

definition pending_addresses :: "pending_attempts \<Rightarrow> socket_addr list" where
  "pending_addresses pending = map fst pending"

text \<open>The loop of \<^verbatim>\<open>fill_type\<close>: the attempts started; the connections themselves run concurrently.\<close>

primrec fill_loop :: "nat \<Rightarrow> instant \<Rightarrow> peer_table \<Rightarrow> connection_type \<Rightarrow> pending_attempts \<Rightarrow> pending_attempts" where
  "fill_loop 0 now pt c pending = pending"
| "fill_loop (Suc n) now pt c pending =
     (case get_best_address now pt (pending_addresses pending) of
        None \<Rightarrow> pending
      | Some addr \<Rightarrow> fill_loop n now pt c (AList.update addr c pending))"

definition fill_type :: "instant \<Rightarrow> peer_table \<Rightarrow> pending_attempts \<Rightarrow> connection_type \<Rightarrow> nat \<Rightarrow> pending_attempts" where
  "fill_type now pt pending c tgt =
     fill_loop (connection_deficit (get_peer_count_by_type pt c) (pending_count pending c) tgt) now pt c pending"

definition fill_connections :: "instant \<Rightarrow> peer_table \<Rightarrow> pending_attempts \<Rightarrow> pending_attempts" where
  "fill_connections now pt pending =
     fill_type now pt (fill_type now pt pending BlockRelayOnly MAX_BLOCK_RELAY_ONLY_CONNECTIONS)
       OutboundFullRelay MAX_OUTBOUND_FULL_RELAY_CONNECTIONS"

definition run_feeler :: "instant \<Rightarrow> peer_table \<Rightarrow> pending_attempts \<Rightarrow> pending_attempts" where
  "run_feeler now pt pending =
     (if get_peer_count_by_type pt Feeler + pending_count pending Feeler \<ge> MAX_FEELER_CONNECTIONS then pending
      else case get_best_address now pt (pending_addresses pending) of
        None \<Rightarrow> pending | Some addr \<Rightarrow> AList.update addr Feeler pending)"

subsection \<open>Counts and quotas\<close>

lemma connection_counts_exact:
  "get_connection_counts pt =
     \<lparr>cc_inbound = get_peer_count_by_type pt Inbound,
      cc_outbound_full_relay = get_peer_count_by_type pt OutboundFullRelay,
      cc_block_relay_only = get_peer_count_by_type pt BlockRelayOnly, cc_feeler = get_peer_count_by_type pt Feeler\<rparr>"
proof -
  have "fold (\<lambda>(_, h). count_connection (nh_conn_type h)) ps c =
      \<lparr>cc_inbound = cc_inbound c + length (filter (\<lambda>(_, h). nh_conn_type h = Inbound) ps),
       cc_outbound_full_relay =
         cc_outbound_full_relay c + length (filter (\<lambda>(_, h). nh_conn_type h = OutboundFullRelay) ps),
       cc_block_relay_only =
         cc_block_relay_only c + length (filter (\<lambda>(_, h). nh_conn_type h = BlockRelayOnly) ps),
       cc_feeler = cc_feeler c + length (filter (\<lambda>(_, h). nh_conn_type h = Feeler) ps)\<rparr>"
    for ps :: "(socket_addr \<times> node_handle) list" and c :: connection_counts
  proof (induction ps arbitrary: c)
    case (Cons p ps)
    obtain a h where p: "p = (a, h)" by (cases p)
    show ?case by (cases "nh_conn_type h") (simp_all add: p Cons.IH)
  qed simp
  then show ?thesis by (simp add: get_connection_counts_def get_peer_count_by_type_def)
qed

lemma connection_counts_total: "cc_total (get_connection_counts pt) = get_peer_count pt"
proof -
  have "length ps = length (filter (\<lambda>(_, h). nh_conn_type h = Inbound) ps) +
      length (filter (\<lambda>(_, h). nh_conn_type h = OutboundFullRelay) ps) +
      length (filter (\<lambda>(_, h). nh_conn_type h = BlockRelayOnly) ps) +
      length (filter (\<lambda>(_, h). nh_conn_type h = Feeler) ps)" for ps :: "(socket_addr \<times> node_handle) list"
  proof (induction ps)
    case (Cons p ps)
    obtain a h where "p = (a, h)" by (cases p)
    with Cons show ?case by (cases "nh_conn_type h") simp_all
  qed simp
  from this [of "pt_peers pt"] show ?thesis
    by (simp add: connection_counts_exact cc_total_def get_peer_count_def get_peer_count_by_type_def)
qed

text \<open>An attempt is never started towards an address that is connected or pending.\<close>

lemma select_excludes:
  "select_best now am active = Some a \<Longrightarrow> a \<notin> set active"
  "select_best_ipv4 now am active = Some a \<Longrightarrow> a \<notin> set active"
  by (auto simp: select_best_def select_best_ipv4_def dest!: max_by_key_mem)

lemma best_address_fresh:
  assumes "get_best_address now pt pending = Some a"
  shows "a \<notin> set pending \<and> map_of (pt_peers pt) a = None"
proof -
  let ?x = "concat (map address_variants (map fst (pt_peers pt) @ pending))"
  have v: "b \<in> set (address_variants b)" for b by (simp add: address_variants_def)
  from assms consider "select_best_ipv4 now (pt_addr_man pt) ?x = Some a" | "select_best now (pt_addr_man pt) ?x = Some a"
    unfolding get_best_address_def Let_def by (cases "select_best_ipv4 now (pt_addr_man pt) ?x") auto
  then have "a \<notin> set ?x" by cases (rule select_excludes; assumption)+
  moreover have "set (map fst (pt_peers pt) @ pending) \<subseteq> set ?x" using v by auto
  ultimately show ?thesis by (auto simp: map_of_eq_None_iff)
qed

lemma update_new_key: "map_of m k = None \<Longrightarrow> AList.update k v m = m @ [(k, v)]"
  by (induction m) (auto split: if_splits)

lemma pending_count_start:
  assumes "get_best_address now pt (pending_addresses pending) = Some a"
  shows "pending_count (AList.update a c pending) d = pending_count pending d + (if d = c then 1 else 0)"
proof -
  have "map_of pending a = None"
    using best_address_fresh [OF assms] by (simp add: pending_addresses_def map_of_eq_None_iff)
  then show ?thesis by (simp add: update_new_key pending_count_def)
qed

lemma fill_loop_count:
  "pending_count (fill_loop n now pt c pending) c \<le> pending_count pending c + n \<and>
   (d \<noteq> c \<longrightarrow> pending_count (fill_loop n now pt c pending) d = pending_count pending d)"
proof (induction n arbitrary: pending)
  case (Suc n)
  show ?case
  proof (cases "get_best_address now pt (pending_addresses pending)")
    case (Some a)
    from Suc.IH [of "AList.update a c pending"] show ?thesis by (simp add: Some pending_count_start [OF Some])
  qed simp
qed simp

lemma fill_type_quota:
  assumes "tgt \<le> U64_MAX"
  shows "get_peer_count_by_type pt c + pending_count (fill_type now pt pending c tgt) c
    \<le> max tgt (get_peer_count_by_type pt c + pending_count pending c)"
  using fill_loop_count [of "connection_deficit (get_peer_count_by_type pt c) (pending_count pending c) tgt"
      now pt c pending c] assms
  by (auto simp: fill_type_def connection_deficit_def max_def min_def split: if_splits)

lemma fill_type_other: "d \<noteq> c \<Longrightarrow> pending_count (fill_type now pt pending c tgt) d = pending_count pending d"
  by (simp add: fill_type_def fill_loop_count)

definition within_quota :: "peer_table \<Rightarrow> pending_attempts \<Rightarrow> bool" where
  "within_quota pt pending \<longleftrightarrow>
     get_peer_count_by_type pt BlockRelayOnly + pending_count pending BlockRelayOnly
       \<le> MAX_BLOCK_RELAY_ONLY_CONNECTIONS \<and>
     get_peer_count_by_type pt OutboundFullRelay + pending_count pending OutboundFullRelay
       \<le> MAX_OUTBOUND_FULL_RELAY_CONNECTIONS \<and>
     get_peer_count_by_type pt Feeler + pending_count pending Feeler \<le> MAX_FEELER_CONNECTIONS"

lemma fill_connections_quota: "within_quota pt pending \<Longrightarrow> within_quota pt (fill_connections now pt pending)"
  using fill_type_quota [of MAX_BLOCK_RELAY_ONLY_CONNECTIONS pt BlockRelayOnly now pending]
    fill_type_quota [of MAX_OUTBOUND_FULL_RELAY_CONNECTIONS pt OutboundFullRelay now
      "fill_type now pt pending BlockRelayOnly MAX_BLOCK_RELAY_ONLY_CONNECTIONS"]
  by (auto simp: within_quota_def fill_connections_def fill_type_other MAX_BLOCK_RELAY_ONLY_CONNECTIONS_def
      MAX_OUTBOUND_FULL_RELAY_CONNECTIONS_def U64_MAX_def)

lemma run_feeler_quota: "within_quota pt pending \<Longrightarrow> within_quota pt (run_feeler now pt pending)"
  by (auto simp: within_quota_def run_feeler_def pending_count_start split: option.splits)

lemma inbound_slots:
  assumes "active + pending \<le> max_inbound" "max_inbound \<le> U64_MAX"
  shows "active + snd (try_reserve_inbound_slot pending active max_inbound) \<le> max_inbound \<and>
    (fst (try_reserve_inbound_slot pending active max_inbound) \<longleftrightarrow> active + pending < max_inbound)"
  using assms by (auto simp: try_reserve_inbound_slot_def)

subsection \<open>Misbehaviour\<close>

text \<open>A score that reaches 100 closes the connection and bans the address for a day.\<close>

lemma misbehavior_ban:
  assumes "sint (get_score pt addr + score) \<ge> 100"
  shows "map_of (pt_peers (record_misbehavior now pt addr score)) addr = None \<and>
    pt_is_banned now (record_misbehavior now pt addr score) (sa_ip addr) \<and>
    (map_of (pt_peers pt) addr = Some h \<longrightarrow>
       nh_addr h \<in> set (pt_cancelled (record_misbehavior now pt addr score)))"
proof -
  have "get_score (pt\<lparr>pt_scores := entry_or addr 0 (\<lambda>s. s + score) (pt_scores pt)\<rparr>) addr = get_score pt addr + score"
    by (simp add: get_score_def map_of_entry_or)
  then show ?thesis
    using assms
    by (auto simp: record_misbehavior_def ban_peer_internal_def finish_ban_def node_disconnect_def pt_is_banned_def
        from_secs_def Let_def split: option.splits)
qed

lemma misbehavior_below:
  assumes "sint (get_score pt addr + score) < 100"
  shows "record_misbehavior now pt addr score = pt\<lparr>pt_scores := entry_or addr 0 (\<lambda>s. s + score) (pt_scores pt)\<rparr>"
  using assms by (auto simp: record_misbehavior_def get_score_def map_of_entry_or Let_def)

end
