(* ===== verification/Sync.thy ===== *)
theory Sync
  imports PeerTable
begin

text \<open>
  The synchronisation state, \<^verbatim>\<open>net/p2p/sync/sync_manager.rs\<close>.  Each operation holds one lock while it
  works on the state that lock guards, so an operation is one step and concurrent tasks are sequences
  of steps.  Wake-ups of the downloader (\<^verbatim>\<open>Notify\<close>) are left out: its ticker runs it anyway.
\<close>

subsection \<open>State\<close>

record in_flight =
  if_peer :: socket_addr
  if_requested :: instant
  if_height :: u32

record sync_download_state =
  in_flight_blocks :: "(hash \<times> in_flight) list"
  peer_workload :: "(socket_addr \<times> nat) list"
  failed_block_peers :: "(hash \<times> socket_addr list) list"

record header_request_state =
  hr_peer :: socket_addr
  hr_locator_tip :: hash
  hr_locator_height :: u32
  hr_requested_at :: instant

record sync_manager =
  sm_is_syncing :: bool
  sm_headers_tip :: hash
  sm_headers_height :: u32
  sm_blocks_tip :: hash
  sm_blocks_height :: u32
  sm_last_header_time :: u64
  sm_download :: sync_download_state
  sm_peer_heights :: "(socket_addr \<times> u32) list"
  sm_header_request :: "header_request_state option"
  sm_cooldowns :: "(socket_addr \<times> instant) list"
  sm_stalling_timeout :: u64

definition with_tips :: "hash \<Rightarrow> u32 \<Rightarrow> hash \<Rightarrow> u32 \<Rightarrow> u64 \<Rightarrow> sync_manager" where
  "with_tips headers_tip headers_height blocks_tip blocks_height last_header_time =
     \<lparr>sm_is_syncing = False, sm_headers_tip = headers_tip, sm_headers_height = headers_height,
      sm_blocks_tip = blocks_tip, sm_blocks_height = blocks_height, sm_last_header_time = last_header_time,
      sm_download = \<lparr>in_flight_blocks = [], peer_workload = [], failed_block_peers = []\<rparr>,
      sm_peer_heights = [], sm_header_request = None, sm_cooldowns = [], sm_stalling_timeout = 2\<rparr>"

definition sync_manager_new :: sync_manager where
  "sync_manager_new = with_tips hash_ZERO 0 hash_ZERO 0 0"

text \<open>\<open>wall\<close> is the wall clock in seconds; the two sums wrap as in a release build.\<close>

definition is_ibd :: "u64 \<Rightarrow> sync_manager \<Rightarrow> bool" where
  "is_ibd wall sm \<longleftrightarrow>
     sm_is_syncing sm \<or> sm_last_header_time sm = 0 \<or> wall > sm_last_header_time sm + 86400 \<or>
     sm_headers_height sm > sm_blocks_height sm + 144"

definition set_syncing :: "bool \<Rightarrow> sync_manager \<Rightarrow> sync_manager" where
  "set_syncing b sm = sm\<lparr>sm_is_syncing := b\<rparr>"

definition sm_get_headers_tip :: "sync_manager \<Rightarrow> hash \<times> u32" where
  "sm_get_headers_tip sm = (sm_headers_tip sm, sm_headers_height sm)"

definition update_headers_tip :: "hash \<Rightarrow> u32 \<Rightarrow> u64 \<Rightarrow> sync_manager \<Rightarrow> sync_manager" where
  "update_headers_tip h height timestamp sm =
     (if height \<ge> sm_headers_height sm
      then sm\<lparr>sm_headers_tip := h, sm_headers_height := height, sm_last_header_time := timestamp\<rparr> else sm)"

definition sm_get_blocks_tip :: "sync_manager \<Rightarrow> hash \<times> u32" where
  "sm_get_blocks_tip sm = (sm_blocks_tip sm, sm_blocks_height sm)"

definition update_blocks_tip :: "hash \<Rightarrow> u32 \<Rightarrow> sync_manager \<Rightarrow> sync_manager" where
  "update_blocks_tip h height sm =
     (if height \<ge> sm_blocks_height sm then sm\<lparr>sm_blocks_tip := h, sm_blocks_height := height\<rparr> else sm)"

subsection \<open>Blocks in flight\<close>

definition download_update :: "(sync_download_state \<Rightarrow> sync_download_state) \<Rightarrow> sync_manager \<Rightarrow> sync_manager" where
  "download_update f sm = sm\<lparr>sm_download := f (sm_download sm)\<rparr>"

definition mark_in_flight :: "instant \<Rightarrow> hash \<Rightarrow> socket_addr \<Rightarrow> u32 \<Rightarrow> sync_download_state \<Rightarrow> sync_download_state" where
  "mark_in_flight now h peer height s =
     s\<lparr>in_flight_blocks :=
         AList.update h \<lparr>if_peer = peer, if_requested = now, if_height = height\<rparr> (in_flight_blocks s),
       peer_workload := entry_or peer 0 Suc (peer_workload s)\<rparr>"

definition mark_block_in_flight :: "instant \<Rightarrow> hash \<Rightarrow> socket_addr \<Rightarrow> u32 \<Rightarrow> sync_manager \<Rightarrow> sync_manager" where
  "mark_block_in_flight now h peer height = download_update (mark_in_flight now h peer height)"

definition mark_received :: "hash \<Rightarrow> sync_download_state \<Rightarrow> sync_download_state" where
  "mark_received h s =
     (case map_of (in_flight_blocks s) h of
        None \<Rightarrow> s
      | Some f \<Rightarrow>
          s\<lparr>in_flight_blocks := AList.delete h (in_flight_blocks s),
            peer_workload := modify (if_peer f) (\<lambda>n. if n > 0 then n - 1 else n) (peer_workload s)\<rparr>)"

text \<open>Whoever delivered the block is only logged.\<close>

definition mark_block_received :: "hash \<Rightarrow> socket_addr \<Rightarrow> sync_manager \<Rightarrow> sync_manager" where
  "mark_block_received h peer = download_update (mark_received h)"

definition update_peer_height :: "socket_addr \<Rightarrow> u32 \<Rightarrow> sync_manager \<Rightarrow> sync_manager" where
  "update_peer_height addr height sm = sm\<lparr>sm_peer_heights := AList.update addr height (sm_peer_heights sm)\<rparr>"

definition get_peer_height :: "sync_manager \<Rightarrow> socket_addr \<Rightarrow> u32" where
  "get_peer_height sm addr = (case map_of (sm_peer_heights sm) addr of Some h \<Rightarrow> h | None \<Rightarrow> 0)"

definition is_block_in_flight :: "sync_manager \<Rightarrow> hash \<Rightarrow> bool" where
  "is_block_in_flight sm h \<longleftrightarrow> map_of (in_flight_blocks (sm_download sm)) h \<noteq> None"

definition workload :: "sync_download_state \<Rightarrow> socket_addr \<Rightarrow> nat" where
  "workload s peer = (case map_of (peer_workload s) peer of Some n \<Rightarrow> n | None \<Rightarrow> 0)"

definition get_peer_workload :: "sync_manager \<Rightarrow> socket_addr \<Rightarrow> nat" where
  "get_peer_workload sm peer = workload (sm_download sm) peer"

definition get_in_flight_count :: "sync_manager \<Rightarrow> nat" where
  "get_in_flight_count sm = length (in_flight_blocks (sm_download sm))"

definition record_block_stumble :: "hash \<Rightarrow> socket_addr \<Rightarrow> sync_manager \<Rightarrow> sync_manager" where
  "record_block_stumble h peer =
     download_update (\<lambda>s. s\<lparr>failed_block_peers := entry_or h [] (\<lambda>ps. ps @ [peer]) (failed_block_peers s)\<rparr>)"

definition can_download :: "sync_download_state \<Rightarrow> hash \<Rightarrow> socket_addr \<Rightarrow> bool" where
  "can_download s h peer = (case map_of (failed_block_peers s) h of Some ps \<Rightarrow> peer \<notin> set ps | None \<Rightarrow> True)"

definition can_peer_download_block :: "sync_manager \<Rightarrow> hash \<Rightarrow> socket_addr \<Rightarrow> bool" where
  "can_peer_download_block sm = can_download (sm_download sm)"

definition halve_stalling_timeout :: "sync_manager \<Rightarrow> sync_manager" where
  "halve_stalling_timeout sm =
     (if sm_stalling_timeout sm > 2 then sm\<lparr>sm_stalling_timeout := max (sm_stalling_timeout sm div 2) 2\<rparr> else sm)"

text \<open>The lowest block in flight; the first in iteration order among equal heights.\<close>

fun bottleneck_step :: "(hash \<times> in_flight) option \<Rightarrow> hash \<times> in_flight \<Rightarrow> (hash \<times> in_flight) option" where
  "bottleneck_step None e = Some e"
| "bottleneck_step (Some best) e = (if if_height (snd e) < if_height (snd best) then Some e else Some best)"

definition get_bottleneck_info :: "instant \<Rightarrow> sync_manager \<Rightarrow> (hash \<times> socket_addr \<times> nat) option" where
  "get_bottleneck_info now sm =
     map_option (\<lambda>(h, f). (h, if_peer f, as_secs (elapsed now (if_requested f))))
       (foldl bottleneck_step None (in_flight_blocks (sm_download sm)))"

definition clear_in_flight :: "sync_manager \<Rightarrow> sync_manager" where
  "clear_in_flight = download_update (\<lambda>s. s\<lparr>in_flight_blocks := [], peer_workload := []\<rparr>)"

definition timed_out :: "instant \<Rightarrow> nat \<Rightarrow> hash \<times> in_flight \<Rightarrow> bool" where
  "timed_out now timeout e \<longleftrightarrow> elapsed now (if_requested (snd e)) \<ge> timeout"

definition blacklist :: "hash \<times> in_flight \<Rightarrow> (hash \<times> socket_addr list) list \<Rightarrow> (hash \<times> socket_addr list) list" where
  "blacklist e = entry_or (fst e) []
     (\<lambda>ps. if if_peer (snd e) \<in> set ps then ps else ps @ [if_peer (snd e)])"

definition prune :: "instant \<Rightarrow> nat \<Rightarrow> sync_download_state \<Rightarrow> sync_download_state" where
  "prune now timeout s =
     (let expired = filter (timed_out now timeout) (in_flight_blocks s);
          peers = map (\<lambda>e. if_peer (snd e)) expired
      in s\<lparr>in_flight_blocks := filter (\<lambda>e. \<not> timed_out now timeout e) (in_flight_blocks s),
           peer_workload := fold (\<lambda>p. modify p (\<lambda>n. n - count_list peers p)) (remdups peers) (peer_workload s),
           failed_block_peers := fold blacklist expired (failed_block_peers s)\<rparr>)"

definition prune_timeouts :: "instant \<Rightarrow> nat \<Rightarrow> sync_manager \<Rightarrow> socket_addr list \<times> sync_manager" where
  "prune_timeouts now timeout sm =
     (map (\<lambda>e. if_peer (snd e)) (filter (timed_out now timeout) (in_flight_blocks (sm_download sm))),
      download_update (prune now timeout) sm)"

definition recalculate :: "sync_download_state \<Rightarrow> sync_download_state" where
  "recalculate s =
     s\<lparr>peer_workload := fold (\<lambda>e. entry_or (if_peer (snd e)) 0 Suc) (in_flight_blocks s) []\<rparr>"

definition recalculate_workloads :: "sync_manager \<Rightarrow> sync_manager" where
  "recalculate_workloads = download_update recalculate"

definition clear_blacklist :: "sync_manager \<Rightarrow> sync_manager" where
  "clear_blacklist = download_update (\<lambda>s. s\<lparr>failed_block_peers := []\<rparr>)"

subsection \<open>The header request slot\<close>

definition can_peer_sync_headers :: "instant \<Rightarrow> socket_addr \<Rightarrow> sync_manager \<Rightarrow> bool \<times> sync_manager" where
  "can_peer_sync_headers now peer sm =
     (let sm = sm\<lparr>sm_cooldowns := filter (\<lambda>(_, until). until > now) (sm_cooldowns sm)\<rparr>
      in (map_of (sm_cooldowns sm) peer = None, sm))"

definition begin_header_request :: "instant \<Rightarrow> socket_addr \<Rightarrow> hash \<Rightarrow> u32 \<Rightarrow> sync_manager \<Rightarrow> sync_manager" where
  "begin_header_request now peer tip height sm =
     sm\<lparr>sm_header_request := Some \<lparr>hr_peer = peer, hr_locator_tip = tip, hr_locator_height = height,
          hr_requested_at = now\<rparr>\<rparr>"

definition try_begin_header_request ::
  "instant \<Rightarrow> socket_addr \<Rightarrow> hash \<Rightarrow> u32 \<Rightarrow> nat \<Rightarrow> sync_manager \<Rightarrow> bool \<times> sync_manager" where
  "try_begin_header_request now peer tip height timeout sm =
     (let (allowed, sm) = can_peer_sync_headers now peer sm
      in if \<not> allowed then (False, sm)
         else case sm_header_request sm of
           None \<Rightarrow> (True, begin_header_request now peer tip height sm)
         | Some existing \<Rightarrow>
             if elapsed now (hr_requested_at existing) < timeout then (False, sm)
             else
               let sm = sm\<lparr>sm_cooldowns := AList.update (hr_peer existing) (now + timeout) (sm_cooldowns sm),
                           sm_header_request := None\<rparr>
               in if hr_peer existing = peer then (False, sm)
                  else (True, begin_header_request now peer tip height sm))"

definition finish_header_request :: "socket_addr \<Rightarrow> sync_manager \<Rightarrow> sync_manager" where
  "finish_header_request peer sm =
     sm\<lparr>sm_header_request := (case sm_header_request sm of
          Some r \<Rightarrow> if hr_peer r = peer then None else Some r | None \<Rightarrow> None),
        sm_cooldowns := AList.delete peer (sm_cooldowns sm)\<rparr>"

definition has_header_request_in_flight :: "sync_manager \<Rightarrow> bool" where
  "has_header_request_in_flight sm \<longleftrightarrow> sm_header_request sm \<noteq> None"

definition release_peer :: "socket_addr \<Rightarrow> sync_download_state \<Rightarrow> sync_download_state" where
  "release_peer addr s =
     s\<lparr>in_flight_blocks := filter (\<lambda>e. if_peer (snd e) \<noteq> addr) (in_flight_blocks s),
       peer_workload := AList.delete addr (peer_workload s)\<rparr>"

definition on_peer_disconnect :: "socket_addr \<Rightarrow> sync_manager \<Rightarrow> sync_manager" where
  "on_peer_disconnect addr sm = finish_header_request addr (download_update (release_peer addr) sm)"

subsection \<open>The workload counters are exact\<close>

definition peers_of :: "(hash \<times> in_flight) list \<Rightarrow> socket_addr list" where
  "peers_of fs = map (\<lambda>e. if_peer (snd e)) fs"

definition download_ok :: "sync_download_state \<Rightarrow> bool" where
  "download_ok s \<longleftrightarrow> distinct (map fst (in_flight_blocks s)) \<and> distinct (map fst (peer_workload s)) \<and>
     (\<forall>p. workload s p = count_list (peers_of (in_flight_blocks s)) p)"

lemma peers_of_simps [simp]:
  "peers_of [] = []" "peers_of (e # fs) = if_peer (snd e) # peers_of fs" "peers_of (fs @ gs) = peers_of fs @ peers_of gs"
  by (simp_all add: peers_of_def)

lemma count_list_filter:
  "count_list (peers_of (filter P fs)) p + count_list (peers_of (filter (\<lambda>e. \<not> P e) fs)) p = count_list (peers_of fs) p"
  by (induction fs) auto

lemma filter_delete: "AList.delete k m = filter (\<lambda>e. fst e \<noteq> k) m"
  by (induction m) auto

lemma filter_key: "distinct (map fst m) \<Longrightarrow> map_of m k = Some v \<Longrightarrow> filter (\<lambda>e. fst e = k) m = [(k, v)]"
proof (induction m)
  case (Cons e m)
  have "filter (\<lambda>e. fst e = k) m = []" if "k \<notin> fst ` set m" using that by (auto simp: filter_empty_conv)
  with Cons show ?case by (cases "fst e = k") (auto dest: map_of_SomeD)
qed simp

lemma workload_entry:
  "workload (s\<lparr>peer_workload := entry_or q 0 Suc (peer_workload s)\<rparr>) p = workload s p + (if p = q then 1 else 0)"
  by (simp add: workload_def map_of_entry_or)

lemma mark_in_flight_ok:
  assumes "download_ok s" "map_of (in_flight_blocks s) h = None"
  shows "download_ok (mark_in_flight now h peer height s)"
proof -
  let ?fs = "in_flight_blocks s @ [(h, \<lparr>if_peer = peer, if_requested = now, if_height = height\<rparr>)]"
  have m: "mark_in_flight now h peer height s =
      s\<lparr>in_flight_blocks := ?fs, peer_workload := entry_or peer 0 Suc (peer_workload s)\<rparr>"
    using assms(2) by (simp add: mark_in_flight_def update_new_key)
  have "workload (mark_in_flight now h peer height s) p = count_list (peers_of ?fs) p" for p
    using assms(1) workload_entry [where s = s and q = peer and p = p] by (simp add: m workload_def download_ok_def)
  then show ?thesis
    using assms by (simp add: download_ok_def m entry_or_def keys_update map_of_eq_None_iff)
qed

lemma mark_received_ok:
  assumes "download_ok s"
  shows "download_ok (mark_received h s)"
proof (cases "map_of (in_flight_blocks s) h")
  case (Some f)
  let ?fs = "AList.delete h (in_flight_blocks s)"
  have "filter (\<lambda>e. \<not> fst e \<noteq> h) (in_flight_blocks s) = [(h, f)]"
    using filter_key [OF _ Some] assms by (simp add: download_ok_def)
  then have c: "count_list (peers_of ?fs) p + (if p = if_peer f then 1 else 0) =
      count_list (peers_of (in_flight_blocks s)) p" for p
    using count_list_filter [of "\<lambda>e. fst e \<noteq> h" "in_flight_blocks s" p] by (auto simp: filter_delete)
  have "workload (mark_received h s) p = workload s p - (if p = if_peer f then 1 else 0)" for p
    by (simp add: mark_received_def Some workload_def map_of_modify split: option.splits)
  moreover have "workload s p = count_list (peers_of (in_flight_blocks s)) p" for p
    using assms by (simp add: download_ok_def)
  ultimately have "workload (mark_received h s) p = count_list (peers_of ?fs) p" for p
    using c [of p] by (simp split: if_splits)
  then show ?thesis
    using assms by (simp add: download_ok_def mark_received_def Some keys_delete)
qed (use assms in \<open>simp add: mark_received_def\<close>)

lemma fold_modify:
  "distinct ps \<Longrightarrow> map_of (fold (\<lambda>p. modify p (f p)) ps m) x =
    (if x \<in> set ps then map_option (f x) (map_of m x) else map_of m x)"
  by (induction ps arbitrary: m) (auto simp: map_of_modify)

lemma keys_fold_modify: "map fst (fold (\<lambda>p. modify p (f p)) ps m) = map fst m"
  by (induction ps arbitrary: m) simp_all

lemma distinct_filter_keys: "distinct (map fst m) \<Longrightarrow> distinct (map fst (filter P m))"
  by (rule distinct_map_filter)

lemma prune_ok:
  assumes "download_ok s"
  shows "download_ok (prune now timeout s)"
proof -
  let ?P = "timed_out now timeout"
  let ?peers = "peers_of (filter ?P (in_flight_blocks s))"
  have pw: "peer_workload (prune now timeout s) =
      fold (\<lambda>p. modify p (\<lambda>n. n - count_list ?peers p)) (remdups ?peers) (peer_workload s)"
    by (simp add: prune_def Let_def peers_of_def)
  have "workload (prune now timeout s) p = workload s p - count_list ?peers p" for p
    by (simp add: workload_def pw fold_modify count_notin split: option.splits)
  then have "workload (prune now timeout s) p =
      count_list (peers_of (filter (\<lambda>e. \<not> ?P e) (in_flight_blocks s))) p" for p
    using assms count_list_filter [of ?P "in_flight_blocks s" p] by (simp add: download_ok_def)
  then show ?thesis
    using assms by (simp add: download_ok_def pw keys_fold_modify) (simp add: prune_def Let_def distinct_map_filter)
qed

lemma release_peer_ok:
  assumes "download_ok s"
  shows "download_ok (release_peer addr s)"
proof -
  have "count_list (peers_of (filter (\<lambda>e. if_peer (snd e) \<noteq> addr) fs)) p =
      (if p = addr then 0 else count_list (peers_of fs) p)" for p fs
    by (induction fs) auto
  with assms show ?thesis
    by (simp add: download_ok_def release_peer_def workload_def keys_delete distinct_map_filter)
qed

lemma recalculate_exact:
  "workload (recalculate s) p = count_list (peers_of (in_flight_blocks s)) p"
  "distinct (map fst (peer_workload (recalculate s)))"
proof -
  have "workload \<lparr>in_flight_blocks = [], peer_workload = fold (\<lambda>e. entry_or (if_peer (snd e)) 0 Suc) fs m,
      failed_block_peers = []\<rparr> p = workload \<lparr>in_flight_blocks = [], peer_workload = m, failed_block_peers = []\<rparr> p +
      count_list (peers_of fs) p" for fs m
    by (induction fs arbitrary: m) (simp_all add: workload_def map_of_entry_or)
  from this [of "in_flight_blocks s" "[]"]
  show "workload (recalculate s) p = count_list (peers_of (in_flight_blocks s)) p"
    by (simp add: recalculate_def workload_def)
  have "distinct (map fst m) \<Longrightarrow>
      distinct (map fst (fold (\<lambda>e. entry_or (if_peer (snd e)) 0 Suc) fs m))" for fs :: "(hash \<times> in_flight) list" and m
    by (induction fs arbitrary: m) (simp_all add: entry_or_def keys_update)
  then show "distinct (map fst (peer_workload (recalculate s)))" by (simp add: recalculate_def)
qed

lemma recalculate_ok:
  assumes "distinct (map fst (in_flight_blocks s))"
  shows "download_ok (recalculate s)"
  using assms recalculate_exact [of s] by (simp add: download_ok_def recalculate_def)

text \<open>A released block can be requested again at once; a timed-out one not from the same peer.\<close>

lemma prune_expires:
  "map_of (in_flight_blocks (prune now timeout s)) h = Some f \<Longrightarrow> elapsed now (if_requested f) < timeout"
  by (auto simp: prune_def Let_def timed_out_def dest!: map_of_SomeD)

lemma blacklist_blocks:
  "can_download (s\<lparr>failed_block_peers := blacklist e m\<rparr>) h p \<longleftrightarrow>
     can_download (s\<lparr>failed_block_peers := m\<rparr>) h p \<and> \<not> (h = fst e \<and> p = if_peer (snd e))"
  by (auto simp: can_download_def blacklist_def map_of_entry_or split: option.splits)

lemma fold_blacklist_blocks:
  "can_download (s\<lparr>failed_block_peers := fold blacklist es m\<rparr>) h p \<longleftrightarrow>
     can_download (s\<lparr>failed_block_peers := m\<rparr>) h p \<and> (\<forall>e \<in> set es. \<not> (h = fst e \<and> p = if_peer (snd e)))"
  by (induction es arbitrary: m) (auto simp: blacklist_blocks)

lemma prune_blacklists:
  "can_download (prune now timeout s) h p \<longleftrightarrow> can_download s h p \<and>
    (\<forall>e \<in> set (in_flight_blocks s). timed_out now timeout e \<longrightarrow> \<not> (h = fst e \<and> p = if_peer (snd e)))"
proof -
  have "can_download (prune now timeout s) h p =
      can_download (s\<lparr>failed_block_peers :=
        fold blacklist (filter (timed_out now timeout) (in_flight_blocks s)) (failed_block_peers s)\<rparr>) h p"
    by (simp add: prune_def Let_def can_download_def)
  then show ?thesis by (auto simp: fold_blacklist_blocks)
qed

subsection \<open>The header slot\<close>

text \<open>
  A request is granted only when none is outstanding or the outstanding one has expired; then it is the
  outstanding one, and the peer that let its request expire cools down for the length of a timeout.
\<close>

lemma header_slot_granted:
  assumes "try_begin_header_request now peer tip height timeout sm = (True, sm')"
  shows "(\<forall>r. sm_header_request sm = Some r \<longrightarrow> timeout \<le> elapsed now (hr_requested_at r) \<and> hr_peer r \<noteq> peer \<and>
      (0 < timeout \<longrightarrow> \<not> fst (can_peer_sync_headers now (hr_peer r) sm'))) \<and>
    (\<exists>r. sm_header_request sm' = Some r \<and> hr_peer r = peer \<and> hr_requested_at r = now) \<and>
    fst (can_peer_sync_headers now peer sm)"
  using assms
  by (auto simp: try_begin_header_request_def can_peer_sync_headers_def begin_header_request_def Let_def
      map_of_filter_in split: option.splits if_splits)

lemma header_slot_refused:
  assumes "try_begin_header_request now peer tip height timeout sm = (False, sm')"
  shows "\<not> fst (can_peer_sync_headers now peer sm) \<or>
    (\<exists>r. sm_header_request sm = Some r \<and> (elapsed now (hr_requested_at r) < timeout \<or> hr_peer r = peer))"
  using assms
  by (auto simp: try_begin_header_request_def can_peer_sync_headers_def Let_def split: option.splits if_splits)

end
