(* ===== verification/PeerManager.thy ===== *)
theory PeerManager
  imports Sync
begin

text \<open>
  Message processing, \<^verbatim>\<open>net/p2p/peer_manager.rs\<close>, and the block downloader,
  \<^verbatim>\<open>net/p2p/sync/block_downloader.rs\<close>.  The state they share is one record: the peer table, the
  synchronisation manager, the peers' own records, the chain behind the traits \<^verbatim>\<open>ValidationInterface\<close> and
  \<^verbatim>\<open>SyncProvider\<close>, and the messages handed to the write loops.  The traits are a record of functions over
  the chain state.  A handler the code spawns as a task is one step of the model, taken when it runs.

  The download round keeps the workload counters exact and below the limit, and puts the next missing
  block in flight whenever a peer can take it.
\<close>

subsection \<open>Shared state\<close>

record ('c, 'e) chain_interface =
  ci_process_headers :: "'c \<Rightarrow> digests \<Rightarrow> block_header list \<Rightarrow> ('e + u32 list) \<times> 'c"
  ci_process_block :: "'c \<Rightarrow> digests \<Rightarrow> block \<Rightarrow> ('e + u32) \<times> 'c"
  ci_get_block_locator :: "'c \<Rightarrow> hash \<Rightarrow> hash list"
  ci_get_next_block_hashes :: "'c \<Rightarrow> u32 \<Rightarrow> nat \<Rightarrow> hash list"
  ci_get_blocks_tip :: "'c \<Rightarrow> hash \<times> u32"

record peer =
  peer_id :: socket_addr
  misbehavior_score :: i32
  last_height :: u32
  is_discouraged :: bool
  peer_conn_type :: connection_type

record 'c net =
  nt_table :: peer_table
  nt_sync :: sync_manager
  nt_peers :: "(socket_addr \<times> peer) list"
  nt_chain :: 'c
  nt_sent :: "(socket_addr \<times> message) list"

text \<open>The moment of a step: its clocks and which connections still have a write loop.\<close>

record moment =
  mo_now :: instant
  mo_wall :: u64
  mo_open :: "socket_addr \<Rightarrow> bool"

definition HEADER_REQUEST_TIMEOUT :: nat where
  "HEADER_REQUEST_TIMEOUT = from_secs 15"

text \<open>\<^verbatim>\<open>NodeHandle::send\<close>.\<close>

definition node_send :: "moment \<Rightarrow> socket_addr \<Rightarrow> message \<Rightarrow> 'c net \<Rightarrow> bool \<times> 'c net" where
  "node_send mo addr msg n =
     (if mo_open mo addr then (True, n\<lparr>nt_sent := nt_sent n @ [(addr, msg)]\<rparr>) else (False, n))"

definition on_sync :: "(sync_manager \<Rightarrow> sync_manager) \<Rightarrow> 'c net \<Rightarrow> 'c net" where
  "on_sync f n = n\<lparr>nt_sync := f (nt_sync n)\<rparr>"

subsection \<open>The peer manager\<close>

definition peer_new :: "socket_addr \<Rightarrow> u32 \<Rightarrow> connection_type \<Rightarrow> peer" where
  "peer_new addr height c =
     \<lparr>peer_id = addr, misbehavior_score = 0, last_height = height, is_discouraged = False, peer_conn_type = c\<rparr>"

definition initialize_node :: "socket_addr \<Rightarrow> u32 \<Rightarrow> connection_type \<Rightarrow> 'c net \<Rightarrow> 'c net" where
  "initialize_node addr height c n = n\<lparr>nt_peers := AList.update addr (peer_new addr height c) (nt_peers n)\<rparr>"

definition finalize_node :: "socket_addr \<Rightarrow> 'c net \<Rightarrow> 'c net" where
  "finalize_node addr n =
     n\<lparr>nt_peers := AList.delete addr (nt_peers n), nt_table := remove_peer (nt_table n) addr,
       nt_sync := on_peer_disconnect addr (nt_sync n)\<rparr>"

definition misbehaving :: "moment \<Rightarrow> socket_addr \<Rightarrow> i32 \<Rightarrow> 'c net \<Rightarrow> 'c net" where
  "misbehaving mo addr how_much n =
     (case map_of (nt_peers n) addr of
        None \<Rightarrow> n
      | Some p \<Rightarrow>
          let score = misbehavior_score p + how_much
          in if sint score \<ge> 100 \<and> \<not> is_discouraged p
             then n\<lparr>nt_peers := modify addr (\<lambda>p. p\<lparr>misbehavior_score := score, is_discouraged := True\<rparr>) (nt_peers n),
                    nt_table := record_critical_failure (mo_now mo) (nt_table n) addr\<rparr>
             else n\<lparr>nt_peers := modify addr (\<lambda>p. p\<lparr>misbehavior_score := score\<rparr>) (nt_peers n),
                    nt_table := record_misbehavior (mo_now mo) (nt_table n) addr how_much\<rparr>)"

definition is_peer_discouraged :: "socket_addr \<Rightarrow> 'c net \<Rightarrow> bool" where
  "is_peer_discouraged addr n = (case map_of (nt_peers n) addr of Some p \<Rightarrow> is_discouraged p | None \<Rightarrow> False)"

text \<open>A \<^verbatim>\<open>getheaders\<close> for \<open>tip\<close>, once the header slot is reserved; a failed send frees the slot.\<close>

definition request_headers :: "('c, 'e) chain_interface \<Rightarrow> moment \<Rightarrow> socket_addr \<Rightarrow> hash \<Rightarrow> u32 \<Rightarrow> 'c net \<Rightarrow> 'c net" where
  "request_headers V mo addr tip height n =
     (let (granted, sm) = try_begin_header_request (mo_now mo) addr tip height HEADER_REQUEST_TIMEOUT (nt_sync n);
          n = n\<lparr>nt_sync := sm\<rparr>
      in if \<not> granted then n
         else
           let (sent, n) = node_send mo addr (GetHeaders_msg \<lparr>gh_version = 70015,
                 gh_locator = ci_get_block_locator V (nt_chain n) tip, gh_stop_hash = hash_ZERO\<rparr>) n
           in if sent then n else on_sync (finish_header_request addr) n)"

definition on_headers ::
  "('c, 'e) chain_interface \<Rightarrow> digests \<Rightarrow> moment \<Rightarrow> socket_addr \<Rightarrow> block_header list \<Rightarrow> 'c net \<Rightarrow> 'c net" where
  "on_headers V H mo addr headers n =
     (let n = on_sync (finish_header_request addr) n
      in if headers = [] then n
         else
           let (result, chain) = ci_process_headers V (nt_chain n) H headers; n = n\<lparr>nt_chain := chain\<rparr>
           in case result of
                Inl _ \<Rightarrow> misbehaving mo addr 20 n
              | Inr heights \<Rightarrow>
                  let pairs = zip headers heights
                  in if pairs = [] then n
                     else
                       let (last_header, last_height) = last pairs;
                           last_hash = block_hash H last_header;
                           n = (if last_hash \<noteq> hash_ZERO
                                then on_sync (update_headers_tip last_hash last_height (ucast (bh_time last_header))) n
                                else n)
                       in if length headers = 2000 then request_headers V mo addr last_hash last_height n else n)"

definition on_block :: "('c, 'e) chain_interface \<Rightarrow> digests \<Rightarrow> moment \<Rightarrow> socket_addr \<Rightarrow> block \<Rightarrow> 'c net \<Rightarrow> 'c net" where
  "on_block V H mo addr b n =
     (let h = block_hash H (header b);
          (result, chain) = ci_process_block V (nt_chain n) H b; n = n\<lparr>nt_chain := chain\<rparr>
      in case result of
           Inr _ \<Rightarrow> on_sync (mark_block_received h addr) (on_sync halve_stalling_timeout n)
         | Inl _ \<Rightarrow> misbehaving mo addr 100 (on_sync (mark_block_received h addr) n))"

definition on_not_found :: "socket_addr \<Rightarrow> inv_vector list \<Rightarrow> 'c net \<Rightarrow> 'c net" where
  "on_not_found addr items n =
     fold (\<lambda>item n. if inv_kind item = Inv_Block \<or> inv_kind item = Inv_WitnessBlock
             then on_sync (mark_block_received (inv_hash item) addr) n else n) items n"

definition on_ping :: "moment \<Rightarrow> socket_addr \<Rightarrow> u64 \<Rightarrow> 'c net \<Rightarrow> 'c net" where
  "on_ping mo addr nonce n = snd (node_send mo addr (Pong_msg nonce) n)"

text \<open>\<^verbatim>\<open>on_inv\<close> only logs the announced blocks; every other message is logged and dropped.\<close>

fun process_message ::
  "('c, 'e) chain_interface \<Rightarrow> digests \<Rightarrow> moment \<Rightarrow> socket_addr \<Rightarrow> message \<Rightarrow> 'c net \<Rightarrow> 'c net" where
  "process_message V H mo addr (Headers_msg hs) n = on_headers V H mo addr hs n"
| "process_message V H mo addr (Block_msg b) n = on_block V H mo addr b n"
| "process_message V H mo addr (Ping_msg nonce) n = on_ping mo addr nonce n"
| "process_message V H mo addr (NotFound_msg items) n = on_not_found addr items n"
| "process_message V H mo addr _ n = n"

definition sync_with_peer :: "('c, 'e) chain_interface \<Rightarrow> moment \<Rightarrow> socket_addr \<Rightarrow> 'c net \<Rightarrow> 'c net" where
  "sync_with_peer V mo addr n =
     (if is_ibd (mo_wall mo) (nt_sync n)
      then let (tip, height) = sm_get_headers_tip (nt_sync n) in request_headers V mo addr tip height n
      else n)"

subsection \<open>The block downloader\<close>

definition BLOCK_DOWNLOAD_WINDOW :: nat where
  "BLOCK_DOWNLOAD_WINDOW = 8192"

definition MAX_BLOCKS_IN_TRANSIT_PER_PEER :: nat where
  "MAX_BLOCKS_IN_TRANSIT_PER_PEER = 64"

definition BLOCK_REQUEST_TIMEOUT :: nat where
  "BLOCK_REQUEST_TIMEOUT = from_secs 30"

record block_downloader =
  last_activation_progress :: u64
  last_tip_height :: u32
  last_blacklist_clear_height :: u32

definition block_downloader_new :: "u64 \<Rightarrow> block_downloader" where
  "block_downloader_new wall = \<lparr>last_activation_progress = wall, last_tip_height = 0, last_blacklist_clear_height = 0\<rparr>"

text \<open>A peer whose channel is closed is dropped.\<close>

definition drop_peer :: "socket_addr \<Rightarrow> 'c net \<Rightarrow> 'c net" where
  "drop_peer addr n = on_sync (on_peer_disconnect addr) (n\<lparr>nt_table := remove_peer (nt_table n) addr\<rparr>)"

fun filter_syncable :: "instant \<Rightarrow> node_handle list \<Rightarrow> sync_manager \<Rightarrow> node_handle list \<times> sync_manager" where
  "filter_syncable now [] sm = ([], sm)"
| "filter_syncable now (p # ps) sm =
     (let (ok, sm) = can_peer_sync_headers now (nh_addr p) sm;
          (qs, sm) = filter_syncable now ps sm
      in (if ok then p # qs else qs, sm))"

definition coordinate_headers :: "('c, 'e) chain_interface \<Rightarrow> moment \<Rightarrow> 'c net \<Rightarrow> 'c net" where
  "coordinate_headers V mo n =
     (if \<not> is_ibd (mo_wall mo) (nt_sync n) then n
      else
        let (peers, sm) = filter_syncable (mo_now mo) (get_peers (nt_table n) (Some 1)) (nt_sync n);
            n = n\<lparr>nt_sync := sm\<rparr>
        in case max_by_key (\<lambda>p q. get_peer_height sm (nh_addr p) \<le> get_peer_height sm (nh_addr q)) peers of
             None \<Rightarrow> n
           | Some p \<Rightarrow>
               let addr = nh_addr p;
                   (tip, height) = sm_get_headers_tip (nt_sync n);
                   peer_height = get_peer_height (nt_sync n) addr
               in if peer_height > 0 \<and> height \<ge> peer_height then n
                  else
                    let (granted, sm) = try_begin_header_request (mo_now mo) addr tip height
                          HEADER_REQUEST_TIMEOUT (nt_sync n);
                        n = n\<lparr>nt_sync := sm\<rparr>
                    in if \<not> granted then n
                       else
                         let (sent, n) = node_send mo addr (GetHeaders_msg \<lparr>gh_version = 70015,
                               gh_locator = ci_get_block_locator V (nt_chain n) tip, gh_stop_hash = hash_ZERO\<rparr>) n
                         in if sent then n else drop_peer addr (on_sync (finish_header_request addr) n))"

text \<open>The blocks one peer is asked for: in order, not assigned in this round, up to its capacity.\<close>

fun pick_blocks :: "(hash \<Rightarrow> bool) \<Rightarrow> nat \<Rightarrow> hash list \<Rightarrow> hash list \<Rightarrow> hash list \<times> hash list" where
  "pick_blocks ok n [] assigned = ([], assigned)"
| "pick_blocks ok n (h # hs) assigned =
     (if n = 0 then ([], assigned)
      else if ok h \<and> h \<notin> set assigned
      then (let (picked, assigned) = pick_blocks ok (n - 1) hs (h # assigned) in (h # picked, assigned))
      else pick_blocks ok n hs assigned)"

text \<open>\<^verbatim>\<open>missing.iter().position(..).unwrap_or(0)\<close>.\<close>

definition offset_of :: "hash list \<Rightarrow> hash \<Rightarrow> nat" where
  "offset_of hs h = (let i = length (takeWhile (\<lambda>x. x \<noteq> h) hs) in if i < length hs then i else 0)"

definition mark_requested ::
  "instant \<Rightarrow> socket_addr \<Rightarrow> u32 \<Rightarrow> hash list \<Rightarrow> hash list \<Rightarrow> sync_manager \<Rightarrow> sync_manager" where
  "mark_requested now addr b_height missing =
     fold (\<lambda>h. mark_block_in_flight now h addr (b_height + 1 + word_of_nat (offset_of missing h)))"

definition request_from ::
  "moment \<Rightarrow> u32 \<Rightarrow> hash list \<Rightarrow> socket_addr \<Rightarrow> 'c net \<times> hash list \<Rightarrow> 'c net \<times> hash list" where
  "request_from mo b_height missing addr st =
     (let (n, assigned) = st;
          current_load = get_peer_workload (nt_sync n) addr
      in if current_load \<ge> MAX_BLOCKS_IN_TRANSIT_PER_PEER then (n, assigned)
         else
           let (to_request, assigned) = pick_blocks
                 (\<lambda>h. \<not> is_block_in_flight (nt_sync n) h \<and> can_peer_download_block (nt_sync n) h addr)
                 (MAX_BLOCKS_IN_TRANSIT_PER_PEER - current_load) missing assigned
           in if to_request = [] then (n, assigned)
              else
                let n = on_sync (mark_requested (mo_now mo) addr b_height missing to_request) n;
                    (sent, n) = node_send mo addr
                      (GetData_msg (map (\<lambda>h. \<lparr>inv_kind = Inv_WitnessBlock, inv_hash = h\<rparr>) to_request)) n
                in if sent then (n, assigned)
                   else (drop_peer addr (on_sync (fold (\<lambda>h. mark_block_received h addr) to_request) n), assigned))"

definition download_round :: "moment \<Rightarrow> u32 \<Rightarrow> hash list \<Rightarrow> node_handle list \<Rightarrow> 'c net \<Rightarrow> 'c net" where
  "download_round mo b_height missing peers n =
     fst (fold (\<lambda>p. request_from mo b_height missing (nh_addr p)) peers (n, []))"

definition heal :: "moment \<Rightarrow> 'c net \<Rightarrow> 'c net" where
  "heal mo n =
     (let n = on_sync (\<lambda>sm. snd (prune_timeouts (mo_now mo) BLOCK_REQUEST_TIMEOUT (recalculate_workloads sm))) n
      in case get_bottleneck_info (mo_now mo) (nt_sync n) of
           None \<Rightarrow> n
         | Some (h, addr, duration) \<Rightarrow>
             if duration \<ge> 60
             then on_sync (mark_block_received h addr)
                    ((on_sync (record_block_stumble h addr) n)\<lparr>nt_table :=
                       record_misbehavior (mo_now mo) (nt_table n) addr 5\<rparr>)
             else n)"

text \<open>\<^verbatim>\<open>saturating_sub\<close> on words.\<close>

definition sat_sub :: "'a::len word \<Rightarrow> 'a word \<Rightarrow> 'a word" where
  "sat_sub a b = (if b \<le> a then a - b else 0)"

definition clear_old_blacklist :: "u32 \<Rightarrow> block_downloader \<times> 'c net \<Rightarrow> block_downloader \<times> 'c net" where
  "clear_old_blacklist b_height st =
     (let (bd, n) = st
      in if sat_sub b_height (last_blacklist_clear_height bd) \<ge> 500
         then (bd\<lparr>last_blacklist_clear_height := b_height\<rparr>, on_sync clear_blacklist n) else (bd, n))"

definition break_stall :: "u64 \<Rightarrow> u32 \<Rightarrow> u32 \<Rightarrow> block_downloader \<times> 'c net \<Rightarrow> block_downloader \<times> 'c net" where
  "break_stall wall h_height b_height st =
     (let (bd, n) = st
      in if b_height > last_tip_height bd
         then (bd\<lparr>last_tip_height := b_height, last_activation_progress := wall\<rparr>, n)
         else if h_height > b_height \<and> sat_sub wall (last_activation_progress bd) > 120
         then (bd\<lparr>last_activation_progress := wall\<rparr>, on_sync (\<lambda>sm. clear_blacklist (clear_in_flight sm)) n)
         else (bd, n))"

definition coordinate_downloads ::
  "('c, 'e) chain_interface \<Rightarrow> moment \<Rightarrow> block_downloader \<times> 'c net \<Rightarrow> block_downloader \<times> 'c net" where
  "coordinate_downloads V mo st =
     (let (bd, n) = st;
          n = heal mo n;
          (headers_tip_hash, h_height) = sm_get_headers_tip (nt_sync n);
          (blocks_tip_hash, b_height) = ci_get_blocks_tip V (nt_chain n);
          (bd, n) = clear_old_blacklist b_height (bd, n)
      in if headers_tip_hash = blocks_tip_hash \<or> headers_tip_hash = hash_ZERO then (bd, n)
         else
           let (bd, n) = break_stall (mo_wall mo) h_height b_height (bd, n);
               missing = ci_get_next_block_hashes V (nt_chain n) b_height BLOCK_DOWNLOAD_WINDOW;
               full = get_peers (nt_table n) (Some 9);
               download_peers = (if full = [] then get_peers (nt_table n) (Some 1) else full)
           in if missing = [] \<or> download_peers = [] then (bd, n)
              else (bd, download_round mo b_height missing download_peers n))"

subsection \<open>The workload invariant\<close>

definition dl :: "'c net \<Rightarrow> sync_download_state" where
  "dl n = sm_download (nt_sync n)"

definition within_limit :: "sync_download_state \<Rightarrow> bool" where
  "within_limit s \<longleftrightarrow> download_ok s \<and> (\<forall>p. workload s p \<le> MAX_BLOCKS_IN_TRANSIT_PER_PEER)"

definition net_ok :: "'c net \<Rightarrow> bool" where
  "net_ok n \<longleftrightarrow> within_limit (dl n)"

lemma sync_download_simps [simp]:
  "sm_download (download_update f sm) = f (sm_download sm)"
  "sm_download (finish_header_request addr sm) = sm_download sm"
  "sm_download (update_headers_tip h ht t sm) = sm_download sm"
  "sm_download (update_blocks_tip h ht sm) = sm_download sm"
  "sm_download (update_peer_height addr ht sm) = sm_download sm"
  "sm_download (halve_stalling_timeout sm) = sm_download sm"
  "sm_download (begin_header_request now addr tip ht sm) = sm_download sm"
  "sm_download (on_peer_disconnect addr sm) = release_peer addr (sm_download sm)"
  "sm_download (snd (can_peer_sync_headers now addr sm)) = sm_download sm"
  by (simp_all add: download_update_def finish_header_request_def update_headers_tip_def update_blocks_tip_def
      update_peer_height_def halve_stalling_timeout_def begin_header_request_def on_peer_disconnect_def
      can_peer_sync_headers_def Let_def)

lemma sync_download_try [simp]:
  "sm_download (snd (try_begin_header_request now addr tip ht timeout sm)) = sm_download sm"
  by (simp add: try_begin_header_request_def can_peer_sync_headers_def Let_def split: option.splits)

lemma sync_download_filter: "sm_download (snd (filter_syncable now ps sm)) = sm_download sm"
proof (induction ps arbitrary: sm)
  case (Cons p ps)
  have "snd (filter_syncable now (p # ps) sm) = snd (filter_syncable now ps (snd (can_peer_sync_headers now (nh_addr p) sm)))"
    by (simp add: case_prod_unfold Let_def)
  then show ?case by (simp add: Cons.IH)
qed simp

lemma dl_simps [simp]:
  "dl (on_sync f n) = sm_download (f (nt_sync n))"
  "dl (n\<lparr>nt_sync := sm\<rparr>) = sm_download sm"
  "dl (n\<lparr>nt_table := t\<rparr>) = dl n" "dl (n\<lparr>nt_peers := ps\<rparr>) = dl n" "dl (n\<lparr>nt_chain := c\<rparr>) = dl n"
  "dl (n\<lparr>nt_sent := ms\<rparr>) = dl n" "dl (snd (node_send mo addr msg n)) = dl n"
  "dl (misbehaving mo addr k n) = dl n" "dl (initialize_node addr ht conn n) = dl n"
  by (simp_all add: dl_def on_sync_def node_send_def misbehaving_def initialize_node_def Let_def split: option.splits)

lemma sm_download_dl: "sm_download (nt_sync n) = dl n"
  by (simp add: dl_def)

lemma within_limit_weaker:
  assumes "within_limit s" "download_ok s'" "\<And>p. workload s' p \<le> workload s p"
  shows "within_limit s'"
  using assms by (auto simp: within_limit_def intro: order_trans)

lemma workload_received: "workload (mark_received h s) p \<le> workload s p"
  by (auto simp: mark_received_def workload_def map_of_modify split: option.splits)

lemma within_limit_download: "within_limit s \<Longrightarrow> download_ok s"
  by (simp add: within_limit_def)

lemma within_limit_received: "within_limit s \<Longrightarrow> within_limit (mark_received h s)"
  by (rule within_limit_weaker [OF _ mark_received_ok [OF within_limit_download] workload_received])

lemma within_limit_release: "within_limit s \<Longrightarrow> within_limit (release_peer addr s)"
  by (rule within_limit_weaker [OF _ release_peer_ok [OF within_limit_download]])
    (auto simp: release_peer_def workload_def)

lemma within_limit_recalculate:
  assumes "within_limit s"
  shows "within_limit (recalculate s)"
proof (rule within_limit_weaker [OF assms])
  show "download_ok (recalculate s)" using assms by (intro recalculate_ok) (simp add: within_limit_def download_ok_def)
  show "workload (recalculate s) p \<le> workload s p" for p
    using assms by (simp add: recalculate_exact within_limit_def download_ok_def)
qed

lemma within_limit_prune:
  assumes "within_limit s"
  shows "within_limit (prune now timeout s)"
proof (rule within_limit_weaker [OF assms])
  have ok: "download_ok s" "download_ok (prune now timeout s)" using assms by (simp_all add: within_limit_def prune_ok)
  then show "download_ok (prune now timeout s)" by simp
  show "workload (prune now timeout s) p \<le> workload s p" for p
    using ok count_list_filter [of "timed_out now timeout" "in_flight_blocks s" p]
    by (simp add: download_ok_def) (simp add: prune_def Let_def)
qed

lemma within_limit_empty: "within_limit (s\<lparr>in_flight_blocks := [], peer_workload := []\<rparr>)"
  by (simp add: within_limit_def download_ok_def workload_def)

lemma within_limit_failed [simp]:
  "within_limit (s\<lparr>failed_block_peers := m\<rparr>) = within_limit s"
  by (simp add: within_limit_def download_ok_def workload_def)

subsection \<open>A download round\<close>

lemma pick_blocks_spec:
  "pick_blocks ok n hs assigned = (picked, assigned') \<Longrightarrow>
    length picked \<le> n \<and> distinct picked \<and> set assigned' = set assigned \<union> set picked \<and>
    (\<forall>h \<in> set picked. ok h \<and> h \<notin> set assigned \<and> h \<in> set hs)"
proof (induction hs arbitrary: n assigned picked assigned')
  case (Cons h hs)
  show ?case
  proof (cases "n \<noteq> 0 \<and> ok h \<and> h \<notin> set assigned")
    case True
    obtain ps as where r: "pick_blocks ok (n - 1) hs (h # assigned) = (ps, as)" by fastforce
    then have "picked = h # ps" "assigned' = as" using Cons.prems True by auto
    with Cons.IH [OF r] True show ?thesis by auto
  next
    case False
    then have "n = 0 \<and> picked = [] \<and> assigned' = assigned \<or> pick_blocks ok n hs assigned = (picked, assigned')"
      using Cons.prems by (auto split: if_splits)
    with Cons.IH [of n assigned picked assigned'] show ?thesis by auto
  qed
qed simp

lemma pick_first:
  "n > 0 \<Longrightarrow> ok h \<Longrightarrow> h \<notin> set assigned \<Longrightarrow> h \<in> set (fst (pick_blocks ok n (h # hs) assigned))"
  by (simp add: case_prod_unfold Let_def)

lemma mark_requested_spec:
  assumes "download_ok (sm_download sm)" "distinct hs" "\<forall>h \<in> set hs. map_of (in_flight_blocks (sm_download sm)) h = None"
  shows "download_ok (sm_download (mark_requested now addr b missing hs sm)) \<and>
    (\<forall>p. workload (sm_download (mark_requested now addr b missing hs sm)) p =
       workload (sm_download sm) p + (if p = addr then length hs else 0)) \<and>
    (\<forall>h. (map_of (in_flight_blocks (sm_download (mark_requested now addr b missing hs sm))) h \<noteq> None) =
       (h \<in> set hs \<or> map_of (in_flight_blocks (sm_download sm)) h \<noteq> None))"
  using assms
proof (induction hs arbitrary: sm)
  case (Cons h hs)
  let ?height = "b + 1 + word_of_nat (offset_of missing h)"
  let ?sm = "mark_block_in_flight now h addr ?height sm"
  have d: "sm_download ?sm = mark_in_flight now h addr ?height (sm_download sm)" by (simp add: mark_block_in_flight_def)
  have r: "mark_requested now addr b missing (h # hs) sm = mark_requested now addr b missing hs ?sm"
    by (simp add: mark_requested_def)
  have 1: "download_ok (sm_download ?sm)" using Cons.prems d mark_in_flight_ok by simp
  have 2: "workload (sm_download ?sm) p = workload (sm_download sm) p + (if p = addr then 1 else 0)" for p
    using workload_entry [where s = "sm_download sm" and q = addr and p = p]
    by (simp add: d mark_in_flight_def workload_def)
  have 3: "map_of (in_flight_blocks (sm_download ?sm)) k =
      (if k = h then Some \<lparr>if_peer = addr, if_requested = now, if_height = ?height\<rparr>
       else map_of (in_flight_blocks (sm_download sm)) k)" for k
    by (simp add: d mark_in_flight_def)
  have "\<forall>k \<in> set hs. map_of (in_flight_blocks (sm_download ?sm)) k = None"
    using Cons.prems(2,3) by (auto simp: 3)
  note ih = Cons.IH [OF 1 _ this]
  show ?case unfolding r using ih Cons.prems(2) by (auto simp: 2 3)
qed (simp add: mark_requested_def)

lemma fold_received_ok:
  "within_limit (sm_download sm) \<Longrightarrow> within_limit (sm_download (fold (\<lambda>h. mark_block_received h addr) hs sm))"
  by (induction hs arbitrary: sm) (simp_all add: mark_block_received_def within_limit_received)

lemma request_from_ok:
  assumes "net_ok n"
  shows "net_ok (fst (request_from mo b missing addr (n, assigned)))"
proof -
  let ?sm = "nt_sync n"
  let ?load = "get_peer_workload ?sm addr"
  let ?ok = "\<lambda>h. \<not> is_block_in_flight ?sm h \<and> can_peer_download_block ?sm h addr"
  obtain hs as where p: "pick_blocks ?ok (MAX_BLOCKS_IN_TRANSIT_PER_PEER - ?load) missing assigned = (hs, as)"
    by fastforce
  note ps = pick_blocks_spec [OF p]
  let ?sm' = "mark_requested (mo_now mo) addr b missing hs ?sm"
  have d: "download_ok (sm_download ?sm)" using assms by (simp add: net_ok_def within_limit_def dl_def)
  have w: "within_limit (sm_download ?sm')" if l: "?load < MAX_BLOCKS_IN_TRANSIT_PER_PEER"
  proof -
    have "\<forall>h \<in> set hs. map_of (in_flight_blocks (sm_download ?sm)) h = None"
      using ps by (auto simp: is_block_in_flight_def)
    note m = mark_requested_spec [OF d _ this, of "mo_now mo" addr b missing]
    have "workload (sm_download ?sm') q \<le> MAX_BLOCKS_IN_TRANSIT_PER_PEER" for q
      using m ps l assms by (auto simp: net_ok_def within_limit_def dl_def get_peer_workload_def)
    then show ?thesis using m ps by (simp add: within_limit_def)
  qed
  show ?thesis
    using w assms fold_received_ok [of ?sm' addr hs]
    by (auto simp: request_from_def p net_ok_def Let_def node_send_def drop_peer_def within_limit_release on_sync_def
        dl_def)
qed

lemma download_round_ok:
  assumes "net_ok n"
  shows "net_ok (download_round mo b missing peers n)"
proof -
  have "net_ok (fst st) \<Longrightarrow> net_ok (fst (fold (\<lambda>p. request_from mo b missing (nh_addr p)) peers st))" for st :: "'a net \<times> hash list"
  proof (induction peers arbitrary: st)
    case (Cons p ps)
    then show ?case using request_from_ok [of "fst st" mo b missing "nh_addr p" "snd st"] by simp
  qed simp
  then show ?thesis using assms by (simp add: download_round_def)
qed

text \<open>
  Requests older than 30 seconds are pruned before the bottleneck is looked for, so its 60-second rule
  never fires.
\<close>

lemma bottleneck_mem: "foldl bottleneck_step b fs = Some e \<Longrightarrow> b = Some e \<or> e \<in> set fs"
proof (induction fs arbitrary: b)
  case (Cons f fs)
  then show ?case by (cases b) (fastforce split: if_splits)+
qed simp

lemma heal_eq: "heal mo n = on_sync (download_update (\<lambda>s. prune (mo_now mo) BLOCK_REQUEST_TIMEOUT (recalculate s))) n"
proof -
  let ?n = "on_sync (\<lambda>sm. snd (prune_timeouts (mo_now mo) BLOCK_REQUEST_TIMEOUT (recalculate_workloads sm))) n"
  have n: "?n = on_sync (download_update (\<lambda>s. prune (mo_now mo) BLOCK_REQUEST_TIMEOUT (recalculate s))) n"
    by (simp add: on_sync_def prune_timeouts_def recalculate_workloads_def download_update_def)
  have "duration < 60" if "get_bottleneck_info (mo_now mo) (nt_sync ?n) = Some (h, addr, duration)" for h addr duration
  proof -
    from that obtain f where f: "(h, f) \<in> set (in_flight_blocks (dl ?n))"
        "duration = as_secs (elapsed (mo_now mo) (if_requested f))"
      by (auto simp: get_bottleneck_info_def dl_def dest!: bottleneck_mem)
    then have "elapsed (mo_now mo) (if_requested f) < BLOCK_REQUEST_TIMEOUT"
      by (auto simp: n prune_def timed_out_def Let_def)
    then show ?thesis using f(2) by (simp add: as_secs_def BLOCK_REQUEST_TIMEOUT_def from_secs_def)
  qed
  then have "heal mo n = ?n" by (fastforce simp: heal_def Let_def split: option.splits)
  with n show ?thesis by simp
qed

lemma heal_ok: "net_ok n \<Longrightarrow> net_ok (heal mo n)"
  by (simp add: net_ok_def heal_eq within_limit_prune within_limit_recalculate sm_download_dl)

lemma clear_old_blacklist_ok: "net_ok (snd st) \<Longrightarrow> net_ok (snd (clear_old_blacklist b st))"
  by (simp add: net_ok_def clear_old_blacklist_def clear_blacklist_def sm_download_dl case_prod_unfold Let_def)

lemma break_stall_ok: "net_ok (snd st) \<Longrightarrow> net_ok (snd (break_stall wall h b st))"
  by (simp add: net_ok_def break_stall_def clear_blacklist_def clear_in_flight_def within_limit_empty case_prod_unfold
      Let_def)

lemma coordinate_downloads_ok: "net_ok (snd st) \<Longrightarrow> net_ok (snd (coordinate_downloads V mo st))"
  unfolding coordinate_downloads_def
  by (auto simp: Let_def case_prod_unfold heal_ok intro!: download_round_ok break_stall_ok clear_old_blacklist_ok)

subsection \<open>Every step keeps it\<close>

lemma request_headers_dl [simp]: "dl (request_headers V mo addr tip height n) = dl n"
  by (simp add: request_headers_def Let_def case_prod_unfold sm_download_dl node_send_def)

lemma on_headers_dl [simp]: "dl (on_headers V H mo addr hs n) = dl n"
  by (simp add: on_headers_def Let_def case_prod_unfold sm_download_dl split: sum.splits)

lemma on_block_ok: "net_ok n \<Longrightarrow> net_ok (on_block V H mo addr b n)"
  by (simp add: net_ok_def on_block_def Let_def case_prod_unfold mark_block_received_def on_sync_def
      within_limit_received dl_def [symmetric] split: sum.splits)

lemma on_not_found_ok: "net_ok n \<Longrightarrow> net_ok (on_not_found addr items n)"
  unfolding on_not_found_def
  by (induction items arbitrary: n)
    (simp_all add: net_ok_def mark_block_received_def within_limit_received sm_download_dl)

lemma process_message_ok: "net_ok n \<Longrightarrow> net_ok (process_message V H mo addr msg n)"
proof (cases msg)
  case (Headers_msg hs)
  then show "net_ok n \<Longrightarrow> net_ok (process_message V H mo addr msg n)" by (simp add: net_ok_def)
next
  case (Ping_msg k)
  then show "net_ok n \<Longrightarrow> net_ok (process_message V H mo addr msg n)" by (simp add: net_ok_def on_ping_def)
qed (simp_all add: on_block_ok on_not_found_ok)

lemma coordinate_headers_ok: "net_ok n \<Longrightarrow> net_ok (coordinate_headers V mo n)"
  by (simp add: net_ok_def coordinate_headers_def Let_def case_prod_unfold sync_download_filter sm_download_dl
      node_send_def drop_peer_def within_limit_release split: option.splits)

text \<open>
  The tasks of the network: messages of connected peers, connections that open and close, the two halves
  of the downloader, and the activation task that follows the chain's tip.
\<close>

inductive net_step :: "('c, 'e) chain_interface \<Rightarrow> digests \<Rightarrow> block_downloader \<times> 'c net \<Rightarrow> block_downloader \<times> 'c net \<Rightarrow> bool"
  for V :: "('c, 'e) chain_interface" and H :: digests where
  message: "net_step V H (bd, n) (bd, process_message V H mo addr msg n)"
| opened: "net_step V H (bd, n)
    (bd, initialize_node (nh_addr h) height (nh_conn_type h) (n\<lparr>nt_table := add_peer (nt_table n) h\<rparr>))"
| start_sync: "net_step V H (bd, n) (bd, sync_with_peer V mo addr n)"
| peer_height: "net_step V H (bd, n) (bd, on_sync (update_peer_height addr height) n)"
| closed: "net_step V H (bd, n) (bd, finalize_node addr n)"
| headers: "net_step V H (bd, n) (bd, coordinate_headers V mo n)"
| downloads: "net_step V H (bd, n) (coordinate_downloads V mo (bd, n))"
| activated: "net_step V H (bd, n) (bd, on_sync (update_blocks_tip h height) (n\<lparr>nt_chain := c\<rparr>))"

inductive_cases net_stepE: "net_step V H st st'"

lemma net_step_ok:
  assumes "net_step V H st st'" "net_ok (snd st)"
  shows "net_ok (snd st')"
  using assms
proof (cases rule: net_step.cases)
  case (downloads bd n mo)
  with assms show ?thesis by (metis coordinate_downloads_ok)
qed (use assms in \<open>auto simp: net_ok_def sync_with_peer_def finalize_node_def within_limit_release sm_download_dl
      process_message_ok [unfolded net_ok_def] coordinate_headers_ok [unfolded net_ok_def] split: prod.splits\<close>)

lemma net_steps_ok: "(net_step V H)\<^sup>*\<^sup>* st st' \<Longrightarrow> net_ok (snd st) \<Longrightarrow> net_ok (snd st')"
  by (induction rule: rtranclp_induct) (auto intro: net_step_ok)

subsection \<open>A download round makes progress\<close>

lemma mark_requested_failed:
  "failed_block_peers (sm_download (mark_requested now addr b missing hs sm)) = failed_block_peers (sm_download sm)"
  unfolding mark_requested_def
  by (induction hs arbitrary: sm) (simp_all add: mark_block_in_flight_def mark_in_flight_def)

definition in_reach :: "hash \<Rightarrow> socket_addr \<Rightarrow> 'c net \<times> hash list \<Rightarrow> bool" where
  "in_reach h addr st \<longleftrightarrow> net_ok (fst st) \<and>
     (is_block_in_flight (nt_sync (fst st)) h \<or>
      h \<notin> set (snd st) \<and> get_peer_workload (nt_sync (fst st)) addr < MAX_BLOCKS_IN_TRANSIT_PER_PEER \<and>
      can_peer_download_block (nt_sync (fst st)) h addr)"

lemma request_from_progress:
  assumes r: "in_reach h addr st" and "mo_open mo q" and m: "missing = h # hs"
  shows "in_reach h addr (request_from mo b missing q st) \<and>
    (q = addr \<longrightarrow> is_block_in_flight (nt_sync (fst (request_from mo b missing q st))) h)"
proof -
  obtain n assigned where st: "st = (n, assigned)" by fastforce
  let ?sm = "nt_sync n"
  let ?load = "get_peer_workload ?sm q"
  let ?ok = "\<lambda>h. \<not> is_block_in_flight ?sm h \<and> can_peer_download_block ?sm h q"
  obtain ps as where p: "pick_blocks ?ok (MAX_BLOCKS_IN_TRANSIT_PER_PEER - ?load) missing assigned = (ps, as)"
    by fastforce
  note spec = pick_blocks_spec [OF p]
  let ?r = "request_from mo b missing q st"
  have ok: "net_ok n" "net_ok (fst ?r)" using r request_from_ok by (auto simp: in_reach_def st)
  then have d: "download_ok (sm_download ?sm)" by (simp add: net_ok_def within_limit_def dl_def)
  have "\<forall>k \<in> set ps. map_of (in_flight_blocks (sm_download ?sm)) k = None"
    using spec by (auto simp: is_block_in_flight_def)
  note mark = mark_requested_spec [OF d _ this, of "mo_now mo" q b missing]
  have full: "?load \<ge> MAX_BLOCKS_IN_TRANSIT_PER_PEER \<Longrightarrow> ?r = st" by (simp add: request_from_def st)
  have sent: "nt_sync (fst ?r) = mark_requested (mo_now mo) q b missing ps ?sm \<and> snd ?r = as"
    if "?load < MAX_BLOCKS_IN_TRANSIT_PER_PEER"
    using that assms(2) by (auto simp: request_from_def st p node_send_def on_sync_def mark_requested_def Let_def)
  have first: "h \<in> set ps" if "?load < MAX_BLOCKS_IN_TRANSIT_PER_PEER" "?ok h" "h \<notin> set assigned"
    using pick_first [of "MAX_BLOCKS_IN_TRANSIT_PER_PEER - ?load" ?ok h assigned hs] that p by (simp add: m)
  show ?thesis
  proof (cases "?load < MAX_BLOCKS_IN_TRANSIT_PER_PEER")
    case True
    note sent = sent [OF True] and first = first [OF True]
    have f: "is_block_in_flight (nt_sync (fst ?r)) h \<longleftrightarrow> h \<in> set ps \<or> is_block_in_flight ?sm h"
      using mark spec sent by (simp add: is_block_in_flight_def)
    have c: "can_peer_download_block (nt_sync (fst ?r)) h addr = can_peer_download_block ?sm h addr"
      using sent by (simp add: can_peer_download_block_def can_download_def mark_requested_failed)
    have w: "get_peer_workload (nt_sync (fst ?r)) addr = get_peer_workload ?sm addr + (if addr = q then length ps else 0)"
      using mark spec sent by (simp add: get_peer_workload_def)
    have a: "h \<in> set (snd ?r) \<longleftrightarrow> h \<in> set assigned \<or> h \<in> set ps" using sent spec by auto
    show ?thesis
    proof (cases "is_block_in_flight ?sm h \<or> h \<in> set ps")
      case True
      with f ok(2) show ?thesis by (auto simp: in_reach_def)
    next
      case False
      with r have "h \<notin> set assigned" "get_peer_workload ?sm addr < MAX_BLOCKS_IN_TRANSIT_PER_PEER"
        "can_peer_download_block ?sm h addr" by (auto simp: in_reach_def st)
      moreover from this False first have "q \<noteq> addr" by auto
      ultimately show ?thesis using ok(2) False by (simp add: in_reach_def c w a)
    qed
  next
    case False
    then show ?thesis using r full by (auto simp: in_reach_def st)
  qed
qed

lemma round_progress:
  assumes "in_reach h addr st" "\<forall>p \<in> set peers. mo_open mo (nh_addr p)" "missing = h # hs"
    and "is_block_in_flight (nt_sync (fst st)) h \<or> addr \<in> nh_addr ` set peers"
  shows "is_block_in_flight (nt_sync (fst (fold (\<lambda>p. request_from mo b missing (nh_addr p)) peers st))) h"
  using assms
proof (induction peers arbitrary: st)
  case (Cons p ps)
  have "in_reach h addr (request_from mo b missing (nh_addr p) st)"
    "nh_addr p = addr \<Longrightarrow> is_block_in_flight (nt_sync (fst (request_from mo b missing (nh_addr p) st))) h"
    using request_from_progress [OF Cons.prems(1) _ Cons.prems(3)] Cons.prems(2) by auto
  moreover have "is_block_in_flight (nt_sync (fst (request_from mo b missing (nh_addr p) st))) h"
    if "is_block_in_flight (nt_sync (fst st)) h"
  proof -
    have "in_reach h (nh_addr p) st" using that Cons.prems(1) by (simp add: in_reach_def)
    from request_from_progress [OF this _ Cons.prems(3), of mo "nh_addr p" b] Cons.prems(2) show ?thesis by simp
  qed
  ultimately show ?case
    using Cons.prems(2-4) Cons.IH [of "request_from mo b missing (nh_addr p) st"] by auto
qed auto

theorem download_round_progress:
  assumes "net_ok n" "\<forall>p \<in> set peers. mo_open mo (nh_addr p)" "p \<in> set peers"
    and "get_peer_workload (nt_sync n) (nh_addr p) < MAX_BLOCKS_IN_TRANSIT_PER_PEER"
    and "can_peer_download_block (nt_sync n) h (nh_addr p)"
  shows "is_block_in_flight (nt_sync (download_round mo b (h # hs) peers n)) h"
  unfolding download_round_def
  using assms by (intro round_progress [where addr = "nh_addr p"]) (auto simp: in_reach_def)

text \<open>A whole round, from the state the interface shows: the next missing block is in flight afterwards as
  soon as some download peer has room and has not failed on it.\<close>

lemma coordinate_downloads_progress:
  fixes n :: "'c net"
  assumes "net_ok n" "ci_get_blocks_tip V (nt_chain n) = (blocks_tip, b)"
    and "break_stall (mo_wall mo) (sm_headers_height (nt_sync n)) b (clear_old_blacklist b (bd, heal mo n)) = (bd1, n1)"
    and "sm_headers_tip (nt_sync n) \<noteq> blocks_tip" "sm_headers_tip (nt_sync n) \<noteq> hash_ZERO"
    and "ci_get_next_block_hashes V (nt_chain n) b BLOCK_DOWNLOAD_WINDOW = h # hs"
    and "\<forall>p \<in> set (get_peers (nt_table n) (Some 9)). mo_open mo (nh_addr p)"
    and "p \<in> set (get_peers (nt_table n) (Some 9))"
    and "get_peer_workload (nt_sync n1) (nh_addr p) < MAX_BLOCKS_IN_TRANSIT_PER_PEER"
    and "can_peer_download_block (nt_sync n1) h (nh_addr p)"
  shows "is_block_in_flight (nt_sync (snd (coordinate_downloads V mo (bd, n)))) h"
proof -
  have heal: "sm_headers_tip (nt_sync (heal mo n)) = sm_headers_tip (nt_sync n)"
    "sm_headers_height (nt_sync (heal mo n)) = sm_headers_height (nt_sync n)" "nt_chain (heal mo n) = nt_chain n"
    "nt_table (heal mo n) = nt_table n"
    by (simp_all add: heal_eq on_sync_def download_update_def)
  have n1: "nt_chain n1 = nt_chain n \<and> nt_table n1 = nt_table n"
    using assms(3) by (auto simp: break_stall_def clear_old_blacklist_def on_sync_def heal Let_def split: if_splits)
  have ok: "net_ok n1"
    using break_stall_ok [OF clear_old_blacklist_ok [of "(bd, heal mo n)" b]] heal_ok [OF assms(1)] assms(3)
    by (metis snd_conv)
  have "get_peers (nt_table n1) (Some 9) \<noteq> []" using assms(8) n1 by auto
  then have "coordinate_downloads V mo (bd, n) =
      (bd1, download_round mo b (h # hs) (get_peers (nt_table n1) (Some 9)) n1)"
    using assms(2-6) n1
    by (cases "clear_old_blacklist b (bd, heal mo n)")
      (auto simp: coordinate_downloads_def sm_get_headers_tip_def heal Let_def)
  then show ?thesis
    using download_round_progress [OF ok, of "get_peers (nt_table n1) (Some 9)" mo p h b hs] assms n1 by simp
qed

end
