(* ===== verification/ChainProvider.thy ===== *)
theory ChainProvider
  imports PeerManager
begin

text \<open>
  The contract between the network engine and the chain behind it.  The peer manager and the block
  downloader call the functions of \<^verbatim>\<open>ValidationInterface\<close> and \<^verbatim>\<open>SyncProvider\<close>; the locale
  \<open>chain_provider\<close> says what the chain keeps under these calls and under its own activation, and
  which blocks it proposes.
\<close>

subsection \<open>Steps of the whole node\<close>

text \<open>
  A step is a message of a peer that satisfies \<open>fair\<close>, an activation of the chain, or any step of the
  network engine that does not call into the chain's state.
\<close>

inductive node_step ::
  "('c, 'e) chain_interface \<Rightarrow> digests \<Rightarrow> (message \<Rightarrow> bool) \<Rightarrow> ('c \<Rightarrow> 'c \<Rightarrow> bool) \<Rightarrow>
   block_downloader \<times> 'c net \<Rightarrow> block_downloader \<times> 'c net \<Rightarrow> bool"
  for V :: "('c, 'e) chain_interface" and H :: digests and fair :: "message \<Rightarrow> bool" and internal :: "'c \<Rightarrow> 'c \<Rightarrow> bool"
where
  peer_message: "fair msg \<Longrightarrow> node_step V H fair internal (bd, n) (bd, process_message V H mo addr msg n)"
| engine: "net_step V H (bd, n) (bd', n') \<Longrightarrow> nt_chain n' = nt_chain n \<Longrightarrow> node_step V H fair internal (bd, n) (bd', n')"
| activation: "internal (nt_chain n) c \<Longrightarrow>
    node_step V H fair internal (bd, n) (bd, on_sync (update_blocks_tip h height) (n\<lparr>nt_chain := c\<rparr>))"

inductive_cases node_stepE: "node_step V H fair internal st st'"

lemma node_step_net_ok:
  assumes "node_step V H fair internal st st'" "net_ok (snd st)"
  shows "net_ok (snd st')"
  using assms
proof (cases rule: node_step.cases)
  case (peer_message msg bd n mo addr)
  with assms(2) process_message_ok show ?thesis by auto
next
  case (engine bd n bd' n')
  with assms(2) net_step_ok show ?thesis by metis
next
  case (activation n c bd h height)
  with net_step_ok [OF net_step.activated [of V H bd n h height c]] assms(2) show ?thesis by simp
qed

subsection \<open>The contract\<close>

locale chain_provider =
  fixes V :: "('c, 'e) chain_interface"
    and H :: digests
    and sane :: "'c \<Rightarrow> bool"
    and fair :: "message \<Rightarrow> bool"
    and internal :: "'c \<Rightarrow> 'c \<Rightarrow> bool"
    and wanted :: "'c \<Rightarrow> hash \<Rightarrow> bool"
  assumes headers_sane: "sane c \<Longrightarrow> fair (Headers_msg hs) \<Longrightarrow> sane (snd (ci_process_headers V c H hs))"
    and block_sane: "sane c \<Longrightarrow> fair (Block_msg b) \<Longrightarrow> sane (snd (ci_process_block V c H b))"
    and internal_sane: "sane c \<Longrightarrow> internal c c' \<Longrightarrow> sane c'"
    and next_hashes_bounded: "Suc (unat start) + limit < 2 ^ 32 \<Longrightarrow> length (ci_get_next_block_hashes V c start limit) \<le> limit"
    and next_hashes_wanted: "Suc (unat start) + limit < 2 ^ 32 \<Longrightarrow> h \<in> set (ci_get_next_block_hashes V c start limit) \<Longrightarrow> wanted c h"
    and next_hashes_distinct: "Suc (unat start) + limit < 2 ^ 32 \<Longrightarrow> distinct (ci_get_next_block_hashes V c start limit)"
begin

lemma chain_request_headers [simp]: "nt_chain (request_headers V mo addr tip height n) = nt_chain n"
  by (simp add: request_headers_def node_send_def on_sync_def Let_def split: prod.splits)

lemma chain_misbehaving [simp]: "nt_chain (misbehaving mo addr score n) = nt_chain n"
  by (simp add: misbehaving_def Let_def on_sync_def split: option.splits)

lemma on_headers_sane: "sane (nt_chain n) \<Longrightarrow> fair (Headers_msg hs) \<Longrightarrow> sane (nt_chain (on_headers V H mo addr hs n))"
  using headers_sane [of "nt_chain n" hs]
  by (simp add: on_headers_def Let_def on_sync_def case_prod_unfold split: sum.splits)

lemma on_block_sane: "sane (nt_chain n) \<Longrightarrow> fair (Block_msg b) \<Longrightarrow> sane (nt_chain (on_block V H mo addr b n))"
  using block_sane [of "nt_chain n" b]
  by (simp add: on_block_def Let_def on_sync_def case_prod_unfold split: sum.splits)

lemma chain_on_not_found [simp]: "nt_chain (on_not_found addr items n) = nt_chain n"
  unfolding on_not_found_def by (induction items arbitrary: n) (auto simp: on_sync_def)

lemma process_message_sane: "sane (nt_chain n) \<Longrightarrow> fair msg \<Longrightarrow> sane (nt_chain (process_message V H mo addr msg n))"
  by (cases msg) (auto simp: on_headers_sane on_block_sane on_ping_def node_send_def)

lemma node_step_sane:
  assumes "node_step V H fair internal st st'" "sane (nt_chain (snd st))"
  shows "sane (nt_chain (snd st'))"
  using assms by (auto simp: process_message_sane on_sync_def intro: internal_sane elim!: node_stepE)

lemma node_steps_sane:
  "(node_step V H fair internal)\<^sup>*\<^sup>* st st' \<Longrightarrow> sane (nt_chain (snd st)) \<Longrightarrow> net_ok (snd st) \<Longrightarrow>
    sane (nt_chain (snd st')) \<and> net_ok (snd st')"
  by (induction rule: rtranclp_induct) (auto intro: node_step_sane node_step_net_ok)

end

end
