(* ===== verification/NodeSync.thy ===== *)
theory NodeSync
  imports HeaderPath TreeActivation ChainProvider
begin

text \<open>
  The node behind the sync engine: which blocks it asks for, what happens to a block it is given, and
  the orchestrator as the chain interface of the peer manager and the block downloader.
\<close>

subsection \<open>The download window\<close>

text \<open>First occurrences, in order.\<close>

definition first_occurrences :: "'a list \<Rightarrow> 'a list" where
  "first_occurrences xs = rev (remdups (rev xs))"

lemma first_occurrences_simps [simp]:
  "first_occurrences [] = []" "set (first_occurrences xs) = set xs" "distinct (first_occurrences xs)"
  "length (first_occurrences xs) \<le> length xs"
  by (simp_all add: first_occurrences_def, metis length_remdups_leq length_rev)

lemma first_occurrences_snoc:
  "first_occurrences (xs @ [x]) = (if x \<in> set xs then first_occurrences xs else first_occurrences xs @ [x])"
  by (simp add: first_occurrences_def)

abbreviation missing :: "blockchain \<Rightarrow> hash list \<Rightarrow> hash list" where
  "missing bc hs \<equiv> first_occurrences (filter (needs_block_data bc) hs)"

lemma fold_queue_hash:
  "fold (queue_hash bc) hs (set (missing bc xs), missing bc xs) = (set (missing bc (xs @ hs)), missing bc (xs @ hs))"
proof (induction hs arbitrary: xs)
  case (Cons h hs)
  have "queue_hash bc h (set (missing bc xs), missing bc xs) = (set (missing bc (xs @ [h])), missing bc (xs @ [h]))"
    by (auto simp: queue_hash_def first_occurrences_snoc)
  with Cons.IH [of "xs @ [h]"] show ?case by simp
qed simp

text \<open>The hashes the height index gives for a run of heights, up to the first gap.\<close>

fun indexed_run :: "database \<Rightarrow> u32 list \<Rightarrow> hash list" where
  "indexed_run db [] = []"
| "indexed_run db (height # heights) =
     (case get_block_hash_by_header_height db height of Inr (Some h) \<Rightarrow> h # indexed_run db heights | _ \<Rightarrow> [])"

lemma length_indexed_run: "length (indexed_run db heights) \<le> length heights"
  by (induction heights) (auto split: sum.splits option.splits)

lemma queue_from_index_fold: "queue_from_index bc heights st = fold (queue_hash bc) (indexed_run (bc_db bc) heights) st"
  by (induction heights arbitrary: st) (auto split: sum.splits option.splits)

definition cached_window :: "blockchain \<Rightarrow> u32 \<Rightarrow> nat \<Rightarrow> hash list" where
  "cached_window bc start_height limit = take limit (drop (Suc (unat start_height)) (best_header_chain bc))"

lemma window_nth: "take n (drop m xs) = map ((!) xs) [m..<min (m + n) (length xs)]"
  by (rule nth_equalityI) auto

lemma cached_window_nth:
  "cached_window bc start_height limit =
     map ((!) (best_header_chain bc))
       [Suc (unat start_height)..<min (Suc (unat start_height) + limit) (length (best_header_chain bc))]"
  unfolding cached_window_def by (rule window_nth)

text \<open>The two phases: the cache first, then the height index from where the cache left off.\<close>

lemma next_hashes_missing:
  fixes start_height :: u32 and bc :: blockchain
  assumes "Suc (unat start_height) + limit < 2 ^ 32"
  defines "cached \<equiv> missing bc (cached_window bc start_height limit)"
  defines "heights \<equiv> map word_of_nat [Suc (unat start_height) + length cached..<Suc (unat start_height) + limit] :: u32 list"
  shows "get_next_block_hashes_for_sync bc start_height limit =
    missing bc (cached_window bc start_height limit @ indexed_run (bc_db bc) heights)"
    "length cached \<le> limit" "length heights = limit - length cached"
proof -
  let ?f = "start_height + 1"
  have f: "unat ?f = Suc (unat start_height)" using assms(1) by (intro unat_height_Suc) simp
  show len: "length cached \<le> limit"
  proof -
    have "length cached \<le> length (filter (needs_block_data bc) (cached_window bc start_height limit))"
      unfolding cached_def by simp
    also have "\<dots> \<le> length (cached_window bc start_height limit)" by (rule length_filter_le)
    also have "\<dots> \<le> limit" by (simp add: cached_window_def)
    finally show ?thesis .
  qed
  show "length heights = limit - length cached" by (simp add: heights_def del: upt_Suc)
  have add: "unat (?f + word_of_nat n) = Suc (unat start_height) + n" if "n \<le> limit" for n
  proof -
    have "unat (?f + word_of_nat n) = (unat ?f + unat (word_of_nat n :: u32)) mod 2 ^ 32"
      by (simp add: unat_word_ariths)
    then show ?thesis using that assms(1) f by (simp add: unat_word_of_nat_u32)
  qed
  have phase1: "(if unat ?f < length (best_header_chain bc)
      then fold (\<lambda>height. queue_hash bc (best_header_chain bc ! height))
             [unat ?f..<min (unat ?f + limit) (length (best_header_chain bc))] ({}, [])
      else ({}, [])) = (set cached, cached)"
    using fold_queue_hash [of bc "cached_window bc start_height limit" "[]"]
    by (auto simp: cached_def f cached_window_nth fold_map comp_def)
  have "indexed_run (bc_db bc) heights = []" if "\<not> length cached < limit"
    using that len by (simp add: heights_def)
  then show "get_next_block_hashes_for_sync bc start_height limit =
      missing bc (cached_window bc start_height limit @ indexed_run (bc_db bc) heights)"
    unfolding get_next_block_hashes_for_sync_def Let_def phase1 snd_conv
    using fold_queue_hash [of bc "indexed_run (bc_db bc) heights" "cached_window bc start_height limit"] len
    by (auto simp: queue_from_index_fold heights_def add cached_def)
qed

lemma first_occurrences_append:
  "\<exists>ys. first_occurrences (xs @ zs) = first_occurrences xs @ ys \<and> length ys \<le> length zs"
proof (induction zs rule: rev_induct)
  case (snoc z zs)
  then obtain ys where ys: "first_occurrences (xs @ zs) = first_occurrences xs @ ys" "length ys \<le> length zs" by blast
  have "first_occurrences (xs @ zs @ [z]) = first_occurrences xs @ (if z \<in> set (xs @ zs) then ys else ys @ [z])"
    using first_occurrences_snoc [of "xs @ zs" z] ys(1) by simp
  moreover have "length (if z \<in> set (xs @ zs) then ys else ys @ [z]) \<le> length (zs @ [z])" using ys(2) by simp
  ultimately show ?case by blast
qed simp

lemma hd_first_occurrences: "xs \<noteq> [] \<Longrightarrow> first_occurrences xs \<noteq> [] \<and> hd (first_occurrences xs) = hd xs"
proof (induction xs rule: rev_induct)
  case (snoc x xs)
  then show ?case by (cases "xs = []") (auto simp: first_occurrences_snoc first_occurrences_def)
qed simp

lemma filter_hd:
  assumes "k < length xs" "P (xs ! k)" "\<And>j. j < k \<Longrightarrow> \<not> P (xs ! j)"
  shows "filter P xs \<noteq> [] \<and> hd (filter P xs) = xs ! k"
  using assms
proof (induction xs arbitrary: k)
  case (Cons x xs)
  show ?case
  proof (cases k)
    case 0
    with Cons.prems show ?thesis by simp
  next
    case (Suc m)
    with Cons.prems(3) [of 0] Cons.prems(3) [of "Suc j" for j] Cons.prems Cons.IH [of m] show ?thesis by fastforce
  qed
qed simp

lemma next_hashes_window:
  fixes start_height :: u32 and bc :: blockchain
  assumes "Suc (unat start_height) + limit < 2 ^ 32"
  defines "hs \<equiv> get_next_block_hashes_for_sync bc start_height limit"
  shows "distinct hs" "length hs \<le> limit" "\<And>h. h \<in> set hs \<Longrightarrow> needs_block_data bc h"
    "\<And>h. h \<in> set (cached_window bc start_height limit) \<Longrightarrow> needs_block_data bc h \<Longrightarrow> h \<in> set hs"
    "\<And>k. k < length (cached_window bc start_height limit) \<Longrightarrow> needs_block_data bc (cached_window bc start_height limit ! k) \<Longrightarrow>
      (\<And>j. j < k \<Longrightarrow> \<not> needs_block_data bc (cached_window bc start_height limit ! j)) \<Longrightarrow>
      hs \<noteq> [] \<and> hd hs = cached_window bc start_height limit ! k"
proof -
  let ?w = "cached_window bc start_height limit"
  let ?hts = "map word_of_nat [Suc (unat start_height) + length (missing bc ?w)..<Suc (unat start_height) + limit] :: u32 list"
  note nh = next_hashes_missing [OF assms(1), of bc]
  have hs: "hs = missing bc (?w @ indexed_run (bc_db bc) ?hts)" unfolding hs_def by (rule nh(1))
  then show "distinct hs" "\<And>h. h \<in> set hs \<Longrightarrow> needs_block_data bc h"
    "\<And>h. h \<in> set ?w \<Longrightarrow> needs_block_data bc h \<Longrightarrow> h \<in> set hs"
    by auto
  obtain ys where ys: "hs = missing bc ?w @ ys"
    "length ys \<le> length (filter (needs_block_data bc) (indexed_run (bc_db bc) ?hts))"
    using first_occurrences_append hs by (metis filter_append)
  have "length hs \<le> length (missing bc ?w) + length (indexed_run (bc_db bc) ?hts)"
    using order_trans [OF ys(2) length_filter_le] ys(1) by (simp del: upt_Suc)
  then show "length hs \<le> limit" using nh(2,3) length_indexed_run [of "bc_db bc" ?hts] by linarith
  fix k
  assume "k < length ?w" "needs_block_data bc (?w ! k)" "\<And>j. j < k \<Longrightarrow> \<not> needs_block_data bc (?w ! j)"
  then show "hs \<noteq> [] \<and> hd hs = ?w ! k"
    using filter_hd [of k ?w "needs_block_data bc"] hd_first_occurrences [of "filter (needs_block_data bc) ?w"]
    by (simp add: ys hd_append)
qed

subsection \<open>The locator\<close>

lemma locator_loop_cong:
  "(\<And>k. k \<le> height \<Longrightarrow> f k = g k) \<Longrightarrow> locator_loop f found step height = locator_loop g found step height"
proof (induction height arbitrary: found step rule: less_induct)
  case (less height)
  show ?case
  proof (cases "height = 0 \<or> step = 0")
    case True
    then show ?thesis using less.prems [of height] by (subst (1 2) locator_loop_unfold) (simp add: Let_def)
  next
    case False
    then have "height - step < height" by simp
    from less.IH [OF this] less.prems show ?thesis by (subst (1 2) locator_loop_unfold) (simp add: Let_def)
  qed
qed

lemma node_locator:
  assumes "path_ok H (bc_params bc) (tree_of (bc_db bc)) (best_header_chain bc)" "n < length (best_header_chain bc)"
    and "\<forall>h \<in> set (best_header_chain bc). \<not> is_zero h" "length (best_header_chain bc) \<le> 2 ^ 32"
  shows "\<exists>heights. block_locator H bc (best_header_chain bc ! n) = map ((!) (best_header_chain bc)) heights \<and>
    sorted_wrt (>) heights \<and> heights \<noteq> [] \<and> hd heights = n \<and> last heights = 0 \<and> length heights \<le> 44"
proof -
  let ?path = "best_header_chain bc"
  obtain i where i: "tree_of (bc_db bc) (?path ! n) = Some i" "unat (bi_height i) = n"
    using assms(1,2) by (auto simp: path_ok_def on_path_def)
  let ?f = "\<lambda>height. if height = unat (bi_height i) then Some (?path ! n) else header_hash_at_height H bc (word_of_nat height)"
  have "?f k = Some (?path ! k)" if "k \<le> n" for k
    using that assms(2-4) i(2) by (simp add: header_hash_at_height_def unat_word_of_nat_u32)
  then have "build_block_locator (bi_height i) ?f = locator_loop (\<lambda>k. Some (?path ! k)) [] 1 n"
    unfolding build_block_locator_def i(2) [symmetric] by (intro locator_loop_cong) (simp add: i(2))
  moreover obtain heights where hs: "locator_loop (\<lambda>k. Some (?path ! k)) [] 1 n = map ((!) ?path) heights"
    "sorted_wrt (>) heights" "heights \<noteq> []" "hd heights = n" "last heights = 0"
    using locator_loop_heights [of 1 "(!) ?path" "[]" n] by auto
  moreover have "length (locator_loop (\<lambda>k. Some (?path ! k)) [] 1 n) \<le> 44"
    using assms(2,4) by (intro locator_loop_dense_bound) (simp_all add: U32_MAX_def)
  moreover have "last (map ((!) ?path) heights) = genesis_hash H (bc_params bc)"
    using hs(3,5) assms(1) by (simp add: last_map path_ok_def)
  ultimately have "block_locator H bc (?path ! n) = map ((!) ?path) heights" "length heights \<le> 44"
    using i(1) by (simp_all add: block_locator_def Let_def ok_flatten_def)
  with hs show ?thesis by blast
qed

subsection \<open>Accepting a block\<close>

lemma check_block_weight: "check_block H ec b params = Inr () \<Longrightarrow> block_weight b \<le> MAX_BLOCK_WEIGHT"
  by (auto simp: check_block_def Let_def elim!: and_then_InrE split: if_splits)

text \<open>A block within the weight limit fits a block file.\<close>

lemma checked_block_fits:
  assumes "check_block H ec b params = Inr ()"
  shows "8 + length (serialize encode_block b) \<le> MAX_BLOCK_FILE_SIZE"
proof -
  have "length (serialize encode_block b) \<le> block_weight b"
    using block_weight_eq [of b] encode_block_length [of b] unfolding serialize_def by linarith
  also have "\<dots> \<le> 4000000" using check_block_weight [OF assms] by (simp add: MAX_BLOCK_WEIGHT_def)
  finally show ?thesis by (simp add: MAX_BLOCK_FILE_SIZE_def)
qed

lemma store_block_index:
  assumes "handle_store_blocks H m [(hdr, height, work, raw)] = Inr (positions, m')" "wf_header hdr" "wf_hash work"
  shows "tree_of (bm_backend m') = (tree_of (bm_backend m))(block_hash H hdr \<mapsto>
      \<lparr>bi_header = hdr, bi_height = height, chain_work = work, file_pos = Some (hd positions), undo_pos = None\<rparr>)"
    "get_headers_tip (bm_backend m') = get_headers_tip (bm_backend m)"
    "bm_pending_undo_indexes m' = bm_pending_undo_indexes m"
proof -
  let ?i = "\<lparr>bi_header = hdr, bi_height = height, chain_work = work, file_pos = Some (hd positions), undo_pos = None\<rparr>"
  have wi: "wf_block_index ?i" using assms(2,3) by (simp add: wf_block_index_def)
  obtain files where files: "write_all (bm_files m) [raw] = Inr (positions, files)"
    using assms(1) by (auto simp: handle_store_blocks_def Let_def elim!: and_then_InrE split: option.splits)
  then have "positions \<noteq> []" by (auto elim!: and_then_InrE)
  then have e: "block_entries H [(hdr, height, work, raw)] positions = [(block_hash H hdr, ?i)]"
    by (cases positions) (simp_all add: block_entries_def)
  have "tree_of (bm_backend m') = tree_of (put_block_index (block_hash H hdr) ?i (bm_backend m))"
    "get_headers_tip (bm_backend m') = get_headers_tip (put_block_index (block_hash H hdr) ?i (bm_backend m))"
    using assms(1) files e
    by (auto simp: handle_store_blocks_def Let_def fun_eq_iff tree_of_def get_block_index_def get_headers_tip_def get_hash_def
        split: option.splits)
  then show "tree_of (bm_backend m') = (tree_of (bm_backend m))(block_hash H hdr \<mapsto> ?i)"
    "get_headers_tip (bm_backend m') = get_headers_tip (bm_backend m)"
    by (simp_all add: tree_of_put [OF wi] put_headers_tip [OF wi])
  show "bm_pending_undo_indexes m' = bm_pending_undo_indexes m"
    using assms(1) by (auto simp: handle_store_blocks_def Let_def elim!: and_then_InrE split: option.splits)
qed

lemma process_block_refused: "node_process_block ec H bc b = (Inl e, bc') \<Longrightarrow> bc' = bc"
  by (auto simp: node_process_block_def on_chainstate_def process_block_downloaded_def Let_def split: sum.splits option.splits)

lemma process_block_InrE:
  assumes "node_process_block ec H bc b = (Inr height, bc')"
  obtains i m where "check_block H ec b (bc_params bc) = Inr ()"
    "get_block_index (bc_db bc) (block_hash H (header b)) = Inr (Some i)" "height = bi_height i"
    "bc' = bc\<lparr>bc_chainstate := (with_store m (bc_chainstate bc))\<lparr>waiting_blocks :=
       (waiting_blocks (bc_chainstate bc))(bi_height i \<mapsto> block_hash H (header b))\<rparr>\<rparr>"
    "file_pos i \<noteq> None \<and> m = bc_store bc \<or> (\<exists>positions. handle_store_blocks H (bc_store bc)
       [(header b, bi_height i, chain_work i, serialize encode_block b)] = Inr (positions, m))"
proof -
  let ?h = "block_hash H (header b)"
  obtain u where c: "check_block H ec b (bc_params bc) = Inr u"
    using assms by (cases "check_block H ec b (bc_params bc)") (simp_all add: node_process_block_def)
  obtain i where i: "get_block_index (bc_db bc) ?h = Inr (Some i)"
    using assms c by (cases "get_block_index (bc_db bc) ?h"; cases "projr (get_block_index (bc_db bc) ?h)")
      (simp_all add: node_process_block_def Let_def)
  let ?bc = "\<lambda>m. bc\<lparr>bc_chainstate := (with_store m (bc_chainstate bc))\<lparr>waiting_blocks :=
       (waiting_blocks (bc_chainstate bc))(bi_height i \<mapsto> ?h)\<rparr>\<rparr>"
  have fin: "height = bi_height i \<and> bc' = ?bc m"
    if "(if file_pos i \<noteq> None then Inr (bc_store bc) else map_sum StoreBlockFailed snd (handle_store_blocks H (bc_store bc)
        [(header b, bi_height i, chain_work i, serialize encode_block b)])) = Inr m" for m
    using assms c i that
    by (auto simp: node_process_block_def Let_def on_chainstate_def process_block_downloaded_def with_store_def)
  show thesis
  proof (cases "file_pos i")
    case (Some pos)
    with fin [of "bc_store bc"] c i show thesis by (intro that [of i "bc_store bc"]) simp_all
  next
    case None
    show thesis
    proof (cases "handle_store_blocks H (bc_store bc) [(header b, bi_height i, chain_work i, serialize encode_block b)]")
      case (Inl e)
      with assms c i None show thesis by (simp add: node_process_block_def Let_def)
    next
      case (Inr pm)
      with fin [of "snd pm"] c i None show thesis by (intro that [of i "snd pm"]) (auto intro: exI [of _ "fst pm"])
    qed
  qed
qed

lemma process_block_new:
  assumes "check_block H ec b (bc_params bc) = Inr ()"
    and "get_block_index (bc_db bc) (block_hash H (header b)) = Inr (Some i)" "file_pos i = None" "bi_header i = header b"
    and "wf_block_index i" "bfm_ok (bm_files (bc_store bc))" "unat (bfm_current_file (bm_files (bc_store bc))) + 1 < 2 ^ 32"
  obtains bc' pos where "node_process_block ec H bc b = (Inr (bi_height i), bc')"
    "bc_get_block bc' (block_hash H (header b)) = Inr (Some (serialize encode_block b))"
    "tree_of (bc_db bc') = (tree_of (bc_db bc))(block_hash H (header b) \<mapsto> i\<lparr>file_pos := Some pos, undo_pos := None\<rparr>)"
    "get_headers_tip (bc_db bc') = get_headers_tip (bc_db bc)" "bc_params bc' = bc_params bc"
    "best_header_chain bc' = best_header_chain bc"
    "waiting_blocks (bc_chainstate bc') = (waiting_blocks (bc_chainstate bc))(bi_height i \<mapsto> block_hash H (header b))"
proof -
  let ?h = "block_hash H (header b)" and ?raw = "serialize encode_block b"
  let ?blocks = "[(header b, bi_height i, chain_work i, ?raw)]"
  have wf: "wf_header (header b)" "wf_hash (chain_work i)" using assms(4,5) by (auto simp: wf_block_index_def)
  have "\<forall>(hdr, height, work, raw) \<in> set ?blocks. wf_header hdr \<and> wf_hash work \<and> 8 + length raw \<le> MAX_BLOCK_FILE_SIZE"
    using wf checked_block_fits [OF assms(1)] by simp
  from store_blocks_readable [OF assms(6) _ this, of H] assms(7) obtain positions m where
    m: "handle_store_blocks H (bc_store bc) ?blocks = Inr (positions, m)"
      "get_block (bm_backend m) (bm_files m) ?h = Inr (Some ?raw)"
    by auto
  note st = store_block_index [OF m(1) wf]
  let ?bc = "bc\<lparr>bc_chainstate := (with_store m (bc_chainstate bc))\<lparr>waiting_blocks :=
      (waiting_blocks (bc_chainstate bc))(bi_height i \<mapsto> ?h)\<rparr>\<rparr>"
  show thesis
  proof (rule that [of ?bc "hd positions"])
    show "node_process_block ec H bc b = (Inr (bi_height i), ?bc)"
      using assms(1-3) m(1)
      by (simp add: node_process_block_def Let_def on_chainstate_def process_block_downloaded_def with_store_def)
    show "bc_get_block ?bc ?h = Inr (Some ?raw)" using m(2) by (simp add: bc_get_block_def with_store_def)
    have "i\<lparr>file_pos := Some (hd positions), undo_pos := None\<rparr> = \<lparr>bi_header = header b, bi_height = bi_height i,
        chain_work = chain_work i, file_pos = Some (hd positions), undo_pos = None\<rparr>"
      using assms(4) by (cases i) simp
    then show "tree_of (bc_db ?bc) = (tree_of (bc_db bc))(?h \<mapsto> i\<lparr>file_pos := Some (hd positions), undo_pos := None\<rparr>)"
      using st(1) by (simp add: with_store_def)
  qed (use st(2) in \<open>simp_all add: with_store_def\<close>)
qed

subsection \<open>The orchestrator as the chain of the network engine\<close>

definition blockchain_interface :: "secp \<Rightarrow> digests \<Rightarrow> (blockchain, node_error) chain_interface" where
  "blockchain_interface ec H =
     \<lparr>ci_process_headers = (\<lambda>bc H hs. node_process_headers H bc hs), ci_process_block = (\<lambda>bc H b. node_process_block ec H bc b),
      ci_get_block_locator = block_locator H, ci_get_next_block_hashes = get_next_block_hashes_for_sync,
      ci_get_blocks_tip = get_blocks_tip H\<rparr>"

text \<open>
  The index is sane for a set of headers in which no two have the same hash: it is a tree of headers of
  the set, its tip is heaviest, and pending undo records are nodes of it.
\<close>

definition headers_known :: "digests \<Rightarrow> block_header set \<Rightarrow> bool" where
  "headers_known H U \<longleftrightarrow> digest_sizes H \<and> inj_on (block_hash H) U \<and> (\<forall>hdr \<in> U. wf_header hdr)"

definition index_sane :: "digests \<Rightarrow> chain_params \<Rightarrow> block_header set \<Rightarrow> blockchain \<Rightarrow> bool" where
  "index_sane H params U bc \<longleftrightarrow>
     headers_known H U \<and> bc_params bc = params \<and> tree_ok H params (tree_of (bc_db bc)) \<and> most_work (bc_db bc) \<and>
     pending_ok (bc_store bc) \<and> bi_header ` ran (tree_of (bc_db bc)) \<subseteq> U"

definition fair_msg :: "block_header set \<Rightarrow> message \<Rightarrow> bool" where
  "fair_msg U msg \<longleftrightarrow> (case msg of Headers_msg hs \<Rightarrow> set hs \<subseteq> U | Block_msg b \<Rightarrow> header b \<in> U | _ \<Rightarrow> True)"

definition activates :: "digests \<Rightarrow> secp \<Rightarrow> blockchain \<Rightarrow> blockchain \<Rightarrow> bool" where
  "activates H ec bc bc' \<longleftrightarrow> (\<exists>now. bc' = snd (node_activate_best_chain H ec now bc))"

lemma headers_keep_sane:
  assumes "index_sane H params U bc" "set hs \<subseteq> U"
  shows "index_sane H params U (snd (node_process_headers H bc hs))"
proof -
  obtain r bc' where r: "node_process_headers H bc hs = (r, bc')" by fastforce
  note S = assms(1) [unfolded index_sane_def headers_known_def]
  have inj: "inj_on (block_hash H) (set hs)" using S assms(2) inj_on_subset by blast
  have "tree_ok H (bc_params bc) (tree_of (bc_db bc))" "most_work (bc_db bc)" "\<forall>hdr \<in> set hs. wf_header hdr" "digest_sizes H"
    using S assms(2) by auto
  note p = process_headers_tree [OF r this(1,2) inj this(3,4)]
  have params: "bc_params bc' = bc_params bc"
    "bm_pending_undo_indexes (bc_store bc') = bm_pending_undo_indexes (bc_store bc)"
    using r by (auto simp: node_process_headers_def on_chainstate_def process_headers_def handle_store_block_indexes_def
        with_store_def Let_def split: sum.splits if_splits)
  have "pending_ok (bc_store bc')"
    using S p map_le_Some [of "tree_of (bc_db bc)" "tree_of (bc_db bc')"]
    unfolding pending_ok_def params by (fastforce simp del: tree_of_Some)
  moreover have "bi_header ` ran (tree_of (bc_db bc')) \<subseteq> U" using S p assms(2) by blast
  ultimately show ?thesis using S p by (simp add: index_sane_def headers_known_def r params)
qed

lemma sane_kept:
  assumes "index_sane H params U bc" "index_kept (bc_store bc) (bc_store bc')" "bc_params bc' = bc_params bc"
  shows "index_sane H params U bc'"
proof -
  note S = assms(1) [unfolded index_sane_def]
  have same: "same_tree (tree_of (bc_db bc)) (tree_of (bc_db bc'))" using assms(2) by (simp add: index_kept_def)
  have "bi_header j \<in> U" if "j \<in> ran (tree_of (bc_db bc'))" for j
  proof -
    obtain h where "tree_of (bc_db bc') h = Some j" using \<open>j \<in> ran _\<close> by (auto simp: ran_def)
    then obtain i where "tree_of (bc_db bc) h = Some i" "same_node i j" using same_tree_Some' [OF same] by blast
    then have "i \<in> ran (tree_of (bc_db bc))" "bi_header j = bi_header i" by (auto simp: ran_def same_node_def)
    then show ?thesis using S by force
  qed
  with S assms(2,3) same_tree_ok [OF _ same] same_tree_most_work [OF _ same] show ?thesis
    by (auto simp: index_sane_def index_kept_def)
qed

lemma activation_keeps_sane:
  assumes "index_sane H params U bc" "activates H ec bc bc'"
  shows "index_sane H params U bc'"
proof -
  note S = assms(1) [unfolded index_sane_def]
  have "\<forall>h i. tree_of (bc_db bc) h = Some i \<longrightarrow> wf_block_index i" using S tree_ok_entry(2) by blast
  then have "cs_kept (bc_chainstate bc) (snd (activate_best_chain H ec now (bc_chainstate bc)))" for now
    using activate_best_chain_kept S by blast
  with assms show ?thesis
    by (intro sane_kept [OF assms(1)]) (auto simp: activates_def node_activate_best_chain_def on_chainstate_def case_prod_unfold)
qed

lemma block_keeps_sane:
  assumes "index_sane H params U bc" "header b \<in> U"
  shows "index_sane H params U (snd (node_process_block ec H bc b))"
proof -
  obtain r bc' where r: "node_process_block ec H bc b = (r, bc')" by fastforce
  note S = assms(1) [unfolded index_sane_def headers_known_def]
  show ?thesis
  proof (cases r)
    case (Inl e)
    with r process_block_refused have "bc' = bc" by blast
    with assms(1) r show ?thesis by simp
  next
    case (Inr height)
    let ?h = "block_hash H (header b)"
    from r Inr have "node_process_block ec H bc b = (Inr height, bc')" by simp
    then obtain i m where i: "get_block_index (bc_db bc) ?h = Inr (Some i)"
      and eq: "bc' = bc\<lparr>bc_chainstate := (with_store m (bc_chainstate bc))\<lparr>waiting_blocks :=
       (waiting_blocks (bc_chainstate bc))(bi_height i \<mapsto> ?h)\<rparr>\<rparr>"
      and m: "file_pos i \<noteq> None \<and> m = bc_store bc \<or> (\<exists>positions. handle_store_blocks H (bc_store bc)
        [(header b, bi_height i, chain_work i, serialize encode_block b)] = Inr (positions, m))"
      by (rule process_block_InrE)
    from eq have bc': "bc_store bc' = m" "bc_params bc' = bc_params bc" by (simp_all add: with_store_def)
    have t: "tree_of (bc_db bc) ?h = Some i" using i by simp
    have wi: "wf_block_index i" "block_hash H (bi_header i) = ?h" using tree_ok_entry(1,2) [of H params "tree_of (bc_db bc)" ?h i] t S by simp_all
    have "i \<in> ran (tree_of (bc_db bc))" using ranI [of "tree_of (bc_db bc)" ?h i] t by blast
    then have "bi_header i \<in> U" using S by blast
    then have hdr: "bi_header i = header b" using S assms(2) wi(2) by (simp add: inj_on_def)
    have kept: "index_kept (bc_store bc) (bc_store bc')"
      using m
    proof
      assume "file_pos i \<noteq> None \<and> m = bc_store bc"
      with S index_kept_refl bc'(1) show ?thesis by simp
    next
      assume "\<exists>positions. handle_store_blocks H (bc_store bc)
          [(header b, bi_height i, chain_work i, serialize encode_block b)] = Inr (positions, m)"
      then obtain positions where m: "handle_store_blocks H (bc_store bc)
          [(header b, bi_height i, chain_work i, serialize encode_block b)] = Inr (positions, bc_store bc')"
        using bc'(1) by blast
      have "wf_header (header b)" "wf_hash (chain_work i)" using wi(1) hdr by (auto simp: wf_block_index_def)
      note st = store_block_index [OF m this]
      have "same_tree (tree_of (bc_db bc)) (tree_of (bc_db bc'))"
        unfolding st(1) using t same_tree_update [of "tree_of (bc_db bc)" ?h i] by (simp add: same_node_def hdr)
      moreover from this have "pending_ok (bc_store bc')"
        unfolding pending_ok_def st(3)
      proof clarify
        fix h j
        assume same: "same_tree (tree_of (bc_db bc)) (tree_of (bc_db bc'))" and "(h, j) \<in> set (bm_pending_undo_indexes (bc_store bc))"
        then obtain k where k: "wf_block_index j" "tree_of (bc_db bc) h = Some k" "same_node k j"
          using S by (auto simp: pending_ok_def)
        with same_tree_Some [OF same k(2)] show "wf_block_index j \<and> (\<exists>i. tree_of (bc_db bc') h = Some i \<and> same_node i j)"
          by (auto simp: same_node_def)
      qed
      ultimately show ?thesis using st(2) by (simp add: index_kept_def)
    qed
    from sane_kept [OF assms(1) kept bc'(2)] r show ?thesis by simp
  qed
qed

interpretation node: chain_provider "blockchain_interface ec H" H "index_sane H params U" "fair_msg U" "activates H ec" needs_block_data
  for ec H params U
  by unfold_locales
    (auto simp: blockchain_interface_def fair_msg_def headers_keep_sane block_keeps_sane activation_keeps_sane next_hashes_window)

end
