(* ===== verification/Framing.thy ===== *)
theory Framing
  imports Messages
begin

text \<open>
  Message frames on a connection: the command and header round trips of \<^verbatim>\<open>net/p2p/codec.rs\<close> and
  \<^verbatim>\<open>message.rs\<close>, the write loop and the read loop of \<^verbatim>\<open>node.rs\<close>.  The frame parser gives the same
  messages however the network cuts the stream into reads; a stream of frames gives back the messages
  written; a header that is neither foreign nor acceptable stops the connection for good.
\<close>

subsection \<open>The two loops of a connection\<close>

text \<open>What the write loop sends for one message.\<close>

definition write_frame :: "digests \<Rightarrow> magic \<Rightarrow> message \<Rightarrow> bytes" where
  "write_frame H magic msg =
     (let payload = message_encode msg in encode_header H magic (message_command msg) payload @ payload)"

fun is_WrongMagic :: "p2p_error \<Rightarrow> bool" where
  "is_WrongMagic (WrongMagic _ _) = True"
| "is_WrongMagic _ = False"

text \<open>
  The frame parser: the messages handed to the peer manager and the bytes left in the buffer; None when
  a decoder panics.
\<close>

function parse_frames :: "digests \<Rightarrow> magic \<Rightarrow> bytes \<Rightarrow> (message list \<times> bytes) option" where
  "parse_frames H magic buf =
     (if length buf < 24 then Some ([], buf)
      else case decode_header (take 24 buf) magic of
        Inl e \<Rightarrow> if is_WrongMagic e then parse_frames H magic (drop 1 buf) else Some ([], buf)
      | Inr hdr \<Rightarrow>
          let total_len = 24 + unat (mh_length hdr)
          in if length buf < total_len then Some ([], buf)
             else
               let payload = take (unat (mh_length hdr)) (drop 24 buf)
               in case verify_checksum H hdr payload of
                    Inl _ \<Rightarrow> parse_frames H magic (drop total_len buf)
                  | Inr _ \<Rightarrow>
                      (case message_decode (mh_command hdr) payload of
                         None \<Rightarrow> None
                       | Some (Inl _) \<Rightarrow> parse_frames H magic (drop total_len buf)
                       | Some (Inr msg) \<Rightarrow>
                           map_option (\<lambda>(msgs, left). (msg # msgs, left))
                             (parse_frames H magic (drop total_len buf))))"
  by pat_completeness auto
termination
  by (relation "measure (\<lambda>(H, magic, buf). length buf)") auto

declare parse_frames.simps [simp del]

datatype read_result = Data bytes | ReadError | TimedOut

text \<open>
  The read loop over the results its reads give, until one of them ends it: an empty read is the end of
  the stream.  With no further result the loop is waiting.
\<close>

fun read_loop :: "digests \<Rightarrow> magic \<Rightarrow> bytes \<Rightarrow> read_result list \<Rightarrow> message list option" where
  "read_loop H magic buf [] = map_option fst (parse_frames H magic buf)"
| "read_loop H magic buf (r # rs) =
     (case parse_frames H magic buf of
        None \<Rightarrow> None
      | Some (msgs, left) \<Rightarrow>
          (case r of
             Data bs \<Rightarrow>
               if bs = [] then Some msgs
               else map_option (\<lambda>more. msgs @ more) (read_loop H magic (left @ bs) rs)
           | _ \<Rightarrow> Some msgs))"


subsection \<open>One step of the parser\<close>

text \<open>What one complete frame hands on: nothing, one message, or a panic.\<close>

definition deliver :: "digests \<Rightarrow> message_header \<Rightarrow> bytes \<Rightarrow> message list option" where
  "deliver H hdr payload =
     (case verify_checksum H hdr payload of
        Inl _ \<Rightarrow> Some []
      | Inr _ \<Rightarrow> (case message_decode (mh_command hdr) payload of
          None \<Rightarrow> None | Some (Inl _) \<Rightarrow> Some [] | Some (Inr msg) \<Rightarrow> Some [msg]))"

definition prepend :: "message list \<Rightarrow> (message list \<times> bytes) option \<Rightarrow> (message list \<times> bytes) option" where
  "prepend msgs r = map_option (\<lambda>(ms, left). (msgs @ ms, left)) r"

lemma prepend_simps [simp]:
  "prepend [] r = r" "prepend ms (prepend ms' r) = prepend (ms @ ms') r" "prepend ms None = None"
  "prepend ms (Some (ms', left)) = Some (ms @ ms', left)"
  by (cases r; auto simp: prepend_def)+

lemma parse_short: "length buf < 24 \<Longrightarrow> parse_frames H magic buf = Some ([], buf)"
  by (subst parse_frames.simps) simp

lemma parse_foreign:
  "24 \<le> length buf \<Longrightarrow> decode_header (take 24 buf) magic = Inl e \<Longrightarrow> is_WrongMagic e \<Longrightarrow>
    parse_frames H magic buf = parse_frames H magic (drop 1 buf)"
  by (subst parse_frames.simps) simp

lemma parse_rejected:
  "24 \<le> length buf \<Longrightarrow> decode_header (take 24 buf) magic = Inl e \<Longrightarrow> \<not> is_WrongMagic e \<Longrightarrow>
    parse_frames H magic buf = Some ([], buf)"
  by (subst parse_frames.simps) simp

lemma parse_partial:
  "24 \<le> length buf \<Longrightarrow> decode_header (take 24 buf) magic = Inr hdr \<Longrightarrow> length buf < 24 + unat (mh_length hdr) \<Longrightarrow>
    parse_frames H magic buf = Some ([], buf)"
  by (subst parse_frames.simps) simp

lemma parse_frame:
  assumes "decode_header (take 24 buf) magic = Inr hdr" "24 + unat (mh_length hdr) \<le> length buf"
  shows "parse_frames H magic buf =
    (case deliver H hdr (take (unat (mh_length hdr)) (drop 24 buf)) of
       None \<Rightarrow> None
     | Some ms \<Rightarrow> prepend ms (parse_frames H magic (drop (24 + unat (mh_length hdr)) buf)))"
  using assms
  by (subst parse_frames.simps)
    (auto simp: deliver_def prepend_def case_prod_unfold Let_def
      option.map_id0 [unfolded id_def] split: sum.splits option.splits)

lemma parse_cases:
  fixes buf :: bytes and magic :: magic
  obtains (short) "length buf < 24"
  | (foreign) e where "24 \<le> length buf" "decode_header (take 24 buf) magic = Inl e" "is_WrongMagic e"
  | (rejected) e where "24 \<le> length buf" "decode_header (take 24 buf) magic = Inl e" "\<not> is_WrongMagic e"
  | (partial) hdr where "24 \<le> length buf" "decode_header (take 24 buf) magic = Inr hdr"
      "length buf < 24 + unat (mh_length hdr)"
  | (frame) hdr where "decode_header (take 24 buf) magic = Inr hdr" "24 + unat (mh_length hdr) \<le> length buf"
  by (cases "decode_header (take 24 buf) magic") (metis leI)+

subsection \<open>How the reads are cut does not matter\<close>

lemma parse_frames_append:
  "parse_frames H magic (buf @ extra) =
     (case parse_frames H magic buf of
        None \<Rightarrow> None | Some (msgs, left) \<Rightarrow> prepend msgs (parse_frames H magic (left @ extra)))"
proof (induction "length buf" arbitrary: buf rule: less_induct)
  case less
  show ?case
  proof (cases rule: parse_cases [where buf = buf and magic = magic])
    case short
    then show ?thesis by (simp add: parse_short)
  next
    case (foreign e)
    then have "buf \<noteq> []" by auto
    then have "length (drop 1 buf) < length buf" by simp
    from less [OF this] foreign show ?thesis
      using parse_foreign [of "buf @ extra" magic e H] parse_foreign [of buf magic e H] by simp
  next
    case (rejected e)
    then show ?thesis by (simp add: parse_rejected)
  next
    case (partial hdr)
    then show ?thesis by (simp add: parse_partial)
  next
    case (frame hdr)
    let ?n = "unat (mh_length hdr)"
    have "length (drop (24 + ?n) buf) < length buf" using frame(2) by simp
    from less [OF this] frame show ?thesis
      using parse_frame [of "buf @ extra" magic hdr H] parse_frame [of buf magic hdr H]
      by (auto split: option.splits)
  qed
qed

lemma read_loop_concat:
  assumes "\<forall>c \<in> set chunks. c \<noteq> []"
  shows "read_loop H magic buf (map Data chunks) = map_option fst (parse_frames H magic (buf @ concat chunks))"
  using assms
proof (induction chunks arbitrary: buf)
  case (Cons c cs)
  then show ?case
    by (auto simp: parse_frames_append [of H magic buf] prepend_def option.map_comp case_prod_unfold comp_def
        split: option.splits intro: option.map_cong)
qed simp

text \<open>A header refused for anything but its magic silences the connection, whatever arrives later.\<close>

lemma rejected_header_stalls:
  assumes "24 \<le> length buf" "decode_header (take 24 buf) magic = Inl e" "\<not> is_WrongMagic e"
    and "\<forall>c \<in> set chunks. c \<noteq> []"
  shows "read_loop H magic buf (map Data chunks) = Some []"
  using assms by (simp add: read_loop_concat parse_rejected)

subsection \<open>Commands on the wire\<close>

definition printable :: "u8 \<Rightarrow> bool" where
  "printable b \<longleftrightarrow> 0x20 \<le> b \<and> b \<le> 0x7e"

definition wire_name :: "bytes \<Rightarrow> bool" where
  "wire_name s \<longleftrightarrow> s \<noteq> [] \<and> length s \<le> 12 \<and> list_all printable s"

fun wf_command :: "command \<Rightarrow> bool" where
  "wf_command (Unknown_cmd s) = (wire_name s \<and> s \<notin> set (map command_name known_commands))"
| "wf_command c = True"

lemma printable_nonzero: "printable b \<Longrightarrow> b \<noteq> 0"
  by (auto simp: printable_def)

lemma printable_utf8: "list_all printable s \<Longrightarrow> valid_utf8 s"
proof (induction s)
  case (Cons b s)
  then have "b \<le> 0x7F" by (auto simp: printable_def word_le_nat_alt)
  with Cons show ?case by simp
qed simp

lemma known_names:
  "list_all (\<lambda>c. wire_name (command_name c) \<and> command_of_name (command_name c) = c) known_commands"
  by code_simp

lemma command_of_name_known: "c \<in> set known_commands \<Longrightarrow> wire_name (command_name c) \<and> command_of_name (command_name c) = c"
  using known_names by (simp add: list_all_iff)

lemma known_or_Unknown: "c \<in> set known_commands \<or> (\<exists>s. c = Unknown_cmd s)"
  by (cases c) (simp_all add: known_commands_def)

lemma wf_command_name:
  assumes "wf_command c"
  shows "wire_name (command_name c) \<and> command_of_name (command_name c) = c"
proof (cases "c \<in> set known_commands")
  case False
  then obtain s where c: "c = Unknown_cmd s" using known_or_Unknown by blast
  then have "List.find (\<lambda>c. command_name c = s) known_commands = None"
    using assms by (auto simp: find_None_iff)
  with c assms show ?thesis by (simp add: command_of_name_def)
qed (rule command_of_name_known)

lemma takeWhile_padded:
  assumes "list_all printable s"
  shows "takeWhile (\<lambda>b. b \<noteq> 0) (s @ replicate n 0) = s"
  using assms by (induction s) (auto simp: printable_nonzero takeWhile_replicate)

lemma length_to_wire [simp]: "length (to_wire c) = 12"
  by (simp add: to_wire_def Let_def)

theorem command_roundtrip:
  assumes "wf_command c"
  shows "from_wire (to_wire c) = Inr c"
proof -
  have n: "wire_name (command_name c)" "command_of_name (command_name c) = c"
    using wf_command_name [OF assms] by auto
  then have w: "to_wire c = command_name c @ replicate (12 - length (command_name c)) 0"
    by (simp add: to_wire_def wire_name_def Let_def)
  show ?thesis
    unfolding from_wire_def w
    using n by (auto simp: Let_def takeWhile_padded wire_name_def printable_utf8 list_ex_iff list_all_iff printable_def)
qed

lemma takeWhile_zeros:
  assumes "\<not> list_ex (\<lambda>b. b \<noteq> 0) (drop (length (takeWhile (\<lambda>b. b \<noteq> 0) bs)) bs)"
  shows "bs = takeWhile (\<lambda>b. b \<noteq> (0 :: u8)) bs @ replicate (length bs - length (takeWhile (\<lambda>b. b \<noteq> 0) bs)) 0"
proof -
  let ?n = "length (takeWhile (\<lambda>b. b \<noteq> 0) bs)"
  have "b = 0" if "b \<in> set (drop ?n bs)" for b
    using assms that unfolding list_ex_iff by blast
  then have "drop ?n bs = replicate (length bs - ?n) 0"
    by (intro replicate_eqI length_drop)
  moreover have "take ?n bs = takeWhile (\<lambda>b. b \<noteq> 0) bs" by (rule takeWhile_eq_take [symmetric])
  ultimately show ?thesis by (metis append_take_drop_id)
qed

lemma command_of_name_inverse: "command_name (command_of_name s) = s"
  by (auto simp: command_of_name_def find_Some_iff split: option.splits)

theorem command_canonical:
  assumes "length bs = 12" "from_wire bs = Inr c"
  shows "to_wire c = bs"
proof -
  let ?n = "takeWhile (\<lambda>b. b \<noteq> 0) bs"
  have t: "take (length ?n) bs = ?n" by (rule takeWhile_eq_take [symmetric])
  from assms(2) have c: "c = command_of_name ?n"
      and z: "\<not> list_ex (\<lambda>b. b \<noteq> 0) (drop (length ?n) bs)"
    by (auto simp: from_wire_def Let_def t split: if_splits)
  have "length ?n \<le> 12" using assms(1) length_takeWhile_le [of "\<lambda>b. b \<noteq> 0" bs] by simp
  then show ?thesis
    using takeWhile_zeros [OF z] assms(1) by (simp add: c to_wire_def command_of_name_inverse Let_def)
qed

subsection \<open>Frames\<close>

lemma length_checksum [simp]: "digest_sizes H \<Longrightarrow> length (checksum H p) = 4"
  by (simp add: checksum_def digest_lengths)

definition frame_header :: "digests \<Rightarrow> magic \<Rightarrow> command \<Rightarrow> bytes \<Rightarrow> message_header" where
  "frame_header H magic cmd payload =
     \<lparr>mh_magic = magic, mh_command = cmd, mh_length = word_of_nat (length payload), mh_checksum = checksum H payload\<rparr>"

theorem header_framing:
  assumes "digest_sizes H" "length magic = 4" "wf_command cmd" "length payload \<le> MAX_MESSAGE_SIZE"
  shows "length (encode_header H magic cmd payload) = 24 \<and>
    decode_header (encode_header H magic cmd payload) magic = Inr (frame_header H magic cmd payload) \<and>
    verify_checksum H (frame_header H magic cmd payload) payload = Inr ()"
proof -
  have "unat (word_of_nat (length payload) :: u32) = length payload"
    using assms(4) by (simp add: unat_word_of_nat_u32 MAX_MESSAGE_SIZE_def)
  then show ?thesis
    using assms command_roundtrip [OF assms(3)]
    by (simp add: encode_header_def decode_header_def frame_header_def verify_checksum_def Let_def)
qed

definition wf_frame :: "message \<Rightarrow> bool" where
  "wf_frame m \<longleftrightarrow> wf_message m \<and> wf_command (message_command m) \<and> length (message_encode m) \<le> MAX_MESSAGE_SIZE"

lemma parse_written:
  assumes "digest_sizes H" "length magic = 4" "wf_frame m"
  shows "parse_frames H magic (write_frame H magic m @ r) = prepend [m] (parse_frames H magic r)"
proof -
  let ?p = "message_encode m" and ?c = "message_command m"
  let ?buf = "write_frame H magic m @ r"
  have w: "wf_message m" "wf_command ?c" "length ?p \<le> MAX_MESSAGE_SIZE" using assms(3) by (auto simp: wf_frame_def)
  note h = header_framing [OF assms(1,2) w(2,3)]
  have u: "unat (mh_length (frame_header H magic ?c ?p)) = length ?p"
    using w(3) by (simp add: frame_header_def unat_word_of_nat_u32 MAX_MESSAGE_SIZE_def)
  have buf: "?buf = encode_header H magic ?c ?p @ ?p @ r" by (simp add: write_frame_def Let_def)
  have d: "deliver H (frame_header H magic ?c ?p) ?p = Some [m]"
    using h message_roundtrip [OF w(1)] by (simp add: deliver_def) (simp add: frame_header_def)
  have "decode_header (take 24 ?buf) magic = Inr (frame_header H magic ?c ?p)"
    using h by (simp add: buf)
  from parse_frame [OF this, of H] h d u show ?thesis by (simp add: buf)
qed

lemma parse_stream:
  assumes "digest_sizes H" "length magic = 4" "list_all wf_frame ms"
  shows "parse_frames H magic (concat (map (write_frame H magic) ms)) = Some (ms, [])"
  using assms(3) by (induction ms) (simp_all add: parse_short parse_written [OF assms(1,2)])

end
