(* ===== verification/Handshake.thy ===== *)
theory Handshake
  imports PeerManager Framing
begin

text \<open>
  Connections, \<^verbatim>\<open>net/p2p/connman.rs\<close>: bans, the version handshake and \<^verbatim>\<open>connect_addr\<close>.  What the peer
  sends until the handshake ends is a byte string; \<open>eos\<close> is the error of a read past its end, a closed
  connection or the 30-second timeout.  \<open>wr\<close> says whether the stream takes writes.  The nonces of other
  handshakes in progress are those of the state when this one starts.  Name resolution and the file
  \<^verbatim>\<open>peers.dat\<close> are outside the model.

  On a stream of frames the handshake completes exactly when one acceptable version message and then a
  verack arrive.
\<close>

subsection \<open>The version handshake\<close>

definition MIN_PEER_PROTO_VERSION :: u32 where
  "MIN_PEER_PROTO_VERSION = 31800"

record handshake_state =
  hs_version :: i32
  hs_agent :: bytes
  hs_height :: i32
  hs_services :: u64
  got_version :: bool
  got_verack :: bool
  hs_written :: "message list"

definition hs_init :: "message list \<Rightarrow> handshake_state" where
  "hs_init written =
     \<lparr>hs_version = 0, hs_agent = [], hs_height = 0, hs_services = 0, got_version = False, got_verack = False,
      hs_written = written\<rparr>"

fun handshake_msg ::
  "u64 list \<Rightarrow> bool \<Rightarrow> bool \<Rightarrow> version_msg \<Rightarrow> message \<Rightarrow> handshake_state \<Rightarrow> handshake_state p2p_result" where
  "handshake_msg our_nonces is_inbound wr ours (Version_msg v) st =
     (if got_version st then Inl (DuplicateHandshakeMessage ''version'')
      else if vm_nonce v \<in> set our_nonces then Inl SelfConnection
      else if sint (vm_version v) < sint MIN_PEER_PROTO_VERSION
        then Inl (PeerVersionTooOld (vm_version v) MIN_PEER_PROTO_VERSION)
      else if \<not> wr then Inl P2pIo
      else Inr (st\<lparr>hs_version := vm_version v, hs_agent := vm_user_agent v, hs_height := vm_start_height v,
             hs_services := vm_services v,
             hs_written := hs_written st @ (if is_inbound then [Version_msg ours] else []) @ [Verack_msg],
             got_version := True\<rparr>))"
| "handshake_msg our_nonces is_inbound wr ours Verack_msg st =
     (if \<not> got_version st then Inl (P2pDecode (Inr ''received verack before version during handshake''))
      else if got_verack st then Inl (DuplicateHandshakeMessage ''verack'')
      else Inr (st\<lparr>got_verack := True\<rparr>))"
| "handshake_msg our_nonces is_inbound wr ours other st = Inr st"

text \<open>The loop: the state it ends with and the bytes left on the stream; None when a decoder panics.\<close>

function handshake_loop ::
  "digests \<Rightarrow> magic \<Rightarrow> (message \<Rightarrow> handshake_state \<Rightarrow> handshake_state p2p_result) \<Rightarrow> p2p_error \<Rightarrow> bytes \<Rightarrow>
    handshake_state \<Rightarrow> (handshake_state \<times> bytes) p2p_result option" where
  "handshake_loop H magic on_msg eos stream st =
     (if length stream < 24 then Some (Inl eos)
      else case decode_header (take 24 stream) magic of
        Inl e \<Rightarrow> Some (Inl e)
      | Inr hdr \<Rightarrow>
          let len = unat (mh_length hdr)
          in if length stream < 24 + len then Some (Inl eos)
             else
               let payload = take len (drop 24 stream)
               in case verify_checksum H hdr payload of
                    Inl e \<Rightarrow> Some (Inl e)
                  | Inr _ \<Rightarrow>
                      (case message_decode (mh_command hdr) payload of
                         None \<Rightarrow> None
                       | Some (Inl e) \<Rightarrow> Some (Inl (P2pDecode (Inl e)))
                       | Some (Inr msg) \<Rightarrow>
                           (case on_msg msg st of
                              Inl e \<Rightarrow> Some (Inl e)
                            | Inr st \<Rightarrow>
                                if got_version st \<and> got_verack st then Some (Inr (st, drop (24 + len) stream))
                                else handshake_loop H magic on_msg eos (drop (24 + len) stream) st)))"
  by pat_completeness auto
termination
  by (relation "measure (\<lambda>(H, magic, on_msg, eos, stream, st). length stream)") auto

declare handshake_loop.simps [simp del]

subsection \<open>The connection manager\<close>

definition CONNECT_TIMEOUT_SECS :: nat where
  "CONNECT_TIMEOUT_SECS = 10"

definition HANDSHAKE_TIMEOUT_SECS :: nat where
  "HANDSHAKE_TIMEOUT_SECS = 30"

record 'c connman =
  cm_net :: "'c net"
  cm_magic :: magic
  cm_addr_man :: addr_man
  cm_our_nonces :: "u64 list"
  cm_ban_list :: "(ip_addr \<times> instant) list"

definition connman_new :: "bytes \<Rightarrow> magic \<Rightarrow> 'c net \<Rightarrow> 'c connman" where
  "connman_new key magic n =
     \<lparr>cm_net = n, cm_magic = magic, cm_addr_man = addr_man_new key, cm_our_nonces = [], cm_ban_list = []\<rparr>"

definition cm_ban :: "instant \<Rightarrow> ip_addr \<Rightarrow> nat \<Rightarrow> 'c connman \<Rightarrow> 'c connman" where
  "cm_ban now ip duration cm = cm\<lparr>cm_ban_list := AList.update ip (now + duration) (cm_ban_list cm)\<rparr>"

definition cm_is_banned :: "instant \<Rightarrow> ip_addr \<Rightarrow> 'c connman \<Rightarrow> bool \<times> 'c connman" where
  "cm_is_banned now ip cm =
     (case map_of (cm_ban_list cm) ip of
        None \<Rightarrow> (False, cm)
      | Some until \<Rightarrow>
          if until > now then (True, cm) else (False, cm\<lparr>cm_ban_list := AList.delete ip (cm_ban_list cm)\<rparr>))"

text \<open>What a handshake is given from outside: clocks, the random nonce, the stream.\<close>

record socket =
  so_secs :: u64
  so_nanos :: u32
  so_nonce :: u64
  so_incoming :: bytes
  so_eos :: p2p_error
  so_writable :: bool

definition complete_handshake ::
  "('c, 'e) chain_interface \<Rightarrow> moment \<Rightarrow> socket_addr \<Rightarrow> bool \<Rightarrow> connection_type \<Rightarrow> handshake_state \<Rightarrow> 'c net \<Rightarrow>
    node_handle \<times> 'c net" where
  "complete_handshake V mo addr is_inbound conn_type st n =
     (let h = \<lparr>nh_addr = addr, nh_services = hs_services st, nh_conn_type = conn_type\<rparr>;
          n = n\<lparr>nt_table := add_peer (nt_table n) h\<rparr>;
          n = initialize_node addr (hs_height st) conn_type n;
          n = (if is_inbound then n else snd (node_send mo addr GetAddr_msg n));
          n = sync_with_peer V mo addr n
      in (h, on_sync (update_peer_height addr (hs_height st)) n))"

definition handshake ::
  "('c, 'e) chain_interface \<Rightarrow> digests \<Rightarrow> moment \<Rightarrow> socket \<Rightarrow> socket_addr \<Rightarrow> bool \<Rightarrow> connection_type \<Rightarrow> 'c connman \<Rightarrow>
    (node_handle p2p_result \<times> 'c connman) option" where
  "handshake V H mo so addr is_inbound conn_type cm =
     (let cm = cm\<lparr>cm_our_nonces := List.insert (so_nonce so) (cm_our_nonces cm)\<rparr>;
          height = snd (sm_get_blocks_tip (nt_sync (cm_net cm)));
          ours = our_version_with_nonce (so_secs so) (so_nanos so) (so_nonce so) height
            (is_tx_relay_connection conn_type)
      in if \<not> is_inbound \<and> \<not> so_writable so then Some (Inl P2pIo, cm)
         else
           case handshake_loop H (cm_magic cm)
               (handshake_msg (cm_our_nonces cm) is_inbound (so_writable so) ours) (so_eos so) (so_incoming so)
               (hs_init (if is_inbound then [] else [Version_msg ours])) of
             None \<Rightarrow> None
           | Some result \<Rightarrow>
               let cm = cm\<lparr>cm_our_nonces := removeAll (so_nonce so) (cm_our_nonces cm)\<rparr>
               in case result of
                    Inl e \<Rightarrow> Some (Inl e, cm)
                  | Inr (st, _) \<Rightarrow>
                      let (h, n) = complete_handshake V mo addr is_inbound conn_type st (cm_net cm)
                      in Some (Inr h, cm\<lparr>cm_net := n\<rparr>))"

definition normalize_addr :: "socket_addr \<Rightarrow> socket_addr" where
  "normalize_addr a =
     (case sa_ip a of
        V4 _ \<Rightarrow> a
      | V6 o6 \<Rightarrow> (case to_ipv4_mapped o6 of None \<Rightarrow> a | Some o4 \<Rightarrow> \<lparr>sa_ip = V4 o4, sa_port = sa_port a\<rparr>))"

text \<open>\<open>tcp\<close> is the outcome of the TCP connection.\<close>

definition connect_addr ::
  "addr_hasher \<Rightarrow> ('c, 'e) chain_interface \<Rightarrow> digests \<Rightarrow> moment \<Rightarrow> (socket_addr \<Rightarrow> socket p2p_result) \<Rightarrow> socket_addr \<Rightarrow>
    connection_type \<Rightarrow> 'c connman \<Rightarrow> (node_handle p2p_result \<times> 'c connman) option" where
  "connect_addr S V H mo tcp socket_addr conn_type cm =
     (let addr = normalize_addr socket_addr;
          (banned, cm) = cm_is_banned (mo_now mo) (sa_ip addr) cm
      in if banned then Some (Inl Banned, cm)
         else case tcp addr of
           Inl e \<Rightarrow> Some (Inl e, cm)
         | Inr so \<Rightarrow>
             (case handshake V H mo so addr False conn_type cm of
                None \<Rightarrow> None
              | Some (Inr h, cm) \<Rightarrow>
                  Some (Inr h, cm\<lparr>cm_addr_man := am_record_success S (mo_now mo) (cm_addr_man cm) addr\<rparr>)
              | Some (Inl e, cm) \<Rightarrow>
                  Some (Inl e, cm\<lparr>cm_addr_man := am_record_failure (mo_now mo) (cm_addr_man cm) addr\<rparr>)))"

subsection \<open>Handshakes on a stream of frames\<close>

text \<open>The loop on messages instead of bytes.\<close>

fun handshake_msgs ::
  "(message \<Rightarrow> handshake_state \<Rightarrow> handshake_state p2p_result) \<Rightarrow> p2p_error \<Rightarrow> message list \<Rightarrow> handshake_state \<Rightarrow>
    (handshake_state \<times> message list) p2p_result" where
  "handshake_msgs on_msg eos [] st = Inl eos"
| "handshake_msgs on_msg eos (m # ms) st =
     (case on_msg m st of
        Inl e \<Rightarrow> Inl e
      | Inr st \<Rightarrow> if got_version st \<and> got_verack st then Inr (st, ms) else handshake_msgs on_msg eos ms st)"

definition on_wire :: "digests \<Rightarrow> magic \<Rightarrow> (handshake_state \<times> message list) p2p_result \<Rightarrow>
    (handshake_state \<times> bytes) p2p_result option" where
  "on_wire H magic r =
     (case r of Inl e \<Rightarrow> Some (Inl e)
      | Inr (st, ms) \<Rightarrow> Some (Inr (st, concat (map (write_frame H magic) ms))))"

lemma handshake_loop_frames:
  assumes "digest_sizes H" "length magic = 4" "list_all wf_frame ms"
  shows "handshake_loop H magic on_msg eos (concat (map (write_frame H magic) ms)) st =
    on_wire H magic (handshake_msgs on_msg eos ms st)"
  using assms(3)
proof (induction ms arbitrary: st)
  case Nil
  show ?case by (subst handshake_loop.simps) (simp add: on_wire_def)
next
  case (Cons m ms)
  let ?p = "message_encode m" and ?c = "message_command m"
  let ?s = "concat (map (write_frame H magic) ms)"
  have w: "wf_message m" "wf_command ?c" "length ?p \<le> MAX_MESSAGE_SIZE" using Cons.prems by (auto simp: wf_frame_def)
  note h = header_framing [OF assms(1,2) w(2,3)]
  have buf: "concat (map (write_frame H magic) (m # ms)) = encode_header H magic ?c ?p @ ?p @ ?s"
    by (simp add: write_frame_def Let_def)
  have f: "unat (mh_length (frame_header H magic ?c ?p)) = length ?p" "mh_command (frame_header H magic ?c ?p) = ?c"
    using w(3) by (simp_all add: frame_header_def unat_word_of_nat_u32 MAX_MESSAGE_SIZE_def)
  show ?case
    unfolding buf using h f message_roundtrip [OF w(1)] Cons
    by (subst handshake_loop.simps) (simp add: on_wire_def Let_def split: sum.splits)
qed

definition acceptable :: "u64 list \<Rightarrow> version_msg \<Rightarrow> bool" where
  "acceptable our_nonces v \<longleftrightarrow> vm_nonce v \<notin> set our_nonces \<and> 31800 \<le> sint (vm_version v)"

definition heard_version :: "bool \<Rightarrow> version_msg \<Rightarrow> version_msg \<Rightarrow> handshake_state \<Rightarrow> handshake_state" where
  "heard_version is_inbound ours v st =
     st\<lparr>hs_version := vm_version v, hs_agent := vm_user_agent v, hs_height := vm_start_height v,
        hs_services := vm_services v,
        hs_written := hs_written st @ (if is_inbound then [Version_msg ours] else []) @ [Verack_msg],
        got_version := True\<rparr>"

text \<open>A message that is neither a version nor a verack.\<close>

definition other_msg :: "message \<Rightarrow> bool" where
  "other_msg m \<longleftrightarrow> (\<forall>v. m \<noteq> Version_msg v) \<and> m \<noteq> Verack_msg"

lemma handshake_other: "other_msg m \<Longrightarrow> handshake_msg N inb wr ours m st = Inr st"
  by (cases m) (simp_all add: other_msg_def)

lemma message_kinds:
  obtains (ver) v where "m = Version_msg v" | (ack) "m = Verack_msg" | (other) "other_msg m"
  by (auto simp: other_msg_def)

lemma other_msg_simps [simp]: "\<not> other_msg (Version_msg v)" "\<not> other_msg Verack_msg"
  by (simp_all add: other_msg_def)

lemma handshake_after_version:
  assumes "got_version st" "\<not> got_verack st"
  shows "handshake_msgs (handshake_msg N inb wr ours) eos ms st = Inr (st', r) \<longleftrightarrow>
    (\<exists>b. ms = b @ Verack_msg # r \<and> list_all other_msg b) \<and> st' = st\<lparr>got_verack := True\<rparr>"
proof (induction ms)
  case (Cons m ms)
  show ?case
  proof (cases rule: message_kinds [of m])
    case (other)
    then show ?thesis using assms Cons by (auto simp: handshake_other Cons_eq_append_conv)
  qed (use assms in \<open>auto simp: Cons_eq_append_conv\<close>)
qed simp

lemma handshake_msgs_exact:
  assumes "\<not> got_version st" "\<not> got_verack st"
  shows "handshake_msgs (handshake_msg N inb True ours) eos ms st = Inr (st', r) \<longleftrightarrow>
    (\<exists>a v b. ms = a @ Version_msg v # b @ Verack_msg # r \<and> list_all other_msg a \<and> list_all other_msg b \<and>
       acceptable N v \<and> st' = (heard_version inb ours v st)\<lparr>got_verack := True\<rparr>)"
proof (induction ms)
  case (Cons m ms)
  show ?case
  proof (cases rule: message_kinds [of m])
    case (ver v)
    have "handshake_msg N inb True ours m st = Inr (heard_version inb ours v st)" if "acceptable N v"
      using that assms by (simp add: ver heard_version_def acceptable_def MIN_PEER_PROTO_VERSION_def)
    moreover have "\<exists>e. handshake_msg N inb True ours m st = Inl e" if "\<not> acceptable N v"
      using that assms by (auto simp: ver acceptable_def MIN_PEER_PROTO_VERSION_def)
    moreover have "got_version (heard_version inb ours v st)" "\<not> got_verack (heard_version inb ours v st)"
      using assms by (simp_all add: heard_version_def)
    ultimately have "handshake_msgs (handshake_msg N inb True ours) eos (m # ms) st = Inr (st', r) \<longleftrightarrow>
        acceptable N v \<and> (\<exists>b. ms = b @ Verack_msg # r \<and> list_all other_msg b) \<and>
        st' = (heard_version inb ours v st)\<lparr>got_verack := True\<rparr>"
      by (cases "acceptable N v") (auto simp: handshake_after_version)
    moreover have "m # ms = a @ Version_msg w # c \<and> list_all other_msg a \<longleftrightarrow> a = [] \<and> w = v \<and> c = ms" for a w c
      by (cases a) (auto simp: ver)
    ultimately show ?thesis by (metis append_Nil list.pred_inject(1))
  next
    case other
    have "m # ms = a @ Version_msg w # c \<and> list_all other_msg a \<longleftrightarrow>
        (\<exists>a'. a = m # a' \<and> ms = a' @ Version_msg w # c \<and> list_all other_msg a')" for a w c
      using other by (cases a) auto
    then have "(\<exists>a v b. m # ms = a @ Version_msg v # b @ Verack_msg # r \<and> list_all other_msg a \<and> P v b) \<longleftrightarrow>
        (\<exists>a v b. ms = a @ Version_msg v # b @ Verack_msg # r \<and> list_all other_msg a \<and> P v b)" for P
      by metis
    moreover have "handshake_msgs (handshake_msg N inb True ours) eos (m # ms) st =
        handshake_msgs (handshake_msg N inb True ours) eos ms st"
      using other assms by (simp add: handshake_other)
    ultimately show ?thesis using Cons by simp
  qed (use assms in \<open>auto simp: Cons_eq_append_conv\<close>)
qed simp

end
