(* ===== verification/Texts.thy ===== *)
theory Texts
  imports HexText PeerTable
begin

text \<open>
  Texts the node prints: numbers, addresses and connection types.  Everything but \<^verbatim>\<open>Display for ConnectionType\<close>
  is formatting of the standard library.
\<close>

subsection \<open>Texts of numbers and addresses\<close>

text \<open>Formatting of the standard library: \<^verbatim>\<open>{}\<close> and \<^verbatim>\<open>{:x}\<close> of unsigned integers, zero padding, and
  \<^verbatim>\<open>Display\<close> of addresses, where the first longest run of at least two zero groups is written as two colons and
  an IPv4-mapped address with its last four bytes in decimal.\<close>

fun digits :: "nat \<Rightarrow> nat \<Rightarrow> nat \<Rightarrow> string" where
  "digits base 0 n = []"
| "digits base (Suc fuel) n =
     (if n < base then [hex_digit n] else digits base fuel (n div base) @ [hex_digit (n mod base)])"

definition decimal :: "nat \<Rightarrow> string" where
  "decimal n = digits 10 (Suc n) n"

definition lower_hex :: "nat \<Rightarrow> string" where
  "lower_hex n = digits 16 (Suc n) n"

definition zero_padded :: "nat \<Rightarrow> string \<Rightarrow> string" where
  "zero_padded width s = replicate (width - length s) (CHR ''0'') @ s"

fun joined :: "string \<Rightarrow> string list \<Rightarrow> string" where
  "joined sep [] = []"
| "joined sep [s] = s"
| "joined sep (s # ss) = s @ sep @ joined sep ss"

definition ipv4_text :: "bytes \<Rightarrow> string" where
  "ipv4_text octets = joined ''.'' (map (\<lambda>b. decimal (unat b)) octets)"

fun segments :: "bytes \<Rightarrow> nat list" where
  "segments (a # b # bs) = (256 * unat a + unat b) # segments bs"
| "segments _ = []"

text \<open>The longest run of zero groups, as its start and length; the first one wins.\<close>

fun zero_run :: "nat list \<Rightarrow> nat \<Rightarrow> nat \<times> nat \<Rightarrow> nat \<times> nat \<Rightarrow> nat \<times> nat" where
  "zero_run [] i longest current = longest"
| "zero_run (s # ss) i longest current =
     (if s = 0 then
        (let current' = (if snd current = 0 then i else fst current, snd current + 1)
         in zero_run ss (i + 1) (if snd current' > snd longest then current' else longest) current')
      else zero_run ss (i + 1) longest (0, 0))"

definition ipv6_text :: "bytes \<Rightarrow> string" where
  "ipv6_text octets =
     (if take 12 octets = replicate 10 0 @ [0xff, 0xff] then ''::ffff:'' @ ipv4_text (drop 12 octets)
      else
        (let gs = segments octets; (start, len) = zero_run gs 0 (0, 0) (0, 0); text = (\<lambda>xs. joined '':'' (map lower_hex xs))
         in if len > 1 then text (take start gs) @ ''::'' @ text (drop (start + len) gs) else text gs))"

definition socket_addr_text :: "socket_addr \<Rightarrow> string" where
  "socket_addr_text a =
     (case sa_ip a of
        V4 o4 \<Rightarrow> ipv4_text o4 @ '':'' @ decimal (unat (sa_port a))
      | V6 o6 \<Rightarrow> ''['' @ ipv6_text o6 @ '']:'' @ decimal (unat (sa_port a)))"

fun connection_type_text :: "connection_type \<Rightarrow> string" where
  "connection_type_text Inbound = ''inbound''"
| "connection_type_text OutboundFullRelay = ''outbound-full-relay''"
| "connection_type_text BlockRelayOnly = ''block-relay-only''"
| "connection_type_text Feeler = ''feeler''"

subsection \<open>Number texts read back\<close>

fun digits_value :: "nat \<Rightarrow> nat \<Rightarrow> string \<Rightarrow> nat option" where
  "digits_value base acc [] = Some acc"
| "digits_value base acc (c # s) =
     (case hex_value c of
        Some d \<Rightarrow> if d < base then digits_value base (base * acc + d) s else None
      | None \<Rightarrow> None)"

lemma digits_value_append:
  "digits_value base acc (s @ t) = Option.bind (digits_value base acc s) (\<lambda>v. digits_value base v t)"
  by (induction base acc s rule: digits_value.induct) (auto split: option.splits)

lemma digits_read_back:
  assumes "2 \<le> base" "base \<le> 16" "n < fuel"
  shows "digits_value base 0 (digits base fuel n) = Some n"
  using assms(3)
proof (induction fuel arbitrary: n)
  case (Suc fuel)
  show ?case
  proof (cases "n < base")
    case True
    with assms(2) show ?thesis by (simp add: hex_value_digit)
  next
    case False
    then have "n div base < n" using assms(1) by (intro div_less_dividend) auto
    with Suc.prems have "n div base < fuel" by simp
    moreover have "n mod base < 16" "n mod base < base" using assms(1,2) by (auto intro: order_less_le_trans [of _ base])
    ultimately show ?thesis using Suc.IH False by (simp add: digits_value_append hex_value_digit)
  qed
qed simp

lemma length_digits: "2 \<le> base \<Longrightarrow> n < base ^ k \<Longrightarrow> 0 < k \<Longrightarrow> length (digits base fuel n) \<le> k"
proof (induction fuel arbitrary: n k)
  case (Suc fuel)
  show ?case
  proof (cases "n < base")
    case True
    with Suc.prems show ?thesis by simp
  next
    case False
    from Suc.prems(3) obtain j where j: "k = Suc j" by (cases k) auto
    with Suc.prems(2) False have k: "k = Suc j" "0 < j" by (cases j; simp)+
    with Suc.prems have "n div base < base ^ j" by (simp add: less_mult_imp_div_less mult.commute)
    from Suc.IH [OF Suc.prems(1) this k(2)] False k show ?thesis by simp
  qed
qed simp

lemma digits_value_zeros: "2 \<le> base \<Longrightarrow> digits_value base 0 (replicate k (CHR ''0'') @ s) = digits_value base 0 s"
  by (induction k) (auto simp: hex_value_def)

text \<open>\<^verbatim>\<open>{:08x}\<close> and \<^verbatim>\<open>{:016x}\<close> print words of their width in exactly that many digits.\<close>

lemma padded_hex:
  assumes "n < 16 ^ k" "0 < k"
  shows "length (zero_padded k (lower_hex n)) = k" "digits_value 16 0 (zero_padded k (lower_hex n)) = Some n"
  using length_digits [of 16 n k "Suc n"] digits_read_back [of 16 n "Suc n"] assms
  by (simp_all add: zero_padded_def lower_hex_def digits_value_zeros)

lemma decimal_read_back: "digits_value 10 0 (decimal n) = Some n"
  by (simp add: decimal_def digits_read_back del: digits.simps)

end
