(* ===== verification/Rpc.thy ===== *)
theory Rpc
  imports NodeSync Handshake Texts
begin

text \<open>
  The JSON-RPC server, \<^verbatim>\<open>net/rpc\<close>: requests and responses (\<^verbatim>\<open>types.rs\<close>, \<^verbatim>\<open>utils.rs\<close>), dispatch
  (\<^verbatim>\<open>rpc.rs\<close>), the chain methods (\<^verbatim>\<open>blockchain/mod.rs\<close>) and the network methods (\<^verbatim>\<open>net/mod.rs\<close>).

  A request is what serde makes of the body; a response is the \<^verbatim>\<open>serde_json::Value\<close> the server sends.  A
  handler runs against one state of the node.  Floating-point results are kept as the expressions whose
  value they are.  The texts of storage and decode errors are generated by \<^verbatim>\<open>thiserror\<close>: \<open>texts\<close> is their
  parameter.  HTTP and the socket of the server are outside the model.
\<close>

subsection \<open>JSON values\<close>

datatype (plugins only: code size) f64 =
    F64_lit nat nat \<comment> \<open>the literal m / 10^k\<close>
  | F64_of nat \<comment> \<open>an integer cast with \<open>as f64\<close>\<close>
  | F64_div f64 f64
  | F64_min f64 f64

text \<open>The keys of an object are distinct; they are listed in the order of the source.\<close>

datatype (plugins only: code size) json =
    JNull
  | JBool bool
  | JInt int
  | JFloat f64
  | JString string
  | JArray "json list"
  | JObject "(string \<times> json) list"

definition as_u64 :: "json \<Rightarrow> u64 option" where
  "as_u64 v = (case v of JInt i \<Rightarrow> if 0 \<le> i \<and> i < 2 ^ 64 then Some (word_of_int i) else None | _ \<Rightarrow> None)"

definition as_str :: "json \<Rightarrow> string option" where
  "as_str v = (case v of JString s \<Rightarrow> Some s | _ \<Rightarrow> None)"

fun get_field :: "string \<Rightarrow> json \<Rightarrow> json option" where
  "get_field k (JObject fs) = map_of fs k"
| "get_field k _ = None"

subsection \<open>Errors, requests and responses\<close>

datatype (plugins only: code size) rpc_err =
    MethodNotFound string
  | WrongParam string
  | BadParams string
  | MissingParam string
  | Internal string

record rpc_error_metadata =
  em_code :: i32
  em_data :: "string option"
  em_message :: string

definition error_metadata :: "rpc_err \<Rightarrow> rpc_error_metadata" where
  "error_metadata e =
     (case e of
        MethodNotFound m \<Rightarrow> \<lparr>em_code = -32601, em_data = None, em_message = ''Method not found: '' @ m\<rparr>
      | WrongParam f \<Rightarrow>
          \<lparr>em_code = -32602, em_data = None, em_message = ''Field '' @ [CHR 0x27] @ f @ [CHR 0x27] @ '' is incorrect or has an unknown format''\<rparr>
      | BadParams c \<Rightarrow> \<lparr>em_code = -32602, em_data = None, em_message = ''Invalid params: '' @ c\<rparr>
      | MissingParam p \<Rightarrow>
          \<lparr>em_code = -32602, em_data = None, em_message = ''Expected parameter: '' @ p @ '' is missing''\<rparr>
      | Internal c \<Rightarrow> \<lparr>em_code = -32603, em_data = None, em_message = ''Internal Error: '' @ c\<rparr>)"

datatype rpc_namespace = Ns_Blockchain | Ns_Net | Ns_Mining | Ns_Admin

datatype (plugins only: code size) rpc_request_id = Id_Number u64 | Id_String string | Id_Null

record rpc_request =
  rq_id :: rpc_request_id
  rq_jsonrpc :: string
  rq_method :: string
  rq_params :: "json list option"

text \<open>\<^verbatim>\<open>str::contains\<close>.\<close>

fun contains_text :: "string \<Rightarrow> string \<Rightarrow> bool" where
  "contains_text [] pat \<longleftrightarrow> pat = []"
| "contains_text (c # s) pat \<longleftrightarrow> take (length pat) (c # s) = pat \<or> contains_text s pat"

definition namespace :: "rpc_request \<Rightarrow> rpc_err + rpc_namespace" where
  "namespace req =
     (let m = rq_method req
      in if contains_text m ''blockchain'' \<or> contains_text m ''block'' then Inr Ns_Blockchain else Inr Ns_Net)"

datatype (plugins only: code size) rpc_reply =
    Success rpc_request_id string json
  | Error rpc_request_id string rpc_error_metadata

definition response_success :: "rpc_request_id \<Rightarrow> json \<Rightarrow> rpc_reply" where
  "response_success i result = Success i ''2.0'' result"

definition response_error :: "rpc_request_id \<Rightarrow> rpc_error_metadata \<Rightarrow> rpc_reply" where
  "response_error i error = Error i ''2.0'' error"

text \<open>\<^verbatim>\<open>serde_json::to_value\<close>: the untagged enums are their contents, a missing \<^verbatim>\<open>data\<close> is left out.\<close>

definition id_to_value :: "rpc_request_id \<Rightarrow> json" where
  "id_to_value i = (case i of Id_Number n \<Rightarrow> JInt (uint n) | Id_String s \<Rightarrow> JString s | Id_Null \<Rightarrow> JNull)"

definition metadata_to_value :: "rpc_error_metadata \<Rightarrow> json" where
  "metadata_to_value m = JObject ((''code'', JInt (sint (em_code m))) #
     (case em_data m of None \<Rightarrow> [] | Some d \<Rightarrow> [(''data'', JString d)]) @ [(''message'', JString (em_message m))])"

fun response_to_value :: "rpc_reply \<Rightarrow> json" where
  "response_to_value (Success i v r) = JObject [(''id'', id_to_value i), (''jsonrpc'', JString v), (''result'', r)]"
| "response_to_value (Error i v e) = JObject [(''id'', id_to_value i), (''jsonrpc'', JString v), (''error'', metadata_to_value e)]"

definition rpc_response :: "rpc_request \<Rightarrow> rpc_err + json \<Rightarrow> json" where
  "rpc_response req res =
     (case res of
        Inr result \<Rightarrow> response_to_value (response_success (rq_id req) result)
      | Inl err \<Rightarrow> response_to_value (response_error (rq_id req) (error_metadata err)))"

subsection \<open>The context of a request\<close>

text \<open>\<^verbatim>\<open>RpcNodeProvider\<close> at one state of the node, and the orchestrator as such a provider.\<close>

record rpc_node_provider =
  np_headers_tip :: "string + hash option"
  np_best_block :: "string + hash option"
  np_block_tip :: "string + hash option"
  np_block_index_height :: "hash \<Rightarrow> string + u32 option"
  np_block_hash :: "u32 \<Rightarrow> string + hash option"
  np_block_raw :: "hash \<Rightarrow> string + bytes option"

record error_texts =
  et_store :: "store_error \<Rightarrow> string"
  et_decode :: "decode_error \<Rightarrow> string"

definition blockchain_node :: "error_texts \<Rightarrow> blockchain \<Rightarrow> rpc_node_provider" where
  "blockchain_node texts bc =
     \<lparr>np_headers_tip = map_err (et_store texts) (rpc_get_headers_tip bc),
      np_best_block = map_err (et_store texts) (rpc_get_best_block bc),
      np_block_tip = map_err (et_store texts) (rpc_get_block_tip bc),
      np_block_index_height = (\<lambda>h. map_err (et_store texts) (rpc_get_block_index_height bc h)),
      np_block_hash = (\<lambda>height. map_err (et_store texts) (rpc_get_block_hash bc height)),
      np_block_raw = (\<lambda>h. map_err (et_store texts) (rpc_get_block_raw bc h))\<rparr>"

record 'c rpc_context =
  rx_node :: rpc_node_provider
  rx_p2p :: "'c connman"

text \<open>\<^verbatim>\<open>.map_err(RpcErr::Internal)?\<close> and \<^verbatim>\<open>.unwrap_or\<close> on what the node answers.\<close>

definition internal_or :: "'a \<Rightarrow> string + 'a option \<Rightarrow> rpc_err + 'a" where
  "internal_or fallback r =
     (case r of Inl e \<Rightarrow> Inl (Internal e) | Inr None \<Rightarrow> Inr fallback | Inr (Some x) \<Rightarrow> Inr x)"

definition internal_ok_or :: "rpc_err \<Rightarrow> string + 'a option \<Rightarrow> rpc_err + 'a" where
  "internal_ok_or err r =
     (case r of Inl e \<Rightarrow> Inl (Internal e) | Inr None \<Rightarrow> Inl err | Inr (Some x) \<Rightarrow> Inr x)"

text \<open>\<^verbatim>\<open>params.as_ref().and_then(|p| p.get(i))\<close>.\<close>

definition param_at :: "json list option \<Rightarrow> nat \<Rightarrow> json option" where
  "param_at params i = Option.bind params (\<lambda>p. if i < length p then Some (p ! i) else None)"

subsection \<open>Chain methods\<close>

definition handle_getblockchaininfo :: "hex_codec \<Rightarrow> 'c rpc_context \<Rightarrow> rpc_err + json" where
  "handle_getblockchaininfo X ctx =
     (let node = rx_node ctx in
      and_then (internal_or hash_ZERO (np_headers_tip node)) (\<lambda>header_hash.
      and_then (internal_or 0 (np_block_index_height node header_hash)) (\<lambda>header_height.
      and_then (internal_or hash_ZERO (np_best_block node)) (\<lambda>best_hash.
      and_then (internal_or 0 (np_block_index_height node best_hash)) (\<lambda>best_height.
      and_then (internal_or hash_ZERO (np_block_tip node)) (\<lambda>disk_hash.
      and_then (internal_or 0 (np_block_index_height node disk_hash)) (\<lambda>disk_height.
      Inr (JObject
        [(''chain'', JString (magic_to_string (cm_magic (rx_p2p ctx)))),
         (''blocks'', JInt (uint best_height)),
         (''headers'', JInt (uint header_height)),
         (''bestheaderhash'', JString (hash_to_string X header_hash)),
         (''bestblockhash'', JString (hash_to_string X best_hash)),
         (''disk_blocks'', JInt (uint disk_height)),
         (''difficulty'', JFloat (F64_lit 10 1)),
         (''mediantime'', JInt 0),
         (''verificationprogress'',
            JFloat (F64_min (F64_div (F64_of (unat best_height)) (F64_of (unat (max header_height 1)))) (F64_lit 10 1))),
         (''initialblockdownload'', JBool (best_height < header_height)),
         (''chainwork'', JString ''0''),
         (''size_on_disk'', JInt 0),
         (''pruned'', JBool False)]))))))))"

definition handle_getblockcount :: "'c rpc_context \<Rightarrow> rpc_err + json" where
  "handle_getblockcount ctx =
     and_then (internal_or hash_ZERO (np_block_tip (rx_node ctx))) (\<lambda>h.
     and_then (internal_or 0 (np_block_index_height (rx_node ctx) h)) (\<lambda>height.
     Inr (JInt (uint height))))"

definition parse_getblockhash :: "json list option \<Rightarrow> rpc_err + u32" where
  "parse_getblockhash params =
     (case Option.bind (param_at params 0) as_u64 of
        None \<Rightarrow> Inl (MissingParam ''height'')
      | Some height \<Rightarrow> Inr (ucast height))"

definition handle_getblockhash :: "hex_codec \<Rightarrow> u32 \<Rightarrow> 'c rpc_context \<Rightarrow> rpc_err + json" where
  "handle_getblockhash X height ctx =
     and_then (internal_ok_or (BadParams (''Height '' @ decimal (unat height) @ '' out of range''))
       (np_block_hash (rx_node ctx) height)) (\<lambda>h.
     Inr (JString (hash_to_string X h)))"

definition parse_getblock :: "hex_codec \<Rightarrow> json list option \<Rightarrow> rpc_err + hash \<times> u8" where
  "parse_getblock X params =
     (case Option.bind (param_at params 0) as_str of
        None \<Rightarrow> Inl (MissingParam ''hash'')
      | Some s \<Rightarrow>
          (case hash_from_str X ''BlockHash'' s of
             Inl _ \<Rightarrow> Inl (BadParams ''invalid hash format'')
           | Inr h \<Rightarrow>
               let verbosity = (case Option.bind (param_at params 1) as_u64 of Some v \<Rightarrow> v | None \<Rightarrow> 1)
               in if verbosity > 2 then Inl (BadParams ''verbosity must be 0, 1, or 2'') else Inr (h, ucast verbosity)))"

definition txin_to_json :: "hex_codec \<Rightarrow> tx_in \<Rightarrow> json" where
  "txin_to_json X inp =
     (let hex = hex_encode X; w = JArray (map (\<lambda>item. JString (hex item)) (witness inp)) in
      if outpoint_is_coinbase (previous_output inp) then
        JObject [(''coinbase'', JString (hex (script_sig inp))), (''sequence'', JInt (uint (sequence inp))), (''txinwitness'', w)]
      else
        JObject [(''txid'', JString (hash_to_string X (op_txid (previous_output inp)))),
          (''vout'', JInt (uint (op_vout (previous_output inp)))),
          (''scriptSig'', JObject [(''hex'', JString (hex (script_sig inp)))]),
          (''sequence'', JInt (uint (sequence inp))), (''txinwitness'', w)])"

definition txout_to_json :: "hex_codec \<Rightarrow> nat \<times> tx_out \<Rightarrow> json" where
  "txout_to_json X = (\<lambda>(n, out).
     JObject [(''value'', JFloat (F64_div (F64_of (unat (out_value out))) (F64_lit 1000000000 1))),
       (''n'', JInt (int n)),
       (''scriptPubKey'', JObject [(''hex'', JString (hex_encode X (script_pubkey out)))])])"

definition transaction_to_json :: "digests \<Rightarrow> hex_codec \<Rightarrow> transaction \<Rightarrow> json" where
  "transaction_to_json H X tx =
     (let raw = serialize encode_transaction tx
      in JObject
        [(''txid'', JString (hash_to_string X (txid H tx))),
         (''hash'', JString (hash_to_string X (wtxid H tx))),
         (''version'', JInt (uint (tx_version tx))),
         (''size'', JInt (int (length raw))),
         (''locktime'', JInt (uint (lock_time tx))),
         (''vin'', JArray (map (txin_to_json X) (inputs tx))),
         (''vout'', JArray (map (txout_to_json X) (zip [0..<length (outputs tx)] (outputs tx)))),
         (''hex'', JString (hex_encode X raw))])"

definition decode_failed :: "error_texts \<Rightarrow> 'a decode_result \<Rightarrow> rpc_err + 'a" where
  "decode_failed texts r = map_err (\<lambda>e. Internal (''decode error: '' @ et_decode texts e)) r"

definition handle_getblock :: "digests \<Rightarrow> hex_codec \<Rightarrow> error_texts \<Rightarrow> hash \<times> u8 \<Rightarrow> 'c rpc_context \<Rightarrow> rpc_err + json" where
  "handle_getblock H X texts = (\<lambda>(h, verbosity) ctx.
     and_then (internal_ok_or (BadParams ''block not found'') (np_block_raw (rx_node ctx) h)) (\<lambda>raw.
     if verbosity = 0 then Inr (JString (hex_encode X raw))
     else
       and_then (decode_failed texts (decode_block (decoder_new raw))) (\<lambda>(b, dec).
       and_then (decode_failed texts (finish dec ''Block'')) (\<lambda>_.
       let txs = (if verbosity = 2 then map (transaction_to_json H X) (transactions b)
                  else map (\<lambda>tx. JString (hash_to_string X (txid H tx))) (transactions b))
       in Inr (JObject
            [(''hash'', JString (hash_to_string X h)),
             (''confirmations'', JInt 1),
             (''version'', JInt (sint (bh_version (header b)))),
             (''merkleroot'', JString (hash_to_string X (merkle_root (header b)))),
             (''nTx'', JInt (int (length (transactions b)))),
             (''tx'', JArray txs),
             (''time'', JInt (uint (bh_time (header b)))),
             (''nonce'', JInt (uint (bh_nonce (header b)))),
             (''bits'', JString (zero_padded 8 (lower_hex (unat (bh_bits (header b)))))),
             (''previousblockhash'', JString (hash_to_string X (prev_hash (header b))))])))))"

subsection \<open>Network methods\<close>

definition handle_getnetworkinfo :: "'c rpc_context \<Rightarrow> rpc_err + json" where
  "handle_getnetworkinfo ctx =
     (let counts = get_connection_counts (nt_table (cm_net (rx_p2p ctx)))
      in Inr (JObject
        [(''version'', JInt 260000),
         (''subversion'', JString ''/bitcrab:0.1.0/''),
         (''protocolversion'', JInt 70016),
         (''localservices'', JString ''0000000000000409''),
         (''localrelay'', JBool True),
         (''timeoffset'', JInt 0),
         (''networkactive'', JBool True),
         (''connections'', JInt (int (cc_total counts))),
         (''connections_in'', JInt (int (cc_inbound counts))),
         (''connections_out'', JInt (int (cc_outbound_full_relay counts + cc_block_relay_only counts + cc_feeler counts))),
         (''networks'', JArray []),
         (''relayfee'', JFloat (F64_lit 1000 8)),
         (''incrementalfee'', JFloat (F64_lit 1000 8)),
         (''warnings'', JString [])]))"

definition peer_info :: "nat \<times> node_handle \<Rightarrow> json" where
  "peer_info = (\<lambda>(i, handle).
     JObject
       [(''id'', JInt (uint (word_of_nat i :: u32))),
        (''addr'', JString (socket_addr_text (nh_addr handle))),
        (''services'', JString (zero_padded 16 (lower_hex (unat (nh_services handle))))),
        (''lastsend'', JInt 0), (''lastrecv'', JInt 0), (''conntime'', JInt 0),
        (''subver'', JString ''/bitcrab:0.1.0/''),
        (''startingheight'', JInt 0),
        (''version'', JInt 70015),
        (''relaytxes'', JBool (is_tx_relay_connection (nh_conn_type handle))),
        (''inbound'', JBool (nh_conn_type handle = Inbound)),
        (''connection_type'', JString (connection_type_text (nh_conn_type handle)))])"

definition handle_getpeerinfo :: "'c rpc_context \<Rightarrow> rpc_err + json" where
  "handle_getpeerinfo ctx =
     (let peers = get_peers (nt_table (cm_net (rx_p2p ctx))) None
      in Inr (JArray (map peer_info (zip [0..<length peers] peers))))"

definition handle_getconnectioncount :: "'c rpc_context \<Rightarrow> rpc_err + json" where
  "handle_getconnectioncount ctx = Inr (JInt (int (get_peer_count (nt_table (cm_net (rx_p2p ctx))))))"

subsection \<open>Dispatch\<close>

definition map_blockchain_requests ::
  "digests \<Rightarrow> hex_codec \<Rightarrow> error_texts \<Rightarrow> rpc_request \<Rightarrow> 'c rpc_context \<Rightarrow> rpc_err + json" where
  "map_blockchain_requests H X texts req ctx =
     (let m = rq_method req in
      if m = ''getblockchaininfo'' then handle_getblockchaininfo X ctx
      else if m = ''getblockcount'' then handle_getblockcount ctx
      else if m = ''getblockhash'' then and_then (parse_getblockhash (rq_params req)) (\<lambda>height. handle_getblockhash X height ctx)
      else if m = ''getblock'' then and_then (parse_getblock X (rq_params req)) (\<lambda>p. handle_getblock H X texts p ctx)
      else Inl (MethodNotFound m))"

definition map_net_requests :: "rpc_request \<Rightarrow> 'c rpc_context \<Rightarrow> rpc_err + json" where
  "map_net_requests req ctx =
     (let m = rq_method req in
      if m = ''getnetworkinfo'' then handle_getnetworkinfo ctx
      else if m = ''getpeerinfo'' then handle_getpeerinfo ctx
      else if m = ''getconnectioncount'' then handle_getconnectioncount ctx
      else Inl (MethodNotFound m))"

definition map_http_requests ::
  "digests \<Rightarrow> hex_codec \<Rightarrow> error_texts \<Rightarrow> rpc_request \<Rightarrow> 'c rpc_context \<Rightarrow> rpc_err + json" where
  "map_http_requests H X texts req ctx =
     (case namespace req of
        Inr Ns_Blockchain \<Rightarrow> map_blockchain_requests H X texts req ctx
      | Inr Ns_Net \<Rightarrow> map_net_requests req ctx
      | _ \<Rightarrow> Inl (MethodNotFound (rq_method req)))"

datatype (plugins only: code size) rpc_request_wrapper = Single rpc_request | Multiple "rpc_request list"

text \<open>The requests of a batch are served in order; the node may change between them, so each has a context
  of its own.\<close>

definition handle_http_request ::
  "digests \<Rightarrow> hex_codec \<Rightarrow> error_texts \<Rightarrow> (nat \<Rightarrow> 'c rpc_context) \<Rightarrow> rpc_request_wrapper \<Rightarrow> json" where
  "handle_http_request H X texts ctxs wrapper =
     (case wrapper of
        Single req \<Rightarrow> rpc_response req (map_http_requests H X texts req (ctxs 0))
      | Multiple reqs \<Rightarrow>
          JArray (map (\<lambda>(i, req). rpc_response req (map_http_requests H X texts req (ctxs i))) (zip [0..<length reqs] reqs)))"

subsection \<open>Dispatch\<close>

definition rpc_methods :: "string list" where
  "rpc_methods = [''getblockchaininfo'', ''getblockcount'', ''getblockhash'', ''getblock'',
     ''getnetworkinfo'', ''getpeerinfo'', ''getconnectioncount'']"

lemma internal_or_Inl: "internal_or x r = Inl e \<Longrightarrow> \<exists>c. e = Internal c"
  by (auto simp: internal_or_def split: sum.splits option.splits)

lemma decode_failed_Inl: "decode_failed texts r = Inl e \<Longrightarrow> \<exists>c. e = Internal c"
  by (cases r) (auto simp: decode_failed_def)

lemma handler_errors:
  "handle_getblockchaininfo X ctx = Inl e \<Longrightarrow> \<exists>c. e = Internal c"
  "handle_getblockcount ctx = Inl e \<Longrightarrow> \<exists>c. e = Internal c"
  "parse_getblockhash params = Inl e \<Longrightarrow> e = MissingParam ''height''"
  "handle_getblockhash X height ctx = Inl e \<Longrightarrow> (\<exists>c. e = Internal c) \<or> (\<exists>c. e = BadParams c)"
  "parse_getblock X params = Inl e \<Longrightarrow> e = MissingParam ''hash'' \<or> (\<exists>c. e = BadParams c)"
  "handle_getblock H X texts p ctx = Inl e \<Longrightarrow> (\<exists>c. e = Internal c) \<or> (\<exists>c. e = BadParams c)"
  by (auto simp: handle_getblockchaininfo_def handle_getblockcount_def parse_getblockhash_def handle_getblockhash_def
      parse_getblock_def handle_getblock_def internal_ok_or_def and_then_eq_Inl Let_def case_prod_unfold
      dest: internal_or_Inl decode_failed_Inl split: sum.splits option.splits if_splits)

lemma namespace_of:
  "rq_method req = ''getblockchaininfo'' \<Longrightarrow> namespace req = Inr Ns_Blockchain"
  "rq_method req = ''getblockcount'' \<Longrightarrow> namespace req = Inr Ns_Blockchain"
  "rq_method req = ''getblockhash'' \<Longrightarrow> namespace req = Inr Ns_Blockchain"
  "rq_method req = ''getblock'' \<Longrightarrow> namespace req = Inr Ns_Blockchain"
  "rq_method req = ''getnetworkinfo'' \<Longrightarrow> namespace req = Inr Ns_Net"
  "rq_method req = ''getpeerinfo'' \<Longrightarrow> namespace req = Inr Ns_Net"
  "rq_method req = ''getconnectioncount'' \<Longrightarrow> namespace req = Inr Ns_Net"
  by (simp_all add: namespace_def)

text \<open>Each method reaches its own handler.\<close>

lemma dispatch:
  "rq_method req = ''getblockchaininfo'' \<Longrightarrow> map_http_requests H X texts req ctx = handle_getblockchaininfo X ctx"
  "rq_method req = ''getblockcount'' \<Longrightarrow> map_http_requests H X texts req ctx = handle_getblockcount ctx"
  "rq_method req = ''getblockhash'' \<Longrightarrow> map_http_requests H X texts req ctx =
     and_then (parse_getblockhash (rq_params req)) (\<lambda>height. handle_getblockhash X height ctx)"
  "rq_method req = ''getblock'' \<Longrightarrow> map_http_requests H X texts req ctx =
     and_then (parse_getblock X (rq_params req)) (\<lambda>p. handle_getblock H X texts p ctx)"
  "rq_method req = ''getnetworkinfo'' \<Longrightarrow> map_http_requests H X texts req ctx = handle_getnetworkinfo ctx"
  "rq_method req = ''getpeerinfo'' \<Longrightarrow> map_http_requests H X texts req ctx = handle_getpeerinfo ctx"
  "rq_method req = ''getconnectioncount'' \<Longrightarrow> map_http_requests H X texts req ctx = handle_getconnectioncount ctx"
  by (simp_all add: map_http_requests_def namespace_of map_blockchain_requests_def map_net_requests_def)

lemma dispatch_unknown:
  assumes "rq_method req \<notin> set rpc_methods"
  shows "map_http_requests H X texts req ctx = Inl (MethodNotFound (rq_method req))"
  using assms by (simp add: rpc_methods_def map_http_requests_def namespace_def map_blockchain_requests_def map_net_requests_def Let_def)

lemma method_found:
  assumes "rq_method req \<in> set rpc_methods"
  shows "map_http_requests H X texts req ctx \<noteq> Inl (MethodNotFound m)"
proof -
  have "rq_method req = ''getblockchaininfo'' \<or> rq_method req = ''getblockcount'' \<or> rq_method req = ''getblockhash'' \<or>
      rq_method req = ''getblock'' \<or> rq_method req = ''getnetworkinfo'' \<or> rq_method req = ''getpeerinfo'' \<or>
      rq_method req = ''getconnectioncount''"
    using assms unfolding rpc_methods_def by simp
  then show ?thesis
    by (elim disjE)
      (auto simp only: dispatch and_then_eq_Inl handle_getnetworkinfo_def handle_getpeerinfo_def handle_getconnectioncount_def
        Let_def sum.distinct rpc_err.distinct dest!: handler_errors)
qed

text \<open>A response carries the identifier of its request and either a result or an error with a JSON-RPC code.\<close>

lemma rpc_response_fields:
  "get_field ''id'' (rpc_response req res) = Some (id_to_value (rq_id req))"
  "get_field ''jsonrpc'' (rpc_response req res) = Some (JString ''2.0'')"
  "get_field ''result'' (rpc_response req res) = (case res of Inr v \<Rightarrow> Some v | Inl _ \<Rightarrow> None)"
  "get_field ''error'' (rpc_response req res) =
     (case res of Inr _ \<Rightarrow> None | Inl e \<Rightarrow> Some (metadata_to_value (error_metadata e)))"
  by (simp_all add: rpc_response_def response_success_def response_error_def split: sum.splits)

lemma error_codes:
  "get_field ''code'' (metadata_to_value (error_metadata e)) = Some (JInt
     (case e of MethodNotFound _ \<Rightarrow> -32601 | Internal _ \<Rightarrow> -32603 | _ \<Rightarrow> -32602))"
  by (cases e) (simp_all add: metadata_to_value_def error_metadata_def)

lemma method_code:
  "get_field ''code'' (metadata_to_value (error_metadata e)) = Some (JInt (- 32601)) \<longleftrightarrow> (\<exists>m. e = MethodNotFound m)"
  unfolding error_codes by (cases e) simp_all

lemma map_zip_index: "map f (zip [0..<length xs] xs) = map (\<lambda>i. f (i, xs ! i)) [0..<length xs]"
  by (rule nth_equalityI) simp_all

subsection \<open>The chain behind the server\<close>

text \<open>What the chain methods need of the node: its three tips and the heights of its index.  Where a tip is
  missing the handlers ask for the zero hash, and an unknown hash counts as height 0.\<close>

definition tip_height :: "(hash \<Rightarrow> u32 option) \<Rightarrow> hash option \<Rightarrow> u32" where
  "tip_height height tip = (case height (case tip of Some h \<Rightarrow> h | None \<Rightarrow> hash_ZERO) of Some n \<Rightarrow> n | None \<Rightarrow> 0)"

lemma internal_or_Inr: "internal_or x (Inr r) = Inr (case r of Some y \<Rightarrow> y | None \<Rightarrow> x)"
  by (simp add: internal_or_def split: option.splits)

locale rpc_backend =
  fixes node :: "'s \<Rightarrow> rpc_node_provider"
    and sane :: "'s \<Rightarrow> bool"
    and header_tip validated_tip disk_tip :: "'s \<Rightarrow> hash option"
    and height :: "'s \<Rightarrow> hash \<Rightarrow> u32 option"
  assumes headers_tip: "sane s \<Longrightarrow> np_headers_tip (node s) = Inr (header_tip s)"
    and best_block: "sane s \<Longrightarrow> np_best_block (node s) = Inr (validated_tip s)"
    and block_tip: "sane s \<Longrightarrow> np_block_tip (node s) = Inr (disk_tip s)"
    and index_height: "sane s \<Longrightarrow> np_block_index_height (node s) h = Inr (height s h)"
begin

lemma status_answer:
  assumes "sane s" "rx_node ctx = node s"
  shows "\<exists>v. handle_getblockchaininfo X ctx = Inr v \<and>
    get_field ''headers'' v = Some (JInt (uint (tip_height (height s) (header_tip s)))) \<and>
    get_field ''blocks'' v = Some (JInt (uint (tip_height (height s) (validated_tip s)))) \<and>
    get_field ''disk_blocks'' v = Some (JInt (uint (tip_height (height s) (disk_tip s)))) \<and>
    get_field ''bestheaderhash'' v =
      Some (JString (hash_to_string X (case header_tip s of Some h \<Rightarrow> h | None \<Rightarrow> hash_ZERO))) \<and>
    get_field ''initialblockdownload'' v =
      Some (JBool (tip_height (height s) (validated_tip s) < tip_height (height s) (header_tip s)))"
    "handle_getblockcount ctx = Inr (JInt (uint (tip_height (height s) (disk_tip s))))"
  using assms by (simp_all add: handle_getblockchaininfo_def handle_getblockcount_def headers_tip best_block block_tip index_height
      internal_or_Inr Let_def tip_height_def)

end

text \<open>The orchestrator, as long as the records of its index and its tips can be read.\<close>

definition reports_readable :: "blockchain \<Rightarrow> bool" where
  "reports_readable bc \<longleftrightarrow>
     (\<exists>t. get_headers_tip (bc_db bc) = Inr t) \<and> (\<exists>t. rpc_get_best_block bc = Inr t) \<and> (\<exists>t. get_block_tip (bc_db bc) = Inr t) \<and>
     (\<forall>h. \<exists>i. get_block_index (bc_db bc) h = Inr i)"

interpretation node_rpc: rpc_backend "blockchain_node texts" reports_readable
  "\<lambda>bc. ok_flatten (get_headers_tip (bc_db bc))" "\<lambda>bc. ok_flatten (rpc_get_best_block bc)"
  "\<lambda>bc. ok_flatten (get_block_tip (bc_db bc))" "\<lambda>bc h. map_option bi_height (tree_of (bc_db bc) h)"
proof
  fix bc h
  assume "reports_readable bc"
  then obtain t1 t2 t3 i where "get_headers_tip (bc_db bc) = Inr t1" "rpc_get_best_block bc = Inr t2"
    "get_block_tip (bc_db bc) = Inr t3" "get_block_index (bc_db bc) h = Inr i"
    unfolding reports_readable_def by meson
  then show "np_headers_tip (blockchain_node texts bc) = Inr (ok_flatten (get_headers_tip (bc_db bc)))"
    "np_best_block (blockchain_node texts bc) = Inr (ok_flatten (rpc_get_best_block bc))"
    "np_block_tip (blockchain_node texts bc) = Inr (ok_flatten (get_block_tip (bc_db bc)))"
    "np_block_index_height (blockchain_node texts bc) h = Inr (map_option bi_height (tree_of (bc_db bc) h))"
    by (simp_all add: blockchain_node_def rpc_get_headers_tip_def rpc_get_block_tip_def rpc_get_block_index_height_def tree_of_def
        ok_flatten_def)
qed

subsection \<open>Blocks over RPC\<close>

text \<open>What \<^verbatim>\<open>getblock\<close> answers for a block the node has, addressed by the text of its hash.\<close>

lemma getblock_answer:
  assumes "hex_documented X" "wf_hash h" "np_block_raw (rx_node ctx) h = Inr (Some (serialize encode_block b))"
    and "rq_method req = ''getblock''" "rq_params req = Some [JString (hash_to_string X h), JInt verbosity]"
  shows "verbosity = 0 \<Longrightarrow> map_http_requests H X texts req ctx = Inr (JString (hex_text (serialize encode_block b)))"
    "verbosity = 1 \<Longrightarrow> wf_block b \<Longrightarrow> \<exists>v. map_http_requests H X texts req ctx = Inr v \<and>
       get_field ''hash'' v = Some (JString (hash_to_string X h)) \<and>
       get_field ''tx'' v = Some (JArray (map (\<lambda>tx. JString (hash_to_string X (txid H tx))) (transactions b))) \<and>
       get_field ''previousblockhash'' v = Some (JString (hash_to_string X (prev_hash (header b)))) \<and>
       (\<exists>s. get_field ''bits'' v = Some (JString s) \<and> length s = 8 \<and> digits_value 16 0 s = Some (unat (bh_bits (header b))))"
    "verbosity = 2 \<Longrightarrow> wf_block b \<Longrightarrow> \<exists>v. map_http_requests H X texts req ctx = Inr v \<and>
       get_field ''tx'' v = Some (JArray (map (transaction_to_json H X) (transactions b)))"
    "2 < verbosity \<Longrightarrow> verbosity < 2 ^ 64 \<Longrightarrow>
       map_http_requests H X texts req ctx = Inl (BadParams ''verbosity must be 0, 1, or 2'')"
proof -
  have params: "param_at (rq_params req) 0 = Some (JString (hash_to_string X h))" "param_at (rq_params req) 1 = Some (JInt verbosity)"
    by (simp_all add: assms(5) param_at_def)
  have parse: "parse_getblock X (rq_params req) = (if (2 :: u64) < word_of_int verbosity
      then Inl (BadParams ''verbosity must be 0, 1, or 2'') else Inr (h, ucast (word_of_int verbosity :: u64)))"
    if "0 \<le> verbosity" "verbosity < 2 ^ 64"
    using that unfolding parse_getblock_def params by (simp add: as_str_def as_u64_def hash_from_str_to_string [OF assms(1,2)])
  have dec: "decode_block (decoder_new (serialize encode_block b)) =
      Inr (b, advance (decoder_new (serialize encode_block b)) (length (serialize encode_block b)))" if "wf_block b"
    using block.dec_enc [of "decoder_new (serialize encode_block b)" b "[]"] that by (simp add: serialize_def)
  have fin: "finish (advance (decoder_new bs) (length bs)) l = Inr ()" for bs l by (simp add: finish_def is_done_def)
  note handle = dispatch(4) [OF assms(4)] handle_getblock_def assms(3) internal_ok_or_def decode_failed_def Let_def
  show "verbosity = 0 \<Longrightarrow> map_http_requests H X texts req ctx = Inr (JString (hex_text (serialize encode_block b)))"
    using assms(1) parse by (simp add: handle hex_documented_def)
  have bits: "unat (bh_bits (header b)) < 16 ^ 8" using unsigned_less [of "bh_bits (header b)", where ?'a = nat] by simp
  show "\<exists>v. map_http_requests H X texts req ctx = Inr v \<and>
       get_field ''hash'' v = Some (JString (hash_to_string X h)) \<and>
       get_field ''tx'' v = Some (JArray (map (\<lambda>tx. JString (hash_to_string X (txid H tx))) (transactions b))) \<and>
       get_field ''previousblockhash'' v = Some (JString (hash_to_string X (prev_hash (header b)))) \<and>
       (\<exists>s. get_field ''bits'' v = Some (JString s) \<and> length s = 8 \<and> digits_value 16 0 s = Some (unat (bh_bits (header b))))"
    if "verbosity = 1" "wf_block b"
    using that(1) parse padded_hex [OF bits] by (simp add: handle dec [OF that(2)] fin)
  show "\<exists>v. map_http_requests H X texts req ctx = Inr v \<and>
       get_field ''tx'' v = Some (JArray (map (transaction_to_json H X) (transactions b)))" if "verbosity = 2" "wf_block b"
    using that(1) parse by (simp add: handle dec [OF that(2)] fin)
  show "map_http_requests H X texts req ctx = Inl (BadParams ''verbosity must be 0, 1, or 2'')"
    if v: "2 < verbosity" "verbosity < 2 ^ 64"
  proof -
    have "(2 :: u64) < word_of_int verbosity" using v by (simp add: word_less_def uint_word_of_int_eq take_bit_int_eq_self)
    then show ?thesis using v parse by (simp add: dispatch(4) [OF assms(4)])
  qed
qed

text \<open>\<^verbatim>\<open>getblockhash\<close> keeps the low 32 bits of the height it is given.\<close>

lemma getblockhash_wraps:
  assumes "rq_method req = ''getblockhash''" "rq_params req = Some [JInt n]" "0 \<le> n" "n < 2 ^ 64"
  shows "map_http_requests H X texts req ctx = handle_getblockhash X (word_of_int n) ctx"
proof -
  have "ucast (word_of_int n :: u64) = (word_of_int n :: u32)" by (simp add: ucast_down_wi is_down)
  then show ?thesis
    using assms(2-4) by (simp add: dispatch(3) [OF assms(1)] parse_getblockhash_def param_at_def as_u64_def)
qed

end
