(* ===== verification/Listener.thy ===== *)
theory Listener
  imports Handshake Texts
begin

text \<open>
  Finding peers and being found: \<^verbatim>\<open>net/p2p/discovery.rs\<close> and the accept loop of \<^verbatim>\<open>net/p2p/network.rs\<close>.
  Name resolution is a parameter.  The accept loop runs beside the handshakes of the connections it accepted:
  \<open>accept_step\<close> is the interleaving of its two reads with theirs, on the counters involved.  The operations of
  \<^verbatim>\<open>connman.rs\<close> that need names or files are here too: the content of \<^verbatim>\<open>peers.dat\<close> is its snapshot.
\<close>

subsection \<open>Discovery\<close>

record peer_discovery =
  pd_network_id :: string
  pd_port :: u16
  pd_seeds :: "string list"

text \<open>\<open>resolve\<close> is \<^verbatim>\<open>to_socket_addrs\<close>: \<^term>\<open>None\<close> when a name does not resolve.\<close>

definition seed_host :: "peer_discovery \<Rightarrow> string \<Rightarrow> string" where
  "seed_host d seed = seed @ '':'' @ decimal (unat (pd_port d))"

definition seed_from_dns ::
  "addr_hasher \<Rightarrow> (string \<Rightarrow> socket_addr list option) \<Rightarrow> peer_discovery \<Rightarrow> peer_table \<Rightarrow> peer_table" where
  "seed_from_dns S resolve d pt =
     fold (\<lambda>seed pt.
       case resolve (seed_host d seed) of
         Some addrs \<Rightarrow> add_addresses S pt (map from_socket_addr addrs) \<lparr>sa_ip = V4 [0, 0, 0, 0], sa_port = 0\<rparr>
       | None \<Rightarrow> pt) (pd_seeds d) pt"

text \<open>One tick of the periodic task.\<close>

definition discovery_tick ::
  "addr_hasher \<Rightarrow> (string \<Rightarrow> socket_addr list option) \<Rightarrow> peer_discovery \<Rightarrow> peer_table \<Rightarrow> peer_table" where
  "discovery_tick S resolve d pt = (if get_peer_count pt < 100 then seed_from_dns S resolve d pt else pt)"

subsection \<open>Names and files of the connection manager\<close>

text \<open>\<open>file\<close> is the snapshot in \<^verbatim>\<open>peers.dat\<close> when it can be read; \<open>key\<close> the random key of a fresh table.\<close>

definition cm_with_data_dir ::
  "addr_hasher \<Rightarrow> bytes \<Rightarrow> (bytes \<times> persisted_addr_info list) option \<Rightarrow> 'c connman \<Rightarrow> 'c connman" where
  "cm_with_data_dir S key file cm =
     cm\<lparr>cm_addr_man := (case file of Some snapshot \<Rightarrow> am_load S snapshot | None \<Rightarrow> addr_man_new key)\<rparr>"

text \<open>What is written to \<^verbatim>\<open>peers.dat\<close>: nothing without a data directory.\<close>

definition cm_save_peers :: "bool \<Rightarrow> 'c connman \<Rightarrow> (bytes \<times> persisted_addr_info list) option" where
  "cm_save_peers has_data_dir cm = (if has_data_dir then Some (am_save (cm_addr_man cm)) else None)"

definition cm_seed_from_dns ::
  "addr_hasher \<Rightarrow> (string \<Rightarrow> socket_addr list option) \<Rightarrow> string list \<Rightarrow> u16 \<Rightarrow> 'c connman \<Rightarrow> 'c connman" where
  "cm_seed_from_dns S resolve seeds port cm =
     cm\<lparr>cm_addr_man := fold (\<lambda>seed am.
       case resolve (seed @ '':'' @ decimal (unat port)) of
         Some addrs \<Rightarrow> add_many S am addrs \<lparr>sa_ip = V4 [0, 0, 0, 0], sa_port = 0\<rparr>
       | None \<Rightarrow> am) seeds (cm_addr_man cm)\<rparr>"

text \<open>\<^verbatim>\<open>resolve\<close>: an address text, else the first address the name resolves to.\<close>

definition resolve_addr ::
  "(string \<Rightarrow> socket_addr option) \<Rightarrow> (string \<Rightarrow> socket_addr list option) \<Rightarrow> string \<Rightarrow> socket_addr p2p_result" where
  "resolve_addr parse resolve addr =
     (case parse addr of
        Some a \<Rightarrow> Inr a
      | None \<Rightarrow> (case resolve addr of Some (a # _) \<Rightarrow> Inr a | _ \<Rightarrow> Inl ConnectionFailed))"

definition cm_connect ::
  "addr_hasher \<Rightarrow> ('c, 'e) chain_interface \<Rightarrow> digests \<Rightarrow> moment \<Rightarrow> (string \<Rightarrow> socket_addr option) \<Rightarrow> (string \<Rightarrow> socket_addr list option) \<Rightarrow>
   (socket_addr \<Rightarrow> socket p2p_result) \<Rightarrow> string \<Rightarrow> connection_type \<Rightarrow> 'c connman \<Rightarrow> (node_handle p2p_result \<times> 'c connman) option" where
  "cm_connect S V H mo parse resolve tcp addr conn_type cm =
     (case resolve_addr parse resolve addr of
        Inl e \<Rightarrow> Some (Inl e, cm)
      | Inr socket_addr \<Rightarrow> connect_addr S V H mo tcp socket_addr conn_type cm)"

subsection \<open>Accepting connections\<close>

datatype accept_outcome = Slots_full | Banned_ip | Accepted

text \<open>What the loop does with a new stream once it has read the number of inbound peers.\<close>

definition accept_inbound :: "instant \<Rightarrow> socket_addr \<Rightarrow> nat \<Rightarrow> nat \<Rightarrow> 'c connman \<Rightarrow> accept_outcome \<times> nat \<times> 'c connman" where
  "accept_inbound now addr active_inbound pending cm =
     (let (reserved, pending) = try_reserve_inbound_slot pending active_inbound MAX_INBOUND_CONNECTIONS
      in if \<not> reserved then (Slots_full, pending, cm)
         else
           let (banned, cm) = cm_is_banned now (sa_ip addr) cm
           in if banned then (Banned_ip, pending - 1, cm) else (Accepted, pending, cm))"

text \<open>The task of an accepted stream.\<close>

definition serve_inbound ::
  "('c, 'e) chain_interface \<Rightarrow> digests \<Rightarrow> moment \<Rightarrow> socket \<Rightarrow> socket_addr \<Rightarrow> nat \<Rightarrow> 'c connman \<Rightarrow>
   (node_handle p2p_result \<times> nat \<times> 'c connman) option" where
  "serve_inbound V H mo so addr pending cm =
     (case handshake V H mo so addr True Inbound cm of
        None \<Rightarrow> None
      | Some (r, cm) \<Rightarrow> Some (r, pending - 1, cm))"

text \<open>The counters: inbound peers in the table, reserved slots, and how many of the reserved slots belong to
  handshakes that have entered the table and not yet released their slot; \<open>seen\<close> is the number of peers the
  loop has read for the stream it is deciding on.\<close>

record slots =
  active :: nat
  pending :: nat
  entered :: nat
  seen :: "nat option"

definition slots_init :: slots where
  "slots_init = \<lparr>active = 0, pending = 0, entered = 0, seen = None\<rparr>"

inductive accept_step :: "nat \<Rightarrow> slots \<Rightarrow> slots \<Rightarrow> bool" for limit :: nat where
  count: "seen s = None \<Longrightarrow> accept_step limit s (s\<lparr>seen := Some (active s)\<rparr>)"
| decide: "seen s = Some a \<Longrightarrow> try_reserve_inbound_slot (pending s) a limit = (reserved, p) \<Longrightarrow>
    accept_step limit s (s\<lparr>pending := p, seen := None\<rparr>)"
| refuse: "seen s = Some a \<Longrightarrow> try_reserve_inbound_slot (pending s) a limit = (True, p) \<Longrightarrow>
    accept_step limit s (s\<lparr>pending := p - 1, seen := None\<rparr>)"
| enter: "entered s < pending s \<Longrightarrow> accept_step limit s (s\<lparr>active := active s + 1, entered := entered s + 1\<rparr>)"
| release: "0 < entered s \<Longrightarrow> accept_step limit s (s\<lparr>pending := pending s - 1, entered := entered s - 1\<rparr>)"
| fail: "entered s < pending s \<Longrightarrow> accept_step limit s (s\<lparr>pending := pending s - 1\<rparr>)"
| leave: "0 < active s \<Longrightarrow> accept_step limit s (s\<lparr>active := active s - 1\<rparr>)"

inductive_cases accept_stepE: "accept_step limit s s'"

lemma accept_inbound_step:
  assumes "seen s = Some a" "accept_inbound now addr a (pending s) cm = (outcome, p, cm')"
  shows "accept_step MAX_INBOUND_CONNECTIONS s (s\<lparr>pending := p, seen := None\<rparr>)"
proof -
  obtain reserved q where r: "try_reserve_inbound_slot (pending s) a MAX_INBOUND_CONNECTIONS = (reserved, q)" by fastforce
  then have "p = q \<or> p = q - 1 \<and> reserved"
    using assms(2) by (auto simp: accept_inbound_def split: if_splits prod.splits)
  then show ?thesis
  proof (elim disjE conjE)
    assume "p = q"
    then show ?thesis using accept_step.decide [OF assms(1) r] by simp
  next
    assume "p = q - 1" "reserved"
    then show ?thesis using accept_step.refuse [OF assms(1)] r by simp
  qed
qed

text \<open>Connections that hold or are about to hold a place in the table.\<close>

definition claimed :: "slots \<Rightarrow> nat" where
  "claimed s = active s + (pending s - entered s)"

definition slots_ok :: "nat \<Rightarrow> slots \<Rightarrow> bool" where
  "slots_ok limit s \<longleftrightarrow>
     entered s \<le> pending s \<and> pending s \<le> limit \<and> claimed s \<le> 2 * limit \<and>
     (\<forall>a. seen s = Some a \<longrightarrow> claimed s \<le> a + limit)"

lemma accept_step_ok:
  assumes "accept_step limit s s'" "slots_ok limit s" "limit \<le> U64_MAX"
  shows "slots_ok limit s'"
  using assms
  by (elim accept_stepE) (auto simp: slots_ok_def claimed_def try_reserve_inbound_slot_def split: if_splits)

lemma accept_steps_ok: "(accept_step limit)\<^sup>*\<^sup>* slots_init s \<Longrightarrow> limit \<le> U64_MAX \<Longrightarrow> slots_ok limit s"
proof (induction rule: rtranclp_induct)
  case base
  show ?case by (simp add: slots_ok_def claimed_def slots_init_def)
next
  case (step s1 s2)
  then show ?case by (blast intro: accept_step_ok)
qed

text \<open>Without a registration between the two reads of the loop the limit itself holds: \<open>decide\<close> takes place in
  the state it counted.\<close>

lemma decide_in_place:
  assumes "claimed s \<le> limit" "entered s = 0" "seen s = None" "limit \<le> U64_MAX"
    and "accept_step limit s s1" "seen s1 = Some a" "accept_step limit s1 s2" "seen s2 = None"
  shows "claimed s2 \<le> limit"
  using assms
  by (elim accept_stepE) (auto simp: claimed_def try_reserve_inbound_slot_def split: if_splits)

subsection \<open>Seeds reach the address tables\<close>

lemma add_addresses_ok: "am_ok S (pt_addr_man pt) \<Longrightarrow> am_ok S (pt_addr_man (add_addresses S pt addresses source))"
  unfolding add_addresses_def
  by (simp, rule fold_invariant [where Q = "\<lambda>_. True"]) (simp_all add: am_add_ok)

text \<open>Seeding touches the address tables only, and keeps their invariant.\<close>

lemma seed_from_dns_ok:
  assumes "am_ok S (pt_addr_man pt)"
  shows "am_ok S (pt_addr_man (discovery_tick S resolve d pt)) \<and> pt_peers (discovery_tick S resolve d pt) = pt_peers pt"
proof -
  let ?P = "\<lambda>q. am_ok S (pt_addr_man q) \<and> pt_peers q = pt_peers pt"
  have "?P (add_addresses S q addresses source)" if "?P q" for q addresses source
    using that add_addresses_ok [of S q] by (simp add: add_addresses_def)
  then have "?P q \<Longrightarrow> ?P (case r of Some addrs \<Rightarrow> add_addresses S q (map from_socket_addr addrs) source | None \<Rightarrow> q)" for q r source
    by (cases r) simp_all
  then have "?P (seed_from_dns S resolve d pt)"
    unfolding seed_from_dns_def using assms by (intro fold_invariant [where Q = "\<lambda>_. True" and P = ?P]) blast+
  with assms show ?thesis by (simp add: discovery_tick_def)
qed

lemma cm_seed_from_dns_ok:
  assumes "am_ok S (cm_addr_man cm)"
  shows "am_ok S (cm_addr_man (cm_seed_from_dns S resolve seeds port cm))"
proof -
  have "am_ok S (case r of Some addrs \<Rightarrow> add_many S am addrs source | None \<Rightarrow> am)" if "am_ok S am" for r am source
    using that by (cases r) (simp_all add: add_many_ok)
  then show ?thesis
    using assms by (simp add: cm_seed_from_dns_def) (rule fold_invariant [where Q = "\<lambda>_. True" and P = "am_ok S"], auto)
qed

subsection \<open>How the limit is passed\<close>

lemma step_trans:
  "(accept_step limit)\<^sup>*\<^sup>* s s1 \<Longrightarrow> accept_step limit s1 s2 \<Longrightarrow> (accept_step limit)\<^sup>*\<^sup>* s s2"
  by (rule rtranclp.rtrancl_into_rtrancl)

lemma fill_slots:
  assumes "n \<le> limit" "limit \<le> U64_MAX"
  shows "(accept_step limit)\<^sup>*\<^sup>* slots_init \<lparr>active = 0, pending = n, entered = 0, seen = None\<rparr>"
  using assms(1)
proof (induction n)
  case 0
  show ?case by (simp add: slots_init_def)
next
  case (Suc n)
  let ?s = "\<lparr>active = 0, pending = n, entered = 0, seen = None\<rparr>"
  have "try_reserve_inbound_slot n 0 limit = (True, Suc n)" using Suc.prems assms(2) by (simp add: try_reserve_inbound_slot_def)
  then have "accept_step limit (?s\<lparr>seen := Some 0\<rparr>) (?s\<lparr>pending := Suc n\<rparr>)"
    using accept_step.decide [of "?s\<lparr>seen := Some 0\<rparr>" 0 limit True "Suc n"] by simp
  moreover have "accept_step limit ?s (?s\<lparr>seen := Some 0\<rparr>)" using accept_step.count [of ?s limit] by simp
  ultimately show ?case using Suc by (auto intro: step_trans)
qed

lemma drain_slots:
  "(accept_step limit)\<^sup>*\<^sup>* \<lparr>active = k, pending = n, entered = 0, seen = None\<rparr>
     \<lparr>active = k + n, pending = 0, entered = 0, seen = None\<rparr>"
proof (induction n arbitrary: k)
  case (Suc n)
  let ?s = "\<lparr>active = k, pending = Suc n, entered = 0, seen = None\<rparr>"
  have "accept_step limit ?s \<lparr>active = Suc k, pending = Suc n, entered = 1, seen = None\<rparr>"
    using accept_step.enter [of ?s limit] by simp
  moreover have "accept_step limit \<lparr>active = Suc k, pending = Suc n, entered = 1, seen = None\<rparr>
      \<lparr>active = Suc k, pending = n, entered = 0, seen = None\<rparr>"
    using accept_step.release [of "\<lparr>active = Suc k, pending = Suc n, entered = 1, seen = None\<rparr>" limit] by simp
  ultimately show ?case using Suc [of "Suc k"] by (auto intro: converse_rtranclp_into_rtranclp)
qed simp

lemma limit_passed:
  assumes "0 < limit" "limit \<le> U64_MAX"
  shows "\<exists>s. (accept_step limit)\<^sup>*\<^sup>* slots_init s \<and> active s = limit + 1 \<and> pending s = 0"
proof -
  let ?s = "\<lambda>a p e c. \<lparr>active = a, pending = p, entered = e, seen = c\<rparr>"
  have steps: "accept_step limit (?s 0 limit 0 None) (?s 0 limit 0 (Some 0))"
    "accept_step limit (?s 0 limit 0 (Some 0)) (?s 1 limit 1 (Some 0))"
    "accept_step limit (?s 1 limit 1 (Some 0)) (?s 1 (limit - 1) 0 (Some 0))"
    using accept_step.count [of "?s 0 limit 0 None" limit] accept_step.enter [of "?s 0 limit 0 (Some 0)" limit]
      accept_step.release [of "?s 1 limit 1 (Some 0)" limit] assms(1) by simp_all
  have "try_reserve_inbound_slot (limit - 1) 0 limit = (True, limit)" using assms by (simp add: try_reserve_inbound_slot_def)
  then have "accept_step limit (?s 1 (limit - 1) 0 (Some 0)) (?s 1 limit 0 None)"
    using accept_step.decide [of "?s 1 (limit - 1) 0 (Some 0)" 0 limit True limit] by simp
  with steps fill_slots [OF order_refl assms(2)] have "(accept_step limit)\<^sup>*\<^sup>* slots_init (?s 1 limit 0 None)"
    by (meson step_trans)
  also have "(accept_step limit)\<^sup>*\<^sup>* (?s 1 limit 0 None) (?s (1 + limit) 0 0 None)" by (rule drain_slots)
  finally show ?thesis by (intro exI [of _ "?s (1 + limit) 0 0 None"]) simp
qed

end
