(* ===== verification/Engines.thy ===== *)
theory Engines
  imports Storage
begin

text \<open>
  The two storage engines behind the trait \<^verbatim>\<open>StorageBackend\<close> of \<^verbatim>\<open>storage/api/mod.rs\<close>: the in-memory backend
  and \<^verbatim>\<open>storage/backend/rocksdb.rs\<close>.  RocksDB is a third-party crate: the record \<open>rocksdb\<close> of its functions
  is a parameter, and the locale \<open>rocksdb_engine\<close> states what its documentation promises: a read returns
  what was written, a batch is applied as a whole and in order or not at all.  A column family is its name;
  a snapshot is the database as it was.  Tuning options of the engine have no effect on contents.

  A write transaction is everything between \<^verbatim>\<open>begin_write\<close> and \<^verbatim>\<open>commit\<close>.  Both engines satisfy the
  contract \<open>storage_backend\<close>, so committed transactions read the same from either.
\<close>

subsection \<open>Tables\<close>

definition BLOCK_UNDO :: string where
  "BLOCK_UNDO = ''block_undo''"

definition TABLES :: "string list" where
  "TABLES = [BLOCK_INDEX, UTXOS, CHAIN_META, BLOCK_UNDO]"

subsection \<open>Transactions and what they mean\<close>

datatype tx_op =
    Tx_put string bytes bytes
  | Tx_put_batch string "(bytes \<times> bytes) list"
  | Tx_delete string bytes

type_synonym contents = "string \<Rightarrow> bytes \<rightharpoonup> bytes"

fun op_table :: "tx_op \<Rightarrow> string" where
  "op_table (Tx_put t key v) = t"
| "op_table (Tx_put_batch t batch) = t"
| "op_table (Tx_delete t key) = t"

fun op_effect :: "tx_op \<Rightarrow> contents \<Rightarrow> contents" where
  "op_effect (Tx_put t key v) c = c(t := (c t)(key \<mapsto> v))"
| "op_effect (Tx_put_batch t batch) c = c(t := c t ++ map_of (rev batch))"
| "op_effect (Tx_delete t key) c = c(t := (c t)(key := None))"

subsection \<open>The in-memory backend behind the trait\<close>

text \<open>Every operation of a transaction is applied at once; \<^verbatim>\<open>commit\<close> has nothing left to do.\<close>

fun mem_apply :: "tx_op \<Rightarrow> database \<Rightarrow> database" where
  "mem_apply (Tx_put t key v) db = db_put db t key v"
| "mem_apply (Tx_put_batch t batch) db = db_put_batch db t batch"
| "mem_apply (Tx_delete t key) db = db_delete db t key"

definition mem_get :: "database \<Rightarrow> string \<Rightarrow> bytes \<Rightarrow> bytes option store_result" where
  "mem_get db t key = Inr (db_get db t key)"

definition mem_transaction :: "tx_op list \<Rightarrow> database \<Rightarrow> unit store_result \<times> database" where
  "mem_transaction ops db = (Inr (), fold mem_apply ops db)"

definition mem_clear_table :: "string \<Rightarrow> database \<Rightarrow> unit store_result \<times> database" where
  "mem_clear_table t db = (Inr (), db_clear_table db t)"

text \<open>\<^verbatim>\<open>begin_locked\<close> keeps the database as it was.\<close>

definition mem_begin_locked :: "database \<Rightarrow> string \<Rightarrow> (bytes \<Rightarrow> bytes option store_result) store_result" where
  "mem_begin_locked db t = Inr (\<lambda>key. Inr (db_get db t key))"

definition mem_create_checkpoint :: "database \<Rightarrow> string \<Rightarrow> unit store_result" where
  "mem_create_checkpoint db path = Inr ()"

subsection \<open>The rocksdb crate\<close>

datatype batch_op = Put_cf string bytes bytes | Delete_cf string bytes

record ('d, 'p) rocksdb =
  rk_list_cf :: "'p \<Rightarrow> string + string list"
  rk_open :: "'p \<Rightarrow> string list \<Rightarrow> string + 'd"
  rk_has_cf :: "'d \<Rightarrow> string \<Rightarrow> bool"
  rk_get_cf :: "'d \<Rightarrow> string \<Rightarrow> bytes \<Rightarrow> string + bytes option"
  rk_write :: "'d \<Rightarrow> batch_op list \<Rightarrow> string + 'd"
  rk_iterator_cf :: "'d \<Rightarrow> string \<Rightarrow> (string + bytes \<times> bytes) list"
  rk_prefix_iterator_cf :: "'d \<Rightarrow> string \<Rightarrow> bytes \<Rightarrow> (string + bytes \<times> bytes) list"
  rk_checkpoint_new :: "'d \<Rightarrow> string + unit"
  rk_create_checkpoint :: "'d \<Rightarrow> string \<Rightarrow> string + unit"

subsection \<open>The RocksDB backend\<close>

text \<open>\<^verbatim>\<open>cf_handle(table).ok_or_else(..)\<close>.\<close>

definition cf_handle :: "('d, 'p) rocksdb \<Rightarrow> 'd \<Rightarrow> string \<Rightarrow> string store_result" where
  "cf_handle R d t = (if rk_has_cf R d t then Inr t else Inl (StoreMessage (''column family not found: '' @ t)))"

text \<open>\<^verbatim>\<open>open\<close>: the column families found on disk, or the default one, together with the tables of the schema;
  the set is listed without repetition.\<close>

definition column_families :: "('d, 'p) rocksdb \<Rightarrow> 'p \<Rightarrow> string list" where
  "column_families R path =
     (let existing = (case rk_list_cf R path of Inr cfs \<Rightarrow> cfs | Inl _ \<Rightarrow> [''default''])
      in remdups (existing @ TABLES))"

definition rocks_open :: "('d, 'p) rocksdb \<Rightarrow> 'p \<Rightarrow> 'd store_result" where
  "rocks_open R path =
     map_err (\<lambda>e. StoreMessage (''failed to open RocksDB: '' @ e)) (rk_open R path (column_families R path))"

definition rocks_get :: "('d, 'p) rocksdb \<Rightarrow> 'd \<Rightarrow> string \<Rightarrow> bytes \<Rightarrow> bytes option store_result" where
  "rocks_get R d t key =
     and_then (cf_handle R d t) (\<lambda>cf.
     map_err (\<lambda>e. StoreMessage (''get failed on '' @ t @ '': '' @ e)) (rk_get_cf R d cf key))"

definition rocks_prefix_iterator ::
  "('d, 'p) rocksdb \<Rightarrow> 'd \<Rightarrow> string \<Rightarrow> bytes \<Rightarrow> (bytes \<times> bytes) store_result list store_result" where
  "rocks_prefix_iterator R d t pre =
     and_then (cf_handle R d t) (\<lambda>cf.
     Inr (map (map_err (\<lambda>e. StoreMessage (''iteration failed: '' @ e))) (rk_prefix_iterator_cf R d cf pre)))"

text \<open>The write batch of a transaction.\<close>

definition rocks_put :: "('d, 'p) rocksdb \<Rightarrow> 'd \<Rightarrow> string \<Rightarrow> bytes \<Rightarrow> bytes \<Rightarrow> batch_op list \<Rightarrow> batch_op list store_result" where
  "rocks_put R d t key v batch = and_then (cf_handle R d t) (\<lambda>cf. Inr (batch @ [Put_cf cf key v]))"

definition rocks_put_batch ::
  "('d, 'p) rocksdb \<Rightarrow> 'd \<Rightarrow> string \<Rightarrow> (bytes \<times> bytes) list \<Rightarrow> batch_op list \<Rightarrow> batch_op list store_result" where
  "rocks_put_batch R d t entries batch =
     and_then (cf_handle R d t) (\<lambda>cf. Inr (batch @ map (\<lambda>(key, v). Put_cf cf key v) entries))"

definition rocks_delete :: "('d, 'p) rocksdb \<Rightarrow> 'd \<Rightarrow> string \<Rightarrow> bytes \<Rightarrow> batch_op list \<Rightarrow> batch_op list store_result" where
  "rocks_delete R d t key batch = and_then (cf_handle R d t) (\<lambda>cf. Inr (batch @ [Delete_cf cf key]))"

definition rocks_commit :: "('d, 'p) rocksdb \<Rightarrow> batch_op list \<Rightarrow> 'd \<Rightarrow> unit store_result \<times> 'd" where
  "rocks_commit R batch d =
     (case rk_write R d batch of
        Inl e \<Rightarrow> (Inl (StoreMessage (''commit failed: '' @ e)), d)
      | Inr d' \<Rightarrow> (Inr (), d'))"

fun rocks_op :: "('d, 'p) rocksdb \<Rightarrow> 'd \<Rightarrow> tx_op \<Rightarrow> batch_op list \<Rightarrow> batch_op list store_result" where
  "rocks_op R d (Tx_put t key v) batch = rocks_put R d t key v batch"
| "rocks_op R d (Tx_put_batch t entries) batch = rocks_put_batch R d t entries batch"
| "rocks_op R d (Tx_delete t key) batch = rocks_delete R d t key batch"

text \<open>A transaction whose operation fails is dropped without a commit.\<close>

fun rocks_batch :: "('d, 'p) rocksdb \<Rightarrow> 'd \<Rightarrow> tx_op list \<Rightarrow> batch_op list \<Rightarrow> batch_op list store_result" where
  "rocks_batch R d [] batch = Inr batch"
| "rocks_batch R d (op # ops) batch = and_then (rocks_op R d op batch) (rocks_batch R d ops)"

definition rocks_transaction :: "('d, 'p) rocksdb \<Rightarrow> tx_op list \<Rightarrow> 'd \<Rightarrow> unit store_result \<times> 'd" where
  "rocks_transaction R ops d =
     (case rocks_batch R d ops [] of
        Inl e \<Rightarrow> (Inl e, d)
      | Inr batch \<Rightarrow> rocks_commit R batch d)"

fun clear_batch :: "string \<Rightarrow> (string + bytes \<times> bytes) list \<Rightarrow> batch_op list store_result" where
  "clear_batch cf [] = Inr []"
| "clear_batch cf (Inl e # items) = Inl (StoreMessage e)"
| "clear_batch cf (Inr (key, v) # items) = and_then (clear_batch cf items) (\<lambda>batch. Inr (Delete_cf cf key # batch))"

definition rocks_clear_table :: "('d, 'p) rocksdb \<Rightarrow> string \<Rightarrow> 'd \<Rightarrow> unit store_result \<times> 'd" where
  "rocks_clear_table R t d =
     (case and_then (cf_handle R d t) (\<lambda>cf. clear_batch cf (rk_iterator_cf R d cf)) of
        Inl e \<Rightarrow> (Inl e, d)
      | Inr batch \<Rightarrow>
          (case rk_write R d batch of
             Inl e \<Rightarrow> (Inl (StoreMessage (''clear_table write failed: '' @ e)), d)
           | Inr d' \<Rightarrow> (Inr (), d')))"

definition rocks_begin_locked :: "('d, 'p) rocksdb \<Rightarrow> 'd \<Rightarrow> string \<Rightarrow> (bytes \<Rightarrow> bytes option store_result) store_result" where
  "rocks_begin_locked R d t =
     and_then (cf_handle R d t) (\<lambda>cf.
     Inr (\<lambda>key. map_err (\<lambda>e. StoreMessage (''locked get failed: '' @ e)) (rk_get_cf R d cf key)))"

definition rocks_create_checkpoint :: "('d, 'p) rocksdb \<Rightarrow> 'd \<Rightarrow> string \<Rightarrow> unit store_result" where
  "rocks_create_checkpoint R d path =
     and_then (map_err (\<lambda>e. StoreMessage (''checkpoint init failed: '' @ e)) (rk_checkpoint_new R d)) (\<lambda>_.
     map_err (\<lambda>e. StoreMessage (''checkpoint write failed at '' @ [CHR 0x22] @ path @ [CHR 0x22] @ '': '' @ e))
       (rk_create_checkpoint R d path))"

subsection \<open>The contract of a backend\<close>

text \<open>\<^verbatim>\<open>clear_table\<close> and transactions in sequence; \<^term>\<open>None\<close> once one of them reports an error.\<close>

datatype storage_step = Transaction "tx_op list" | Clear_table string

fun step_effect :: "storage_step \<Rightarrow> contents \<Rightarrow> contents" where
  "step_effect (Transaction ops) c = fold op_effect ops c"
| "step_effect (Clear_table t) c = c(t := Map.empty)"

definition succeeded :: "unit store_result \<times> 'd \<Rightarrow> 'd option" where
  "succeeded r = (case r of (Inr _, d) \<Rightarrow> Some d | (Inl _, _) \<Rightarrow> None)"

fun run_steps ::
  "(tx_op list \<Rightarrow> 'd \<Rightarrow> unit store_result \<times> 'd) \<Rightarrow> (string \<Rightarrow> 'd \<Rightarrow> unit store_result \<times> 'd) \<Rightarrow> storage_step list \<Rightarrow>
   'd \<Rightarrow> 'd option" where
  "run_steps transaction clear_table [] d = Some d"
| "run_steps transaction clear_table (Transaction ops # steps) d =
     Option.bind (succeeded (transaction ops d)) (run_steps transaction clear_table steps)"
| "run_steps transaction clear_table (Clear_table t # steps) d =
     Option.bind (succeeded (clear_table t d)) (run_steps transaction clear_table steps)"

lemma succeeded_simps [simp]: "succeeded (Inr u, d) = Some d" "succeeded (Inl e, d) = None"
  by (simp_all add: succeeded_def)

lemma succeeded_Some: "succeeded r = Some d \<longleftrightarrow> r = (Inr (), d)"
  by (auto simp: succeeded_def split: prod.splits sum.splits unit.splits)

locale storage_backend =
  fixes get :: "'d \<Rightarrow> string \<Rightarrow> bytes \<Rightarrow> bytes option store_result"
    and transaction :: "tx_op list \<Rightarrow> 'd \<Rightarrow> unit store_result \<times> 'd"
    and clear_table :: "string \<Rightarrow> 'd \<Rightarrow> unit store_result \<times> 'd"
    and begin_locked :: "'d \<Rightarrow> string \<Rightarrow> (bytes \<Rightarrow> bytes option store_result) store_result"
    and contents :: "'d \<Rightarrow> contents"
  assumes get_sound: "get d t key = Inr v \<Longrightarrow> v = contents d t key"
    and locked_sound: "begin_locked d t = Inr f \<Longrightarrow> f key = Inr v \<Longrightarrow> v = contents d t key"
    and transaction_applies: "transaction ops d = (Inr (), d') \<Longrightarrow> contents d' = fold op_effect ops (contents d)"
    and clear_applies: "clear_table t d = (Inr (), d') \<Longrightarrow> contents d' = (contents d)(t := Map.empty)"
    and transaction_atomic: "transaction ops d = (Inl e, d') \<Longrightarrow> contents d' = contents d"
    and clear_atomic: "clear_table t d = (Inl e, d') \<Longrightarrow> contents d' = contents d"
begin

lemma steps_contents:
  "run_steps transaction clear_table steps d = Some d' \<Longrightarrow> contents d' = fold step_effect steps (contents d)"
proof (induction steps arbitrary: d)
  case (Cons s steps)
  then obtain d1 where "contents d1 = step_effect s (contents d)" "run_steps transaction clear_table steps d1 = Some d'"
    by (cases s) (auto simp: bind_eq_Some_conv succeeded_Some dest: transaction_applies clear_applies)
  with Cons.IH show ?case by simp
qed simp

text \<open>Reads of the same data agree, whether live or from a snapshot.\<close>

lemma reads_agree:
  assumes "contents d = contents d'" "get d t key = Inr v" "begin_locked d' t = Inr f" "f key = Inr v'"
  shows "v = v'"
  using get_sound [OF assms(2)] locked_sound [OF assms(3,4)] assms(1) by simp

end

subsection \<open>The in-memory backend keeps the contract\<close>

definition mem_contents :: "database \<Rightarrow> contents" where
  "mem_contents db = (\<lambda>t. map_of (db t))"

lemma mem_apply_contents: "mem_contents (mem_apply op db) = op_effect op (mem_contents db)"
proof (rule ext)+
  fix t key
  show "mem_contents (mem_apply op db) t key = op_effect op (mem_contents db) t key"
    using db_get_put [of db] db_get_delete [of db] db_get_put_batch [of db]
    by (cases op) (simp_all add: mem_contents_def db_get_def)
qed

lemma mem_applies_contents: "mem_contents (fold mem_apply ops db) = fold op_effect ops (mem_contents db)"
  by (induction ops arbitrary: db) (simp_all add: mem_apply_contents)

interpretation in_memory: storage_backend mem_get mem_transaction mem_clear_table mem_begin_locked mem_contents
proof
  show "mem_contents d' = fold op_effect ops (mem_contents d)" if "mem_transaction ops d = (Inr (), d')" for ops d d'
    using that by (auto simp: mem_transaction_def mem_applies_contents)
qed (auto simp: mem_get_def mem_begin_locked_def mem_transaction_def mem_clear_table_def mem_contents_def db_get_def
    db_clear_table_def)

subsection \<open>The RocksDB backend keeps the contract\<close>

fun batch_effect :: "batch_op \<Rightarrow> contents \<Rightarrow> contents" where
  "batch_effect (Put_cf cf key v) c = c(cf := (c cf)(key \<mapsto> v))"
| "batch_effect (Delete_cf cf key) c = c(cf := (c cf)(key := None))"

text \<open>What the engine documents.  A write may fail, and then has no effect; an iterator lists a column family
  completely unless it reports an error.\<close>

locale rocksdb_engine =
  fixes R :: "('d, 'p) rocksdb"
    and stored :: "'d \<Rightarrow> contents"
  assumes get_cf: "rk_has_cf R d cf \<Longrightarrow> rk_get_cf R d cf key = Inr v \<Longrightarrow> v = stored d cf key"
    and write_all_or_nothing: "rk_write R d batch = Inr d' \<Longrightarrow> stored d' = fold batch_effect batch (stored d)"
    and iterator_cf: "rk_has_cf R d cf \<Longrightarrow> set (rk_iterator_cf R d cf) \<subseteq> range Inr \<Longrightarrow>
      Inr ` {(key, v). stored d cf key = Some v} \<subseteq> set (rk_iterator_cf R d cf)"
    and open_creates: "rk_open R path cfs = Inr d \<Longrightarrow> cf \<in> set cfs \<Longrightarrow> rk_has_cf R d cf"
    and write_keeps_families: "rk_write R d batch = Inr d' \<Longrightarrow> rk_has_cf R d' = rk_has_cf R d"
begin

lemma cf_handle_Inr: "cf_handle R d t = Inr cf \<longleftrightarrow> cf = t \<and> rk_has_cf R d t"
  by (auto simp: cf_handle_def)

text \<open>An opened database has every table of the schema, whatever was on disk; no step takes one away.\<close>

lemma opened_tables: "rocks_open R path = Inr d \<Longrightarrow> t \<in> set TABLES \<Longrightarrow> rk_has_cf R d t"
  by (cases "rk_open R path (column_families R path)") (auto simp: rocks_open_def column_families_def intro: open_creates)

lemma step_keeps_families:
  "rocks_transaction R ops d = (Inr (), d') \<Longrightarrow> rk_has_cf R d' = rk_has_cf R d"
  "rocks_clear_table R t d = (Inr (), d') \<Longrightarrow> rk_has_cf R d' = rk_has_cf R d"
  by (auto simp: rocks_transaction_def rocks_commit_def rocks_clear_table_def split: sum.splits dest: write_keeps_families)

lemma steps_keep_families:
  "run_steps (rocks_transaction R) (rocks_clear_table R) steps d = Some d' \<Longrightarrow> rk_has_cf R d' = rk_has_cf R d"
proof (induction steps arbitrary: d)
  case (Cons s steps)
  then obtain d1 where d1: "run_steps (rocks_transaction R) (rocks_clear_table R) steps d1 = Some d'"
    "rk_has_cf R d1 = rk_has_cf R d"
    by (cases s) (auto simp: bind_eq_Some_conv succeeded_Some dest: step_keeps_families)
  with Cons.IH show ?case by simp
qed simp

lemma known_tables_batch:
  "\<forall>op \<in> set ops. rk_has_cf R d (op_table op) \<Longrightarrow> \<exists>batch'. rocks_batch R d ops batch = Inr batch'"
proof (induction ops arbitrary: batch)
  case (Cons op ops)
  then have "\<exists>b. rocks_op R d op batch = Inr b"
    by (cases op) (simp_all add: rocks_put_def rocks_put_batch_def rocks_delete_def cf_handle_def)
  with Cons show ?case by auto
qed simp

text \<open>A transaction on tables the database has reaches the engine: only its write can fail.\<close>

lemma known_tables_error:
  assumes "\<forall>op \<in> set ops. rk_has_cf R d (op_table op)" "rocks_transaction R ops d = (Inl e, d')"
  shows "d' = d \<and> (\<exists>e'. e = StoreMessage (''commit failed: '' @ e'))"
proof -
  obtain batch where "rocks_batch R d ops [] = Inr batch" using known_tables_batch [OF assms(1)] by blast
  with assms(2) show ?thesis by (auto simp: rocks_transaction_def rocks_commit_def split: sum.splits)
qed

lemma put_entries_effect:
  "fold batch_effect (map (\<lambda>(key, v). Put_cf cf key v) entries) c = c(cf := c cf ++ map_of (rev entries))"
  by (induction entries arbitrary: c) (auto simp: fun_eq_iff map_add_def split: option.splits)

lemma rocks_op_effect:
  assumes "rocks_op R d op batch = Inr batch'"
  shows "fold batch_effect batch' c = op_effect op (fold batch_effect batch c)"
  using assms
  by (cases op) (auto simp: rocks_put_def rocks_put_batch_def rocks_delete_def and_then_eq_Inr cf_handle_Inr put_entries_effect)

lemma rocks_batch_effect:
  "rocks_batch R d ops batch = Inr batch' \<Longrightarrow> fold batch_effect batch' c = fold op_effect ops (fold batch_effect batch c)"
  by (induction ops arbitrary: batch) (auto simp: and_then_eq_Inr rocks_op_effect)

lemma clear_batch_Inr:
  "clear_batch cf items = Inr batch \<longleftrightarrow>
    set items \<subseteq> range Inr \<and> batch = map (\<lambda>r. case r of Inr (key, v) \<Rightarrow> Delete_cf cf key) items"
  by (induction cf items arbitrary: batch rule: clear_batch.induct) (auto simp: and_then_eq_Inr)

lemma deletes_effect:
  "fold batch_effect (map (Delete_cf cf) keys) c = c(cf := c cf |` (- set keys))"
  by (induction keys arbitrary: c) (auto simp: fun_eq_iff restrict_map_def)

lemma clear_effect:
  assumes "rk_has_cf R d cf" "clear_batch cf (rk_iterator_cf R d cf) = Inr batch"
  shows "fold batch_effect batch (stored d) = (stored d)(cf := Map.empty)"
proof -
  let ?items = "rk_iterator_cf R d cf"
  from assms(2) have all: "set ?items \<subseteq> range Inr" "batch = map (\<lambda>r. case r of Inr (key, v) \<Rightarrow> Delete_cf cf key) ?items"
    by (simp_all add: clear_batch_Inr)
  then have batch: "batch = map (Delete_cf cf) (map (\<lambda>r. fst (projr r)) ?items)" by (auto simp: list_all_iff split: sum.splits)
  have "stored d cf key = None" if "key \<notin> set (map (\<lambda>r. fst (projr r)) ?items)" for key
  proof (rule ccontr)
    assume "stored d cf key \<noteq> None"
    then obtain v where "stored d cf key = Some v" by blast
    then have "Inr (key, v) \<in> set ?items" using iterator_cf [OF assms(1) all(1)] by blast
    with that show False by (force simp: image_iff)
  qed
  then show ?thesis unfolding batch deletes_effect by (auto simp: fun_eq_iff restrict_map_def)
qed

end

sublocale rocksdb_engine \<subseteq> storage_backend "rocks_get R" "rocks_transaction R" "rocks_clear_table R" "rocks_begin_locked R" stored
proof
  show "v = stored d t key" if "rocks_get R d t key = Inr v" for d t key v
    using that get_cf by (cases "rk_get_cf R d t key") (auto simp: rocks_get_def and_then_eq_Inr cf_handle_Inr)
  show "v = stored d t key" if "rocks_begin_locked R d t = Inr f" "f key = Inr v" for d t f key v
    using that get_cf by (cases "rk_get_cf R d t key") (auto simp: rocks_begin_locked_def and_then_eq_Inr cf_handle_Inr)
  show "stored d' = fold op_effect ops (stored d)" if "rocks_transaction R ops d = (Inr (), d')" for ops d d'
    using that rocks_batch_effect [of d ops "[]"] write_all_or_nothing
    by (auto simp: rocks_transaction_def rocks_commit_def split: sum.splits)
  show "stored d' = (stored d)(t := Map.empty)" if "rocks_clear_table R t d = (Inr (), d')" for t d d'
    using that clear_effect [of d t] write_all_or_nothing
    by (auto simp: rocks_clear_table_def and_then_eq_Inr cf_handle_Inr split: sum.splits)
qed (auto simp: rocks_transaction_def rocks_commit_def rocks_clear_table_def split: sum.splits)

context rocksdb_engine
begin

lemma is_backend:
  "storage_backend (rocks_get R) (rocks_transaction R) (rocks_clear_table R) (rocks_begin_locked R) stored"
  by (rule storage_backend_axioms)

end

subsection \<open>An engine that does what is documented\<close>

type_synonym column_store = "(string \<times> table) list"

fun batch_apply :: "batch_op \<Rightarrow> column_store \<Rightarrow> column_store" where
  "batch_apply (Put_cf cf key v) d = AList.map_entry cf (AList.update key v) d"
| "batch_apply (Delete_cf cf key) d = AList.map_entry cf (AList.delete key) d"

fun batch_cf :: "batch_op \<Rightarrow> string" where
  "batch_cf (Put_cf cf key v) = cf"
| "batch_cf (Delete_cf cf key) = cf"

definition cf_table :: "column_store \<Rightarrow> string \<Rightarrow> table" where
  "cf_table d cf = (case map_of d cf of Some t \<Rightarrow> t | None \<Rightarrow> [])"

definition reference_rocksdb :: "(column_store, column_store) rocksdb" where
  "reference_rocksdb =
     \<lparr>rk_list_cf = (\<lambda>p. if p = [] then Inl ''no database'' else Inr (map fst p)),
      rk_open = (\<lambda>p cfs. Inr (map (\<lambda>cf. (cf, cf_table p cf)) cfs)),
      rk_has_cf = (\<lambda>d cf. map_of d cf \<noteq> None),
      rk_get_cf = (\<lambda>d cf key. Inr (map_of (cf_table d cf) key)),
      rk_write = (\<lambda>d batch. if list_all (\<lambda>op. map_of d (batch_cf op) \<noteq> None) batch then Inr (fold batch_apply batch d)
                            else Inl ''unknown column family''),
      rk_iterator_cf = (\<lambda>d cf. map Inr (sort_key fst (cf_table d cf))),
      rk_prefix_iterator_cf = (\<lambda>d cf pre. map Inr (filter (\<lambda>(key, _). pre \<le> key) (sort_key fst (cf_table d cf)))),
      rk_checkpoint_new = (\<lambda>_. Inr ()), rk_create_checkpoint = (\<lambda>_ _. Inr ())\<rparr>"

definition cf_contents :: "column_store \<Rightarrow> contents" where
  "cf_contents d = (\<lambda>cf. map_of (cf_table d cf))"

lemma batch_apply_contents:
  assumes "map_of d (batch_cf op) \<noteq> None"
  shows "cf_contents (batch_apply op d) = batch_effect op (cf_contents d)" "map_of (batch_apply op d) cf = None \<longleftrightarrow> map_of d cf = None"
  using assms
  by (cases op; auto simp: cf_contents_def cf_table_def fun_eq_iff map_of_map_entry update_conv' delete_conv' split: option.splits)+

lemma batch_applies_contents:
  "list_all (\<lambda>op. map_of d (batch_cf op) \<noteq> None) batch \<Longrightarrow>
    cf_contents (fold batch_apply batch d) = fold batch_effect batch (cf_contents d)"
proof (induction batch arbitrary: d)
  case (Cons op batch)
  then have "list_all (\<lambda>op. map_of (batch_apply op0 d) (batch_cf op) \<noteq> None) batch" if "op0 = op" for op0
    using batch_apply_contents(2) [of d op] that by (simp add: list_all_iff)
  with Cons batch_apply_contents(1) [of d op] show ?case by simp
qed simp

lemma batch_applies_families: "map_of (fold batch_apply batch d) cf = None \<longleftrightarrow> map_of d cf = None"
proof (induction batch arbitrary: d)
  case (Cons op batch)
  have "map_of (batch_apply op d) cf = None \<longleftrightarrow> map_of d cf = None" by (cases op) (simp_all add: map_of_map_entry split: option.splits)
  with Cons show ?case by simp
qed simp

interpretation reference: rocksdb_engine reference_rocksdb cf_contents
proof
  show "cf_contents d' = fold batch_effect batch (cf_contents d)" if "rk_write reference_rocksdb d batch = Inr d'" for d batch d'
    using that batch_applies_contents [of d batch] by (auto simp: reference_rocksdb_def split: if_splits)
  show "rk_has_cf reference_rocksdb d' = rk_has_cf reference_rocksdb d" if "rk_write reference_rocksdb d batch = Inr d'" for d batch d'
    using that by (auto simp: reference_rocksdb_def fun_eq_iff batch_applies_families simp del: not_None_eq split: if_splits)
qed (auto simp: reference_rocksdb_def cf_contents_def map_of_eq_None_iff image_image dest: map_of_SomeD)

end
