(* ===== verification/StoreHandle.thy ===== *)
theory StoreHandle
  imports Engines
begin

text \<open>
  The store as its clients hold it, \<^verbatim>\<open>storage/store.rs\<close>: opening over what a data directory holds, and the
  methods that send a message to the write worker and await its answer.  The worker is alive until its task
  ends; after that writes are refused and reads still work.  A client that awaits each answer is one step of
  the worker, the messages of several clients are one queue of \<open>run_messages\<close>.
\<close>

subsection \<open>Opening\<close>

datatype engine_type = InMemory | RocksDB

text \<open>What is on disk: the tables and the two file sequences.\<close>

record data_dir =
  dd_database :: database
  dd_blocks :: "u32 \<rightharpoonup> bytes"
  dd_undo :: "u32 \<rightharpoonup> bytes"

record store =
  st_manager :: block_manager
  st_alive :: bool

definition recover_last_file :: "database \<Rightarrow> u32 store_result" where
  "recover_last_file db =
     (case db_get db CHAIN_META [KEY_LAST_FILE] of
        None \<Rightarrow> Inr 0
      | Some b \<Rightarrow> if length b < 4 then Inl SlicePanic else Inr (of_le (take 4 b)))"

definition store_new :: "data_dir \<Rightarrow> engine_type \<Rightarrow> magic \<Rightarrow> store store_result" where
  "store_new dir engine magic =
     (let db = (case engine of InMemory \<Rightarrow> database_empty | RocksDB \<Rightarrow> dd_database dir) in
      and_then (recover_last_file db) (\<lambda>last_file.
      let files = block_file_manager_new (dd_blocks dir) (dd_undo dir) magic last_file;
          worker = block_manager_new db files
      in Inr \<lparr>st_manager = worker\<lparr>bm_last_known_tip_height := initial_tip_height db\<rparr>, st_alive = True\<rparr>))"

definition store_in_memory :: "magic \<Rightarrow> store store_result" where
  "store_in_memory magic =
     store_new \<lparr>dd_database = database_empty, dd_blocks = Map.empty, dd_undo = Map.empty\<rparr> InMemory magic"

text \<open>What a stopped process leaves behind.\<close>

definition left_on_disk :: "block_manager \<Rightarrow> data_dir" where
  "left_on_disk m =
     \<lparr>dd_database = bm_backend m, dd_blocks = ffs_files (bfm_blocks (bm_files m)), dd_undo = ffs_files (bfm_undo (bm_files m))\<rparr>"

subsection \<open>Messages to the worker\<close>

text \<open>Sending and awaiting: \<open>closed\<close> is the text of a closed channel, which for four of the methods is that of the
  channel itself.\<close>

abbreviation worker_dead :: string where
  "worker_dead \<equiv> ''storage worker dead''"

abbreviation channel_closed :: string where
  "channel_closed \<equiv> ''channel closed''"

definition await_unit :: "string \<Rightarrow> digests \<Rightarrow> store \<Rightarrow> write_message \<Rightarrow> unit store_result \<times> store" where
  "await_unit closed H st msg =
     (if \<not> st_alive st then (Inl (StoreMessage closed), st)
      else case run_messages H (st_manager st) [msg] of
             (UnitReply r # _, m) \<Rightarrow> (r, st\<lparr>st_manager := m\<rparr>)
           | (_, m) \<Rightarrow> (Inl (StoreMessage ''storage worker dropped response''), st\<lparr>st_manager := m\<rparr>))"

definition await_pos :: "string \<Rightarrow> digests \<Rightarrow> store \<Rightarrow> write_message \<Rightarrow> flat_file_pos store_result \<times> store" where
  "await_pos closed H st msg =
     (if \<not> st_alive st then (Inl (StoreMessage closed), st)
      else case run_messages H (st_manager st) [msg] of
             (PosReply r # _, m) \<Rightarrow> (r, st\<lparr>st_manager := m\<rparr>)
           | (_, m) \<Rightarrow> (Inl (StoreMessage ''storage worker dropped response''), st\<lparr>st_manager := m\<rparr>))"

definition store_header :: "digests \<Rightarrow> store \<Rightarrow> block_header \<Rightarrow> u32 \<Rightarrow> hash \<Rightarrow> bool \<Rightarrow> unit store_result \<times> store" where
  "store_header H st hdr height work is_best = await_unit channel_closed H st (StoreHeader hdr height work is_best)"

definition store_block_index :: "digests \<Rightarrow> store \<Rightarrow> hash \<Rightarrow> block_index \<Rightarrow> unit store_result \<times> store" where
  "store_block_index H st h index = await_unit channel_closed H st (StoreBlockIndex h index)"

definition store_block_indexes ::
  "digests \<Rightarrow> store \<Rightarrow> (hash \<times> block_index) list \<Rightarrow> hash option \<Rightarrow> unit store_result \<times> store" where
  "store_block_indexes H st indexes best_tip = await_unit worker_dead H st (StoreBlockIndexes indexes best_tip)"

definition store_update_headers_tip :: "digests \<Rightarrow> store \<Rightarrow> hash \<Rightarrow> unit store_result \<times> store" where
  "store_update_headers_tip H st h = await_unit channel_closed H st (UpdateHeadersTip h)"

definition store_header_index_only :: "digests \<Rightarrow> store \<Rightarrow> hash \<Rightarrow> u32 \<Rightarrow> unit store_result \<times> store" where
  "store_header_index_only H st h height = await_unit worker_dead H st (UpdateHeaderIndex h height)"

definition update_active_tip :: "digests \<Rightarrow> store \<Rightarrow> hash \<Rightarrow> unit store_result \<times> store" where
  "update_active_tip H st h = await_unit worker_dead H st (UpdateActiveTip h)"

definition delete_block :: "digests \<Rightarrow> store \<Rightarrow> hash \<Rightarrow> unit store_result \<times> store" where
  "delete_block H st h = await_unit worker_dead H st (DeleteBlock h)"

definition delete_height_mapping :: "digests \<Rightarrow> store \<Rightarrow> u32 \<Rightarrow> unit store_result \<times> store" where
  "delete_height_mapping H st height = await_unit worker_dead H st (DeleteHeightMapping height)"

definition update_utxos ::
  "digests \<Rightarrow> store \<Rightarrow> (out_point \<times> coin_update) list \<Rightarrow> hash option \<Rightarrow> (u32 \<times> hash) list \<Rightarrow> unit store_result \<times> store" where
  "update_utxos H st coins best_block connected_blocks =
     await_unit worker_dead H st (UpdateUtxoSet coins best_block connected_blocks)"

definition store_block ::
  "digests \<Rightarrow> store \<Rightarrow> block_header \<Rightarrow> u32 \<Rightarrow> hash \<Rightarrow> bytes \<Rightarrow> flat_file_pos store_result \<times> store" where
  "store_block H st hdr height work raw_block = await_pos worker_dead H st (StoreBlock hdr height work raw_block)"

definition store_undo :: "digests \<Rightarrow> store \<Rightarrow> hash \<Rightarrow> block_undo \<Rightarrow> unit store_result \<times> store" where
  "store_undo H st h undo_data = await_unit worker_dead H st (StoreUndo h undo_data)"

definition store_flush :: "digests \<Rightarrow> store \<Rightarrow> unit store_result \<times> store" where
  "store_flush H st = await_unit worker_dead H st Flush"

text \<open>Reads go to the backend and the files, past the worker.\<close>

definition st_get_block :: "store \<Rightarrow> hash \<Rightarrow> bytes option store_result" where
  "st_get_block st h = get_block (bm_backend (st_manager st)) (bm_files (st_manager st)) h"

lemmas store_methods = store_header_def store_block_index_def store_block_indexes_def store_update_headers_tip_def
  store_header_index_only_def update_active_tip_def delete_block_def delete_height_mapping_def update_utxos_def store_undo_def
  store_flush_def store_block_def

subsection \<open>One client\<close>

definition is_store_block :: "write_message \<Rightarrow> bool" where
  "is_store_block msg \<longleftrightarrow> (case msg of StoreBlock _ _ _ _ \<Rightarrow> True | _ \<Rightarrow> False)"

lemma is_store_block_simp: "is_store_block (StoreBlock hdr height work raw)"
  by (simp add: is_store_block_def)

lemma run_one_other:
  assumes "\<not> is_store_block msg"
  shows "run_messages H m [msg] = (let (reply, m') = handle_other H m msg in ([reply], m'))"
  using assms by (cases msg) (simp_all add: run_messages.simps is_store_block_def split: prod.splits)

lemma run_one_block:
  "run_messages H m [StoreBlock hdr height work raw] =
     (case handle_store_blocks H m [(hdr, height, work, raw)] of
        Inl e \<Rightarrow> ([PosReply (Inl e)], m)
      | Inr (positions, m') \<Rightarrow> (map (\<lambda>pos. PosReply (Inr pos)) positions, m'))"
  by (simp add: run_messages.simps split: sum.splits prod.splits)

lemma handle_other_unit: "\<exists>r. fst (handle_other H m msg) = UnitReply r"
  by (cases msg) (auto simp: handle_other_def split: sum.splits)

text \<open>An awaited method is the handler of its message.\<close>

lemma await_unit_handler:
  assumes "st_alive st" "\<not> is_store_block msg"
  shows "await_unit closed H st msg =
    (case handle_other H (st_manager st) msg of (UnitReply r, m) \<Rightarrow> (r, st\<lparr>st_manager := m\<rparr>)
     | (PosReply r, m) \<Rightarrow> (Inl (StoreMessage ''storage worker dropped response''), st\<lparr>st_manager := m\<rparr>))"
  using assms by (simp add: await_unit_def run_one_other Let_def split: prod.splits reply.splits)

lemma store_methods_alive:
  assumes "st_alive st"
  shows "store_block_index H st h index = (Inr (), st\<lparr>st_manager := handle_store_block_index (st_manager st) h index\<rparr>)"
    "store_block_indexes H st indexes best_tip =
       (Inr (), st\<lparr>st_manager := handle_store_block_indexes (st_manager st) indexes best_tip\<rparr>)"
    "store_update_headers_tip H st h = (Inr (), st\<lparr>st_manager := handle_update_headers_tip (st_manager st) h\<rparr>)"
    "store_header_index_only H st h height = (Inr (), st\<lparr>st_manager := handle_update_header_index (st_manager st) h height\<rparr>)"
    "update_active_tip H st h = (Inr (), st\<lparr>st_manager := handle_update_active_tip (st_manager st) h\<rparr>)"
    "update_utxos H st coins best connected = (Inr (), st\<lparr>st_manager := handle_update_utxo_set (st_manager st) coins best connected\<rparr>)"
    "delete_block H st h = (Inr (), st\<lparr>st_manager := handle_delete_block (st_manager st) h\<rparr>)"
    "store_undo H st h u = (case handle_store_undo (st_manager st) h u of
       Inl e \<Rightarrow> (Inl e, st) | Inr m \<Rightarrow> (Inr (), st\<lparr>st_manager := m\<rparr>))"
  using assms by (simp_all add: store_methods await_unit_handler is_store_block_def handle_other_def split: sum.splits)

lemma store_methods_dead:
  assumes "\<not> st_alive st"
  shows "await_unit closed H st msg = (Inl (StoreMessage closed), st)" "await_pos closed H st msg = (Inl (StoreMessage closed), st)"
  using assms by (simp_all add: await_unit_def await_pos_def)

subsection \<open>Several clients\<close>

lemma collect_batch_split:
  "\<exists>front. msgs = front @ snd (collect_batch n msgs) \<and> length front = length (fst (collect_batch n msgs)) \<and>
    list_all is_store_block front"
proof (induction n msgs rule: collect_batch.induct)
  case (1 n hdr height work raw msgs)
  then obtain front where "msgs = front @ snd (collect_batch n msgs)" "length front = length (fst (collect_batch n msgs))"
    "list_all is_store_block front" by blast
  then show ?case
    by (intro exI [of _ "StoreBlock hdr height work raw # front"]) (auto simp: is_store_block_simp split: prod.splits)
qed simp_all

definition is_pos_reply :: "reply \<Rightarrow> bool" where
  "is_pos_reply r \<longleftrightarrow> (case r of PosReply _ \<Rightarrow> True | UnitReply _ \<Rightarrow> False)"

lemma is_pos_reply_simps: "is_pos_reply (PosReply p)" "\<not> is_pos_reply (UnitReply r)"
  by (simp_all add: is_pos_reply_def)

lemma write_all_length: "write_all m ds = Inr (positions, m') \<Longrightarrow> length positions = length ds"
  by (induction m ds arbitrary: positions m' rule: write_all.induct) (auto simp: and_then_eq_Inr)

lemma store_blocks_length: "handle_store_blocks H m blocks = Inr (positions, m') \<Longrightarrow> length positions = length blocks"
  by (auto simp: handle_store_blocks_def and_then_eq_Inr Let_def dest!: write_all_length)

text \<open>Whatever the queue holds, every message is answered, in the order of the queue and with its kind of answer.\<close>

lemma run_messages_answers: "map is_pos_reply (fst (run_messages H m msgs)) = map is_store_block msgs"
proof (induction msgs arbitrary: m rule: length_induct)
  case (1 msgs)
  show ?case
  proof (cases msgs)
    case Nil
    then show ?thesis by (simp add: run_messages.simps)
  next
    case (Cons msg rest)
    show ?thesis
    proof (cases "is_store_block msg")
      case False
      obtain r m' where "handle_other H m msg = (UnitReply r, m')" using handle_other_unit [of H m msg] by (metis prod.collapse)
      then have "run_messages H m msgs = (let (more, m) = run_messages H m' rest in (UnitReply r # more, m))"
        using False Cons by (cases msg) (simp_all add: run_messages.simps(2) is_store_block_def)
      moreover have "map is_pos_reply (fst (run_messages H m' rest)) = map is_store_block rest" using "1.IH" Cons by simp
      ultimately show ?thesis using Cons False by (simp add: is_pos_reply_simps split: prod.splits)
    next
      case True
      then obtain hdr height work raw where msg: "msg = StoreBlock hdr height work raw"
        by (auto simp: is_store_block_def split: write_message.splits)
      obtain blocks rest' where batch: "collect_batch 63 rest = (blocks, rest')" by fastforce
      then obtain front where front: "rest = front @ rest'" "length front = length blocks" "list_all is_store_block front"
        using collect_batch_split [of rest 63] by auto
      let ?bs = "(hdr, height, work, raw) # blocks"
      obtain replies m' where r: "(case handle_store_blocks H m ?bs of
            Inl e \<Rightarrow> (map (\<lambda>_. PosReply (Inl e)) ?bs, m)
          | Inr (positions, m') \<Rightarrow> (map (\<lambda>pos. PosReply (Inr pos)) positions, m')) = (replies, m')" by fastforce
      then have "length replies = length ?bs" "\<forall>r \<in> set replies. is_pos_reply r"
        by (auto simp: is_pos_reply_simps dest!: store_blocks_length split: sum.splits)
      then have "map is_pos_reply replies = map (\<lambda>_. True) replies" "length replies = length ?bs" by simp_all
      then have "map is_pos_reply replies = replicate (length ?bs) True" by (simp only: map_replicate_const)
      moreover have "map is_store_block front = map (\<lambda>_. True) front" using front(3) by (simp add: list_all_iff)
      then have "map is_store_block (msg # front) = replicate (length ?bs) True"
        using front(2) by (simp add: msg is_store_block_simp map_replicate_const)
      moreover have "run_messages H m msgs = (let (more, m) = run_messages H m' rest' in (replies @ more, m))"
        using r by (simp add: Cons msg run_messages.simps(2) batch)
      moreover have "map is_pos_reply (fst (run_messages H m' rest')) = map is_store_block rest'" using "1.IH" Cons front(1) by simp
      ultimately show ?thesis using Cons front(1) by (simp split: prod.splits)
    qed
  qed
qed

end
