(* ===== verification/Restart.thy ===== *)
theory Restart
  imports StoreHandle
begin

text \<open>
  Stopping and starting again.  The write worker records the number of the current block file with every
  batch, and opening the store resumes behind everything that file holds.  \<open>disk_ok\<close> is what makes this
  work; every message keeps it, and a store opened over what a process left serves the same blocks.
\<close>

subsection \<open>Lengths of the current block file\<close>

definition files_ok :: "block_file_manager \<Rightarrow> bool" where
  "files_ok m \<longleftrightarrow>
     bfm_ok m \<and> ffs_chunk_size (bfm_blocks m) = BLOCK_FILE_CHUNK \<and>
     (\<forall>n > bfm_current_file m. ffs_files (bfm_blocks m) n = None) \<and>
     (\<forall>c. ffs_files (bfm_blocks m) (bfm_current_file m) = Some c \<longrightarrow>
        bfm_current_size m \<le> length c \<and> length c \<le> MAX_BLOCK_FILE_SIZE + BLOCK_FILE_CHUNK)"

lemma preallocate_length:
  assumes "0 < chunk"
  shows "n \<le> length (preallocate chunk c n)" "length (preallocate chunk c n) \<le> max (length c) (n + chunk)"
    "length c \<le> length (preallocate chunk c n)"
proof -
  define b where "b = (n div chunk + 1) * chunk"
  have "n < b" unfolding b_def using assms by (metis Suc_eq_plus1 dividend_less_div_times mult.commute mult_Suc)
  moreover have "b \<le> n + chunk" by (simp add: b_def)
  moreover have "length (preallocate chunk c n) = (if n \<ge> length c then b else length c)"
    using \<open>n < b\<close> unfolding preallocate_def Let_def b_def [symmetric] by (auto simp: length_file_write)
  ultimately show "n \<le> length (preallocate chunk c n)" "length (preallocate chunk c n) \<le> max (length c) (n + chunk)"
    "length c \<le> length (preallocate chunk c n)"
    by (auto split: if_splits)
qed

lemma append_block_length:
  assumes "append_block m d = (pos, m')" "length (bfm_magic m) = 4" "ffs_chunk_size (bfm_blocks m) = BLOCK_FILE_CHUNK"
    and "bfm_current_size m + (8 + length d) \<le> MAX_BLOCK_FILE_SIZE"
    and "\<forall>c. ffs_files (bfm_blocks m) (bfm_current_file m) = Some c \<longrightarrow> length c \<le> MAX_BLOCK_FILE_SIZE + BLOCK_FILE_CHUNK"
  shows "\<exists>c. ffs_files (bfm_blocks m') (bfm_current_file m') = Some c \<and> bfm_current_size m' \<le> length c \<and>
    length c \<le> MAX_BLOCK_FILE_SIZE + BLOCK_FILE_CHUNK"
proof -
  let ?n = "bfm_current_size m + (8 + length d)"
  let ?o = "open_for_write (bfm_blocks m) (bfm_current_file m) ?n"
  have chunk: "0 < BLOCK_FILE_CHUNK" by (simp add: BLOCK_FILE_CHUNK_def)
  define c0 where "c0 = (case ffs_files (bfm_blocks m) (bfm_current_file m) of None \<Rightarrow> [] | Some content \<Rightarrow> content)"
  have "length c0 \<le> MAX_BLOCK_FILE_SIZE + BLOCK_FILE_CHUNK" using assms(5) by (simp add: c0_def split: option.splits)
  then have o: "?n \<le> length ?o" "length ?o \<le> MAX_BLOCK_FILE_SIZE + BLOCK_FILE_CHUNK"
    using preallocate_length [OF chunk, where n = ?n and c = c0] assms(3,4) by (simp_all add: open_for_write_def c0_def [symmetric])
  then have "length (write_record (bfm_magic m) ?o (bfm_current_size m) d) = length ?o"
    using assms(2) by (simp add: write_record_def Let_def length_file_write encode_u32_flat encode_magic_def encode_array_def push_bytes_def)
  with o assms(1) show ?thesis by (auto simp: append_block_def Let_def)
qed

lemma write_block_files_ok:
  assumes "files_ok m" "8 + length d \<le> MAX_BLOCK_FILE_SIZE" "bfm_current_file m \<noteq> 0xFFFFFFFF" "write_block m d = Inr (pos, m')"
  shows "files_ok m'"
proof -
  let ?full = "bfm_current_size m + (8 + length d) > MAX_BLOCK_FILE_SIZE \<and> bfm_current_size m > 0"
  define c where "c = the (ffs_files (bfm_blocks m) (bfm_current_file m))"
  define m1 where "m1 = (if ?full then rotate_file m c else m)"
  have ok: "bfm_ok m" using assms(1) by (simp add: files_ok_def)
  have app: "append_block m1 d = (pos, m')"
    using write_block_append [OF ok, of d] assms(4) by (auto simp: m1_def c_def split: if_splits)
  have next_file: "bfm_current_file m < bfm_current_file m + 1" using assms(3) by (simp add: word_less_nat_alt unat_u32_Suc)
  then have beyond: "\<forall>n > bfm_current_file m1. ffs_files (bfm_blocks m1) n = None"
    using assms(1) by (auto simp: files_ok_def m1_def rotate_file_def dest: order.strict_trans)
  have m1: "ffs_chunk_size (bfm_blocks m1) = BLOCK_FILE_CHUNK" "length (bfm_magic m1) = 4"
    "\<forall>c. ffs_files (bfm_blocks m1) (bfm_current_file m1) = Some c \<longrightarrow> length c \<le> MAX_BLOCK_FILE_SIZE + BLOCK_FILE_CHUNK"
    "bfm_current_size m1 + (8 + length d) \<le> MAX_BLOCK_FILE_SIZE"
    using assms(1,2) next_file by (auto simp: files_ok_def m1_def rotate_file_def bfm_ok_def)
  have "bfm_ok m'" using write_block_correct [OF ok assms(2,3)] assms(4) by auto
  moreover have "ffs_chunk_size (bfm_blocks m') = BLOCK_FILE_CHUNK" "bfm_current_file m' = bfm_current_file m1"
    "\<forall>n > bfm_current_file m1. ffs_files (bfm_blocks m') n = None"
    using app m1(1) beyond by (auto simp: append_block_def Let_def)
  ultimately show ?thesis using append_block_length [OF app m1(2,1,4,3)] by (auto simp: files_ok_def)
qed

lemma write_all_files_ok:
  "files_ok m \<Longrightarrow> \<forall>d \<in> set ds. 8 + length d \<le> MAX_BLOCK_FILE_SIZE \<Longrightarrow> unat (bfm_current_file m) + length ds < 2 ^ 32 \<Longrightarrow>
    write_all m ds = Inr (positions, m') \<Longrightarrow> files_ok m'"
proof (induction ds arbitrary: m positions)
  case (Cons d ds)
  then obtain pos m1 ps where w: "write_block m d = Inr (pos, m1)" "write_all m1 ds = Inr (ps, m')" by (auto simp: and_then_eq_Inr)
  have cur: "bfm_current_file m \<noteq> 0xFFFFFFFF" using Cons.prems(3) by auto
  have "unat (bfm_current_file m1) \<le> Suc (unat (bfm_current_file m))"
    using write_block_correct [of m d] Cons.prems(1,2) cur w(1) by (auto simp: files_ok_def)
  with Cons.IH [OF write_block_files_ok [OF Cons.prems(1) _ cur w(1)] _ _ w(2)] Cons.prems(2,3) show ?case by simp
qed simp

subsection \<open>What the worker keeps on disk\<close>

definition disk_ok :: "block_manager \<Rightarrow> bool" where
  "disk_ok m \<longleftrightarrow> files_ok (bm_files m) \<and>
     (case db_get (bm_backend m) CHAIN_META [KEY_LAST_FILE] of
        Some b \<Rightarrow> b = to_le 4 (bfm_current_file (bm_files m))
      | None \<Rightarrow> bfm_current_file (bm_files m) = 0)"

lemma store_blocks_disk_ok:
  assumes "disk_ok m" "\<forall>(hdr, height, work, raw) \<in> set blocks. 8 + length raw \<le> MAX_BLOCK_FILE_SIZE"
    and "unat (bfm_current_file (bm_files m)) + length blocks < 2 ^ 32" "handle_store_blocks H m blocks = Inr (positions, m')"
  shows "disk_ok m'"
proof -
  let ?raws = "map (\<lambda>(_, _, _, raw). raw) blocks"
  obtain files where w: "write_all (bm_files m) ?raws = Inr (positions, files)" "bm_files m' = files"
    "db_get (bm_backend m') CHAIN_META [KEY_LAST_FILE] = Some (to_le 4 (bfm_current_file files))"
    using assms(4) by (auto simp: handle_store_blocks_def and_then_eq_Inr Let_def table_defs split: option.splits)
  have "\<forall>d \<in> set ?raws. 8 + length d \<le> MAX_BLOCK_FILE_SIZE" using assms(2) by auto
  with write_all_files_ok [OF _ this _ w(1)] assms(1,3) w(2,3) show ?thesis by (simp add: disk_ok_def)
qed

text \<open>A store opened over what a process left has its tables, resumes at its file, and holds its records.\<close>

lemma reopen:
  assumes "disk_ok m"
  shows "\<exists>st. store_new (left_on_disk m) RocksDB (bfm_magic (bm_files m)) = Inr st \<and> st_alive st \<and>
    bm_backend (st_manager st) = bm_backend m \<and> disk_ok (st_manager st) \<and>
    bfm_current_file (bm_files (st_manager st)) = bfm_current_file (bm_files m) \<and>
    bfm_magic (bm_files (st_manager st)) = bfm_magic (bm_files m) \<and>
    (\<forall>pos d. stored (bm_files m) pos d \<longrightarrow> stored (bm_files (st_manager st)) pos d)"
proof -
  let ?fm = "bm_files m"
  have rec: "recover_last_file (bm_backend m) = Inr (bfm_current_file ?fm)"
    using assms by (auto simp: disk_ok_def recover_last_file_def split: option.splits)
  let ?files = "block_file_manager_new (ffs_files (bfm_blocks ?fm)) (ffs_files (bfm_undo ?fm)) (bfm_magic ?fm) (bfm_current_file ?fm)"
  let ?st = "\<lparr>st_manager = (block_manager_new (bm_backend m) ?files)\<lparr>bm_last_known_tip_height := initial_tip_height (bm_backend m)\<rparr>,
      st_alive = True\<rparr>"
  have current: "bfm_current_file ?files = bfm_current_file ?fm" by (simp add: block_file_manager_new_def)
  have "files_ok ?files"
    using assms
    by (auto simp: disk_ok_def files_ok_def bfm_ok_def block_file_manager_new_def MAX_BLOCK_FILE_SIZE_def BLOCK_FILE_CHUNK_def
        split: option.splits)
  moreover have "stored ?files pos d" if "stored ?fm pos d" for pos d
    using that assms by (auto simp: stored_def disk_ok_def files_ok_def block_file_manager_new_def split: option.splits)
  ultimately have "disk_ok (st_manager ?st)" "\<forall>pos d. stored ?fm pos d \<longrightarrow> stored (bm_files (st_manager ?st)) pos d"
    using assms current by (simp_all add: disk_ok_def block_manager_new_def split: option.splits)
  moreover have "store_new (left_on_disk m) RocksDB (bfm_magic ?fm) = Inr ?st"
    by (simp add: store_new_def left_on_disk_def rec Let_def)
  ultimately show ?thesis by (intro exI [of _ ?st]) (simp add: block_manager_new_def current, simp add: block_file_manager_new_def)
qed

subsection \<open>Every message keeps the disk\<close>

lemma chain_meta_apart [simp]: "CHAIN_META \<noteq> UTXOS" "CHAIN_META \<noteq> BLOCK_INDEX"
  by (simp_all add: table_defs)

lemma last_file_put_block_index [simp]:
  "db_get (put_block_index h index db) CHAIN_META [KEY_LAST_FILE] = db_get db CHAIN_META [KEY_LAST_FILE]"
  by (simp add: put_block_index_def)

lemma last_file_fold:
  assumes "\<And>x db. db_get (f x db) CHAIN_META [KEY_LAST_FILE] = db_get db CHAIN_META [KEY_LAST_FILE]"
  shows "db_get (fold f xs db) CHAIN_META [KEY_LAST_FILE] = db_get db CHAIN_META [KEY_LAST_FILE]"
  by (induction xs arbitrary: db) (simp_all add: assms)

lemma handle_other_last_file:
  "db_get (bm_backend (snd (handle_other H m msg))) CHAIN_META [KEY_LAST_FILE] = db_get (bm_backend m) CHAIN_META [KEY_LAST_FILE]"
proof -
  have coin: "db_get (put_coin u db) CHAIN_META [KEY_LAST_FILE] = db_get db CHAIN_META [KEY_LAST_FILE]" for u db
    by (simp add: put_coin_def split: prod.splits coin_update.splits)
  have undo: "bm_backend m' = bm_backend m" if "handle_store_undo m h u = Inr m'" for h u m'
    using that by (auto simp: handle_store_undo_def and_then_eq_Inr Let_def case_prod_unfold)
  show ?thesis
    by (cases msg)
      (auto simp: handle_other_def handle_store_header_def handle_store_block_index_def handle_store_block_indexes_def
        handle_update_utxo_set_def handle_update_active_tip_def handle_update_headers_tip_def handle_delete_block_def
        handle_delete_height_mapping_def handle_update_header_index_def Let_def coin last_file_fold case_prod_unfold
        dest: undo split: sum.splits option.splits)
qed

lemma files_ok_undo: "files_ok (m\<lparr>bfm_undo := u\<rparr>) \<longleftrightarrow> files_ok m"
  by (simp add: files_ok_def bfm_ok_def)

lemma stored_undo: "stored (m\<lparr>bfm_undo := u\<rparr>) pos d \<longleftrightarrow> stored m pos d"
  by (simp add: stored_def)

text \<open>No message but a batch of blocks touches the block files.\<close>

lemma handle_other_files: "\<exists>u. bm_files (snd (handle_other H m msg)) = (bm_files m)\<lparr>bfm_undo := u\<rparr>"
proof -
  have same: "\<exists>u. bm_files m = (bm_files m)\<lparr>bfm_undo := u\<rparr>" by (rule exI [of _ "bfm_undo (bm_files m)"]) simp
  have undo: "\<exists>u. bm_files m' = (bm_files m)\<lparr>bfm_undo := u\<rparr>" if "handle_store_undo m h w = Inr m'" for h w m'
    using that by (auto simp: handle_store_undo_def write_undo_def and_then_eq_Inr Let_def)
  show ?thesis
    by (cases msg)
      (auto simp: handle_other_def handle_store_header_def handle_store_block_index_def handle_store_block_indexes_def
        handle_update_utxo_set_def handle_update_active_tip_def handle_update_headers_tip_def handle_delete_block_def
        handle_delete_height_mapping_def handle_update_header_index_def Let_def same undo split: sum.splits)
qed

lemma handle_other_disk:
  assumes "disk_ok m"
  shows "disk_ok (snd (handle_other H m msg))"
    "bfm_current_file (bm_files (snd (handle_other H m msg))) = bfm_current_file (bm_files m)"
    "stored (bm_files m) pos d \<Longrightarrow> stored (bm_files (snd (handle_other H m msg))) pos d"
proof -
  obtain u where u: "bm_files (snd (handle_other H m msg)) = (bm_files m)\<lparr>bfm_undo := u\<rparr>" using handle_other_files by blast
  show "disk_ok (snd (handle_other H m msg))"
    using assms by (simp add: disk_ok_def u files_ok_undo handle_other_last_file split: option.splits)
  show "bfm_current_file (bm_files (snd (handle_other H m msg))) = bfm_current_file (bm_files m)" by (simp add: u)
  show "stored (bm_files m) pos d \<Longrightarrow> stored (bm_files (snd (handle_other H m msg))) pos d" by (simp add: u stored_undo)
qed

lemma write_all_current_file:
  "bfm_ok m \<Longrightarrow> \<forall>d \<in> set ds. 8 + length d \<le> MAX_BLOCK_FILE_SIZE \<Longrightarrow> unat (bfm_current_file m) + length ds < 2 ^ 32 \<Longrightarrow>
    write_all m ds = Inr (positions, m') \<Longrightarrow> unat (bfm_current_file m') \<le> unat (bfm_current_file m) + length ds"
proof (induction ds arbitrary: m positions)
  case (Cons d ds)
  then obtain pos m1 ps where w: "write_block m d = Inr (pos, m1)" "write_all m1 ds = Inr (ps, m')" by (auto simp: and_then_eq_Inr)
  have cur: "bfm_current_file m \<noteq> 0xFFFFFFFF" using Cons.prems(3) by auto
  have "bfm_ok m1" "unat (bfm_current_file m1) \<le> Suc (unat (bfm_current_file m))"
    using write_block_correct [of m d] Cons.prems(1,2) cur w(1) by auto
  with Cons.IH [OF _ _ _ w(2)] Cons.prems(2,3) show ?case by simp
qed simp

lemma write_all_magic: "write_all m ds = Inr (positions, m') \<Longrightarrow> bfm_magic m' = bfm_magic m"
proof (induction ds arbitrary: m positions)
  case (Cons d ds)
  then obtain pos m1 ps where w: "write_block m d = Inr (pos, m1)" "write_all m1 ds = Inr (ps, m')" by (auto simp: and_then_eq_Inr)
  from w(1) have "bfm_magic m1 = bfm_magic m" by (auto simp: write_block_def and_then_eq_Inr Let_def split: if_splits sum.splits)
  with Cons.IH [OF w(2)] show ?case by simp
qed simp

lemma store_blocks_disk:
  assumes "disk_ok m" "\<forall>(hdr, height, work, raw) \<in> set blocks. 8 + length raw \<le> MAX_BLOCK_FILE_SIZE"
    and "unat (bfm_current_file (bm_files m)) + length blocks < 2 ^ 32"
  obtains positions m' where "handle_store_blocks H m blocks = Inr (positions, m')" "disk_ok m'"
    "\<And>pos d. stored (bm_files m) pos d \<Longrightarrow> stored (bm_files m') pos d"
    "unat (bfm_current_file (bm_files m')) \<le> unat (bfm_current_file (bm_files m)) + length blocks"
    "list_all2 (stored (bm_files m')) positions (map (\<lambda>(_, _, _, raw). raw) blocks)"
    "bfm_magic (bm_files m') = bfm_magic (bm_files m)"
proof -
  let ?raws = "map (\<lambda>(_, _, _, raw). raw) blocks"
  have ok: "bfm_ok (bm_files m)" using assms(1) by (simp add: disk_ok_def files_ok_def)
  have raws: "\<forall>d \<in> set ?raws. 8 + length d \<le> MAX_BLOCK_FILE_SIZE" using assms(2) by auto
  obtain positions files where w: "write_all (bm_files m) ?raws = Inr (positions, files)"
    "list_all2 (stored files) positions ?raws" "\<forall>p x. stored (bm_files m) p x \<longrightarrow> stored files p x"
    using write_all_correct [OF ok raws] assms(3) by auto
  then obtain m' where m': "handle_store_blocks H m blocks = Inr (positions, m')" "bm_files m' = files"
    by (auto simp: handle_store_blocks_def Let_def split: option.splits)
  have room: "unat (bfm_current_file files) \<le> unat (bfm_current_file (bm_files m)) + length blocks"
    using write_all_current_file [OF ok raws _ w(1)] assms(3) by simp
  show thesis
    by (rule that [OF m'(1) store_blocks_disk_ok [OF assms m'(1)]])
      (use m'(2) w room write_all_magic [OF w(1)] in simp_all)
qed

definition fits :: "write_message \<Rightarrow> bool" where
  "fits msg \<longleftrightarrow> (case msg of StoreBlock _ _ _ raw \<Rightarrow> 8 + length raw \<le> MAX_BLOCK_FILE_SIZE | _ \<Rightarrow> True)"

lemma collect_batch_fits:
  "list_all fits msgs \<Longrightarrow> \<forall>(hdr, height, work, raw) \<in> set (fst (collect_batch n msgs)). 8 + length raw \<le> MAX_BLOCK_FILE_SIZE"
  by (induction n msgs rule: collect_batch.induct) (auto simp: fits_def split: prod.splits)

text \<open>What a message was answered with, seen from later files: a stored block is found where the answer says.\<close>

definition answered :: "block_file_manager \<Rightarrow> write_message \<Rightarrow> reply \<Rightarrow> bool" where
  "answered files msg reply \<longleftrightarrow>
     (case msg of
        StoreBlock _ _ _ raw \<Rightarrow> (\<exists>pos. reply = PosReply (Inr pos) \<and> stored files pos raw)
      | _ \<Rightarrow> (\<exists>r. reply = UnitReply r))"

lemma answered_later:
  assumes "list_all2 (answered files) msgs replies" "\<And>pos d. stored files pos d \<Longrightarrow> stored files' pos d"
  shows "list_all2 (answered files') msgs replies"
  using assms(1)
proof (rule list_all2_mono)
  show "answered files' msg reply" if "answered files msg reply" for msg reply
    using that assms(2) by (cases msg) (auto simp: answered_def)
qed

lemma batch_answered:
  assumes "list_all2 (stored files) positions (map (\<lambda>(_, _, _, raw). raw) blocks)"
  shows "list_all2 (answered files) (map (\<lambda>(hdr, height, work, raw). StoreBlock hdr height work raw) blocks)
    (map (\<lambda>pos. PosReply (Inr pos)) positions)"
  using assms by (auto simp: list_all2_conv_all_nth answered_def split: prod.splits)

lemma collect_batch_front:
  "msgs = map (\<lambda>(hdr, height, work, raw). StoreBlock hdr height work raw) (fst (collect_batch n msgs)) @ snd (collect_batch n msgs)"
  by (induction n msgs rule: collect_batch.induct) (auto split: prod.splits)

text \<open>A queue of messages of any clients: the disk stays in order, no stored record is lost, and every message is
  answered.\<close>

definition kept :: "block_manager \<Rightarrow> nat \<Rightarrow> block_manager \<Rightarrow> bool" where
  "kept m n m' \<longleftrightarrow> disk_ok m' \<and> (\<forall>pos d. stored (bm_files m) pos d \<longrightarrow> stored (bm_files m') pos d) \<and>
     unat (bfm_current_file (bm_files m')) \<le> unat (bfm_current_file (bm_files m)) + n \<and>
     bfm_magic (bm_files m') = bfm_magic (bm_files m)"

lemma kept_trans: "kept m1 a m2 \<Longrightarrow> kept m2 b m3 \<Longrightarrow> kept m1 (a + b) m3"
  by (auto simp: kept_def)

lemma handle_other_kept: "disk_ok m \<Longrightarrow> kept m 1 (snd (handle_other H m msg))"
  using handle_other_disk [where m = m and H = H and msg = msg] handle_other_files [of H m msg] by (auto simp: kept_def)

lemma run_messages_disk:
  "disk_ok m \<Longrightarrow> list_all fits msgs \<Longrightarrow> unat (bfm_current_file (bm_files m)) + length msgs < 2 ^ 32 \<Longrightarrow>
    kept m (length msgs) (snd (run_messages H m msgs)) \<and>
    list_all2 (answered (bm_files (snd (run_messages H m msgs)))) msgs (fst (run_messages H m msgs))"
proof (induction msgs arbitrary: m rule: length_induct)
  case (1 msgs)
  note IH = "1.IH" [rule_format] and ok = "1.prems"(1) and fit = "1.prems"(2) and room = "1.prems"(3)
  show ?case
  proof (cases msgs)
    case Nil
    then show ?thesis using ok by (simp add: run_messages.simps kept_def)
  next
    case (Cons msg rest)
    obtain front rest' replies m' where step: "msgs = front @ rest'" "0 < length front"
      "run_messages H m msgs = (let (more, m'') = run_messages H m' rest' in (replies @ more, m''))"
      "kept m (length front) m'" "list_all2 (answered (bm_files m')) front replies"
    proof (cases "is_store_block msg")
      case False
      obtain r m' where o: "handle_other H m msg = (UnitReply r, m')" using handle_other_unit [of H m msg] by (metis prod.collapse)
      then have run: "run_messages H m msgs = (let (more, m'') = run_messages H m' rest in ([UnitReply r] @ more, m''))"
        using False Cons by (cases msg) (simp_all add: run_messages.simps(2) is_store_block_def split: prod.splits)
      show ?thesis
        by (rule that [OF _ _ run, of "[msg]"])
          (use Cons False o handle_other_kept [OF ok, of H msg] in
            \<open>auto simp: answered_def is_store_block_def split: write_message.splits\<close>)
    next
      case True
      then obtain hdr height work raw where msg: "msg = StoreBlock hdr height work raw"
        by (auto simp: is_store_block_def split: write_message.splits)
      obtain blocks rest' where batch: "collect_batch 63 rest = (blocks, rest')" by fastforce
      let ?bs = "(hdr, height, work, raw) # blocks" and ?sb = "\<lambda>(hdr, height, work, raw). StoreBlock hdr height work raw"
      have front: "msgs = map ?sb ?bs @ rest'" using collect_batch_front [of rest 63] by (simp add: batch Cons msg)
      have sizes: "\<forall>(hdr, height, work, raw) \<in> set ?bs. 8 + length raw \<le> MAX_BLOCK_FILE_SIZE"
        using collect_batch_fits [of rest 63] fit batch by (simp add: Cons msg fits_def [of "StoreBlock _ _ _ _"])
      have "unat (bfm_current_file (bm_files m)) + length ?bs < 2 ^ 32" using room by (simp add: front)
      then obtain positions m' where m': "handle_store_blocks H m ?bs = Inr (positions, m')" "kept m (length ?bs) m'"
        "list_all2 (stored (bm_files m')) positions (map (\<lambda>(_, _, _, raw). raw) ?bs)"
        by (rule store_blocks_disk [OF ok sizes, where H = H]) (simp add: kept_def that)
      have run: "run_messages H m msgs =
          (let (more, m'') = run_messages H m' rest' in (map (\<lambda>pos. PosReply (Inr pos)) positions @ more, m''))"
        using m'(1) by (simp add: Cons msg run_messages.simps(2) batch split: prod.splits)
      show ?thesis by (rule that [OF front _ run]) (use m'(2) batch_answered [OF m'(3)] in simp_all)
    qed
    have next_run: "kept m' (length rest') (snd (run_messages H m' rest'))"
      "list_all2 (answered (bm_files (snd (run_messages H m' rest')))) rest' (fst (run_messages H m' rest'))"
      using IH [of rest' m'] step(1,2,4) fit room by (auto simp: kept_def)
    have "list_all2 (answered (bm_files (snd (run_messages H m' rest')))) front replies"
      by (rule answered_later [OF step(5)]) (use next_run(1) in \<open>simp add: kept_def\<close>)
    with next_run kept_trans [OF step(4) next_run(1)] step(1,3) show ?thesis
      by (simp add: list_all2_appendI split: prod.splits)
  qed
qed

subsection \<open>Blocks after a restart\<close>

lemma stored_block_served:
  assumes "get_block_index (bm_backend m) h = Inr (Some i)" "file_pos i = Some pos" "stored (bm_files m) pos raw"
  shows "get_block (bm_backend m) (bm_files m) h = Inr (Some raw)"
  using assms stored_read [OF assms(3)] by (simp add: get_block_def)

text \<open>Processes one after the other on the same data directory: each opens the store, works through the messages of
  its clients and stops.\<close>

fun run_sessions :: "digests \<Rightarrow> magic \<Rightarrow> data_dir \<Rightarrow> write_message list list \<Rightarrow> (reply list \<times> store) store_result" where
  "run_sessions H magic dir [] = and_then (store_new dir RocksDB magic) (\<lambda>st. Inr ([], st))"
| "run_sessions H magic dir (msgs # sessions) =
     and_then (store_new dir RocksDB magic) (\<lambda>st.
     let (replies, m) = run_messages H (st_manager st) msgs in
     and_then (run_sessions H magic (left_on_disk m) sessions) (\<lambda>(later, st'). Inr (replies @ later, st')))"

definition empty_dir :: data_dir where
  "empty_dir = \<lparr>dd_database = database_empty, dd_blocks = Map.empty, dd_undo = Map.empty\<rparr>"

lemma run_sessions_kept:
  "store_new dir RocksDB magic = Inr st \<Longrightarrow> disk_ok (st_manager st) \<Longrightarrow> bfm_magic (bm_files (st_manager st)) = magic \<Longrightarrow>
    list_all fits (concat sessions) \<Longrightarrow>
    unat (bfm_current_file (bm_files (st_manager st))) + length (concat sessions) < 2 ^ 32 \<Longrightarrow>
    \<exists>replies st'. run_sessions H magic dir sessions = Inr (replies, st') \<and>
      kept (st_manager st) (length (concat sessions)) (st_manager st') \<and>
      list_all2 (answered (bm_files (st_manager st'))) (concat sessions) replies"
proof (induction sessions arbitrary: dir st)
  case Nil
  then show ?case by (simp add: kept_def)
next
  case (Cons msgs sessions)
  obtain replies m where run: "run_messages H (st_manager st) msgs = (replies, m)" by fastforce
  with run_messages_disk [OF Cons.prems(2), of msgs H] Cons.prems(4,5)
  have first: "kept (st_manager st) (length msgs) m" "list_all2 (answered (bm_files m)) msgs replies" by auto
  then have m: "disk_ok m" "bfm_magic (bm_files m) = magic" using Cons.prems(3) by (simp_all add: kept_def)
  then obtain st1 where st1: "store_new (left_on_disk m) RocksDB magic = Inr st1" "kept m 0 (st_manager st1)"
    using reopen [OF m(1)] by (auto simp: kept_def)
  obtain later st' where rest: "run_sessions H magic (left_on_disk m) sessions = Inr (later, st')"
    "kept (st_manager st1) (length (concat sessions)) (st_manager st')"
    "list_all2 (answered (bm_files (st_manager st'))) (concat sessions) later"
    using Cons.IH [OF st1(1)] st1(2) first(1) m(2) Cons.prems(4,5) by (auto simp: kept_def)
  have all: "kept m (length (concat sessions)) (st_manager st')" using kept_trans [OF st1(2) rest(2)] by simp
  then have "list_all2 (answered (bm_files (st_manager st'))) msgs replies"
    by (intro answered_later [OF first(2)]) (simp add: kept_def)
  with rest kept_trans [OF first(1) all] run Cons.prems(1) show ?case by (simp add: list_all2_appendI)
qed

lemma empty_dir_opens:
  assumes "length magic = 4"
  shows "\<exists>st. store_new empty_dir RocksDB magic = Inr st \<and> disk_ok (st_manager st) \<and>
    bfm_magic (bm_files (st_manager st)) = magic \<and> bfm_current_file (bm_files (st_manager st)) = 0"
  using assms
  by (simp add: store_new_def empty_dir_def recover_last_file_def database_empty_def db_get_def block_manager_new_def Let_def
      block_file_manager_new_def disk_ok_def files_ok_def bfm_ok_def BLOCK_FILE_CHUNK_def)

end
