(* ===== verification/Startup.thy ===== *)
theory Startup
  imports NodeSync Rpc Listener Restart
begin

text \<open>
  The binary, \<^verbatim>\<open>cmd/bitcrab\<close>: choosing chain and engine (\<^verbatim>\<open>main.rs\<close>, \<^verbatim>\<open>cli.rs\<close>), the data directory and
  the store (\<^verbatim>\<open>initializers/storage.rs\<close>), the node stack (\<^verbatim>\<open>initializers/mod.rs\<close>), the network stack
  (\<^verbatim>\<open>initializers/p2p.rs\<close>) and the RPC context (\<^verbatim>\<open>initializers/rpc.rs\<close>).

  The chainstate actor repairs its tips as its first act, on another task than the one that builds
  \<^verbatim>\<open>Blockchain\<close>; which of the two reads the headers tip first is the argument \<open>repaired_first\<close>.  The random
  keys of the address managers and the clocks are arguments.  Parsing the command line (clap), log
  filters, signals and the shutdown timeout are outside the model.  A node that stops leaves its store.
\<close>

subsection \<open>Command line\<close>

datatype research_commands =
  Compare (rc_signature_checks: u64) (rc_public_keys: u64) (rc_key_disclosure: string) (rc_placement: string)
    (rc_commitment_bytes: u64) (rc_json: bool)

datatype commands =
    Run (run_rpc_addr: socket_addr) (run_dbcache: nat) (run_consensus_engine: string) (run_skip_script_checks: bool)
  | Connect string
  | Research research_commands

datatype network_choice =
    Mainnet_net commands
  | Signet_net commands
  | Testnet3_net commands
  | Regtest_net commands

fun chain_and_command :: "network_choice \<Rightarrow> chain_type \<times> commands" where
  "chain_and_command (Mainnet_net command) = (Mainnet, command)"
| "chain_and_command (Signet_net command) = (Signet, command)"
| "chain_and_command (Testnet3_net command) = (Testnet3, command)"
| "chain_and_command (Regtest_net command) = (Regtest, command)"

datatype startup_error =
    Unknown_engine string
  | Parameters_panic
  | Store_not_opened store_error
  | Genesis_not_loaded node_error
  | Chain_not_activated node_error

definition parse_engine :: "string \<Rightarrow> startup_error + consensus_engine_kind" where
  "parse_engine s =
     (if s = ''native'' then Inr Native
      else if s = ''core-reference'' then Inr CoreReference
      else Inl (Unknown_engine s))"

subsection \<open>Data directory and store\<close>

text \<open>A path is the list of its components; \<open>platform\<close> is what \<^verbatim>\<open>dirs::data_dir()\<close> returns.\<close>

type_synonym path = "string list"

definition compute_effective_datadir :: "path option \<Rightarrow> path option \<Rightarrow> chain_type \<Rightarrow> path" where
  "compute_effective_datadir platform base chain =
     (let base_path = (case base of
            Some p \<Rightarrow> p
          | None \<Rightarrow> (case platform of Some p \<Rightarrow> p | None \<Rightarrow> [''.'']) @ [''bitcrab''])
      in case datadir_suffix chain of Some subdir \<Rightarrow> base_path @ [subdir] | None \<Rightarrow> base_path)"

lemma datadir_distinct:
  "compute_effective_datadir platform base c = compute_effective_datadir platform base c' \<longleftrightarrow> c = c'"
  by (cases c; cases c') (simp_all add: compute_effective_datadir_def Let_def)

definition init_store :: "data_dir \<Rightarrow> magic \<Rightarrow> store store_result" where
  "init_store dir magic = store_new dir RocksDB magic"

definition init_memory_store :: "magic \<Rightarrow> store store_result" where
  "init_memory_store magic = store_in_memory magic"

subsection \<open>The node stack\<close>

text \<open>Store, chainstate actor, orchestrator and genesis: what the node and the diagnostic connection share.\<close>

definition open_chain ::
  "digests \<Rightarrow> bool \<Rightarrow> data_dir \<Rightarrow> chain_params \<Rightarrow> nat \<Rightarrow> consensus_engine_kind \<Rightarrow> bool \<Rightarrow> startup_error + blockchain" where
  "open_chain H repaired_first dir params dbcache_bytes kind checks =
     and_then (map_err Store_not_opened (init_store dir (cp_magic params))) (\<lambda>st.
     let manager = chainstate_new (st_manager st) params dbcache_bytes (engine_new kind) checks;
         repaired = snd (verify_and_repair_tips manager);
         blockchain = (blockchain_new (if repaired_first then repaired else manager) mempool_new params)\<lparr>bc_chainstate := repaired\<rparr>
     in case node_load_genesis H blockchain of
          (Inl e, _) \<Rightarrow> Inl (Genesis_not_loaded e)
        | (Inr _, blockchain) \<Rightarrow> Inr blockchain)"

definition init_node ::
  "digests \<Rightarrow> secp \<Rightarrow> (nat \<Rightarrow> nat) \<Rightarrow> bool \<Rightarrow> data_dir \<Rightarrow> chain_params \<Rightarrow> nat \<Rightarrow> consensus_engine_kind \<Rightarrow> bool \<Rightarrow>
   startup_error + blockchain" where
  "init_node H ec now repaired_first dir params dbcache_mib kind checks =
     and_then (open_chain H repaired_first dir params (min (dbcache_mib * (1024 * 1024)) U64_MAX) kind checks) (\<lambda>blockchain.
     case node_activate_best_chain H ec now blockchain of
       (Inl e, _) \<Rightarrow> Inl (Chain_not_activated e)
     | (Inr _, blockchain) \<Rightarrow> Inr blockchain)"

subsection \<open>The handle of the chainstate actor\<close>

text \<open>A client sends one message and awaits the answer; an actor that has ended answers nothing.\<close>

datatype actor_error = Actor_dead | Actor_failed chainstate_error

definition chainstate_handle ::
  "digests \<Rightarrow> secp \<Rightarrow> bool \<Rightarrow> chainstate_manager \<Rightarrow> chainstate_msg \<Rightarrow> (actor_error + unit) \<times> chainstate_manager" where
  "chainstate_handle H ec alive cs msg =
     (if \<not> alive then (Inl Actor_dead, cs)
      else let (result, cs) = handle_chainstate_msg H ec cs msg in (map_err Actor_failed result, cs))"

text \<open>The orchestrator's calls are those of a live actor.\<close>

lemma handle_calls:
  "on_chainstate bc (handle_chainstate_msg H ec (bc_chainstate bc) msg) =
     (let (r, cs) = chainstate_handle H ec True (bc_chainstate bc) msg
      in (map_err (\<lambda>e. case e of Actor_failed e \<Rightarrow> ChainstateFailed e) r, bc\<lparr>bc_chainstate := cs\<rparr>))"
  by (cases "handle_chainstate_msg H ec (bc_chainstate bc) msg"; cases "fst (handle_chainstate_msg H ec (bc_chainstate bc) msg)")
    (simp_all add: on_chainstate_def chainstate_handle_def)

subsection \<open>Network and RPC\<close>

definition last_header_time :: "digests \<Rightarrow> blockchain \<Rightarrow> hash \<Rightarrow> u64" where
  "last_header_time H bc headers_tip =
     (if is_zero headers_tip then 0
      else case sync_get_block_index H bc headers_tip of Some index \<Rightarrow> ucast (bh_time (bi_header index)) | None \<Rightarrow> 0)"

definition init_p2p :: "digests \<Rightarrow> bytes \<Rightarrow> bytes \<Rightarrow> blockchain \<Rightarrow> blockchain connman" where
  "init_p2p H table_key connman_key bc =
     (let (headers_tip, headers_height) = sync_get_headers_tip bc;
          (blocks_tip, blocks_height) = get_blocks_tip H bc;
          sync = with_tips headers_tip headers_height blocks_tip blocks_height (last_header_time H bc headers_tip)
      in connman_new connman_key (cp_magic (bc_params bc))
           \<lparr>nt_table = peer_table_new (addr_man_new table_key), nt_sync = sync, nt_peers = [], nt_chain = bc, nt_sent = []\<rparr>)"

definition init_rpc :: "error_texts \<Rightarrow> blockchain connman \<Rightarrow> blockchain rpc_context" where
  "init_rpc texts p2p = \<lparr>rx_node = blockchain_node texts (nt_chain (cm_net p2p)), rx_p2p = p2p\<rparr>"

definition init_node_service ::
  "digests \<Rightarrow> secp \<Rightarrow> (nat \<Rightarrow> nat) \<Rightarrow> bool \<Rightarrow> bytes \<times> bytes \<Rightarrow> data_dir \<Rightarrow> chain_params \<Rightarrow> nat \<Rightarrow> consensus_engine_kind \<Rightarrow> bool \<Rightarrow>
   startup_error + blockchain connman" where
  "init_node_service H ec now repaired_first keys dir params dbcache_mib kind checks =
     and_then (init_node H ec now repaired_first dir params dbcache_mib kind checks) (\<lambda>blockchain.
     Inr (init_p2p H (fst keys) (snd keys) blockchain))"

text \<open>The command \<^verbatim>\<open>run\<close>; \<open>disk\<close> is what the file system holds under a path.  A chain whose parameters do not build
  is a panic.\<close>

definition run_node ::
  "digests \<Rightarrow> hex_codec \<Rightarrow> secp \<Rightarrow> (nat \<Rightarrow> nat) \<Rightarrow> bool \<Rightarrow> bytes \<times> bytes \<Rightarrow> (path \<Rightarrow> data_dir) \<Rightarrow> path option \<Rightarrow> path option \<Rightarrow>
   chain_type \<Rightarrow> nat \<Rightarrow> string \<Rightarrow> bool \<Rightarrow> startup_error + path \<times> blockchain connman" where
  "run_node H X ec now repaired_first keys disk platform datadir chain dbcache engine skip_script_checks =
     and_then (parse_engine engine) (\<lambda>kind.
     let effective_datadir = compute_effective_datadir platform datadir chain
     in case type_params H X chain of
          None \<Rightarrow> Inl Parameters_panic
        | Some params \<Rightarrow>
            and_then (init_node_service H ec now repaired_first keys (disk effective_datadir) params dbcache kind
              (\<not> skip_script_checks)) (\<lambda>p2p.
            Inr (effective_datadir, p2p)))"

text \<open>The command \<^verbatim>\<open>connect\<close>: the same stack without activation, one outbound connection, and the outcome it logs.
  \<open>parse\<close> reads an address text, \<open>resolve\<close> is name resolution and \<open>tcp\<close> the network.\<close>

definition run_legacy_connect ::
  "addr_hasher \<Rightarrow> digests \<Rightarrow> secp \<Rightarrow> moment \<Rightarrow> bool \<Rightarrow> bytes \<times> bytes \<Rightarrow> data_dir \<Rightarrow> chain_params \<Rightarrow>
   (string \<Rightarrow> socket_addr option) \<Rightarrow> (string \<Rightarrow> socket_addr list option) \<Rightarrow> (socket_addr \<Rightarrow> socket p2p_result) \<Rightarrow> string \<Rightarrow>
   startup_error + (node_handle p2p_result \<times> blockchain connman) option" where
  "run_legacy_connect S H ec mo repaired_first keys dir params parse resolve tcp addr =
     and_then (open_chain H repaired_first dir params (450 * 1024 * 1024) CoreReference True) (\<lambda>blockchain.
     let net = \<lparr>nt_table = peer_table_new (addr_man_new (fst keys)), nt_sync = sync_manager_new, nt_peers = [],
                nt_chain = blockchain, nt_sent = []\<rparr>;
         p2p = connman_new (snd keys) (cp_magic params) net
     in Inr (cm_connect S (blockchain_interface ec H) H mo parse resolve tcp addr OutboundFullRelay p2p))"

subsection \<open>The repair of the tips\<close>

lemma scout_finds_nothing:
  assumes "\<forall>h j. get_block_index db h = Inr (Some j) \<longrightarrow> wf_hash (chain_work j) \<and> le_nat (chain_work j) \<le> le_nat best" "wf_hash best"
  shows "scout_headers n db height None best = None"
proof (induction n arbitrary: height)
  case (Suc n)
  have "\<not> hash_gt (chain_work j) best" if "get_block_index db h = Inr (Some j)" for h j
  proof -
    from assms(1) that have "wf_hash (chain_work j)" "le_nat (chain_work j) \<le> le_nat best" by blast+
    with assms(2) show ?thesis by (simp add: hash_gt_numeric)
  qed
  with Suc show ?case by (auto split: sum.splits option.splits)
qed simp

text \<open>The heights of the two tips are those the repair does not act on.\<close>

definition tips_close :: "database \<Rightarrow> bool" where
  "tips_close db \<longleftrightarrow>
     (case and_then (get_headers_tip db) (tip_index db) of
        Inr hi \<Rightarrow>
          (case and_then (get_best_block db) (tip_index db) of
             Inr vi \<Rightarrow>
               index_height vi \<le> index_height hi \<and>
               index_height hi \<le> index_height vi + 2000000
           | Inl _ \<Rightarrow> True)
      | Inl _ \<Rightarrow> True)"

lemma repair_idle:
  assumes "most_work (cs_db cs)" "tips_close (cs_db cs)"
  shows "snd (verify_and_repair_tips cs) = cs"
proof -
  let ?db = "cs_db cs"
  from assms(1) obtain tip i where t: "get_headers_tip ?db = Inr (Some tip)" "get_block_index ?db tip = Inr (Some i)"
    "\<forall>h j. get_block_index ?db h = Inr (Some j) \<longrightarrow> wf_hash (chain_work j) \<and> le_nat (chain_work j) \<le> le_nat (chain_work i)"
    by (auto simp: most_work_def)
  then have scout: "scout_headers n ?db height None (chain_work i) = None" for n height by (blast intro: scout_finds_nothing)
  show ?thesis
  proof (cases "and_then (get_best_block ?db) (tip_index ?db)")
    case (Inl e)
    then show ?thesis
      by (cases "get_best_block ?db") (simp_all add: verify_and_repair_tips_def t(1,2) tip_index_def [of ?db "Some tip"])
  next
    case (Inr vi)
    then obtain v where v: "get_best_block ?db = Inr v" "tip_index ?db v = Inr vi" by (auto simp: and_then_eq_Inr)
    then have "index_height vi \<le> bi_height i" "bi_height i \<le> index_height vi + 2000000"
      using assms(2) by (simp_all add: tips_close_def t(1,2) tip_index_def [of ?db "Some tip"] index_height_def [of "Some i"])
    with v show ?thesis
      by (simp add: verify_and_repair_tips_def t(1,2) tip_index_def [of ?db "Some tip"] index_height_def [of "Some i"]
          index_work_def scout cs_update_headers_tip_def [of None] not_less Let_def)
  qed
qed

text \<open>The repair looks at heights only: a validated tip that is higher becomes the headers tip even though another header
  has more work.\<close>

lemma repair_ignores_work:
  assumes "most_work (cs_db cs)" "get_headers_tip (cs_db cs) = Inr (Some tip)" "get_block_index (cs_db cs) tip = Inr (Some i)"
    and "get_best_block (cs_db cs) = Inr (Some v)" "get_block_index (cs_db cs) v = Inr (Some j)" "bi_height i < bi_height j" "wf_hash v"
  shows "get_headers_tip (cs_db (snd (verify_and_repair_tips cs))) = Inr (Some v)"
proof -
  let ?db = "cs_db cs"
  have most: "\<forall>h k. get_block_index ?db h = Inr (Some k) \<longrightarrow> wf_hash (chain_work k) \<and> le_nat (chain_work k) \<le> le_nat (chain_work i)"
    using assms(1-3) by (auto simp: most_work_def)
  then have "scout_headers n ?db height None (chain_work i) = None" for n height using assms(3) by (blast intro: scout_finds_nothing)
  then have "verify_and_repair_tips cs = (Inr (), let cs' = with_store (handle_update_headers_tip (cs_store cs) v) cs in
      if bi_height i > bi_height j + 2000000 then with_store (handle_update_headers_tip (cs_store cs') v) cs' else cs')"
    using assms(2-6) by (simp add: verify_and_repair_tips_def tip_index_def index_height_def index_work_def cs_update_headers_tip_def Let_def)
  with assms(7) show ?thesis
    by (simp add: handle_update_headers_tip_def get_headers_tip_def get_hash_def wf_hash_def Let_def)
qed

lemma empty_tips: "get_headers_tip database_empty = Inr None" "get_best_block database_empty = Inr None"
  by (simp_all add: get_headers_tip_def get_best_block_def get_hash_def database_empty_def db_get_def)

lemma repair_empty:
  assumes "cs_db cs = database_empty"
  shows "snd (verify_and_repair_tips cs) = cs"
proof -
  have "scout_headers n database_empty height None best = None" for n height best
    by (cases n) (simp_all add: get_block_hash_def get_hash_def database_empty_def db_get_def)
  then show ?thesis
    by (simp add: verify_and_repair_tips_def assms empty_tips tip_index_def index_height_def cs_update_headers_tip_def Let_def)
qed

subsection \<open>Starting over an empty directory\<close>

definition genesis_only :: "digests \<Rightarrow> chain_params \<Rightarrow> block_manager \<Rightarrow> bool" where
  "genesis_only H params m \<longleftrightarrow>
     (\<forall>h. get_block_index (bm_backend m) h =
        Inr (if h = genesis_hash H params then Some (genesis_index params) else None)) \<and>
     get_headers_tip (bm_backend m) = Inr (Some (genesis_hash H params)) \<and> most_work (bm_backend m)"

lemma genesis_only_tree:
  "genesis_only H params m \<Longrightarrow> tree_of (bm_backend m) = [genesis_hash H params \<mapsto> genesis_index params]"
  by (simp add: genesis_only_def fun_eq_iff tree_of_def ok_flatten_def)

lemma genesis_loaded:
  assumes "\<And>h. get_block_index (cs_db cs) h = Inr None" "digest_sizes H" "wf_header (genesis_header params)"
  shows "fst (load_genesis_block H params cs) = Inr ()" "genesis_only H params (cs_store (snd (load_genesis_block H params cs)))"
    "bm_pending_undo_indexes (cs_store (snd (load_genesis_block H params cs))) = bm_pending_undo_indexes (cs_store cs)"
proof -
  let ?cs = "snd (load_genesis_block H params cs)" and ?h = "genesis_hash H params"
  have wi: "wf_block_index (genesis_index params)" using assms(3) block_work_value(2) by (simp add: wf_block_index_def genesis_index_def)
  have at: "get_block_index (cs_db ?cs) h = get_block_index (put_block_index ?h (genesis_index params) (cs_db cs)) h" for h
    using assms(1) by (simp add: load_genesis_block_def Let_def handle_update_active_tip_def handle_update_header_index_def
        handle_update_headers_tip_def handle_store_block_index_def genesis_index_def get_block_index_def)
  then have tree: "get_block_index (cs_db ?cs) h = Inr (if h = ?h then Some (genesis_index params) else None)" for h
    using assms(1) by (simp add: put_block_index_reads(1) [OF wi])
  have "wf_hash ?h" using assms(2) by (simp add: genesis_hash_def block_hash_def)
  then have "get_headers_tip (cs_db ?cs) = Inr (Some ?h)"
    using assms(1) by (simp add: load_genesis_block_def Let_def handle_update_active_tip_def handle_update_header_index_def
        handle_update_headers_tip_def get_headers_tip_def get_hash_def wf_hash_def)
  with tree load_genesis_most_work [OF assms] show "genesis_only H params (cs_store ?cs)" by (simp add: genesis_only_def)
  show "fst (load_genesis_block H params cs) = Inr ()" "bm_pending_undo_indexes (cs_store ?cs) = bm_pending_undo_indexes (cs_store cs)"
    using assms(1) by (simp_all add: load_genesis_block_def Let_def handle_update_active_tip_def handle_update_header_index_def
        handle_update_headers_tip_def handle_store_block_index_def with_store_def)
qed

lemma genesis_only_sane:
  assumes "genesis_only H params (bc_store bc)" "bm_pending_undo_indexes (bc_store bc) = []" "bc_params bc = params"
    and "headers_known H U" "genesis_header params \<in> U"
  shows "index_sane H params U bc"
proof -
  have wg: "wf_header (genesis_header params)" using assms(4,5) by (simp add: headers_known_def)
  have "tree_ok H params [genesis_hash H params \<mapsto> genesis_index params]"
    using wg block_work_value(2) by (auto simp: tree_ok_def genesis_index_def genesis_hash_def wf_block_index_def split: if_splits)
  then show ?thesis
    using assms genesis_only_tree [OF assms(1)]
    by (auto simp: index_sane_def genesis_only_def pending_ok_def ran_def genesis_index_def simp del: tree_of_Some split: if_splits)
qed

lemma empty_dir_store:
  assumes "store_new empty_dir RocksDB magic = Inr st"
  shows "bm_backend (st_manager st) = database_empty" "bm_pending_undo_indexes (st_manager st) = []"
  using assms by (auto simp: store_new_def empty_dir_def recover_last_file_def database_empty_def db_get_def block_manager_new_def Let_def)

lemma empty_index: "get_block_index database_empty h = Inr None"
  by (simp add: get_block_index_def database_empty_def db_get_def)

lemma opened_empty:
  assumes "open_chain H repaired_first empty_dir params bytes kind checks = Inr bc" "digest_sizes H" "wf_header (genesis_header params)"
  shows "genesis_only H params (bc_store bc)" "bm_pending_undo_indexes (bc_store bc) = []" "bc_params bc = params"
proof -
  obtain st where st: "store_new empty_dir RocksDB (cp_magic params) = Inr st"
    using assms(1) by (auto simp: open_chain_def init_store_def and_then_eq_Inr)
  let ?cs = "chainstate_new (st_manager st) params bytes (engine_new kind) checks"
  have db: "cs_db ?cs = database_empty" using empty_dir_store [OF st] by (simp add: chainstate_new_def)
  note loaded = genesis_loaded [of ?cs H params] assms(2,3) db empty_index
  have bc: "bc_chainstate bc = snd (load_genesis_block H params ?cs) \<and> bc_params bc = params"
    using assms(1) st loaded(1) repair_empty [OF db]
    by (auto simp: open_chain_def init_store_def node_load_genesis_def on_chainstate_def blockchain_new_def Let_def
        split: prod.splits sum.splits)
  then show "genesis_only H params (bc_store bc)" "bm_pending_undo_indexes (bc_store bc) = []" "bc_params bc = params"
    using loaded empty_dir_store(2) [OF st] by (simp_all add: chainstate_new_def)
qed

text \<open>A first start succeeds: there is nothing to activate.\<close>

lemma genesis_activates:
  assumes "genesis_only H params (cs_store cs)" "digest_sizes H" "waiting_blocks cs = Map.empty" "cs_params cs = params" "\<not> is_activating cs"
    and "cache_get_best_block (cache_view cs) = Some (genesis_hash H params)"
    and "get_block_hash (cs_db cs) 1 = Inr None" "get_block_hash_by_header_height (cs_db cs) 1 = Inr None"
  shows "activate_best_chain H ec now cs = (Inr (), cs)"
proof -
  let ?cs = "cs\<lparr>is_activating := True\<rparr>"
  have "get_block_index (cs_db cs) (genesis_hash H params) = Inr (Some (genesis_index params))"
    using assms(1) by (simp add: genesis_only_def)
  then have tip: "current_tip H ?cs = Inr (genesis_index params)" by (simp add: current_tip_def assms(6))
  have "\<exists>assumed. assume_valid_height ?cs = Inr assumed" using assms(1) by (simp add: assume_valid_height_def genesis_only_def Let_def)
  then obtain assumed where a: "assume_valid_height ?cs = Inr assumed" by blast
  have "activate_step H ec assumed t ?cs (genesis_index params) = (Stop, ?cs)" for t
    by (simp add: activate_step_def next_hash_def assms(3,7,8) genesis_index_def ok_flatten_def)
  then have "activate_loop (Suc n) H ec assumed now ?cs (genesis_index params) = (Inr (), ?cs)" for n by simp
  moreover have "ACTIVATE_BATCH_SIZE = Suc 127" by (simp add: ACTIVATE_BATCH_SIZE_def)
  ultimately have "activate_best_chain_inner H ec now ?cs = (Inr (), ?cs)"
    unfolding activate_best_chain_inner_def a tip sum.case by metis
  with assms(5) show ?thesis by (simp add: activate_best_chain_def)
qed

lemma first_start_succeeds:
  assumes "wf_params H params" "digest_sizes H"
  shows "\<exists>bc. init_node H ec now repaired_first empty_dir params mib kind checks = Inr bc \<and>
    genesis_only H params (bc_store bc) \<and> active_tip (bc_chainstate bc) = Some (genesis_hash H params, 0)"
proof -
  have wg: "wf_header (genesis_header params)" and magic: "length (cp_magic params) = 4" using assms(1) by (simp_all add: wf_params_def)
  obtain st where st: "store_new empty_dir RocksDB (cp_magic params) = Inr st" using empty_dir_opens [OF magic] by blast
  let ?bytes = "min (mib * (1024 * 1024)) U64_MAX"
  let ?cs = "chainstate_new (st_manager st) params ?bytes (engine_new kind) checks"
  let ?cs' = "snd (load_genesis_block H params ?cs)"
  have db: "cs_db ?cs = database_empty" using empty_dir_store [OF st] by (simp add: chainstate_new_def)
  then have none: "get_block_index (cs_db ?cs) h = Inr None" for h by (simp add: empty_index)
  note loaded = genesis_loaded [OF none assms(2) wg]
  let ?bc = "(blockchain_new ?cs mempool_new params)\<lparr>bc_chainstate := ?cs'\<rparr>"
  have opened: "open_chain H repaired_first empty_dir params ?bytes kind checks = Inr ?bc"
    using st loaded(1) repair_empty [OF db]
    by (simp add: open_chain_def init_store_def node_load_genesis_def on_chainstate_def blockchain_new_def Let_def case_prod_unfold)
  have reads: "waiting_blocks ?cs' = Map.empty" "cs_params ?cs' = params" "\<not> is_activating ?cs'"
    "cache_get_best_block (cache_view ?cs') = Some (genesis_hash H params)" "active_tip ?cs' = Some (genesis_hash H params, 0)"
    using none by (simp_all add: load_genesis_block_def Let_def with_store_def chainstate_new_def set_best_block_def
        cache_get_best_block_def)
  have heights: "get_block_hash (cs_db ?cs') 1 = Inr None" "get_block_hash_by_header_height (cs_db ?cs') 1 = Inr None"
    using none db by (simp_all add: load_genesis_block_def Let_def handle_update_active_tip_def handle_update_header_index_def
        handle_update_headers_tip_def handle_store_block_index_def put_block_index_def get_block_hash_def
        get_block_hash_by_header_height_def get_hash_def) (simp_all add: database_empty_def db_get_def)
  from genesis_activates [OF loaded(2) assms(2) reads(1-4) heights]
  have "node_activate_best_chain H ec now ?bc = (Inr (), ?bc)" by (simp add: node_activate_best_chain_def on_chainstate_def)
  with opened loaded(2) reads(5) show ?thesis by (simp add: init_node_def)
qed

subsection \<open>Starting again\<close>

text \<open>What matters of the index of a node that has stopped.\<close>

definition disk_sane :: "digests \<Rightarrow> chain_params \<Rightarrow> block_header set \<Rightarrow> database \<Rightarrow> bool" where
  "disk_sane H params U db \<longleftrightarrow> tree_ok H params (tree_of db) \<and> most_work db \<and> bi_header ` ran (tree_of db) \<subseteq> U"

lemma index_sane_disk: "index_sane H params U bc \<Longrightarrow> disk_sane H params U (bc_db bc)"
  by (simp add: index_sane_def disk_sane_def)

lemma store_new_backend:
  assumes "store_new (left_on_disk m) RocksDB magic = Inr st"
  shows "bm_backend (st_manager st) = bm_backend m" "bm_pending_undo_indexes (st_manager st) = []"
  using assms by (auto simp: store_new_def left_on_disk_def block_manager_new_def and_then_eq_Inr Let_def)

lemma opened_again:
  assumes "open_chain H repaired_first (left_on_disk m) params bytes kind checks = Inr bc"
    and "disk_sane H params U (bm_backend m)" "headers_known H U" "tips_close (bm_backend m)"
  shows "index_sane H params U bc"
proof -
  obtain st where st: "store_new (left_on_disk m) RocksDB (cp_magic params) = Inr st"
    using assms(1) by (auto simp: open_chain_def init_store_def and_then_eq_Inr)
  let ?cs = "chainstate_new (st_manager st) params bytes (engine_new kind) checks"
  have db: "cs_db ?cs = bm_backend m" using store_new_backend [OF st] by (simp add: chainstate_new_def)
  then have repair: "snd (verify_and_repair_tips ?cs) = ?cs" using assms(2,4) by (intro repair_idle) (simp_all add: disk_sane_def)
  obtain g where "tree_of (bm_backend m) (genesis_hash H params) = Some g" using assms(2) by (auto simp: disk_sane_def tree_ok_def)
  then have "load_genesis_block H params ?cs = (Inr (), ?cs)" using db by (simp add: load_genesis_block_def)
  with assms(1) st repair have "bc_chainstate bc = ?cs \<and> bc_params bc = params"
    by (auto simp: open_chain_def init_store_def node_load_genesis_def on_chainstate_def blockchain_new_def Let_def)
  with assms(2,3) db store_new_backend(2) [OF st] show ?thesis
    by (simp add: index_sane_def disk_sane_def pending_ok_def chainstate_new_def)
qed

lemma init_node_sane:
  assumes "init_node H ec now repaired_first dir params mib kind checks = Inr bc"
    and "\<And>bytes bc. open_chain H repaired_first dir params bytes kind checks = Inr bc \<Longrightarrow> index_sane H params U bc"
  shows "index_sane H params U bc"
proof -
  obtain b where b: "open_chain H repaired_first dir params (min (mib * (1024 * 1024)) U64_MAX) kind checks = Inr b"
    "bc = snd (node_activate_best_chain H ec now b)"
  proof -
    obtain b where b: "open_chain H repaired_first dir params (min (mib * (1024 * 1024)) U64_MAX) kind checks = Inr b"
      "(case node_activate_best_chain H ec now b of (Inl e, _) \<Rightarrow> Inl (Chain_not_activated e) | (Inr _, b) \<Rightarrow> Inr b) = Inr bc"
      using assms(1) unfolding init_node_def and_then_eq_Inr by blast
    then show thesis using that by (cases "node_activate_best_chain H ec now b") (auto split: sum.splits)
  qed
  then have "activates H ec b bc" by (auto simp: activates_def)
  with assms(2) [OF b(1)] activation_keeps_sane show ?thesis by blast
qed

subsection \<open>The life of a node\<close>

datatype node_state = Running block_downloader "blockchain net" | Stopped block_manager

inductive node_life :: "digests \<Rightarrow> secp \<Rightarrow> chain_params \<Rightarrow> block_header set \<Rightarrow> node_state \<Rightarrow> bool"
  for H ec params U
where
  first_start: "init_node_service H ec now repaired_first keys empty_dir params mib kind checks = Inr cm \<Longrightarrow>
    node_life H ec params U (Running (block_downloader_new wall) (cm_net cm))"
| works: "node_life H ec params U (Running bd n) \<Longrightarrow>
    node_step (blockchain_interface ec H) H (fair_msg U) (activates H ec) (bd, n) (bd', n') \<Longrightarrow>
    node_life H ec params U (Running bd' n')"
| stops: "node_life H ec params U (Running bd n) \<Longrightarrow> node_life H ec params U (Stopped (bc_store (nt_chain n)))"
| starts: "node_life H ec params U (Stopped m) \<Longrightarrow> tips_close (bm_backend m) \<Longrightarrow>
    init_node_service H ec now repaired_first keys (left_on_disk m) params mib kind checks = Inr cm \<Longrightarrow>
    node_life H ec params U (Running (block_downloader_new wall) (cm_net cm))"

definition life_ok :: "digests \<Rightarrow> chain_params \<Rightarrow> block_header set \<Rightarrow> node_state \<Rightarrow> bool" where
  "life_ok H params U st =
     (case st of
        Running _ n \<Rightarrow> index_sane H params U (nt_chain n) \<and> net_ok n
      | Stopped m \<Rightarrow> disk_sane H params U (bm_backend m))"

lemma init_p2p_net:
  "nt_chain (cm_net (init_p2p H k k' bc)) = bc" "net_ok (cm_net (init_p2p H k k' bc))"
  by (simp_all add: init_p2p_def connman_new_def net_ok_def dl_def with_tips_def within_limit_def download_ok_def workload_def
      split: prod.splits)

lemma service_started:
  assumes "init_node_service H ec now repaired_first keys dir params mib kind checks = Inr cm"
    and "\<And>bytes bc. open_chain H repaired_first dir params bytes kind checks = Inr bc \<Longrightarrow> index_sane H params U bc"
  shows "index_sane H params U (nt_chain (cm_net cm)) \<and> net_ok (cm_net cm)"
proof -
  obtain bc where bc: "init_node H ec now repaired_first dir params mib kind checks = Inr bc" "cm = init_p2p H (fst keys) (snd keys) bc"
    using assms(1) by (auto simp: init_node_service_def and_then_eq_Inr)
  with init_node_sane [OF bc(1) assms(2)] init_p2p_net show ?thesis by simp
qed

lemma node_life_ok:
  assumes "headers_known H U" "genesis_header params \<in> U" "node_life H ec params U st"
  shows "life_ok H params U st"
  using assms(3)
proof induction
  case (first_start now repaired_first keys mib kind checks cm wall)
  have "digest_sizes H" "wf_header (genesis_header params)" using assms(1,2) by (simp_all add: headers_known_def)
  then have "index_sane H params U bc" if "open_chain H repaired_first empty_dir params bytes kind checks = Inr bc" for bytes bc
    using genesis_only_sane [OF opened_empty [OF that] assms(1,2)] by blast
  from service_started [OF first_start this] show ?case by (simp add: life_ok_def)
next
  case (works bd n bd' n')
  then show ?case using node.node_step_sane [OF works.hyps(2)] node_step_net_ok [OF works.hyps(2)] by (simp add: life_ok_def)
next
  case (stops bd n)
  then show ?case by (simp add: life_ok_def index_sane_disk)
next
  case (starts m now repaired_first keys mib kind checks cm wall)
  then have "disk_sane H params U (bm_backend m)" by (simp add: life_ok_def)
  from service_started [OF starts.hyps(3) opened_again [OF _ this assms(1) starts.hyps(2)]] show ?case by (simp add: life_ok_def)
qed

end
