(* ===== verification/LedgerSpec.thy ===== *)
theory LedgerSpec
  imports Samples
begin

text \<open>
  The properties of storage, the coin cache, consensus validation and the chainstate actor.
\<close>

section \<open>Storage\<close>

text \<open>Block files are append only.  Writing a batch of blocks succeeds, every block of it can be
  read back at the position it was given, and every record that could be read before can still be
  read, across pre-allocation and the change to the next file.\<close>

theorem block_files_append_only:
  assumes "bfm_ok m" "\<forall>d \<in> set ds. 8 + length d \<le> MAX_BLOCK_FILE_SIZE" "unat (bfm_current_file m) + length ds < 2 ^ 32"
  shows "\<exists>positions m'. write_all m ds = Inr (positions, m') \<and> bfm_ok m' \<and>
    list_all2 (\<lambda>pos d. read_block m' pos = Inr d) positions ds \<and> (\<forall>p x. stored m p x \<longrightarrow> read_block m' p = Inr x)"
proof -
  obtain positions m' where w: "write_all m ds = Inr (positions, m')" "bfm_ok m'" "list_all2 (stored m') positions ds"
    "\<forall>p x. stored m p x \<longrightarrow> stored m' p x"
    using write_all_correct [OF assms] by blast
  have "list_all2 (\<lambda>pos d. read_block m' pos = Inr d) positions ds"
    by (rule list_all2_mono [OF w(3)]) (rule stored_read)
  with w stored_read show ?thesis by blast
qed

definition fresh_files :: block_file_manager where
  "fresh_files = block_file_manager_new (\<lambda>_. None) (\<lambda>_. None) [0xf9, 0xbe, 0xb4, 0xd9] 0"

lemma fresh_files_ok: "bfm_ok fresh_files" "bfm_current_file fresh_files = 0"
  by (simp_all add: fresh_files_def block_file_manager_new_def bfm_ok_def BLOCK_FILE_CHUNK_def)

theorem block_files_append_only_witness:
  "\<exists>positions m'. write_all fresh_files [[1, 2, 3], []] = Inr (positions, m') \<and>
     list_all2 (\<lambda>pos d. read_block m' pos = Inr d) positions [[1, 2, 3], []]"
  using block_files_append_only [of fresh_files "[[1, 2, 3], []]"] fresh_files_ok
  by (auto simp: MAX_BLOCK_FILE_SIZE_def)

text \<open>The used size of a file is recovered after a restart.  Scanning a file that holds records
  followed by any amount of pre-allocated zeros stops exactly at the end of the last record.\<close>

theorem used_size_recovered:
  assumes "length magic = 4" "magic \<noteq> replicate 4 0" "\<forall>d \<in> set ds. d \<noteq> [] \<and> length d < 2 ^ 32"
    and "ffs_files seq n = Some (concat (map (record_bytes magic) ds) @ replicate z 0)"
  shows "used_size seq n magic = Inr (length (concat (map (record_bytes magic) ds)))"
  using used_size_records [OF assms(1-3), of "[]" z] assms(4)
  by (simp add: used_size_def encode_magic_def encode_array_def push_bytes_def)

definition one_record_file :: flat_file_seq where
  "one_record_file = \<lparr>ffs_files = (\<lambda>_. Some (record_bytes [1, 2, 3, 4] [7, 7] @ replicate 100 0)), ffs_chunk_size = 16\<rparr>"

theorem used_size_recovered_witness: "used_size one_record_file 0 [1, 2, 3, 4] = Inr 10"
proof -
  have "([1, 2, 3, 4] :: bytes) \<noteq> replicate 4 0" by code_simp
  moreover have "length (record_bytes [1, 2, 3, 4] [7, 7]) = 10" by (simp add: record_bytes_eq)
  ultimately show ?thesis
    using used_size_recovered [of "[1, 2, 3, 4]" "[[7, 7]]" one_record_file 0 100] by (simp add: one_record_file_def)
qed

text \<open>Blocks stored through the write worker are served by the store.  A batch of blocks with
  distinct hashes is stored, and each of them is then found under its hash, byte for byte.\<close>

theorem stored_blocks_served:
  assumes "bfm_ok (bm_files m)" "unat (bfm_current_file (bm_files m)) + length blocks < 2 ^ 32"
    and "\<forall>(hdr, height, work, raw) \<in> set blocks. wf_header hdr \<and> wf_hash work \<and> 8 + length raw \<le> MAX_BLOCK_FILE_SIZE"
    and "distinct (map (\<lambda>(hdr, _). block_hash H hdr) blocks)"
  shows "\<exists>positions m'. handle_store_blocks H m blocks = Inr (positions, m') \<and>
    (\<forall>(hdr, height, work, raw) \<in> set blocks.
      get_block (bm_backend m') (bm_files m') (block_hash H hdr) = Inr (Some raw))"
  using store_blocks_readable [OF assms] .

theorem stored_blocks_served_witness:
  "\<exists>positions m'. handle_store_blocks sample_digests (block_manager_new database_empty fresh_files)
       [(sample_header, 5, replicate 32 0, [1, 2, 3])] = Inr (positions, m') \<and>
     get_block (bm_backend m') (bm_files m') (block_hash sample_digests sample_header) = Inr (Some [1, 2, 3])"
  using stored_blocks_served [of "block_manager_new database_empty fresh_files" "[(sample_header, 5, replicate 32 0, [1, 2, 3])]"]
    fresh_files_ok sample_header_wf
  by (auto simp: block_manager_new_def wf_hash_def MAX_BLOCK_FILE_SIZE_def)

section \<open>The coin cache\<close>

text \<open>C5: the cache implements a map of unspent outputs.  Looking up, spending and adding are lookup,
  removal and update of that map, and they keep the invariant of the cache; adding needs the output
  to be new.\<close>

theorem cache_implements_utxo:
  assumes "cache_ok c"
  shows "fst (spend_coin c op) = utxo c op \<and> utxo (snd (spend_coin c op)) = (utxo c)(op := None) \<and>
    cache_ok (snd (spend_coin c op)) \<and> utxo (add_coin c op coin po) = (utxo c)(op \<mapsto> coin) \<and>
    (utxo c op = None \<longrightarrow> cache_ok (add_coin c op coin po))"
proof -
  have "utxo c op = None \<Longrightarrow> view_get_coin (cvc_base c) op = None \<or> map_of (cvc_cache c) op \<noteq> None"
    by (auto simp: cache_get_coin_def split: option.splits)
  with add_coin_ok [OF assms] spend_coin_refines [OF assms] add_coin_refines show ?thesis by blast
qed

theorem cache_implements_utxo_witness:
  "fst (spend_coin sample_view prior_outpoint) = Some prior_coin \<and>
   utxo (snd (spend_coin sample_view prior_outpoint)) prior_outpoint = None"
  using cache_implements_utxo [OF cache_new_ok(1), of prior_view 1000 prior_outpoint]
  by (simp add: cache_new_ok(2) prior_view_def)

text \<open>C6: flushing.  After the cache is flushed, the store by itself holds the set of unspent outputs
  the cache stood for, and the trimmed cache over it stands for the same set.\<close>

theorem flush_writes_ledger:
  assumes "cache_ok c" "cache_wf c" "cvc_base c = store_coins_view (bm_backend m)" "flush_cache m c = (m', c')"
  shows "cache_ok c' \<and> (\<forall>op. wf_outpoint op \<longrightarrow>
    view_get_coin (store_coins_view (bm_backend m')) op = utxo c op \<and> utxo c' op = utxo c op)"
  using flush_cache_correct [OF assms] by blast

definition empty_store :: block_manager where
  "empty_store = block_manager_new database_empty fresh_files"

definition one_coin_cache :: coins_view_cache where
  "one_coin_cache = add_coin (cache_new (store_coins_view (bm_backend empty_store)) 1000) prior_outpoint prior_coin False"

theorem flush_writes_ledger_witness:
  "view_get_coin (store_coins_view (bm_backend (fst (flush_cache empty_store one_coin_cache)))) prior_outpoint = Some prior_coin"
proof -
  obtain m' c' where f: "flush_cache empty_store one_coin_cache = (m', c')" by (cases "flush_cache empty_store one_coin_cache")
  have none: "view_get_coin (store_coins_view (bm_backend empty_store)) prior_outpoint = None"
    by (simp add: empty_store_def block_manager_new_def database_empty_def store_coins_view_def store_get_coin_def
        db_get_def ok_flatten_def)
  have ok: "cache_ok one_coin_cache"
    unfolding one_coin_cache_def by (rule add_coin_ok [OF cache_new_ok(1)]) (simp add: cache_new_def none)
  have wf: "cache_wf one_coin_cache"
    by (simp add: one_coin_cache_def add_coin_def cache_insert_def cache_new_def cache_wf_def Let_def wf_outpoint_def
        prior_outpoint_def wf_coin_def prior_coin_def coin_new_def wf_txout_def wf_varbytes_def MAX_WIRE_ALLOCATION_def
        MAX_MESSAGE_SIZE_def)
  have "utxo one_coin_cache prior_outpoint = Some prior_coin" by (simp add: one_coin_cache_def add_coin_refines)
  moreover have "cvc_base one_coin_cache = store_coins_view (bm_backend empty_store)"
    by (simp add: one_coin_cache_def cache_new_def)
  moreover have "wf_outpoint prior_outpoint" by (simp add: wf_outpoint_def prior_outpoint_def)
  ultimately show ?thesis using flush_writes_ledger [OF ok wf _ f] f by simp
qed

text \<open>The outputs a cache adds must be new.  When the base already holds an outpoint the cache
  has not touched, adding a coin there with the overwrite permission the code offers and then spending
  it brings the old coin back instead of removing it: the permission is ignored.\<close>

theorem overwrite_resurrects_old_coin:
  assumes "view_get_coin (cvc_base c) op = Some old" "map_of (cvc_cache c) op = None"
  shows "utxo (snd (spend_coin (add_coin c op coin True) op)) op = Some old"
  using add_coin_overwrite_resurrects [OF assms] .

theorem overwrite_resurrects_old_coin_witness:
  "utxo (snd (spend_coin (add_coin sample_view prior_outpoint (coin_new \<lparr>out_value = 5, script_pubkey = []\<rparr> 7 True) True)
     prior_outpoint)) prior_outpoint = Some prior_coin"
  using overwrite_resurrects_old_coin [of sample_view prior_outpoint prior_coin] by (simp add: cache_new_def prior_view_def)

section \<open>Consensus validation\<close>

text \<open>C7: the stateless transaction rules.  \<open>check_transaction\<close> accepts exactly the transactions with at
  least one input and output, outputs worth at most 21 million coins in all, no outpoint spent twice,
  and either a coinbase script of 2 to 100 bytes or no null outpoint among the inputs.\<close>

theorem transaction_rules_exact:
  "check_transaction tx = Inr () \<longleftrightarrow>
     inputs tx \<noteq> [] \<and> outputs tx \<noteq> [] \<and> sum_sats (outputs tx) \<le> 21000000 * 100000000 \<and>
     distinct (map previous_output (inputs tx)) \<and>
     (if is_coinbase tx then length (script_sig (inputs tx ! 0)) \<in> {2..100}
      else \<not> (\<exists>inp \<in> set (inputs tx). outpoint_is_coinbase (previous_output inp)))"
  unfolding check_transaction_rules tx_rules_def by auto

text \<open>C10: fees.  A transaction that passes the contextual check and is not a coinbase spends coins that
  exist, one per input and in order, each of them mature, and its fee is exactly what they are worth
  beyond its outputs.\<close>

theorem fee_exact:
  assumes "contextual_check_transaction_metadata tx view height = Inr (fee, spent)" "\<not> is_coinbase tx"
  shows "map Some spent = map (view \<circ> previous_output) (inputs tx) \<and> list_all (mature height) spent \<and>
    unat fee + sum_sats (outputs tx) = (\<Sum>c \<leftarrow> spent. coin_sats c)"
  using metadata_fee [OF assms] by blast

theorem fee_exact_witness:
  "contextual_check_transaction_metadata sample_spend (utxo sample_view) 1 = Inr (100, [prior_coin]) \<and>
   unat (100 :: u64) + sum_sats (outputs sample_spend) = coin_sats prior_coin"
proof -
  have m: "contextual_check_transaction_metadata sample_spend (utxo sample_view) 1 = Inr (100, [prior_coin])" by code_simp
  have "\<not> is_coinbase sample_spend" by code_simp
  from fee_exact [OF m this] m show ?thesis by simp
qed

text \<open>C2: connecting a block implements the ledger specification.  When \<open>connect_block\<close> succeeds, the
  cache stands for the set of unspent outputs in which every transaction of the block, in order, has
  removed what it spends and added what it creates; the invariant of the cache holds and the block is
  the new best block.\<close>

theorem connect_block_refines_ledger:
  assumes "connect_block H ec b height index_prev view params provider check_scripts engine = (Inr (fees, undo), view')"
    and "ready (created_by H b) view"
  shows "utxo view' = apply_block H height b (utxo view) \<and> cache_ok view' \<and>
    cache_get_best_block view' = Some (block_hash H (header b))"
  using connect_block_applies [OF assms] by blast

theorem connect_block_refines_ledger_witness:
  "\<exists>view'. connect_block sample_digests sample_secp sample_block 1 sample_prev sample_view regtest_like (\<lambda>_. None)
       True (engine_new Native) = (Inr (100, [prior_coin]), view') \<and>
     utxo view' = apply_block sample_digests 1 sample_block (utxo sample_view)"
  using sample_block_connects connect_block_refines_ledger [OF _ sample_view_ready] by blast



text \<open>C8: the supply.  The subsidies of all heights a chain can have, under the main network's halving
  interval, add up to less than 21 million coins, and each is 50 coins halved once per interval.\<close>

theorem supply_capped:
  assumes "n_subsidy_halving_interval params = 210000" "n \<le> 2 ^ 32"
  shows "(\<Sum>h < n. unat (block_subsidy (word_of_nat h) params)) \<le> 2099999997690000 \<and>
    unat (block_subsidy height params) = 5000000000 div 2 ^ (unat height div 210000)"
  using subsidy_sum [OF assms] block_subsidy_formula [of height params] assms(1) by simp

theorem supply_capped_witness:
  "(\<Sum>h < 2 ^ 32. unat (block_subsidy (word_of_nat h) mainnet_like)) \<le> 2099999997690000 \<and>
   unat (block_subsidy 420000 mainnet_like) = 1250000000"
  using supply_capped [of mainnet_like "2 ^ 32" 420000] by (simp add: mainnet_like_def)

text \<open>C9: a refused block leaves the cache as it was, unless the refusal is about the value of the
  coinbase, the one rule that is checked after the commit.\<close>

theorem refused_block_leaves_cache:
  assumes "connect_block H ec b height index_prev view params provider check_scripts engine = (Inl e, view')"
    and "e \<noteq> TotalAmountOutOfRange" "\<forall>claimed allowed. e \<noteq> CoinbaseValueTooHigh claimed allowed"
  shows "view' = view"
  using connect_block_error_frame [OF assms] .

theorem refused_block_leaves_cache_witness:
  "connect_block sample_digests sample_secp (sample_block\<lparr>transactions := []\<rparr>) 1 sample_prev sample_view regtest_like
     (\<lambda>_. None) True (engine_new Native) = (Inl NoTransactions, sample_view)"
proof -
  let ?r = "connect_block sample_digests sample_secp (sample_block\<lparr>transactions := []\<rparr>) 1 sample_prev sample_view regtest_like
     (\<lambda>_. None) True (engine_new Native)"
  have "fst ?r = Inl NoTransactions" by (simp add: connect_block_def validate_block_def check_block_def)
  then have r: "?r = (Inl NoTransactions, snd ?r)" by (metis prod.collapse)
  from refused_block_leaves_cache [OF r] r show ?thesis by simp
qed

section \<open>The chainstate actor\<close>

text \<open>C4: the headers tip.  After the genesis block is loaded into an empty index and any sequence of
  headers has been processed, the headers tip is an indexed header and no indexed header has more
  accumulated work.\<close>

theorem headers_tip_has_most_work:
  assumes "digest_sizes H" "\<forall>h. get_block_index (cs_db cs) h = Inr None" "wf_header (genesis_header params)"
    and "\<forall>(hdr, height) \<in> set hs. wf_header hdr"
  shows "most_work (cs_db (snd (handle_chainstate_msgs H ec cs
    (LoadGenesis params # map (\<lambda>(hdr, height). ProcessHeader hdr height) hs))))"
proof -
  have "most_work (cs_db (snd (load_genesis_block H params cs)))"
    using load_genesis_most_work assms(1-3) by blast
  from headers_most_work [OF assms(1,4) this] show ?thesis by (simp add: case_prod_beta)
qed

definition fresh_chainstate :: chainstate_manager where
  "fresh_chainstate = chainstate_new empty_store regtest_like 1000 (engine_new Native) True"

theorem headers_tip_has_most_work_witness:
  "most_work (cs_db (snd (handle_chainstate_msgs sample_digests sample_secp fresh_chainstate
     [LoadGenesis regtest_like, ProcessHeader sample_header 1])))"
proof -
  have "wf_header (genesis_header regtest_like)"
    by (simp add: regtest_like_def sample_block_def wf_header_def wf_hash_def txid_def digest_lengths [OF sample_digest_sizes])
  then show ?thesis
    using headers_tip_has_most_work [OF sample_digest_sizes, of fresh_chainstate regtest_like "[(sample_header, 1)]" sample_secp]
      sample_header_wf
    by (simp add: fresh_chainstate_def chainstate_new_def empty_store_def block_manager_new_def database_empty_def
        get_block_index_def db_get_def)
qed





end
