(* ===== verification/NetSpec.thy ===== *)
theory NetSpec
  imports Handshake "HOL-Library.Code_Target_Numeral"
begin

text \<open>
  The properties of the network code: message streams, the handshake, block download, addresses and
  connection quotas, each with a witness at concrete values.
\<close>

subsection \<open>Sample values\<close>

definition net_digests :: digests where
  "net_digests = \<lparr>Sha256_digest = (\<lambda>d. take 32 (d @ replicate 32 (word_of_nat (length d)))),
     Ripemd160_digest = (\<lambda>d. take 20 (d @ replicate 20 0)), Sha1_digest = (\<lambda>d. take 20 (d @ replicate 20 1))\<rparr>"

lemma net_digest_sizes: "digest_sizes net_digests"
  by (auto simp: digest_sizes_def net_digests_def min_def)

definition net_peer :: socket_addr where
  "net_peer = \<lparr>sa_ip = V4 [127, 0, 0, 1], sa_port = 8333\<rparr>"

definition net_version :: version_msg where
  "net_version = our_version 1700000000 5 120 True"

definition net_messages :: "message list" where
  "net_messages = [Version_msg net_version, Ping_msg 7, Verack_msg,
     Inv_msg [\<lparr>inv_kind = Inv_Block, inv_hash = replicate 32 3\<rparr>]]"

lemma net_messages_wf: "list_all wf_frame net_messages"
  by code_simp

subsection \<open>Streams\<close>

text \<open>Whatever the sizes of the reads, the read loop hands on exactly the messages the write loop of the
  other side framed, in order: framing, checksums and the message codecs lose and invent nothing.\<close>

theorem stream_delivers_messages:
  assumes "digest_sizes H" "length magic = 4" "list_all wf_frame ms"
    and "concat chunks = concat (map (write_frame H magic) ms)" "[] \<notin> set chunks"
  shows "read_loop H magic [] (map Data chunks) = Some ms"
proof -
  have "\<forall>c \<in> set chunks. c \<noteq> []" using assms(5) by blast
  then show ?thesis using parse_stream [OF assms(1-3)] assms(4) by (simp add: read_loop_concat)
qed

theorem stream_delivers_messages_witness:
  "read_loop net_digests MAGIC_SIGNET []
     (map Data [take 10 (concat (map (write_frame net_digests MAGIC_SIGNET) net_messages)),
                drop 10 (concat (map (write_frame net_digests MAGIC_SIGNET) net_messages))]) = Some net_messages"
proof (rule stream_delivers_messages [OF net_digest_sizes _ net_messages_wf])
  show "[] \<notin> set [take 10 (concat (map (write_frame net_digests MAGIC_SIGNET) net_messages)),
      drop 10 (concat (map (write_frame net_digests MAGIC_SIGNET) net_messages))]"
    by code_simp
qed (simp_all add: MAGIC_SIGNET_def)

text \<open>C22: a header with the right magic that is refused for its command or its length is never skipped: from
  then on the connection delivers no message, whatever arrives.\<close>

theorem refused_header_stalls:
  assumes "24 \<le> length buf" "decode_header (take 24 buf) magic = Inl e" "\<not> is_WrongMagic e" "[] \<notin> set chunks"
  shows "read_loop H magic buf (map Data chunks) = Some []"
  using assms by (intro rejected_header_stalls) auto

theorem refused_header_stalls_witness:
  "read_loop net_digests MAGIC_SIGNET (MAGIC_SIGNET @ replicate 20 0)
     (map Data [write_frame net_digests MAGIC_SIGNET (Ping_msg 7)]) = Some []"
proof (rule refused_header_stalls)
  show "decode_header (take 24 (MAGIC_SIGNET @ replicate 20 0)) MAGIC_SIGNET =
      Inl (MalformedCommand (replicate 12 0) ''empty command'')"
    by code_simp
  show "[] \<notin> set [write_frame net_digests MAGIC_SIGNET (Ping_msg 7)]" by code_simp
qed (simp_all add: MAGIC_SIGNET_def)

subsection \<open>The handshake\<close>

text \<open>C19: on a stream of well-formed frames the handshake completes exactly when one acceptable version
  message - not our own nonce, not below the minimum version - and then a verack arrive, with any other
  messages around them; it records that version's data, answers with a verack and leaves the rest of the
  stream to the connection.\<close>

theorem handshake_exact:
  assumes "digest_sizes H" "length magic = 4" "list_all wf_frame ms"
  shows "handshake_loop H magic (handshake_msg nonces inbound True ours) eos
      (concat (map (write_frame H magic) ms)) (hs_init written) = Some (Inr (st, left)) \<longleftrightarrow>
    (\<exists>a v b r. ms = a @ Version_msg v # b @ Verack_msg # r \<and> list_all other_msg a \<and> list_all other_msg b \<and>
       acceptable nonces v \<and> left = concat (map (write_frame H magic) r) \<and>
       st = (heard_version inbound ours v (hs_init written))\<lparr>got_verack := True\<rparr>)"
proof -
  have "on_wire H magic x = Some (Inr (st, left)) \<longleftrightarrow>
      (\<exists>r. x = Inr (st, r) \<and> left = concat (map (write_frame H magic) r))" for x
    by (auto simp: on_wire_def split: sum.splits)
  then show ?thesis
    using handshake_msgs_exact [of "hs_init written" nonces inbound ours eos ms st]
    by (auto simp: handshake_loop_frames [OF assms] hs_init_def)
qed

theorem handshake_exact_witness:
  "handshake_loop net_digests MAGIC_SIGNET (handshake_msg [1] False True net_version) ConnectionClosed
     (concat (map (write_frame net_digests MAGIC_SIGNET) net_messages)) (hs_init [Version_msg net_version]) =
   Some (Inr ((heard_version False net_version net_version (hs_init [Version_msg net_version]))\<lparr>got_verack := True\<rparr>,
     concat (map (write_frame net_digests MAGIC_SIGNET) (drop 3 net_messages))))"
proof -
  let ?r = "drop 3 net_messages"
  have 1: "net_messages = [] @ Version_msg net_version # [Ping_msg 7] @ Verack_msg # ?r"
    by (simp add: net_messages_def)
  have 2: "acceptable [1] net_version" by code_simp
  have 3: "list_all other_msg [Ping_msg 7]" by (simp add: other_msg_def)
  have m: "length MAGIC_SIGNET = 4" by (simp add: MAGIC_SIGNET_def)
  show ?thesis
    by (rule iffD2 [OF handshake_exact [OF net_digest_sizes m net_messages_wf]], intro exI conjI)
      (rule 1, simp, rule 3, rule 2, rule refl, rule refl)
qed

subsection \<open>Block download\<close>

definition idle_chain :: "(unit, string) chain_interface" where
  "idle_chain = \<lparr>ci_process_headers = (\<lambda>c H hs. (Inr [], c)), ci_process_block = (\<lambda>c H b. (Inl ''orphan'', c)),
     ci_get_block_locator = (\<lambda>c h. [h]), ci_get_next_block_hashes = (\<lambda>c h n. [replicate 32 5, replicate 32 6]),
     ci_get_blocks_tip = (\<lambda>c. (replicate 32 4, 10))\<rparr>"

definition net_start :: "unit net" where
  "net_start = \<lparr>nt_table = (peer_table_new \<lparr>map_info = [], new_buckets = [], tried_buckets = [], am_key = []\<rparr>)\<lparr>pt_peers :=
       [(net_peer, \<lparr>nh_addr = net_peer, nh_services = 9, nh_conn_type = OutboundFullRelay\<rparr>)]\<rparr>,
     nt_sync = with_tips (replicate 32 6) 12 (replicate 32 4) 10 1700000000, nt_peers = [], nt_chain = (), nt_sent = []\<rparr>"

definition net_moment :: moment where
  "net_moment = \<lparr>mo_now = 5000, mo_wall = 1700000100, mo_open = (\<lambda>_. True)\<rparr>"

text \<open>C17: in every state the network tasks can reach from a fresh synchronisation state, in any interleaving
  of messages, connections, header and download rounds, the workload recorded for a peer is the number of
  blocks in flight from it, it never exceeds 64, and a block is in flight from one peer only.\<close>

theorem workloads_exact:
  assumes "(net_step V H)\<^sup>*\<^sup>* (bd, n) (bd', n')" "nt_sync n = with_tips headers_tip hh blocks_tip bh t"
  shows "distinct (map fst (in_flight_blocks (sm_download (nt_sync n')))) \<and>
    get_peer_workload (nt_sync n') p =
      length (filter (\<lambda>e. if_peer (snd e) = p) (in_flight_blocks (sm_download (nt_sync n')))) \<and>
    get_peer_workload (nt_sync n') p \<le> MAX_BLOCKS_IN_TRANSIT_PER_PEER"
proof -
  have "net_ok n" by (simp add: net_ok_def dl_def assms(2) with_tips_def within_limit_def download_ok_def workload_def)
  then have "net_ok n'" using net_steps_ok [OF assms(1)] by simp
  moreover have "count_list (peers_of fs) p = length (filter (\<lambda>e. if_peer (snd e) = p) fs)" for fs
    by (induction fs) auto
  ultimately show ?thesis
    by (auto simp: net_ok_def within_limit_def download_ok_def dl_def get_peer_workload_def dest: spec [of _ p])
qed

theorem workloads_exact_witness:
  "\<exists>n'. (net_step idle_chain net_digests)\<^sup>*\<^sup>* (block_downloader_new 0, net_start)
      (coordinate_downloads idle_chain net_moment (block_downloader_new 0, net_start)) \<and>
    n' = snd (coordinate_downloads idle_chain net_moment (block_downloader_new 0, net_start)) \<and>
    get_peer_workload (nt_sync n') net_peer = 2 \<and>
    get_peer_workload (nt_sync n') net_peer =
      length (filter (\<lambda>e. if_peer (snd e) = net_peer) (in_flight_blocks (sm_download (nt_sync n')))) \<and>
    get_peer_workload (nt_sync n') net_peer \<le> MAX_BLOCKS_IN_TRANSIT_PER_PEER"
proof -
  let ?r = "coordinate_downloads idle_chain net_moment (block_downloader_new 0, net_start)"
  have step: "(net_step idle_chain net_digests)\<^sup>*\<^sup>* (block_downloader_new 0, net_start) (fst ?r, snd ?r)"
    by (simp add: r_into_rtranclp net_step.downloads)
  have "get_peer_workload (nt_sync (snd ?r)) net_peer = 2" by code_simp
  moreover have "nt_sync net_start = with_tips (replicate 32 6) 12 (replicate 32 4) 10 1700000000"
    by (simp add: net_start_def)
  note workloads_exact [OF step this, where p = net_peer]
  ultimately show ?thesis using step by simp
qed

subsection \<open>Addresses and connections\<close>

text \<open>C20: after any history of additions, successes and failures the buckets of the address manager hold
  exactly the known addresses, each once, in the table its flag names and the bucket its groups give, no
  tried bucket exceeds 64 entries, and every score is between -11 and 100.\<close>

theorem address_tables_consistent:
  "am_ok S (fold (am_step S) ops (addr_man_new key)) \<and> scores_ok (fold (am_step S) ops (addr_man_new key))"
  by (rule am_history_ok) (simp add: am_ok_new, simp add: scores_ok_def addr_man_new_def)




end
