(* ===== verification/NodeSpec.thy ===== *)
theory NodeSpec
  imports Startup LedgerSpec NetSpec
begin

text \<open>The properties of the node as a whole: parameters, header index, best header path and block download.\<close>

section \<open>Chain parameters and hash texts\<close>

text \<open>The parameters of testnet, signet and regtest can be built and are well formed, with the network's
  own message-start bytes; building those of mainnet, the default chain, panics, because the minimum chain
  work is written with 60 hexadecimal digits instead of 64.\<close>

theorem mainnet_parameters_panic:
  assumes "hex_documented X" "digest_sizes H"
  shows "(type_params H X t = None \<longleftrightarrow> t = Mainnet) \<and>
    (\<forall>params. type_params H X t = Some params \<longrightarrow>
       wf_params H params \<and> magic_to_string (cp_magic params) = chain_type_name t)"
proof (intro conjI allI impI)
  show "type_params H X t = None \<longleftrightarrow> t = Mainnet" by (rule type_params_defined(1) [OF assms])
  fix params
  assume "type_params H X t = Some params"
  note defined = type_params_defined(2) [OF assms this]
  show "wf_params H params" by (rule conjunct1 [OF defined])
  show "magic_to_string (cp_magic params) = chain_type_name t" by (rule conjunct2 [OF defined])
qed

theorem mainnet_parameters_panic_witness:
  "type_params sample_digests reference_hex Mainnet = None \<and>
   (\<exists>params. type_params sample_digests reference_hex Signet = Some params \<and> wf_params sample_digests params)"
proof -
  note panic = mainnet_parameters_panic [OF reference_hex_documented sample_digest_sizes]
  have "type_params sample_digests reference_hex Mainnet = None" by (rule iffD2 [OF conjunct1 [OF panic]]) (rule refl)
  moreover have "type_params sample_digests reference_hex Signet \<noteq> None"
    using conjunct1 [OF panic, of Signet] by (simp only: chain_type.distinct not_False_eq_True)
  then obtain params where params: "type_params sample_digests reference_hex Signet = Some params" by blast
  moreover have "wf_params sample_digests params"
    using conjunct2 [OF panic, of Signet] params by (simp only: simp_thms)
  ultimately show ?thesis by blast
qed

text \<open>hash texts.  Printing a hash and parsing it back gives the hash; whatever parses is a hash of 32 bytes
  whose printed form is the same text in lower case.\<close>

theorem hash_text_roundtrip:
  assumes "hex_documented X"
  shows "(wf_hash h \<longrightarrow> hash_from_str X context (hash_to_string X h) = Inr h) \<and>
    (hash_from_str X context s = Inr h \<longrightarrow> wf_hash h \<and> hash_to_string X h = map ascii_lower s)"
  using hash_from_str_to_string [OF assms] hash_to_string_from_str [OF assms] by blast

theorem hash_text_roundtrip_witness:
  "hash_from_str reference_hex ''BlockHash'' (hash_to_string reference_hex (replicate 32 171)) = Inr (replicate 32 171)"
  using hash_text_roundtrip [OF reference_hex_documented, of "replicate 32 171"] by (simp add: wf_hash_def)

section \<open>The header index\<close>

text \<open>A chain of two headers over the sample genesis block.\<close>

definition second_header :: block_header where
  "second_header = \<lparr>bh_version = 2, prev_hash = block_hash sample_digests (header sample_block),
     merkle_root = replicate 32 9, bh_time = 600, bh_bits = 0x207fffff, bh_nonce = 0\<rparr>"

definition fresh_node :: blockchain where
  "fresh_node = snd (node_load_genesis sample_digests (blockchain_new fresh_chainstate [] regtest_like))"

definition two_headers :: "block_header set" where
  "two_headers = {header sample_block, second_header}"

lemma two_headers_known: "headers_known sample_digests two_headers"
proof -
  have "block_hash sample_digests second_header \<noteq> block_hash sample_digests (header sample_block)" by code_simp
  moreover have "wf_header second_header \<and> wf_header (header sample_block)"
    by (simp add: second_header_def sample_block_def wf_header_def wf_hash_def txid_def block_hash_def
        digest_lengths [OF sample_digest_sizes])
  ultimately show ?thesis
    using sample_digest_sizes by (auto simp: headers_known_def two_headers_def inj_on_def)
qed

lemma fresh_index:
  "get_block_index (bc_db fresh_node) h = (if h = genesis_hash sample_digests regtest_like
     then Inr (Some (genesis_index regtest_like)) else Inr None)"
  "get_headers_tip (bc_db fresh_node) = Inr (Some (genesis_hash sample_digests regtest_like))"
  "tree_of (bc_db fresh_node) = [genesis_hash sample_digests regtest_like \<mapsto> genesis_index regtest_like]"
  "most_work (bc_db fresh_node)" "bm_pending_undo_indexes (bc_store fresh_node) = []" "bc_params fresh_node = regtest_like"
proof -
  have wg: "wf_header (genesis_header regtest_like)"
    using two_headers_known by (simp add: headers_known_def two_headers_def regtest_like_def)
  have "get_block_index (cs_db fresh_chainstate) h = Inr None" for h
    by (simp add: fresh_chainstate_def chainstate_new_def empty_store_def block_manager_new_def empty_index)
  note loaded = genesis_loaded [OF this sample_digest_sizes wg]
  have cs: "bc_chainstate fresh_node = snd (load_genesis_block sample_digests regtest_like fresh_chainstate)"
    "bc_params fresh_node = regtest_like"
    by (simp_all add: fresh_node_def node_load_genesis_def blockchain_new_def on_chainstate_def split: prod.splits)
  show "get_block_index (bc_db fresh_node) h = (if h = genesis_hash sample_digests regtest_like
     then Inr (Some (genesis_index regtest_like)) else Inr None)"
    "get_headers_tip (bc_db fresh_node) = Inr (Some (genesis_hash sample_digests regtest_like))" "most_work (bc_db fresh_node)"
    using loaded(2) by (simp_all add: cs genesis_only_def)
  show "tree_of (bc_db fresh_node) = [genesis_hash sample_digests regtest_like \<mapsto> genesis_index regtest_like]"
    using genesis_only_tree [OF loaded(2)] by (simp add: cs)
  show "bm_pending_undo_indexes (bc_store fresh_node) = []" "bc_params fresh_node = regtest_like"
    using loaded(3) by (simp_all add: cs fresh_chainstate_def chainstate_new_def empty_store_def block_manager_new_def)
qed

lemma fresh_tree_ok: "tree_ok sample_digests regtest_like (tree_of (bc_db fresh_node))"
  using two_headers_known block_work_value(2)
  by (auto simp: fresh_index(3) tree_ok_def genesis_index_def genesis_hash_def wf_block_index_def headers_known_def
      two_headers_def regtest_like_def split: if_splits)

lemma fresh_node_sane: "index_sane sample_digests regtest_like two_headers fresh_node"
  using two_headers_known fresh_tree_ok fresh_index(4-6)
  by (auto simp: index_sane_def pending_ok_def fresh_index(3) ran_def genesis_index_def two_headers_def regtest_like_def
      simp del: tree_of_Some split: if_splits)

text \<open>The header index under any run of the node.  Take any set of headers in which no two have the same
  hash.  Whatever peers send of these headers and blocks, in whatever order, and however their messages
  interleave with connections, download rounds and activations of the chain, the index stays a tree: every
  header other than genesis has its parent in the index, the next height, its parent's work plus its own,
  and a hash below its target; the headers tip has most work; and the download bookkeeping stays exact.\<close>

theorem peers_keep_header_tree:
  assumes "(node_step (blockchain_interface ec H) H (fair_msg U) (activates H ec))\<^sup>*\<^sup>* (bd, n) (bd', n')"
    and "index_sane H params U (nt_chain n)" "net_ok n"
  shows "tree_ok H params (tree_of (bc_db (nt_chain n'))) \<and> most_work (bc_db (nt_chain n')) \<and> net_ok n'"
  using node.node_steps_sane [OF assms(1)] assms(2,3) by (simp add: index_sane_def)

definition node_net :: "blockchain \<Rightarrow> blockchain net" where
  "node_net bc = \<lparr>nt_table = (peer_table_new \<lparr>map_info = [], new_buckets = [], tried_buckets = [], am_key = []\<rparr>)\<lparr>pt_peers :=
       [(net_peer, \<lparr>nh_addr = net_peer, nh_services = 9, nh_conn_type = OutboundFullRelay\<rparr>)]\<rparr>,
     nt_sync = with_tips (replicate 32 6) 12 (replicate 32 4) 0 1700000000, nt_peers = [], nt_chain = bc, nt_sent = []\<rparr>"

lemma node_net_ok: "net_ok (node_net bc)"
  by (simp add: net_ok_def dl_def node_net_def with_tips_def within_limit_def download_ok_def workload_def)

theorem peers_keep_header_tree_witness:
  "tree_ok sample_digests regtest_like (tree_of (bc_db (nt_chain
     (process_message (blockchain_interface sample_secp sample_digests) sample_digests net_moment net_peer
       (Headers_msg [second_header]) (node_net fresh_node)))))"
proof -
  let ?V = "blockchain_interface sample_secp sample_digests"
  let ?n = "process_message ?V sample_digests net_moment net_peer (Headers_msg [second_header]) (node_net fresh_node)"
  have "fair_msg two_headers (Headers_msg [second_header])" by (simp add: fair_msg_def two_headers_def)
  then have step: "(node_step ?V sample_digests (fair_msg two_headers) (activates sample_digests sample_secp))\<^sup>*\<^sup>*
      (block_downloader_new 0, node_net fresh_node) (block_downloader_new 0, ?n)"
    by (intro r_into_rtranclp node_step.peer_message)
  have "nt_chain (node_net fresh_node) = fresh_node" by (simp add: node_net_def)
  with peers_keep_header_tree [OF step, of regtest_like] fresh_node_sane node_net_ok show ?thesis by simp
qed

text \<open>C12: one \<open>headers\<close> message.  A refused message changes nothing.  An accepted one adds the headers up to
  the first one whose parent is unknown, keeps everything indexed before, and answers with the heights the
  index now gives them.\<close>

theorem headers_message_exact:
  assumes "node_process_headers H bc headers = (r, bc')" "tree_ok H (bc_params bc) (tree_of (bc_db bc))" "most_work (bc_db bc)"
    and "inj_on (block_hash H) (set headers)" "\<forall>hdr \<in> set headers. wf_header hdr" "digest_sizes H"
  shows "(\<forall>e. r = Inl e \<longrightarrow> bc' = bc) \<and> tree_of (bc_db bc) \<subseteq>\<^sub>m tree_of (bc_db bc') \<and>
    (\<forall>heights. r = Inr heights \<longrightarrow>
      (\<exists>k. heights_match H (tree_of (bc_db bc')) (take k headers) heights \<and>
         (k < length headers \<longrightarrow> tree_of (bc_db bc') (prev_hash (headers ! k)) = None)))"
proof -
  note p = process_headers_tree [OF assms]
  have "\<exists>k. heights_match H (tree_of (bc_db bc')) (take k headers) heights \<and>
      (k < length headers \<longrightarrow> tree_of (bc_db bc') (prev_hash (headers ! k)) = None)" if "r = Inr heights" for heights
  proof -
    from p that obtain k where k: "heights_match H (tree_of (bc_db bc')) (take k headers) heights"
      "stops_at_orphan H bc (tree_of (bc_db bc')) (drop k headers)"
      by auto
    then have "k < length headers \<longrightarrow> tree_of (bc_db bc') (prev_hash (headers ! k)) = None"
      by (auto simp: stops_at_orphan_def simp flip: Cons_nth_drop_Suc)
    with k(1) show ?thesis by blast
  qed
  with p show ?thesis by (auto split: sum.splits)
qed

lemma second_header_valid:
  "check_block_header sample_digests second_header (genesis_index regtest_like) regtest_like provider = Inr ()"
proof -
  have "meets_target sample_digests second_header" by code_simp
  then show ?thesis
    by (simp add: check_block_header_def get_next_work_required_def regtest_like_def second_header_def genesis_index_def
        sample_block_def)
qed

lemma second_header_accepted:
  assumes "bc_chainstate bc = bc_chainstate fresh_node" "bc_params bc = regtest_like"
  shows "\<exists>bc'. node_process_headers sample_digests bc [second_header] = (Inr [1], bc')"
proof -
  have "block_hash sample_digests second_header \<noteq> genesis_hash sample_digests regtest_like" by code_simp
  moreover have "prev_hash second_header = genesis_hash sample_digests regtest_like"
    by (simp add: second_header_def genesis_hash_def regtest_like_def)
  ultimately have loop: "headers_loop sample_digests bc [second_header] (batch_start (bc_db fresh_node) tip) =
      Inr (batch_new (block_hash sample_digests second_header) (header_index second_header (genesis_index regtest_like))
        (batch_start (bc_db fresh_node) tip))" for tip
    by (simp add: assms fresh_index(1) batch_start_def batch_parent_def second_header_valid ok_flatten_def)
  show ?thesis
    unfolding node_process_headers_def assms(1) fresh_index(2) map_err_simps and_then.simps loop
    by (simp add: batch_new_def batch_known_def batch_start_def Let_def on_chainstate_def process_headers_def header_index_def
        genesis_index_def)
qed

theorem headers_message_exact_witness:
  "\<exists>bc' i. node_process_headers sample_digests fresh_node [second_header] = (Inr [1], bc') \<and>
     tree_of (bc_db bc') (block_hash sample_digests second_header) = Some i \<and> bi_height i = 1"
proof -
  obtain bc' where r: "node_process_headers sample_digests fresh_node [second_header] = (Inr [1], bc')"
    using second_header_accepted [OF refl fresh_index(6)] by blast
  have "\<forall>hdr \<in> set [second_header]. wf_header hdr"
    using two_headers_known by (simp add: headers_known_def two_headers_def)
  from headers_message_exact [OF r _ _ _ this sample_digest_sizes] fresh_tree_ok fresh_index(4,6)
  obtain k where "heights_match sample_digests (tree_of (bc_db bc')) (take k [second_header]) [1]" by auto
  with r show ?thesis by (cases k) (auto simp: heights_match_def)
qed

section \<open>The best header path\<close>

text \<open>C16: startup.  From a sound index the node rebuilds in memory the one path from genesis to the headers
  tip: entry \<open>k\<close> is an indexed header of height \<open>k\<close> whose parent is entry \<open>k - 1\<close>.\<close>

theorem startup_path_sound:
  assumes "tree_ok H params (tree_of (cs_db cs))" "\<forall>h i. tree_of (cs_db cs) h = Some i \<longrightarrow> \<not> is_zero h"
    and "get_headers_tip (cs_db cs) = Inr (Some tip)" "tree_of (cs_db cs) tip = Some i" "heights_free (tree_of (cs_db cs))"
  shows "path_ok H params (tree_of (cs_db cs)) (best_header_chain (blockchain_new cs pool params)) \<and>
    last (best_header_chain (blockchain_new cs pool params)) = tip \<and>
    length (best_header_chain (blockchain_new cs pool params)) = Suc (unat (bi_height i))"
  using reconstruct_path [OF assms] by (simp add: blockchain_new_def)

lemma fresh_genesis: "\<not> is_zero (genesis_hash sample_digests regtest_like)" "heights_free (tree_of (bc_db fresh_node))"
proof -
  show "\<not> is_zero (genesis_hash sample_digests regtest_like)" by code_simp
  show "heights_free (tree_of (bc_db fresh_node))"
    by (auto simp: heights_free_def fresh_index(3) genesis_index_def simp del: tree_of_Some split: if_splits)
qed

theorem startup_path_sound_witness:
  "best_header_chain (blockchain_new (bc_chainstate fresh_node) [] regtest_like) = [genesis_hash sample_digests regtest_like]"
proof -
  let ?c = "best_header_chain (blockchain_new (bc_chainstate fresh_node) [] regtest_like)"
  have "tree_of (bc_db fresh_node) (genesis_hash sample_digests regtest_like) = Some (genesis_index regtest_like)"
    by (simp only: fresh_index(3)) simp
  moreover have "\<forall>h i. tree_of (bc_db fresh_node) h = Some i \<longrightarrow> \<not> is_zero h"
    using fresh_genesis(1) by (simp add: fresh_index(3) del: tree_of_Some)
  ultimately have "last ?c = genesis_hash sample_digests regtest_like" "length ?c = Suc 0"
    using startup_path_sound [OF fresh_tree_ok _ fresh_index(2) _ fresh_genesis(2), of "genesis_index regtest_like" "[]"]
    by (simp_all add: genesis_index_def)
  then show ?thesis by (cases ?c) simp_all
qed

text \<open>A message that extends the best header path extends the path in memory by the accepted headers,
  and the longer path is again a path of the index.\<close>

theorem extension_followed:
  assumes "node_process_headers H bc headers = (Inr heights, bc')" "tree_ok H (bc_params bc) (tree_of (bc_db bc))"
    and "most_work (bc_db bc)" "digest_sizes H" "\<forall>hdr \<in> set headers. wf_header hdr"
    and "inj_on (block_hash H) (insert (genesis_header (bc_params bc)) (set headers \<union> bi_header ` ran (tree_of (bc_db bc))))"
    and "length (best_header_chain bc) + length headers < 2 ^ 32"
    and "path_ok H (bc_params bc) (tree_of (bc_db bc)) (best_header_chain bc)"
    and "linked_from H (last (best_header_chain bc)) headers" "genesis_header (bc_params bc) \<notin> set headers"
  shows "best_header_chain bc' = best_header_chain bc @ map (block_hash H) (take (length heights) headers) \<and>
    path_ok H (bc_params bc) (tree_of (bc_db bc')) (best_header_chain bc')"
  by (rule headers_extend_path [OF assms])

definition rebuilt_node :: blockchain where
  "rebuilt_node = blockchain_new (bc_chainstate fresh_node) [] regtest_like"

lemma rebuilt_node_simps:
  "bc_chainstate rebuilt_node = bc_chainstate fresh_node" "bc_params rebuilt_node = regtest_like"
  "best_header_chain rebuilt_node = [genesis_hash sample_digests regtest_like]"
proof -
  show "bc_chainstate rebuilt_node = bc_chainstate fresh_node" "bc_params rebuilt_node = regtest_like"
    by (simp_all add: rebuilt_node_def blockchain_new_def)
  have "reconstruct_header_chain (bc_db fresh_node) [] = [genesis_hash sample_digests regtest_like]"
    using fresh_genesis(1)
    by (simp add: reconstruct_header_chain_def fresh_index(1,2) ok_flatten_def genesis_index_def)
  then show "best_header_chain rebuilt_node = [genesis_hash sample_digests regtest_like]"
    by (simp add: rebuilt_node_def blockchain_new_def)
qed

theorem extension_followed_witness:
  "\<exists>bc'. node_process_headers sample_digests rebuilt_node [second_header] = (Inr [1], bc') \<and>
     best_header_chain bc' = [genesis_hash sample_digests regtest_like, block_hash sample_digests second_header]"
proof -
  obtain bc' where r: "node_process_headers sample_digests rebuilt_node [second_header] = (Inr [1], bc')"
    using second_header_accepted [OF rebuilt_node_simps(1,2)] by blast
  have g: "genesis_header regtest_like = header sample_block" by (simp add: regtest_like_def)
  have known: "inj_on (block_hash sample_digests) two_headers" "wf_header second_header"
    using two_headers_known by (simp_all add: headers_known_def two_headers_def)
  have "best_header_chain bc' = best_header_chain rebuilt_node @ map (block_hash sample_digests) (take (length [1 :: u32]) [second_header]) \<and>
    path_ok sample_digests (bc_params rebuilt_node) (tree_of (bc_db bc')) (best_header_chain bc')"
  proof (rule extension_followed [OF r])
    show "inj_on (block_hash sample_digests) (insert (genesis_header (bc_params rebuilt_node))
        (set [second_header] \<union> bi_header ` ran (tree_of (bc_db rebuilt_node))))"
      by (rule inj_on_subset [OF known(1)])
        (auto simp: rebuilt_node_simps g two_headers_def fresh_index(3) genesis_index_def ran_def simp del: tree_of_Some
          split: if_splits)
    show "path_ok sample_digests (bc_params rebuilt_node) (tree_of (bc_db rebuilt_node)) (best_header_chain rebuilt_node)"
      by (simp add: rebuilt_node_simps path_ok_def on_path_def fresh_index(3) genesis_index_def del: tree_of_Some)
    show "linked_from sample_digests (last (best_header_chain rebuilt_node)) [second_header]"
      by (simp add: rebuilt_node_simps second_header_def genesis_hash_def g)
    show "genesis_header (bc_params rebuilt_node) \<notin> set [second_header]"
      by (simp add: rebuilt_node_simps g second_header_def sample_block_def)
  qed (use fresh_tree_ok fresh_index(4) known(2) sample_digest_sizes in \<open>simp_all add: rebuilt_node_simps\<close>)
  with r show ?thesis by (auto simp: rebuilt_node_simps)
qed

text \<open>The locator the node sends for a header of its path starts at that header, goes back along the path
  with strictly falling heights and ends at genesis, in at most 44 entries.\<close>

theorem node_locator_exact:
  assumes "path_ok H (bc_params bc) (tree_of (bc_db bc)) (best_header_chain bc)" "n < length (best_header_chain bc)"
    and "\<forall>h \<in> set (best_header_chain bc). \<not> is_zero h" "length (best_header_chain bc) \<le> 2 ^ 32"
  shows "\<exists>heights. block_locator H bc (best_header_chain bc ! n) = map ((!) (best_header_chain bc)) heights \<and>
    sorted_wrt (>) heights \<and> heights \<noteq> [] \<and> hd heights = n \<and> last heights = 0 \<and> length heights \<le> 44"
  by (rule node_locator [OF assms])

theorem node_locator_exact_witness:
  "block_locator sample_digests rebuilt_node (genesis_hash sample_digests regtest_like) = [genesis_hash sample_digests regtest_like]"
proof -
  have "path_ok sample_digests (bc_params rebuilt_node) (tree_of (bc_db rebuilt_node)) (best_header_chain rebuilt_node)"
    by (simp add: rebuilt_node_simps path_ok_def on_path_def fresh_index(3) genesis_index_def del: tree_of_Some)
  from node_locator_exact [OF this, of 0] obtain heights where
    hs: "block_locator sample_digests rebuilt_node (genesis_hash sample_digests regtest_like) =
      map ((!) [genesis_hash sample_digests regtest_like]) heights" "sorted_wrt (>) heights" "heights \<noteq> []" "hd heights = 0"
    using fresh_genesis(1) by (auto simp: rebuilt_node_simps)
  then have "heights = [0]" by (cases heights; cases "tl heights") auto
  with hs(1) show ?thesis by simp
qed

section \<open>Blocks\<close>



text \<open>C13: a block that passes the stateless checks and whose header is indexed without a body is stored: the node
  answers with its height, serves its exact bytes from then on, queues it for activation, keeps every other
  entry of the index, and never proposes it for download again.\<close>

theorem accepted_block_served:
  assumes "check_block H ec b (bc_params bc) = Inr ()"
    and "get_block_index (bc_db bc) (block_hash H (header b)) = Inr (Some i)" "file_pos i = None" "bi_header i = header b"
    and "wf_block_index i" "bfm_ok (bm_files (bc_store bc))" "unat (bfm_current_file (bm_files (bc_store bc))) + 1 < 2 ^ 32"
  shows "\<exists>bc'. node_process_block ec H bc b = (Inr (bi_height i), bc') \<and>
    bc_get_block bc' (block_hash H (header b)) = Inr (Some (serialize encode_block b)) \<and>
    waiting_blocks (bc_chainstate bc') (bi_height i) = Some (block_hash H (header b)) \<and>
    (\<forall>h. h \<noteq> block_hash H (header b) \<longrightarrow> tree_of (bc_db bc') h = tree_of (bc_db bc) h) \<and>
    (\<forall>start_height limit. Suc (unat start_height) + limit < 2 ^ 32 \<longrightarrow>
       block_hash H (header b) \<notin> set (get_next_block_hashes_for_sync bc' start_height limit))"
proof -
  obtain bc' pos where bc': "node_process_block ec H bc b = (Inr (bi_height i), bc')"
    "bc_get_block bc' (block_hash H (header b)) = Inr (Some (serialize encode_block b))"
    "tree_of (bc_db bc') = (tree_of (bc_db bc))(block_hash H (header b) \<mapsto> i\<lparr>file_pos := Some pos, undo_pos := None\<rparr>)"
    "waiting_blocks (bc_chainstate bc') = (waiting_blocks (bc_chainstate bc))(bi_height i \<mapsto> block_hash H (header b))"
    by (rule process_block_new [OF assms])
  then have "\<not> needs_block_data bc' (block_hash H (header b))" by (simp add: needs_block_data_def)
  then have "block_hash H (header b) \<notin> set (get_next_block_hashes_for_sync bc' start_height limit)"
    if "Suc (unat start_height) + limit < 2 ^ 32" for start_height limit
    using next_hashes_window(3) [OF that] by blast
  with bc' show ?thesis by (intro exI [of _ bc']) simp
qed

lemma fresh_node_files:
  "bm_files (bc_store fresh_node) = fresh_files"
  "active_tip (bc_chainstate fresh_node) = Some (genesis_hash sample_digests regtest_like, 0)"
proof -
  have "get_block_index (cs_db fresh_chainstate) h = Inr None" for h
    by (simp add: fresh_chainstate_def chainstate_new_def empty_store_def block_manager_new_def database_empty_def
        get_block_index_def db_get_def)
  then show "bm_files (bc_store fresh_node) = fresh_files"
    "active_tip (bc_chainstate fresh_node) = Some (genesis_hash sample_digests regtest_like, 0)"
    by (simp_all add: fresh_node_def node_load_genesis_def blockchain_new_def on_chainstate_def load_genesis_block_def Let_def
        handle_update_active_tip_def handle_update_header_index_def handle_update_headers_tip_def handle_store_block_index_def
        with_store_def fresh_chainstate_def chainstate_new_def empty_store_def block_manager_new_def)
qed

theorem accepted_block_served_witness:
  "\<exists>bc'. node_process_block sample_secp sample_digests fresh_node sample_block = (Inr 0, bc') \<and>
     bc_get_block bc' (genesis_hash sample_digests regtest_like) = Inr (Some (serialize encode_block sample_block))"
proof -
  have h: "block_hash sample_digests (header sample_block) = genesis_hash sample_digests regtest_like"
    by (simp add: genesis_hash_def regtest_like_def)
  have wi: "wf_block_index (genesis_index regtest_like)"
    using tree_ok_entry(2) [OF fresh_tree_ok, of "genesis_hash sample_digests regtest_like"] by (simp only: fresh_index(3)) simp
  have "\<exists>bc'. node_process_block sample_secp sample_digests fresh_node sample_block = (Inr (bi_height (genesis_index regtest_like)), bc') \<and>
    bc_get_block bc' (block_hash sample_digests (header sample_block)) = Inr (Some (serialize encode_block sample_block))"
    using accepted_block_served [of sample_digests sample_secp sample_block fresh_node "genesis_index regtest_like"]
      sample_check_block wi fresh_files_ok
    by (auto simp: fresh_index(1,6) h fresh_node_files genesis_index_def regtest_like_def)
  then show ?thesis by (simp add: h genesis_index_def)
qed




section \<open>Departures\<close>

text \<open>A header the node already knows cuts the best header path at its height when it is not on the path,
  whatever its work: the cache is truncated although the headers tip does not move.\<close>

theorem known_header_cuts_path:
  assumes "get_headers_tip (bc_db bc) = Inr tip" "get_block_index (bc_db bc) (block_hash H hdr) = Inr (Some i)"
    and "unat (bi_height i) < length (best_header_chain bc)" "best_header_chain bc ! unat (bi_height i) \<noteq> block_hash H hdr"
  shows "node_process_headers H bc [hdr] = (Inr [bi_height i],
    bc\<lparr>best_header_chain := take (unat (bi_height i)) (best_header_chain bc) @ [block_hash H hdr]\<rparr>)"
proof -
  have "best_header_chain bc \<noteq> []" using assms(3) by auto
  then have "update_header_chain (block_hash H hdr) (bi_height i) (best_header_chain bc) =
      take (unat (bi_height i)) (best_header_chain bc) @ [block_hash H hdr]"
    using assms(3,4) by (simp add: update_header_chain_def)
  then show ?thesis
    using assms(1,2) by (simp add: node_process_headers_def batch_known_def batch_start_def)
qed

text \<open>A single header with a zero parent is stored as a second header of height zero without any check of its
  proof of work or difficulty.\<close>

theorem zero_parent_header_unchecked:
  assumes "get_block_index (bc_db bc) (block_hash H hdr) = Inr None" "is_zero (prev_hash hdr)" "most_work (bc_db bc)"
    and "digest_sizes H" "wf_header hdr"
  shows "\<exists>bc' i. node_process_header H bc hdr = (Inr 0, bc') \<and>
    get_block_index (bc_db bc') (block_hash H hdr) = Inr (Some i) \<and> bi_header i = hdr \<and> bi_height i = 0"
proof -
  let ?h = "block_hash H hdr" and ?w = "add_chain_work hash_ZERO (calculate_block_work (bh_bits hdr))"
  let ?i = "\<lparr>bi_header = hdr, bi_height = 0, chain_work = ?w, file_pos = None, undo_pos = None\<rparr>"
  have wi: "wf_block_index ?i" using add_chain_work_value [OF _ block_work_value(2)] assms(5) by (simp add: wf_block_index_def)
  have wh: "wf_hash ?h" using assms(4) by (simp add: block_hash_def)
  obtain tip j where tip: "get_headers_tip (bc_db bc) = Inr (Some tip)" "get_block_index (bc_db bc) tip = Inr (Some j)"
    using assms(3) by (auto simp: most_work_def)
  note r = put_block_index_reads [OF wi, of ?h "bc_db bc"]
  have "\<exists>cs. process_header H (bc_chainstate bc) hdr 0 = (Inr (), cs) \<and> get_block_index (cs_db cs) ?h = Inr (Some ?i)"
    using assms(1,2) tip
    by (auto simp: process_header_def Let_def r handle_store_block_index_def work_of_def tip_index_def
        cs_update_headers_tip_def headers_tip_reads [OF wh])
  then obtain cs where "process_header H (bc_chainstate bc) hdr 0 = (Inr (), cs)" "get_block_index (cs_db cs) ?h = Inr (Some ?i)"
    by blast
  then show ?thesis using assms(1,2) by (simp add: node_process_header_def Let_def on_chainstate_def)
qed

end
