(* ===== verification/RpcSpec.thy ===== *)
theory RpcSpec
  imports Rpc Listener NodeSpec
begin

text \<open>The properties of the node as its users and its inbound peers see it: the RPC server and the accept loop.\<close>

section \<open>The RPC server\<close>

text \<open>C23: a block the node accepts is served over RPC.  From then on \<^verbatim>\<open>getblock\<close> with the text of its hash answers
  with the hexadecimal text of its exact bytes at verbosity 0, and at verbosity 1 with the texts of its
  transaction ids in order, of its parent and of its target.\<close>

theorem rpc_serves_accepted_block:
  assumes "check_block H ec b (bc_params bc) = Inr ()"
    and "get_block_index (bc_db bc) (block_hash H (header b)) = Inr (Some i)" "file_pos i = None" "bi_header i = header b"
    and "wf_block_index i" "bfm_ok (bm_files (bc_store bc))" "unat (bfm_current_file (bm_files (bc_store bc))) + 1 < 2 ^ 32"
    and "hex_documented X" "digest_sizes H" "wf_block b"
  shows "\<exists>bc'. node_process_block ec H bc b = (Inr (bi_height i), bc') \<and>
    (let answer = (\<lambda>verbosity. get_field ''result'' (handle_http_request H X texts
           (\<lambda>_. \<lparr>rx_node = blockchain_node texts bc', rx_p2p = cm\<rparr>)
           (Single \<lparr>rq_id = rid, rq_jsonrpc = ''2.0'', rq_method = ''getblock'',
              rq_params = Some [JString (hash_to_string X (block_hash H (header b))), JInt verbosity]\<rparr>)))
     in answer 0 = Some (JString (hex_text (serialize encode_block b))) \<and>
        (\<exists>v. answer 1 = Some v \<and>
           get_field ''tx'' v = Some (JArray (map (\<lambda>tx. JString (hash_to_string X (txid H tx))) (transactions b))) \<and>
           get_field ''previousblockhash'' v = Some (JString (hash_to_string X (prev_hash (header b)))) \<and>
           (\<exists>s. get_field ''bits'' v = Some (JString s) \<and> digits_value 16 0 s = Some (unat (bh_bits (header b))))))"
proof -
  obtain bc' where bc': "node_process_block ec H bc b = (Inr (bi_height i), bc')"
    "bc_get_block bc' (block_hash H (header b)) = Inr (Some (serialize encode_block b))"
    using process_block_new [OF assms(1-7)] by metis
  let ?ctx = "\<lparr>rx_node = blockchain_node texts bc', rx_p2p = cm\<rparr>"
  let ?req = "\<lambda>verbosity. \<lparr>rq_id = rid, rq_jsonrpc = ''2.0'', rq_method = ''getblock'',
              rq_params = Some [JString (hash_to_string X (block_hash H (header b))), JInt verbosity]\<rparr>"
  have raw: "np_block_raw (rx_node ?ctx) (block_hash H (header b)) = Inr (Some (serialize encode_block b))"
    using bc'(2) by (simp add: blockchain_node_def rpc_get_block_raw_def)
  have wf: "wf_hash (block_hash H (header b))" using assms(9) by (simp add: block_hash_def)
  note answers = getblock_answer [OF assms(8) wf raw, where H = H and texts = texts]
  have "map_http_requests H X texts (?req 0) ?ctx = Inr (JString (hex_text (serialize encode_block b)))"
    by (rule answers(1) [of "?req 0" 0]) simp_all
  moreover obtain v where "map_http_requests H X texts (?req 1) ?ctx = Inr v"
    "get_field ''tx'' v = Some (JArray (map (\<lambda>tx. JString (hash_to_string X (txid H tx))) (transactions b)))"
    "get_field ''previousblockhash'' v = Some (JString (hash_to_string X (prev_hash (header b))))"
    "\<exists>s. get_field ''bits'' v = Some (JString s) \<and> digits_value 16 0 s = Some (unat (bh_bits (header b)))"
    using answers(2) [of "?req 1" 1] assms(10) by auto
  ultimately show ?thesis
    using bc'(1) by (intro exI [of _ bc']) (simp add: handle_http_request_def rpc_response_fields Let_def)
qed

lemma sample_block_wf: "wf_block sample_block"
  using sample_coinbase_root
  by (simp add: sample_block_def sample_coinbase_def sample_spend_def prior_outpoint_def wf_block_def wf_header_def wf_hash_def hash_ZERO_def
      wf_list_def wf_tx_def wf_txin_def wf_outpoint_def wf_varbytes_def wf_txout_def MAX_WIRE_ALLOCATION_def MAX_MESSAGE_SIZE_def)

definition no_texts :: error_texts where
  "no_texts = \<lparr>et_store = (\<lambda>_. ''storage error''), et_decode = (\<lambda>_. ''decode error'')\<rparr>"

definition regtest_connman :: "blockchain connman" where
  "regtest_connman = connman_new [] MAGIC_REGTEST (node_net fresh_node)"

theorem rpc_serves_accepted_block_witness:
  "\<exists>bc'. node_process_block sample_secp sample_digests fresh_node sample_block = (Inr 0, bc') \<and>
     get_field ''result'' (handle_http_request sample_digests reference_hex no_texts
       (\<lambda>_. \<lparr>rx_node = blockchain_node no_texts bc', rx_p2p = regtest_connman\<rparr>)
       (Single \<lparr>rq_id = Id_Number 7, rq_jsonrpc = ''2.0'', rq_method = ''getblock'',
          rq_params = Some [JString (hash_to_string reference_hex (block_hash sample_digests (header sample_block))), JInt 0]\<rparr>)) =
     Some (JString (hex_text (serialize encode_block sample_block)))"
proof -
  have h: "block_hash sample_digests (header sample_block) = genesis_hash sample_digests regtest_like"
    by (simp add: genesis_hash_def regtest_like_def)
  have "wf_block_index (genesis_index regtest_like)"
    using tree_ok_entry(2) [OF fresh_tree_ok, of "genesis_hash sample_digests regtest_like"] by (simp only: fresh_index(3)) simp
  moreover have "get_block_index (bc_db fresh_node) (block_hash sample_digests (header sample_block)) =
      Inr (Some (genesis_index regtest_like))" by (simp add: fresh_index(1) h)
  moreover have "check_block sample_digests sample_secp sample_block (bc_params fresh_node) = Inr ()"
    using sample_check_block by (simp add: fresh_index(6))
  moreover have "file_pos (genesis_index regtest_like) = None" "bi_header (genesis_index regtest_like) = header sample_block"
    "bi_height (genesis_index regtest_like) = 0" by (simp_all add: genesis_index_def regtest_like_def)
  moreover have "bfm_ok (bm_files (bc_store fresh_node))" "unat (bfm_current_file (bm_files (bc_store fresh_node))) + 1 < 2 ^ 32"
    using fresh_files_ok by (simp_all add: fresh_node_files)
  ultimately show ?thesis
    using rpc_serves_accepted_block [of sample_digests sample_secp sample_block fresh_node "genesis_index regtest_like" reference_hex
        no_texts regtest_connman "Id_Number 7"]
      reference_hex_documented sample_digest_sizes sample_block_wf
    unfolding Let_def by metis
qed

text \<open>C25: every request is answered, under its own identifier and with either a result or an error; the error says
  that the method does not exist exactly when it is none of the seven methods; and a batch is answered request
  by request, in order, each as if it had come alone.\<close>

theorem rpc_answers_exact:
  "(let v = handle_http_request H X texts ctxs (Single req)
    in get_field ''id'' v = Some (id_to_value (rq_id req)) \<and>
       (get_field ''result'' v = None \<longleftrightarrow> get_field ''error'' v \<noteq> None) \<and>
       ((\<exists>e. get_field ''error'' v = Some e \<and> get_field ''code'' e = Some (JInt (- 32601))) \<longleftrightarrow> rq_method req \<notin> set rpc_methods)) \<and>
   handle_http_request H X texts ctxs (Multiple reqs) =
     JArray (map (\<lambda>i. handle_http_request H X texts (\<lambda>_. ctxs i) (Single (reqs ! i))) [0..<length reqs])"
proof
  let ?r = "map_http_requests H X texts req (ctxs 0)"
  let ?v = "rpc_response req ?r"
  have "(\<exists>e. get_field ''error'' ?v = Some e \<and> get_field ''code'' e = Some (JInt (- 32601))) \<longleftrightarrow> (\<exists>m. ?r = Inl (MethodNotFound m))"
    unfolding rpc_response_fields using method_code by (cases ?r) simp_all
  also have "\<dots> \<longleftrightarrow> rq_method req \<notin> set rpc_methods" using dispatch_unknown method_found by blast
  finally show "let v = handle_http_request H X texts ctxs (Single req)
    in get_field ''id'' v = Some (id_to_value (rq_id req)) \<and>
       (get_field ''result'' v = None \<longleftrightarrow> get_field ''error'' v \<noteq> None) \<and>
       ((\<exists>e. get_field ''error'' v = Some e \<and> get_field ''code'' e = Some (JInt (- 32601))) \<longleftrightarrow> rq_method req \<notin> set rpc_methods)"
    by (simp add: handle_http_request_def rpc_response_fields Let_def split: sum.splits)
  show "handle_http_request H X texts ctxs (Multiple reqs) =
     JArray (map (\<lambda>i. handle_http_request H X texts (\<lambda>_. ctxs i) (Single (reqs ! i))) [0..<length reqs])"
    by (simp add: handle_http_request_def map_zip_index)
qed

text \<open>\<^verbatim>\<open>getblockhash\<close> answers for a height beyond 32 bits as for its remainder.\<close>

theorem getblockhash_truncates:
  assumes "rq_method req = ''getblockhash''" "rq_params req = Some [JInt n]" "0 \<le> n" "n < 2 ^ 64"
  shows "map_http_requests H X texts req ctx = map_http_requests H X texts (req\<lparr>rq_params := Some [JInt (n mod 2 ^ 32)]\<rparr>) ctx"
proof -
  have "(word_of_int (n mod 2 ^ 32) :: u32) = word_of_int n" by (simp add: word_of_int_eq_iff take_bit_eq_mod)
  moreover have "n mod 2 ^ 32 < 2 ^ 64" using pos_mod_bound [of "2 ^ 32" n] by simp
  ultimately show ?thesis using assms by (simp add: getblockhash_wraps)
qed

lemma headers_tip_wf: "get_headers_tip db = Inr (Some tip) \<Longrightarrow> wf_hash tip"
  by (auto simp: get_headers_tip_def get_hash_def wf_hash_def split: option.splits if_splits)

text \<open>C24: what \<^verbatim>\<open>getblockchaininfo\<close> says of the headers is true of the index.  After any run of the node, under any
  interleaving of peer messages, network tasks and activations, the reported height and hash are those of a
  header of the index that no other header of the index exceeds in accumulated work.\<close>

theorem status_reports_best_header:
  assumes "(node_step (blockchain_interface ec H) H (fair_msg U) (activates H ec))\<^sup>*\<^sup>* (bd, n) (bd', n')"
    and "index_sane H params U (nt_chain n)" "net_ok n" "reports_readable (nt_chain n')" "hex_documented X"
    and "rq_method req = ''getblockchaininfo''" "rx_node ctx = blockchain_node texts (nt_chain n')"
  shows "\<exists>tip i v s. tree_of (bc_db (nt_chain n')) tip = Some i \<and>
    (\<forall>h j. tree_of (bc_db (nt_chain n')) h = Some j \<longrightarrow> le_nat (chain_work j) \<le> le_nat (chain_work i)) \<and>
    map_http_requests H X texts req ctx = Inr v \<and>
    get_field ''headers'' v = Some (JInt (uint (bi_height i))) \<and>
    get_field ''bestheaderhash'' v = Some (JString s) \<and> hash_from_str X label s = Inr tip"
proof -
  let ?bc = "nt_chain n'"
  have "most_work (bc_db ?bc)" using node.node_steps_sane [OF assms(1)] assms(2,3) by (simp add: index_sane_def)
  then obtain tip i where tip: "get_headers_tip (bc_db ?bc) = Inr (Some tip)" "get_block_index (bc_db ?bc) tip = Inr (Some i)"
    "\<forall>h j. get_block_index (bc_db ?bc) h = Inr (Some j) \<longrightarrow> wf_hash (chain_work j) \<and> le_nat (chain_work j) \<le> le_nat (chain_work i)"
    unfolding most_work_def by blast
  then have tree: "tree_of (bc_db ?bc) tip = Some i"
    "\<forall>h j. tree_of (bc_db ?bc) h = Some j \<longrightarrow> le_nat (chain_work j) \<le> le_nat (chain_work i)" by auto
  have header: "ok_flatten (get_headers_tip (bc_db ?bc)) = Some tip" using tip(1) by simp
  obtain v where "handle_getblockchaininfo X ctx = Inr v"
    "get_field ''headers'' v = Some (JInt (uint (bi_height i)))"
    "get_field ''bestheaderhash'' v = Some (JString (hash_to_string X tip))"
    using node_rpc.status_answer(1) [OF assms(4,7), of X] unfolding header tip_height_def
    by (metis (no_types, lifting) option.simps(5) option.simps(9) tree(1))
  with tree hash_from_str_to_string [OF assms(5) headers_tip_wf [OF tip(1)], of label] show ?thesis
    unfolding dispatch(1) [OF assms(6)] by blast
qed

lemma fresh_node_reports: "reports_readable fresh_node"
proof -
  have empty_tables: "db_get database_empty t k = None" for t k by (simp add: database_empty_def db_get_def)
  have "get_block_index (cs_db fresh_chainstate) h = Inr None" for h
    by (simp add: fresh_chainstate_def chainstate_new_def empty_store_def block_manager_new_def get_block_index_def empty_tables)
  then have "get_block_tip (bc_db fresh_node) = Inr None"
    by (simp add: fresh_node_def node_load_genesis_def blockchain_new_def on_chainstate_def load_genesis_block_def Let_def
        handle_update_active_tip_def handle_update_header_index_def handle_update_headers_tip_def handle_store_block_index_def
        with_store_def fresh_chainstate_def chainstate_new_def empty_store_def block_manager_new_def get_block_tip_def get_hash_def
        put_block_index_def KEY_BLOCK_TIP_def KEY_HEADERS_TIP_def KEY_BEST_BLOCK_def UTXOS_def CHAIN_META_def BLOCK_INDEX_def
        empty_tables)
  moreover have "rpc_get_best_block fresh_node = Inr (Some (genesis_hash sample_digests regtest_like))"
    by (simp add: rpc_get_best_block_def fresh_node_files(2))
  moreover have "\<exists>i. get_block_index (bc_db fresh_node) h = Inr i" for h by (simp add: fresh_index(1))
  ultimately show ?thesis unfolding reports_readable_def using fresh_index(2) by blast
qed

theorem status_reports_best_header_witness:
  "\<exists>v. map_http_requests sample_digests reference_hex no_texts
       \<lparr>rq_id = Id_Null, rq_jsonrpc = ''2.0'', rq_method = ''getblockchaininfo'', rq_params = None\<rparr>
       \<lparr>rx_node = blockchain_node no_texts fresh_node, rx_p2p = regtest_connman\<rparr> = Inr v \<and>
     get_field ''headers'' v = Some (JInt 0)"
proof -
  have chain: "nt_chain (node_net fresh_node) = fresh_node" by (simp add: node_net_def)
  let ?req = "\<lparr>rq_id = Id_Null, rq_jsonrpc = ''2.0'', rq_method = ''getblockchaininfo'', rq_params = None\<rparr>"
  let ?ctx = "\<lparr>rx_node = blockchain_node no_texts fresh_node, rx_p2p = regtest_connman\<rparr>"
  obtain tip i v where "tree_of (bc_db fresh_node) tip = Some i"
    "map_http_requests sample_digests reference_hex no_texts ?req ?ctx = Inr v" "get_field ''headers'' v = Some (JInt (uint (bi_height i)))"
    using status_reports_best_header [OF rtranclp.rtrancl_refl, where params = regtest_like and U = two_headers
        and n = "node_net fresh_node" and X = reference_hex and req = ?req and ctx = ?ctx and texts = no_texts
        and H = sample_digests and label = "''BlockHash''"]
      fresh_node_sane node_net_ok fresh_node_reports reference_hex_documented
    unfolding chain by (auto simp del: tree_of_Some)
  moreover from this(1) have "bi_height i = 0" by (auto simp: fresh_index(3) genesis_index_def simp del: tree_of_Some split: if_splits)
  ultimately show ?thesis by auto
qed

section \<open>Inbound connections\<close>

text \<open>C26: the accept loop keeps inbound connections bounded.  However its reads interleave with handshakes that
  complete, fail or end, at most the limit of slots is reserved and connections and reservations together stay
  within twice the limit; and the limit itself is not kept: since the loop counts the connections before it
  reserves a slot, one connection more than the limit can be reached.\<close>

theorem inbound_connections_bounded:
  "(\<forall>s. (accept_step MAX_INBOUND_CONNECTIONS)\<^sup>*\<^sup>* slots_init s \<longrightarrow>
      pending s \<le> MAX_INBOUND_CONNECTIONS \<and> active s + (pending s - entered s) \<le> 2 * MAX_INBOUND_CONNECTIONS) \<and>
   (\<exists>s. (accept_step MAX_INBOUND_CONNECTIONS)\<^sup>*\<^sup>* slots_init s \<and> active s = MAX_INBOUND_CONNECTIONS + 1)"
proof -
  have limit: "0 < MAX_INBOUND_CONNECTIONS" "MAX_INBOUND_CONNECTIONS \<le> U64_MAX" by code_simp+
  from accept_steps_ok [OF _ limit(2)] limit_passed [OF limit] show ?thesis
    unfolding slots_ok_def claimed_def by blast
qed

theorem inbound_connections_bounded_witness:
  "pending slots_init \<le> MAX_INBOUND_CONNECTIONS \<and>
   (\<exists>s. (accept_step MAX_INBOUND_CONNECTIONS)\<^sup>*\<^sup>* slots_init s \<and> active s = 116)"
proof -
  have "MAX_INBOUND_CONNECTIONS + 1 = 116" by code_simp
  with inbound_connections_bounded show ?thesis by (metis rtranclp.rtrancl_refl)
qed

end
