(* ===== verification/StorageSpec.thy ===== *)
theory StorageSpec
  imports Restart Samples
begin

text \<open>The properties of the store as a whole: its engines, its write worker and its life across restarts.\<close>

section \<open>Engines\<close>

lemma mem_steps_succeed: "\<exists>db'. run_steps mem_transaction mem_clear_table steps db = Some db'"
proof (induction steps arbitrary: db)
  case (Cons s steps)
  then show ?case by (cases s) (simp_all add: mem_transaction_def mem_clear_table_def)
qed simp

text \<open>C30: the persistent engine and the in-memory one are interchangeable.  On a database opened over any directory
  and any steps RocksDB accepts, the in-memory backend takes the same steps, and afterwards every value RocksDB
  returns, live or from a snapshot, is the value of the in-memory backend.  A transaction on the tables of the schema
  fails only when the engine fails to write, and then has no effect.\<close>

theorem backends_agree:
  assumes "rocksdb_engine R contents" "rocks_open R path = Inr d" "contents d = mem_contents db"
    and "run_steps (rocks_transaction R) (rocks_clear_table R) steps d = Some d'"
  shows "\<exists>db'. run_steps mem_transaction mem_clear_table steps db = Some db' \<and>
    (\<forall>t key v. rocks_get R d' t key = Inr v \<longrightarrow> mem_get db' t key = Inr v) \<and>
    (\<forall>t f key v. rocks_begin_locked R d' t = Inr f \<longrightarrow> f key = Inr v \<longrightarrow> mem_get db' t key = Inr v) \<and>
    (\<forall>ops e d''. op_table ` set ops \<subseteq> set TABLES \<longrightarrow> rocks_transaction R ops d' = (Inl e, d'') \<longrightarrow>
       d'' = d' \<and> (\<exists>e'. e = StoreMessage (''commit failed: '' @ e')))"
proof -
  note backend = rocksdb_engine.is_backend [OF assms(1)]
  obtain db' where db': "run_steps mem_transaction mem_clear_table steps db = Some db'" using mem_steps_succeed by blast
  have same: "contents d' = mem_contents db'"
    using storage_backend.steps_contents [OF backend assms(4)] in_memory.steps_contents [OF db'] assms(3) by simp
  have read: "mem_get db' t key = Inr (contents d' t key)" for t key by (simp add: same mem_get_def mem_contents_def db_get_def)
  have tables: "rk_has_cf R d' t" if "t \<in> set TABLES" for t
    using rocksdb_engine.opened_tables [OF assms(1,2) that] rocksdb_engine.steps_keep_families [OF assms(1,4)] by simp
  show ?thesis
  proof (intro exI [of _ db'] conjI allI impI)
    show "mem_get db' t key = Inr v" if "rocks_get R d' t key = Inr v" for t key v
      using storage_backend.get_sound [OF backend that] read by simp
    show "mem_get db' t key = Inr v" if "rocks_begin_locked R d' t = Inr f" "f key = Inr v" for t f key v
      using storage_backend.locked_sound [OF backend that] read by simp
    show "d'' = d'" "\<exists>e'. e = StoreMessage (''commit failed: '' @ e')"
      if "op_table ` set ops \<subseteq> set TABLES" "rocks_transaction R ops d' = (Inl e, d'')" for ops e d''
      using rocksdb_engine.known_tables_error [OF assms(1) _ that(2)] that(1) tables by (simp_all add: image_subset_iff)
  qed (rule db')
qed

definition sample_steps :: "storage_step list" where
  "sample_steps = [Transaction [Tx_put UTXOS [1] [7], Tx_put_batch BLOCK_INDEX [([2], [8]), ([2], [9])]],
     Clear_table UTXOS, Transaction [Tx_put CHAIN_META [3] [5], Tx_delete BLOCK_INDEX [4]]]"

theorem backends_agree_witness:
  "\<exists>d d' db'. rocks_open reference_rocksdb [] = Inr d \<and>
     run_steps (rocks_transaction reference_rocksdb) (rocks_clear_table reference_rocksdb) sample_steps d = Some d' \<and>
     run_steps mem_transaction mem_clear_table sample_steps database_empty = Some db' \<and>
     rocks_get reference_rocksdb d' BLOCK_INDEX [2] = Inr (Some [9]) \<and> mem_get db' BLOCK_INDEX [2] = Inr (Some [9]) \<and>
     rocks_get reference_rocksdb d' UTXOS [1] = Inr None \<and> mem_get db' UTXOS [1] = Inr None"
proof -
  let ?d = "map (\<lambda>t. (t, [])) (''default'' # TABLES)"
  let ?d' = "[(''default'', []), (BLOCK_INDEX, [([2], [9])]), (UTXOS, []), (CHAIN_META, [([3], [5])]), (BLOCK_UNDO, [])]"
  have o: "rocks_open reference_rocksdb [] = Inr ?d" by code_simp
  have r: "run_steps (rocks_transaction reference_rocksdb) (rocks_clear_table reference_rocksdb) sample_steps ?d = Some ?d'"
    by code_simp
  have g: "rocks_get reference_rocksdb ?d' BLOCK_INDEX [2] = Inr (Some [9])" "rocks_get reference_rocksdb ?d' UTXOS [1] = Inr None"
    by code_simp+
  have "cf_contents ?d = mem_contents database_empty"
    by (simp add: cf_contents_def cf_table_def mem_contents_def database_empty_def fun_eq_iff TABLES_def)
  then obtain db' where "run_steps mem_transaction mem_clear_table sample_steps database_empty = Some db'"
    "\<forall>t key v. rocks_get reference_rocksdb ?d' t key = Inr v \<longrightarrow> mem_get db' t key = Inr v"
    using backends_agree [OF reference.rocksdb_engine_axioms o _ r] by blast
  with o r g show ?thesis by blast
qed

section \<open>Restarts\<close>

text \<open>C29: blocks survive restarts.  Any number of processes run one after the other on a data directory that was empty
  at first, each working through any queue of messages of its clients.  Every process starts, every message is
  answered, and the store opened at the end reads every block ever written at the position its writer was told,
  byte for byte, and serves it under every hash whose index entry names that position.\<close>

theorem blocks_survive_restarts:
  assumes "length magic = 4" "list_all fits (concat sessions)" "length (concat sessions) < 2 ^ 32"
  shows "\<exists>replies st. run_sessions H magic empty_dir sessions = Inr (replies, st) \<and> length replies = length (concat sessions) \<and>
    (\<forall>(msg, reply) \<in> set (zip (concat sessions) replies).
       case msg of
         StoreBlock hdr height work raw \<Rightarrow>
           (\<exists>pos. reply = PosReply (Inr pos) \<and> read_block (bm_files (st_manager st)) pos = Inr raw \<and>
              (\<forall>h i. get_block_index (bm_backend (st_manager st)) h = Inr (Some i) \<and> file_pos i = Some pos \<longrightarrow>
                 st_get_block st h = Inr (Some raw)))
       | _ \<Rightarrow> (\<exists>r. reply = UnitReply r))"
proof -
  obtain st0 where "store_new empty_dir RocksDB magic = Inr st0" "disk_ok (st_manager st0)"
    "bfm_magic (bm_files (st_manager st0)) = magic" "bfm_current_file (bm_files (st_manager st0)) = 0"
    using empty_dir_opens [OF assms(1)] by blast
  then obtain replies st where run: "run_sessions H magic empty_dir sessions = Inr (replies, st)"
    "list_all2 (answered (bm_files (st_manager st))) (concat sessions) replies"
    using run_sessions_kept [of empty_dir magic st0 sessions H] assms(2,3) by auto
  show ?thesis
  proof (intro exI [of _ replies] exI [of _ st] conjI ballI)
    show "length replies = length (concat sessions)" using run(2) by (simp add: list_all2_lengthD)
    fix p
    assume "p \<in> set (zip (concat sessions) replies)"
    then obtain msg reply where p: "p = (msg, reply)" "answered (bm_files (st_manager st)) msg reply"
      using run(2) by (auto simp: list_all2_iff)
    then show "case p of (msg, reply) \<Rightarrow> case msg of
         StoreBlock hdr height work raw \<Rightarrow>
           (\<exists>pos. reply = PosReply (Inr pos) \<and> read_block (bm_files (st_manager st)) pos = Inr raw \<and>
              (\<forall>h i. get_block_index (bm_backend (st_manager st)) h = Inr (Some i) \<and> file_pos i = Some pos \<longrightarrow>
                 st_get_block st h = Inr (Some raw)))
       | _ \<Rightarrow> (\<exists>r. reply = UnitReply r)"
      using stored_read stored_block_served by (cases msg) (auto simp: answered_def st_get_block_def)
  qed (rule run(1))
qed

theorem blocks_survive_restarts_witness:
  "\<exists>replies st pos. run_sessions sample_digests [1, 2, 3, 4] empty_dir
       [[StoreBlock sample_header 0 (replicate 32 0) [7, 8, 9], Flush], [DeleteHeightMapping 3]] = Inr (replies, st) \<and>
     replies ! 0 = PosReply (Inr pos) \<and> read_block (bm_files (st_manager st)) pos = Inr [7, 8, 9] \<and> length replies = 3"
proof -
  let ?msg = "StoreBlock sample_header 0 (replicate 32 0) [7, 8, 9]"
  let ?sessions = "[[?msg, Flush], [DeleteHeightMapping 3]]"
  have "list_all fits (concat ?sessions)" by (simp add: fits_def MAX_BLOCK_FILE_SIZE_def)
  then obtain replies st where run: "run_sessions sample_digests [1, 2, 3, 4] empty_dir ?sessions = Inr (replies, st)"
    "length replies = 3"
    "\<forall>(msg, reply) \<in> set (zip (concat ?sessions) replies).
       case msg of
         StoreBlock hdr height work raw \<Rightarrow>
           (\<exists>pos. reply = PosReply (Inr pos) \<and> read_block (bm_files (st_manager st)) pos = Inr raw \<and>
              (\<forall>h i. get_block_index (bm_backend (st_manager st)) h = Inr (Some i) \<and> file_pos i = Some pos \<longrightarrow>
                 st_get_block st h = Inr (Some raw)))
       | _ \<Rightarrow> (\<exists>r. reply = UnitReply r)"
    using blocks_survive_restarts [of "[1, 2, 3, 4]" ?sessions sample_digests] by auto
  have "(?msg, replies ! 0) \<in> set (zip (concat ?sessions) replies)"
    using run(2) by (cases replies) simp_all
  with run(3) obtain pos where "replies ! 0 = PosReply (Inr pos)" "read_block (bm_files (st_manager st)) pos = Inr [7, 8, 9]"
    by force
  with run(1,2) show ?thesis by blast
qed

section \<open>Clients of the worker\<close>

text \<open>A store whose worker has ended refuses every write with an error and changes nothing; reads go on.\<close>

theorem dead_worker_refuses:
  assumes "\<not> st_alive st"
  shows "(\<exists>e. await_unit closed H st msg = (Inl e, st)) \<and> (\<exists>e. await_pos closed H st msg = (Inl e, st)) \<and>
    st_get_block st h = get_block (bm_backend (st_manager st)) (bm_files (st_manager st)) h"
  using store_methods_dead [OF assms] by (auto simp: st_get_block_def)

end
