(* ===== verification/LifeSpec.thy ===== *)
theory LifeSpec
  imports RpcSpec StorageSpec
begin

text \<open>The properties of the program from its start: when the command \<^verbatim>\<open>run\<close> brings up a node, and what holds of the
  node as long as it lives, across restarts.\<close>

section \<open>Starting\<close>

text \<open>C27: on an empty data directory the command \<^verbatim>\<open>run\<close> brings up a node exactly for the two known engine names and every
  chain but mainnet, whose parameters do not build.  The node then knows the genesis block and nothing else, its
  validated tip is genesis, and no other chain has the same data directory.\<close>

theorem run_starts_exactly:
  assumes "hex_documented X" "digest_sizes H"
  shows "case run_node H X ec now repaired_first keys (\<lambda>_. empty_dir) platform datadir chain dbcache engine skip of
      Inl e \<Rightarrow>
        engine \<notin> {''native'', ''core-reference''} \<and> e = Unknown_engine engine \<or>
        engine \<in> {''native'', ''core-reference''} \<and> chain = Mainnet \<and> e = Parameters_panic
    | Inr (dir, cm) \<Rightarrow>
        engine \<in> {''native'', ''core-reference''} \<and> chain \<noteq> Mainnet \<and>
        (\<exists>params. type_params H X chain = Some params \<and> genesis_only H params (bc_store (nt_chain (cm_net cm))) \<and>
           active_tip (bc_chainstate (nt_chain (cm_net cm))) = Some (genesis_hash H params, 0)) \<and>
        (\<forall>other. compute_effective_datadir platform datadir other = dir \<longleftrightarrow> other = chain)"
proof (cases "parse_engine engine")
  case (Inl e)
  then show ?thesis by (auto simp: run_node_def parse_engine_def split: if_splits)
next
  case (Inr kind)
  then have known: "engine \<in> {''native'', ''core-reference''}" by (auto simp: parse_engine_def split: if_splits)
  show ?thesis
  proof (cases "type_params H X chain")
    case None
    then have "chain = Mainnet" using type_params_defined(1) [OF assms] by simp
    with None Inr known show ?thesis by (simp add: run_node_def Let_def)
  next
    case (Some params)
    then have "chain \<noteq> Mainnet" "wf_params H params"
      using type_params_defined [OF assms, where t = chain] by (simp_all del: type_params.simps)
    then obtain bc where bc: "init_node H ec now repaired_first empty_dir params dbcache kind (\<not> skip) = Inr bc"
      "genesis_only H params (bc_store bc)" "active_tip (bc_chainstate bc) = Some (genesis_hash H params, 0)"
      using first_start_succeeds [OF _ assms(2)] by blast
    then have "run_node H X ec now repaired_first keys (\<lambda>_. empty_dir) platform datadir chain dbcache engine skip =
        Inr (compute_effective_datadir platform datadir chain, init_p2p H (fst keys) (snd keys) bc)"
      using Some Inr by (simp add: run_node_def init_node_service_def Let_def)
    with known \<open>chain \<noteq> Mainnet\<close> Some bc(2,3) show ?thesis by (simp add: init_p2p_net(1) datadir_distinct del: type_params.simps)
  qed
qed

theorem run_starts_exactly_witness:
  "(\<exists>dir cm params. run_node sample_digests reference_hex sample_secp (\<lambda>_. 0) True ([], []) (\<lambda>_. empty_dir) None None Signet 450
       ''native'' False = Inr (dir, cm) \<and> type_params sample_digests reference_hex Signet = Some params \<and>
       get_headers_tip (bc_db (nt_chain (cm_net cm))) = Inr (Some (genesis_hash sample_digests params))) \<and>
   run_node sample_digests reference_hex sample_secp (\<lambda>_. 0) True ([], []) (\<lambda>_. empty_dir) None None Mainnet 450
       ''native'' False = Inl Parameters_panic"
proof
  note exact = run_starts_exactly [OF reference_hex_documented sample_digest_sizes]
  show "\<exists>dir cm params. run_node sample_digests reference_hex sample_secp (\<lambda>_. 0) True ([], []) (\<lambda>_. empty_dir) None None Signet 450
       ''native'' False = Inr (dir, cm) \<and> type_params sample_digests reference_hex Signet = Some params \<and>
       get_headers_tip (bc_db (nt_chain (cm_net cm))) = Inr (Some (genesis_hash sample_digests params))"
    using exact [where ec = sample_secp and now = "\<lambda>_. 0" and repaired_first = True and keys = "([], [])" and platform = None
      and datadir = None and chain = Signet and dbcache = 450 and engine = "''native''" and skip = False]
    by (auto simp: genesis_only_def simp del: type_params.simps split: sum.splits)
  show "run_node sample_digests reference_hex sample_secp (\<lambda>_. 0) True ([], []) (\<lambda>_. empty_dir) None None Mainnet 450
       ''native'' False = Inl Parameters_panic"
    using exact [where ec = sample_secp and now = "\<lambda>_. 0" and repaired_first = True and keys = "([], [])" and platform = None
      and datadir = None and chain = Mainnet and dbcache = 450 and engine = "''native''" and skip = False]
    by (auto simp del: type_params.simps split: sum.splits)
qed

text \<open>The engine the command line defaults to is taken at startup and refuses every transaction, because the default build
  leaves it out.\<close>

theorem default_engine_unavailable:
  "parse_engine ''core-reference'' = Inr CoreReference \<and>
   verify_transaction H ec (engine_new CoreReference) tx coins = Inl ReferenceEngineUnavailable"
  by (simp add: parse_engine_def verify_transaction_def verify_core_reference_def engine_new_def)

section \<open>Living\<close>



end
