(* ===== verification/Connection.thy ===== *)
theory Connection
  imports NetSpec
begin

text \<open>
  A connection as its two tasks, \<^verbatim>\<open>Node::start\<close> of \<^verbatim>\<open>net/p2p/node.rs\<close>: the writer takes messages from its queue until the
  connection is cancelled, the queue is closed or a write fails, and the reader hands every message to the peer
  manager and finalises the peer when it ends.  A failed write has written some part of a frame.  The tasks of other
  peers run between messages; they are not in this sequence.
\<close>

subsection \<open>The two tasks\<close>





subsection \<open>From one queue to the other node\<close>









subsection \<open>A connection\<close>





end
