(* ===== verification/Research.thy ===== *)
theory Research
  imports Startup
begin

text \<open>
  The research tools, which take no part in consensus: the size model of \<^verbatim>\<open>script/research.rs\<close>, the signature
  workloads of \<^verbatim>\<open>script/signature_experiment.rs\<close>, and the command \<^verbatim>\<open>research compare\<close> of \<^verbatim>\<open>cmd/bitcrab/main.rs\<close>.

  Byte counts are 64-bit words with checked arithmetic.  Ratios are kept as the floating-point expressions
  they are computed by, also where the table prints them with two decimals.  A verifier is a record of the
  functions of its trait; parsing by secp256k1 is a parameter; the elapsed time is an argument.
\<close>

subsection \<open>Schemes\<close>

datatype signature_scheme =
  EcdsaSecp256k1 | SchnorrSecp256k1 | MlDsa44 | MlDsa65 | MlDsa87 | SlhDsa128s | SlhDsa128f

definition RESEARCH_MODEL_VERSION :: string where
  "RESEARCH_MODEL_VERSION = ''bitcrab-authorization-model-v1''"

definition all_schemes :: "signature_scheme list" where
  "all_schemes = [EcdsaSecp256k1, SchnorrSecp256k1, MlDsa44, MlDsa65, MlDsa87, SlhDsa128s, SlhDsa128f]"

fun scheme_name :: "signature_scheme \<Rightarrow> string" where
  "scheme_name EcdsaSecp256k1 = ''ecdsa-secp256k1''"
| "scheme_name SchnorrSecp256k1 = ''schnorr-secp256k1''"
| "scheme_name MlDsa44 = ''ml-dsa-44''"
| "scheme_name MlDsa65 = ''ml-dsa-65''"
| "scheme_name MlDsa87 = ''ml-dsa-87''"
| "scheme_name SlhDsa128s = ''slh-dsa-128s''"
| "scheme_name SlhDsa128f = ''slh-dsa-128f''"

fun scheme_public_key_bytes :: "signature_scheme \<Rightarrow> u64" where
  "scheme_public_key_bytes EcdsaSecp256k1 = 33"
| "scheme_public_key_bytes SchnorrSecp256k1 = 32"
| "scheme_public_key_bytes MlDsa44 = 1312"
| "scheme_public_key_bytes MlDsa65 = 1952"
| "scheme_public_key_bytes MlDsa87 = 2592"
| "scheme_public_key_bytes SlhDsa128s = 32"
| "scheme_public_key_bytes SlhDsa128f = 32"

fun scheme_signature_bytes :: "signature_scheme \<Rightarrow> u64" where
  "scheme_signature_bytes EcdsaSecp256k1 = 72"
| "scheme_signature_bytes SchnorrSecp256k1 = 64"
| "scheme_signature_bytes MlDsa44 = 2420"
| "scheme_signature_bytes MlDsa65 = 3309"
| "scheme_signature_bytes MlDsa87 = 4627"
| "scheme_signature_bytes SlhDsa128s = 7856"
| "scheme_signature_bytes SlhDsa128f = 17088"

fun standard_reference :: "signature_scheme \<Rightarrow> string" where
  "standard_reference EcdsaSecp256k1 = ''Bitcoin legacy ECDSA model''"
| "standard_reference SchnorrSecp256k1 = ''BIP340 Schnorr model''"
| "standard_reference SlhDsa128s = ''NIST FIPS 205''"
| "standard_reference SlhDsa128f = ''NIST FIPS 205''"
| "standard_reference _ = ''NIST FIPS 204''"

fun size_assumption :: "signature_scheme \<Rightarrow> string" where
  "size_assumption EcdsaSecp256k1 = ''common 71-byte DER signature plus one sighash byte''"
| "size_assumption SchnorrSecp256k1 = ''64-byte BIP340 signature with SIGHASH_DEFAULT''"
| "size_assumption _ = ''exact FIPS signature and public-key sizes; no extra Bitcoin sighash byte''"

subsection \<open>Manifests\<close>

datatype key_disclosure = CommitUntilSpend u64 | PublicKeyInOutput

datatype authorization_placement = Placed_Witness | Placed_Stripped

record experiment_manifest =
  signature_checks :: u64
  revealed_public_keys :: u64
  em_key_disclosure :: key_disclosure
  em_placement :: authorization_placement

datatype research_model_error = MoreKeysThanSignatureChecks | ByteCountOverflow

definition manifest_validate :: "experiment_manifest \<Rightarrow> research_model_error + experiment_manifest" where
  "manifest_validate m =
     (if revealed_public_keys m > signature_checks m then Inl MoreKeysThanSignatureChecks else Inr m)"

definition disclosure_text :: "key_disclosure \<Rightarrow> string" where
  "disclosure_text d = (case d of CommitUntilSpend n \<Rightarrow> ''commit:'' @ decimal (unat n) | PublicKeyInOutput \<Rightarrow> ''output'')"

definition placement_name :: "authorization_placement \<Rightarrow> string" where
  "placement_name p = (case p of Placed_Witness \<Rightarrow> ''witness'' | Placed_Stripped \<Rightarrow> ''stripped'')"

definition canonical_description :: "experiment_manifest \<Rightarrow> string" where
  "canonical_description m =
     RESEARCH_MODEL_VERSION @ '';checks='' @ decimal (unat (signature_checks m)) @
     '';keys='' @ decimal (unat (revealed_public_keys m)) @
     '';disclosure='' @ disclosure_text (em_key_disclosure m) @ '';placement='' @ placement_name (em_placement m)"

definition manifest_id :: "digests \<Rightarrow> experiment_manifest \<Rightarrow> bytes" where
  "manifest_id H m = hash256 H (ascii (canonical_description m))"

subsection \<open>Projections\<close>

record authorization_projection =
  ap_scheme :: signature_scheme
  ap_signature_bytes :: u64
  ap_public_key_bytes :: u64
  ap_output_commitment_bytes :: u64
  ap_total_authorization_bytes :: u64
  ap_authorization_weight :: u64
  ap_virtual_bytes :: u64

definition ratio_to :: "authorization_projection \<Rightarrow> authorization_projection \<Rightarrow> f64" where
  "ratio_to p baseline =
     (if ap_authorization_weight baseline = 0 then F64_lit 0 1
      else F64_div (F64_of (unat (ap_authorization_weight p))) (F64_of (unat (ap_authorization_weight baseline))))"

definition bytes_add :: "u64 \<Rightarrow> u64 \<Rightarrow> research_model_error + u64" where
  "bytes_add a b = (if unat a + unat b < 2 ^ 64 then Inr (a + b) else Inl ByteCountOverflow)"

definition bytes_mul :: "u64 \<Rightarrow> u64 \<Rightarrow> research_model_error + u64" where
  "bytes_mul a b = (if unat a * unat b < 2 ^ 64 then Inr (a * b) else Inl ByteCountOverflow)"

text \<open>\<^verbatim>\<open>u64::div_ceil\<close>.\<close>

definition div_ceil :: "u64 \<Rightarrow> u64 \<Rightarrow> u64" where
  "div_ceil a b = (if a mod b > 0 then a div b + 1 else a div b)"

definition project_authorization :: "experiment_manifest \<Rightarrow> signature_scheme \<Rightarrow> research_model_error + authorization_projection" where
  "project_authorization manifest scheme =
     and_then (manifest_validate manifest) (\<lambda>manifest.
     and_then (bytes_mul (signature_checks manifest) (scheme_signature_bytes scheme)) (\<lambda>signature_bytes.
     and_then (bytes_mul (revealed_public_keys manifest) (scheme_public_key_bytes scheme)) (\<lambda>public_key_bytes.
     and_then
       (case em_key_disclosure manifest of
          CommitUntilSpend commitment_bytes \<Rightarrow>
            and_then (bytes_mul (revealed_public_keys manifest) commitment_bytes) (\<lambda>commitments. Inr (public_key_bytes, commitments))
        | PublicKeyInOutput \<Rightarrow> Inr (0, public_key_bytes)) (\<lambda>(spend_public_key_bytes, output_commitment_bytes).
     and_then (bytes_add signature_bytes spend_public_key_bytes) (\<lambda>spend_bytes.
     and_then (bytes_add spend_bytes output_commitment_bytes) (\<lambda>total.
     and_then
       (case em_placement manifest of
          Placed_Witness \<Rightarrow> Inr spend_bytes
        | Placed_Stripped \<Rightarrow> bytes_mul spend_bytes 4) (\<lambda>spend_weight.
     and_then (bytes_mul output_commitment_bytes 4) (\<lambda>output_weight.
     and_then (bytes_add spend_weight output_weight) (\<lambda>weight.
     Inr \<lparr>ap_scheme = scheme, ap_signature_bytes = signature_bytes, ap_public_key_bytes = public_key_bytes,
          ap_output_commitment_bytes = output_commitment_bytes, ap_total_authorization_bytes = total,
          ap_authorization_weight = weight, ap_virtual_bytes = div_ceil weight 4\<rparr>)))))))))"

subsection \<open>Signature workloads\<close>

datatype signature_family = ClassicSecp256k1 | PostQuantumExperimental

record signature_work_item =
  wi_message :: bytes
  wi_signature :: bytes
  wi_public_key :: bytes

record signature_benchmark_result =
  br_family :: signature_family
  br_verified :: nat
  br_rejected :: nat
  br_elapsed :: nat

datatype signature_experiment_error = InvalidEncoding | PostQuantumVerifierUnavailable

record signature_verifier =
  sv_family :: signature_family
  sv_verify :: "signature_work_item \<Rightarrow> signature_experiment_error + bool"

text \<open>\<open>from_der_ok\<close>: whether \<^verbatim>\<open>Signature::from_der\<close> takes the signature.\<close>

definition classic_verifier :: "(bytes \<Rightarrow> bool) \<Rightarrow> secp \<Rightarrow> signature_verifier" where
  "classic_verifier from_der_ok ec =
     \<lparr>sv_family = ClassicSecp256k1,
      sv_verify = (\<lambda>item.
        if \<not> from_der_ok (wi_signature item) then Inl InvalidEncoding
        else if \<not> pubkey_from_slice_ok ec (wi_public_key item) then Inl InvalidEncoding
        else Inr (verify_ecdsa ec (wi_message item) (wi_signature item) (wi_public_key item)))\<rparr>"

fun count_verified :: "signature_verifier \<Rightarrow> signature_work_item list \<Rightarrow> nat \<times> nat \<Rightarrow> signature_experiment_error + nat \<times> nat" where
  "count_verified v [] counts = Inr counts"
| "count_verified v (item # items) (verified, rejected) =
     and_then (sv_verify v item) (\<lambda>ok.
     count_verified v items (if ok then (verified + 1, rejected) else (verified, rejected + 1)))"

definition benchmark_signature_workload ::
  "nat \<Rightarrow> signature_verifier \<Rightarrow> signature_work_item list \<Rightarrow> signature_experiment_error + signature_benchmark_result" where
  "benchmark_signature_workload duration v items =
     and_then (count_verified v items (0, 0)) (\<lambda>(verified, rejected).
     Inr \<lparr>br_family = sv_family v, br_verified = verified, br_rejected = rejected, br_elapsed = duration\<rparr>)"

subsection \<open>The command\<close>

datatype research_error =
    Unknown_disclosure string
  | Unknown_placement string
  | Model_error research_model_error

definition parse_disclosure :: "string \<Rightarrow> u64 \<Rightarrow> research_error + key_disclosure" where
  "parse_disclosure s commitment_bytes =
     (if s = ''commit'' then Inr (CommitUntilSpend commitment_bytes)
      else if s = ''output'' then Inr PublicKeyInOutput
      else Inl (Unknown_disclosure s))"

definition parse_placement :: "string \<Rightarrow> research_error + authorization_placement" where
  "parse_placement s =
     (if s = ''witness'' then Inr Placed_Witness
      else if s = ''stripped'' then Inr Placed_Stripped
      else Inl (Unknown_placement s))"

definition key_disclosure_name :: "key_disclosure \<Rightarrow> string" where
  "key_disclosure_name d = (case d of CommitUntilSpend _ \<Rightarrow> ''commit-until-spend'' | PublicKeyInOutput \<Rightarrow> ''public-key-in-output'')"

definition HEX :: string where
  "HEX = ''0123456789abcdef''"

definition encode_hex :: "bytes \<Rightarrow> string" where
  "encode_hex bs = fold (\<lambda>b encoded. encoded @ [HEX ! unat (drop_bit 4 b)] @ [HEX ! unat (b AND 0x0f)]) bs []"

fun collect_results :: "('e + 'a) list \<Rightarrow> 'e + 'a list" where
  "collect_results [] = Inr []"
| "collect_results (r # rs) = and_then r (\<lambda>x. and_then (collect_results rs) (\<lambda>xs. Inr (x # xs)))"

definition projection_row :: "authorization_projection \<Rightarrow> authorization_projection \<Rightarrow> json" where
  "projection_row baseline p =
     JObject [(''scheme'', JString (scheme_name (ap_scheme p))),
       (''standard_reference'', JString (standard_reference (ap_scheme p))),
       (''size_assumption'', JString (size_assumption (ap_scheme p))),
       (''signature_bytes'', JInt (uint (ap_signature_bytes p))),
       (''public_key_bytes'', JInt (uint (ap_public_key_bytes p))),
       (''output_commitment_bytes'', JInt (uint (ap_output_commitment_bytes p))),
       (''total_authorization_bytes'', JInt (uint (ap_total_authorization_bytes p))),
       (''authorization_weight'', JInt (uint (ap_authorization_weight p))),
       (''virtual_bytes'', JInt (uint (ap_virtual_bytes p))),
       (''weight_ratio_to_ecdsa'', JFloat (ratio_to p baseline)),
       (''evidence'', JString ''modeled'')]"

text \<open>What the command prints: a JSON document, or lines; the last column of a table line is a ratio.\<close>

datatype report = Json_report json | Table_report "string list" "(string \<times> f64) list"

definition pad_right :: "nat \<Rightarrow> string \<Rightarrow> string" where
  "pad_right width s = s @ replicate (width - length s) (CHR '' '')"

definition pad_left :: "nat \<Rightarrow> string \<Rightarrow> string" where
  "pad_left width s = replicate (width - length s) (CHR '' '') @ s"

definition table_line :: "authorization_projection \<Rightarrow> authorization_projection \<Rightarrow> string \<times> f64" where
  "table_line baseline p =
     (pad_right 18 (scheme_name (ap_scheme p)) @ '' '' @ pad_left 12 (decimal (unat (ap_total_authorization_bytes p))) @ '' '' @
      pad_left 12 (decimal (unat (ap_authorization_weight p))) @ '' '' @ pad_left 12 (decimal (unat (ap_virtual_bytes p))) @ '' '',
      ratio_to p baseline)"

definition compare_report ::
  "digests \<Rightarrow> experiment_manifest \<Rightarrow> u64 \<Rightarrow> chain_type \<Rightarrow> bool \<Rightarrow> authorization_projection \<Rightarrow> authorization_projection list \<Rightarrow> report" where
  "compare_report H m commitment_bytes chain as_json baseline projections =
     (let authorization_manifest_id = encode_hex (manifest_id H m) in
      if as_json then
        Json_report (JObject
          [(''manifest'', JObject
             [(''authorization_manifest_id'', JString authorization_manifest_id),
              (''model_version'', JString RESEARCH_MODEL_VERSION),
              (''source_chain'', JString (chain_type_name chain)),
              (''signature_checks'', JInt (uint (signature_checks m))),
              (''public_keys'', JInt (uint (revealed_public_keys m))),
              (''key_disclosure'', JString (key_disclosure_name (em_key_disclosure m))),
              (''authorization_placement'', JString (placement_name (em_placement m))),
              (''commitment_bytes'', JInt (uint commitment_bytes))]),
           (''projections'', JArray (map (projection_row baseline) projections))])
      else
        Table_report
          [''Bitcrab PQ authorization comparison (modeled)'',
           ''authorization_manifest_id='' @ authorization_manifest_id @ '', model='' @ RESEARCH_MODEL_VERSION @
             '', source_chain='' @ chain_type_name chain,
           ''checks='' @ decimal (unat (signature_checks m)) @ '', public_keys='' @ decimal (unat (revealed_public_keys m)) @
             '', disclosure='' @ key_disclosure_name (em_key_disclosure m) @ '', placement='' @ placement_name (em_placement m),
           pad_right 18 ''scheme'' @ '' '' @ pad_left 12 ''auth bytes'' @ '' '' @ pad_left 12 ''weight'' @ '' '' @
             pad_left 12 ''vbytes'' @ '' '' @ pad_left 10 ''vs ecdsa'']
          (map (table_line baseline) projections))"

fun run_research :: "digests \<Rightarrow> research_commands \<Rightarrow> chain_type \<Rightarrow> research_error + report" where
  "run_research H (Compare checks public_keys disclosure placement commitment_bytes as_json) chain =
     and_then (parse_disclosure disclosure commitment_bytes) (\<lambda>key_disclosure.
     and_then (parse_placement placement) (\<lambda>authorization_placement.
     and_then (map_err Model_error (manifest_validate
       \<lparr>signature_checks = checks, revealed_public_keys = public_keys, em_key_disclosure = key_disclosure,
        em_placement = authorization_placement\<rparr>)) (\<lambda>manifest.
     and_then (map_err Model_error (project_authorization manifest EcdsaSecp256k1)) (\<lambda>baseline.
     and_then (map_err Model_error (collect_results (map (project_authorization manifest) all_schemes))) (\<lambda>projections.
     Inr (compare_report H manifest commitment_bytes chain as_json baseline projections))))))"

subsection \<open>Projections are exact\<close>

text \<open>The byte counts in unbounded arithmetic.\<close>

definition exact_signatures :: "experiment_manifest \<Rightarrow> signature_scheme \<Rightarrow> nat" where
  "exact_signatures m s = unat (signature_checks m) * unat (scheme_signature_bytes s)"

definition exact_keys :: "experiment_manifest \<Rightarrow> signature_scheme \<Rightarrow> nat" where
  "exact_keys m s = unat (revealed_public_keys m) * unat (scheme_public_key_bytes s)"

definition exact_output :: "experiment_manifest \<Rightarrow> signature_scheme \<Rightarrow> nat" where
  "exact_output m s =
     (case em_key_disclosure m of CommitUntilSpend n \<Rightarrow> unat (revealed_public_keys m) * unat n | PublicKeyInOutput \<Rightarrow> exact_keys m s)"

definition exact_spend :: "experiment_manifest \<Rightarrow> signature_scheme \<Rightarrow> nat" where
  "exact_spend m s =
     exact_signatures m s + (case em_key_disclosure m of CommitUntilSpend _ \<Rightarrow> exact_keys m s | PublicKeyInOutput \<Rightarrow> 0)"

definition exact_weight :: "experiment_manifest \<Rightarrow> signature_scheme \<Rightarrow> nat" where
  "exact_weight m s =
     (case em_placement m of Placed_Witness \<Rightarrow> exact_spend m s | Placed_Stripped \<Rightarrow> 4 * exact_spend m s) + 4 * exact_output m s"

lemmas exact_defs = exact_signatures_def exact_keys_def exact_output_def exact_spend_def exact_weight_def

lemma bytes_Inr:
  "bytes_mul a b = Inr c \<longleftrightarrow> unat c = unat a * unat b"
  "bytes_add a b = Inr c \<longleftrightarrow> unat c = unat a + unat b"
proof -
  have bound: "unat x < 2 ^ 64" for x :: u64 using unsigned_less [of x, where 'a = nat] by simp
  have mul: "unat a * unat b < 2 ^ 64 \<Longrightarrow> unat (a * b) = unat a * unat b" using unat_mult_lem [of a b] by simp
  have add: "unat a + unat b < 2 ^ 64 \<Longrightarrow> unat (a + b) = unat a + unat b" using unat_add_lem [of a b] by simp
  show "bytes_mul a b = Inr c \<longleftrightarrow> unat c = unat a * unat b"
    using mul bound [of c] by (auto simp: bytes_mul_def word_unat_eq_iff)
  show "bytes_add a b = Inr c \<longleftrightarrow> unat c = unat a + unat b"
    using add bound [of c] by (auto simp: bytes_add_def word_unat_eq_iff)
qed

lemma bytes_fit:
  "unat a * unat b < 2 ^ 64 \<Longrightarrow> \<exists>c. bytes_mul a b = Inr c" "unat a + unat b < 2 ^ 64 \<Longrightarrow> \<exists>c. bytes_add a b = Inr c"
  by (simp_all add: bytes_mul_def bytes_add_def)

lemma unat_div_ceil_4: "unat (div_ceil w 4) = (unat w + 3) div 4"
proof -
  have "unat w div 4 < 2 ^ 62" using unsigned_less [of w, where 'a = nat] by simp
  then have "unat (w div 4) + 1 < 2 ^ 64" by (simp add: unat_div)
  then have "unat (w div 4 + 1) = unat w div 4 + 1" using unat_add_lem [of "w div 4" 1] by (simp add: unat_div)
  moreover have "w mod 4 > 0 \<longleftrightarrow> unat w mod 4 > 0" by (simp add: word_less_nat_alt unat_mod)
  ultimately show ?thesis by (auto simp: div_ceil_def unat_div) presburger+
qed

definition projects :: "experiment_manifest \<Rightarrow> signature_scheme \<Rightarrow> authorization_projection \<Rightarrow> bool" where
  "projects m s p \<longleftrightarrow> ap_scheme p = s \<and> unat (ap_signature_bytes p) = exact_signatures m s \<and>
     unat (ap_public_key_bytes p) = exact_keys m s \<and> unat (ap_output_commitment_bytes p) = exact_output m s \<and>
     unat (ap_total_authorization_bytes p) = exact_spend m s + exact_output m s \<and>
     unat (ap_authorization_weight p) = exact_weight m s \<and> unat (ap_virtual_bytes p) = (exact_weight m s + 3) div 4"

lemma project_sound:
  assumes "project_authorization m s = Inr p"
  shows "projects m s p" "revealed_public_keys m \<le> signature_checks m"
  using assms
  by (auto simp: project_authorization_def manifest_validate_def and_then_eq_Inr bytes_Inr projects_def exact_defs unat_div_ceil_4
      split: if_splits key_disclosure.splits authorization_placement.splits)

lemma project_complete:
  assumes "revealed_public_keys m \<le> signature_checks m" "exact_weight m s < 2 ^ 64"
  shows "\<exists>p. project_authorization m s = Inr p"
proof -
  have small: "exact_signatures m s < 2 ^ 64" "exact_keys m s < 2 ^ 64" "exact_spend m s < 2 ^ 64"
    "exact_spend m s + exact_output m s < 2 ^ 64" "exact_output m s * 4 < 2 ^ 64"
    using assms(2) by (auto simp: exact_weight_def exact_spend_def exact_output_def split: key_disclosure.splits authorization_placement.splits)
  obtain sig where sig: "bytes_mul (signature_checks m) (scheme_signature_bytes s) = Inr sig" "unat sig = exact_signatures m s"
    using bytes_fit(1) small(1) by (metis bytes_Inr(1) exact_signatures_def)
  obtain key where key: "bytes_mul (revealed_public_keys m) (scheme_public_key_bytes s) = Inr key" "unat key = exact_keys m s"
    using bytes_fit(1) small(2) by (metis bytes_Inr(1) exact_keys_def)
  obtain spk out where out: "(case em_key_disclosure m of
        CommitUntilSpend n \<Rightarrow> and_then (bytes_mul (revealed_public_keys m) n) (\<lambda>c. Inr (key, c)) | PublicKeyInOutput \<Rightarrow> Inr (0, key)) = Inr (spk, out)"
    "unat out = exact_output m s" "exact_signatures m s + unat spk = exact_spend m s"
  proof (cases "em_key_disclosure m")
    case (CommitUntilSpend n)
    with small(5) have "unat (revealed_public_keys m) * unat n < 2 ^ 64" by (simp add: exact_output_def mult.commute)
    then obtain c where "bytes_mul (revealed_public_keys m) n = Inr c" using bytes_fit(1) by blast
    with CommitUntilSpend key(2) that [of key c] show thesis by (simp add: exact_output_def exact_spend_def bytes_Inr)
  next
    case PublicKeyInOutput
    with key(2) that [of 0 key] show thesis by (simp add: exact_output_def exact_spend_def)
  qed
  obtain spend where spend: "bytes_add sig spk = Inr spend" "unat spend = exact_spend m s"
    using bytes_fit(2) [of sig spk] small(3) sig(2) out(3) by (auto simp: bytes_Inr)
  obtain total where total: "bytes_add spend out = Inr total" using bytes_fit(2) [of spend out] small(4) spend(2) out(2) by auto
  obtain w where w: "(case em_placement m of Placed_Witness \<Rightarrow> Inr spend | Placed_Stripped \<Rightarrow> bytes_mul spend 4) = Inr w"
    "unat w + 4 * exact_output m s = exact_weight m s"
    using assms(2) spend(2) bytes_fit(1) [of spend 4] by (cases "em_placement m") (auto simp: exact_weight_def bytes_Inr)
  obtain ow where ow: "bytes_mul out 4 = Inr ow" "unat ow = exact_output m s * 4"
    using bytes_fit(1) [of out 4] small(5) out(2) by (auto simp: bytes_Inr)
  obtain weight where "bytes_add w ow = Inr weight" using bytes_fit(2) [of w ow] w(2) ow(2) assms(2) by auto
  with assms(1) sig(1) key(1) out(1) spend(1) total w(1) ow(1) show ?thesis
    by (simp add: project_authorization_def manifest_validate_def not_less [symmetric])
qed

lemma project_refused:
  assumes "project_authorization m s = Inl e"
  shows "e = (if revealed_public_keys m > signature_checks m then MoreKeysThanSignatureChecks else ByteCountOverflow)"
  using assms
  by (auto simp: project_authorization_def manifest_validate_def and_then_eq_Inl bytes_mul_def bytes_add_def
      split: if_splits key_disclosure.splits authorization_placement.splits)

lemma project_Inr_iff:
  "(\<exists>p. project_authorization m s = Inr p) \<longleftrightarrow> revealed_public_keys m \<le> signature_checks m \<and> exact_weight m s < 2 ^ 64"
proof
  assume "\<exists>p. project_authorization m s = Inr p"
  then obtain p where p: "project_authorization m s = Inr p" by blast
  have "unat (ap_authorization_weight p) < 2 ^ 64" using unsigned_less [of "ap_authorization_weight p", where 'a = nat] by simp
  with project_sound [OF p] show "revealed_public_keys m \<le> signature_checks m \<and> exact_weight m s < 2 ^ 64" by (simp add: projects_def)
qed (use project_complete in blast)

lemma count_verified_counts:
  "count_verified v items (a, b) = Inr (a', b') \<Longrightarrow>
    a' = a + length (filter (\<lambda>i. sv_verify v i = Inr True) items) \<and> a' + b' = a + b + length items"
proof (induction items arbitrary: a b)
  case (Cons i items)
  then obtain ok where ok: "sv_verify v i = Inr ok"
    "count_verified v items (if ok then (a + 1, b) else (a, b + 1)) = Inr (a', b')" by (auto simp: and_then_eq_Inr)
  with Cons.IH show ?case by (cases ok) fastforce+
qed simp

subsection \<open>Descriptions identify manifests\<close>

lemma digits_value_chars: "digits_value base acc s = Some v \<Longrightarrow> c \<in> set s \<Longrightarrow> hex_value c \<noteq> None"
  by (induction base acc s rule: digits_value.induct) (auto split: option.splits if_splits)

lemma no_semicolon: "CHR '';'' \<notin> set (decimal n)"
  using digits_value_chars [OF decimal_read_back, of "CHR '';''"] by (auto simp: hex_value_def)

lemma field_unique:
  assumes "a @ CHR '';'' # x = b @ CHR '';'' # y" "CHR '';'' \<notin> set a" "CHR '';'' \<notin> set b"
  shows "a = b \<and> x = y"
proof -
  have "takeWhile (\<lambda>c. c \<noteq> CHR '';'') (z @ CHR '';'' # w) = z" if "CHR '';'' \<notin> set z" for z w
    using that by (induction z) auto
  with assms have "a = b" by metis
  with assms(1) show ?thesis by simp
qed

lemma decimal_inject: "decimal m = decimal n \<longleftrightarrow> m = n"
  by (metis decimal_read_back option.inject)

lemma disclosure_text_inject: "disclosure_text a = disclosure_text b \<longleftrightarrow> a = b"
  by (cases a; cases b) (auto simp: disclosure_text_def decimal_inject word_unat_eq_iff)

lemma disclosure_no_semicolon: "CHR '';'' \<notin> set (disclosure_text d)"
  using no_semicolon by (auto simp: disclosure_text_def split: key_disclosure.splits)

definition description_tail :: "experiment_manifest \<Rightarrow> string" where
  "description_tail m = ''disclosure='' @ disclosure_text (em_key_disclosure m) @ '';placement='' @ placement_name (em_placement m)"

lemma canonical_description_fields:
  "canonical_description m = RESEARCH_MODEL_VERSION @ '';checks='' @ (decimal (unat (signature_checks m)) @ CHR '';'' #
     ''keys='' @ (decimal (unat (revealed_public_keys m)) @ CHR '';'' # description_tail m))"
  by (simp add: canonical_description_def description_tail_def)

lemma description_tail_inject:
  assumes "description_tail a = description_tail b"
  shows "em_key_disclosure a = em_key_disclosure b" "em_placement a = em_placement b"
proof -
  let ?p = "\<lambda>m. ''placement='' @ placement_name (em_placement m)"
  have "disclosure_text (em_key_disclosure a) @ CHR '';'' # ?p a = disclosure_text (em_key_disclosure b) @ CHR '';'' # ?p b"
    using assms by (simp add: description_tail_def)
  from field_unique [OF this disclosure_no_semicolon disclosure_no_semicolon]
  show "em_key_disclosure a = em_key_disclosure b" "em_placement a = em_placement b"
    by (auto simp: disclosure_text_inject placement_name_def split: authorization_placement.splits)
qed

lemma canonical_description_inject: "canonical_description a = canonical_description b \<longleftrightarrow> a = b"
proof
  let ?k = "\<lambda>m. decimal (unat (revealed_public_keys m)) @ CHR '';'' # description_tail m"
  assume "canonical_description a = canonical_description b"
  then have "decimal (unat (signature_checks a)) @ CHR '';'' # ''keys='' @ ?k a =
      decimal (unat (signature_checks b)) @ CHR '';'' # ''keys='' @ ?k b"
    unfolding canonical_description_fields by (simp only: same_append_eq)
  from field_unique [OF this no_semicolon no_semicolon]
  have 1: "unat (signature_checks a) = unat (signature_checks b)" and keys: "?k a = ?k b"
    unfolding decimal_inject same_append_eq by blast+
  from field_unique [OF keys no_semicolon no_semicolon]
  have 2: "unat (revealed_public_keys a) = unat (revealed_public_keys b)" and tail: "description_tail a = description_tail b"
    unfolding decimal_inject by blast+
  from 1 2 description_tail_inject [OF tail] show "a = b" by (simp add: word_unat_eq_iff)
qed simp

lemma nibbles: "unat (drop_bit 4 (b :: u8)) = unat b div 16" "unat (b AND 0x0f) = unat b mod 16"
proof -
  have "unat (drop_bit 4 b) = drop_bit 4 (take_bit 8 (unat b))" using unsigned_drop_bit_eq [of 4 b, where ?'a = nat] by simp
  moreover have "take_bit 8 (unat b) = unat b" using unat_byte_lt [of b] by (simp add: take_bit_nat_eq_self_iff)
  ultimately show "unat (drop_bit 4 b) = unat b div 16" by (simp add: drop_bit_eq_div)
  have m: "(0x0f :: nat) = mask 4" by (simp add: mask_eq_exp_minus_1)
  have "unat (b AND 0x0f) = unat b AND 0x0f" by (simp add: unsigned_and_eq)
  then show "unat (b AND 0x0f) = unat b mod 16" unfolding m by (simp only: take_bit_eq_mask [symmetric] take_bit_eq_mod) simp
qed

lemma encode_hex_text: "encode_hex bs = hex_text bs"
proof -
  have "fold (\<lambda>b e. e @ [HEX ! unat (drop_bit 4 b)] @ [HEX ! unat (b AND 0x0f)]) bs acc = acc @ hex_text bs" for acc
  proof (induction bs arbitrary: acc)
    case (Cons b bs)
    have "unat (drop_bit 4 b) = unat b div 16" "unat (b AND 0x0f) = unat b mod 16" by (rule nibbles)+
    with Cons show ?case by (simp add: hex_text_def hex_digit_def HEX_def)
  qed (simp add: hex_text_def)
  then show ?thesis by (simp add: encode_hex_def)
qed

subsection \<open>What the command answers\<close>

text \<open>C28: a projection is exact or refused.  It is refused exactly when more keys are revealed than signatures are checked or
  when the weight does not fit 64 bits; otherwise every byte count, the weight and the virtual size are those of
  unbounded arithmetic.\<close>

theorem projection_exact:
  "case project_authorization m s of
     Inr p \<Rightarrow> revealed_public_keys m \<le> signature_checks m \<and> exact_weight m s < 2 ^ 64 \<and> projects m s p
   | Inl e \<Rightarrow>
       revealed_public_keys m > signature_checks m \<and> e = MoreKeysThanSignatureChecks \<or>
       revealed_public_keys m \<le> signature_checks m \<and> 2 ^ 64 \<le> exact_weight m s \<and> e = ByteCountOverflow"
proof (cases "project_authorization m s")
  case (Inl e)
  then show ?thesis using project_refused [OF Inl] project_complete [of m s] by (auto simp: not_less intro: leI)
next
  case (Inr p)
  then show ?thesis using project_sound(1) [OF Inr] project_Inr_iff [of m s] by auto
qed

lemma collect_results_Inr: "(\<exists>xs. collect_results rs = Inr xs) \<longleftrightarrow> (\<forall>r \<in> set rs. \<exists>x. r = Inr x)"
  by (induction rs) (auto simp: and_then_eq_Inr)

lemma set_all_schemes: "set all_schemes = UNIV"
proof -
  have "s \<in> set all_schemes" for s by (cases s) (simp_all add: all_schemes_def)
  then show ?thesis by blast
qed

text \<open>The comparison is printed exactly when both names are known, no more keys than checks are given, and the weight of
  every scheme fits 64 bits.\<close>

theorem compare_prints_exactly:
  "(\<exists>r. run_research H (Compare checks public_keys disclosure placement commitment_bytes as_json) chain = Inr r) \<longleftrightarrow>
   (\<exists>d p. parse_disclosure disclosure commitment_bytes = Inr d \<and> parse_placement placement = Inr p \<and> public_keys \<le> checks \<and>
      (\<forall>s. exact_weight \<lparr>signature_checks = checks, revealed_public_keys = public_keys, em_key_disclosure = d, em_placement = p\<rparr> s
         < 2 ^ 64))"
proof -
  let ?m = "\<lambda>d p. \<lparr>signature_checks = checks, revealed_public_keys = public_keys, em_key_disclosure = d, em_placement = p\<rparr>"
  have all: "(\<exists>xs. collect_results (map (project_authorization m) all_schemes) = Inr xs) \<longleftrightarrow> (\<forall>s. \<exists>p. project_authorization m s = Inr p)"
    for m by (simp add: collect_results_Inr set_all_schemes)
  have "(\<exists>r. run_research H (Compare checks public_keys disclosure placement commitment_bytes as_json) chain = Inr r) \<longleftrightarrow>
      (\<exists>d p. parse_disclosure disclosure commitment_bytes = Inr d \<and> parse_placement placement = Inr p \<and> public_keys \<le> checks \<and>
        (\<exists>b. project_authorization (?m d p) EcdsaSecp256k1 = Inr b) \<and>
        (\<exists>xs. collect_results (map (project_authorization (?m d p)) all_schemes) = Inr xs))"
    by (auto simp: and_then_eq_Inr map_err_eq_Inr manifest_validate_def not_less split: if_splits)
  then show ?thesis unfolding all by (auto simp: project_Inr_iff)
qed

end
