(* ===== verification/Monitor.thy ===== *)
theory Monitor
  imports Rpc
begin

text \<open>
  The terminal monitor, \<^verbatim>\<open>cmd/monitor/main.rs\<close>: its requests to the RPC server, the state it keeps between
  them, the texts it shows and the loop that reads keys.  A server is a function from requests to answers or
  transport errors; the clock text, elapsed time and key presses are inputs.  \<open>to_text\<close> is
  \<^verbatim>\<open>Value::to_string\<close> of serde.  Layout, colours and the terminal itself are outside the model.
\<close>

subsection \<open>State and requests\<close>

record app =
  app_rpc_url :: string
  app_blockchain_info :: "json option"
  app_network_info :: "json option"
  app_peers :: "json list"
  app_last_update :: string

definition app_new :: "string \<Rightarrow> app" where
  "app_new rpc_url =
     \<lparr>app_rpc_url = rpc_url, app_blockchain_info = None, app_network_info = None, app_peers = [], app_last_update = ''Never''\<rparr>"

definition monitor_request :: "string \<Rightarrow> rpc_request_wrapper" where
  "monitor_request name =
     Single \<lparr>rq_id = Id_String ''monitor'', rq_jsonrpc = ''1.0'', rq_method = name, rq_params = Some []\<rparr>"

type_synonym server = "rpc_request_wrapper \<Rightarrow> string + json"

text \<open>One poll: each answer is taken over before the next request; a transport error ends the poll.\<close>

definition app_update :: "server \<Rightarrow> string \<Rightarrow> app \<Rightarrow> (string + unit) \<times> app" where
  "app_update server clock app =
     (case server (monitor_request ''getblockchaininfo'') of
        Inl e \<Rightarrow> (Inl e, app)
      | Inr bc_res \<Rightarrow>
          let app = (case get_field ''result'' bc_res of Some res \<Rightarrow> app\<lparr>app_blockchain_info := Some res\<rparr> | None \<Rightarrow> app) in
          case server (monitor_request ''getnetworkinfo'') of
            Inl e \<Rightarrow> (Inl e, app)
          | Inr net_res \<Rightarrow>
              let app = (case get_field ''result'' net_res of Some res \<Rightarrow> app\<lparr>app_network_info := Some res\<rparr> | None \<Rightarrow> app) in
              case server (monitor_request ''getpeerinfo'') of
                Inl e \<Rightarrow> (Inl e, app)
              | Inr peer_res \<Rightarrow>
                  let app = (case get_field ''result'' peer_res of Some (JArray list) \<Rightarrow> app\<lparr>app_peers := list\<rparr> | _ \<Rightarrow> app)
                  in (Inr (), app\<lparr>app_last_update := clock\<rparr>))"

subsection \<open>The loop\<close>

text \<open>One round: the key that was read, whether a tick is due, and what the server would answer to either poll.\<close>

record round =
  rd_key :: "char option"
  rd_tick_due :: bool
  rd_key_server :: server
  rd_key_clock :: string
  rd_tick_server :: server
  rd_tick_clock :: string

definition key_pressed :: "round \<Rightarrow> app \<Rightarrow> app" where
  "key_pressed r app = (if rd_key r = Some (CHR ''r'') then snd (app_update (rd_key_server r) (rd_key_clock r) app) else app)"

definition ticked :: "round \<Rightarrow> app \<Rightarrow> app" where
  "ticked r app = (if rd_tick_due r then snd (app_update (rd_tick_server r) (rd_tick_clock r) app) else app)"

text \<open>The states drawn, in order; the loop ends with the key \<^verbatim>\<open>q\<close>.\<close>

fun draw_loop :: "round list \<Rightarrow> app \<Rightarrow> app list" where
  "draw_loop [] app = [app]"
| "draw_loop (r # rounds) app =
     app # (if rd_key r = Some (CHR ''q'') then [] else draw_loop rounds (ticked r (key_pressed r app)))"

definition run_app :: "server \<Rightarrow> string \<Rightarrow> round list \<Rightarrow> app \<Rightarrow> app list" where
  "run_app server clock rounds app = draw_loop rounds (snd (app_update server clock app))"

subsection \<open>What is shown\<close>

definition info_text :: "string \<Rightarrow> string \<Rightarrow> json option \<Rightarrow> string" where
  "info_text name none info =
     (case Option.bind (Option.bind info (get_field name)) as_str of Some s \<Rightarrow> s | None \<Rightarrow> none)"

definition info_value :: "(json \<Rightarrow> string) \<Rightarrow> string \<Rightarrow> json option \<Rightarrow> string" where
  "info_value to_text name info =
     (case Option.bind info (get_field name) of Some v \<Rightarrow> to_text v | None \<Rightarrow> ''0'')"

definition header_text :: "app \<Rightarrow> string" where
  "header_text app =
     '' Bitcrab Node Monitor | Version: '' @ info_text ''subversion'' ''bitcrab'' (app_network_info app) @
     '' | Last Update: '' @ app_last_update app @ '' | Press '' @ [CHR 0x27] @ ''q'' @ [CHR 0x27] @ '' to quit''"

definition short_hash :: "string \<Rightarrow> string" where
  "short_hash s = (if length s > 20 then take 20 s @ ''...'' else s)"

definition stats_text :: "(json \<Rightarrow> string) \<Rightarrow> app \<Rightarrow> string list" where
  "stats_text to_text app =
     (let info = app_blockchain_info app in
      ['' Network    : '' @ info_text ''chain'' ''unknown'' info,
       '' Headers    : '' @ info_value to_text ''headers'' info,
       '' Blocks     : '' @ info_value to_text ''blocks'' info,
       '' Connections: '' @ decimal (length (app_peers app)),
       '' Block Tip : '' @ short_hash (info_text ''bestblockhash'' ''unknown'' info)])"

definition format_conntime :: "u64 \<Rightarrow> string" where
  "format_conntime t =
     (if t > 3600 then decimal (unat (t div 3600)) @ ''h '' @ decimal (unat (t mod 3600 div 60)) @ ''m''
      else if t > 60 then decimal (unat (t div 60)) @ ''m '' @ decimal (unat (t mod 60)) @ ''s''
      else decimal (unat t) @ ''s'')"

definition peer_row :: "(json \<Rightarrow> string) \<Rightarrow> json \<Rightarrow> string list" where
  "peer_row to_text p =
     [info_text ''addr'' ''?'' (Some p), info_text ''subver'' ''?'' (Some p),
      (case get_field ''startingheight'' p of Some v \<Rightarrow> to_text v | None \<Rightarrow> ''?''),
      format_conntime (case Option.bind (get_field ''conntime'' p) as_u64 of Some t \<Rightarrow> t | None \<Rightarrow> 0)]"

subsection \<open>The monitor of a node\<close>

text \<open>The RPC server of one state of the node.\<close>

definition node_server :: "digests \<Rightarrow> hex_codec \<Rightarrow> error_texts \<Rightarrow> 'c rpc_context \<Rightarrow> server" where
  "node_server H X texts ctx = (\<lambda>req. Inr (handle_http_request H X texts (\<lambda>_. ctx) req))"

lemma node_server_result:
  "get_field ''result'' (projr (node_server H X texts ctx (monitor_request name))) =
     (case map_http_requests H X texts \<lparr>rq_id = Id_String ''monitor'', rq_jsonrpc = ''1.0'', rq_method = name, rq_params = Some []\<rparr> ctx of
        Inr v \<Rightarrow> Some v | Inl _ \<Rightarrow> None)"
  by (simp add: node_server_def monitor_request_def handle_http_request_def rpc_response_fields(3))

lemma update_from_node:
  assumes "handle_getblockchaininfo X ctx = Inr v"
  shows "\<exists>net. handle_getnetworkinfo ctx = Inr net \<and>
    app_update (node_server H X texts ctx) clock app =
      (Inr (), app\<lparr>app_blockchain_info := Some v, app_network_info := Some net,
         app_peers := map peer_info (zip [0..<length (get_peers (nt_table (cm_net (rx_p2p ctx))) None)]
           (get_peers (nt_table (cm_net (rx_p2p ctx))) None)), app_last_update := clock\<rparr>)"
proof -
  let ?req = "\<lambda>name. \<lparr>rq_id = Id_String ''monitor'', rq_jsonrpc = ''1.0'', rq_method = name, rq_params = Some []\<rparr>"
  obtain net where net: "handle_getnetworkinfo ctx = Inr net" by (simp add: handle_getnetworkinfo_def Let_def)
  have "map_http_requests H X texts (?req ''getblockchaininfo'') ctx = Inr v"
    "map_http_requests H X texts (?req ''getnetworkinfo'') ctx = Inr net"
    "map_http_requests H X texts (?req ''getpeerinfo'') ctx = handle_getpeerinfo ctx"
    using assms net dispatch(1,5,6) [where H = H and X = X and texts = texts and ctx = ctx] by simp_all
  then show ?thesis
    using net
    by (simp add: app_update_def node_server_def monitor_request_def handle_http_request_def rpc_response_fields(3)
        handle_getpeerinfo_def Let_def)
qed

text \<open>After a poll that reaches the node the monitor shows its header height, its validated height and its number of
  connections; a failed poll shows the old figures.\<close>

theorem monitor_shows_node:
  assumes "reports_readable bc" "rx_node ctx = blockchain_node texts bc" "\<And>i. 0 \<le> i \<Longrightarrow> to_text (JInt i) = decimal (nat i)"
  shows "\<exists>app'. app_update (node_server H X texts ctx) clock app = (Inr (), app') \<and>
    stats_text to_text app' ! 1 = '' Headers    : '' @
      decimal (unat (tip_height (\<lambda>h. map_option bi_height (tree_of (bc_db bc) h)) (ok_flatten (get_headers_tip (bc_db bc))))) \<and>
    stats_text to_text app' ! 2 = '' Blocks     : '' @
      decimal (unat (tip_height (\<lambda>h. map_option bi_height (tree_of (bc_db bc) h)) (ok_flatten (rpc_get_best_block bc)))) \<and>
    stats_text to_text app' ! 3 = '' Connections: '' @ decimal (get_peer_count (nt_table (cm_net (rx_p2p ctx)))) \<and>
    app_update (\<lambda>_. Inl e) clock app' = (Inl e, app')"
proof -
  obtain v where v: "handle_getblockchaininfo X ctx = Inr v"
    "get_field ''headers'' v = Some (JInt (uint (tip_height (\<lambda>h. map_option bi_height (tree_of (bc_db bc) h)) (ok_flatten (get_headers_tip (bc_db bc))))))"
    "get_field ''blocks'' v = Some (JInt (uint (tip_height (\<lambda>h. map_option bi_height (tree_of (bc_db bc) h)) (ok_flatten (rpc_get_best_block bc)))))"
    using node_rpc.status_answer(1) [OF assms(1,2), of X] by blast
  from update_from_node [OF v(1), where H = H and texts = texts and clock = clock and app = app]
  obtain app' where app': "app_update (node_server H X texts ctx) clock app = (Inr (), app')" "app_blockchain_info app' = Some v"
    "length (app_peers app') = length (get_peers (nt_table (cm_net (rx_p2p ctx))) None)"
    by auto
  show ?thesis
    using app' v(2,3) assms(3)
    by (intro exI [of _ app']) (simp add: stats_text_def info_value_def Let_def app_update_def get_peers_def get_peer_count_def)
qed

end
