(* ===== verification/Spec2Isabelle.thy ===== *)
theory Spec2Isabelle
  imports ScriptSpec LifeSpec Connection Research Monitor
begin

text \<open>
  A verification library for \<^verbatim>\<open>bitcrab\<close>, a Bitcoin full node in Rust.  File names are below \<^verbatim>\<open>src/crates\<close> unless
  they start with \<^verbatim>\<open>cmd\<close>, which is below \<^verbatim>\<open>src\<close>.

  \<^bold>\<open>The program.\<close>  The wire format and the data types (\<^verbatim>\<open>common\<close>) are used by everything.  The script engine
  (\<^verbatim>\<open>script\<close>) decides whether an input may be spent.  Consensus code (\<^verbatim>\<open>consensus\<close>) computes difficulty, checks
  headers, transactions and blocks, keeps a cache of unspent outputs and runs the chainstate actor, which
  connects stored blocks in height order.  The store (\<^verbatim>\<open>storage\<close>) keeps tables in a key-value engine and blocks in
  flat files; a single worker does all writes.  The orchestrator (\<^verbatim>\<open>node\<close>) sits between peers and the actor: it accepts
  headers and blocks, keeps the best header path in memory and answers the download engine and the RPC server.
  The network code (\<^verbatim>\<open>net/p2p\<close>) frames messages, performs handshakes, keeps peers and addresses and schedules
  downloads; \<^verbatim>\<open>net/rpc\<close> answers JSON requests.  The binaries (\<^verbatim>\<open>cmd\<close>) put the parts together.

  \<^bold>\<open>Conventions.\<close>  A struct is a record, an enum a datatype, a machine integer a word of its width, \<^verbatim>\<open>Result\<close> a sum with
  the error on the left, a panic an error or \<^term>\<open>None\<close>, a loop a recursive function; mutable state is passed and
  returned.  Awaited calls are sequential; what runs concurrently is an inductive step relation.  Code outside the
  repository is an argument: the records \<open>digests\<close> (SHA-256, RIPEMD-160, SHA-1), \<open>secp\<close> (secp256k1), \<open>hex_codec\<close>,
  \<open>rocksdb\<close>, \<open>addr_hasher\<close>, and functions for sockets, name resolution, clocks and random keys.  What the proofs need of
  them is a named hypothesis of documented behaviour (\<open>digest_sizes\<close>, \<open>hex_documented\<close>, the locale \<open>rocksdb_engine\<close>).

  \<^bold>\<open>Theories.\<close>
  \<^item> \<open>Prelude\<close>: machine types, results, vectors, little-endian bytes.
  \<^item> \<open>Wire\<close>, \<open>Hashes\<close>, \<open>Transaction\<close>, \<open>Block\<close>: \<^verbatim>\<open>common/wire\<close> and \<^verbatim>\<open>common/types\<close>.  The locales \<open>reader\<close>, \<open>codec\<close> and
    \<open>strict_codec\<close> state what a decoder promises (it stays in its buffer, reads back what is written, accepts only
    the canonical form); every type on the wire is an interpretation.
  \<^item> \<open>Compact\<close>, \<open>Pow\<close>: targets and \<^verbatim>\<open>consensus/pow.rs\<close>, limb by limb, against integer arithmetic.
  \<^item> \<open>ScriptBase\<close>, \<open>ScriptNum\<close>, \<open>ScriptOps\<close>, \<open>Sig\<close>, \<open>Taproot\<close>, \<open>Sighash\<close>, \<open>Checker\<close>, \<open>Interpreter\<close>, \<open>VerifyScript\<close>: the files of
    \<^verbatim>\<open>script\<close> in their order of use, every opcode and every path of \<^verbatim>\<open>verify_script\<close>.  \<open>ScriptInvariants\<close> shows what every
    execution keeps, \<open>ScriptSpends\<close> what a spend takes.
  \<^item> \<open>BlockFile\<close>, \<open>Storage\<close>: \<^verbatim>\<open>storage/block_file.rs\<close>, the tables, the in-memory backend, \<^verbatim>\<open>block_manager.rs\<close> and the reads of
    \<^verbatim>\<open>store.rs\<close>.  \<open>Engines\<close>: the trait of a backend as the locale \<open>storage_backend\<close>, satisfied by the in-memory backend
    and by \<^verbatim>\<open>rocksdb.rs\<close>.  \<open>StoreHandle\<close>: opening and the write methods of \<^verbatim>\<open>store.rs\<close>.  \<open>Restart\<close>: what survives a restart.
  \<^item> \<open>Coins\<close>, \<open>Signet\<close>, \<open>Validation\<close>: \<^verbatim>\<open>consensus/coins.rs\<close> with the locale \<open>coin_store\<close> of a store a cache is flushed to,
    \<^verbatim>\<open>signet.rs\<close>, \<^verbatim>\<open>engine.rs\<close> and \<^verbatim>\<open>validation.rs\<close>.  \<open>Ledger\<close> specifies a block on the set of unspent outputs and shows that
    \<open>connect_block\<close> refines it.
  \<^item> \<open>Chainstate\<close>, \<open>Activation\<close>: \<^verbatim>\<open>consensus/chainstate.rs\<close>, most work and activation.
  \<^item> \<open>HexText\<close>, \<open>Params\<close>, \<open>Texts\<close>: hash texts, chain parameters and the formatting the node uses.
  \<^item> \<open>Mempool\<close>, \<open>Blockchain\<close>: \<^verbatim>\<open>node\<close>.  \<open>HeaderTree\<close>, \<open>HeaderPath\<close>, \<open>TreeActivation\<close>: the header index as a tree, the path in
    memory, and that activation leaves both alone.
  \<^item> \<open>Messages\<close>, \<open>Framing\<close>, \<open>Handshake\<close>, \<open>Connection\<close>, \<open>AddrMan\<close>, \<open>PeerTable\<close>, \<open>Sync\<close>, \<open>PeerManager\<close>, \<open>Listener\<close>: \<^verbatim>\<open>net/p2p\<close>.  The network
    tasks are the relation \<open>net_step\<close>.  \<open>ChainProvider\<close> states the contract of the chain towards the network code as the
    locale \<open>chain_provider\<close>; \<open>NodeSync\<close> interprets it on the orchestrator.
  \<^item> \<open>Rpc\<close>: \<^verbatim>\<open>net/rpc\<close>, with the locale \<open>rpc_backend\<close> of a node that can report.
  \<^item> \<open>Startup\<close>: \<^verbatim>\<open>cmd/bitcrab\<close> and the life of a node across restarts, \<open>node_life\<close>.  \<open>Research\<close>: \<^verbatim>\<open>script/research.rs\<close>,
    \<^verbatim>\<open>script/signature_experiment.rs\<close> and the research command.  \<open>Monitor\<close>: \<^verbatim>\<open>cmd/monitor\<close>.
  \<^item> \<open>Samples\<close>: values for witnesses.  \<open>ScriptSpec\<close>, \<open>LedgerSpec\<close>, \<open>StorageSpec\<close>, \<open>NetSpec\<close>, \<open>NodeSpec\<close>, \<open>RpcSpec\<close>, \<open>LifeSpec\<close> and this
    theory state the properties.

  \<^bold>\<open>What is shown.\<close>  Consensus: a connected block conserves value up to the subsidy, whose sum is capped; the stateless
  transaction rules, fees, maturity and the retarget formula are exact; the coin cache implements the set of unspent
  outputs and a flush writes it; activation applies stored blocks in order.  Script: limits hold at every step, the
  multisignature loop, strict DER and the witness key hash spend are exact, and a witness is bound to the output it
  spends.  Storage: both engines agree, every block ever written is served after any number of restarts.  Network:
  a connection delivers exactly the messages written completely, whatever the reads, a handshake completes exactly on version and verack, workloads,
  address tables and quotas are invariants of every interleaving.  Node: from a start on an empty directory, through
  any peer messages and restarts, the header index is a tree with exact heights and work and its tip has most work; a
  wanted block is requested, accepted, stored and served to peers and over RPC.  Deviations the proofs brought to light
  are stated as theorems too: mainnet parameters panic, a refused coinbase value leaves the block in the cache,
  known headers cut the path in memory, a refused message header stalls its connection, the inbound limit can be
  passed, the startup repair ignores work.

  \<^bold>\<open>Bounds and fuel.\<close>  Every definition is total.  Loops over data recurse on it; the script loops measure the bytes left,
  which every instruction consumes; multi-limb division runs its fixed number of bits; an activation runs at most 128
  rounds and the startup scan at most 500000 heights, as in the code; the locator step doubles and is bounded by the
  height; \<open>digits\<close> has one more unit of fuel than the number it prints, and a number has fewer digits than its value
  plus one.  The walk of the header path counts heights down.  No property holds because fuel ran out.

  \<^bold>\<open>Not modelled.\<close>  The async runtime, sockets, files below their contents, serde, clap, bincode, logging, terminal output and
  engine tuning are libraries the code only calls.  The reference script engine is the C library of Bitcoin Core, built in
  by a feature that is off by default; without it the code answers with an error, and so does the model.  Test modules (\<^verbatim>\<open>consensus/differential.rs\<close>,
  \<^verbatim>\<open>script/tests.rs\<close>, \<^verbatim>\<open>script/taproot_tests.rs\<close>, \<^verbatim>\<open>net/p2p/tests.rs\<close>, \<^verbatim>\<open>src/test\<close>) are tests.  A stop of the node is clean: a power loss
  between a write and its \<^verbatim>\<open>fsync\<close> is outside the model.  Counters that only feed log lines or statistics are left out, and so
  are the notifications and tickers that only decide when a step runs, since every interleaving is considered.
\<close>

section \<open>Wire format and data types\<close>

text \<open>C39: a well-formed transaction, with or without witnesses, decodes from its own serialisation;
  and no serialisation is a prefix of a different one, so a stream of transactions parses in only one way.\<close>

theorem transaction_roundtrip:
  assumes "wf_tx tx"
  shows "decode_exact decode_transaction (serialize encode_transaction tx) label = Inr tx \<and>
    (\<forall>ty r r'. wf_tx ty \<longrightarrow> encode_transaction tx [] @ r = encode_transaction ty [] @ r' \<longrightarrow> tx = ty \<and> r = r')"
  using transaction.decode_exact_serialize [OF assms] transaction.prefix_free [OF assms] by blast

theorem transaction_roundtrip_witness:
  "decode_exact decode_transaction (serialize encode_transaction sample_tx) ''tx'' = Inr sample_tx"
  using transaction_roundtrip [OF sample_tx_wf] by blast

text \<open>Whatever bytes a peer sends, a successful transaction decode stays inside the buffer, does not move
  backwards and leaves the data alone.\<close>

theorem transaction_decoder_in_bounds:
  assumes "decode_transaction (decoder_new bs) = Inr (tx, d)"
  shows "dec_data d = bs \<and> dec_pos d \<le> length bs"
  using transaction.dec_safe [OF _ assms] by (auto simp: dec_valid_def)

theorem transaction_decoder_in_bounds_witness:
  "\<exists>d. decode_transaction (decoder_new (encode_transaction sample_tx [] @ [1, 2, 3])) = Inr (sample_tx, d) \<and>
     dec_data d = encode_transaction sample_tx [] @ [1, 2, 3] \<and>
     dec_pos d \<le> length (encode_transaction sample_tx [] @ [1, 2, 3])"
proof -
  let ?bs = "encode_transaction sample_tx [] @ [1, 2, 3]"
  obtain d where "decode_transaction (decoder_new ?bs) = Inr (sample_tx, d)"
    using transaction.dec_enc [OF decoder_new_simps(1) sample_tx_wf, of ?bs "[1, 2, 3]"] by simp
  with transaction_decoder_in_bounds [OF this] show ?thesis by blast
qed

text \<open>CompactSize is canonical: a byte string decodes to a value exactly when it is the one
  shortest encoding of that value.\<close>

theorem varint_canonical: "decode_exact decode_varint bs label = Inr v \<longleftrightarrow> bs = serialize encode_varint v"
  using varint.decode_exact_canonical varint.decode_exact_serialize by blast

text \<open>Blocks, headers, block index records and undo lists read back what was stored.\<close>

theorem storage_roundtrip:
  shows "(\<forall>b. wf_block b \<longrightarrow> decode_exact decode_block (serialize encode_block b) label = Inr b) \<and>
    (\<forall>bi. wf_block_index bi \<longrightarrow>
       decode_exact decode_block_index (serialize encode_block_index bi) label = Inr bi) \<and>
    (\<forall>u. wf_list wf_coin u \<longrightarrow>
       decode_exact decode_block_undo (serialize encode_block_undo u) label = Inr u)"
  using block.decode_exact_serialize block_index.decode_exact_serialize block_undo.decode_exact_serialize
  by blast

theorem storage_roundtrip_witness:
  "decode_exact decode_block (serialize encode_block \<lparr>header = sample_header, transactions = [sample_tx]\<rparr>) ''b''
     = Inr \<lparr>header = sample_header, transactions = [sample_tx]\<rparr> \<and>
   decode_exact decode_block_index (serialize encode_block_index sample_index) ''i'' = Inr sample_index \<and>
   decode_exact decode_block_undo (serialize encode_block_undo [coin_new (outputs sample_tx ! 0) 7 True]) ''u''
     = Inr [coin_new (outputs sample_tx ! 0) 7 True]"
proof -
  have "wf_block \<lparr>header = sample_header, transactions = [sample_tx]\<rparr>"
    by (simp add: wf_block_def sample_header_wf sample_tx_wf wf_list_def MAX_WIRE_ALLOCATION_def MAX_MESSAGE_SIZE_def)
  moreover have "wf_block_index sample_index"
    by (simp add: sample_index_def wf_block_index_def sample_header_wf wf_hash_def)
  moreover have "wf_list wf_coin [coin_new (outputs sample_tx ! 0) 7 True]"
    by (simp add: wf_list_def wf_coin_def coin_new_def sample_tx_def wf_txout_def wf_varbytes_def
        MAX_WIRE_ALLOCATION_def MAX_MESSAGE_SIZE_def)
  ultimately show ?thesis using storage_roundtrip by blast
qed

text \<open>The 80-byte header form is a bijection: the block hash commits to exactly the six fields.\<close>

theorem header_bijection:
  assumes "length bs = 80" "wf_header h"
  shows "header_serialize (header_deserialize bs) = bs \<and> header_deserialize (header_serialize h) = h \<and>
    length (header_serialize h) = 80"
  using header_serialize_deserialize [OF assms(1)] header_roundtrip [OF assms(2)]
    length_header_serialize [OF assms(2)] by simp

theorem header_bijection_witness:
  "header_serialize (header_deserialize (replicate 80 9)) = replicate 80 9 \<and>
   header_deserialize (header_serialize sample_header) = sample_header"
  using header_bijection [OF _ sample_header_wf, of "replicate 80 9"] by simp

text \<open>The transaction id does not depend on the witnesses, and the witness size the code computes is
  exactly what the witnesses add to the serialisation; block weight is three times the stripped size plus the
  full size.\<close>

theorem witness_discount:
  "txid H (strip_witness tx) = txid H tx \<and>
   length (serialize encode_transaction tx) =
     length (serialize encode_transaction (strip_witness tx)) + witness_serialized_size tx \<and>
   block_weight b = 3 * length (serialize encode_block (strip_block b)) + length (serialize encode_block b)"
  using txid_strip_witness [of H tx] length_encode_transaction [of tx] block_weight_eq [of b]
    encode_block_length [of b]
  unfolding serialize_def by linarith

text \<open>\<open>output_value\<close> is the exact sum of the outputs, and fails precisely when that sum leaves
  the monetary range; no wrap-around can hide value.\<close>

theorem output_value_exact:
  "output_value tx = (if sum_sats (outputs tx) \<le> unat MAX_MONEY
     then Some (word_of_nat (sum_sats (outputs tx))) else None)"
proof (cases "output_value tx")
  case None
  then show ?thesis
    using sum_outputs_Some [of amount_ZERO "outputs tx" "word_of_nat (sum_sats (outputs tx))"]
    by (auto simp: output_value_def amount_ZERO_def unat_MAX_MONEY unat_word_of_nat_u64)
next
  case (Some s)
  then have "sum_sats (outputs tx) \<le> unat MAX_MONEY \<and> unat s = sum_sats (outputs tx)"
    using sum_outputs_Some [of amount_ZERO "outputs tx" s] by (simp add: output_value_def amount_ZERO_def)
  then show ?thesis
    using Some by (simp add: word_unat_eq_iff unat_word_of_nat_u64 unat_MAX_MONEY)
qed

text \<open>A locator has at most 44 entries at any height; when every height resolves, it starts at the tip,
  strictly descends and ends at genesis.\<close>

theorem locator_short_and_complete:
  "length (build_block_locator tip f) \<le> 44 \<and>
   (\<exists>hs. build_block_locator tip (\<lambda>h. Some (g h)) = map g hs \<and> sorted_wrt (>) hs \<and> hs \<noteq> [] \<and>
      hd hs = unat tip \<and> last hs = 0)"
proof -
  have "unat tip \<le> U32_MAX" using unsigned_less [of tip, where ?'a = nat] by (simp add: U32_MAX_def)
  then have "length (build_block_locator tip f) \<le> 44"
    unfolding build_block_locator_def by (intro locator_loop_dense_bound) simp_all
  then show ?thesis
    using locator_loop_heights [of 1 g "[]" "unat tip"] by (simp add: build_block_locator_def)
qed

text \<open>The Merkle root does not see the transaction list: repeating the last transaction of an odd list
  of at least three gives the same root.\<close>

theorem merkle_root_duplicate:
  assumes "odd (length (transactions b))" "1 < length (transactions b)"
  shows "compute_merkle_root H (b\<lparr>transactions := transactions b @ [last (transactions b)]\<rparr>) =
    compute_merkle_root H b"
proof -
  let ?hs = "map (txid H) (transactions b)"
  have "last ?hs = txid H (last (transactions b))" using assms(2) by (intro last_map) auto
  then show ?thesis
    using merkle_loop_duplicate [of ?hs H] assms by (auto simp: compute_merkle_root_def)
qed

theorem merkle_root_duplicate_witness:
  "compute_merkle_root sample_digests
     \<lparr>header = sample_header, transactions = [sample_tx, sample_tx, sample_tx, sample_tx]\<rparr> =
   compute_merkle_root sample_digests \<lparr>header = sample_header, transactions = [sample_tx, sample_tx, sample_tx]\<rparr>"
  using merkle_root_duplicate [of "\<lparr>header = sample_header, transactions = [sample_tx, sample_tx, sample_tx]\<rparr>"
      sample_digests]
  by simp

section \<open>Proof of work\<close>

text \<open>Compact targets: encoding a 256-bit target of at least \<open>2\<^sup>1\<^sup>6\<close> and decoding it rounds down by less
  than one part in \<open>2\<^sup>1\<^sup>5\<close>, and a normalised compact value survives decoding and encoding.\<close>

theorem compact_target_precision:
  assumes "wf_hash t" "2 ^ 16 \<le> le_nat t" "normalised_bits bits"
  shows "le_nat (bits_to_target (target_to_bits t)) \<le> le_nat t \<and>
    (le_nat t - le_nat (bits_to_target (target_to_bits t))) * 2 ^ 15 < le_nat (bits_to_target (target_to_bits t)) \<and>
    target_to_bits (bits_to_target bits) = bits"
  using target_to_bits_floor [OF assms(1,2)] bits_target_roundtrip [OF assms(3)] by blast

theorem compact_target_precision_witness:
  "le_nat (bits_to_target (target_to_bits (replicate 31 0 @ [1]))) \<le> le_nat (replicate 31 0 @ [1]) \<and>
   target_to_bits (bits_to_target 0x1d00ffff) = 0x1d00ffff"
proof -
  have "wf_hash (replicate 31 0 @ [1])" by (simp add: wf_hash_def)
  moreover have "2 ^ 16 \<le> le_nat (replicate 31 0 @ [1])" by (simp add: le_nat_append)
  moreover have "normalised_bits 0x1d00ffff" by (simp add: normalised_bits_def)
  ultimately show ?thesis using compact_target_precision [of "replicate 31 0 @ [1]" "0x1d00ffff"] by blast
qed

text \<open>The bitwise long division computes the work of a header exactly: \<open>2\<^sup>2\<^sup>5\<^sup>6 / (target + 1)\<close>, and zero for a
  zero target.\<close>

theorem block_work_exact:
  "wf_hash (calculate_block_work bits) \<and>
   le_nat (calculate_block_work bits) =
     (if le_nat (bits_to_target bits) = 0 then 0 else 2 ^ 256 div (le_nat (bits_to_target bits) + 1))"
  using block_work_value by blast

text \<open>The 512-bit multiply-and-divide never loses a bit: it returns the exact quotient, or all ones
  when the quotient does not fit 256 bits; only a zero divisor panics.\<close>

theorem multiply_and_divide_exact:
  assumes "wf_hash t"
  shows "(multiply_and_divide t mul d = None \<longleftrightarrow> d = 0) \<and>
    (\<forall>r. multiply_and_divide t mul d = Some r \<longrightarrow>
       le_nat r = min (le_nat t * unat mul div unat d) (2 ^ 256 - 1))"
  using multiply_and_divide_value [OF assms, of d mul] by (cases "d = 0") (auto simp: multiply_and_divide_def)

theorem multiply_and_divide_exact_witness:
  "\<exists>r. multiply_and_divide (replicate 32 1) 7 3 = Some r \<and>
     le_nat r = min (le_nat (replicate 32 1) * unat (7 :: u64) div unat (3 :: u64)) (2 ^ 256 - 1)"
proof -
  have "wf_hash (replicate 32 1)" by (simp add: wf_hash_def)
  from multiply_and_divide_exact [OF this, of 7 3] show ?thesis
    by (cases "multiply_and_divide (replicate 32 1) 7 3") auto
qed

text \<open>C40: retargeting: the next bits encode the old target scaled by the clamped timespan, cut at the
  proof-of-work limit; the scaling is within a factor of four either way.\<close>

theorem retarget_formula:
  assumes "\<not> pow_no_retargeting params" "pow_target_timespan params \<noteq> 0"
    "unat (pow_target_timespan params) * 4 < 2 ^ 63" "wf_hash (pow_limit params)"
  shows "\<exists>r. calculate_next_work_required prev first params = Some (target_to_bits r) \<and> wf_hash r \<and>
    le_nat r = min (le_nat (pow_limit params))
      (le_nat (bits_to_target (bh_bits (bi_header prev))) *
         clamped_timespan params (bh_time (bi_header prev)) first div unat (pow_target_timespan params)) \<and>
    le_nat r \<le> 4 * le_nat (bits_to_target (bh_bits (bi_header prev)))"
proof -
  let ?t = "le_nat (bits_to_target (bh_bits (bi_header prev)))" and ?T = "unat (pow_target_timespan params)"
  have "clamped_timespan params (bh_time (bi_header prev)) first \<le> ?T * 4"
    by (simp add: clamped_timespan_def Let_def)
  then have "?t * clamped_timespan params (bh_time (bi_header prev)) first div ?T \<le> ?t * (?T * 4) div ?T"
    by (intro div_le_mono mult_left_mono) auto
  also have "\<dots> = 4 * ?t" using assms(2) by (simp add: unsigned_eq_0_iff)
  finally show ?thesis using next_work_value [OF assms, of prev first] by (metis min.coboundedI2)
qed

theorem retarget_formula_witness:
  "\<exists>r. calculate_next_work_required sample_index 1000000 mainnet_like = Some (target_to_bits r) \<and>
     le_nat r \<le> 4 * le_nat (bits_to_target 0x1d00ffff)"
  using retarget_formula [of mainnet_like sample_index 1000000]
  by (auto simp: mainnet_like_def sample_index_def sample_header_def wf_hash_def)

text \<open>Chain work adds as a 256-bit number, so a branch that extends another and does not overflow
  has at least as much work.\<close>

theorem chain_work_sum:
  assumes "wf_hash a" "wf_hash b"
  shows "wf_hash (add_chain_work a b) \<and> le_nat (add_chain_work a b) = (le_nat a + le_nat b) mod 2 ^ 256 \<and>
    (le_nat a + le_nat b < 2 ^ 256 \<longrightarrow> hash_le a (add_chain_work a b))"
  using add_chain_work_value [OF assms] assms by (simp add: hash_le_numeric)

theorem chain_work_sum_witness:
  "wf_hash (add_chain_work (replicate 32 1) (replicate 32 3)) \<and>
   le_nat (add_chain_work (replicate 32 1) (replicate 32 3)) = (le_nat (replicate 32 1) + le_nat (replicate 32 3)) mod 2 ^ 256"
  using chain_work_sum [of "replicate 32 1" "replicate 32 3"] by (simp add: wf_hash_def)

end
